(* ===== verification/RTC_Prelude.thy ===== *)
theory RTC_Prelude
  imports Main "HOL-Library.Word"
begin

unbundle bit_operations_syntax

text \<open>
  Shared vocabulary of the development: the machine integer types, the ways an operation of the
  C++ code can go wrong, byte buffers with checked accesses, bytes of a machine word as the
  little-endian host lays them out, bit fields, an ordered map standing for \<open>std::map\<close>,
  and the lens laws that every getter/setter pair of a packet header obeys.

  Conventions used by all theories. \<open>uint8_t\<close> \<dots> \<open>uint64_t\<close> are words of that width,
  \<open>size_t\<close> and pointer offsets are \<open>nat\<close>, \<open>int64_t\<close> millisecond values are \<open>int\<close>
  (clock values stay far away from the 64 bit limits); a conversion to a narrower integer is
  written out. A pointer into a buffer is an offset, and a buffer is the list of the bytes
  that the pointer may legally reach.
\<close>

section \<open>Machine types and failures\<close>

type_synonym u8 = "8 word"
type_synonym u16 = "16 word"
type_synonym u32 = "32 word"
type_synonym u64 = "64 word"
type_synonym bytes = "u8 list"

text \<open>
  \<open>Throw\<close> is a C++ exception (\<open>CSM_THROW_ERROR\<close>), \<open>AssertFail\<close> a failed \<open>assert\<close>,
  \<open>OutOfBounds\<close> a read or write outside the buffer, \<open>BadShift\<close> a shift by a negative amount
  or by the width of the type, \<open>NullDeref\<close> a member access through a null pointer, \<open>UseAfterFree\<close> a
  member access to a deleted object, \<open>Overlap\<close> a \<open>memcpy\<close> between overlapping regions, \<open>Overflow\<close> a signed addition that leaves its type; the language leaves all of these
  undefined. \<open>Diverges\<close> is the value of a loop whose fuel has run out.
\<close>

datatype cpp_error = Throw | AssertFail | OutOfBounds | BadShift | NullDeref | UseAfterFree | Overlap | Overflow | Diverges

type_synonym 'a res = "cpp_error + 'a"

definition rbind :: "'a res \<Rightarrow> ('a \<Rightarrow> 'b res) \<Rightarrow> 'b res" where
  "rbind m f = (case m of Inl e \<Rightarrow> Inl e | Inr x \<Rightarrow> f x)"

lemma rbind_simps [simp]:
  "rbind (Inl e) f = Inl e"
  "rbind (Inr x) f = f x"
  by (simp_all add: rbind_def)

lemma rbind_eq_Inr [simp]: "rbind m f = Inr y \<longleftrightarrow> (\<exists>x. m = Inr x \<and> f x = Inr y)"
  by (cases m) auto

lemma rbind_cong [fundef_cong]:
  "m = m' \<Longrightarrow> (\<And>x. m' = Inr x \<Longrightarrow> f x = g x) \<Longrightarrow> rbind m f = rbind m' g"
  by (cases m') auto

lemma rbind_assoc: "rbind (rbind m f) g = rbind m (\<lambda>x. rbind (f x) g)"
  by (cases m) auto

text \<open>An operation that reports failure by exceptions only: no access outside a buffer, no undefined
  shift, no failed assertion.\<close>

definition throws_only :: "'a res \<Rightarrow> bool" where
  "throws_only r \<longleftrightarrow> (\<forall>e. r = Inl e \<longrightarrow> e = Throw)"

named_theorems safe_intro \<open>introduction rules for \<open>throws_only\<close>\<close>

lemma throws_only_simps [simp]: "throws_only (Inr x)" "throws_only (Inl e) \<longleftrightarrow> e = Throw"
  by (simp_all add: throws_only_def)

lemma throws_only_rbind [safe_intro]:
  "throws_only m \<Longrightarrow> (\<And>x. m = Inr x \<Longrightarrow> throws_only (f x)) \<Longrightarrow> throws_only (rbind m f)"
  by (cases m) auto

lemma throws_only_if [safe_intro]:
  "(c \<Longrightarrow> throws_only x) \<Longrightarrow> (\<not> c \<Longrightarrow> throws_only y) \<Longrightarrow> throws_only (if c then x else y)"
  by simp

lemma throws_only_cases: "throws_only r \<Longrightarrow> r = Inl Throw \<or> (\<exists>x. r = Inr x)"
  by (cases r) (auto simp: throws_only_def)

named_theorems rtc_defs \<open>definitions unfolded by the component proofs\<close>

section \<open>Byte buffers\<close>

definition rd :: "bytes \<Rightarrow> nat \<Rightarrow> nat \<Rightarrow> bytes res" where
  \<comment> \<open>read \<open>n\<close> bytes at offset \<open>i\<close>\<close>
  "rd b i n = (if i + n \<le> length b then Inr (take n (drop i b)) else Inl OutOfBounds)"

definition rd8 :: "bytes \<Rightarrow> nat \<Rightarrow> u8 res" where
  "rd8 b i = (if i < length b then Inr (b ! i) else Inl OutOfBounds)"

definition poke :: "bytes \<Rightarrow> nat \<Rightarrow> bytes \<Rightarrow> bytes" where
  \<comment> \<open>the buffer with the bytes \<open>v\<close> stored at offset \<open>i\<close>\<close>
  "poke b i v = take i b @ v @ drop (i + length v) b"

definition wr :: "bytes \<Rightarrow> nat \<Rightarrow> bytes \<Rightarrow> bytes res" where
  "wr b i v = (if i + length v \<le> length b then Inr (poke b i v) else Inl OutOfBounds)"

lemma length_poke [simp]: "i + length v \<le> length b \<Longrightarrow> length (poke b i v) = length b"
  by (simp add: poke_def)

lemma nth_poke:
  assumes "i + length v \<le> length b" and "k < length b"
  shows "poke b i v ! k = (if i \<le> k \<and> k < i + length v then v ! (k - i) else b ! k)"
proof -
  consider "k < i" | "i \<le> k" "k < i + length v" | "i + length v \<le> k" by linarith
  then show ?thesis using assms by cases (auto simp: poke_def nth_append)
qed

lemma nth_poke_other [simp]:
  "i + length v \<le> length b \<Longrightarrow> k < length b \<Longrightarrow> k < i \<or> i + length v \<le> k
    \<Longrightarrow> poke b i v ! k = b ! k"
  by (auto simp: nth_poke)

lemma nth_poke_same [simp]:
  "i + length v \<le> length b \<Longrightarrow> i \<le> k \<Longrightarrow> k < i + length v \<Longrightarrow> poke b i v ! k = v ! (k - i)"
  by (simp add: nth_poke)

lemma nth_poke_0 [simp]: "0 < i \<Longrightarrow> i + length v \<le> length b \<Longrightarrow> poke b i v ! 0 = b ! 0"
  by (rule nth_poke_other) auto

lemma drop_poke_after [simp]:
  "i + length v \<le> length b \<Longrightarrow> i + length v \<le> j \<Longrightarrow> drop j (poke b i v) = drop j b"
  by (simp add: poke_def min_def drop_eq_Nil2)

lemma take_drop_poke_same [simp]:
  "i + length v \<le> length b \<Longrightarrow> take (length v) (drop i (poke b i v)) = v"
  by (simp add: poke_def)

lemma take_drop_poke_other:
  assumes "i + length v \<le> length b" and "j + n \<le> i \<or> i + length v \<le> j"
  shows "take n (drop j (poke b i v)) = take n (drop j b)"
proof (rule nth_equalityI)
  show "length (take n (drop j (poke b i v))) = length (take n (drop j b))"
    using assms by simp
  fix k assume "k < length (take n (drop j (poke b i v)))"
  then show "take n (drop j (poke b i v)) ! k = take n (drop j b) ! k"
    using assms by auto
qed

lemma take_poke_before [simp]:
  "i + length v \<le> length b \<Longrightarrow> n \<le> i \<Longrightarrow> take n (poke b i v) = take n b"
  using take_drop_poke_other [of i v b 0 n] by simp

lemma take_poke_within:
  "i + length v \<le> n \<Longrightarrow> n \<le> length b \<Longrightarrow> take n (poke b i v) = poke (take n b) i v"
  by (simp add: poke_def drop_take)

lemma poke_poke_same [simp]:
  "length w = length v \<Longrightarrow> i + length v \<le> length b \<Longrightarrow> poke (poke b i v) i w = poke b i w"
  by (simp add: poke_def)

lemma poke_self:
  "i + n \<le> length b \<Longrightarrow> poke b i (take n (drop i b)) = b"
  by (simp add: poke_def add.commute [of i] flip: drop_drop)

lemma poke_commute:
  assumes "i + length v \<le> length b" "j + length w \<le> length b" "i + length v \<le> j \<or> j + length w \<le> i"
  shows "poke (poke b i v) j w = poke (poke b j w) i v"
proof (rule nth_equalityI)
  show "length (poke (poke b i v) j w) = length (poke (poke b j w) i v)"
    using assms by simp
  fix k assume "k < length (poke (poke b i v) j w)"
  then show "poke (poke b i v) j w ! k = poke (poke b j w) i v ! k"
    using assms by (auto simp: nth_poke)
qed

lemma wr_Inr [simp]: "wr b i v = Inr b' \<longleftrightarrow> i + length v \<le> length b \<and> b' = poke b i v"
  by (auto simp: wr_def)

lemma rd_Inr [simp]: "rd b i n = Inr v \<longleftrightarrow> i + n \<le> length b \<and> v = take n (drop i b)"
  by (auto simp: rd_def)

lemma rd8_Inr [simp]: "rd8 b i = Inr v \<longleftrightarrow> i < length b \<and> v = b ! i"
  by (auto simp: rd8_def)

lemma access_ok [simp]:
  "i < length b \<Longrightarrow> rd8 b i = Inr (b ! i)"
  "i + n \<le> length b \<Longrightarrow> rd b i n = Inr (take n (drop i b))"
  "i + length v \<le> length b \<Longrightarrow> wr b i v = Inr (poke b i v)"
  by (simp_all add: rd8_def rd_def wr_def)

section \<open>Bytes of a machine word\<close>

text \<open>
  \<open>byte_of k w\<close> is \<open>((uint8_t*)&w)[k]\<close> on the little-endian hosts the code is written for, and
  \<open>of_bytes_le\<close> rebuilds the object from its bytes in memory order.
\<close>

definition byte_of :: "nat \<Rightarrow> 'a::len word \<Rightarrow> u8" where
  "byte_of k w = ucast (drop_bit (8 * k) w)"

fun of_bytes_le :: "bytes \<Rightarrow> 'a::len word" where
  "of_bytes_le [] = 0"
| "of_bytes_le (b # bs) = ucast b OR push_bit 8 (of_bytes_le bs)"

lemma bit_byte_of: "bit (byte_of k w) n \<longleftrightarrow> n < 8 \<and> bit w (8 * k + n)"
  by (auto simp: byte_of_def bit_simps)

lemma bit_of_bytes_le:
  "bit (of_bytes_le bs :: 'a::len word) n \<longleftrightarrow>
     n < LENGTH('a) \<and> n div 8 < length bs \<and> bit (bs ! (n div 8)) (n mod 8)"
proof (induction bs arbitrary: n)
  case Nil
  then show ?case by simp
next
  case (Cons b bs)
  show ?case
  proof (cases "n < 8")
    case True
    then show ?thesis by (auto simp: bit_simps)
  next
    case False
    then obtain m where n: "n = m + 8" by (metis add.commute le_Suc_ex not_less)
    moreover have "\<not> bit b (m + 8)" using bit_imp_le_length [of b "m + 8"] by auto
    moreover have "(m + 8) div 8 = Suc (m div 8)" by simp
    ultimately show ?thesis by (auto simp: bit_simps Cons.IH)
  qed
qed

lemma byte_of_of_bytes_le [simp]:
  assumes "k < length bs" and "8 * length bs \<le> LENGTH('a)"
  shows "byte_of k (of_bytes_le bs :: 'a::len word) = bs ! k"
proof (rule bit_word_eqI)
  fix n assume "n < LENGTH(8)"
  then show "bit (byte_of k (of_bytes_le bs :: 'a word)) n = bit (bs ! k) n"
    using assms by (auto simp: bit_byte_of bit_of_bytes_le)
qed

lemma of_bytes_le_bytes:
  "of_bytes_le (map (\<lambda>k. byte_of k (w :: 'a::len word)) [0..<n]) = (take_bit (8 * n) w :: 'a word)"
proof (rule bit_word_eqI)
  fix m assume m: "m < LENGTH('a)"
  have "8 * (m div 8) + m mod 8 = m" by simp
  moreover have "m div 8 < n \<longleftrightarrow> m < 8 * n" by linarith
  ultimately show "bit (of_bytes_le (map (\<lambda>k. byte_of k w) [0..<n]) :: 'a word) m
      = bit (take_bit (8 * n) w) m"
    using m by (auto simp: bit_of_bytes_le bit_byte_of bit_take_bit_iff)
qed

text \<open>Network byte order: \<open>be n w\<close> are the low \<open>n\<close> bytes of \<open>w\<close>, most significant first
  (what \<open>htons\<close>/\<open>htonl\<close> followed by a store leaves in memory), \<open>of_be\<close> reads them back.\<close>

definition be :: "nat \<Rightarrow> 'a::len word \<Rightarrow> bytes" where
  "be n w = rev (map (\<lambda>k. byte_of k w) [0..<n])"

definition of_be :: "bytes \<Rightarrow> 'a::len word" where
  "of_be bs = of_bytes_le (rev bs)"

lemma length_be [simp]: "length (be n w) = n"
  by (simp add: be_def)

lemma of_be_be: "of_be (be n w) = take_bit (8 * n) (w :: 'a::len word)"
  by (simp add: of_be_def be_def of_bytes_le_bytes)

lemma of_be_be_full [simp]:
  "of_be (be 2 w) = (w :: u16)" "of_be (be 4 v) = (v :: u32)" "of_be (be 8 x) = (x :: u64)"
  by (simp_all add: of_be_be take_bit_word_eq_self)

lemma be_of_be [simp]:
  assumes "length bs = n" and "8 * n \<le> LENGTH('a)"
  shows "be n (of_be bs :: 'a::len word) = bs"
proof -
  have "map (\<lambda>k. byte_of k (of_bytes_le (rev bs) :: 'a word)) [0..<n] = rev bs"
    using assms by (intro nth_equalityI) auto
  then show ?thesis by (simp add: be_def of_be_def)
qed

lemma be_take_bit: "be n (take_bit (8 * n) w) = be n w"
  by (auto simp: be_def bit_byte_of bit_take_bit_iff intro!: bit_word_eqI)

lemma be_expand:
  "be 2 w = [byte_of 1 w, byte_of 0 w]"
  "be 3 w = [byte_of 2 w, byte_of 1 w, byte_of 0 w]"
  "be 4 w = [byte_of 3 w, byte_of 2 w, byte_of 1 w, byte_of 0 w]"
  by (simp_all add: be_def upt_rec numeral_2_eq_2 numeral_3_eq_3)

text \<open>A 16 or 32 bit member of a packed struct, read with \<open>ntohs\<close>/\<open>ntohl\<close> and written with
  \<open>htons\<close>/\<open>htonl\<close>.\<close>

definition fld2 :: "nat \<Rightarrow> bytes \<Rightarrow> u16" where
  "fld2 i b = of_be (take 2 (drop i b))"

definition set_fld2 :: "nat \<Rightarrow> u16 \<Rightarrow> bytes \<Rightarrow> bytes" where
  "set_fld2 i v b = poke b i (be 2 v)"

definition fld4 :: "nat \<Rightarrow> bytes \<Rightarrow> u32" where
  "fld4 i b = of_be (take 4 (drop i b))"

definition set_fld4 :: "nat \<Rightarrow> u32 \<Rightarrow> bytes \<Rightarrow> bytes" where
  "set_fld4 i v b = poke b i (be 4 v)"

lemma length_set_fld [simp]:
  "i + 2 \<le> length b \<Longrightarrow> length (set_fld2 i w b) = length b"
  "i + 4 \<le> length b \<Longrightarrow> length (set_fld4 i v b) = length b"
  by (simp_all add: set_fld2_def set_fld4_def)

lemma fld_set_same [simp]:
  "i + 2 \<le> length b \<Longrightarrow> fld2 i (set_fld2 i w b) = w"
  "i + 4 \<le> length b \<Longrightarrow> fld4 i (set_fld4 i v b) = v"
  using take_drop_poke_same [of i "be 2 w" b] take_drop_poke_same [of i "be 4 v" b]
  by (simp_all add: fld2_def set_fld2_def fld4_def set_fld4_def)

lemma fld_poke_other [simp]:
  "i + length v \<le> length b \<Longrightarrow> j + 2 \<le> i \<or> i + length v \<le> j \<Longrightarrow> fld2 j (poke b i v) = fld2 j b"
  "i + length v \<le> length b \<Longrightarrow> j + 4 \<le> i \<or> i + length v \<le> j \<Longrightarrow> fld4 j (poke b i v) = fld4 j b"
  by (simp_all add: fld2_def fld4_def take_drop_poke_other)

lemma fld_set_other [simp]:
  "i + 4 \<le> length b \<Longrightarrow> j + 4 \<le> i \<or> i + 4 \<le> j \<Longrightarrow> fld4 j (set_fld4 i v b) = fld4 j b"
  "i + 4 \<le> length b \<Longrightarrow> j + 2 \<le> i \<or> i + 4 \<le> j \<Longrightarrow> fld2 j (set_fld4 i v b) = fld2 j b"
  "i + 2 \<le> length b \<Longrightarrow> j + 4 \<le> i \<or> i + 2 \<le> j \<Longrightarrow> fld4 j (set_fld2 i w b) = fld4 j b"
  "i + 2 \<le> length b \<Longrightarrow> j + 2 \<le> i \<or> i + 2 \<le> j \<Longrightarrow> fld2 j (set_fld2 i w b) = fld2 j b"
  by (simp_all add: set_fld2_def set_fld4_def)

lemma nth_set_fld [simp]:
  "i + 4 \<le> length b \<Longrightarrow> k < length b \<Longrightarrow> k < i \<or> i + 4 \<le> k \<Longrightarrow> set_fld4 i v b ! k = b ! k"
  "i + 2 \<le> length b \<Longrightarrow> k < length b \<Longrightarrow> k < i \<or> i + 2 \<le> k \<Longrightarrow> set_fld2 i w b ! k = b ! k"
  by (simp_all add: set_fld2_def set_fld4_def)

lemma fld_prefix:
  "i + 2 \<le> n \<Longrightarrow> fld2 i (take n b) = fld2 i b" "i + 4 \<le> n \<Longrightarrow> fld4 i (take n b) = fld4 i b"
  by (simp_all add: fld2_def fld4_def drop_take min_def)

section \<open>Bit fields\<close>

text \<open>A C bit field of \<open>n\<close> bits starting at bit \<open>lo\<close> of its storage unit.\<close>

definition get_bits :: "nat \<Rightarrow> nat \<Rightarrow> 'a::len word \<Rightarrow> 'a word" where
  "get_bits lo n w = take_bit n (drop_bit lo w)"

definition set_bits :: "nat \<Rightarrow> nat \<Rightarrow> 'a::len word \<Rightarrow> 'a word \<Rightarrow> 'a word" where
  "set_bits lo n v w = (w AND NOT (push_bit lo (mask n))) OR push_bit lo (take_bit n v)"

lemma bit_get_bits: "bit (get_bits lo n w) k \<longleftrightarrow> k < n \<and> bit w (lo + k)"
  by (auto simp: get_bits_def bit_simps)

lemma bit_set_bits:
  "bit (set_bits lo n v (w :: 'a::len word)) k \<longleftrightarrow>
     k < LENGTH('a) \<and> (if lo \<le> k \<and> k < lo + n then bit v (k - lo) else bit w k)"
  by (auto simp: set_bits_def bit_simps dest: bit_imp_le_length)

lemma get_set_bits [simp]:
  "lo + n \<le> LENGTH('a) \<Longrightarrow> get_bits lo n (set_bits lo n v (w :: 'a::len word)) = take_bit n v"
  by (rule bit_word_eqI) (auto simp: bit_get_bits bit_set_bits bit_simps)

lemma get_set_bits_other [simp]:
  "lo + n \<le> lo' \<or> lo' + n' \<le> lo \<Longrightarrow> get_bits lo' n' (set_bits lo n v w) = get_bits lo' n' w"
  by (rule bit_word_eqI) (auto simp: bit_get_bits bit_set_bits dest: bit_imp_le_length)

lemma set_get_bits [simp]: "set_bits lo n (get_bits lo n w) w = w"
  by (rule bit_word_eqI) (auto simp: bit_get_bits bit_set_bits dest: bit_imp_le_length)

lemma set_set_bits [simp]: "set_bits lo n v' (set_bits lo n v w) = set_bits lo n v' w"
  by (rule bit_word_eqI) (auto simp: bit_set_bits)

section \<open>Ordered maps\<close>

text \<open>
  \<open>std::map\<close> iterates in key order, so it is an association list that is strictly sorted by key:
  \<open>find\<close>, \<open>operator[]\<close>/\<open>insert\<close> and \<open>erase\<close>.
\<close>

type_synonym ('k, 'v) omap = "('k \<times> 'v) list"

definition om_ok :: "('k::linorder, 'v) omap \<Rightarrow> bool" where
  "om_ok m \<longleftrightarrow> sorted_wrt (<) (map fst m)"

definition om_find :: "('k::linorder, 'v) omap \<Rightarrow> 'k \<Rightarrow> 'v option" where
  "om_find m k = map_of m k"

fun om_insert :: "'k::linorder \<Rightarrow> 'v \<Rightarrow> ('k, 'v) omap \<Rightarrow> ('k, 'v) omap" where
  "om_insert k v [] = [(k, v)]"
| "om_insert k v ((k', v') # m) =
     (if k < k' then (k, v) # (k', v') # m
      else if k = k' then (k, v) # m
      else (k', v') # om_insert k v m)"

definition om_erase :: "'k::linorder \<Rightarrow> ('k, 'v) omap \<Rightarrow> ('k, 'v) omap" where
  "om_erase k m = filter (\<lambda>kv. fst kv \<noteq> k) m"

lemma om_ok_simps [simp]:
  "om_ok []"
  "om_ok ((k, v) # m) \<longleftrightarrow> (\<forall>k' \<in> fst ` set m. k < k') \<and> om_ok m"
  by (auto simp: om_ok_def)

lemma fst_set_om_insert [simp]: "fst ` set (om_insert k v m) = insert k (fst ` set m)"
  by (induction k v m rule: om_insert.induct) auto

lemma om_ok_insert [simp]: "om_ok m \<Longrightarrow> om_ok (om_insert k v m)"
  by (induction k v m rule: om_insert.induct) auto

lemma om_ok_erase [simp]: "om_ok m \<Longrightarrow> om_ok (om_erase k m)"
  by (simp add: om_ok_def om_erase_def sorted_wrt_map sorted_wrt_filter)

lemma om_find_empty [simp]: "om_find [] k = None"
  by (simp add: om_find_def)

lemma om_find_insert [simp]:
  "om_ok m \<Longrightarrow> om_find (om_insert k v m) k' = (if k' = k then Some v else om_find m k')"
  by (induction k v m rule: om_insert.induct)
    (auto simp: om_find_def map_of_eq_None_iff[symmetric] split: if_splits)

lemma om_find_erase [simp]:
  "om_find (om_erase k m) k' = (if k' = k then None else om_find m k')"
  by (induction m) (auto simp: om_find_def om_erase_def)

lemma om_find_None: "om_find m k = None \<longleftrightarrow> k \<notin> fst ` set m"
  by (simp add: om_find_def map_of_eq_None_iff)

lemma om_ok_distinct: "om_ok m \<Longrightarrow> distinct (map fst m)"
  by (simp add: om_ok_def strict_sorted_iff)

lemma om_find_Some: "om_ok m \<Longrightarrow> om_find m k = Some v \<longleftrightarrow> (k, v) \<in> set m"
  by (simp add: om_find_def om_ok_distinct)

lemma set_om_insert_subset: "set (om_insert k v m) \<subseteq> insert (k, v) (set m)"
  by (induction k v m rule: om_insert.induct) auto

text \<open>What a client of \<open>std::map\<close> relies on.\<close>

locale ordered_map =
  fixes empty :: "'m"
    and find :: "'m \<Rightarrow> 'k::linorder \<Rightarrow> 'v option"
    and ins :: "'k \<Rightarrow> 'v \<Rightarrow> 'm \<Rightarrow> 'm"
    and del :: "'k \<Rightarrow> 'm \<Rightarrow> 'm"
    and ok :: "'m \<Rightarrow> bool"
  assumes ok_empty: "ok empty"
    and ok_ins: "ok m \<Longrightarrow> ok (ins k v m)"
    and ok_del: "ok m \<Longrightarrow> ok (del k m)"
    and find_empty: "find empty k = None"
    and find_ins: "ok m \<Longrightarrow> find (ins k v m) k' = (if k' = k then Some v else find m k')"
    and find_del: "ok m \<Longrightarrow> find (del k m) k' = (if k' = k then None else find m k')"
begin

definition ins_absent :: "('k \<Rightarrow> 'v) \<Rightarrow> 'k list \<Rightarrow> 'm \<Rightarrow> 'm" where
  "ins_absent f ks m = fold (\<lambda>k m. if find m k = None then ins k (f k) m else m) ks m"

lemma ok_ins_absent: "ok m \<Longrightarrow> ok (ins_absent f ks m)"
  by (induction ks arbitrary: m) (auto simp: ins_absent_def ok_ins)

lemma find_ins_absent:
  "ok m \<Longrightarrow> find (ins_absent f ks m) k =
     (case find m k of Some v \<Rightarrow> Some v | None \<Rightarrow> if k \<in> set ks then Some (f k) else None)"
  by (induction ks arbitrary: m) (auto simp: ins_absent_def ok_ins find_ins split: option.splits)

end

interpretation om: ordered_map "[]" om_find om_insert om_erase om_ok
  by unfold_locales simp_all

section \<open>Lens laws of header fields\<close>

text \<open>
  A getter/setter pair of a packet class. \<open>ok\<close> says that the object's buffer holds the field and
  \<open>rng\<close> which values fit into it.
\<close>

locale lens =
  fixes getf :: "'s \<Rightarrow> 'v"
    and putf :: "'v \<Rightarrow> 's \<Rightarrow> 's"
    and ok :: "'s \<Rightarrow> bool"
    and rng :: "'v \<Rightarrow> bool"
  assumes ok_put: "ok s \<Longrightarrow> ok (putf v s)"
    and rng_get: "ok s \<Longrightarrow> rng (getf s)"
    and get_put: "ok s \<Longrightarrow> rng v \<Longrightarrow> getf (putf v s) = v"
    and put_put: "ok s \<Longrightarrow> putf v (putf u s) = putf v s"
    and put_get: "ok s \<Longrightarrow> putf (getf s) s = s"
begin

lemma restore: "ok s \<Longrightarrow> putf (getf s) (putf v s) = s"
  by (simp add: put_put put_get)

end

text \<open>Two fields that do not overlap: writing one leaves the other alone.\<close>

locale lens_pair =
  A: lens getA putA ok rngA + B: lens getB putB ok rngB
  for getA :: "'s \<Rightarrow> 'a" and putA and getB :: "'s \<Rightarrow> 'b" and putB and ok and rngA and rngB +
  assumes comm: "ok s \<Longrightarrow> putA a (putB b s) = putB b (putA a s)"
begin

lemma getA_putB: "ok s \<Longrightarrow> getA (putB b s) = getA s"
  by (metis A.get_put A.put_get A.rng_get B.ok_put comm)

lemma getB_putA: "ok s \<Longrightarrow> getB (putA a s) = getB s"
  by (metis B.get_put B.put_get B.rng_get A.ok_put comm)

lemma restore_both: "ok s \<Longrightarrow> putB (getB s) (putA (getA s) (putA a (putB b s))) = s"
  by (simp add: A.put_put B.ok_put comm A.put_get B.put_put A.ok_put flip: comm)
     (metis A.put_get B.put_get B.put_put comm)

end

section \<open>Maps into lists\<close>

lemma map_update_same: "f y = f (xs ! i) \<Longrightarrow> map f (xs[i := y]) = map f xs"
  by (metis list_update_id map_update)

definition refs_below :: "nat \<Rightarrow> ('k \<times> nat) list \<Rightarrow> bool" where
  \<comment> \<open>a map holds positions of a list of length \<open>n\<close>\<close>
  "refs_below n m \<longleftrightarrow> (\<forall>i \<in> snd ` set m. i < n)"

lemma refs_below_Nil [simp]: "refs_below n []"
  by (simp add: refs_below_def)

lemma refs_below_find: "refs_below n m \<Longrightarrow> om_find m k = Some i \<Longrightarrow> i < n"
  by (force simp: refs_below_def om_find_def dest: map_of_SomeD)

lemma refs_below_insert [simp]: "refs_below n m \<Longrightarrow> i < n \<Longrightarrow> refs_below n (om_insert k i m)"
  using set_om_insert_subset [of k i m] by (force simp: refs_below_def)

lemma refs_below_Suc [simp]: "refs_below n m \<Longrightarrow> refs_below (Suc n) m"
  by (force simp: refs_below_def)

end
