(* ===== verification/Byte_Stream.thy ===== *)
theory Byte_Stream
  imports RTC_Prelude
begin

text \<open>
  \<open>ByteStream\<close> of \<open>utils/byte_stream.hpp\<close>: fixed-width integers read from and written to
  memory in network or little-endian order. \<open>data\<close> is a buffer and an offset into it; every
  byte access is checked. \<open>ByteInt2Double\<close>/\<open>ByteDouble2Int\<close> reinterpret a double and are left out.
\<close>

section \<open>Reading\<close>

definition Read8Bytes :: "bytes \<Rightarrow> nat \<Rightarrow> u64 res" where
  "Read8Bytes b i = rbind (rd b i 8) (\<lambda>d.
     Inr (of_bytes_le [d!7, d!6, d!5, d!4, d!3, d!2, d!1, d!0]))"

definition Read8BytesLe :: "bytes \<Rightarrow> nat \<Rightarrow> u64 res" where
  "Read8BytesLe b i = rbind (rd b i 8) (\<lambda>d.
     Inr (of_bytes_le [d!0, d!1, d!2, d!3, d!4, d!5, d!6, d!7]))"

definition Read4Bytes :: "bytes \<Rightarrow> nat \<Rightarrow> u32 res" where
  "Read4Bytes b i = rbind (rd b i 4) (\<lambda>d. Inr (of_bytes_le [d!3, d!2, d!1, d!0]))"

definition Read4BytesLe :: "bytes \<Rightarrow> nat \<Rightarrow> u32 res" where
  "Read4BytesLe b i = rbind (rd b i 4) (\<lambda>d. Inr (of_bytes_le [d!0, d!1, d!2, d!3]))"

definition Read3Bytes :: "bytes \<Rightarrow> nat \<Rightarrow> u32 res" where
  "Read3Bytes b i = rbind (rd b i 3) (\<lambda>d. Inr (of_bytes_le [d!2, d!1, d!0]))"

definition Read3BytesLe :: "bytes \<Rightarrow> nat \<Rightarrow> u32 res" where
  "Read3BytesLe b i = rbind (rd b i 3) (\<lambda>d. Inr (of_bytes_le [d!0, d!1, d!2]))"

definition Read2Bytes :: "bytes \<Rightarrow> nat \<Rightarrow> u16 res" where
  "Read2Bytes b i = rbind (rd b i 2) (\<lambda>d. Inr (of_bytes_le [d!1, d!0]))"

definition Read2BytesLe :: "bytes \<Rightarrow> nat \<Rightarrow> u16 res" where
  "Read2BytesLe b i = rbind (rd b i 2) (\<lambda>d. Inr (of_bytes_le [d!0, d!1]))"

section \<open>Writing\<close>

definition Write8Bytes :: "bytes \<Rightarrow> nat \<Rightarrow> u64 \<Rightarrow> bytes res" where
  "Write8Bytes b i v = wr b i [byte_of 7 v, byte_of 6 v, byte_of 5 v, byte_of 4 v,
     byte_of 3 v, byte_of 2 v, byte_of 1 v, byte_of 0 v]"

definition Write8Bytes_le :: "bytes \<Rightarrow> nat \<Rightarrow> u64 \<Rightarrow> bytes res" where
  "Write8Bytes_le b i v = wr b i [byte_of 0 v, byte_of 1 v, byte_of 2 v, byte_of 3 v,
     byte_of 4 v, byte_of 5 v, byte_of 6 v, byte_of 7 v]"

definition Write4Bytes :: "bytes \<Rightarrow> nat \<Rightarrow> u32 \<Rightarrow> bytes res" where
  "Write4Bytes b i v = wr b i [byte_of 3 v, byte_of 2 v, byte_of 1 v, byte_of 0 v]"

definition Write2Bytes_le :: "bytes \<Rightarrow> nat \<Rightarrow> u32 \<Rightarrow> bytes res" where
  \<comment> \<open>the parameter is 32 bits wide, its upper half is dropped\<close>
  "Write2Bytes_le b i v = wr b i [byte_of 0 v, byte_of 1 v]"

definition Write4Bytes_le :: "bytes \<Rightarrow> nat \<Rightarrow> u32 \<Rightarrow> bytes res" where
  "Write4Bytes_le b i v = wr b i [byte_of 0 v, byte_of 1 v, byte_of 2 v, byte_of 3 v]"

definition Write3Bytes :: "bytes \<Rightarrow> nat \<Rightarrow> u32 \<Rightarrow> bytes res" where
  "Write3Bytes b i v = wr b i [byte_of 2 v, byte_of 1 v, byte_of 0 v]"

definition Write2Bytes :: "bytes \<Rightarrow> nat \<Rightarrow> u16 \<Rightarrow> bytes res" where
  "Write2Bytes b i v = wr b i [byte_of 1 v, byte_of 0 v]"

section \<open>Comparison and padding\<close>

function bytes_eq_from :: "bytes \<Rightarrow> bytes \<Rightarrow> nat \<Rightarrow> nat \<Rightarrow> bool res" where
  "bytes_eq_from p1 p2 index len =
     (if index < len
      then rbind (rd8 p1 index) (\<lambda>a. rbind (rd8 p2 index) (\<lambda>b.
             if a \<noteq> b then Inr False else bytes_eq_from p1 p2 (Suc index) len))
      else Inr True)"
  by pat_completeness auto
termination by (relation "measure (\<lambda>(p1, p2, index, len). len - index)") auto

definition BytesIsEqual :: "bytes \<Rightarrow> bytes \<Rightarrow> nat \<Rightarrow> bool res" where
  "BytesIsEqual p1 p2 len = bytes_eq_from p1 p2 0 len"

definition PadTo4Bytes16 :: "u16 \<Rightarrow> u16" where
  "PadTo4Bytes16 sz = (if sz AND 0x03 \<noteq> 0 then (sz AND 0xFFFC) + 4 else sz)"

definition PadTo4Bytes32 :: "u32 \<Rightarrow> u32" where
  "PadTo4Bytes32 sz = (if sz AND 0x03 \<noteq> 0 then (sz AND 0xFFFFFFFC) + 4 else sz)"

section \<open>Normal forms\<close>

lemma rev_nth4: "length d = 4 \<Longrightarrow> [d!3, d!2, d!1, d!0] = rev d"
  by (auto intro!: nth_equalityI simp: less_Suc_eq rev_nth numeral_eq_Suc)

lemma rev_nth3: "length d = 3 \<Longrightarrow> [d!2, d!1, d!0] = rev d"
  by (auto intro!: nth_equalityI simp: less_Suc_eq rev_nth numeral_eq_Suc)

lemma rev_nth2: "length d = 2 \<Longrightarrow> [d!1, d!0] = rev d"
  by (auto intro!: nth_equalityI simp: less_Suc_eq rev_nth numeral_eq_Suc)

lemma rev_nth8: "length d = 8 \<Longrightarrow> [d!7, d!6, d!5, d!4, d!3, d!2, d!1, d!0] = rev d"
  by (auto intro!: nth_equalityI simp: less_Suc_eq rev_nth numeral_eq_Suc)

lemma nth_list8: "length d = 8 \<Longrightarrow> [d!0, d!1, d!2, d!3, d!4, d!5, d!6, d!7] = d"
  by (auto intro!: nth_equalityI simp: less_Suc_eq numeral_eq_Suc)

lemma nth_list4: "length d = 4 \<Longrightarrow> [d!0, d!1, d!2, d!3] = d"
  by (auto intro!: nth_equalityI simp: less_Suc_eq numeral_eq_Suc)

lemma nth_list3: "length d = 3 \<Longrightarrow> [d!0, d!1, d!2] = d"
  by (auto intro!: nth_equalityI simp: less_Suc_eq numeral_eq_Suc)

lemma nth_list2: "length d = 2 \<Longrightarrow> [d!0, d!1] = d"
  by (auto intro!: nth_equalityI simp: less_Suc_eq numeral_eq_Suc)

lemma Read_be:
  "Read8Bytes b i = rbind (rd b i 8) (\<lambda>d. Inr (of_be d))"
  "Read4Bytes b i = rbind (rd b i 4) (\<lambda>d. Inr (of_be d))"
  "Read3Bytes b i = rbind (rd b i 3) (\<lambda>d. Inr (of_be d))"
  "Read2Bytes b i = rbind (rd b i 2) (\<lambda>d. Inr (of_be d))"
  unfolding Read8Bytes_def Read4Bytes_def Read3Bytes_def Read2Bytes_def
  by (simp_all add: rd_def of_be_def rev_nth8 rev_nth4 rev_nth3 rev_nth2
      del: of_bytes_le.simps nth_take nth_drop One_nat_def)

lemma be_expand8:
  "be 8 w = [byte_of 7 w, byte_of 6 w, byte_of 5 w, byte_of 4 w,
             byte_of 3 w, byte_of 2 w, byte_of 1 w, byte_of 0 w]"
  by (simp add: be_def upt_rec numeral_eq_Suc)

lemma Write_be:
  "Write8Bytes b i v8 = wr b i (be 8 v8)"
  "Write4Bytes b i v4 = wr b i (be 4 v4)"
  "Write3Bytes b i v4 = wr b i (be 3 v4)"
  "Write2Bytes b i v2 = wr b i (be 2 v2)"
  by (simp_all add: Write8Bytes_def Write4Bytes_def Write3Bytes_def Write2Bytes_def be_expand be_expand8)

section \<open>The storage interface of the packet classes\<close>

text \<open>
  What the packet parsers and builders rely on: a store succeeds exactly when the field lies in the
  buffer, it writes \<open>width\<close> bytes, and a load returns what was stored and looks at nothing else.
\<close>

locale int_codec =
  fixes store :: "bytes \<Rightarrow> nat \<Rightarrow> 'v \<Rightarrow> bytes res"
    and load :: "bytes \<Rightarrow> nat \<Rightarrow> 'v res"
    and width :: nat
    and rng :: "'v \<Rightarrow> bool"
  assumes store_ok: "i + width \<le> length b \<Longrightarrow> \<exists>bs. length bs = width \<and> store b i v = Inr (poke b i bs)"
    and store_fail: "\<not> i + width \<le> length b \<Longrightarrow> store b i v = Inl OutOfBounds"
    and load_store: "store b i v = Inr b' \<Longrightarrow> rng v \<Longrightarrow> load b' i = Inr v"
    and load_fail: "\<not> i + width \<le> length b \<Longrightarrow> load b i = Inl OutOfBounds"
    and load_cong: "i + width \<le> length b \<Longrightarrow> i + width \<le> length b' \<Longrightarrow>
      take width (drop i b) = take width (drop i b') \<Longrightarrow> load b i = load b' i"
begin

lemma store_Inr_iff: "(\<exists>b'. store b i v = Inr b') \<longleftrightarrow> i + width \<le> length b"
  using store_ok store_fail by (metis Inl_Inr_False)

lemma length_store: "store b i v = Inr b' \<Longrightarrow> length b' = length b"
  using store_ok [of i b v] store_Inr_iff [of b i v] by auto

lemma roundtrip: "i + width \<le> length b \<Longrightarrow> rng v \<Longrightarrow> rbind (store b i v) (\<lambda>b'. load b' i) = Inr v"
  using store_Inr_iff [of b i v] load_store by fastforce

lemma load_store_other:
  assumes "store b i v = Inr b'" and "j + width \<le> i \<or> i + width \<le> j"
  shows "load b' j = load b j"
proof (cases "j + width \<le> length b")
  case True
  from assms(1) obtain bs where "length bs = width" "b' = poke b i bs" "i + width \<le> length b"
    using store_ok [of i b v] store_Inr_iff [of b i v] by auto
  with True assms(2) show ?thesis
    by (intro load_cong) (auto simp: take_drop_poke_other)
next
  case False
  with length_store [OF assms(1)] show ?thesis by (simp add: load_fail)
qed

end

lemma int_codec_wr:
  fixes enc :: "'v \<Rightarrow> bytes" and dec :: "bytes \<Rightarrow> 'v"
  assumes "\<And>v. length (enc v) = n" and "\<And>v. rng v \<Longrightarrow> dec (enc v) = v"
  shows "int_codec (\<lambda>b i v. wr b i (enc v)) (\<lambda>b i. rbind (rd b i n) (\<lambda>d. Inr (dec d))) n rng"
proof
  fix i and b :: bytes and v assume "i + n \<le> length b"
  then show "\<exists>bs. length bs = n \<and> wr b i (enc v) = Inr (poke b i bs)"
    using assms(1) by (intro exI [of _ "enc v"]) (simp add: wr_def)
next
  fix b i v b' assume "wr b i (enc v) = Inr b'" "rng v"
  then show "rbind (rd b' i n) (\<lambda>d. Inr (dec d)) = Inr v"
    using assms take_drop_poke_same [of i "enc v" b] by auto
qed (auto simp: wr_def rd_def assms(1))

lemma be_le: "rev (be n w) = map (\<lambda>k. byte_of k w) [0..<n]"
  by (simp add: be_def)

lemma Read_le:
  "Read8BytesLe b i = rbind (rd b i 8) (\<lambda>d. Inr (of_bytes_le d))"
  "Read4BytesLe b i = rbind (rd b i 4) (\<lambda>d. Inr (of_bytes_le d))"
  "Read3BytesLe b i = rbind (rd b i 3) (\<lambda>d. Inr (of_bytes_le d))"
  "Read2BytesLe b i = rbind (rd b i 2) (\<lambda>d. Inr (of_bytes_le d))"
  unfolding Read8BytesLe_def Read4BytesLe_def Read3BytesLe_def Read2BytesLe_def
  by (simp_all add: rd_def nth_list8 nth_list4 nth_list3 nth_list2
      del: of_bytes_le.simps nth_take nth_drop One_nat_def)

lemma Write_le:
  "Write8Bytes_le b i v8 = wr b i (rev (be 8 v8))"
  "Write4Bytes_le b i v4 = wr b i (rev (be 4 v4))"
  "Write2Bytes_le b i v4 = wr b i (rev (be 2 v4))"
  by (simp_all add: Write8Bytes_le_def Write4Bytes_le_def Write2Bytes_le_def be_expand be_expand8)

interpretation be8: int_codec Write8Bytes Read8Bytes 8 "\<lambda>_. True"
  using int_codec_wr [of "be 8" 8 "\<lambda>_. True" "of_be :: bytes \<Rightarrow> u64"]
  by (simp add: Write_be [abs_def] Read_be [abs_def])

interpretation be4: int_codec Write4Bytes Read4Bytes 4 "\<lambda>_. True"
  using int_codec_wr [of "be 4" 4 "\<lambda>_. True" "of_be :: bytes \<Rightarrow> u32"]
  by (simp add: Write_be [abs_def] Read_be [abs_def])

interpretation be3: int_codec Write3Bytes Read3Bytes 3 "\<lambda>v. take_bit 24 v = v"
  using int_codec_wr [of "be 3" 3 "\<lambda>v. take_bit 24 v = v" "of_be :: bytes \<Rightarrow> u32"]
  by (simp add: Write_be [abs_def] Read_be [abs_def] of_be_be)

interpretation be2: int_codec Write2Bytes Read2Bytes 2 "\<lambda>_. True"
  using int_codec_wr [of "be 2" 2 "\<lambda>_. True" "of_be :: bytes \<Rightarrow> u16"]
  by (simp add: Write_be [abs_def] Read_be [abs_def])

interpretation le8: int_codec Write8Bytes_le Read8BytesLe 8 "\<lambda>_. True"
  using int_codec_wr [of "\<lambda>v. rev (be 8 v)" 8 "\<lambda>_. True" "of_bytes_le :: bytes \<Rightarrow> u64"]
  by (simp add: Write_le [abs_def] Read_le [abs_def] be_le of_bytes_le_bytes take_bit_word_eq_self)

interpretation le4: int_codec Write4Bytes_le Read4BytesLe 4 "\<lambda>_. True"
  using int_codec_wr [of "\<lambda>v. rev (be 4 v)" 4 "\<lambda>_. True" "of_bytes_le :: bytes \<Rightarrow> u32"]
  by (simp add: Write_le [abs_def] Read_le [abs_def] be_le of_bytes_le_bytes take_bit_word_eq_self)

section \<open>Properties\<close>

declare bytes_eq_from.simps [simp del]

lemma bytes_eq_from_iff:
  "len \<le> length p1 \<Longrightarrow> len \<le> length p2 \<Longrightarrow> index \<le> len \<Longrightarrow>
     bytes_eq_from p1 p2 index len = Inr (drop index (take len p1) = drop index (take len p2))"
proof (induction p1 p2 index len rule: bytes_eq_from.induct)
  case (1 p1 p2 index len)
  show ?case
  proof (cases "index < len")
    case True
    then have "drop index (take len p) = p ! index # drop (Suc index) (take len p)"
      if "len \<le> length p" for p :: bytes
      using that by (metis Cons_nth_drop_Suc length_take min.absorb2 nth_take)
    with 1 True show ?thesis
      by (subst bytes_eq_from.simps) (simp add: rd8_def)
  next
    case False
    with 1 show ?thesis by (subst bytes_eq_from.simps) simp
  qed
qed

lemma round_up_4:
  fixes u :: nat
  assumes "u mod 4 \<noteq> 0"
  shows "(u + 3) div 4 * 4 = u - u mod 4 + 4"
proof -
  obtain q r where u: "u = 4 * q + r" and r: "r < 4"
    using mod_less_divisor [of 4 u] mult_div_mod_eq [of 4 u] by (metis zero_less_numeral)
  with assms have "0 < r" by simp
  with r have "(r + 3) div 4 = 1" by (intro div_nat_eqI) simp_all
  moreover have "(4 * q + r + 3) div 4 = q + (r + 3) div 4" by (simp add: add.assoc)
  ultimately show ?thesis using r by (simp add: u)
qed

lemma pad_even: "unat (w - (w AND 3) + (if w AND 3 \<noteq> 0 then 4 else 0)) = (unat w + 3) div 4 * 4 mod 2 ^ LENGTH('a)"
  if "4 \<le> LENGTH('a)" for w :: "'a::len word"
proof -
  have 3: "w AND 3 = take_bit 2 w"
    by (simp only: take_bit_eq_mask) (simp add: mask_eq_exp_minus_1)
  have m: "unat (w AND 3) = unat w mod 4"
    unfolding 3 unsigned_take_bit_eq by (simp add: take_bit_eq_mod)
  have le: "w AND 3 \<le> w" by (simp add: word_and_le2)
  have p: "(16::nat) \<le> 2 ^ LENGTH('a)"
    using that power_increasing [of 4 "LENGTH('a)" "2::nat"] by simp
  have 4: "unat (4 :: 'a word) = 4"
    using p by (simp add: take_bit_nat_eq_self)
  have z: "w AND 3 = 0 \<longleftrightarrow> unat w mod 4 = 0"
    using m by (metis unat_eq_zero)
  have lt: "unat w < 2 ^ LENGTH('a)" by (rule unsigned_less)
  show ?thesis
  proof (cases "unat w mod 4 = 0")
    case True
    then have "(unat w + 3) div 4 * 4 = unat w" by (simp add: mod_0_imp_dvd div_add1_eq)
    with True z lt show ?thesis by simp
  next
    case False
    then have "(unat w + 3) div 4 * 4 = unat w - unat w mod 4 + 4"
      by (rule round_up_4)
    with False z 4 m le show ?thesis
      by (simp add: unat_word_ariths(1) unat_sub)
  qed
qed

lemma and_not_eq_diff: "w AND NOT m = w - (w AND (m :: 'a::len word))"
proof -
  have "NOT w AND (w AND m) = 0" by (rule bit_word_eqI) (simp add: bit_simps)
  then have "w - (w AND m) = w AND NOT (w AND m)" by (rule disjunctive_diff_eq_and_not)
  also have "\<dots> = w AND NOT m" by (rule bit_word_eqI) (auto simp: bit_simps)
  finally show ?thesis by simp
qed

text \<open>
  A value stored by a \<open>Write\<close> operation is what the matching \<open>Read\<close> operation returns at the
  same place, at every width and in both byte orders; the 24 bit pair keeps the low 24 bits.
\<close>

theorem byte_stream_roundtrip:
  "i + 8 \<le> length b \<Longrightarrow>
     rbind (Write8Bytes b i v8) (\<lambda>b'. Read8Bytes b' i) = Inr v8 \<and>
     rbind (Write8Bytes_le b i v8) (\<lambda>b'. Read8BytesLe b' i) = Inr v8 \<and>
     rbind (Write4Bytes b i v4) (\<lambda>b'. Read4Bytes b' i) = Inr v4 \<and>
     rbind (Write4Bytes_le b i v4) (\<lambda>b'. Read4BytesLe b' i) = Inr v4 \<and>
     rbind (Write3Bytes b i v4) (\<lambda>b'. Read3Bytes b' i) = Inr (take_bit 24 v4) \<and>
     rbind (Write2Bytes b i v2) (\<lambda>b'. Read2Bytes b' i) = Inr v2 \<and>
     rbind (Write2Bytes_le b i v4) (\<lambda>b'. Read2BytesLe b' i) = Inr (ucast v4)"
proof -
  assume le: "i + 8 \<le> length b"
  have 3: "Write3Bytes b i v4 = Write3Bytes b i (take_bit 24 v4)"
    using be_take_bit [of 3 v4] by (simp add: Write_be)
  have 2: "(of_bytes_le (rev (be 2 v4)) :: u16) = ucast v4"
    by (rule bit_word_eqI) (auto simp: bit_of_bytes_le be_le bit_byte_of bit_ucast_iff)
  have "rbind (Write3Bytes b i v4) (\<lambda>b'. Read3Bytes b' i) = Inr (take_bit 24 v4)"
    using le unfolding 3 by (intro be3.roundtrip) simp_all
  moreover have "rbind (Write2Bytes_le b i v4) (\<lambda>b'. Read2BytesLe b' i) = Inr (ucast v4)"
    using le 2 take_drop_poke_same [of i "rev (be 2 v4)" b]
    by (simp add: Write_le Read_le wr_def rd_def)
  ultimately show ?thesis
    using le by (simp add: be8.roundtrip be4.roundtrip be2.roundtrip le8.roundtrip le4.roundtrip)
qed

theorem byte_stream_roundtrip_witness:
  "rbind (Write4Bytes (replicate 9 0) 1 0xDEADBEEF) (\<lambda>b'. Read4Bytes b' 1) = Inr 0xDEADBEEF"
  using byte_stream_roundtrip [of 1 "replicate 9 0" 0 "0xDEADBEEF" 0] by simp

text \<open>
  \<open>PadTo4Bytes\<close> rounds up to the next multiple of four, in the arithmetic of its width (so the
  16 bit version maps the last three values to 0).
\<close>

theorem PadTo4Bytes_correct:
  "unat (PadTo4Bytes16 s) = (unat s + 3) div 4 * 4 mod 2 ^ 16 \<and>
   unat (PadTo4Bytes32 t) = (unat t + 3) div 4 * 4 mod 2 ^ 32"
proof -
  have n: "(0xFFFC :: u16) = NOT 3" "(0xFFFFFFFC :: u32) = NOT 3" by simp_all
  have "s AND 0xFFFC = s - (s AND 3)" and "t AND 0xFFFFFFFC = t - (t AND 3)"
    unfolding n by (rule and_not_eq_diff)+
  then have "PadTo4Bytes16 s = s - (s AND 3) + (if s AND 3 \<noteq> 0 then 4 else 0)"
    and "PadTo4Bytes32 t = t - (t AND 3) + (if t AND 3 \<noteq> 0 then 4 else 0)"
    by (simp_all add: PadTo4Bytes16_def PadTo4Bytes32_def)
  then show ?thesis using pad_even [of s] pad_even [of t] by simp
qed

lemma BytesIsEqual_iff:
  "len \<le> length p1 \<Longrightarrow> len \<le> length p2 \<Longrightarrow>
     BytesIsEqual p1 p2 len = Inr (take len p1 = take len p2)"
  by (simp add: BytesIsEqual_def bytes_eq_from_iff)

end
