(* ===== verification/Rtp_Pub.thy ===== *)
theory Rtp_Pub
  imports Byte_Stream
begin

unbundle bit_operations_syntax

text \<open>
  \<open>net/rtprtcp/rtprtcp_pub.hpp\<close> and the sequence comparison of \<open>rtp_packet.hpp\<close>: the RTP and RTCP
  common headers as bit fields of the packet's bytes, the RTP/RTCP demultiplexing tests, and the
  two orders on 16 bit sequence numbers.
\<close>

section \<open>Packet and feedback types\<close>

definition RTP_PACKET_MAX_SIZE :: nat where
  "RTP_PACKET_MAX_SIZE = 1500"

definition SEQUENCE_MAX :: nat where
  "SEQUENCE_MAX = 65535"

definition RTP_SEQ_MOD :: nat where
  "RTP_SEQ_MOD = 65536"

datatype RTCP_TYPE = RTCP_SR | RTCP_RR | RTCP_SDES | RTCP_BYE | RTCP_APP | RTCP_RTPFB | RTCP_PSFB | RTCP_XR

fun rtcp_type_code :: "RTCP_TYPE \<Rightarrow> u8" where
  "rtcp_type_code RTCP_SR = 200"
| "rtcp_type_code RTCP_RR = 201"
| "rtcp_type_code RTCP_SDES = 202"
| "rtcp_type_code RTCP_BYE = 203"
| "rtcp_type_code RTCP_APP = 204"
| "rtcp_type_code RTCP_RTPFB = 205"
| "rtcp_type_code RTCP_PSFB = 206"
| "rtcp_type_code RTCP_XR = 207"

definition FB_RTP_NACK :: u8 where "FB_RTP_NACK = 1"
definition FB_RTP_TCC :: u8 where "FB_RTP_TCC = 15"
definition FB_PS_PLI :: u8 where "FB_PS_PLI = 1"
definition XR_RRT :: u8 where "XR_RRT = 4"
definition XR_DLRR :: u8 where "XR_DLRR = 5"

section \<open>The RTP common header\<close>

text \<open>
  \<open>RtpCommonHeader\<close> overlays the first twelve bytes. The getters and setters are those of the
  struct's bit fields, with \<open>ntohs\<close>/\<open>ntohl\<close> applied as the accessors of \<open>RtpPacket\<close> do.
\<close>

definition hdr_ok :: "bytes \<Rightarrow> bool" where
  "hdr_ok b \<longleftrightarrow> 12 \<le> length b"

definition hdr_csrc_count :: "bytes \<Rightarrow> u8" where
  "hdr_csrc_count b = get_bits 0 4 (b ! 0)"

definition hdr_extension :: "bytes \<Rightarrow> u8" where
  "hdr_extension b = get_bits 4 1 (b ! 0)"

definition hdr_padding :: "bytes \<Rightarrow> u8" where
  "hdr_padding b = get_bits 5 1 (b ! 0)"

definition set_hdr_padding :: "u8 \<Rightarrow> bytes \<Rightarrow> bytes" where
  "set_hdr_padding v b = poke b 0 [set_bits 5 1 v (b ! 0)]"

definition hdr_version :: "bytes \<Rightarrow> u8" where
  "hdr_version b = get_bits 6 2 (b ! 0)"

definition hdr_payload_type :: "bytes \<Rightarrow> u8" where
  "hdr_payload_type b = get_bits 0 7 (b ! 1)"

definition set_hdr_payload_type :: "u8 \<Rightarrow> bytes \<Rightarrow> bytes" where
  "set_hdr_payload_type v b = poke b 1 [set_bits 0 7 v (b ! 1)]"

definition hdr_marker :: "bytes \<Rightarrow> u8" where
  "hdr_marker b = get_bits 7 1 (b ! 1)"

definition set_hdr_marker :: "u8 \<Rightarrow> bytes \<Rightarrow> bytes" where
  "set_hdr_marker v b = poke b 1 [set_bits 7 1 v (b ! 1)]"

definition hdr_sequence :: "bytes \<Rightarrow> u16" where
  "hdr_sequence b = of_be (take 2 (drop 2 b))"

definition set_hdr_sequence :: "u16 \<Rightarrow> bytes \<Rightarrow> bytes" where
  "set_hdr_sequence v b = poke b 2 (be 2 v)"

definition hdr_timestamp :: "bytes \<Rightarrow> u32" where
  "hdr_timestamp b = of_be (take 4 (drop 4 b))"

definition set_hdr_timestamp :: "u32 \<Rightarrow> bytes \<Rightarrow> bytes" where
  "set_hdr_timestamp v b = poke b 4 (be 4 v)"

definition hdr_ssrc :: "bytes \<Rightarrow> u32" where
  "hdr_ssrc b = of_be (take 4 (drop 8 b))"

definition set_hdr_ssrc :: "u32 \<Rightarrow> bytes \<Rightarrow> bytes" where
  "set_hdr_ssrc v b = poke b 8 (be 4 v)"

section \<open>The RTCP common header\<close>

text \<open>\<open>RtcpCommonHeader\<close> and \<open>RtcpFbCommonHeader\<close> share one layout; the low five bits of the first
  byte are \<open>count\<close> in the one and \<open>fmt\<close> in the other.\<close>

definition rtcp_count :: "bytes \<Rightarrow> u8" where
  "rtcp_count b = get_bits 0 5 (b ! 0)"

definition rtcp_padding :: "bytes \<Rightarrow> u8" where
  "rtcp_padding b = get_bits 5 1 (b ! 0)"

definition rtcp_version :: "bytes \<Rightarrow> u8" where
  "rtcp_version b = get_bits 6 2 (b ! 0)"

definition rtcp_packet_type :: "bytes \<Rightarrow> u8" where
  "rtcp_packet_type b = b ! 1"

definition rtcp_length :: "bytes \<Rightarrow> u16" where
  "rtcp_length b = of_be (take 2 (drop 2 b))"

definition set_rtcp_length :: "u16 \<Rightarrow> bytes \<Rightarrow> bytes" where
  "set_rtcp_length v b = poke b 2 (be 2 v)"

definition rtcp_header :: "u8 \<Rightarrow> u8 \<Rightarrow> u8 \<Rightarrow> u8 \<Rightarrow> u16 \<Rightarrow> bytes" where
  \<comment> \<open>the four bytes left by assigning version, padding, count, packet type and length\<close>
  "rtcp_header version padding count packet_type len =
     [set_bits 6 2 version (set_bits 5 1 padding (set_bits 0 5 count 0)), packet_type] @ be 2 len"

definition GetRtcpLength :: "bytes \<Rightarrow> nat" where
  "GetRtcpLength b = (unat (rtcp_length b) + 1) * 4"

section \<open>Demultiplexing\<close>

definition IsRtcp :: "bytes \<Rightarrow> nat \<Rightarrow> bool res" where
  "IsRtcp data len =
     (if \<not> 4 \<le> len then Inr False
      else rbind (rd8 data 0) (\<lambda>d0.
        if \<not> (d0 > 127 \<and> d0 < 192) then Inr False
        else if get_bits 6 2 d0 \<noteq> 2 then Inr False
        else rbind (rd8 data 1) (\<lambda>pt. Inr (192 \<le> pt \<and> pt \<le> 223))))"

definition IsRtp :: "bytes \<Rightarrow> nat \<Rightarrow> bool res" where
  "IsRtp data len =
     (if \<not> 12 \<le> len then Inr False
      else rbind (rd8 data 0) (\<lambda>d0.
        if \<not> (d0 > 127 \<and> d0 < 192) then Inr False
        else Inr (get_bits 6 2 d0 = 2)))"

section \<open>Sequence number comparison\<close>

definition SeqLowerThan :: "u16 \<Rightarrow> u16 \<Rightarrow> bool" where
  "SeqLowerThan seq1 seq2 \<longleftrightarrow>
     (if seq1 > seq2 \<and> unat seq1 - unat seq2 > SEQUENCE_MAX div 2 then True
      else if seq1 < seq2 \<and> unat seq2 - unat seq1 \<le> SEQUENCE_MAX div 2 then True
      else False)"

definition SeqHigherThan :: "u16 \<Rightarrow> u16 \<Rightarrow> bool" where
  "SeqHigherThan seq1 seq2 \<longleftrightarrow> (if seq1 = seq2 then False else \<not> SeqLowerThan seq1 seq2)"

datatype SEQ_COMPARE_RESULT =
  NORMAL_SEQ | REPEAT_SEQ | JUMP_LARGE_SEQ | REVERSE_SEQ | DISCORD_SEQ | LITTLE_JUMP_SEQ

definition CompareSeq :: "u16 \<Rightarrow> u16 \<Rightarrow> SEQ_COMPARE_RESULT" where
  \<comment> \<open>the sums and differences are computed in \<open>int\<close> after promotion, so nothing wraps\<close>
  "CompareSeq last_seq current_seq =
     (if current_seq = last_seq then REPEAT_SEQ
      else if unat current_seq = unat last_seq + 1 then NORMAL_SEQ
      else if current_seq < last_seq then
        (if unat last_seq - unat current_seq > 3000 then REVERSE_SEQ else NORMAL_SEQ)
      else
        (if unat current_seq > unat last_seq + 3000 then JUMP_LARGE_SEQ else LITTLE_JUMP_SEQ))"

section \<open>Header fields are lenses\<close>

lemmas hdr_defs =
  hdr_ok_def hdr_padding_def set_hdr_padding_def hdr_payload_type_def set_hdr_payload_type_def
  hdr_marker_def set_hdr_marker_def hdr_sequence_def set_hdr_sequence_def
  hdr_timestamp_def set_hdr_timestamp_def hdr_ssrc_def set_hdr_ssrc_def

lemma lens_be_field:
  assumes "8 * n = LENGTH('a::len)"
  shows "lens (\<lambda>b. of_be (take n (drop i b)) :: 'a word) (\<lambda>v b. poke b i (be n v))
    (\<lambda>b. i + n \<le> length b) (\<lambda>_. True)"
proof
  fix b :: bytes and v :: "'a word" assume "i + n \<le> length b"
  then show "of_be (take n (drop i (poke b i (be n v)))) = v"
    using take_drop_poke_same [of i "be n v" b] assms by (simp add: of_be_be take_bit_word_eq_self)
qed (use assms in \<open>auto simp: poke_self\<close>)

lemma lens_bits_field:
  assumes "lo + n \<le> 8"
  shows "lens (\<lambda>b. get_bits lo n (b ! i :: u8)) (\<lambda>v b. poke b i [set_bits lo n v (b ! i)])
    (\<lambda>b. i < length b) (\<lambda>v. take_bit n v = v)"
proof
  fix b :: bytes and u v :: u8 assume i: "i < length b"
  then show "poke (poke b i [set_bits lo n u (b ! i)]) i [set_bits lo n v (poke b i [set_bits lo n u (b ! i)] ! i)]
      = poke b i [set_bits lo n v (b ! i)]"
    by simp
  show "poke b i [set_bits lo n (get_bits lo n (b ! i)) (b ! i)] = b"
    using i poke_self [of i 1 b] by (simp add: take_Suc_conv_app_nth hd_drop_conv_nth take_Suc)
  show "take_bit n (get_bits lo n (b ! i)) = get_bits lo n (b ! i)"
    by (simp add: get_bits_def)
qed (use assms in auto)

lemma lens_mono: "lens g p ok rng \<Longrightarrow> (\<And>s. ok' s \<Longrightarrow> ok s) \<Longrightarrow> (\<And>s v. ok' s \<Longrightarrow> ok' (p v s)) \<Longrightarrow> lens g p ok' rng"
  by (simp add: lens_def)

interpretation seqL: lens hdr_sequence set_hdr_sequence hdr_ok "\<lambda>_. True"
  unfolding hdr_sequence_def [abs_def] set_hdr_sequence_def [abs_def]
  by (rule lens_mono [OF lens_be_field]) (auto simp: hdr_ok_def)

interpretation tsL: lens hdr_timestamp set_hdr_timestamp hdr_ok "\<lambda>_. True"
  unfolding hdr_timestamp_def [abs_def] set_hdr_timestamp_def [abs_def]
  by (rule lens_mono [OF lens_be_field]) (auto simp: hdr_ok_def)

interpretation ssrcL: lens hdr_ssrc set_hdr_ssrc hdr_ok "\<lambda>_. True"
  unfolding hdr_ssrc_def [abs_def] set_hdr_ssrc_def [abs_def]
  by (rule lens_mono [OF lens_be_field]) (auto simp: hdr_ok_def)

interpretation ptL: lens hdr_payload_type set_hdr_payload_type hdr_ok "\<lambda>v. take_bit 7 v = v"
  unfolding hdr_payload_type_def [abs_def] set_hdr_payload_type_def [abs_def]
  by (rule lens_mono [OF lens_bits_field]) (auto simp: hdr_ok_def)

interpretation markerL: lens hdr_marker set_hdr_marker hdr_ok "\<lambda>v. take_bit 1 v = v"
  unfolding hdr_marker_def [abs_def] set_hdr_marker_def [abs_def]
  by (rule lens_mono [OF lens_bits_field]) (auto simp: hdr_ok_def)

interpretation padL: lens hdr_padding set_hdr_padding hdr_ok "\<lambda>v. take_bit 1 v = v"
  unfolding hdr_padding_def [abs_def] set_hdr_padding_def [abs_def]
  by (rule lens_mono [OF lens_bits_field]) (auto simp: hdr_ok_def)

text \<open>No two of the six writable fields overlap.\<close>

lemma set_bits_commute:
  "lo + n \<le> lo' \<or> lo' + n' \<le> lo \<Longrightarrow>
     set_bits lo n v (set_bits lo' n' v' w) = set_bits lo' n' v' (set_bits lo n v w)"
  by (rule bit_word_eqI) (auto simp: bit_set_bits)

interpretation seq_ssrc: lens_pair hdr_sequence set_hdr_sequence hdr_ssrc set_hdr_ssrc hdr_ok "\<lambda>_. True" "\<lambda>_. True"
  by unfold_locales (auto simp: hdr_defs set_bits_commute intro!: poke_commute)

interpretation seq_ts: lens_pair hdr_sequence set_hdr_sequence hdr_timestamp set_hdr_timestamp hdr_ok "\<lambda>_. True" "\<lambda>_. True"
  by unfold_locales (auto simp: hdr_defs set_bits_commute intro!: poke_commute)

interpretation seq_pt: lens_pair hdr_sequence set_hdr_sequence hdr_payload_type set_hdr_payload_type hdr_ok "\<lambda>_. True" "\<lambda>v. take_bit 7 v = v"
  by unfold_locales (auto simp: hdr_defs set_bits_commute intro!: poke_commute)

interpretation seq_pad: lens_pair hdr_sequence set_hdr_sequence hdr_padding set_hdr_padding hdr_ok "\<lambda>_. True" "\<lambda>v. take_bit 1 v = v"
  by unfold_locales (auto simp: hdr_defs set_bits_commute intro!: poke_commute)

interpretation ssrc_ts: lens_pair hdr_ssrc set_hdr_ssrc hdr_timestamp set_hdr_timestamp hdr_ok "\<lambda>_. True" "\<lambda>_. True"
  by unfold_locales (auto simp: hdr_defs set_bits_commute intro!: poke_commute)

interpretation ssrc_pt: lens_pair hdr_ssrc set_hdr_ssrc hdr_payload_type set_hdr_payload_type hdr_ok "\<lambda>_. True" "\<lambda>v. take_bit 7 v = v"
  by unfold_locales (auto simp: hdr_defs set_bits_commute intro!: poke_commute)

interpretation ssrc_pad: lens_pair hdr_ssrc set_hdr_ssrc hdr_padding set_hdr_padding hdr_ok "\<lambda>_. True" "\<lambda>v. take_bit 1 v = v"
  by unfold_locales (auto simp: hdr_defs set_bits_commute intro!: poke_commute)

interpretation ts_pt: lens_pair hdr_timestamp set_hdr_timestamp hdr_payload_type set_hdr_payload_type hdr_ok "\<lambda>_. True" "\<lambda>v. take_bit 7 v = v"
  by unfold_locales (auto simp: hdr_defs set_bits_commute intro!: poke_commute)

interpretation ts_pad: lens_pair hdr_timestamp set_hdr_timestamp hdr_padding set_hdr_padding hdr_ok "\<lambda>_. True" "\<lambda>v. take_bit 1 v = v"
  by unfold_locales (auto simp: hdr_defs set_bits_commute intro!: poke_commute)

interpretation pt_pad: lens_pair hdr_payload_type set_hdr_payload_type hdr_padding set_hdr_padding hdr_ok "\<lambda>v. take_bit 7 v = v" "\<lambda>v. take_bit 1 v = v"
  by unfold_locales (auto simp: hdr_defs set_bits_commute intro!: poke_commute)

interpretation pt_marker: lens_pair hdr_payload_type set_hdr_payload_type hdr_marker set_hdr_marker hdr_ok "\<lambda>v. take_bit 7 v = v" "\<lambda>v. take_bit 1 v = v"
  by unfold_locales (auto simp: hdr_defs set_bits_commute intro!: poke_commute)

interpretation seq_marker: lens_pair hdr_sequence set_hdr_sequence hdr_marker set_hdr_marker hdr_ok "\<lambda>_. True" "\<lambda>v. take_bit 1 v = v"
  by unfold_locales (auto simp: hdr_defs set_bits_commute intro!: poke_commute)

interpretation ssrc_marker: lens_pair hdr_ssrc set_hdr_ssrc hdr_marker set_hdr_marker hdr_ok "\<lambda>_. True" "\<lambda>v. take_bit 1 v = v"
  by unfold_locales (auto simp: hdr_defs set_bits_commute intro!: poke_commute)

interpretation ts_marker: lens_pair hdr_timestamp set_hdr_timestamp hdr_marker set_hdr_marker hdr_ok "\<lambda>_. True" "\<lambda>v. take_bit 1 v = v"
  by unfold_locales (auto simp: hdr_defs set_bits_commute intro!: poke_commute)

interpretation pad_marker: lens_pair hdr_padding set_hdr_padding hdr_marker set_hdr_marker hdr_ok "\<lambda>v. take_bit 1 v = v" "\<lambda>v. take_bit 1 v = v"
  by unfold_locales (auto simp: hdr_defs set_bits_commute intro!: poke_commute)

lemmas hdr_get_put [simp] =
  seqL.get_put tsL.get_put ssrcL.get_put ptL.get_put markerL.get_put padL.get_put

lemmas hdr_indep [simp] =
  seq_ssrc.getA_putB seq_ssrc.getB_putA
  seq_ts.getA_putB seq_ts.getB_putA
  seq_pt.getA_putB seq_pt.getB_putA
  seq_pad.getA_putB seq_pad.getB_putA
  ssrc_ts.getA_putB ssrc_ts.getB_putA
  ssrc_pt.getA_putB ssrc_pt.getB_putA
  ssrc_pad.getA_putB ssrc_pad.getB_putA
  ts_pt.getA_putB ts_pt.getB_putA
  ts_pad.getA_putB ts_pad.getB_putA
  pt_pad.getA_putB pt_pad.getB_putA
  pt_marker.getA_putB pt_marker.getB_putA
  seq_marker.getA_putB seq_marker.getB_putA
  ssrc_marker.getA_putB ssrc_marker.getB_putA
  ts_marker.getA_putB ts_marker.getB_putA
  pad_marker.getA_putB pad_marker.getB_putA

lemmas hdr_ok_put [simp] =
  seqL.ok_put tsL.ok_put ssrcL.ok_put ptL.ok_put markerL.ok_put padL.ok_put

lemma length_set_hdr [simp]:
  "hdr_ok b \<Longrightarrow> length (set_hdr_padding v b) = length b"
  "hdr_ok b \<Longrightarrow> length (set_hdr_payload_type v b) = length b"
  "hdr_ok b \<Longrightarrow> length (set_hdr_marker v b) = length b"
  "hdr_ok b \<Longrightarrow> length (set_hdr_sequence w b) = length b"
  "hdr_ok b \<Longrightarrow> length (set_hdr_timestamp t b) = length b"
  "hdr_ok b \<Longrightarrow> length (set_hdr_ssrc t b) = length b"
  by (simp_all add: hdr_defs)

lemma drop_set_hdr [simp]:
  assumes "hdr_ok b" and "12 \<le> i"
  shows "drop i (set_hdr_padding v b) = drop i b"
    "drop i (set_hdr_payload_type v b) = drop i b"
    "drop i (set_hdr_marker v b) = drop i b"
    "drop i (set_hdr_sequence w b) = drop i b"
    "drop i (set_hdr_timestamp t b) = drop i b"
    "drop i (set_hdr_ssrc t b) = drop i b"
  using assms by (simp_all add: hdr_defs)

text \<open>Stores behind the header and header fields do not interfere.\<close>

lemma set_hdr_poke:
  assumes "hdr_ok b" and "12 \<le> i" and "i + length w \<le> length b"
  shows "set_hdr_padding v (poke b i w) = poke (set_hdr_padding v b) i w"
    "set_hdr_payload_type v (poke b i w) = poke (set_hdr_payload_type v b) i w"
    "set_hdr_marker v (poke b i w) = poke (set_hdr_marker v b) i w"
    "set_hdr_sequence s (poke b i w) = poke (set_hdr_sequence s b) i w"
    "set_hdr_timestamp t (poke b i w) = poke (set_hdr_timestamp t b) i w"
    "set_hdr_ssrc t (poke b i w) = poke (set_hdr_ssrc t b) i w"
  using assms by (auto simp: hdr_defs intro!: poke_commute)

lemma hdr_poke [simp]:
  assumes "12 \<le> i" and "i + length w \<le> length b"
  shows "hdr_padding (poke b i w) = hdr_padding b"
    "hdr_extension (poke b i w) = hdr_extension b"
    "hdr_payload_type (poke b i w) = hdr_payload_type b"
    "hdr_marker (poke b i w) = hdr_marker b"
    "hdr_sequence (poke b i w) = hdr_sequence b"
    "hdr_timestamp (poke b i w) = hdr_timestamp b"
    "hdr_ssrc (poke b i w) = hdr_ssrc b"
    "hdr_ok (poke b i w) = hdr_ok b"
  using assms by (auto simp: hdr_defs hdr_extension_def take_drop_poke_other)

section \<open>Sequence order\<close>

lemma SeqLowerThan_unat:
  "SeqLowerThan a b \<longleftrightarrow>
     (unat a > unat b \<and> unat a - unat b > 32767) \<or> (unat a < unat b \<and> unat b - unat a \<le> 32767)"
  by (simp add: SeqLowerThan_def SEQUENCE_MAX_def word_less_nat_alt)

text \<open>What the users of the order rely on: of two different numbers exactly one is the lower.\<close>

locale serial_order =
  fixes lower :: "'a \<Rightarrow> 'a \<Rightarrow> bool"
  assumes irrefl: "\<not> lower a a"
    and asym: "lower a b \<Longrightarrow> \<not> lower b a"
    and total: "a \<noteq> b \<Longrightarrow> lower a b \<or> lower b a"
begin

lemma not_lower: "\<not> lower a b \<longleftrightarrow> a = b \<or> lower b a"
  using irrefl asym total by blast

end

interpretation seq_lt: serial_order SeqLowerThan
  by unfold_locales (auto simp: SeqLowerThan_unat word_unat_eq_iff)

text \<open>
  \<open>SeqLowerThan\<close> is RFC 1982 serial number order on 16 bits: \<open>a\<close> is lower than \<open>b\<close> when the
  modular distance from \<open>a\<close> to \<open>b\<close> is at most 32767; the distance 32768, which the RFC leaves open,
  is decided in favour of the numerically larger number being the older one. \<open>SeqHigherThan\<close> is its
  converse.
\<close>

theorem SeqLowerThan_serial:
  "(SeqLowerThan a b \<longleftrightarrow> a \<noteq> b \<and> (unat (b - a) < 2 ^ 15 \<or> unat (b - a) = 2 ^ 15 \<and> b < a)) \<and>
   (SeqHigherThan a b \<longleftrightarrow> SeqLowerThan b a)"
proof -
  have lt: "unat a < 65536" "unat b < 65536"
    using unsigned_less [of a, where 'a = nat] unsigned_less [of b, where 'a = nat] by simp_all
  have d: "unat (b - a) = (if a \<le> b then unat b - unat a else 65536 + unat b - unat a)"
    by (auto simp: unat_sub_if_size word_le_nat_alt word_size)
  have "SeqLowerThan a b \<longleftrightarrow> a \<noteq> b \<and> (unat (b - a) < 2 ^ 15 \<or> unat (b - a) = 2 ^ 15 \<and> b < a)"
    unfolding SeqLowerThan_unat d word_le_nat_alt word_less_nat_alt word_unat_eq_iff
    using lt by auto
  moreover have "SeqHigherThan a b \<longleftrightarrow> SeqLowerThan b a"
    using seq_lt.not_lower seq_lt.irrefl by (auto simp: SeqHigherThan_def)
  ultimately show ?thesis by simp
qed

lemma CompareSeq_cases:
  "CompareSeq l c = REPEAT_SEQ \<longleftrightarrow> c = l"
  "CompareSeq l c = NORMAL_SEQ \<longleftrightarrow> unat c = unat l + 1 \<or> (unat c < unat l \<and> unat l - unat c \<le> 3000)"
  "CompareSeq l c = REVERSE_SEQ \<longleftrightarrow> unat c + 3000 < unat l"
  "CompareSeq l c = JUMP_LARGE_SEQ \<longleftrightarrow> unat l + 3000 < unat c"
  "CompareSeq l c = LITTLE_JUMP_SEQ \<longleftrightarrow> unat l + 1 < unat c \<and> unat c \<le> unat l + 3000"
  "CompareSeq l c \<noteq> DISCORD_SEQ"
  by (auto simp: CompareSeq_def word_less_nat_alt word_unat_eq_iff)

section \<open>Demultiplexing\<close>

lemma version_range: "get_bits 6 2 (d :: u8) = 2 \<longleftrightarrow> d > 127 \<and> d < 192"
proof -
  have "get_bits 6 2 d = drop_bit 6 d"
    by (rule bit_word_eqI) (auto simp: bit_get_bits bit_drop_bit_eq dest: bit_imp_le_length)
  moreover have "unat (drop_bit 6 d) = unat d div 64"
    unfolding unat_drop_bit_eq by (simp add: drop_bit_eq_div)
  ultimately show ?thesis
    by (auto simp: word_unat_eq_iff word_less_nat_alt)
qed

lemma IsRtcp_header:
  assumes "4 \<le> length d" and "rtcp_version d = 2" and "192 \<le> rtcp_packet_type d" and "rtcp_packet_type d \<le> 223"
  shows "IsRtcp d (length d) = Inr True"
proof -
  have "get_bits 6 2 (d ! 0) = 2" using assms(2) by (simp add: rtcp_version_def)
  then show ?thesis using assms version_range [of "d ! 0"] by (auto simp: IsRtcp_def rtcp_packet_type_def rd8_def)
qed

end
