(* ===== verification/Rtp_Packet.thy ===== *)
theory Rtp_Packet
  imports Rtp_Pub
begin

unbundle bit_operations_syntax

text \<open>
  \<open>RtpPacket\<close> of \<open>net/rtprtcp/rtp_packet.cpp\<close>. A packet does not own its fields: it points into the
  buffer it was parsed from, so the model keeps that buffer (\<open>rp_buf\<close>, the whole memory the
  pointers may reach) and the pointers are offsets. The two extension maps send an extension id
  to the offset of its element. Members that only serve logging and debugging (\<open>logger_\<close>,
  \<open>debug_enable\<close>, \<open>Dump\<close>) are left out.
\<close>

section \<open>State\<close>

record rtp_packet =
  rp_buf :: bytes
  rp_ext :: "nat option"
  rp_payload :: nat
  rp_payload_len :: nat
  rp_pad_len :: u8
  rp_data_len :: nat
  rp_local_ms :: int
  rp_need_delete :: bool
  rp_mid_extension_id :: u8
  rp_abs_time_extension_id :: u8
  rp_tcc_extension_id :: u8
  rp_onebyte_ext_map :: "(u8, nat) omap"
  rp_twobytes_ext_map :: "(u8, nat) omap"

section \<open>Header accessors\<close>

definition GetSeq :: "rtp_packet \<Rightarrow> u16" where
  "GetSeq pkt = hdr_sequence (rp_buf pkt)"

definition SetSeq :: "u16 \<Rightarrow> rtp_packet \<Rightarrow> rtp_packet" where
  "SetSeq v pkt = pkt\<lparr>rp_buf := set_hdr_sequence v (rp_buf pkt)\<rparr>"

definition GetTimestamp :: "rtp_packet \<Rightarrow> u32" where
  "GetTimestamp pkt = hdr_timestamp (rp_buf pkt)"

definition SetTimestamp :: "u32 \<Rightarrow> rtp_packet \<Rightarrow> rtp_packet" where
  "SetTimestamp v pkt = pkt\<lparr>rp_buf := set_hdr_timestamp v (rp_buf pkt)\<rparr>"

definition GetSsrc :: "rtp_packet \<Rightarrow> u32" where
  "GetSsrc pkt = hdr_ssrc (rp_buf pkt)"

definition SetSsrc :: "u32 \<Rightarrow> rtp_packet \<Rightarrow> rtp_packet" where
  "SetSsrc v pkt = pkt\<lparr>rp_buf := set_hdr_ssrc v (rp_buf pkt)\<rparr>"

definition GetPayloadType :: "rtp_packet \<Rightarrow> u8" where
  "GetPayloadType pkt = hdr_payload_type (rp_buf pkt)"

definition SetPayloadType :: "u8 \<Rightarrow> rtp_packet \<Rightarrow> rtp_packet" where
  "SetPayloadType v pkt = pkt\<lparr>rp_buf := set_hdr_payload_type v (rp_buf pkt)\<rparr>"

definition GetMarker :: "rtp_packet \<Rightarrow> u8" where
  "GetMarker pkt = hdr_marker (rp_buf pkt)"

definition SetMarker :: "u8 \<Rightarrow> rtp_packet \<Rightarrow> rtp_packet" where
  "SetMarker v pkt = pkt\<lparr>rp_buf := set_hdr_marker v (rp_buf pkt)\<rparr>"

definition GetMPayloadType :: "rtp_packet \<Rightarrow> u8" where
  "GetMPayloadType pkt = push_bit 7 (GetMarker pkt) OR GetPayloadType pkt"

definition HasPadding :: "rtp_packet \<Rightarrow> bool" where
  "HasPadding pkt \<longleftrightarrow> hdr_padding (rp_buf pkt) = 1"

definition SetPadding :: "bool \<Rightarrow> rtp_packet \<Rightarrow> rtp_packet" where
  "SetPadding flag pkt = pkt\<lparr>rp_buf := set_hdr_padding (if flag then 1 else 0) (rp_buf pkt)\<rparr>"

definition HasExtension :: "rtp_packet \<Rightarrow> bool" where
  "HasExtension pkt \<longleftrightarrow> hdr_extension (rp_buf pkt) = 1"

definition GetData :: "rtp_packet \<Rightarrow> bytes" where
  \<comment> \<open>\<open>GetData()\<close> together with \<open>GetDataLength()\<close>: what is put on the wire\<close>
  "GetData pkt = take (rp_data_len pkt) (rp_buf pkt)"

definition GetPayload :: "rtp_packet \<Rightarrow> bytes" where
  \<comment> \<open>\<open>GetPayload()\<close> together with \<open>GetPayloadLength()\<close>\<close>
  "GetPayload pkt = take (rp_payload_len pkt) (drop (rp_payload pkt) (rp_buf pkt))"

section \<open>The header extension block\<close>

definition GetExtId :: "bytes \<Rightarrow> nat option \<Rightarrow> u16" where
  "GetExtId b rtp_ext = (case rtp_ext of None \<Rightarrow> 0 | Some e \<Rightarrow> of_be (take 2 (drop e b)))"

definition GetExtLength :: "bytes \<Rightarrow> nat option \<Rightarrow> u16" where
  \<comment> \<open>the product is narrowed to the 16 bit return type\<close>
  "GetExtLength b rtp_ext = (case rtp_ext of None \<Rightarrow> 0 | Some e \<Rightarrow> of_be (take 2 (drop (e + 2) b)) * 4)"

definition HasOnebyteExt :: "bytes \<Rightarrow> nat option \<Rightarrow> bool" where
  "HasOnebyteExt b rtp_ext \<longleftrightarrow> GetExtId b rtp_ext = 0xBEDE"

definition HasTwobytesExt :: "bytes \<Rightarrow> nat option \<Rightarrow> bool" where
  "HasTwobytesExt b rtp_ext \<longleftrightarrow> GetExtId b rtp_ext AND 0xfff0 = 0x1000"

function skip_zeros :: "bytes \<Rightarrow> nat \<Rightarrow> nat \<Rightarrow> nat res" where
  \<comment> \<open>the inner loop \<open>while ((p < ext_end) && (*p == 0)) p++\<close>\<close>
  "skip_zeros b ext_end p =
     (if p < ext_end
      then rbind (rd8 b p) (\<lambda>x. if x = 0 then skip_zeros b ext_end (Suc p) else Inr p)
      else Inr p)"
  by pat_completeness auto
termination by (relation "measure (\<lambda>(b, ext_end, p). ext_end - p)") auto

declare skip_zeros.simps [simp del]

lemma skip_zeros_ge: "skip_zeros b ext_end p = Inr q \<Longrightarrow> p \<le> q"
proof (induction b ext_end p rule: skip_zeros.induct)
  case (1 b ext_end p)
  then show ?case
    by (subst (asm) (2) skip_zeros.simps) (auto split: if_splits dest: Suc_leD)
qed

function onebyte_loop :: "bytes \<Rightarrow> nat \<Rightarrow> nat \<Rightarrow> (u8, nat) omap \<Rightarrow> (u8, nat) omap res" where
  "onebyte_loop b ext_end p m =
     (if p < ext_end then
        rbind (rd8 b p) (\<lambda>x.
          let ident = drop_bit 4 (x AND 0xF0); len = unat (x AND 0x0F) + 1 in
          if ident = 0x0f then Inr m
          else if ident \<noteq> 0 then
            (if p + 1 + len > ext_end then Inl Throw
             else rbind (skip_zeros b ext_end (p + 1 + len))
               (\<lambda>p'. onebyte_loop b ext_end p' (om_insert ident p m)))
          else rbind (skip_zeros b ext_end (p + 1)) (\<lambda>p'. onebyte_loop b ext_end p' m))
      else Inr m)"
  by pat_completeness auto
termination
  by (relation "measure (\<lambda>(b, ext_end, p, m). ext_end - p)") (auto dest: skip_zeros_ge)

declare onebyte_loop.simps [simp del]

function twobytes_loop :: "bytes \<Rightarrow> nat \<Rightarrow> nat \<Rightarrow> (u8, nat) omap \<Rightarrow> (u8, nat) omap res" where
  "twobytes_loop b ext_end p m =
     (if p + 1 < ext_end then
        rbind (rd8 b p) (\<lambda>ident. rbind (rd8 b (p + 1)) (\<lambda>len.
          if ident \<noteq> 0 then
            (if p + 2 + unat len > ext_end then Inl Throw
             else rbind (skip_zeros b ext_end (p + 2 + unat len))
               (\<lambda>p'. twobytes_loop b ext_end p' (om_insert ident p m)))
          else rbind (skip_zeros b ext_end (p + 1)) (\<lambda>p'. twobytes_loop b ext_end p' m)))
      else Inr m)"
  by pat_completeness auto
termination
  by (relation "measure (\<lambda>(b, ext_end, p, m). ext_end - p)") (auto dest: skip_zeros_ge)

declare twobytes_loop.simps [simp del]

definition ParseOnebyteExt :: "bytes \<Rightarrow> nat \<Rightarrow> (u8, nat) omap res" where
  "ParseOnebyteExt b e =
     (let ext_start = e + 4; ext_end = ext_start + unat (GetExtLength b (Some e))
      in onebyte_loop b ext_end ext_start [])"

definition ParseTwobytesExt :: "bytes \<Rightarrow> nat \<Rightarrow> (u8, nat) omap res" where
  "ParseTwobytesExt b e =
     (let ext_start = e + 4; ext_end = ext_start + unat (GetExtLength b (Some e))
      in twobytes_loop b ext_end ext_start [])"

definition ParseExt :: "rtp_packet \<Rightarrow> rtp_packet res" where
  "ParseExt pkt =
     (if hdr_extension (rp_buf pkt) = 0 then Inr pkt
      else (case rp_ext pkt of
        None \<Rightarrow> Inr pkt
      | Some e \<Rightarrow>
          if HasOnebyteExt (rp_buf pkt) (Some e) then
            rbind (ParseOnebyteExt (rp_buf pkt) e) (\<lambda>m. Inr (pkt\<lparr>rp_onebyte_ext_map := m\<rparr>))
          else if HasTwobytesExt (rp_buf pkt) (Some e) then
            rbind (ParseTwobytesExt (rp_buf pkt) e) (\<lambda>m. Inr (pkt\<lparr>rp_twobytes_ext_map := m\<rparr>))
          else Inl Throw))"

section \<open>Construction\<close>

definition RtpPacket_new :: "int \<Rightarrow> bytes \<Rightarrow> nat option \<Rightarrow> nat \<Rightarrow> nat \<Rightarrow> u8 \<Rightarrow> nat \<Rightarrow> rtp_packet res" where
  "RtpPacket_new now_ms data ext payload payload_len pad_len data_len =
     (if data_len > RTP_PACKET_MAX_SIZE then Inl Throw
      else ParseExt
        \<lparr>rp_buf = data, rp_ext = ext, rp_payload = payload, rp_payload_len = payload_len,
         rp_pad_len = pad_len, rp_data_len = data_len, rp_local_ms = now_ms, rp_need_delete = False,
         rp_mid_extension_id = 0, rp_abs_time_extension_id = 0, rp_tcc_extension_id = 0,
         rp_onebyte_ext_map = [], rp_twobytes_ext_map = []\<rparr>)"

definition parse_ext_header :: "bytes \<Rightarrow> nat \<Rightarrow> u8 \<Rightarrow> nat \<Rightarrow> (nat option \<times> nat) res" where
  \<comment> \<open>the \<open>if (header->extension)\<close> branch: the extension and the offset behind it\<close>
  "parse_ext_header data len b0 p =
     (if get_bits 4 1 b0 \<noteq> 0 then
        (if len < p + 4 then Inl Throw
         else rbind (Read2Bytes data (p + 2)) (\<lambda>l.
           let extension_byte = unat l * 4 in
           if len < p + 4 + extension_byte then Inl Throw
           else Inr (Some p, p + 4 + extension_byte)))
      else Inr (None, p))"

definition parse_padding :: "bytes \<Rightarrow> nat \<Rightarrow> u8 \<Rightarrow> nat \<Rightarrow> (u8 \<times> nat) res" where
  \<comment> \<open>the \<open>if (header->padding)\<close> branch: the padding length and the payload length left\<close>
  "parse_padding data len b0 payload_len =
     (if get_bits 5 1 b0 \<noteq> 0 then
        rbind (rd8 data (len - 1)) (\<lambda>pad_len.
          if pad_len > 0 then
            (if payload_len < unat pad_len then Inl Throw else Inr (pad_len, payload_len - unat pad_len))
          else Inr (pad_len, payload_len))
      else Inr (0, payload_len))"

definition Parse :: "int \<Rightarrow> bytes \<Rightarrow> nat \<Rightarrow> rtp_packet res" where
  "Parse now_ms data len =
     (if len > RTP_PACKET_MAX_SIZE then Inl Throw
      else rbind (rd8 data 0) (\<lambda>b0.
        rbind (parse_ext_header data len b0 (12 + 4 * unat (get_bits 0 4 b0))) (\<lambda>(ext, p).
          if len \<le> p then Inl Throw
          else rbind (parse_padding data len b0 (len - p)) (\<lambda>(pad_len, payload_len).
            RtpPacket_new now_ms data ext p payload_len pad_len len))))"

definition Clone :: "int \<Rightarrow> bytes \<Rightarrow> bool \<Rightarrow> rtp_packet \<Rightarrow> rtp_packet res" where
  \<comment> \<open>\<open>mem\<close> is the destination memory, the caller's \<open>buffer\<close> or, when \<open>own\<close>, a new block of
    \<open>RTP_PACKET_MAX_SIZE\<close> bytes\<close>
  "Clone now_ms mem own pkt =
     (if \<not> rp_data_len pkt < RTP_PACKET_MAX_SIZE then Inl AssertFail
      else rbind (rd (rp_buf pkt) 0 (rp_data_len pkt)) (\<lambda>src.
        rbind (wr mem 0 src) (\<lambda>new_data.
          rbind (Parse now_ms new_data (rp_data_len pkt)) (\<lambda>new_pkt.
            Inr (new_pkt\<lparr>rp_need_delete := own, rp_local_ms := rp_local_ms pkt,
              rp_mid_extension_id := rp_mid_extension_id pkt,
              rp_abs_time_extension_id := rp_abs_time_extension_id pkt,
              rp_tcc_extension_id := rp_tcc_extension_id pkt\<rparr>)))))"

section \<open>Reading and rewriting extension elements\<close>

text \<open>
  An element is found through the map that belongs to the block's profile. \<open>GetExtension\<close> yields the
  offset of the value and its length, \<open>None\<close> standing for the null pointer.
\<close>

definition GetExtension :: "rtp_packet \<Rightarrow> u8 \<Rightarrow> (nat \<times> u8) option res" where
  "GetExtension pkt ident =
     (if HasOnebyteExt (rp_buf pkt) (rp_ext pkt) then
        (case om_find (rp_onebyte_ext_map pkt) ident of
           None \<Rightarrow> Inr None
         | Some p \<Rightarrow> rbind (rd8 (rp_buf pkt) p) (\<lambda>x. Inr (Some (p + 1, get_bits 0 4 x + 1))))
      else if HasTwobytesExt (rp_buf pkt) (rp_ext pkt) then
        (case om_find (rp_twobytes_ext_map pkt) ident of
           None \<Rightarrow> Inr None
         | Some p \<Rightarrow> rbind (rd8 (rp_buf pkt) (p + 1)) (\<lambda>len.
             Inr (if len = 0 then None else Some (p + 2, len))))
      else Inr None)"

definition memset0 :: "bytes \<Rightarrow> nat \<Rightarrow> nat \<Rightarrow> bytes res" where
  \<comment> \<open>\<open>memset(p, 0, n)\<close>\<close>
  "memset0 b i n = wr b i (replicate n 0)"

definition UpdateExtensionLength :: "rtp_packet \<Rightarrow> u8 \<Rightarrow> u8 \<Rightarrow> (bool \<times> rtp_packet) res" where
  "UpdateExtensionLength pkt ident len =
     (if len = 0 then Inr (False, pkt)
      else if HasOnebyteExt (rp_buf pkt) (rp_ext pkt) then
        (case om_find (rp_onebyte_ext_map pkt) ident of
           None \<Rightarrow> Inr (False, pkt)
         | Some p \<Rightarrow> rbind (rd8 (rp_buf pkt) p) (\<lambda>x.
             let current_len = get_bits 0 4 x + 1 in
             rbind (if len < current_len
                    then memset0 (rp_buf pkt) (p + 1 + unat len) (unat current_len - unat len)
                    else Inr (rp_buf pkt)) (\<lambda>b1.
             rbind (wr b1 p [set_bits 0 4 (len - 1) x]) (\<lambda>b2. Inr (True, pkt\<lparr>rp_buf := b2\<rparr>)))))
      else if HasTwobytesExt (rp_buf pkt) (rp_ext pkt) then
        (case om_find (rp_twobytes_ext_map pkt) ident of
           None \<Rightarrow> Inr (False, pkt)
         | Some p \<Rightarrow> rbind (rd8 (rp_buf pkt) (p + 1)) (\<lambda>current_len.
             rbind (if len < current_len
                    then memset0 (rp_buf pkt) (p + 2 + unat len) (unat current_len - unat len)
                    else Inr (rp_buf pkt)) (\<lambda>b1.
             rbind (wr b1 (p + 1) [len]) (\<lambda>b2. Inr (True, pkt\<lparr>rp_buf := b2\<rparr>)))))
      else Inr (False, pkt))"

definition digit :: "nat \<Rightarrow> u8" where
  "digit n = of_nat (48 + n)"

definition to_string_u8 :: "u8 \<Rightarrow> bytes" where
  \<comment> \<open>\<open>std::to_string\<close> of a \<open>uint8_t\<close>\<close>
  "to_string_u8 v =
     (let n = unat v in
      if 100 \<le> n then [digit (n div 100), digit (n div 10 mod 10), digit (n mod 10)]
      else if 10 \<le> n then [digit (n div 10), digit (n mod 10)]
      else [digit n])"

fun atoi_digits :: "bytes \<Rightarrow> int \<Rightarrow> int" where
  "atoi_digits [] acc = acc"
| "atoi_digits (c # cs) acc =
     (if 48 \<le> c \<and> c \<le> 57 then atoi_digits cs (acc * 10 + (uint c - 48)) else acc)"

fun atoi :: "bytes \<Rightarrow> int" where
  \<comment> \<open>leading white space, an optional sign, then decimal digits; the result is an unbounded
    integer, so the overflow that C leaves undefined is not represented\<close>
  "atoi [] = 0"
| "atoi (c # cs) =
     (if c = 32 \<or> (9 \<le> c \<and> c \<le> 13) then atoi cs
      else if c = 45 then - atoi_digits cs 0
      else if c = 43 then atoi_digits cs 0
      else atoi_digits (c # cs) 0)"

definition UpdateMid :: "rtp_packet \<Rightarrow> u8 \<Rightarrow> (bool \<times> rtp_packet) res" where
  "UpdateMid pkt mid =
     rbind (GetExtension pkt (rp_mid_extension_id pkt)) (\<lambda>ext.
       case ext of
         None \<Rightarrow> Inr (False, pkt)
       | Some (v, _) \<Rightarrow>
           rbind (wr (rp_buf pkt) v (to_string_u8 mid)) (\<lambda>b.
             UpdateExtensionLength (pkt\<lparr>rp_buf := b\<rparr>) (rp_mid_extension_id pkt)
               (of_nat (length (to_string_u8 mid)))))"

definition ReadMid :: "rtp_packet \<Rightarrow> u8 option res" where
  "ReadMid pkt =
     rbind (GetExtension pkt (rp_mid_extension_id pkt)) (\<lambda>ext.
       case ext of
         None \<Rightarrow> Inr None
       | Some (v, len) \<Rightarrow>
           rbind (rd (rp_buf pkt) v (unat len)) (\<lambda>s. Inr (Some (word_of_int (atoi s)))))"

definition change_ext_id :: "rtp_packet \<Rightarrow> u8 \<Rightarrow> u8 \<Rightarrow> (rtp_packet \<times> nat) option res" where
  \<comment> \<open>the shared body of the three operations that give an element a new id: rewrite the id in
    place and move the map entry; the offset of the value is returned as well\<close>
  "change_ext_id pkt old new_id =
     (if HasOnebyteExt (rp_buf pkt) (rp_ext pkt) then
        (case om_find (rp_onebyte_ext_map pkt) old of
           None \<Rightarrow> Inr None
         | Some p \<Rightarrow> rbind (rd8 (rp_buf pkt) p) (\<lambda>x.
             rbind (wr (rp_buf pkt) p [set_bits 4 4 new_id x]) (\<lambda>b.
               Inr (Some (pkt\<lparr>rp_buf := b,
                 rp_onebyte_ext_map := om_insert new_id p (om_erase old (rp_onebyte_ext_map pkt))\<rparr>, p + 1)))))
      else if HasTwobytesExt (rp_buf pkt) (rp_ext pkt) then
        (case om_find (rp_twobytes_ext_map pkt) old of
           None \<Rightarrow> Inr None
         | Some p \<Rightarrow> rbind (rd8 (rp_buf pkt) (p + 1)) (\<lambda>len.
             if len = 0 then Inr None
             else rbind (wr (rp_buf pkt) p [new_id]) (\<lambda>b.
               Inr (Some (pkt\<lparr>rp_buf := b,
                 rp_twobytes_ext_map := om_insert new_id p (om_erase old (rp_twobytes_ext_map pkt))\<rparr>, p + 2)))))
      else Inr None)"

definition UpdateMid2 :: "rtp_packet \<Rightarrow> u8 \<Rightarrow> u8 \<Rightarrow> (bool \<times> rtp_packet) res" where
  \<comment> \<open>the overload with a new extension id\<close>
  "UpdateMid2 pkt new_mid_extern_id mid =
     rbind (change_ext_id pkt (rp_mid_extension_id pkt) new_mid_extern_id) (\<lambda>r.
       case r of
         None \<Rightarrow> Inr (False, pkt)
       | Some (pkt', v) \<Rightarrow>
           rbind (wr (rp_buf pkt') v (to_string_u8 mid)) (\<lambda>b.
             Inr (True, pkt'\<lparr>rp_buf := b, rp_mid_extension_id := new_mid_extern_id\<rparr>)))"

definition UpdateAbsTimeExternId :: "rtp_packet \<Rightarrow> u8 \<Rightarrow> (bool \<times> rtp_packet) res" where
  "UpdateAbsTimeExternId pkt new_id =
     rbind (change_ext_id pkt (rp_abs_time_extension_id pkt) new_id) (\<lambda>r.
       Inr (case r of None \<Rightarrow> (False, pkt)
            | Some (pkt', _) \<Rightarrow> (True, pkt'\<lparr>rp_abs_time_extension_id := new_id\<rparr>)))"

definition UpdateWideSeqExternId :: "rtp_packet \<Rightarrow> u8 \<Rightarrow> (bool \<times> rtp_packet) res" where
  "UpdateWideSeqExternId pkt new_id =
     rbind (change_ext_id pkt (rp_tcc_extension_id pkt) new_id) (\<lambda>r.
       Inr (case r of None \<Rightarrow> (False, pkt)
            | Some (pkt', _) \<Rightarrow> (True, pkt'\<lparr>rp_tcc_extension_id := new_id\<rparr>)))"

definition ReadAbsTime :: "rtp_packet \<Rightarrow> u32 option res" where
  \<comment> \<open>a length other than 3 is only logged\<close>
  "ReadAbsTime pkt =
     rbind (GetExtension pkt (rp_abs_time_extension_id pkt)) (\<lambda>ext.
       case ext of None \<Rightarrow> Inr None
       | Some (v, _) \<Rightarrow> rbind (Read3Bytes (rp_buf pkt) v) (\<lambda>t. Inr (Some t)))"

definition UpdateAbsTime :: "rtp_packet \<Rightarrow> u32 \<Rightarrow> (bool \<times> rtp_packet) res" where
  "UpdateAbsTime pkt abs_time_24bits =
     rbind (GetExtension pkt (rp_abs_time_extension_id pkt)) (\<lambda>ext.
       case ext of None \<Rightarrow> Inr (False, pkt)
       | Some (v, _) \<Rightarrow> rbind (Write3Bytes (rp_buf pkt) v abs_time_24bits) (\<lambda>b.
           UpdateExtensionLength (pkt\<lparr>rp_buf := b\<rparr>) (rp_abs_time_extension_id pkt) 3))"

definition ReadWideSeq :: "rtp_packet \<Rightarrow> u16 option res" where
  \<comment> \<open>a length other than 2 is only logged\<close>
  "ReadWideSeq pkt =
     rbind (GetExtension pkt (rp_tcc_extension_id pkt)) (\<lambda>ext.
       case ext of None \<Rightarrow> Inr None
       | Some (v, _) \<Rightarrow> rbind (Read2Bytes (rp_buf pkt) v) (\<lambda>s. Inr (Some s)))"

definition UpdateWideSeq :: "rtp_packet \<Rightarrow> u16 \<Rightarrow> (bool \<times> rtp_packet) res" where
  "UpdateWideSeq pkt wide_seq =
     rbind (GetExtension pkt (rp_tcc_extension_id pkt)) (\<lambda>ext.
       case ext of None \<Rightarrow> Inr (False, pkt)
       | Some (v, _) \<Rightarrow> rbind (Write2Bytes (rp_buf pkt) v wide_seq) (\<lambda>b.
           UpdateExtensionLength (pkt\<lparr>rp_buf := b\<rparr>) (rp_tcc_extension_id pkt) 2))"

fun find_ext_value :: "(nat \<Rightarrow> (nat \<times> nat) res) \<Rightarrow> bytes \<Rightarrow> bytes \<Rightarrow> (u8, nat) omap \<Rightarrow> (u8 \<times> nat) option res" where
  \<comment> \<open>the loop over an extension map for the first element whose value is \<open>mid_str\<close>; \<open>loc p\<close> is the
    place and length of the value of the element at \<open>p\<close>\<close>
  "find_ext_value loc b mid_str [] = Inr None"
| "find_ext_value loc b mid_str ((ident, p) # m) =
     rbind (loc p) (\<lambda>(v, n). rbind (rd b v n) (\<lambda>val.
       if val = mid_str then Inr (Some (ident, p)) else find_ext_value loc b mid_str m))"

definition loc_onebyte :: "bytes \<Rightarrow> nat \<Rightarrow> (nat \<times> nat) res" where
  "loc_onebyte b p = rbind (rd8 b p) (\<lambda>x. Inr (p + 1, unat (get_bits 0 4 x) + 1))"

definition loc_twobytes :: "bytes \<Rightarrow> nat \<Rightarrow> (nat \<times> nat) res" where
  "loc_twobytes b p = rbind (rd8 b (p + 1)) (\<lambda>len. Inr (p + 2, unat len))"

definition ClearMidExtension :: "rtp_packet \<Rightarrow> u8 \<Rightarrow> (bool \<times> u8 option \<times> rtp_packet) res" where
  \<comment> \<open>the second component is what is assigned to \<open>old_ext_id\<close>, if anything\<close>
  "ClearMidExtension pkt0 mid_value =
     (let pkt = pkt0\<lparr>rp_mid_extension_id := 0\<rparr>;
          b = rp_buf pkt;
          mid_str = to_string_u8 mid_value;
          ext_end = (case rp_ext pkt of None \<Rightarrow> 0 | Some e \<Rightarrow> e + 4 + unat (GetExtLength b (Some e)))
      in if HasOnebyteExt b (rp_ext pkt) then
           rbind (find_ext_value (loc_onebyte b) b mid_str (rp_onebyte_ext_map pkt)) (\<lambda>r.
             case r of None \<Rightarrow> Inr (False, None, pkt)
             | Some (ident, p) \<Rightarrow> rbind (rd8 b p) (\<lambda>x.
                 let total_len = unat (get_bits 0 4 x) + 2 in
                 if p + total_len > ext_end then Inr (False, Some ident, pkt)
                 else rbind (memset0 b p total_len) (\<lambda>b'.
                   Inr (True, Some ident, pkt\<lparr>rp_buf := b',
                     rp_onebyte_ext_map := om_erase ident (rp_onebyte_ext_map pkt)\<rparr>))))
         else if HasTwobytesExt b (rp_ext pkt) then
           rbind (find_ext_value (loc_twobytes b) b mid_str (rp_twobytes_ext_map pkt)) (\<lambda>r.
             case r of None \<Rightarrow> Inr (False, None, pkt)
             | Some (ident, p) \<Rightarrow> rbind (rd8 b (p + 1)) (\<lambda>len.
                 let total_len = unat len + 2 in
                 if p + total_len > ext_end then Inr (False, Some ident, pkt)
                 else rbind (memset0 b p total_len) (\<lambda>b'.
                   Inr (True, Some ident, pkt\<lparr>rp_buf := b',
                     rp_twobytes_ext_map := om_erase ident (rp_twobytes_ext_map pkt)\<rparr>))))
         else Inr (False, None, pkt))"

section \<open>Retransmission format\<close>

definition drop_padding :: "rtp_packet \<Rightarrow> rtp_packet" where
  \<comment> \<open>the tail shared by \<open>RtxDemux\<close> and \<open>RtxMux\<close>\<close>
  "drop_padding pkt =
     (if HasPadding pkt
      then (SetPadding False pkt)\<lparr>rp_data_len := rp_data_len pkt - unat (rp_pad_len pkt), rp_pad_len := 0\<rparr>
      else pkt)"

definition RtxDemux :: "rtp_packet \<Rightarrow> u32 \<Rightarrow> u8 \<Rightarrow> rtp_packet res" where
  "RtxDemux pkt ssrc payloadtype =
     (if rp_payload_len pkt < 2 then Inl Throw
      else rbind (Read2Bytes (rp_buf pkt) (rp_payload pkt)) (\<lambda>replace_seq.
        let pkt1 = SetSsrc ssrc (SetSeq replace_seq (SetPayloadType payloadtype pkt)) in
        rbind (rd (rp_buf pkt1) (rp_payload pkt + 2) (rp_payload_len pkt - 2)) (\<lambda>moved.
        rbind (wr (rp_buf pkt1) (rp_payload pkt) moved) (\<lambda>b.
          Inr (drop_padding (pkt1\<lparr>rp_buf := b, rp_payload_len := rp_payload_len pkt - 2,
            rp_data_len := rp_data_len pkt - 2\<rparr>))))))"

definition RtxMux :: "rtp_packet \<Rightarrow> u8 \<Rightarrow> u32 \<Rightarrow> u16 \<Rightarrow> rtp_packet res" where
  "RtxMux pkt payload_type ssrc seq =
     (let pkt1 = SetSsrc ssrc (SetPayloadType payload_type pkt) in
      rbind (rd (rp_buf pkt1) (rp_payload pkt) (rp_payload_len pkt)) (\<lambda>moved.
      rbind (wr (rp_buf pkt1) (rp_payload pkt + 2) moved) (\<lambda>b1.
      rbind (Write2Bytes b1 (rp_payload pkt) (GetSeq (pkt1\<lparr>rp_buf := b1\<rparr>))) (\<lambda>b2.
        Inr (drop_padding ((SetSeq seq (pkt1\<lparr>rp_buf := b2\<rparr>))\<lparr>rp_payload_len := rp_payload_len pkt + 2,
          rp_data_len := rp_data_len pkt + 2\<rparr>))))))"

section \<open>Invariant\<close>

definition ext_end :: "rtp_packet \<Rightarrow> nat" where
  "ext_end pkt = (case rp_ext pkt of None \<Rightarrow> 0
     | Some e \<Rightarrow> e + 4 + unat (GetExtLength (rp_buf pkt) (Some e)))"

definition elem_ok1 :: "bytes \<Rightarrow> nat \<Rightarrow> nat \<Rightarrow> nat \<Rightarrow> bool" where
  \<comment> \<open>a one-byte-header element at \<open>p\<close> lies between \<open>lo\<close> and \<open>hi\<close>\<close>
  "elem_ok1 b lo hi p \<longleftrightarrow> lo \<le> p \<and> p + 2 + unat (get_bits 0 4 (b ! p)) \<le> hi"

definition elem_ok2 :: "bytes \<Rightarrow> nat \<Rightarrow> nat \<Rightarrow> nat \<Rightarrow> bool" where
  "elem_ok2 b lo hi p \<longleftrightarrow> lo \<le> p \<and> p + 2 + unat (b ! (p + 1)) \<le> hi"

definition ext_ok :: "rtp_packet \<Rightarrow> bool" where
  "ext_ok pkt \<longleftrightarrow> om_ok (rp_onebyte_ext_map pkt) \<and> om_ok (rp_twobytes_ext_map pkt) \<and>
     (case rp_ext pkt of
        None \<Rightarrow> rp_onebyte_ext_map pkt = [] \<and> rp_twobytes_ext_map pkt = []
      | Some e \<Rightarrow> 12 \<le> e \<and> ext_end pkt \<le> rp_payload pkt \<and>
          (\<forall>(i, p) \<in> set (rp_onebyte_ext_map pkt). elem_ok1 (rp_buf pkt) (e + 4) (ext_end pkt) p) \<and>
          (\<forall>(i, p) \<in> set (rp_twobytes_ext_map pkt). elem_ok2 (rp_buf pkt) (e + 4) (ext_end pkt) p))"

definition rtp_ok :: "rtp_packet \<Rightarrow> bool" where
  "rtp_ok pkt \<longleftrightarrow> hdr_ok (rp_buf pkt) \<and> rp_data_len pkt \<le> length (rp_buf pkt) \<and> 12 \<le> rp_payload pkt \<and>
     rp_payload pkt + rp_payload_len pkt + unat (rp_pad_len pkt) = rp_data_len pkt \<and>
     (HasPadding pkt \<or> rp_pad_len pkt = 0) \<and> ext_ok pkt"

lemma nibble: "unat (x AND 0x0F) = unat (get_bits 0 4 (x :: u8))"
proof -
  have "x AND 0x0F = take_bit 4 x" by (simp only: take_bit_eq_mask) (simp add: mask_eq_exp_minus_1)
  then show ?thesis by (simp add: get_bits_def)
qed

lemma skip_zeros_total: "e \<le> length b \<Longrightarrow> \<exists>q. skip_zeros b e p = Inr q \<and> p \<le> q \<and> (p \<le> e \<longrightarrow> q \<le> e)"
proof (induction b e p rule: skip_zeros.induct)
  case (1 b e p)
  show ?case
  proof (cases "p < e \<and> b ! p = 0")
    case True
    with 1 obtain q where "skip_zeros b e (Suc p) = Inr q" "Suc p \<le> q" "q \<le> e"
      by (fastforce simp: rd8_def)
    with True "1.prems" show ?thesis by (subst skip_zeros.simps) (auto simp: rd8_def)
  next
    case False
    with "1.prems" show ?thesis by (subst skip_zeros.simps) (auto simp: rd8_def)
  qed
qed

lemma onebyte_loop_safe: "e \<le> length b \<Longrightarrow> throws_only (onebyte_loop b e p m)"
proof (induction b e p m rule: onebyte_loop.induct)
  case (1 b e p m)
  show ?case
  proof (cases "p < e")
    case True
    let ?n = "unat (b ! p AND 0x0F)" and ?i = "drop_bit 4 (b ! p AND 0xF0)"
    from "1.prems" True have x: "rd8 b p = Inr (b ! p)" by simp
    obtain q where q: "skip_zeros b e (p + 1) = Inr q" using skip_zeros_total "1.prems" by blast
    obtain r where r: "skip_zeros b e (p + 1 + (?n + 1)) = Inr r" using skip_zeros_total "1.prems" by blast
    have "throws_only (onebyte_loop b e q m)" if "?i = 0"
      using "1.IH"(2) [OF True x refl refl _ _ q "1.prems"] that by simp
    moreover have "throws_only (onebyte_loop b e r (om_insert ?i p m))"
      if "?i \<noteq> 0" "?i \<noteq> 0x0f" "\<not> p + 1 + (?n + 1) > e"
      using "1.IH"(1) [OF True x refl refl that(2,1,3) r "1.prems"] by simp
    ultimately show ?thesis
      using True x q r by (subst onebyte_loop.simps) (simp add: Let_def)
  qed (subst onebyte_loop.simps, simp)
qed

lemma onebyte_loop_ok:
  assumes "onebyte_loop b e p m = Inr m'" "om_ok m" "lo \<le> p" "\<forall>(i, q) \<in> set m. elem_ok1 b lo e q"
  shows "om_ok m' \<and> (\<forall>(i, q) \<in> set m'. elem_ok1 b lo e q)"
  using assms
proof (induction b e p m rule: onebyte_loop.induct)
  case (1 b e p m)
  show ?case
  proof (cases "p < e")
    case True
    let ?n = "unat (b ! p AND 0x0F)" and ?i = "drop_bit 4 (b ! p AND 0xF0)"
    from "1.prems"(1) True have x: "rd8 b p = Inr (b ! p)"
      by (subst (asm) onebyte_loop.simps) (auto simp: rd8_def split: if_splits)
    consider "?i = 0x0f" | "?i = 0" | "?i \<noteq> 0" "?i \<noteq> 0x0f" by blast
    then show ?thesis
    proof cases
      case 1
      with "1.prems" True x show ?thesis by (subst (asm) onebyte_loop.simps) (simp add: Let_def)
    next
      case 2
      with "1.prems"(1) True x obtain q where q: "skip_zeros b e (p + 1) = Inr q" "onebyte_loop b e q m = Inr m'"
        by (subst (asm) onebyte_loop.simps) (auto simp: Let_def)
      with 2 show ?thesis
        using "1.IH"(2) [OF True x refl refl _ _ q(1) q(2)] "1.prems" skip_zeros_ge [OF q(1)] by simp
    next
      case 3
      with "1.prems"(1) True x obtain q where q: "skip_zeros b e (p + 1 + (?n + 1)) = Inr q"
          "onebyte_loop b e q (om_insert ?i p m) = Inr m'" and fit: "\<not> p + 1 + (?n + 1) > e"
        by (subst (asm) onebyte_loop.simps) (auto simp: Let_def split: if_splits)
      have "\<forall>(i, q) \<in> set (om_insert ?i p m). elem_ok1 b lo e q"
        using set_om_insert_subset [of ?i p m] "1.prems"(3,4) fit by (auto simp: elem_ok1_def nibble)
      with 3 show ?thesis
        using "1.IH"(1) [OF True x refl refl 3(2,1) fit q] "1.prems" skip_zeros_ge [OF q(1)] by simp
    qed
  next
    case False
    with "1.prems" show ?thesis by (subst (asm) onebyte_loop.simps) simp
  qed
qed

lemma twobytes_loop_safe: "e \<le> length b \<Longrightarrow> throws_only (twobytes_loop b e p m)"
proof (induction b e p m rule: twobytes_loop.induct)
  case (1 b e p m)
  show ?case
  proof (cases "p + 1 < e")
    case True
    let ?n = "b ! (p + 1)" and ?i = "b ! p"
    from "1.prems" True have x: "rd8 b p = Inr ?i" "rd8 b (p + 1) = Inr ?n" by simp_all
    obtain q where q: "skip_zeros b e (p + 1) = Inr q" using skip_zeros_total "1.prems" by blast
    obtain r where r: "skip_zeros b e (p + 2 + unat ?n) = Inr r" using skip_zeros_total "1.prems" by blast
    have "throws_only (twobytes_loop b e q m)" if "?i = 0"
      using "1.IH"(2) [OF True x _ q "1.prems"] that by simp
    moreover have "throws_only (twobytes_loop b e r (om_insert ?i p m))"
      if "?i \<noteq> 0" "\<not> p + 2 + unat ?n > e"
      using "1.IH"(1) [OF True x that r "1.prems"] by simp
    ultimately show ?thesis
      using True x q r "1.prems" by (subst twobytes_loop.simps) simp
  qed (subst twobytes_loop.simps, simp)
qed

lemma twobytes_loop_ok:
  assumes "twobytes_loop b e p m = Inr m'" "om_ok m" "lo \<le> p" "\<forall>(i, q) \<in> set m. elem_ok2 b lo e q"
  shows "om_ok m' \<and> (\<forall>(i, q) \<in> set m'. elem_ok2 b lo e q)"
  using assms
proof (induction b e p m rule: twobytes_loop.induct)
  case (1 b e p m)
  show ?case
  proof (cases "p + 1 < e")
    case True
    let ?n = "b ! (p + 1)" and ?i = "b ! p"
    from "1.prems"(1) True have x: "rd8 b p = Inr ?i" "rd8 b (p + 1) = Inr ?n"
      by (subst (asm) twobytes_loop.simps; auto)+
    show ?thesis
    proof (cases "?i = 0")
      case i: True
      with "1.prems"(1) True x obtain q where q: "skip_zeros b e (p + 1) = Inr q" "twobytes_loop b e q m = Inr m'"
        by (subst (asm) twobytes_loop.simps) auto
      with i show ?thesis
        using "1.IH"(2) [OF True x _ q(1) q(2)] "1.prems" skip_zeros_ge [OF q(1)] by simp
    next
      case i: False
      with "1.prems"(1) True x obtain q where q: "skip_zeros b e (p + 2 + unat ?n) = Inr q"
          "twobytes_loop b e q (om_insert ?i p m) = Inr m'" and fit: "\<not> p + 2 + unat ?n > e"
        by (subst (asm) twobytes_loop.simps) (auto split: if_splits)
      have "\<forall>(i, q) \<in> set (om_insert ?i p m). elem_ok2 b lo e q"
        using set_om_insert_subset [of ?i p m] "1.prems"(3,4) fit by (auto simp: elem_ok2_def)
      with i show ?thesis
        using "1.IH"(1) [OF True x i fit q] "1.prems" skip_zeros_ge [OF q(1)] by simp
    qed
  next
    case False
    with "1.prems" show ?thesis by (subst (asm) twobytes_loop.simps) simp
  qed
qed

section \<open>Parsing\<close>

lemma ParseExt_ok:
  assumes "ParseExt pkt = Inr pkt'" and "rp_onebyte_ext_map pkt = []" "rp_twobytes_ext_map pkt = []"
    and "\<And>e. rp_ext pkt = Some e \<Longrightarrow> 12 \<le> e \<and> ext_end pkt \<le> rp_payload pkt"
  shows "ext_ok pkt' \<and> (\<exists>m1 m2. pkt' = pkt\<lparr>rp_onebyte_ext_map := m1, rp_twobytes_ext_map := m2\<rparr>)"
proof (cases "hdr_extension (rp_buf pkt) = 0 \<or> rp_ext pkt = None")
  case True
  with assms have "pkt' = pkt" by (auto simp: ParseExt_def split: option.splits)
  moreover have "pkt = pkt\<lparr>rp_onebyte_ext_map := [], rp_twobytes_ext_map := []\<rparr>"
    using assms(2,3) by (cases pkt) simp
  moreover have "ext_ok pkt" using assms(2-4) by (auto simp: ext_ok_def split: option.splits)
  ultimately show ?thesis by blast
next
  case False
  then obtain e where e: "rp_ext pkt = Some e" by auto
  let ?stop = "e + 4 + unat (GetExtLength (rp_buf pkt) (Some e))"
  consider m where "onebyte_loop (rp_buf pkt) ?stop (e + 4) [] = Inr m" "pkt' = pkt\<lparr>rp_onebyte_ext_map := m\<rparr>"
    | m where "twobytes_loop (rp_buf pkt) ?stop (e + 4) [] = Inr m" "pkt' = pkt\<lparr>rp_twobytes_ext_map := m\<rparr>"
    using assms(1) False e
    by (auto simp: ParseExt_def ParseOnebyteExt_def ParseTwobytesExt_def Let_def split: if_splits)
  then show ?thesis
  proof cases
    case 1
    then have "pkt' = pkt\<lparr>rp_onebyte_ext_map := m, rp_twobytes_ext_map := []\<rparr>"
      using assms(2,3) by (cases pkt) simp
    moreover have "ext_ok pkt'"
      using 1 onebyte_loop_ok [OF 1(1), of "e + 4"] assms(2-4) e by (auto simp: ext_ok_def ext_end_def)
    ultimately show ?thesis by blast
  next
    case 2
    then have "pkt' = pkt\<lparr>rp_onebyte_ext_map := [], rp_twobytes_ext_map := m\<rparr>"
      using assms(2,3) by (cases pkt) simp
    moreover have "ext_ok pkt'"
      using 2 twobytes_loop_ok [OF 2(1), of "e + 4"] assms(2-4) e by (auto simp: ext_ok_def ext_end_def)
    ultimately show ?thesis by blast
  qed
qed

lemma get_bits_1_cases: "get_bits lo 1 (w :: u8) = 0 \<or> get_bits lo 1 w = 1"
proof -
  have "get_bits lo 1 w = of_bool (bit w lo)"
    by (rule bit_word_eqI) (auto simp: bit_get_bits bit_simps)
  then show ?thesis by simp
qed

lemma parse_ext_header_Inr:
  assumes "parse_ext_header data len b0 p = Inr (ext, q)" and "len \<le> length data" and "len \<le> 1500"
  shows "p \<le> q \<and> (ext = None \<and> q = p \<and> get_bits 4 1 b0 = 0 \<or>
     ext = Some p \<and> q = p + 4 + unat (GetExtLength data (Some p)) \<and> q \<le> len \<and> get_bits 4 1 b0 = 1)"
proof (cases "get_bits 4 1 b0 = 0")
  case True
  with assms show ?thesis by (simp add: parse_ext_header_def)
next
  case False
  with assms(1) obtain l where l: "Read2Bytes data (p + 2) = Inr l" and fit: "p + 4 + unat l * 4 \<le> len"
    and q: "ext = Some p" "q = p + 4 + unat l * 4"
    by (auto simp: parse_ext_header_def Let_def split: if_splits)
  from l have "of_be (take 2 (drop (p + 2) data)) = l" by (auto simp: Read_be)
  moreover have "unat (l * 4) = unat l * 4"
    using fit assms(3) by (subst unat_mult_lem [THEN iffD1]) simp_all
  ultimately show ?thesis
    using False fit q get_bits_1_cases [of 4 b0] by (simp add: GetExtLength_def)
qed

lemma parse_padding_Inr:
  assumes "parse_padding data len b0 n = Inr (pad, k)"
  shows "k + unat pad = n \<and> (get_bits 5 1 b0 = 1 \<or> pad = 0)"
  using assms get_bits_1_cases [of 5 b0]
  by (auto simp: parse_padding_def word_gt_0 split: if_splits)

lemma Parse_Inr:
  assumes "Parse now_ms data len = Inr pkt" and "len \<le> length data"
  shows "rtp_ok pkt \<and> rp_buf pkt = data \<and> rp_data_len pkt = len \<and> rp_local_ms pkt = now_ms \<and>
    0 < rp_payload_len pkt + unat (rp_pad_len pkt) \<and> len \<le> 1500"
proof -
  let ?b0 = "data ! 0"
  from assms(1) obtain ext p pad k where len: "len \<le> 1500" and ne: "0 < length data"
    and h: "parse_ext_header data len ?b0 (12 + 4 * unat (get_bits 0 4 ?b0)) = Inr (ext, p)"
    and p: "p < len" and pad: "parse_padding data len ?b0 (len - p) = Inr (pad, k)"
    and new: "RtpPacket_new now_ms data ext p k pad len = Inr pkt"
    by (auto simp: Parse_def RTP_PACKET_MAX_SIZE_def split: if_splits)
  let ?pkt = "\<lparr>rp_buf = data, rp_ext = ext, rp_payload = p, rp_payload_len = k,
         rp_pad_len = pad, rp_data_len = len, rp_local_ms = now_ms, rp_need_delete = False,
         rp_mid_extension_id = 0, rp_abs_time_extension_id = 0, rp_tcc_extension_id = 0,
         rp_onebyte_ext_map = [], rp_twobytes_ext_map = []\<rparr>"
  from new have P: "ParseExt ?pkt = Inr pkt" by (auto simp: RtpPacket_new_def split: if_splits)
  note H = parse_ext_header_Inr [OF h assms(2) len]
  from ParseExt_ok [OF P] H obtain m1 m2 where ok: "ext_ok pkt"
    and pkt: "pkt = ?pkt\<lparr>rp_onebyte_ext_map := m1, rp_twobytes_ext_map := m2\<rparr>"
    by (auto simp: ext_end_def)
  then show ?thesis
    using parse_padding_Inr [OF pad] p assms(2) len H
    by (auto simp: rtp_ok_def hdr_ok_def HasPadding_def hdr_padding_def)
qed

lemma ParseExt_throws_only:
  "(\<And>e. rp_ext pkt = Some e \<Longrightarrow> ext_end pkt \<le> length (rp_buf pkt)) \<Longrightarrow> throws_only (ParseExt pkt)"
  by (auto simp: ParseExt_def ParseOnebyteExt_def ParseTwobytesExt_def ext_end_def Let_def
      split: option.splits intro!: safe_intro onebyte_loop_safe twobytes_loop_safe)

lemma Parse_throws_only:
  assumes "0 < len" and "len \<le> length data"
  shows "throws_only (Parse now_ms data len)"
proof -
  have "throws_only (parse_ext_header data len b0 p)" for b0 p
    using assms by (auto simp: parse_ext_header_def Read_be Let_def intro!: safe_intro)
  moreover have "throws_only (parse_padding data len b0 k)" for b0 k
    using assms by (auto simp: parse_padding_def intro!: safe_intro)
  moreover have "throws_only (RtpPacket_new now_ms data ext q k pad len)"
    if "parse_ext_header data len b0 p = Inr (ext, q)" "len \<le> 1500" for b0 p ext q k pad
    unfolding RtpPacket_new_def
    using parse_ext_header_Inr [OF that(1) assms(2) that(2)] assms
    by (auto intro!: safe_intro ParseExt_throws_only simp: ext_end_def)
  moreover have "data \<noteq> []" using assms by auto
  ultimately show ?thesis
    using assms by (auto simp: Parse_def RTP_PACKET_MAX_SIZE_def intro!: safe_intro)
qed

text \<open>
  C1. Parsing never leaves the received datagram: on any non-empty buffer that holds the announced
  number of bytes, \<open>RtpPacket::Parse\<close> either throws or returns a packet; no byte outside the buffer
  is read, whatever the extension block contains. A returned packet satisfies the
  class invariant: header, extension elements, payload and padding lie in this order inside the
  datagram, and the lengths add up.
\<close>

theorem Parse_safe:
  assumes "0 < len" and "len \<le> length data"
  shows "Parse now_ms data len = Inl Throw \<or>
    (\<exists>pkt. Parse now_ms data len = Inr pkt \<and> rtp_ok pkt \<and> GetData pkt = take len data \<and>
       rp_payload pkt + rp_payload_len pkt + unat (rp_pad_len pkt) = len)"
proof -
  have "Parse now_ms data len = Inl Throw \<or> (\<exists>pkt. Parse now_ms data len = Inr pkt)"
    by (rule throws_only_cases [OF Parse_throws_only [OF assms]])
  moreover have "rtp_ok pkt \<and> GetData pkt = take len data \<and>
      rp_payload pkt + rp_payload_len pkt + unat (rp_pad_len pkt) = len"
    if "Parse now_ms data len = Inr pkt" for pkt
    using Parse_Inr [OF that assms(2)] by (auto simp: rtp_ok_def GetData_def)
  ultimately show ?thesis by blast
qed

theorem Parse_safe_witness:
  "\<exists>pkt. Parse 7 [0x90, 96, 0, 1, 0, 0, 0, 2, 0, 0, 0, 3, 0xBE, 0xDE, 0, 1, 0x31, 7, 8, 0, 0xAA] 21 = Inr pkt
     \<and> rtp_ok pkt \<and> rp_payload pkt = 20"
proof -
  let ?d = "[0x90, 96, 0, 1, 0, 0, 0, 2, 0, 0, 0, 3, 0xBE, 0xDE, 0, 1, 0x31, 7, 8, 0, 0xAA] :: bytes"
  have "case_sum (\<lambda>_. 0) rp_payload (Parse 7 ?d 21) = 20" by code_simp
  with Parse_safe [of 21 ?d 7] show ?thesis by auto
qed

section \<open>Retransmission round trip\<close>

lemma move_back:
  fixes s :: bytes
  assumes "q + 2 + n \<le> length b"
  defines "b' \<equiv> poke (poke b (q + 2) (take n (drop q b))) q s"
  assumes "length s = 2"
  shows "take n (drop (q + 2) b') = take n (drop q b)"
    "take (q + n) (poke b' q (take n (drop q b))) = take (q + n) b"
proof -
  let ?w = "take n (drop q b)"
  have w: "length ?w = n" using assms by simp
  have "take n (drop (q + 2) b') = take n (drop (q + 2) (poke b (q + 2) ?w))"
    unfolding b'_def using assms w by (intro take_drop_poke_other) simp_all
  also have "\<dots> = ?w" using take_drop_poke_same [of "q + 2" ?w b] assms w by simp
  finally show "take n (drop (q + 2) b') = ?w" .
  show "take (q + n) (poke b' q ?w) = take (q + n) b"
  proof (rule nth_equalityI)
    show "length (take (q + n) (poke b' q ?w)) = length (take (q + n) b)"
      using assms w by (simp add: b'_def)
    fix k assume "k < length (take (q + n) (poke b' q ?w))"
    then show "take (q + n) (poke b' q ?w) ! k = take (q + n) b ! k"
      using assms w by (auto simp: b'_def nth_poke)
  qed
qed

lemma moved_payload:
  assumes "q + 2 + n \<le> length b" and "length w = n"
  shows "take (n + 2) (drop q (poke (poke b (q + 2) w) q (be 2 (s :: u16)))) = be 2 s @ w"
proof -
  let ?M = "poke (poke b (q + 2) w) q (be 2 s)"
  have "take (2 + n) (drop q ?M) = take 2 (drop q ?M) @ take n (drop (q + 2) ?M)"
    unfolding take_add drop_drop by (simp add: add.commute)
  also have "take 2 (drop q ?M) = be 2 s"
    using take_drop_poke_same [of q "be 2 s"] assms by simp
  also have "take n (drop (q + 2) ?M) = w"
    using take_drop_poke_same [of "q + 2" w b] assms by simp
  finally show ?thesis by (simp add: add.commute)
qed

abbreviation rtx_header :: "u8 \<Rightarrow> u32 \<Rightarrow> u16 \<Rightarrow> bytes \<Rightarrow> bytes" where
  "rtx_header pt ssrc seq b \<equiv> set_hdr_sequence seq (set_hdr_ssrc ssrc (set_hdr_payload_type pt b))"

lemma RtxMux_eq:
  assumes "rtp_ok pkt" and "rp_payload pkt + rp_payload_len pkt + 2 \<le> length (rp_buf pkt)"
  shows "RtxMux pkt pt ssrc seq = Inr (drop_padding (pkt\<lparr>
    rp_buf := poke (poke (rtx_header pt ssrc seq (rp_buf pkt)) (rp_payload pkt + 2) (GetPayload pkt))
      (rp_payload pkt) (be 2 (GetSeq pkt)),
    rp_payload_len := rp_payload_len pkt + 2, rp_data_len := rp_data_len pkt + 2\<rparr>))"
proof -
  from assms have h: "hdr_ok (rp_buf pkt)" "12 \<le> rp_payload pkt" by (simp_all add: rtp_ok_def)
  then show ?thesis
    using assms(2)
    by (simp add: RtxMux_def Let_def SetSsrc_def SetSeq_def SetPayloadType_def Write_be GetSeq_def
        GetPayload_def set_hdr_poke wr_def rd_def)
qed

definition has_room :: "rtp_packet \<Rightarrow> bool" where
  \<comment> \<open>the two bytes of the original sequence number fit behind the payload\<close>
  "has_room pkt \<longleftrightarrow> rp_payload pkt + rp_payload_len pkt + 2 \<le> length (rp_buf pkt)"

lemma has_roomI: "rtp_ok pkt \<Longrightarrow> rp_data_len pkt + 2 \<le> length (rp_buf pkt) \<Longrightarrow> has_room pkt"
  by (auto simp: has_room_def rtp_ok_def)

lemma RtxMux_overrun:
  assumes "rtp_ok pkt" and "\<not> has_room pkt"
  shows "RtxMux pkt pt ssrc seq = Inl OutOfBounds"
proof -
  from assms have "hdr_ok (rp_buf pkt)" "12 \<le> rp_payload pkt"
    "rp_payload pkt + rp_payload_len pkt \<le> length (rp_buf pkt)" by (auto simp: rtp_ok_def)
  then show ?thesis
    using assms(2) by (auto simp: RtxMux_def Let_def SetSsrc_def SetPayloadType_def has_room_def wr_def rd_def)
qed

lemma RtxMux_room: "rtp_ok pkt \<Longrightarrow> RtxMux pkt pt ssrc seq = Inr mux \<Longrightarrow> has_room pkt"
  using RtxMux_overrun by fastforce

lemma RtxDemux_eq:
  assumes "rtp_ok pkt" and "2 \<le> rp_payload_len pkt"
  shows "RtxDemux pkt ssrc pt = Inr (drop_padding (pkt\<lparr>
    rp_buf := poke (rtx_header pt ssrc (of_be (take 2 (GetPayload pkt))) (rp_buf pkt))
      (rp_payload pkt) (drop 2 (GetPayload pkt)),
    rp_payload_len := rp_payload_len pkt - 2, rp_data_len := rp_data_len pkt - 2\<rparr>))"
proof -
  from assms have h: "hdr_ok (rp_buf pkt)" "12 \<le> rp_payload pkt"
    "rp_payload pkt + rp_payload_len pkt \<le> length (rp_buf pkt)"
    by (auto simp: rtp_ok_def)
  moreover from h assms(2) have "Read2Bytes (rp_buf pkt) (rp_payload pkt) = Inr (of_be (take 2 (GetPayload pkt)))"
    by (simp add: Read_be GetPayload_def min_def)
  moreover have "drop 2 (GetPayload pkt) = take (rp_payload_len pkt - 2) (drop (rp_payload pkt + 2) (rp_buf pkt))"
    by (simp add: GetPayload_def drop_take add.commute)
  ultimately show ?thesis
    using assms(2) seq_ssrc.comm [of "set_hdr_payload_type pt (rp_buf pkt)"]
    by (simp add: RtxDemux_def Let_def SetSsrc_def SetSeq_def SetPayloadType_def)
qed

lemma rtx_header_restore:
  assumes "hdr_ok b"
  shows "rtx_header (hdr_payload_type b) (hdr_ssrc b) (hdr_sequence b) (rtx_header pt ssrc seq b) = b"
  using assms
  by (simp add: seq_ssrc.comm seq_pt.comm ssrc_pt.comm seqL.put_put ssrcL.put_put ptL.put_put
      seqL.put_get ssrcL.put_get ptL.put_get flip: seq_ssrc.comm)

lemma ext_ok_frame:
  assumes "ext_ok pkt" and "rp_payload pkt \<le> length (rp_buf pkt)" and "length b' = length (rp_buf pkt)"
    and same: "\<And>k. 12 \<le> k \<Longrightarrow> k < rp_payload pkt \<Longrightarrow> b' ! k = rp_buf pkt ! k"
  shows "ext_ok (pkt\<lparr>rp_buf := b'\<rparr>)"
proof (cases "rp_ext pkt")
  case None
  with assms(1) show ?thesis by (simp add: ext_ok_def)
next
  case (Some e)
  with assms(1) have e: "12 \<le> e" "ext_end pkt \<le> rp_payload pkt" by (simp_all add: ext_ok_def)
  then have "take 2 (drop (e + 2) b') = take 2 (drop (e + 2) (rp_buf pkt))"
    using assms(2,3) Some by (intro nth_equalityI) (auto simp: ext_end_def intro!: same)
  then have end': "ext_end (pkt\<lparr>rp_buf := b'\<rparr>) = ext_end pkt"
    using Some by (simp add: ext_end_def GetExtLength_def)
  have "elem_ok1 b' (e + 4) (ext_end pkt) p" if "elem_ok1 (rp_buf pkt) (e + 4) (ext_end pkt) p" for p
    using that e same [of p] by (auto simp: elem_ok1_def)
  moreover have "elem_ok2 b' (e + 4) (ext_end pkt) p" if "elem_ok2 (rp_buf pkt) (e + 4) (ext_end pkt) p" for p
    using that e same [of "p + 1"] by (auto simp: elem_ok2_def)
  ultimately show ?thesis
    using assms(1) Some by (fastforce simp: ext_ok_def end')
qed

lemma ext_ok_lens [simp]:
  "ext_ok (pkt\<lparr>rp_payload_len := n\<rparr>) = ext_ok pkt" "ext_ok (pkt\<lparr>rp_data_len := n\<rparr>) = ext_ok pkt"
  "ext_ok (pkt\<lparr>rp_pad_len := v\<rparr>) = ext_ok pkt" "ext_ok (pkt\<lparr>rp_mid_extension_id := v\<rparr>) = ext_ok pkt"
  by (simp_all add: ext_ok_def ext_end_def split: option.split)

lemma nth_set_hdr [simp]:
  assumes "hdr_ok b" and "12 \<le> k" "k < length b"
  shows "set_hdr_padding v b ! k = b ! k" "set_hdr_payload_type v b ! k = b ! k"
    "set_hdr_marker v b ! k = b ! k" "set_hdr_sequence s b ! k = b ! k"
    "set_hdr_timestamp t b ! k = b ! k" "set_hdr_ssrc t b ! k = b ! k"
  using assms by (simp_all add: hdr_defs)

lemma rtp_ok_drop_padding:
  assumes "rtp_ok pkt"
  shows "rtp_ok (drop_padding pkt)"
proof (cases "HasPadding pkt")
  case True
  with assms have "ext_ok (pkt\<lparr>rp_buf := set_hdr_padding 0 (rp_buf pkt)\<rparr>)"
    by (intro ext_ok_frame) (auto simp: rtp_ok_def)
  with True assms show ?thesis by (auto simp: rtp_ok_def drop_padding_def SetPadding_def)
qed (use assms in \<open>simp add: drop_padding_def\<close>)

lemma rtx_header_padding:
  assumes "hdr_ok b"
  shows "set_hdr_padding v (rtx_header pt ssrc seq b) = rtx_header pt ssrc seq (set_hdr_padding v b)"
  using assms by (simp add: seq_pad.comm ssrc_pad.comm pt_pad.comm flip: seq_pad.comm ssrc_pad.comm pt_pad.comm)

lemma hdr_payload_type_put [simp]: "hdr_ok b \<Longrightarrow> hdr_payload_type (set_hdr_payload_type v b) = take_bit 7 v"
  by (simp add: hdr_defs)

definition unpad :: "rtp_packet \<Rightarrow> bytes" where
  \<comment> \<open>the packet's memory with the padding bit cleared if it was set\<close>
  "unpad pkt = (if HasPadding pkt then set_hdr_padding 0 (rp_buf pkt) else rp_buf pkt)"

lemma drop_padding_eq:
  "drop_padding pkt = pkt\<lparr>rp_buf := unpad pkt,
     rp_data_len := rp_data_len pkt - (if HasPadding pkt then unat (rp_pad_len pkt) else 0),
     rp_pad_len := (if HasPadding pkt then 0 else rp_pad_len pkt)\<rparr>"
  by (cases pkt) (simp add: drop_padding_def unpad_def SetPadding_def)

lemma unpad_facts:
  assumes "rtp_ok pkt"
  shows "hdr_ok (unpad pkt)" "length (unpad pkt) = length (rp_buf pkt)"
    "hdr_sequence (unpad pkt) = GetSeq pkt" "hdr_ssrc (unpad pkt) = GetSsrc pkt"
    "hdr_payload_type (unpad pkt) = GetPayloadType pkt" "hdr_padding (unpad pkt) = 0"
    "hdr_timestamp (unpad pkt) = GetTimestamp pkt" "hdr_marker (unpad pkt) = GetMarker pkt"
    "drop (rp_payload pkt) (unpad pkt) = drop (rp_payload pkt) (rp_buf pkt)"
proof -
  have "hdr_padding (rp_buf pkt) = 0" if "\<not> HasPadding pkt"
    using that get_bits_1_cases [of 5 "rp_buf pkt ! 0"] by (auto simp: HasPadding_def hdr_padding_def)
  with assms show "hdr_ok (unpad pkt)" "length (unpad pkt) = length (rp_buf pkt)"
    "hdr_sequence (unpad pkt) = GetSeq pkt" "hdr_ssrc (unpad pkt) = GetSsrc pkt"
    "hdr_payload_type (unpad pkt) = GetPayloadType pkt" "hdr_padding (unpad pkt) = 0"
    "hdr_timestamp (unpad pkt) = GetTimestamp pkt" "hdr_marker (unpad pkt) = GetMarker pkt"
    "drop (rp_payload pkt) (unpad pkt) = drop (rp_payload pkt) (rp_buf pkt)"
    by (auto simp: unpad_def rtp_ok_def GetSeq_def GetSsrc_def GetPayloadType_def GetTimestamp_def GetMarker_def)
qed

lemma RtxMux_result:
  assumes "rtp_ok pkt" and "has_room pkt"
  defines "q \<equiv> rp_payload pkt" and "n \<equiv> rp_payload_len pkt"
  shows "RtxMux pkt pt ssrc seq = Inr (pkt\<lparr>
    rp_buf := poke (poke (rtx_header pt ssrc seq (unpad pkt)) (q + 2) (GetPayload pkt)) q (be 2 (GetSeq pkt)),
    rp_payload_len := n + 2, rp_data_len := q + n + 2, rp_pad_len := 0\<rparr>)"
proof -
  from assms have h: "hdr_ok (rp_buf pkt)" "12 \<le> q" "q + n + 2 \<le> length (rp_buf pkt)"
    "length (GetPayload pkt) = n" "HasPadding pkt \<or> rp_pad_len pkt = 0"
    "q + n + unat (rp_pad_len pkt) = rp_data_len pkt"
    by (auto simp: rtp_ok_def GetPayload_def has_room_def)
  let ?b = "poke (poke (rtx_header pt ssrc seq (rp_buf pkt)) (q + 2) (GetPayload pkt)) q (be 2 (GetSeq pkt))"
  have "HasPadding (pkt\<lparr>rp_buf := ?b\<rparr>) = HasPadding pkt"
    using h by (simp add: HasPadding_def)
  then have "unpad (pkt\<lparr>rp_buf := ?b\<rparr>) =
      poke (poke (rtx_header pt ssrc seq (unpad pkt)) (q + 2) (GetPayload pkt)) q (be 2 (GetSeq pkt))"
    using h by (simp add: unpad_def set_hdr_poke rtx_header_padding)
  moreover have "unpad (pkt\<lparr>rp_buf := ?b, rp_payload_len := n + 2, rp_data_len := rp_data_len pkt + 2\<rparr>)
      = unpad (pkt\<lparr>rp_buf := ?b\<rparr>)"
    by (simp add: unpad_def HasPadding_def)
  ultimately show ?thesis
    using RtxMux_eq [OF assms(1), of pt ssrc seq] h \<open>HasPadding (pkt\<lparr>rp_buf := ?b\<rparr>) = HasPadding pkt\<close>
    unfolding q_def n_def by (auto simp: drop_padding_eq HasPadding_def)
qed

lemma rtp_ok_RtxMux:
  assumes "rtp_ok pkt" and "RtxMux pkt pt ssrc seq = Inr mux"
  shows "rtp_ok mux"
proof -
  note room = RtxMux_room [OF assms] and U = unpad_facts [OF assms(1)]
  define b where "b = poke (poke (rtx_header pt ssrc seq (unpad pkt)) (rp_payload pkt + 2) (GetPayload pkt))
      (rp_payload pkt) (be 2 (GetSeq pkt))"
  from assms(1) room have h: "12 \<le> rp_payload pkt" "length (GetPayload pkt) = rp_payload_len pkt"
    "rp_payload pkt + rp_payload_len pkt + 2 \<le> length (rp_buf pkt)"
    by (auto simp: rtp_ok_def GetPayload_def has_room_def)
  have same: "unpad pkt ! k = rp_buf pkt ! k" if "12 \<le> k" "k < length (rp_buf pkt)" for k
    using that assms(1) by (auto simp: unpad_def rtp_ok_def)
  have "ext_ok (pkt\<lparr>rp_buf := b\<rparr>)"
    using assms(1) h U same by (intro ext_ok_frame) (auto simp: rtp_ok_def nth_poke b_def)
  then have "ext_ok (pkt\<lparr>rp_buf := b, rp_payload_len := n, rp_data_len := m, rp_pad_len := 0\<rparr>)" for n m
    by (cases "rp_ext pkt") (simp_all add: ext_ok_def ext_end_def)
  moreover have "mux = pkt\<lparr>rp_buf := b, rp_payload_len := rp_payload_len pkt + 2,
      rp_data_len := rp_payload pkt + rp_payload_len pkt + 2, rp_pad_len := 0\<rparr>"
    using RtxMux_result [OF assms(1) room, of pt ssrc seq] assms(2) unfolding b_def by simp
  moreover have "hdr_ok b" "length b = length (rp_buf pkt)" using h U by (simp_all add: b_def)
  ultimately show ?thesis using h by (simp add: rtp_ok_def)
qed

lemma RtxMux_RtxDemux:
  assumes "rtp_ok pkt" and "has_room pkt"
  shows "\<exists>mux back. RtxMux pkt pt ssrc seq = Inr mux \<and> rtp_ok mux \<and>
    GetSeq mux = seq \<and> GetSsrc mux = ssrc \<and> GetPayloadType mux = take_bit 7 pt \<and>
    GetPayload mux = be 2 (GetSeq pkt) @ GetPayload pkt \<and>
    RtxDemux mux (GetSsrc pkt) (GetPayloadType pkt) = Inr back \<and>
    GetData back = GetData (drop_padding pkt) \<and>
    back = (drop_padding pkt)\<lparr>rp_buf := rp_buf back\<rparr> \<and> length (rp_buf back) = length (rp_buf pkt) \<and>
    rp_payload mux = rp_payload pkt \<and> rp_pad_len mux = 0 \<and>
    GetTimestamp mux = GetTimestamp pkt \<and> GetMarker mux = GetMarker pkt"
proof -
  define q n where "q = rp_payload pkt" and "n = rp_payload_len pkt"
  define M where "M = poke (poke (rtx_header pt ssrc seq (unpad pkt)) (q + 2) (GetPayload pkt)) q (be 2 (GetSeq pkt))"
  define mux where "mux = pkt\<lparr>rp_buf := M, rp_payload_len := n + 2, rp_data_len := q + n + 2, rp_pad_len := 0\<rparr>"
  note U = unpad_facts [OF assms(1)]
  from assms have h: "12 \<le> q" "q + n + 2 \<le> length (unpad pkt)" "length (GetPayload pkt) = n"
    by (auto simp: rtp_ok_def GetPayload_def has_room_def q_def n_def U)
  have mux: "RtxMux pkt pt ssrc seq = Inr mux"
    using RtxMux_result [OF assms] by (simp add: mux_def M_def q_def n_def)
  then have ok: "rtp_ok mux" by (rule rtp_ok_RtxMux [OF assms(1)])
  have pay: "GetPayload mux = be 2 (GetSeq pkt) @ GetPayload pkt"
    using moved_payload [of q n "rtx_header pt ssrc seq (unpad pkt)" "GetPayload pkt" "GetSeq pkt"] h U
    by (simp add: GetPayload_def mux_def M_def q_def)
  define B where "B = poke (poke (poke (unpad pkt) (q + 2) (GetPayload pkt)) q (be 2 (GetSeq pkt))) q (GetPayload pkt)"
  have "rtx_header (GetPayloadType pkt) (GetSsrc pkt) (GetSeq pkt) M =
      poke (poke (unpad pkt) (q + 2) (GetPayload pkt)) q (be 2 (GetSeq pkt))"
    using h U rtx_header_restore [OF U(1)] by (simp add: M_def set_hdr_poke)
  then have "RtxDemux mux (GetSsrc pkt) (GetPayloadType pkt) =
      Inr (drop_padding (mux\<lparr>rp_buf := B, rp_payload_len := n, rp_data_len := q + n\<rparr>))"
    using RtxDemux_eq [OF ok] by (simp add: pay B_def) (simp add: mux_def q_def)
  moreover have "hdr_padding B = 0" and B: "length B = length (rp_buf pkt)" using h U by (simp_all add: B_def)
  ultimately have demux: "RtxDemux mux (GetSsrc pkt) (GetPayloadType pkt) =
      Inr (mux\<lparr>rp_buf := B, rp_payload_len := n, rp_data_len := q + n\<rparr>)"
    by (simp add: drop_padding_def HasPadding_def)
  have "GetPayload pkt = take n (drop q (unpad pkt))"
    using U by (simp add: GetPayload_def q_def n_def)
  then have "take (q + n) B = take (q + n) (unpad pkt)"
    using move_back(2) [of q n "unpad pkt" "be 2 (GetSeq pkt)"] h by (simp add: B_def)
  moreover have dp: "drop_padding pkt = pkt\<lparr>rp_buf := unpad pkt, rp_data_len := q + n, rp_pad_len := 0\<rparr>"
    using assms(1) by (auto simp: drop_padding_eq rtp_ok_def q_def n_def)
  ultimately have "GetData (mux\<lparr>rp_buf := B, rp_payload_len := n, rp_data_len := q + n\<rparr>) = GetData (drop_padding pkt)"
    by (simp add: GetData_def)
  moreover have hd: "GetSeq mux = seq" "GetSsrc mux = ssrc" "GetPayloadType mux = take_bit 7 pt"
    "hdr_timestamp M = hdr_timestamp (unpad pkt)" "hdr_marker M = hdr_marker (unpad pkt)"
    using h U(1,2) by (simp_all add: mux_def M_def GetSeq_def GetSsrc_def GetPayloadType_def)
  moreover have "GetTimestamp mux = GetTimestamp pkt" "GetMarker mux = GetMarker pkt"
    using U(7,8) hd(4,5) by (simp_all add: mux_def GetTimestamp_def GetMarker_def)
  ultimately show ?thesis
    using mux ok pay demux B by (simp add: dp) (simp add: mux_def n_def)
qed

lemma hdr_prefix:
  "12 \<le> n \<Longrightarrow> hdr_sequence (take n b) = hdr_sequence b" "12 \<le> n \<Longrightarrow> hdr_ssrc (take n b) = hdr_ssrc b"
  "12 \<le> n \<Longrightarrow> hdr_timestamp (take n b) = hdr_timestamp b"
  "12 \<le> n \<Longrightarrow> hdr_payload_type (take n b) = hdr_payload_type b" "12 \<le> n \<Longrightarrow> hdr_marker (take n b) = hdr_marker b"
  "12 \<le> n \<Longrightarrow> hdr_padding (take n b) = hdr_padding b"
  by (simp_all add: hdr_defs drop_take min_def)

lemma rtp_ok_same_data:
  assumes "rtp_ok p" and "length b = length (rp_buf p)" and "take (rp_data_len p) b = GetData p"
  shows "rtp_ok (p\<lparr>rp_buf := b\<rparr>)"
proof -
  have same: "b ! k = rp_buf p ! k" if "k < rp_data_len p" for k
    using assms(3) that by (metis GetData_def nth_take)
  have len: "rp_payload p \<le> rp_data_len p" "rp_data_len p \<le> length (rp_buf p)" "12 \<le> rp_payload p"
    using assms(1) by (simp_all add: rtp_ok_def)
  have "ext_ok (p\<lparr>rp_buf := b\<rparr>)"
    using assms(1,2) len same by (intro ext_ok_frame) (auto simp: rtp_ok_def)
  moreover have "HasPadding (p\<lparr>rp_buf := b\<rparr>) = HasPadding p"
    using same [of 0] len by (simp add: HasPadding_def hdr_padding_def)
  ultimately show ?thesis using assms(1,2) by (simp add: rtp_ok_def hdr_ok_def)
qed

text \<open>What a receiver sees of a packet, apart from its padding.\<close>

definition rtp_view :: "rtp_packet \<Rightarrow> u16 \<times> u32 \<times> u32 \<times> u8 \<times> u8 \<times> bytes" where
  "rtp_view p = (GetSeq p, GetTimestamp p, GetSsrc p, GetPayloadType p, GetMarker p, GetPayload p)"

lemma rtp_view_same_data:
  assumes "rtp_ok p" and "take (rp_data_len p) b = GetData p"
  shows "rtp_view (p\<lparr>rp_buf := b\<rparr>) = rtp_view p"
proof -
  have len: "rp_payload p + rp_payload_len p \<le> rp_data_len p" "12 \<le> rp_data_len p"
    using assms(1) by (simp_all add: rtp_ok_def)
  have "take (rp_payload_len p) (drop (rp_payload p) (take (rp_data_len p) x)) =
      take (rp_payload_len p) (drop (rp_payload p) x)" for x :: bytes
    using len(1) by (simp add: drop_take min_def)
  from this [of b] this [of "rp_buf p"] show ?thesis
    using assms(2) hdr_prefix [OF len(2), of b] hdr_prefix [OF len(2), of "rp_buf p"]
    by (simp add: rtp_view_def GetSeq_def GetTimestamp_def GetSsrc_def GetPayloadType_def GetMarker_def
        GetPayload_def GetData_def)
qed

lemma rtp_view_drop_padding: "rtp_ok p \<Longrightarrow> rtp_view (drop_padding p) = rtp_view p"
  by (auto simp: rtp_view_def drop_padding_def SetPadding_def rtp_ok_def GetSeq_def GetTimestamp_def GetSsrc_def
      GetPayloadType_def GetMarker_def GetPayload_def)

lemma GetData_drop_padding:
  assumes "rtp_ok p"
  shows "GetData (drop_padding p) = GetData p \<longleftrightarrow> \<not> HasPadding p"
proof -
  have "hdr_padding (GetData p) = hdr_padding (rp_buf p)" "hdr_padding (GetData (drop_padding p)) = hdr_padding (unpad p)"
    using assms by (auto simp: GetData_def hdr_prefix rtp_ok_def drop_padding_eq intro!: hdr_prefix)
  then show ?thesis using unpad_facts(6) [OF assms] by (auto simp: HasPadding_def drop_padding_def)
qed

text \<open>One retransmission as its users need it: what goes out, and that the cached packet survives.\<close>

lemma retransmit_packet:
  assumes "rtp_ok p" and "has_room p"
  obtains mux p' where "RtxMux p pt ssrc seq = Inr mux" "rtp_ok mux" "GetSeq mux = seq" "GetSsrc mux = ssrc"
    "GetPayloadType mux = take_bit 7 pt" "GetPayload mux = be 2 (GetSeq p) @ GetPayload p"
    "RtxDemux mux (GetSsrc p) (GetPayloadType p) = Inr p'" "rtp_ok p'" "rtp_view p' = rtp_view p"
    "rp_data_len p' \<le> rp_data_len p" "length (rp_buf p') = length (rp_buf p)"
    "rp_payload mux = rp_payload p" "rp_pad_len mux = 0"
    "GetTimestamp mux = GetTimestamp p" "GetMarker mux = GetMarker p"
proof -
  from RtxMux_RtxDemux [OF assms, of pt ssrc seq] obtain mux p' where
    m: "RtxMux p pt ssrc seq = Inr mux" "rtp_ok mux" "GetSeq mux = seq" "GetSsrc mux = ssrc"
      "GetPayloadType mux = take_bit 7 pt" "GetPayload mux = be 2 (GetSeq p) @ GetPayload p"
    and x: "rp_payload mux = rp_payload p" "rp_pad_len mux = 0"
      "GetTimestamp mux = GetTimestamp p" "GetMarker mux = GetMarker p"
    and d: "RtxDemux mux (GetSsrc p) (GetPayloadType p) = Inr p'" "GetData p' = GetData (drop_padding p)"
      "p' = (drop_padding p)\<lparr>rp_buf := rp_buf p'\<rparr>" "length (rp_buf p') = length (rp_buf p)"
    by blast
  have ok: "rtp_ok (drop_padding p)" by (rule rtp_ok_drop_padding [OF assms(1)])
  have "rp_data_len p' = rp_data_len (drop_padding p)" by (subst d(3)) simp
  then have t: "take (rp_data_len (drop_padding p)) (rp_buf p') = GetData (drop_padding p)"
    using d(2) by (simp add: GetData_def)
  have "length (rp_buf (drop_padding p)) = length (rp_buf p)"
    using assms(1) by (simp add: drop_padding_eq unpad_facts)
  with d(4) have "rtp_ok p'" by (subst d(3)) (rule rtp_ok_same_data [OF ok _ t], simp)
  moreover have "rtp_view p' = rtp_view p"
    by (subst d(3)) (simp add: rtp_view_same_data [OF ok t] rtp_view_drop_padding [OF assms(1)])
  moreover have "rp_data_len p' \<le> rp_data_len p" by (subst d(3)) (simp add: drop_padding_eq)
  ultimately show ?thesis using m d x by (intro that)
qed

text \<open>
  C19. The RFC 4588 round trip behind a retransmission, on a well-formed packet. If the block the packet lies in
  has two more bytes behind the payload, \<open>RtxMux\<close> produces a packet with the retransmission payload type, ssrc
  and sequence number whose payload is the original sequence number followed by the original payload, and
  \<open>RtxDemux\<close> with the saved ssrc and payload type then restores the packet without its padding: \<open>RtxMux\<close>
  strips padding and the padding bit, which never come back, so the whole datagram is restored exactly when
  the packet had no padding; header fields and payload are those of the original in any case.
  If the two bytes are not there, \<open>RtxMux\<close> writes past the end of the block: it does not check.
\<close>

theorem rtx_roundtrip:
  assumes "rtp_ok pkt"
  shows "if has_room pkt then \<exists>mux back. RtxMux pkt pt ssrc seq = Inr mux \<and> rtp_ok mux \<and>
      GetSeq mux = seq \<and> GetSsrc mux = ssrc \<and> GetPayloadType mux = take_bit 7 pt \<and>
      GetPayload mux = be 2 (GetSeq pkt) @ GetPayload pkt \<and>
      RtxDemux mux (GetSsrc pkt) (GetPayloadType pkt) = Inr back \<and>
      GetData back = GetData (drop_padding pkt) \<and> back = (drop_padding pkt)\<lparr>rp_buf := rp_buf back\<rparr> \<and>
      rtp_view back = rtp_view pkt \<and> (GetData back = GetData pkt \<longleftrightarrow> \<not> HasPadding pkt)
    else RtxMux pkt pt ssrc seq = Inl OutOfBounds"
proof (cases "has_room pkt")
  case True
  from RtxMux_RtxDemux [OF assms True, of pt ssrc seq] obtain mux p' where
    m: "RtxMux pkt pt ssrc seq = Inr mux" "rtp_ok mux" "GetSeq mux = seq" "GetSsrc mux = ssrc"
      "GetPayloadType mux = take_bit 7 pt" "GetPayload mux = be 2 (GetSeq pkt) @ GetPayload pkt"
    and d: "RtxDemux mux (GetSsrc pkt) (GetPayloadType pkt) = Inr p'" "GetData p' = GetData (drop_padding pkt)"
      "p' = (drop_padding pkt)\<lparr>rp_buf := rp_buf p'\<rparr>" by blast
  have "rtp_view p' = rtp_view pkt" using retransmit_packet [OF assms True, of pt ssrc seq] m(1) d(1) by (metis sum.inject(2))
  moreover note GetData_drop_padding [OF assms]
  ultimately show ?thesis using True m d by auto
qed (use assms RtxMux_overrun in simp)

theorem rtx_roundtrip_witness:
  "\<exists>pkt mux back. Parse 7 ([0x80, 96, 0, 1, 0, 0, 0, 2, 0, 0, 0, 3, 0xAA, 0xBB] @ replicate 4 0) 14 = Inr pkt \<and>
     RtxMux pkt 97 9 500 = Inr mux \<and> GetPayload mux = [0, 1, 0xAA, 0xBB] \<and>
     RtxDemux mux 3 96 = Inr back \<and> GetData back = GetData pkt"
proof -
  let ?d = "[0x80, 96, 0, 1, 0, 0, 0, 2, 0, 0, 0, 3, 0xAA, 0xBB] @ replicate 4 0 :: bytes"
  let ?P = "Parse 7 ?d 14"
  have v: "case_sum (\<lambda>_. False) (\<lambda>p. GetSeq p = 1 \<and> GetSsrc p = 3 \<and> GetPayloadType p = 96 \<and>
      GetPayload p = [0xAA, 0xBB] \<and> \<not> HasPadding p) ?P"
    by code_simp
  then obtain pkt where p: "?P = Inr pkt" by (auto split: sum.splits)
  from Parse_Inr [OF p] have ok: "rtp_ok pkt" "rp_data_len pkt + 2 \<le> length (rp_buf pkt)" by auto
  have "be 2 (1 :: u16) = [0, 1]" by code_simp
  with rtx_roundtrip [OF ok(1), of 97 9 500] has_roomI [OF ok] v p show ?thesis by auto
qed

section \<open>Cloning\<close>

text \<open>Parsing looks only at the announced bytes.\<close>

lemma rd8_cong:
  assumes "take e b = take e b'" and "e \<le> length b" and "e \<le> length b'" and "p < e"
  shows "rd8 b p = rd8 b' p"
proof -
  have "b ! p = b' ! p" using assms(1,4) by (metis nth_take)
  then show ?thesis using assms(2-4) by (simp add: rd8_def)
qed

lemma skip_zeros_cong:
  assumes "take e b = take e b'" and "e \<le> length b" and "e \<le> length b'"
  shows "skip_zeros b e p = skip_zeros b' e p"
  using assms
proof (induction b e p rule: skip_zeros.induct)
  case (1 b e p)
  then show ?case
    using rd8_cong [OF "1.prems", of p]
    by (subst skip_zeros.simps, subst (2) skip_zeros.simps) (auto intro!: rbind_cong)
qed

lemma onebyte_loop_cong:
  assumes "take e b = take e b'" and "e \<le> length b" and "e \<le> length b'"
  shows "onebyte_loop b e p m = onebyte_loop b' e p m"
  using assms
proof (induction b e p m rule: onebyte_loop.induct)
  case (1 b e p m)
  show ?case
  proof (cases "p < e")
    case True
    let ?x = "b ! p"
    let ?i = "drop_bit 4 (?x AND 0xF0)" and ?n = "unat (?x AND 0x0F) + 1"
    have x: "rd8 b p = Inr ?x" "rd8 b' p = Inr ?x"
      using rd8_cong [OF "1.prems" True] "1.prems"(2) True by simp_all
    have sk: "skip_zeros b e q = skip_zeros b' e q" for q by (rule skip_zeros_cong [OF "1.prems"])
    have a: "onebyte_loop b e q (om_insert ?i p m) = onebyte_loop b' e q (om_insert ?i p m)"
      if "?i \<noteq> 0x0f" "?i \<noteq> 0" "\<not> p + 1 + ?n > e" "skip_zeros b' e (p + 1 + ?n) = Inr q" for q
      using "1.IH"(1) [OF True x(1) refl refl that(1-3) _ "1.prems"] that(4) sk by simp
    have c: "onebyte_loop b e q m = onebyte_loop b' e q m"
      if "?i = 0" "skip_zeros b' e (p + 1) = Inr q" for q
      using "1.IH"(2) [OF True x(1) refl refl _ _ _ "1.prems"] that sk by simp
    show ?thesis
      unfolding onebyte_loop.simps [of b e p m] onebyte_loop.simps [of b' e p m] x sk Let_def rbind_simps
      using a c by (auto intro!: rbind_cong)
  qed (simp add: onebyte_loop.simps)
qed

lemma twobytes_loop_cong:
  assumes "take e b = take e b'" and "e \<le> length b" and "e \<le> length b'"
  shows "twobytes_loop b e p m = twobytes_loop b' e p m"
  using assms
proof (induction b e p m rule: twobytes_loop.induct)
  case (1 b e p m)
  show ?case
  proof (cases "p + 1 < e")
    case True
    let ?i = "b ! p" and ?n = "b ! (p + 1)"
    have x: "rd8 b p = Inr ?i" "rd8 b' p = Inr ?i" "rd8 b (p + 1) = Inr ?n" "rd8 b' (p + 1) = Inr ?n"
      using rd8_cong [OF "1.prems", of p] rd8_cong [OF "1.prems", of "p + 1"] "1.prems"(2) True by simp_all
    have sk: "skip_zeros b e q = skip_zeros b' e q" for q by (rule skip_zeros_cong [OF "1.prems"])
    have a: "twobytes_loop b e q (om_insert ?i p m) = twobytes_loop b' e q (om_insert ?i p m)"
      if "?i \<noteq> 0" "\<not> p + 2 + unat ?n > e" "skip_zeros b' e (p + 2 + unat ?n) = Inr q" for q
      using "1.IH"(1) [OF True x(1,3) that(1,2) _ "1.prems"] that(3) sk by simp
    have c: "twobytes_loop b e q m = twobytes_loop b' e q m"
      if "?i = 0" "skip_zeros b' e (p + 1) = Inr q" for q
      using "1.IH"(2) [OF True x(1,3) _ _ "1.prems"] that sk by simp
    show ?thesis
      unfolding twobytes_loop.simps [of b e p m] twobytes_loop.simps [of b' e p m] x sk rbind_simps
      using a c by (auto intro!: rbind_cong)
  qed (simp add: twobytes_loop.simps)
qed

lemma take_eq_mono: "take n b = take n b' \<Longrightarrow> m \<le> n \<Longrightarrow> take m b = take m (b' :: bytes)"
  by (metis min.absorb1 take_take)

lemma take_drop_cong: "take n b = take n b' \<Longrightarrow> i + k \<le> n \<Longrightarrow> take k (drop i b) = take k (drop i (b' :: bytes))"
  by (metis add.commute take_drop take_eq_mono)

lemma ParseExt_cong:
  assumes "take n (rp_buf p) = take n b'" and "n \<le> length (rp_buf p)" and "n \<le> length b'" and "0 < n"
    and "rp_ext p = None \<or> ext_end p \<le> n"
  shows "ParseExt (p\<lparr>rp_buf := b'\<rparr>) = (case ParseExt p of Inl e \<Rightarrow> Inl e | Inr q \<Rightarrow> Inr (q\<lparr>rp_buf := b'\<rparr>))"
proof (cases "rp_ext p")
  case None
  have "rp_buf p ! 0 = b' ! 0" using assms(1,4) by (metis nth_take)
  then show ?thesis by (simp add: ParseExt_def None hdr_extension_def)
next
  case (Some e)
  let ?b = "rp_buf p"
  have "e + 4 \<le> n" using assms(5) Some by (simp add: ext_end_def)
  then have h: "take 2 (drop e ?b) = take 2 (drop e b')" "take 2 (drop (e + 2) ?b) = take 2 (drop (e + 2) b')"
    by (intro take_drop_cong [OF assms(1)]; simp)+
  then have g: "GetExtId b' (Some e) = GetExtId ?b (Some e)" "GetExtLength b' (Some e) = GetExtLength ?b (Some e)"
    by (simp_all add: GetExtId_def GetExtLength_def)
  let ?stop = "e + 4 + unat (GetExtLength ?b (Some e))"
  have t: "take ?stop ?b = take ?stop b'" "?stop \<le> length ?b" "?stop \<le> length b'"
    using assms(2,3,5) Some take_eq_mono [OF assms(1), of ?stop] by (simp_all add: ext_end_def)
  have "?b ! 0 = b' ! 0" using assms(1,4) by (metis nth_take)
  then show ?thesis
    using onebyte_loop_cong [OF t] twobytes_loop_cong [OF t]
    by (auto simp: ParseExt_def Some hdr_extension_def HasOnebyteExt_def HasTwobytesExt_def g
        ParseOnebyteExt_def ParseTwobytesExt_def Let_def rbind_def split: sum.split)
qed

lemma Parse_cong:
  assumes "take len data = take len data'" and "len \<le> length data" and "len \<le> length data'" and "0 < len"
    and "Parse now_ms data len = Inr p"
  shows "Parse now_ms' data' len = Inr (p\<lparr>rp_buf := data', rp_local_ms := now_ms'\<rparr>)"
proof -
  let ?b0 = "data ! 0"
  let ?q = "12 + 4 * unat (get_bits 0 4 ?b0)"
  have "rd8 data 0 = Inr ?b0" by (rule access_ok(1)) (use assms(2,4) in linarith)
  with rd8_cong [OF assms(1-4)] have z: "rd8 data 0 = Inr ?b0" "rd8 data' 0 = Inr ?b0" by simp_all
  obtain ext q pad k where e: "parse_ext_header data len ?b0 ?q = Inr (ext, q)" "len \<le> RTP_PACKET_MAX_SIZE" "q < len"
    and pd: "parse_padding data len ?b0 (len - q) = Inr (pad, k)"
    and n: "RtpPacket_new now_ms data ext q k pad len = Inr p"
    using assms(5) z by (auto simp: Parse_def split: if_splits)
  have "Read2Bytes data' i = Read2Bytes data i" if "i + 2 \<le> len" for i
    using that assms(2,3) take_drop_cong [OF assms(1), of i 2] by (simp add: Read_be)
  then have e': "parse_ext_header data' len ?b0 ?q = Inr (ext, q)"
    using e(1) by (auto simp: parse_ext_header_def split: if_splits)
  have "rd8 data (len - 1) = rd8 data' (len - 1)" by (rule rd8_cong [OF assms(1-3)]) (use assms(4) in simp)
  then have "parse_padding data' len ?b0 (len - q) = parse_padding data len ?b0 (len - q)"
    by (simp only: parse_padding_def)
  with pd have pd': "parse_padding data' len ?b0 (len - q) = Inr (pad, k)" by simp
  let ?r = "\<lambda>b t. \<lparr>rp_buf = b, rp_ext = ext, rp_payload = q, rp_payload_len = k,
         rp_pad_len = pad, rp_data_len = len, rp_local_ms = t, rp_need_delete = False,
         rp_mid_extension_id = 0, rp_abs_time_extension_id = 0, rp_tcc_extension_id = 0,
         rp_onebyte_ext_map = [], rp_twobytes_ext_map = []\<rparr>"
  have r: "ParseExt (?r data now_ms) = Inr p" using n by (simp add: RtpPacket_new_def split: if_splits)
  have x: "ext = None \<or> ext_end (?r data now_ms) \<le> len"
    using parse_ext_header_Inr [OF e(1) assms(2)] e(2) by (auto simp: ext_end_def RTP_PACKET_MAX_SIZE_def)
  have loc: "ParseExt (r\<lparr>rp_local_ms := t\<rparr>) = (case ParseExt r of Inl e \<Rightarrow> Inl e | Inr q \<Rightarrow> Inr (q\<lparr>rp_local_ms := t\<rparr>))" for r t
    by (auto simp: ParseExt_def rbind_def split: option.split sum.split)
  have "ParseExt (?r data' now_ms) = Inr (p\<lparr>rp_buf := data'\<rparr>)"
    using ParseExt_cong [of len "?r data now_ms" data'] assms(1-4) x r by simp
  then have "ParseExt (?r data' now_ms') = Inr (p\<lparr>rp_buf := data', rp_local_ms := now_ms'\<rparr>)"
    using loc [of now_ms' "?r data' now_ms"] by simp
  then show ?thesis using z e e' pd' by (simp add: Parse_def RtpPacket_new_def)
qed

lemma rtp_ok_ids [simp]:
  "rtp_ok (pkt\<lparr>rp_mid_extension_id := v\<rparr>) = rtp_ok pkt" "rtp_ok (pkt\<lparr>rp_abs_time_extension_id := v\<rparr>) = rtp_ok pkt"
  "rtp_ok (pkt\<lparr>rp_tcc_extension_id := v\<rparr>) = rtp_ok pkt" "rtp_ok (pkt\<lparr>rp_local_ms := t\<rparr>) = rtp_ok pkt"
  "rtp_ok (pkt\<lparr>rp_need_delete := d\<rparr>) = rtp_ok pkt"
  by (simp_all add: rtp_ok_def HasPadding_def ext_ok_def ext_end_def split: option.splits)

lemma GetExtension_ids [simp]:
  "GetExtension (pkt\<lparr>rp_abs_time_extension_id := v\<rparr>) i = GetExtension pkt i"
  "GetExtension (pkt\<lparr>rp_tcc_extension_id := v\<rparr>) i = GetExtension pkt i"
  by (simp_all add: GetExtension_def split: option.split)

lemma Clone_Inr:
  assumes "Clone now_ms mem own pkt = Inr c" and "rp_data_len pkt \<le> length (rp_buf pkt)"
  shows "rtp_ok c" "GetData c = GetData pkt" "rp_buf c = poke mem 0 (GetData pkt)" "length (rp_buf c) = length mem"
    "rp_data_len c = rp_data_len pkt" "rp_data_len pkt < 1500" "rp_local_ms c = rp_local_ms pkt"
proof -
  let ?n = "rp_data_len pkt" and ?d = "GetData pkt"
  obtain p where p: "Parse now_ms (poke mem 0 ?d) ?n = Inr p" "?n < 1500" "?n \<le> length mem"
    and c: "c = p\<lparr>rp_need_delete := own, rp_local_ms := rp_local_ms pkt,
      rp_mid_extension_id := rp_mid_extension_id pkt, rp_abs_time_extension_id := rp_abs_time_extension_id pkt,
      rp_tcc_extension_id := rp_tcc_extension_id pkt\<rparr>"
    using assms by (auto simp: Clone_def GetData_def RTP_PACKET_MAX_SIZE_def split: if_splits)
  have len: "length ?d = ?n" using assms(2) by (simp add: GetData_def)
  with p(3) have lb: "length (poke mem 0 ?d) = length mem" by simp
  have P: "rtp_ok p" "rp_buf p = poke mem 0 ?d" "rp_data_len p = ?n" using Parse_Inr [OF p(1)] lb p(3) by auto
  show "rtp_ok c" using P(1) by (simp add: c)
  show "GetData c = GetData pkt" using P(2,3) len by (simp add: c GetData_def [of "_\<lparr>rp_tcc_extension_id := _\<rparr>"] poke_def)
  show "rp_buf c = poke mem 0 (GetData pkt)" "length (rp_buf c) = length mem" "rp_data_len c = ?n" "?n < 1500"
    "rp_local_ms c = rp_local_ms pkt"
    using P lb p(2) by (simp_all add: c)
qed

text \<open>
  Cloning a received packet shorter than 1500 bytes into a buffer that can hold it always succeeds and
  copies every byte; the clone has the same payload, padding, extension elements and arrival time as the
  original and differs only in where its bytes live and in owning them.
\<close>

theorem Clone_faithful:
  assumes "Parse now_ms data len = Inr pkt" and "0 < len" and "len \<le> length data" and "len < 1500"
    and "len \<le> length mem"
  shows "Clone now_ms' mem own pkt = Inr (pkt\<lparr>rp_buf := poke mem 0 (take len data), rp_need_delete := own\<rparr>)"
proof -
  note P = Parse_Inr [OF assms(1,3)]
  have t: "take len data = take len (poke mem 0 (take len data))" using assms(3) by (simp add: poke_def)
  have "Parse now_ms' (poke mem 0 (take len data)) len =
      Inr (pkt\<lparr>rp_buf := poke mem 0 (take len data), rp_local_ms := now_ms'\<rparr>)"
    by (rule Parse_cong [OF t assms(3) _ assms(2,1)]) (use assms(3,5) in simp)
  then show ?thesis
    using P assms(3-5) by (simp add: Clone_def RTP_PACKET_MAX_SIZE_def)
qed

theorem Clone_faithful_witness:
  "\<exists>pkt c. Parse 7 [0x80, 96, 0, 1, 0, 0, 0, 2, 0, 0, 0, 3, 0xAA] 13 = Inr pkt \<and>
     Clone 9 (replicate 1500 0) True pkt = Inr c \<and> GetSeq pkt = 1 \<and> rp_need_delete c"
proof -
  let ?d = "[0x80, 96, 0, 1, 0, 0, 0, 2, 0, 0, 0, 3, 0xAA] :: bytes"
  have v: "case_sum (\<lambda>_. False) (\<lambda>p. GetSeq p = 1) (Parse 7 ?d 13)" by code_simp
  then obtain pkt where p: "Parse 7 ?d 13 = Inr pkt" "GetSeq pkt = 1" by (auto split: sum.splits)
  have "Clone 9 (replicate 1500 0) True pkt = Inr (pkt\<lparr>rp_buf := poke (replicate 1500 0) 0 (take 13 ?d), rp_need_delete := True\<rparr>)"
    by (rule Clone_faithful [OF p(1)]) simp_all
  with p show ?thesis by fastforce
qed

section \<open>Rewriting extension values\<close>

lemma poke_same_byte: "i < length b \<Longrightarrow> poke b i [b ! i] = (b :: bytes)"
  using poke_self [of i 1 b] by (simp add: take_Suc hd_drop_conv_nth)

lemma onebyte_len_ne0: "get_bits 0 4 (x :: u8) + 1 \<noteq> 0" "unat (get_bits 0 4 x + 1) = unat (get_bits 0 4 x) + 1"
proof -
  have "unat (get_bits 0 4 x) < 2 ^ 4"
    unfolding get_bits_def unsigned_take_bit_eq by (rule take_bit_nat_less_exp)
  then show e: "unat (get_bits 0 4 x + 1) = unat (get_bits 0 4 x) + 1"
    using unat_word_ariths(1) [of "get_bits 0 4 x" 1] by simp
  then show "get_bits 0 4 x + 1 \<noteq> 0" by (metis Suc_eq_plus1 nat.distinct(1) unat_0)
qed

text \<open>Where a value lies, for both profiles: its element starts at \<open>p\<close>.\<close>

lemma GetExtension_cases:
  assumes "rtp_ok pkt" and "GetExtension pkt i = Inr (Some (v, n))"
  obtains e p where "rp_ext pkt = Some e" "HasOnebyteExt (rp_buf pkt) (Some e)" "om_find (rp_onebyte_ext_map pkt) i = Some p"
      "v = p + 1" "n = get_bits 0 4 (rp_buf pkt ! p) + 1" "12 \<le> e" "e + 4 \<le> p" "v + unat n \<le> rp_payload pkt" "n \<noteq> 0"
  | e p where "rp_ext pkt = Some e" "\<not> HasOnebyteExt (rp_buf pkt) (Some e)" "HasTwobytesExt (rp_buf pkt) (Some e)"
      "om_find (rp_twobytes_ext_map pkt) i = Some p"
      "v = p + 2" "n = rp_buf pkt ! (p + 1)" "12 \<le> e" "e + 4 \<le> p" "v + unat n \<le> rp_payload pkt" "n \<noteq> 0"
proof -
  from assms(2) obtain e where e: "rp_ext pkt = Some e"
    by (cases "rp_ext pkt") (auto simp: GetExtension_def HasOnebyteExt_def HasTwobytesExt_def GetExtId_def)
  have x: "om_ok (rp_onebyte_ext_map pkt)" "om_ok (rp_twobytes_ext_map pkt)" "12 \<le> e" "ext_end pkt \<le> rp_payload pkt"
    "\<And>k p. om_find (rp_onebyte_ext_map pkt) k = Some p \<Longrightarrow> elem_ok1 (rp_buf pkt) (e + 4) (ext_end pkt) p"
    "\<And>k p. om_find (rp_twobytes_ext_map pkt) k = Some p \<Longrightarrow> elem_ok2 (rp_buf pkt) (e + 4) (ext_end pkt) p"
    using assms(1) e by (auto simp: rtp_ok_def ext_ok_def om_find_Some)
  show thesis
  proof (cases "HasOnebyteExt (rp_buf pkt) (Some e)")
    case True
    with assms(2) e obtain p where p: "om_find (rp_onebyte_ext_map pkt) i = Some p"
      "v = p + 1" "n = get_bits 0 4 (rp_buf pkt ! p) + 1"
      by (auto simp: GetExtension_def split: option.splits)
    with x(3,4) x(5) [OF p(1)] e True show thesis
      by (intro that(1)) (auto simp: elem_ok1_def onebyte_len_ne0)
  next
    case False
    with assms(2) e have two: "HasTwobytesExt (rp_buf pkt) (Some e)" by (auto simp: GetExtension_def split: if_splits)
    with False assms(2) e obtain p where p: "om_find (rp_twobytes_ext_map pkt) i = Some p"
      "v = p + 2" "n = rp_buf pkt ! (p + 1)" "n \<noteq> 0"
      by (auto simp: GetExtension_def split: option.splits if_splits)
    with x(3,4) x(6) [OF p(1)] e False two show thesis
      by (intro that(2)) (auto simp: elem_ok2_def)
  qed
qed

lemma ext_header_poke:
  assumes "e + 4 \<le> i" and "i + length w \<le> length b"
  shows "GetExtId (poke b i w) (Some e) = GetExtId b (Some e)" "GetExtLength (poke b i w) (Some e) = GetExtLength b (Some e)"
    "HasOnebyteExt (poke b i w) (Some e) = HasOnebyteExt b (Some e)"
    "HasTwobytesExt (poke b i w) (Some e) = HasTwobytesExt b (Some e)"
  using assms by (simp_all add: HasOnebyteExt_def HasTwobytesExt_def GetExtId_def GetExtLength_def take_drop_poke_other)

lemma GetExtension_poke:
  assumes "rtp_ok pkt" and "GetExtension pkt i = Inr (Some (v, n))" and "length w = unat n"
  shows "GetExtension (pkt\<lparr>rp_buf := poke (rp_buf pkt) v w\<rparr>) i = Inr (Some (v, n))"
    "12 \<le> v" "v + unat n \<le> rp_payload pkt" "v + unat n \<le> length (rp_buf pkt)"
proof -
  have len: "rp_payload pkt \<le> length (rp_buf pkt)" using assms(1) by (simp add: rtp_ok_def)
  from assms(1,2) show "GetExtension (pkt\<lparr>rp_buf := poke (rp_buf pkt) v w\<rparr>) i = Inr (Some (v, n))"
  proof (cases rule: GetExtension_cases)
    case (1 e p)
    then show ?thesis using len assms(3) by (simp add: GetExtension_def ext_header_poke)
  next
    case (2 e p)
    then show ?thesis using len assms(3) by (simp add: GetExtension_def ext_header_poke)
  qed
  from assms(1,2) show "12 \<le> v" "v + unat n \<le> rp_payload pkt" by (cases rule: GetExtension_cases; simp)+
  then show "v + unat n \<le> length (rp_buf pkt)" using len by simp
qed

lemma UpdateExtensionLength_poke:
  assumes "rtp_ok pkt" and "GetExtension pkt i = Inr (Some (v, n))" and "length w = unat n"
  shows "UpdateExtensionLength (pkt\<lparr>rp_buf := poke (rp_buf pkt) v w\<rparr>) i n =
    Inr (True, pkt\<lparr>rp_buf := poke (rp_buf pkt) v w\<rparr>)"
proof -
  have len: "rp_payload pkt \<le> length (rp_buf pkt)" using assms(1) by (simp add: rtp_ok_def)
  let ?b = "poke (rp_buf pkt) v w"
  have lb: "length ?b = length (rp_buf pkt)" using GetExtension_poke(4) [OF assms] assms(3) by simp
  from assms(1,2) show ?thesis
  proof (cases rule: GetExtension_cases)
    case (1 e p)
    then have "p < length ?b" "?b ! p = rp_buf pkt ! p" using len assms(3) by simp_all
    then show ?thesis
      using 1 len assms(3) poke_same_byte [of p ?b]
      by (simp add: UpdateExtensionLength_def Let_def ext_header_poke)
  next
    case (2 e p)
    then have "p + 1 < length ?b" "?b ! (p + 1) = rp_buf pkt ! (p + 1)" using len assms(3) by simp_all
    then show ?thesis
      using 2 len assms(3) poke_same_byte [of "p + 1" ?b]
      by (simp add: UpdateExtensionLength_def ext_header_poke)
  qed
qed

lemma value_write_frame:
  assumes "rtp_ok pkt" and "GetExtension pkt i = Inr (Some (v, n))" and "length w = unat n"
  shows "rtp_view (pkt\<lparr>rp_buf := poke (rp_buf pkt) v w\<rparr>) = rtp_view pkt"
    "take (unat n) (drop v (poke (rp_buf pkt) v w)) = w"
  using GetExtension_poke [OF assms] assms(3) take_drop_poke_same [of v w "rp_buf pkt"]
  by (simp_all add: rtp_view_def GetSeq_def GetTimestamp_def GetSsrc_def GetPayloadType_def GetMarker_def GetPayload_def)

text \<open>
  Rewriting the transport-wide sequence number: when the packet has the extension element with its regular
  two byte value, the update succeeds, changes exactly the bytes of the value, is what the reader returns
  afterwards, and leaves sequence number, time stamp, ssrc, payload type, marker and payload untouched.
\<close>

theorem UpdateWideSeq_correct:
  assumes "rtp_ok pkt" and "GetExtension pkt (rp_tcc_extension_id pkt) = Inr (Some (v, 2))"
    and "pkt' = pkt\<lparr>rp_buf := poke (rp_buf pkt) v (be 2 wide_seq)\<rparr>"
  shows "UpdateWideSeq pkt wide_seq = Inr (True, pkt') \<and> ReadWideSeq pkt' = Inr (Some wide_seq) \<and>
    rtp_view pkt' = rtp_view pkt"
proof -
  have w: "length (be 2 wide_seq) = unat (2 :: u8)" by simp
  note g = GetExtension_poke [OF assms(1,2) w] and u = UpdateExtensionLength_poke [OF assms(1,2) w]
    and f = value_write_frame [OF assms(1,2) w]
  show ?thesis
    using assms(2,3) g u f by (simp add: UpdateWideSeq_def ReadWideSeq_def Write_be Read_be)
qed

theorem UpdateWideSeq_correct_witness:
  "\<exists>pkt pkt'. Parse 7 [0x90, 96, 0, 1, 0, 0, 0, 2, 0, 0, 0, 3, 0xBE, 0xDE, 0, 1, 0x31, 7, 8, 0, 0xAA] 21 = Inr pkt \<and>
     UpdateWideSeq (pkt\<lparr>rp_tcc_extension_id := 3\<rparr>) 777 = Inr (True, pkt') \<and> ReadWideSeq pkt' = Inr (Some 777)"
proof -
  let ?d = "[0x90, 96, 0, 1, 0, 0, 0, 2, 0, 0, 0, 3, 0xBE, 0xDE, 0, 1, 0x31, 7, 8, 0, 0xAA] :: bytes"
  have v: "case_sum (\<lambda>_. False) (\<lambda>p. GetExtension p 3 = Inr (Some (17, 2))) (Parse 7 ?d 21)" by code_simp
  then obtain pkt where p: "Parse 7 ?d 21 = Inr pkt" "GetExtension pkt 3 = Inr (Some (17, 2))" by (auto split: sum.splits)
  let ?p = "pkt\<lparr>rp_tcc_extension_id := 3\<rparr>"
  have "rtp_ok ?p" using Parse_Inr [OF p(1)] by simp
  moreover have "GetExtension ?p (rp_tcc_extension_id ?p) = Inr (Some (17, 2))"
    using p(2) by simp
  ultimately show ?thesis using UpdateWideSeq_correct [of ?p 17 _ 777] p(1) by blast
qed

text \<open>
  The same for the absolute send time with its three byte value, of which the low 24 bits are kept.
\<close>

theorem UpdateAbsTime_correct:
  assumes "rtp_ok pkt" and "GetExtension pkt (rp_abs_time_extension_id pkt) = Inr (Some (v, 3))"
    and "pkt' = pkt\<lparr>rp_buf := poke (rp_buf pkt) v (be 3 abs_time)\<rparr>"
  shows "UpdateAbsTime pkt abs_time = Inr (True, pkt') \<and> ReadAbsTime pkt' = Inr (Some (take_bit 24 abs_time)) \<and>
    rtp_view pkt' = rtp_view pkt"
proof -
  have w: "length (be 3 abs_time) = unat (3 :: u8)" by simp
  note g = GetExtension_poke [OF assms(1,2) w] and u = UpdateExtensionLength_poke [OF assms(1,2) w]
    and f = value_write_frame [OF assms(1,2) w]
  show ?thesis
    using assms(2,3) g u f by (simp add: UpdateAbsTime_def ReadAbsTime_def Write_be Read_be of_be_be)
qed

theorem UpdateAbsTime_correct_witness:
  "\<exists>pkt pkt'. Parse 7 [0x90, 96, 0, 1, 0, 0, 0, 2, 0, 0, 0, 3, 0xBE, 0xDE, 0, 1, 0x32, 7, 8, 9, 0xAA] 21 = Inr pkt \<and>
     UpdateAbsTime (pkt\<lparr>rp_abs_time_extension_id := 3\<rparr>) 777 = Inr (True, pkt') \<and> ReadAbsTime pkt' = Inr (Some 777)"
proof -
  let ?d = "[0x90, 96, 0, 1, 0, 0, 0, 2, 0, 0, 0, 3, 0xBE, 0xDE, 0, 1, 0x32, 7, 8, 9, 0xAA] :: bytes"
  have v: "case_sum (\<lambda>_. False) (\<lambda>p. GetExtension p 3 = Inr (Some (17, 3))) (Parse 7 ?d 21)" by code_simp
  then obtain pkt where p: "Parse 7 ?d 21 = Inr pkt" "GetExtension pkt 3 = Inr (Some (17, 3))" by (auto split: sum.splits)
  let ?p = "pkt\<lparr>rp_abs_time_extension_id := 3\<rparr>"
  have "rtp_ok ?p" using Parse_Inr [OF p(1)] by simp
  moreover have "GetExtension ?p (rp_abs_time_extension_id ?p) = Inr (Some (17, 3))"
    using p(2) by simp
  moreover have "take_bit 24 (777 :: u32) = 777" by simp
  ultimately show ?thesis using UpdateAbsTime_correct [of ?p 17 _ 777, OF _ _ refl] p(1) by auto
qed

section \<open>Well-formedness is kept\<close>

lemma rtp_ok_hdr:
  assumes "rtp_ok pkt" "hdr_ok b'" "length b' = length (rp_buf pkt)" "hdr_padding b' = hdr_padding (rp_buf pkt)"
    and "\<And>k. 12 \<le> k \<Longrightarrow> k < length (rp_buf pkt) \<Longrightarrow> b' ! k = rp_buf pkt ! k"
  shows "rtp_ok (pkt\<lparr>rp_buf := b'\<rparr>)"
proof -
  have "ext_ok (pkt\<lparr>rp_buf := b'\<rparr>)" using assms by (intro ext_ok_frame) (auto simp: rtp_ok_def)
  then show ?thesis using assms by (simp add: rtp_ok_def HasPadding_def)
qed

lemma rtp_ok_setters:
  assumes "rtp_ok pkt"
  shows "rtp_ok (SetSeq s pkt)" "rtp_ok (SetTimestamp t pkt)" "rtp_ok (SetSsrc t pkt)" "rtp_ok (SetPayloadType v pkt)" "rtp_ok (SetMarker v pkt)"
proof -
  have h: "hdr_ok (rp_buf pkt)" using assms by (simp add: rtp_ok_def)
  note defs = SetSeq_def SetTimestamp_def SetSsrc_def SetPayloadType_def SetMarker_def
  show "rtp_ok (SetSeq s pkt)" "rtp_ok (SetTimestamp t pkt)" "rtp_ok (SetSsrc t pkt)" "rtp_ok (SetPayloadType v pkt)" "rtp_ok (SetMarker v pkt)"
    unfolding defs using h by (auto intro!: rtp_ok_hdr [OF assms])
qed

lemma rtp_ok_RtxDemux:
  assumes "rtp_ok pkt" "RtxDemux pkt ssrc pt = Inr q"
  shows "rtp_ok q"
proof -
  have n: "2 \<le> rp_payload_len pkt" using assms(2) by (auto simp: RtxDemux_def split: if_splits)
  let ?b = "poke (rtx_header pt ssrc (of_be (take 2 (GetPayload pkt))) (rp_buf pkt)) (rp_payload pkt) (drop 2 (GetPayload pkt))"
  let ?p = "pkt\<lparr>rp_buf := ?b, rp_payload_len := rp_payload_len pkt - 2, rp_data_len := rp_data_len pkt - 2\<rparr>"
  have h: "hdr_ok (rp_buf pkt)" "12 \<le> rp_payload pkt" "rp_payload pkt + rp_payload_len pkt \<le> length (rp_buf pkt)"
    using assms(1) by (auto simp: rtp_ok_def)
  have "length (GetPayload pkt) = rp_payload_len pkt" using h by (simp add: GetPayload_def)
  then have e: "ext_ok (pkt\<lparr>rp_buf := ?b\<rparr>)" using assms(1) h n by (intro ext_ok_frame) (auto simp: rtp_ok_def nth_poke)
  moreover have "HasPadding (pkt\<lparr>rp_buf := ?b\<rparr>) = HasPadding pkt"
    using h n \<open>length (GetPayload pkt) = _\<close> by (simp add: HasPadding_def)
  ultimately have "rtp_ok ?p" using assms(1) h n \<open>length (GetPayload pkt) = _\<close> by (auto simp: rtp_ok_def HasPadding_def)
  then show ?thesis using RtxDemux_eq [OF assms(1) n, of ssrc pt] assms(2) rtp_ok_drop_padding [of ?p] by simp
qed

inductive packet_reach :: "rtp_packet \<Rightarrow> bool" where
  parse: "len \<le> length data \<Longrightarrow> Parse now_ms data len = Inr p \<Longrightarrow> packet_reach p"
| set_seq: "packet_reach p \<Longrightarrow> packet_reach (SetSeq s p)"
| set_timestamp: "packet_reach p \<Longrightarrow> packet_reach (SetTimestamp t p)"
| set_ssrc: "packet_reach p \<Longrightarrow> packet_reach (SetSsrc t p)"
| set_payload_type: "packet_reach p \<Longrightarrow> packet_reach (SetPayloadType v p)"
| set_marker: "packet_reach p \<Longrightarrow> packet_reach (SetMarker v p)"
| mux: "packet_reach p \<Longrightarrow> RtxMux p pt ssrc seq = Inr q \<Longrightarrow> packet_reach q"
| demux: "packet_reach p \<Longrightarrow> RtxDemux p ssrc pt = Inr q \<Longrightarrow> packet_reach q"
| clone: "packet_reach p \<Longrightarrow> Clone now_ms mem own p = Inr q \<Longrightarrow> packet_reach q"

text \<open>
  C34. Every packet object the program can obtain by parsing datagrams, writing header fields, wrapping and unwrapping
  retransmissions and cloning is well formed: header, known extension elements, payload and padding lie in that
  order inside the buffer, and the lengths add up to the length of the packet.
\<close>

theorem packet_typed:
  assumes "packet_reach p"
  shows "rtp_ok p"
  using assms
proof (induction rule: packet_reach.induct)
  case (mux p pt ssrc seq q)
  then show ?case using rtp_ok_RtxMux [of p pt ssrc seq] by auto
next
  case (clone p now_ms mem own q)
  then show ?case using Clone_Inr(1) by (simp add: rtp_ok_def [of p])
qed (auto dest: Parse_Inr intro: rtp_ok_setters rtp_ok_RtxDemux)

theorem packet_typed_witness:
  "\<exists>p q. Parse 7 [0x80, 96, 0, 1, 0, 0, 0, 2, 0, 0, 0, 3, 0, 9, 0xAA] 15 = Inr p \<and> RtxDemux (SetMarker 1 p) 8 97 = Inr q \<and>
     rp_payload_len q = 1 \<and> rtp_ok q"
proof -
  let ?d = "[0x80, 96, 0, 1, 0, 0, 0, 2, 0, 0, 0, 3, 0, 9, 0xAA] :: bytes"
  have "case_sum (\<lambda>_. False) (\<lambda>p. case_sum (\<lambda>_. False) (\<lambda>q. rp_payload_len q = 1) (RtxDemux (SetMarker 1 p) 8 97)) (Parse 7 ?d 15)" by code_simp
  then obtain p q where p: "Parse 7 ?d 15 = Inr p" "RtxDemux (SetMarker 1 p) 8 97 = Inr q" "rp_payload_len q = 1"
    by (auto split: sum.splits)
  have "15 \<le> length ?d" by simp
  from packet_typed [OF packet_reach.demux [OF packet_reach.set_marker [OF packet_reach.parse [OF this p(1)]] p(2)]] p show ?thesis by blast
qed

end
