(* ===== verification/Rtp_Session.thy ===== *)
theory Rtp_Session
  imports Rtp_Packet
begin

unbundle bit_operations_syntax

text \<open>
  The base class \<open>RtpSession\<close> of \<open>webrtc_room/rtp_session.cpp\<close> with the clock and counting helpers its
  subclasses use: \<open>utils/timeex.hpp\<close> and \<open>utils/stream_statics.hpp\<close>. The subclass state of the receive
  and send sessions extends the record \<open>rtp_session\<close> the way the C++ classes inherit it.
\<close>

section \<open>Wall clock and NTP time\<close>

record NTP_TIMESTAMP =
  ntp_sec :: u32
  ntp_frac :: u32

definition millisec_to_ntp :: "int \<Rightarrow> NTP_TIMESTAMP" where
  \<comment> \<open>the cast binds tighter than the division. The double computation of the fraction is exact up
    to the final truncation: \<open>(ms % 1000) * 2^32 / 1000\<close> is an integer or at least \<open>1/125\<close> away from one,
    and the rounding error is below \<open>2^-20\<close>; \<open>ms\<close> is not negative\<close>
  "millisec_to_ntp ms =
     \<lparr>ntp_sec = (word_of_int ms :: u32) div 1000,
      ntp_frac = word_of_int ((ms mod 1000) * 2 ^ 32 div 1000)\<rparr>"

definition ntp_to_millisec :: "NTP_TIMESTAMP \<Rightarrow> int" where
  \<comment> \<open>all intermediate doubles are exact; \<open>std::round\<close> rounds halves up here\<close>
  "ntp_to_millisec ntp = uint (ntp_sec ntp) * 1000 + (uint (ntp_frac ntp) * 1000 + 2 ^ 31) div 2 ^ 32"

section \<open>Stream statistics\<close>

definition STREAM_STATICS_INTERVAL_MAX :: int where
  "STREAM_STATICS_INTERVAL_MAX = 10 * 1000"

record StreamStatics =
  ss_count :: nat
  ss_last_count :: nat
  ss_bytes :: nat
  ss_last_bytes :: nat
  ss_timestamp :: int

definition StreamStatics_new :: StreamStatics where
  "StreamStatics_new = \<lparr>ss_count = 0, ss_last_count = 0, ss_bytes = 0, ss_last_bytes = 0, ss_timestamp = 0\<rparr>"

definition ss_snapshot :: "int \<Rightarrow> StreamStatics \<Rightarrow> StreamStatics" where
  \<comment> \<open>the three assignments every branch ends with\<close>
  "ss_snapshot now_ms st = st\<lparr>ss_timestamp := now_ms, ss_last_bytes := ss_bytes st, ss_last_count := ss_count st\<rparr>"

definition ss_Update :: "nat \<Rightarrow> int \<Rightarrow> StreamStatics \<Rightarrow> StreamStatics" where
  "ss_Update bytes now_ms st0 =
     (let st = st0\<lparr>ss_bytes := ss_bytes st0 + bytes, ss_count := ss_count st0 + 1\<rparr> in
      if ss_timestamp st = 0 \<or> now_ms - ss_timestamp st > STREAM_STATICS_INTERVAL_MAX
      then ss_snapshot now_ms st else st)"

definition BytesPerSecond :: "int \<Rightarrow> StreamStatics \<Rightarrow> nat \<times> nat option \<times> StreamStatics" where
  \<comment> \<open>the returned speed, what is assigned to \<open>count_per_second\<close> if anything, the new state\<close>
  "BytesPerSecond now_ms st =
     (if ss_timestamp st = 0 \<or> now_ms - ss_timestamp st > STREAM_STATICS_INTERVAL_MAX
      then (0, None, ss_snapshot now_ms st)
      else if now_ms \<le> ss_timestamp st then (0, None, ss_snapshot now_ms st)
      else let dt = nat (now_ms - ss_timestamp st) in
        ((ss_bytes st - ss_last_bytes st) * 1000 div dt,
         Some ((ss_count st - ss_last_count st) * 1000 div dt),
         ss_snapshot now_ms st))"

definition ss_Reset :: "StreamStatics \<Rightarrow> StreamStatics" where
  "ss_Reset st = st\<lparr>ss_count := 0, ss_bytes := 0, ss_last_bytes := 0, ss_last_count := 0, ss_timestamp := 0\<rparr>"

definition ss_ok :: "StreamStatics \<Rightarrow> bool" where
  "ss_ok st \<longleftrightarrow> ss_last_count st \<le> ss_count st \<and> ss_last_bytes st \<le> ss_bytes st"

section \<open>Session parameters and state\<close>

datatype MEDIA_PKT_TYPE =
  MEDIA_UNKNOWN_TYPE | MEDIA_VIDEO_TYPE | MEDIA_AUDIO_TYPE | MEDIA_MOVBOX_TYPE | MEDIA_METADATA_TYPE

record RtpSessionParam =
  av_type :: MEDIA_PKT_TYPE
  mid :: int
  p_ssrc :: u32
  p_payload_type :: u8
  p_channel :: int
  p_clock_rate :: u32
  p_rtx_ssrc :: u32
  p_rtx_payload_type :: u8
  p_use_nack :: bool
  p_key_request :: bool
  p_mid_ext_id :: int
  p_tcc_ext_id :: int
  p_abs_send_time_ext_id :: int
  p_codec_name :: string
  p_fmtp_param :: string
  p_rtcp_features :: "string list"

definition RtpSessionParam_default :: RtpSessionParam where
  "RtpSessionParam_default =
     \<lparr>av_type = MEDIA_UNKNOWN_TYPE, mid = -1, p_ssrc = 0, p_payload_type = 0, p_channel = 0,
      p_clock_rate = 90000, p_rtx_ssrc = 0, p_rtx_payload_type = 0, p_use_nack = False,
      p_key_request = False, p_mid_ext_id = -1, p_tcc_ext_id = -1, p_abs_send_time_ext_id = -1,
      p_codec_name = [], p_fmtp_param = [], p_rtcp_features = []\<rparr>"

record rtp_session =
  param :: RtpSessionParam
  first_pkt :: bool
  max_packet_ts :: u32
  max_packet_ms :: int
  last_pkt_ms :: int
  last_rtp_ts :: int
  jitter_q4 :: u32
  jitter :: u32
  cycles :: u32
  base_seq :: u32
  max_seq :: u16
  bad_seq :: u32
  discard_count :: nat

definition rtp_session_init :: "RtpSessionParam \<Rightarrow> rtp_session" where
  "rtp_session_init p =
     \<lparr>param = p, first_pkt = True, max_packet_ts = 0, max_packet_ms = 0, last_pkt_ms = 0,
      last_rtp_ts = 0, jitter_q4 = 0, jitter = 0, cycles = 0, base_seq = 0, max_seq = 0,
      bad_seq = 0, discard_count = 0\<rparr>"

section \<open>Sequence number tracking\<close>

definition MAX_DROPOUT :: nat where "MAX_DROPOUT = 3000"
definition MAX_MISORDER :: nat where "MAX_MISORDER = 1500"

definition InitSeq :: "u16 \<Rightarrow> 'a rtp_session_scheme \<Rightarrow> 'a rtp_session_scheme" where
  "InitSeq seq s = s\<lparr>base_seq := ucast seq, max_seq := seq, bad_seq := of_nat (RTP_SEQ_MOD + 1), cycles := 0\<rparr>"

definition update_seq :: "u16 \<Rightarrow> 'a rtp_session_scheme \<Rightarrow> bool \<times> 'a rtp_session_scheme" where
  "update_seq seq s =
     (let udelta = unat (seq - max_seq s) in
      if udelta < MAX_DROPOUT then
        (True, (if seq < max_seq s then s\<lparr>cycles := cycles s + of_nat RTP_SEQ_MOD\<rparr> else s)\<lparr>max_seq := seq\<rparr>)
      else if udelta \<le> RTP_SEQ_MOD - MAX_MISORDER then
        (if ucast seq = bad_seq s then (True, InitSeq seq s)
         else (False, s\<lparr>bad_seq := (ucast seq + 1) AND of_nat (RTP_SEQ_MOD - 1),
                discard_count := discard_count s + 1\<rparr>))
      else (True, s))"

definition UpdateSeq :: "rtp_packet \<Rightarrow> 'a rtp_session_scheme \<Rightarrow> bool \<times> 'a rtp_session_scheme" where
  "UpdateSeq rtp_pkt = update_seq (GetSeq rtp_pkt)"

definition GetExpectedPackets :: "'a rtp_session_scheme \<Rightarrow> int" where
  \<comment> \<open>the sum is computed in \<open>uint32_t\<close> and then widened\<close>
  "GetExpectedPackets s = uint (cycles s + ucast (max_seq s) - bad_seq s + 1)"

section \<open>Abstraction: the extended highest sequence number\<close>

definition highest :: "'a rtp_session_scheme \<Rightarrow> nat" where
  "highest s = unat (cycles s) + unat (max_seq s)"

definition seq_ok :: "'a rtp_session_scheme \<Rightarrow> bool" where
  "seq_ok s \<longleftrightarrow> unat (cycles s) mod 65536 = 0"

fun in_window :: "nat \<Rightarrow> nat list \<Rightarrow> bool" where
  \<comment> \<open>every packet of the stream is less than 3000 ahead of and less than 1500 behind the newest one so far\<close>
  "in_window h [] = True"
| "in_window h (t # ts) \<longleftrightarrow> t < h + MAX_DROPOUT \<and> h < t + MAX_MISORDER \<and> in_window (max h t) ts"

fun run_seqs :: "('q \<Rightarrow> 's \<Rightarrow> bool \<times> 's) \<Rightarrow> 'q list \<Rightarrow> 's \<Rightarrow> bool \<times> 's" where
  \<comment> \<open>a sequence of packets: were all of them accepted, and the state they leave\<close>
  "run_seqs upd [] s = (True, s)"
| "run_seqs upd (q # qs) s =
     (let (acc, s') = upd q s; (accs, s'') = run_seqs upd qs s' in (acc \<and> accs, s''))"

text \<open>The contract of a tracker of 16 bit sequence numbers: it reconstructs the sender's running
  packet index from its low 16 bits.\<close>

locale seq_tracker =
  fixes seq_of :: "'q \<Rightarrow> u16"
    and upd :: "'q \<Rightarrow> 's \<Rightarrow> bool \<times> 's"
    and hi :: "'s \<Rightarrow> nat"
    and ok :: "'s \<Rightarrow> bool"
  assumes advance: "ok s \<Longrightarrow> seq_of q = of_nat t \<Longrightarrow> hi s \<le> t \<Longrightarrow> t < hi s + MAX_DROPOUT \<Longrightarrow> t < 2 ^ 32 \<Longrightarrow>
      \<exists>s'. upd q s = (True, s') \<and> ok s' \<and> hi s' = t"
    and late: "ok s \<Longrightarrow> seq_of q = of_nat t \<Longrightarrow> t < hi s \<Longrightarrow> hi s < t + MAX_MISORDER \<Longrightarrow> upd q s = (True, s)"
begin

lemma run_tracks:
  assumes "list_all2 (\<lambda>q t. seq_of q = of_nat t) qs ts" and "ok s" and "in_window (hi s) ts"
    and "\<forall>t \<in> set ts. t < 2 ^ 32"
  shows "\<exists>s'. run_seqs upd qs s = (True, s') \<and> ok s' \<and> hi s' = fold max ts (hi s)"
  using assms
proof (induction qs ts arbitrary: s rule: list_all2_induct)
  case Nil
  then show ?case by simp
next
  case (Cons q qs t ts)
  obtain s1 where s1: "upd q s = (True, s1)" "ok s1" "hi s1 = max (hi s) t"
  proof (cases "hi s \<le> t")
    case True
    then show ?thesis using Cons.hyps Cons.prems advance [of s q t] that by (auto simp: max_def)
  next
    case False
    then show ?thesis using Cons.hyps Cons.prems late [of s q t] that by (auto simp: max_def)
  qed
  from Cons.IH [OF s1(2)] Cons.prems s1(3) show ?case
    by (auto simp: s1(1) max.commute)
qed

end

section \<open>The tracker of the code\<close>

lemma unat_lt16: "unat (w :: u16) < 65536"
  using unsigned_less [of w, where 'a = nat] by simp

lemma seq_delta:
  assumes "unat (m :: u16) = h mod 65536" and "h \<le> t" and "t - h < 65536"
  shows "unat (of_nat t - m) = t - h" "(of_nat t < m) \<longleftrightarrow> t div 65536 = Suc (h div 65536)"
    "(of_nat t < m) \<or> t div 65536 = h div 65536"
proof -
  have m: "m = of_nat h" using assms(1) by (simp add: word_unat_eq_iff unat_of_nat)
  have "of_nat t - m = of_nat (t - h)" using assms(2) by (simp add: m)
  then show "unat (of_nat t - m) = t - h" using assms(3) by (simp add: unat_of_nat)
  have lt: "(of_nat t < m) \<longleftrightarrow> t mod 65536 < h mod 65536"
    by (simp add: m word_less_nat_alt unat_of_nat)
  obtain d where d: "t = h + d" "d < 65536" using assms(2,3) by (metis le_add_diff_inverse)
  define a b where "a = h div 65536" and "b = h mod 65536"
  have t: "t = (b + d) + 65536 * a" and b: "b < 65536" by (simp_all add: a_def b_def d(1))
  have "t mod 65536 < b \<and> t div 65536 = Suc a \<or> b \<le> t mod 65536 \<and> t div 65536 = a"
  proof (cases "b + d < 65536")
    case True
    then show ?thesis by (simp add: t)
  next
    case False
    then obtain c where "b + d = 65536 + c" by (metis le_Suc_ex not_less)
    then show ?thesis using b d(2) by (simp add: t)
  qed
  then show "(of_nat t < m) \<longleftrightarrow> t div 65536 = Suc (h div 65536)" "(of_nat t < m) \<or> t div 65536 = h div 65536"
    unfolding lt by (auto simp: a_def b_def)
qed

lemma highest_parts:
  assumes "seq_ok s"
  shows "unat (max_seq s) = highest s mod 65536" "unat (cycles s) = 65536 * (highest s div 65536)"
proof -
  obtain k where k: "unat (cycles s) = 65536 * k" using assms by (auto simp: seq_ok_def)
  then show "unat (max_seq s) = highest s mod 65536" "unat (cycles s) = 65536 * (highest s div 65536)"
    using unat_lt16 [of "max_seq s"] by (simp_all add: highest_def)
qed

lemma update_seq_advance:
  assumes "seq_ok s" and "highest s \<le> t" and "t < highest s + MAX_DROPOUT" and "t < 2 ^ 32"
  shows "update_seq (of_nat t) s = (True, s\<lparr>cycles := of_nat (65536 * (t div 65536)), max_seq := of_nat t\<rparr>)"
proof -
  note h = highest_parts [OF assms(1)]
  note d = seq_delta [OF h(1) assms(2)]
  have small: "t - highest s < 3000" using assms(2,3) by (simp add: MAX_DROPOUT_def)
  moreover have "cycles s = of_nat (65536 * (highest s div 65536))"
    unfolding h(2) [symmetric] by simp
  ultimately show ?thesis
    using d by (cases "of_nat t < max_seq s")
      (simp_all add: update_seq_def Let_def MAX_DROPOUT_def RTP_SEQ_MOD_def)
qed

lemma highest_advanced:
  assumes "t < 2 ^ 32"
  shows "highest (s\<lparr>cycles := of_nat (65536 * (t div 65536)), max_seq := of_nat t\<rparr>) = t"
    "seq_ok (s\<lparr>cycles := of_nat (65536 * (t div 65536)), max_seq := of_nat t\<rparr>)"
proof -
  have "65536 * (t div 65536) < 2 ^ 32" using assms by simp
  then have "unat (of_nat (65536 * (t div 65536)) :: u32) = 65536 * (t div 65536)"
    by (simp only: unat_of_nat) simp
  moreover have "unat (of_nat t :: u16) = t mod 65536" by (simp add: unat_of_nat)
  ultimately show "highest (s\<lparr>cycles := of_nat (65536 * (t div 65536)), max_seq := of_nat t\<rparr>) = t"
    "seq_ok (s\<lparr>cycles := of_nat (65536 * (t div 65536)), max_seq := of_nat t\<rparr>)"
    by (simp_all add: highest_def seq_ok_def)
qed

lemma update_seq_late:
  assumes "seq_ok s" and "t < highest s" and "highest s < t + MAX_MISORDER"
  shows "update_seq (of_nat t) s = (True, s)"
proof -
  define d where "d = highest s - t"
  have d: "0 < d" "d < 1500" "highest s = t + d"
    using assms(2,3) by (simp_all add: d_def MAX_MISORDER_def)
  have "max_seq s = of_nat (highest s)"
    using highest_parts(1) [OF assms(1)] by (simp add: word_unat_eq_iff unat_of_nat)
  then have "of_nat t - max_seq s = - of_nat d" by (simp add: d(3))
  moreover have "(- of_nat d :: u16) = of_nat (65536 - d)" using d by (simp add: of_nat_diff)
  then have "unat (- of_nat d :: u16) = 65536 - d" using d by (simp only: unat_of_nat) simp
  ultimately show ?thesis
    using d by (simp add: update_seq_def Let_def MAX_DROPOUT_def MAX_MISORDER_def RTP_SEQ_MOD_def)
qed

interpretation rtp_seq: seq_tracker GetSeq UpdateSeq highest seq_ok
proof
  fix s :: "'a rtp_session_scheme" and q t
  assume "seq_ok s" "GetSeq q = of_nat t" "highest s \<le> t" "t < highest s + MAX_DROPOUT" "t < 2 ^ 32"
  then show "\<exists>s'. UpdateSeq q s = (True, s') \<and> seq_ok s' \<and> highest s' = t"
    unfolding UpdateSeq_def using highest_advanced [of t s] update_seq_advance [of s t] by auto
next
  fix s :: "'a rtp_session_scheme" and q t
  assume "seq_ok s" "GetSeq q = of_nat t" "t < highest s" "highest s < t + MAX_MISORDER"
  then show "UpdateSeq q s = (True, s)"
    by (simp add: UpdateSeq_def update_seq_late)
qed

section \<open>Properties\<close>

lemma InitSeq_ok [simp]: "seq_ok (InitSeq q s)" "highest (InitSeq q s) = unat q"
  by (simp_all add: InitSeq_def seq_ok_def highest_def)

text \<open>
  C24. \<open>InitSeq\<close> and \<open>UpdateSeq\<close> implement the extended highest sequence number of RFC 3550: for a
  sender's stream of running packet indices, of which only the low 16 bits travel, every packet that is
  less than 3000 ahead of or less than 1500 behind the newest one so far is accepted, and
  \<open>cycles_ + max_seq_\<close> ends up at the largest index, through any number of wrap-arounds
  below \<open>2^32\<close> and any reordering inside that window.
\<close>

theorem UpdateSeq_tracks:
  assumes "list_all2 (\<lambda>p t. GetSeq p = of_nat t) pkts ts"
    and "t0 < 65536" and "in_window t0 ts" and "\<forall>t \<in> set ts. t < 2 ^ 32"
  shows "\<exists>s'. run_seqs UpdateSeq pkts (InitSeq (of_nat t0) s) = (True, s') \<and>
    highest s' = Max (insert t0 (set ts))"
proof -
  have "unat (of_nat t0 :: u16) = t0" using assms(2) by (simp add: unat_of_nat)
  moreover have "Max (insert t0 (set ts)) = fold max ts t0"
    using Max.set_eq_fold [of t0 ts] by simp
  ultimately show ?thesis
    using rtp_seq.run_tracks [OF assms(1), of "InitSeq (of_nat t0) s"] assms(3,4) by auto
qed

theorem UpdateSeq_tracks_witness:
  "\<exists>p1 p2 p3 s'. GetSeq p1 = 65535 \<and> GetSeq p2 = 1 \<and> GetSeq p3 = 0 \<and>
    run_seqs UpdateSeq [p1, p2, p3] (InitSeq 65000 (rtp_session_init RtpSessionParam_default)) = (True, s') \<and>
    highest s' = 65537"
proof -
  let ?pk = "\<lambda>q :: u16. RtpPacket_new 0 (set_hdr_sequence q (replicate 12 0)) None 12 0 0 12"
  have v: "\<forall>q \<in> {65535, 1, 0}. case_sum (\<lambda>_. False) (\<lambda>p. GetSeq p = q) (?pk q)"
    by code_simp
  then obtain p1 p2 p3 where p: "GetSeq p1 = 65535" "GetSeq p2 = 1" "GetSeq p3 = 0"
    by (auto split: sum.splits)
  then have "list_all2 (\<lambda>p t. GetSeq p = of_nat t) [p1, p2, p3] [65535, 65537, 65536]" by simp
  then have "\<exists>s'. run_seqs UpdateSeq [p1, p2, p3] (InitSeq 65000 (rtp_session_init RtpSessionParam_default)) = (True, s') \<and>
      highest s' = 65537"
    using UpdateSeq_tracks [of "[p1, p2, p3]" "[65535, 65537, 65536]" 65000 "rtp_session_init RtpSessionParam_default"]
    by (simp add: MAX_DROPOUT_def MAX_MISORDER_def)
  with p show ?thesis by blast
qed

text \<open>
  A large jump is not followed at once: the packet is rejected and counted and the position is kept;
  but when the very next packet continues from there, the session resynchronises to it as if it
  were the first packet.
\<close>

theorem UpdateSeq_resync:
  assumes "MAX_DROPOUT \<le> unat (q - max_seq s)" and "unat (q - max_seq s) < RTP_SEQ_MOD - MAX_MISORDER"
    and "ucast q \<noteq> bad_seq s"
  shows "\<exists>s1. update_seq q s = (False, s1) \<and> highest s1 = highest s \<and>
    discard_count s1 = discard_count s + 1 \<and>
    update_seq (q + 1) s1 = (True, InitSeq (q + 1) s1) \<and> highest (InitSeq (q + 1) s1) = unat (q + 1)"
proof -
  let ?s1 = "s\<lparr>bad_seq := (ucast q + 1) AND of_nat (RTP_SEQ_MOD - 1), discard_count := discard_count s + 1\<rparr>"
  have "update_seq q s = (False, ?s1)"
    using assms by (simp add: update_seq_def Let_def)
  moreover have "ucast (q + 1) = ((ucast q + 1) AND of_nat (RTP_SEQ_MOD - 1) :: u32)"
  proof -
    have "((ucast q + 1) AND of_nat (RTP_SEQ_MOD - 1) :: u32) = take_bit 16 (ucast q + 1)"
      by (simp add: RTP_SEQ_MOD_def take_bit_eq_mask mask_eq_exp_minus_1 and.commute)
    moreover have "ucast (q + 1) = (take_bit 16 (ucast q + 1) :: u32)"
      by transfer (simp add: take_bit_eq_mod mod_simps)
    ultimately show ?thesis by simp
  qed
  moreover have "unat (q + 1 - max_seq s) = Suc (unat (q - max_seq s))"
  proof -
    have e: "q + 1 - max_seq s = (q - max_seq s) + 1" by simp
    show ?thesis unfolding e
      using assms(2) unat_word_ariths(1) [of "q - max_seq s" 1] by (simp add: RTP_SEQ_MOD_def MAX_MISORDER_def)
  qed
  ultimately show ?thesis
    using assms(1,2) by (auto simp: update_seq_def Let_def highest_def InitSeq_def)
qed

theorem UpdateSeq_resync_witness:
  "\<exists>s1. update_seq 10000 (InitSeq 100 (rtp_session_init RtpSessionParam_default)) = (False, s1) \<and>
     highest s1 = 100 \<and> update_seq 10001 s1 = (True, InitSeq 10001 s1)"
proof -
  let ?s = "InitSeq 100 (rtp_session_init RtpSessionParam_default)"
  have "MAX_DROPOUT \<le> unat (10000 - max_seq ?s)" "unat (10000 - max_seq ?s) < RTP_SEQ_MOD - MAX_MISORDER"
    "ucast (10000 :: u16) \<noteq> bad_seq ?s" "highest ?s = 100"
    by (simp_all add: InitSeq_def RTP_SEQ_MOD_def MAX_DROPOUT_def MAX_MISORDER_def highest_def)
  from UpdateSeq_resync [OF this(1-3)] this(4) show ?thesis by auto
qed

text \<open>
  \<open>GetExpectedPackets\<close> subtracts the resynchronisation marker \<open>bad_seq_\<close> where RFC 3550 subtracts the
  first sequence number. While no jump is pending the marker is 65537, so the result does not depend on
  the first packet at all: it is the highest extended sequence number less 65536, wrapped to 32 bits,
  which for the whole first cycle is a number close to \<open>2^32\<close>.
\<close>

theorem GetExpectedPackets_value:
  assumes "seq_ok s" and "highest s < 2 ^ 32" and "bad_seq s = 65537"
  shows "GetExpectedPackets s = (int (highest s) - 65536) mod 2 ^ 32 \<and>
    (highest s < 65536 \<longrightarrow> GetExpectedPackets s \<ge> 2 ^ 32 - 65536)"
proof -
  have "cycles s + ucast (max_seq s) = word_of_int (int (highest s))"
    by (simp add: highest_def)
  then have "cycles s + ucast (max_seq s) - bad_seq s + 1 = word_of_int (int (highest s) - 65536)"
    by (simp add: assms(3))
  then have "GetExpectedPackets s = uint (word_of_int (int (highest s) - 65536) :: u32)"
    unfolding GetExpectedPackets_def by (rule arg_cong)
  then have *: "GetExpectedPackets s = (int (highest s) - 65536) mod 2 ^ 32"
    by (simp only: uint_word_of_int) simp
  moreover have "GetExpectedPackets s \<ge> 2 ^ 32 - 65536" if "highest s < 65536"
  proof -
    have "(int (highest s) - 65536) mod 2 ^ 32 = int (highest s) - 65536 + 2 ^ 32"
      using that by (subst mod_add_self2 [symmetric]) (rule mod_pos_pos_trivial, simp_all)
    then show ?thesis by (simp add: *)
  qed
  ultimately show ?thesis by blast
qed

theorem GetExpectedPackets_value_witness:
  "GetExpectedPackets (InitSeq 100 (rtp_session_init RtpSessionParam_default)) \<ge> 2 ^ 32 - 65536"
  using GetExpectedPackets_value [of "InitSeq 100 (rtp_session_init RtpSessionParam_default)"]
  by (simp add: InitSeq_def RTP_SEQ_MOD_def seq_ok_def highest_def)

text \<open>
  Converting a wall clock value to NTP format and back is the identity for the first \<open>2^32\<close>
  milliseconds after 1970. The seconds are computed from the clock truncated to 32 bits, so for every later
  time the conversion loses a multiple of \<open>2^32\<close> milliseconds and the seconds no longer agree with
  the fraction: the value that comes back is the one below.
\<close>

theorem ntp_roundtrip:
  assumes "0 \<le> ms"
  shows "ntp_to_millisec (millisec_to_ntp ms) = (ms mod 2 ^ 32) div 1000 * 1000 + ms mod 1000 \<and>
    (ms < 2 ^ 32 \<longrightarrow> ntp_to_millisec (millisec_to_ntp ms) = ms)"
proof -
  define m where "m = ms mod 1000"
  define f where "f = m * 2 ^ 32 div 1000"
  have m: "0 \<le> m" "m < 1000" by (simp_all add: m_def)
  have f: "0 \<le> f" "f < 2 ^ 32" "f * 1000 \<le> m * 2 ^ 32" "m * 2 ^ 32 < f * 1000 + 1000"
    using m by (simp_all add: f_def)
  have "(f * 1000 + 2 ^ 31) div 2 ^ 32 = m"
    using f by (intro int_div_pos_eq [where r = "f * 1000 + 2 ^ 31 - 2 ^ 32 * m"]) simp_all
  moreover have "uint (word_of_int f :: u32) = f"
    using f by (simp add: uint_word_of_int)
  moreover have "uint ((word_of_int ms :: u32) div 1000) = ms mod 2 ^ 32 div 1000"
    by (simp add: uint_div uint_word_of_int)
  ultimately have "ntp_to_millisec (millisec_to_ntp ms) = (ms mod 2 ^ 32) div 1000 * 1000 + ms mod 1000"
    unfolding ntp_to_millisec_def millisec_to_ntp_def f_def m_def by simp
  then show ?thesis using assms by simp
qed

theorem ntp_roundtrip_witness:
  "ntp_to_millisec (millisec_to_ntp 1234567) = 1234567 \<and>
   ntp_to_millisec (millisec_to_ntp 1700000000123) = (1700000000123 mod 2 ^ 32) div 1000 * 1000 + 123"
  using ntp_roundtrip [of 1234567] ntp_roundtrip [of 1700000000123] by simp

lemma ss_Update_simps [simp]:
  "ss_count (ss_Update n t st) = ss_count st + 1" "ss_bytes (ss_Update n t st) = ss_bytes st + n"
  by (simp_all add: ss_Update_def ss_snapshot_def Let_def)

lemma ss_Update_ok: "ss_ok st \<Longrightarrow> ss_ok (ss_Update n t st)"
  by (simp add: ss_Update_def ss_snapshot_def Let_def ss_ok_def)

lemma BytesPerSecond_ok: "BytesPerSecond t st = (v, c, st') \<Longrightarrow> ss_ok st'"
  by (auto simp: BytesPerSecond_def ss_snapshot_def ss_ok_def Let_def split: if_splits)

text \<open>
  The rate reported by \<open>BytesPerSecond\<close> over an interval that starts at a reading and contains any
  number of \<open>Update\<close> calls within the ten second limit is the number of bytes of exactly these
  calls per second (and the number of calls per second), rounded down.
\<close>

theorem BytesPerSecond_interval:
  assumes "BytesPerSecond t0 st0 = (v0, c0, st)" and "0 < t0" and "t0 < t1" and "t1 \<le> t0 + 10000"
    and "\<forall>(n, t) \<in> set us. t0 \<le> t \<and> t \<le> t1"
  shows "\<exists>st'. BytesPerSecond t1 (fold (\<lambda>(n, t). ss_Update n t) us st) =
    (sum_list (map fst us) * 1000 div nat (t1 - t0), Some (length us * 1000 div nat (t1 - t0)), st')"
proof -
  have st: "ss_timestamp st = t0" "ss_last_bytes st = ss_bytes st" "ss_last_count st = ss_count st"
    using assms(1) by (auto simp: BytesPerSecond_def ss_snapshot_def Let_def split: if_splits)
  have step: "ss_Update n t x = x\<lparr>ss_bytes := ss_bytes x + n, ss_count := ss_count x + 1\<rparr>"
    if "ss_timestamp x = t0" "t0 \<le> t" "t \<le> t1" for x n t
    using that assms(2-4) by (simp add: ss_Update_def Let_def STREAM_STATICS_INTERVAL_MAX_def)
  have "fold (\<lambda>(n, t). ss_Update n t) us x =
      x\<lparr>ss_bytes := ss_bytes x + sum_list (map fst us), ss_count := ss_count x + length us\<rparr>"
    if "ss_timestamp x = t0" for x :: StreamStatics
    using assms(5) that
    by (induction us arbitrary: x) (auto simp: step add.assoc)
  from this [OF st(1)] show ?thesis
    using st assms(2-4) by (simp add: BytesPerSecond_def STREAM_STATICS_INTERVAL_MAX_def Let_def)
qed

theorem BytesPerSecond_interval_witness:
  "\<exists>st'. BytesPerSecond 2000 (ss_Update 300 1500 (ss_Update 200 1200
      (snd (snd (BytesPerSecond 1000 StreamStatics_new))))) = (500, Some 2, st')"
proof -
  obtain v c st where b: "BytesPerSecond 1000 StreamStatics_new = (v, c, st)" by (cases "BytesPerSecond 1000 StreamStatics_new") auto
  show ?thesis using BytesPerSecond_interval [OF b, of 2000 "[(200, 1200), (300, 1500)]"] by (simp add: b)
qed

end
