(* ===== verification/Nack_Generator.thy ===== *)
theory Nack_Generator
  imports Rtp_Session
begin

unbundle bit_operations_syntax

text \<open>
  \<open>NackGenerator\<close> of \<open>webrtc_room/nack_generator.cpp\<close>: the list of missing sequence numbers of a received
  stream. \<open>UpdateNackList\<close> is called for every accepted packet, \<open>OnTimer\<close> every 10 ms; the latter
  hands the numbers to be requested now to the callback \<open>GenerateNackList\<close>, which the model
  returns as a value (\<open>None\<close>: the callback is not called). The timer's own running flag, which \<open>OnTimer\<close>
  passes through as its result, belongs to \<open>TimerInterface\<close> and is left out.
\<close>

section \<open>State and operations\<close>

definition NACK_LIST_MAX :: nat where "NACK_LIST_MAX = 5000"
definition NACK_RETRY_MAX :: int where "NACK_RETRY_MAX = 80"
definition NACK_DEFAULT_RTT :: int where "NACK_DEFAULT_RTT = 15"

record NACK_INFO =
  ni_seq :: u16
  ni_sent_ms :: int
  ni_retry :: int

record nack_generator =
  ng_init_flag :: bool
  ng_last_seq :: u16
  ng_nack_map :: "(u16, NACK_INFO) omap"
  ng_rtt :: int

definition NackGenerator_new :: nack_generator where
  "NackGenerator_new = \<lparr>ng_init_flag = False, ng_last_seq = 0, ng_nack_map = [], ng_rtt = NACK_DEFAULT_RTT\<rparr>"

definition UpdateRtt :: "int \<Rightarrow> nack_generator \<Rightarrow> nack_generator" where
  "UpdateRtt rtt g = g\<lparr>ng_rtt := rtt\<rparr>"

definition IsInNackList :: "u16 \<Rightarrow> nack_generator \<Rightarrow> bool" where
  "IsInNackList seq g \<longleftrightarrow> om_find (ng_nack_map g) seq \<noteq> None"

lemma unat_inc_below: "(k :: u16) < e \<Longrightarrow> unat (k + 1) = unat k + 1"
proof -
  assume "k < e"
  then have "unat k + 1 < 65536" using unat_lt16 [of e] by (simp add: word_less_nat_alt)
  then show ?thesis using unat_word_ariths(1) [of k 1] by simp
qed

function nack_add_range :: "u16 \<Rightarrow> u16 \<Rightarrow> (u16, NACK_INFO) omap \<Rightarrow> (u16, NACK_INFO) omap" where
  \<comment> \<open>the insertion loop; \<open>key_seq\<close> is a 16 bit variable\<close>
  "nack_add_range key_seq seq_end m =
     (if key_seq < seq_end then
        nack_add_range (key_seq + 1) seq_end
          (if om_find m key_seq = None
           then om_insert key_seq \<lparr>ni_seq = key_seq, ni_sent_ms = 0, ni_retry = 0\<rparr> m else m)
      else m)"
  by pat_completeness auto
termination
  by (relation "measure (\<lambda>(k, e, m). unat e - unat k)")
    (auto simp: unat_inc_below word_less_nat_alt)

declare nack_add_range.simps [simp del]

definition update_nack_list :: "u16 \<Rightarrow> nack_generator \<Rightarrow> nack_generator" where
  "update_nack_list seq g =
     (if \<not> ng_init_flag g then g\<lparr>ng_init_flag := True, ng_last_seq := seq\<rparr>
      else if seq = ng_last_seq g then g
      else if SeqLowerThan seq (ng_last_seq g) then
        (if om_find (ng_nack_map g) seq \<noteq> None then g\<lparr>ng_nack_map := om_erase seq (ng_nack_map g)\<rparr> else g)
      else if unat (ng_last_seq g) + 1 = unat seq then g\<lparr>ng_last_seq := seq\<rparr>
      else g\<lparr>ng_last_seq := seq,
             ng_nack_map := nack_add_range (ng_last_seq g + 1) seq (ng_nack_map g)\<rparr>)"

definition UpdateNackList :: "rtp_packet \<Rightarrow> nack_generator \<Rightarrow> nack_generator" where
  "UpdateNackList pkt = update_nack_list (GetSeq pkt)"

fun nack_scan :: "int \<Rightarrow> int \<Rightarrow> (u16, NACK_INFO) omap \<Rightarrow> (u16, NACK_INFO) omap \<times> u16 list" where
  \<comment> \<open>the loop over the map: what stays in it and the numbers collected\<close>
  "nack_scan now_ms rtt [] = ([], [])"
| "nack_scan now_ms rtt ((k, i) # m) =
     (let (m', lost) = nack_scan now_ms rtt m in
      if ni_retry i > NACK_RETRY_MAX then (m', lost)
      else if now_ms - ni_sent_ms i < rtt then ((k, i) # m', lost)
      else ((k, i\<lparr>ni_sent_ms := now_ms, ni_retry := ni_retry i + 1\<rparr>) # m', k # lost))"

fun nack_trim :: "(u16, NACK_INFO) omap \<Rightarrow> (u16, NACK_INFO) omap" where
  "nack_trim [] = []"
| "nack_trim (e # m) = (if length (e # m) > NACK_LIST_MAX then nack_trim m else e # m)"

definition nack_OnTimer :: "int \<Rightarrow> nack_generator \<Rightarrow> u16 list option \<times> nack_generator" where
  "nack_OnTimer now_ms g =
     (if ng_nack_map g = [] then (None, g)
      else let (m, lost) = nack_scan now_ms (ng_rtt g) (ng_nack_map g) in
        (if lost = [] then None else Some (if length lost > 1 then sort lost else lost),
         g\<lparr>ng_nack_map := nack_trim m\<rparr>))"

section \<open>Invariant\<close>

definition nack_inv :: "nack_generator \<Rightarrow> bool" where
  "nack_inv g \<longleftrightarrow> om_ok (ng_nack_map g) \<and>
     (\<forall>(k, i) \<in> set (ng_nack_map g). ni_seq i = k \<and> 0 \<le> ni_retry i \<and> ni_retry i \<le> NACK_RETRY_MAX + 1)"

lemma nack_inv_simps [simp]:
  "nack_inv (g\<lparr>ng_last_seq := q\<rparr>) = nack_inv g" "nack_inv (g\<lparr>ng_init_flag := b\<rparr>) = nack_inv g"
  "nack_inv (g\<lparr>ng_rtt := r\<rparr>) = nack_inv g"
  by (simp_all add: nack_inv_def)

lemma nack_add_range_eq:
  "nack_add_range k e m = om.ins_absent (\<lambda>k. \<lparr>ni_seq = k, ni_sent_ms = 0, ni_retry = 0\<rparr>)
     (map of_nat [unat k ..< unat e]) m"
proof (induction k e m rule: nack_add_range.induct)
  case (1 k e m)
  show ?case
  proof (cases "k < e")
    case True
    then have "[unat k ..< unat e] = unat k # [unat (k + 1) ..< unat e]"
      by (simp add: unat_inc_below word_less_nat_alt upt_conv_Cons)
    then show ?thesis
      by (subst nack_add_range.simps) (use True 1 in \<open>simp add: om.ins_absent_def\<close>)
  next
    case False
    then show ?thesis
      by (subst nack_add_range.simps) (simp add: om.ins_absent_def word_less_nat_alt)
  qed
qed

lemma range_set: "set (map of_nat [unat k ..< unat e]) = {x :: u16. k \<le> x \<and> x < e}"
proof (intro set_eqI iffI)
  fix x :: u16 assume "x \<in> {x. k \<le> x \<and> x < e}"
  then have "unat x \<in> set [unat k ..< unat e]" by (simp add: word_le_nat_alt word_less_nat_alt)
  then show "x \<in> set (map of_nat [unat k ..< unat e])"
    unfolding set_map by (intro image_eqI [of _ _ "unat x"]) simp_all
next
  fix x :: u16 assume "x \<in> set (map of_nat [unat k ..< unat e])"
  then obtain n where n: "x = of_nat n" "unat k \<le> n" "n < unat e" by auto
  then have "unat x = n" using unat_lt16 [of e] by (simp add: unat_of_nat)
  with n show "x \<in> {x. k \<le> x \<and> x < e}" by (simp add: word_le_nat_alt word_less_nat_alt)
qed

lemma nack_add_range_find:
  assumes "om_ok m"
  shows "om_find (nack_add_range k e m) x =
    (case om_find m x of Some i \<Rightarrow> Some i
     | None \<Rightarrow> if k \<le> x \<and> x < e then Some \<lparr>ni_seq = x, ni_sent_ms = 0, ni_retry = 0\<rparr> else None)"
    "om_ok (nack_add_range k e m)"
proof -
  show "om_find (nack_add_range k e m) x =
    (case om_find m x of Some i \<Rightarrow> Some i
     | None \<Rightarrow> if k \<le> x \<and> x < e then Some \<lparr>ni_seq = x, ni_sent_ms = 0, ni_retry = 0\<rparr> else None)"
    unfolding nack_add_range_eq om.find_ins_absent [OF assms] range_set by (simp split: option.split)
  show "om_ok (nack_add_range k e m)"
    unfolding nack_add_range_eq by (rule om.ok_ins_absent [OF assms])
qed

lemma nack_inv_find:
  "nack_inv g \<longleftrightarrow> om_ok (ng_nack_map g) \<and> (\<forall>k i. om_find (ng_nack_map g) k = Some i \<longrightarrow>
     ni_seq i = k \<and> 0 \<le> ni_retry i \<and> ni_retry i \<le> NACK_RETRY_MAX + 1)"
  by (auto simp: nack_inv_def om_find_Some)

lemma nack_inv_new: "nack_inv NackGenerator_new"
  by (simp add: nack_inv_def NackGenerator_new_def)

lemma nack_inv_update: "nack_inv g \<Longrightarrow> nack_inv (update_nack_list q g)"
  by (auto simp: update_nack_list_def nack_inv_find nack_add_range_find NACK_RETRY_MAX_def
      split: if_splits option.splits)

text \<open>The scan in terms of the entries: which survive and which are requested.\<close>

definition nack_due :: "int \<Rightarrow> int \<Rightarrow> NACK_INFO \<Rightarrow> bool" where
  "nack_due now_ms rtt i \<longleftrightarrow> ni_retry i \<le> NACK_RETRY_MAX \<and> rtt \<le> now_ms - ni_sent_ms i"

definition nack_entry :: "int \<Rightarrow> int \<Rightarrow> NACK_INFO \<Rightarrow> NACK_INFO option" where
  "nack_entry now_ms rtt i =
     (if ni_retry i > NACK_RETRY_MAX then None
      else if nack_due now_ms rtt i then Some (i\<lparr>ni_sent_ms := now_ms, ni_retry := ni_retry i + 1\<rparr>)
      else Some i)"

lemma nack_scan_eq:
  "nack_scan now_ms rtt m =
     (List.map_filter (\<lambda>(k, i). map_option (Pair k) (nack_entry now_ms rtt i)) m,
      map fst (filter (\<lambda>(k, i). nack_due now_ms rtt i) m))"
  by (induction m) (auto simp: nack_entry_def nack_due_def map_filter_simps Let_def split: prod.split)

lemma om_ok_map_filter:
  assumes "om_ok m"
  shows "om_ok (List.map_filter (\<lambda>(k, i). map_option (Pair k) (f i)) m)"
    "om_find (List.map_filter (\<lambda>(k, i). map_option (Pair k) (f i)) m) x = Option.bind (om_find m x) f"
proof -
  have keys: "fst ` set (List.map_filter (\<lambda>(k, i). map_option (Pair k) (f i)) l) \<subseteq> fst ` set l" for l
    by (induction l) (auto simp: map_filter_simps split: option.splits)
  show "om_ok (List.map_filter (\<lambda>(k, i). map_option (Pair k) (f i)) m)"
    using assms
  proof (induction m)
    case (Cons e m)
    obtain k i where e: "e = (k, i)" by (cases e)
    have "k < k'" if "k' \<in> fst ` set (List.map_filter (\<lambda>(k, i). map_option (Pair k) (f i)) m)" for k'
      using subsetD [OF keys that] Cons.prems by (auto simp: e)
    with Cons show ?case by (auto simp: e map_filter_simps split: option.splits)
  qed (simp add: map_filter_simps)
  show "om_find (List.map_filter (\<lambda>(k, i). map_option (Pair k) (f i)) m) x = Option.bind (om_find m x) f"
    using assms
  proof (induction m)
    case (Cons e m)
    obtain k i where e: "e = (k, i)" by (cases e)
    have "om_find (List.map_filter (\<lambda>(k, i). map_option (Pair k) (f i)) m) k = None"
      unfolding om_find_None
    proof
      assume "k \<in> fst ` set (List.map_filter (\<lambda>(k, i). map_option (Pair k) (f i)) m)"
      from subsetD [OF keys this] show False using Cons.prems by (auto simp: e)
    qed
    with Cons show ?case by (auto simp: e map_filter_simps om_find_def split: option.splits)
  qed (simp add: map_filter_simps)
qed

lemma nack_trim_eq: "nack_trim m = drop (length m - NACK_LIST_MAX) m"
  by (induction m) (auto simp: Suc_diff_le)

lemma om_ok_drop: "om_ok m \<Longrightarrow> om_ok (drop n m)"
  by (simp add: om_ok_def drop_map [symmetric] sorted_wrt_drop)

lemma nack_scan_sorted:
  "om_ok m \<Longrightarrow> sorted_wrt (<) (map fst (filter P m))"
  by (simp add: om_ok_def sorted_wrt_map sorted_wrt_filter)

lemma nack_inv_OnTimer:
  assumes "nack_inv g" and "nack_OnTimer now_ms g = (out, g')"
  shows "nack_inv g'" "length (ng_nack_map g') \<le> NACK_LIST_MAX"
proof -
  let ?m = "List.map_filter (\<lambda>(k, i). map_option (Pair k) (nack_entry now_ms (ng_rtt g) i)) (ng_nack_map g)"
  have ok: "om_ok (ng_nack_map g)" using assms(1) by (simp add: nack_inv_def)
  consider "g' = g" "ng_nack_map g = []" | "g' = g\<lparr>ng_nack_map := nack_trim ?m\<rparr>"
    using assms(2) by (auto simp: nack_OnTimer_def nack_scan_eq split: if_splits)
  then show "nack_inv g'"
  proof cases
    case 2
    have "nack_inv (g\<lparr>ng_nack_map := ?m\<rparr>)"
      using assms(1) ok
      by (auto simp: nack_inv_find om_ok_map_filter bind_eq_Some_conv nack_entry_def nack_due_def NACK_RETRY_MAX_def
          split: if_splits)
    then show ?thesis
      using om_ok_drop [of ?m] by (auto simp: 2 nack_inv_def nack_trim_eq dest: in_set_dropD)
  qed (use assms in simp)
  show "length (ng_nack_map g') \<le> NACK_LIST_MAX"
    using assms(2) by (auto simp: nack_OnTimer_def nack_scan_eq nack_trim_eq split: if_splits)
qed

section \<open>Reachable states\<close>

text \<open>Everything that happens to a generator: packets, round trip time updates and timer ticks, in any order.\<close>

inductive nack_reach :: "nack_generator \<Rightarrow> bool" where
  nack_start: "nack_reach NackGenerator_new"
| nack_packet: "nack_reach g \<Longrightarrow> nack_reach (UpdateNackList pkt g)"
| nack_rtt: "nack_reach g \<Longrightarrow> nack_reach (UpdateRtt rtt g)"
| nack_tick: "nack_reach g \<Longrightarrow> nack_OnTimer now_ms g = (out, g') \<Longrightarrow> nack_reach g'"

lemma nack_reach_inv: "nack_reach g \<Longrightarrow> nack_inv g"
  by (induction rule: nack_reach.induct)
    (auto simp: nack_inv_new nack_inv_update nack_inv_OnTimer UpdateNackList_def UpdateRtt_def)

lemma OnTimer_out:
  assumes "nack_inv g" and "nack_OnTimer now_ms g = (out, g')"
  defines "due \<equiv> map fst (filter (\<lambda>(k, i). nack_due now_ms (ng_rtt g) i) (ng_nack_map g))"
  shows "out = (if due = [] then None else Some due)" "sorted_wrt (<) due"
    "set due = {k. \<exists>i. om_find (ng_nack_map g) k = Some i \<and> nack_due now_ms (ng_rtt g) i}"
proof -
  have ok: "om_ok (ng_nack_map g)" using assms(1) by (simp add: nack_inv_def)
  show s: "sorted_wrt (<) due" unfolding due_def by (rule nack_scan_sorted [OF ok])
  then have "sort due = due" by (simp add: sorted_sort_id strict_sorted_iff)
  then show "out = (if due = [] then None else Some due)"
    using assms(2) by (auto simp: nack_OnTimer_def nack_scan_eq due_def [symmetric] split: if_splits)
      (auto simp: due_def)
  show "set due = {k. \<exists>i. om_find (ng_nack_map g) k = Some i \<and> nack_due now_ms (ng_rtt g) i}"
    unfolding due_def using ok by (force simp: om_find_Some)
qed

abbreviation requested :: "u16 list option \<Rightarrow> u16 list" where
  "requested out \<equiv> (case out of None \<Rightarrow> [] | Some l \<Rightarrow> l)"

lemma OnTimer_requested:
  assumes "nack_inv g" and "nack_OnTimer now_ms g = (out, g')"
  shows "requested out = map fst (filter (\<lambda>(k, i). nack_due now_ms (ng_rtt g) i) (ng_nack_map g))"
    "k \<in> set (requested out) \<longleftrightarrow> (\<exists>i. om_find (ng_nack_map g) k = Some i \<and> nack_due now_ms (ng_rtt g) i)"
proof -
  show r: "requested out = map fst (filter (\<lambda>(k, i). nack_due now_ms (ng_rtt g) i) (ng_nack_map g))"
    using OnTimer_out(1) [OF assms] by (auto split: if_splits)
  show "k \<in> set (requested out) \<longleftrightarrow> (\<exists>i. om_find (ng_nack_map g) k = Some i \<and> nack_due now_ms (ng_rtt g) i)"
    unfolding r OnTimer_out(3) [OF assms] by simp
qed


section \<open>Properties\<close>

text \<open>
  In every reachable state of the generator, whatever the interleaving of packets, round trip updates
  and timer ticks, each entry is filed under its own number and has been requested at most 81 times; a
  tick requests, in increasing order and without repetition, exactly the numbers whose last
  request is at least one round trip old and which have been requested at most 80 times, and
  leaves at most 5000 entries.
\<close>

theorem nack_tick_correct:
  assumes "nack_reach g" and "nack_OnTimer now_ms g = (out, g')"
  shows "(\<forall>(k, i) \<in> set (ng_nack_map g). ni_seq i = k \<and> 0 \<le> ni_retry i \<and> ni_retry i \<le> 81) \<and>
    sorted_wrt (<) (requested out) \<and>
    set (requested out) =
      {k. \<exists>i. om_find (ng_nack_map g) k = Some i \<and> ni_retry i \<le> 80 \<and> ng_rtt g \<le> now_ms - ni_sent_ms i} \<and>
    out \<noteq> Some [] \<and> length (ng_nack_map g') \<le> 5000"
proof -
  note inv = nack_reach_inv [OF assms(1)]
  note out = OnTimer_out [OF inv assms(2)]
  have "\<forall>(k, i) \<in> set (ng_nack_map g). ni_seq i = k \<and> 0 \<le> ni_retry i \<and> ni_retry i \<le> 81"
    using inv by (simp add: nack_inv_def NACK_RETRY_MAX_def)
  moreover have "length (ng_nack_map g') \<le> 5000"
    using nack_inv_OnTimer(2) [OF inv assms(2)] by (simp add: NACK_LIST_MAX_def)
  moreover have "out \<noteq> Some []" using out(1) by (auto split: if_splits)
  moreover have "sorted_wrt (<) (requested out)" unfolding OnTimer_requested(1) [OF inv assms(2)] by (rule out(2))
  ultimately show ?thesis
    using OnTimer_requested(2) [OF inv assms(2)] by (auto simp: nack_due_def NACK_RETRY_MAX_def)
qed

definition nack_example :: nack_generator where
  \<comment> \<open>the state after packets 10 and 12\<close>
  "nack_example = \<lparr>ng_init_flag = True, ng_last_seq = 12,
     ng_nack_map = [(11, \<lparr>ni_seq = 11, ni_sent_ms = 0, ni_retry = 0\<rparr>)], ng_rtt = 15\<rparr>"

lemma nack_example_reach: "nack_reach nack_example"
proof -
  let ?pk = "\<lambda>q :: u16. RtpPacket_new 0 (set_hdr_sequence q (replicate 12 0)) None 12 0 0 12"
  have v: "\<forall>q \<in> {10, 12}. case_sum (\<lambda>_. False) (\<lambda>p. GetSeq p = q) (?pk q)"
    by code_simp
  then obtain a b where p: "GetSeq a = 10" "GetSeq b = 12" by (auto split: sum.splits)
  have "nack_example = UpdateNackList b (UpdateNackList a NackGenerator_new)"
    by (simp add: p UpdateNackList_def update_nack_list_def NackGenerator_new_def SeqLowerThan_unat
        nack_add_range.simps NACK_DEFAULT_RTT_def nack_example_def)
  with nack_packet [OF nack_packet [OF nack_start, of a], of b] show ?thesis by simp
qed

theorem nack_tick_correct_witness:
  "\<exists>out g'. nack_OnTimer 100 nack_example = (out, g') \<and> set (requested out) = {11}"
proof -
  obtain out g' where t: "nack_OnTimer 100 nack_example = (out, g')" by (cases "nack_OnTimer 100 nack_example")
  have "set (requested out) = {11}"
    using nack_tick_correct [OF nack_example_reach t] by (auto simp: nack_example_def om_find_def split: if_splits)
  with t show ?thesis by blast
qed

lemma nack_track_step:
  assumes g: "ng_init_flag g" "om_ok (ng_nack_map g)" "unat (ng_last_seq g) = Max S"
    "\<And>k. IsInNackList k g \<longleftrightarrow> t0 < unat k \<and> unat k < Max S \<and> unat k \<notin> S"
    and S: "finite S" "t0 \<in> S" "insert t S \<subseteq> {lo..lo + 32767}" "lo + 32767 < 65536"
  defines "g' \<equiv> update_nack_list (of_nat t) g"
  shows "ng_init_flag g'" "om_ok (ng_nack_map g')" "unat (ng_last_seq g') = Max (insert t S)"
    "IsInNackList k g' \<longleftrightarrow> t0 < unat k \<and> unat k < Max (insert t S) \<and> unat k \<notin> insert t S"
proof -
  have t: "unat (of_nat t :: u16) = t" using S(3,4) by (simp add: unat_of_nat)
  have h: "Max S \<in> S" "t0 \<le> Max S" using S(1,2) by (auto intro: Max_in)
  have lt: "SeqLowerThan (of_nat t) (ng_last_seq g) \<longleftrightarrow> t < Max S"
    using S(3,4) h by (auto simp: SeqLowerThan_unat t g(3))
  have eq: "of_nat t = ng_last_seq g \<longleftrightarrow> t = Max S" by (simp add: word_unat_eq_iff t g(3))
  have M: "Max (insert t S) = max t (Max S)" using S(1,2) by (simp add: Max_insert2 max_def) (metis Max_insert empty_iff max_def)
  show "ng_init_flag g'" using g(1) by (simp add: g'_def update_nack_list_def)
  show "om_ok (ng_nack_map g')"
    using g(2) by (simp add: g'_def update_nack_list_def nack_add_range_find)
  show "unat (ng_last_seq g') = Max (insert t S)"
    using g(1,3) lt eq t by (auto simp: g'_def update_nack_list_def M max_def)
  show "IsInNackList k g' \<longleftrightarrow> t0 < unat k \<and> unat k < Max (insert t S) \<and> unat k \<notin> insert t S"
  proof (cases "t \<le> Max S")
    case True
    then have "IsInNackList k g' \<longleftrightarrow> IsInNackList k g \<and> k \<noteq> of_nat t"
      using g(1) lt eq g(4) [of "of_nat t"] t
      by (auto simp: g'_def update_nack_list_def IsInNackList_def)
    then show ?thesis using True by (auto simp: M g(4) max_def word_unat_eq_iff t)
  next
    case False
    then have "ng_last_seq g < of_nat t" by (simp add: word_less_nat_alt t g(3))
    then have inc: "unat (ng_last_seq g + 1) = Max S + 1" by (simp add: unat_inc_below g(3))
    have "IsInNackList k g' \<longleftrightarrow> IsInNackList k g \<or> Max S < unat k \<and> unat k < t"
      using g(1,2) lt eq False inc
      by (auto simp: g'_def update_nack_list_def IsInNackList_def nack_add_range_find word_le_nat_alt
          word_less_nat_alt t g(3) split: option.splits)
    moreover have "unat k \<notin> S" if "Max S < unat k" using that S(1) by (auto dest: Max_ge)
    ultimately show ?thesis using False h S(1) by (auto simp: M g(4) max_def dest: Max_ge)
  qed
qed

lemma nack_stream_exact:
  assumes "GetSeq first = of_nat t0" and "list_all2 (\<lambda>p t. GetSeq p = of_nat t) pkts ts"
    and "insert t0 (set ts) \<subseteq> {lo..lo + 32767}" and "lo + 32767 < 65536"
  shows "IsInNackList k (fold UpdateNackList pkts (UpdateNackList first NackGenerator_new)) \<longleftrightarrow>
    t0 < unat k \<and> unat k < Max (insert t0 (set ts)) \<and> unat k \<notin> insert t0 (set ts)"
proof -
  have gen: "IsInNackList k (fold UpdateNackList pkts g) \<longleftrightarrow>
      t0 < unat k \<and> unat k < Max (S \<union> set ts) \<and> unat k \<notin> S \<union> set ts"
    if "ng_init_flag g" "om_ok (ng_nack_map g)" "unat (ng_last_seq g) = Max S"
      "\<And>k. IsInNackList k g \<longleftrightarrow> t0 < unat k \<and> unat k < Max S \<and> unat k \<notin> S"
      "finite S" "t0 \<in> S" "S \<union> set ts \<subseteq> {lo..lo + 32767}" for g S
    using assms(2) that
  proof (induction pkts ts arbitrary: g S rule: list_all2_induct)
    case (Cons p ps t ts)
    note step = nack_track_step [OF Cons.prems(1-6) _ assms(4), of t]
    have "insert t S \<subseteq> {lo..lo + 32767}" using Cons.prems(7) by auto
    note step = step [OF this]
    have "IsInNackList k (fold UpdateNackList ps (update_nack_list (of_nat t) g)) \<longleftrightarrow>
        t0 < unat k \<and> unat k < Max (insert t S \<union> set ts) \<and> unat k \<notin> insert t S \<union> set ts"
      by (rule Cons.IH [OF step]) (use Cons.prems(5-7) in auto)
    then show ?case using Cons.hyps by (simp add: UpdateNackList_def [of p])
  qed simp
  have "unat (of_nat t0 :: u16) = t0" using assms(3,4) by (simp add: unat_of_nat)
  then show ?thesis
    using gen [of "UpdateNackList first NackGenerator_new" "{t0}"] assms(1,3)
    by (simp add: UpdateNackList_def update_nack_list_def NackGenerator_new_def IsInNackList_def)
qed

text \<open>
  C21. The list is exact: when the packets of a stream (running indices below 65536, spread over less than half
  of the number space) arrive in any order, with any losses and repetitions, the generator holds exactly
  the indices between the first and the highest received one that have not arrived.
\<close>

theorem nack_list_exact:
  assumes "GetSeq first = of_nat t0" and "list_all2 (\<lambda>p t. GetSeq p = of_nat t) pkts ts"
    and "insert t0 (set ts) \<subseteq> {lo..lo + 32767}" and "lo + 32767 < 65536"
  shows "IsInNackList k (fold UpdateNackList pkts (UpdateNackList first NackGenerator_new)) \<longleftrightarrow>
    t0 < unat k \<and> unat k < Max (insert t0 (set ts)) \<and> unat k \<notin> insert t0 (set ts)"
  by (rule nack_stream_exact [OF assms])

theorem nack_list_exact_witness:
  "\<exists>a b c. GetSeq a = 10 \<and> GetSeq b = 14 \<and> GetSeq c = 12 \<and>
     IsInNackList 11 (fold UpdateNackList [b, c] (UpdateNackList a NackGenerator_new)) \<and>
     \<not> IsInNackList 12 (fold UpdateNackList [b, c] (UpdateNackList a NackGenerator_new))"
proof -
  let ?pk = "\<lambda>q :: u16. RtpPacket_new 0 (set_hdr_sequence q (replicate 12 0)) None 12 0 0 12"
  have v: "\<forall>q \<in> {10, 14, 12}. case_sum (\<lambda>_. False) (\<lambda>p. GetSeq p = q) (?pk q)"
    by code_simp
  then obtain a b c where p: "GetSeq a = 10" "GetSeq b = 14" "GetSeq c = 12"
    by (auto split: sum.splits)
  have "IsInNackList k (fold UpdateNackList [b, c] (UpdateNackList a NackGenerator_new)) \<longleftrightarrow>
    10 < unat k \<and> unat k < 14 \<and> unat k \<noteq> 12" for k
    using nack_list_exact [of a 10 "[b, c]" "[14, 12]" 0 k] by (auto simp: p)
  then have "IsInNackList 11 (fold UpdateNackList [b, c] (UpdateNackList a NackGenerator_new))"
    "\<not> IsInNackList 12 (fold UpdateNackList [b, c] (UpdateNackList a NackGenerator_new))"
    by simp_all
  with p show ?thesis by blast
qed

text \<open>
  A gap that crosses the wrap of the 16 bit sequence number is not requested: the insertion loop
  compares 16 bit values, so when the new number is ahead of the last one in serial order but
  numerically smaller, and the last number received was not 65535 itself, no number in between enters
  the list, however many packets were lost.
\<close>

theorem nack_wrap_gap_ignored:
  assumes "ng_init_flag g" and "SeqLowerThan (ng_last_seq g) q" and "q < ng_last_seq g"
    and "ng_last_seq g \<noteq> 65535"
  shows "update_nack_list q g = g\<lparr>ng_last_seq := q\<rparr>"
proof -
  have "unat (ng_last_seq g) \<noteq> 65535" using assms(4) by (auto simp: word_unat_eq_iff)
  then have "unat (ng_last_seq g + 1) = unat (ng_last_seq g) + 1"
    using unat_word_ariths(1) [of "ng_last_seq g" 1] unat_lt16 [of "ng_last_seq g"] by simp
  then have "\<not> ng_last_seq g + 1 < q" using assms(3) by (simp add: word_less_nat_alt)
  moreover have "\<not> SeqLowerThan q (ng_last_seq g)" using seq_lt.asym assms(2) by blast
  ultimately show ?thesis
    using assms by (auto simp: update_nack_list_def word_less_nat_alt nack_add_range.simps)
qed

theorem nack_wrap_gap_ignored_witness:
  "update_nack_list 40 (update_nack_list 65500 NackGenerator_new) =
     (update_nack_list 65500 NackGenerator_new)\<lparr>ng_last_seq := 40\<rparr>"
  by (rule nack_wrap_gap_ignored)
    (simp_all add: update_nack_list_def NackGenerator_new_def SeqLowerThan_unat)

subsection \<open>Retries\<close>














end
