(* ===== verification/Rtcp_Reports.thy ===== *)
theory Rtcp_Reports
  imports Rtp_Pub
begin

unbundle bit_operations_syntax

text \<open>
  Sender and receiver reports: \<open>RtcpSrPacket\<close> of \<open>net/rtprtcp/rtcp_sr.hpp\<close>, \<open>RtcpRrBlockInfo\<close> and
  \<open>RtcpRrPacket\<close> of \<open>rtcp_rr.hpp\<close>. Both classes keep a 1500 byte array; a fresh object whose array is not
  cleared by its constructor takes the previous contents of the memory as an argument.
\<close>

section \<open>Sender report\<close>

record rtcp_sr =
  sr_data :: bytes
  sr_sender_ssrc :: u32

definition RtcpSrPacket_new :: rtcp_sr where
  "RtcpSrPacket_new =
     \<lparr>sr_data = set_fld4 4 1 (poke (replicate 1500 0) 0 (rtcp_header 2 0 0 (rtcp_type_code RTCP_SR) (of_nat (24 div 4)))),
      sr_sender_ssrc = 1\<rparr>"

definition RtcpSrPacket_of :: "bytes \<Rightarrow> bytes \<Rightarrow> rtcp_sr res" where
  \<comment> \<open>the constructor from a received header\<close>
  "RtcpSrPacket_of mem data =
     rbind (rd data 0 28) (\<lambda>v. rbind (wr mem 0 v) (\<lambda>d.
       Inr \<lparr>sr_data = d, sr_sender_ssrc = fld4 4 d\<rparr>))"

definition Sr_SetSsrc :: "u32 \<Rightarrow> rtcp_sr \<Rightarrow> rtcp_sr" where
  "Sr_SetSsrc ssrc p = p\<lparr>sr_sender_ssrc := ssrc, sr_data := set_fld4 4 ssrc (sr_data p)\<rparr>"

definition Sr_GetSsrc :: "rtcp_sr \<Rightarrow> u32" where
  "Sr_GetSsrc p = sr_sender_ssrc p"

definition Sr_SetNtp :: "u32 \<Rightarrow> u32 \<Rightarrow> rtcp_sr \<Rightarrow> rtcp_sr" where
  "Sr_SetNtp sec frac p = p\<lparr>sr_data := set_fld4 12 frac (set_fld4 8 sec (sr_data p))\<rparr>"

definition Sr_GetNtpSec :: "rtcp_sr \<Rightarrow> u32" where
  "Sr_GetNtpSec p = fld4 8 (sr_data p)"

definition Sr_GetNtpFrac :: "rtcp_sr \<Rightarrow> u32" where
  "Sr_GetNtpFrac p = fld4 12 (sr_data p)"

definition Sr_SetRtpTimestamp :: "u32 \<Rightarrow> rtcp_sr \<Rightarrow> rtcp_sr" where
  "Sr_SetRtpTimestamp ts p = p\<lparr>sr_data := set_fld4 16 ts (sr_data p)\<rparr>"

definition Sr_GetRtpTimestamp :: "rtcp_sr \<Rightarrow> u32" where
  "Sr_GetRtpTimestamp p = fld4 16 (sr_data p)"

definition Sr_SetPktCount :: "u32 \<Rightarrow> rtcp_sr \<Rightarrow> rtcp_sr" where
  "Sr_SetPktCount n p = p\<lparr>sr_data := set_fld4 20 n (sr_data p)\<rparr>"

definition Sr_GetPktCount :: "rtcp_sr \<Rightarrow> u32" where
  "Sr_GetPktCount p = fld4 20 (sr_data p)"

definition Sr_SetBytesCount :: "u32 \<Rightarrow> rtcp_sr \<Rightarrow> rtcp_sr" where
  "Sr_SetBytesCount n p = p\<lparr>sr_data := set_fld4 24 n (sr_data p)\<rparr>"

definition Sr_GetBytesCount :: "rtcp_sr \<Rightarrow> u32" where
  "Sr_GetBytesCount p = fld4 24 (sr_data p)"

definition Sr_Parse :: "bytes \<Rightarrow> bytes \<Rightarrow> nat \<Rightarrow> rtcp_sr res" where
  "Sr_Parse mem data len = (if len \<noteq> 28 then Inl Throw else RtcpSrPacket_of mem data)"

definition Sr_Serial :: "rtcp_sr \<Rightarrow> bytes" where
  "Sr_Serial p = take 28 (sr_data p)"

definition sr_build :: "u32 \<Rightarrow> u32 \<Rightarrow> u32 \<Rightarrow> u32 \<Rightarrow> u32 \<Rightarrow> u32 \<Rightarrow> rtcp_sr" where
  \<comment> \<open>how the send session fills a new report\<close>
  "sr_build ssrc sec frac ts pkts bytes =
     Sr_SetBytesCount bytes (Sr_SetPktCount pkts (Sr_SetRtpTimestamp ts
       (Sr_SetNtp sec frac (Sr_SetSsrc ssrc RtcpSrPacket_new))))"

section \<open>Receiver report\<close>

text \<open>A report block is its 24 bytes; \<open>RtcpRrBlockInfo\<close> points to one, either on the heap or inside
  the packet.\<close>

definition Rr_GetReporteeSsrc :: "bytes \<Rightarrow> u32" where
  "Rr_GetReporteeSsrc b = fld4 0 b"

definition Rr_SetReporteeSsrc :: "u32 \<Rightarrow> bytes \<Rightarrow> bytes" where
  "Rr_SetReporteeSsrc v b = set_fld4 0 v b"

definition Rr_GetHighestSeq :: "bytes \<Rightarrow> u32" where
  "Rr_GetHighestSeq b = fld4 8 b"

definition Rr_SetHighestSeq :: "u32 \<Rightarrow> bytes \<Rightarrow> bytes" where
  "Rr_SetHighestSeq v b = set_fld4 8 v b"

definition Rr_GetFracLost :: "bytes \<Rightarrow> u8" where
  "Rr_GetFracLost b = b ! 4"

definition Rr_SetFracLost :: "u8 \<Rightarrow> bytes \<Rightarrow> bytes" where
  "Rr_SetFracLost v b = poke b 4 [v]"

definition Rr_GetCumulativeLost :: "bytes \<Rightarrow> u32" where
  "Rr_GetCumulativeLost b = of_be (take 3 (drop 5 b))"

definition Rr_SetCumulativeLost :: "u32 \<Rightarrow> bytes \<Rightarrow> bytes" where
  "Rr_SetCumulativeLost v b = poke b 5 (be 3 v)"

definition Rr_GetJitter :: "bytes \<Rightarrow> u32" where
  "Rr_GetJitter b = fld4 12 b"

definition Rr_SetJitter :: "u32 \<Rightarrow> bytes \<Rightarrow> bytes" where
  "Rr_SetJitter v b = set_fld4 12 v b"

definition Rr_GetLsr :: "bytes \<Rightarrow> u32" where
  "Rr_GetLsr b = fld4 16 b"

definition Rr_SetLsr :: "u32 \<Rightarrow> bytes \<Rightarrow> bytes" where
  "Rr_SetLsr v b = set_fld4 16 v b"

definition Rr_GetDlsr :: "bytes \<Rightarrow> u32" where
  "Rr_GetDlsr b = fld4 20 b"

definition Rr_SetDlsr :: "u32 \<Rightarrow> bytes \<Rightarrow> bytes" where
  "Rr_SetDlsr v b = set_fld4 20 v b"

definition rr_block_fill :: "bytes \<Rightarrow> u32 \<Rightarrow> u32 \<Rightarrow> u8 \<Rightarrow> u32 \<Rightarrow> u32 \<Rightarrow> u32 \<Rightarrow> u32 \<Rightarrow> bytes" where
  \<comment> \<open>how the receive session fills a report block; \<open>mem\<close> is the block as \<open>malloc\<close> returned it\<close>
  "rr_block_fill mem ssrc lost frac highest_seq jit lsr dlsr =
     Rr_SetDlsr dlsr (Rr_SetLsr lsr (Rr_SetJitter jit (Rr_SetHighestSeq highest_seq
       (Rr_SetFracLost frac (Rr_SetCumulativeLost lost (Rr_SetReporteeSsrc ssrc mem))))))"

record rtcp_rr =
  rr_data :: bytes
  rr_blocks :: "nat list"   \<comment> \<open>offsets of the blocks in \<open>rr_data\<close>\<close>
  rr_len :: nat

definition RtcpRrPacket_new :: "bytes \<Rightarrow> nat \<Rightarrow> rtcp_rr res" where
  "RtcpRrPacket_new header len =
     rbind (rd header 0 len) (\<lambda>v. rbind (wr (replicate 1500 0) 0 v) (\<lambda>d.
       Inr \<lparr>rr_data = d, rr_blocks = [], rr_len = len\<rparr>))"

function rr_block_offsets :: "nat \<Rightarrow> nat \<Rightarrow> nat list" where
  \<comment> \<open>\<open>while ((uint8_t*)block < pkt->data + len)\<close>\<close>
  "rr_block_offsets off len = (if off < len then off # rr_block_offsets (off + 24) len else [])"
  by pat_completeness auto
termination by (relation "measure (\<lambda>(off, len). len - off)") auto

declare rr_block_offsets.simps [simp del]

definition Rr_Parse :: "bytes \<Rightarrow> nat \<Rightarrow> rtcp_rr res" where
  "Rr_Parse data len =
     (if len < 8 then Inl Throw
      else rbind (RtcpRrPacket_new data len) (\<lambda>pkt.
        if GetRtcpLength data \<le> 8 then Inr pkt
        else Inr (pkt\<lparr>rr_blocks := rr_block_offsets 8 len\<rparr>)))"

definition AddRrBlock :: "bytes \<Rightarrow> rtcp_rr \<Rightarrow> rtcp_rr res" where
  \<comment> \<open>\<open>block\<close> are the 24 bytes of the block added\<close>
  "AddRrBlock block p =
     (if rr_blocks p = [] then
        rbind (wr (rr_data p) 8 block) (\<lambda>d. Inr \<lparr>rr_data = d, rr_blocks = [8], rr_len = 32\<rparr>)
      else let off = last (rr_blocks p) + 24 in
        rbind (wr (rr_data p) off block) (\<lambda>d.
          Inr \<lparr>rr_data = d, rr_blocks = rr_blocks p @ [off], rr_len = rr_len p + 24\<rparr>))"

fun rr_copy_blocks :: "nat \<Rightarrow> nat list \<Rightarrow> bytes \<Rightarrow> bytes res" where
  \<comment> \<open>the loop that stores the blocks one behind the other\<close>
  "rr_copy_blocks dst [] d = Inr d"
| "rr_copy_blocks dst (off # offs) d =
     rbind (rd d off 24) (\<lambda>v. rbind (wr d dst v) (\<lambda>d'. rr_copy_blocks (dst + 24) offs d'))"

definition Rr_GetData :: "rtcp_rr \<Rightarrow> (bytes option \<times> rtcp_rr) res" where
  \<comment> \<open>the bytes returned, \<open>None\<close> for the null pointer with length 0; \<open>*ssrc_p = 1\<close> stores the host's
    representation of 1. The blocks lie where they are copied to, so that every \<open>memcpy\<close> is from a range to
    itself; the model takes that to leave the bytes alone\<close>
  "Rr_GetData p =
     (if rr_blocks p = [] then Inr (None, p)
      else let data_len = 8 + 24 * length (rr_blocks p);
        hdr = rtcp_header 2 0 (of_nat (length (rr_blocks p))) (rtcp_type_code RTCP_RR)
                (of_nat (data_len mod 65536 div 4 - 1));
        d1 = poke (poke (rr_data p) 0 hdr) 4 [1, 0, 0, 0]
      in rbind (rr_copy_blocks 8 (rr_blocks p) d1) (\<lambda>d2.
        rbind (rd d2 0 data_len) (\<lambda>out. Inr (Some out, p\<lparr>rr_data := d2\<rparr>))))"

definition GetRrBlocks :: "rtcp_rr \<Rightarrow> bytes list res" where
  "GetRrBlocks p = (if \<forall>off \<in> set (rr_blocks p). off + 24 \<le> length (rr_data p)
     then Inr (map (\<lambda>off. take 24 (drop off (rr_data p))) (rr_blocks p)) else Inl OutOfBounds)"

definition GetReporterSsrc :: "rtcp_rr \<Rightarrow> u32" where
  "GetReporterSsrc p = fld4 4 (rr_data p)"

section \<open>Sender report properties\<close>

lemmas sr_defs = Sr_SetSsrc_def Sr_GetSsrc_def Sr_SetNtp_def Sr_GetNtpSec_def Sr_GetNtpFrac_def
  Sr_SetRtpTimestamp_def Sr_GetRtpTimestamp_def Sr_SetPktCount_def Sr_GetPktCount_def
  Sr_SetBytesCount_def Sr_GetBytesCount_def sr_build_def

lemma length_rtcp_header [simp]: "length (rtcp_header v p c t l) = 4"
  by (simp add: rtcp_header_def)

lemma rtcp_header_fields:
  assumes "4 \<le> length b" and "take 4 b = rtcp_header 2 0 c t l" 
  shows "rtcp_version b = 2" "rtcp_padding b = 0" "rtcp_count b = take_bit 5 c" "rtcp_packet_type b = t"
    "rtcp_length b = l"
proof -
  let ?x = "set_bits 6 2 2 (set_bits 5 1 0 (set_bits 0 5 c 0)) :: u8"
  have b: "take 4 b = ?x # t # be 2 l" by (simp add: assms(2) rtcp_header_def)
  have "b ! 0 = take 4 b ! 0" "b ! 1 = take 4 b ! 1" by simp_all
  then have "b ! 0 = ?x" "b ! 1 = t" unfolding b by simp_all
  moreover have "take 2 (drop 2 b) = be 2 l"
  proof -
    have "take 2 (drop 2 b) = drop 2 (take 4 b)" by (simp add: drop_take)
    then show ?thesis by (simp add: b)
  qed
  ultimately show "rtcp_version b = 2" "rtcp_padding b = 0" "rtcp_count b = take_bit 5 c" "rtcp_packet_type b = t"
    "rtcp_length b = l"
    by (simp_all add: rtcp_version_def rtcp_padding_def rtcp_count_def rtcp_packet_type_def rtcp_length_def)
qed

lemma Sr_Parse_eq:
  assumes "28 \<le> length mem" and "length data = 28"
  shows "Sr_Parse mem data 28 = Inr \<lparr>sr_data = poke mem 0 data, sr_sender_ssrc = fld4 4 data\<rparr>"
proof -
  have "fld4 4 (poke mem 0 data) = fld4 4 data"
    using assms by (simp add: fld4_def poke_def)
  then show ?thesis using assms by (simp add: Sr_Parse_def RtcpSrPacket_of_def)
qed

lemma take_set_fld4_below: "n \<le> i \<Longrightarrow> i + 4 \<le> length b \<Longrightarrow> take n (set_fld4 i v b) = take n b"
  by (simp add: set_fld4_def)

lemma sr_build_wire:
  assumes "28 \<le> length mem" and "out = Sr_Serial (sr_build ssrc sec frac ts pkts bytes)"
  shows "length out = 28 \<and> rtcp_version out = 2 \<and> rtcp_count out = 0 \<and> rtcp_packet_type out = 200 \<and>
    GetRtcpLength out = 28 \<and>
    (\<exists>p. Sr_Parse mem out 28 = Inr p \<and> Sr_GetSsrc p = ssrc \<and> Sr_GetNtpSec p = sec \<and> Sr_GetNtpFrac p = frac \<and>
      Sr_GetRtpTimestamp p = ts \<and> Sr_GetPktCount p = pkts \<and> Sr_GetBytesCount p = bytes)"
proof -
  define d where "d = sr_data (sr_build ssrc sec frac ts pkts bytes)"
  have len: "length d = 1500" by (simp add: d_def sr_defs RtcpSrPacket_new_def)
  have out: "out = take 28 d" "length out = 28" using len by (simp_all add: assms(2) Sr_Serial_def d_def [symmetric])
  have f: "fld4 4 d = ssrc" "fld4 8 d = sec" "fld4 12 d = frac" "fld4 16 d = ts" "fld4 20 d = pkts" "fld4 24 d = bytes"
    by (simp_all add: d_def sr_defs RtcpSrPacket_new_def)
  have "take 4 out = rtcp_header 2 0 0 200 6"
    by (simp add: out d_def sr_defs RtcpSrPacket_new_def take_set_fld4_below) (simp add: poke_def)
  note h = rtcp_header_fields [OF _ this]
  have "fld4 i (poke mem 0 out) = fld4 i d" if "i + 4 \<le> 28" for i
    using that assms(1) out by (simp add: fld4_def poke_def drop_take take_add)
  then show ?thesis
    using h out Sr_Parse_eq [OF assms(1) out(2)] f
    by (simp add: sr_defs GetRtcpLength_def fld_prefix)
qed

lemma Sr_built_parses:
  assumes "28 \<le> length mem" and "d = Sr_Serial (sr_build ssrc sec frac ts pkts bytes)"
  shows "\<exists>p. Sr_Parse mem d (length d) = Inr p \<and> Sr_GetSsrc p = ssrc \<and> Sr_GetPktCount p = pkts \<and>
    Sr_GetBytesCount p = bytes \<and> Sr_GetRtpTimestamp p = ts \<and> Sr_GetNtpSec p = sec \<and> Sr_GetNtpFrac p = frac"
  using sr_build_wire [OF assms] by auto

text \<open>
  A sender report built by the setters and serialised parses back to the same ssrc, NTP time, RTP time
  stamp, packet and byte counts, whatever the memory of the new object held before; the bytes on the
  wire are a version 2 report of type 200 without report blocks whose length field covers
  exactly the 28 bytes sent.
\<close>

theorem sr_roundtrip:
  assumes "28 \<le> length mem" and "out = Sr_Serial (sr_build ssrc sec frac ts pkts bytes)"
  shows "length out = 28 \<and> rtcp_version out = 2 \<and> rtcp_count out = 0 \<and> rtcp_packet_type out = 200 \<and>
    GetRtcpLength out = 28 \<and>
    (\<exists>p. Sr_Parse mem out 28 = Inr p \<and> Sr_GetSsrc p = ssrc \<and> Sr_GetNtpSec p = sec \<and> Sr_GetNtpFrac p = frac \<and>
      Sr_GetRtpTimestamp p = ts \<and> Sr_GetPktCount p = pkts \<and> Sr_GetBytesCount p = bytes)"
  by (rule sr_build_wire [OF assms])

theorem sr_roundtrip_witness:
  "\<exists>p. Sr_Parse (replicate 1500 0xAA) (Sr_Serial (sr_build 77 1 2 3 4 5)) 28 = Inr p \<and>
     Sr_GetSsrc p = 77 \<and> Sr_GetNtpSec p = 1 \<and> Sr_GetBytesCount p = 5"
  using sr_roundtrip [of "replicate 1500 0xAA" "Sr_Serial (sr_build 77 1 2 3 4 5)"] by fastforce

section \<open>Receiver report properties\<close>

lemmas rr_block_defs = Rr_GetReporteeSsrc_def Rr_SetReporteeSsrc_def Rr_GetHighestSeq_def Rr_SetHighestSeq_def
  Rr_GetFracLost_def Rr_SetFracLost_def Rr_GetCumulativeLost_def Rr_SetCumulativeLost_def
  Rr_GetJitter_def Rr_SetJitter_def Rr_GetLsr_def Rr_SetLsr_def Rr_GetDlsr_def Rr_SetDlsr_def

lemma rr_block_fill_fields:
  assumes "length mem = 24" and b_def: "b = rr_block_fill mem ssrc lost frac highest_seq jit lsr dlsr"
  shows "length b = 24" "Rr_GetReporteeSsrc b = ssrc" "Rr_GetCumulativeLost b = take_bit 24 lost"
    "Rr_GetFracLost b = frac" "Rr_GetHighestSeq b = highest_seq" "Rr_GetJitter b = jit"
    "Rr_GetLsr b = lsr" "Rr_GetDlsr b = dlsr"
proof -
  have pre: "take 3 (drop 5 (set_fld4 i v d)) = take 3 (drop 5 d)" if "8 \<le> i" "i + 4 \<le> length d" for i v and d :: bytes
    using that by (simp add: set_fld4_def take_drop_poke_other)
  have f4: "fld4 j (poke d i [x]) = fld4 j d" if "i + 1 \<le> length d" "j + 4 \<le> i \<or> i + 1 \<le> j" for i j x and d :: bytes
    using that by simp
  note c = take_drop_poke_same [of 5 "be 3 lost" "set_fld4 0 ssrc mem"]
  show "length b = 24" "Rr_GetReporteeSsrc b = ssrc" "Rr_GetFracLost b = frac" "Rr_GetHighestSeq b = highest_seq"
    "Rr_GetJitter b = jit" "Rr_GetLsr b = lsr" "Rr_GetDlsr b = dlsr"
    using assms(1) by (simp_all add: b_def rr_block_fill_def rr_block_defs f4)
  show "Rr_GetCumulativeLost b = take_bit 24 lost"
    using assms(1) c by (simp add: b_def rr_block_fill_def rr_block_defs pre take_drop_poke_other of_be_be)
qed

definition rr_ok :: "rtcp_rr \<Rightarrow> bool" where
  \<comment> \<open>the blocks lie one behind the other inside the array\<close>
  "rr_ok p \<longleftrightarrow> length (rr_data p) = 1500 \<and>
     rr_blocks p = map (\<lambda>k. 8 + 24 * k) [0..<length (rr_blocks p)] \<and> 8 + 24 * length (rr_blocks p) \<le> 1500"

definition rr_contents :: "rtcp_rr \<Rightarrow> bytes list" where
  "rr_contents p = map (\<lambda>off. take 24 (drop off (rr_data p))) (rr_blocks p)"

lemma GetRrBlocks_eq: "rr_ok p \<Longrightarrow> GetRrBlocks p = Inr (rr_contents p)"
proof -
  assume ok: "rr_ok p"
  have "off + 24 \<le> 1500" if "off \<in> set (rr_blocks p)" for off
  proof -
    from ok that have "off \<in> set (map (\<lambda>k. 8 + 24 * k) [0..<length (rr_blocks p)])"
      by (metis rr_ok_def)
    then obtain k where "k < length (rr_blocks p)" "off = 8 + 24 * k" by auto
    then show ?thesis using ok by (simp add: rr_ok_def)
  qed
  then show ?thesis using ok by (simp add: GetRrBlocks_def rr_contents_def rr_ok_def)
qed

lemma rr_poke_tail:
  assumes "rr_ok p" and "i + length v \<le> 1500" and "i + length v \<le> 8 \<or> 8 + 24 * length (rr_blocks p) \<le> i"
  shows "map (\<lambda>off. take 24 (drop off (poke (rr_data p) i v))) (rr_blocks p) = rr_contents p"
  unfolding rr_contents_def
proof (rule map_cong [OF refl])
  fix off assume "off \<in> set (rr_blocks p)"
  then have "off \<in> set (map (\<lambda>k. 8 + 24 * k) [0..<length (rr_blocks p)])" using assms(1) by (metis rr_ok_def)
  then obtain k where k: "k < length (rr_blocks p)" "off = 8 + 24 * k" by auto
  then have "24 * Suc k \<le> 24 * length (rr_blocks p)" by (intro mult_le_mono) simp_all
  then show "take 24 (drop off (poke (rr_data p) i v)) = take 24 (drop off (rr_data p))"
    using assms k by (intro take_drop_poke_other) (auto simp: rr_ok_def)
qed

lemma AddRrBlock_ok:
  assumes "rr_ok p" and "length block = 24" and "length (rr_blocks p) < 62"
  shows "\<exists>p'. AddRrBlock block p = Inr p' \<and> rr_ok p' \<and> rr_contents p' = rr_contents p @ [block] \<and>
    (rr_blocks p = [] \<or> rr_len p = 8 + 24 * length (rr_blocks p) \<longrightarrow> rr_len p' = 8 + 24 * length (rr_blocks p'))"
proof -
  let ?n = "length (rr_blocks p)"
  define off where "off = 8 + 24 * ?n"
  let ?p' = "\<lparr>rr_data = poke (rr_data p) off block, rr_blocks = rr_blocks p @ [off],
    rr_len = (if rr_blocks p = [] then 32 else rr_len p + 24)\<rparr>"
  have len: "length (rr_data p) = 1500" "off + 24 \<le> 1500" using assms by (simp_all add: rr_ok_def off_def)
  have blocks: "rr_blocks p = map (\<lambda>k. 8 + 24 * k) [0..<?n]" using assms(1) by (simp only: rr_ok_def)
  have last: "last (rr_blocks p) + 24 = off" if "rr_blocks p \<noteq> []"
  proof -
    have "last (map (\<lambda>k. 8 + 24 * k) [0..<?n]) = 8 + 24 * (?n - 1)" using that by (simp add: last_map)
    then show ?thesis unfolding blocks [symmetric] off_def using that by (cases ?n) auto
  qed
  then have "AddRrBlock block p = Inr ?p'"
    using assms(2) len by (cases "rr_blocks p = []") (simp_all add: AddRrBlock_def Let_def last, simp add: off_def)
  moreover have "rr_ok ?p'"
    using assms len blocks by (simp add: rr_ok_def off_def)
  moreover have "rr_contents ?p' = rr_contents p @ [block]"
    using rr_poke_tail [OF assms(1), of off block] len assms(2) take_drop_poke_same [of off block "rr_data p"]
    by (simp add: rr_contents_def off_def)
  ultimately show ?thesis by auto
qed

lemma rr_copy_self:
  "\<forall>k < n. dst + 24 * k + 24 \<le> length d \<Longrightarrow> rr_copy_blocks dst (map (\<lambda>k. dst + 24 * k) [0..<n]) d = Inr d"
proof (induction n arbitrary: dst)
  case (Suc n)
  have "map (\<lambda>k. dst + 24 * k) [0..<Suc n] = dst # map (\<lambda>k. dst + 24 + 24 * k) [0..<n]"
    by (simp add: map_upt_Suc del: upt_Suc)
  moreover have "rr_copy_blocks (dst + 24) (map (\<lambda>k. dst + 24 + 24 * k) [0..<n]) d = Inr d"
  proof (rule Suc.IH, intro allI impI)
    fix k assume "k < n"
    then have "Suc k < Suc n" by simp
    then have "dst + 24 * Suc k + 24 \<le> length d" using Suc.prems by blast
    then show "dst + 24 + 24 * k + 24 \<le> length d" by simp
  qed
  moreover have "dst + 24 \<le> length d" using Suc.prems by force
  ultimately show ?case by (simp add: poke_self)
qed simp

lemma rr_block_offsets_exact: "rr_block_offsets dst (dst + 24 * n) = map (\<lambda>k. dst + 24 * k) [0..<n]"
proof (induction n arbitrary: dst)
  case 0
  then show ?case by (simp add: rr_block_offsets.simps)
next
  case (Suc n)
  have "rr_block_offsets dst (dst + 24 * Suc n) = dst # rr_block_offsets (dst + 24) (dst + 24 + 24 * n)"
    by (subst rr_block_offsets.simps) (simp add: add.assoc)
  then show ?case using Suc [of "dst + 24"] by (simp add: map_upt_Suc del: upt_Suc)
qed

fun rr_add_all :: "bytes list \<Rightarrow> rtcp_rr \<Rightarrow> rtcp_rr res" where
  \<comment> \<open>\<open>AddRrBlock\<close> for each block in turn\<close>
  "rr_add_all [] p = Inr p"
| "rr_add_all (b # bs) p = rbind (AddRrBlock b p) (rr_add_all bs)"

lemma length_rr_contents: "length (rr_contents p) = length (rr_blocks p)"
  by (simp add: rr_contents_def)

lemma rr_add_all_ok:
  assumes "rr_ok p" and "\<forall>b \<in> set bs. length b = 24" and "length (rr_blocks p) + length bs \<le> 62"
    and "rr_blocks p = [] \<or> rr_len p = 8 + 24 * length (rr_blocks p)"
  shows "\<exists>p'. rr_add_all bs p = Inr p' \<and> rr_ok p' \<and> rr_contents p' = rr_contents p @ bs \<and>
    (rr_blocks p' = [] \<or> rr_len p' = 8 + 24 * length (rr_blocks p'))"
  using assms
proof (induction bs arbitrary: p)
  case (Cons b bs)
  then obtain p1 where p1: "AddRrBlock b p = Inr p1" "rr_ok p1" "rr_contents p1 = rr_contents p @ [b]"
    "rr_len p1 = 8 + 24 * length (rr_blocks p1)"
    using AddRrBlock_ok [of p b] by auto
  have "length (rr_blocks p1) = Suc (length (rr_blocks p))"
    using arg_cong [OF p1(3), of length] by (simp add: length_rr_contents)
  then show ?case using Cons.IH [of p1] Cons.prems p1 by auto
qed simp

lemma Rr_GetData_ok:
  assumes "rr_ok p" and "rr_blocks p \<noteq> []"
  defines "n \<equiv> length (rr_blocks p)"
  defines "hdr \<equiv> rtcp_header 2 0 (of_nat n) 201 (of_nat (2 + 6 * n - 1))"
  shows "\<exists>p'. Rr_GetData p = Inr (Some (take (8 + 24 * n) (rr_data p')), p') \<and> rr_ok p' \<and>
    rr_contents p' = rr_contents p \<and> take 8 (rr_data p') = hdr @ [1, 0, 0, 0] \<and> rr_blocks p' = rr_blocks p"
proof -
  let ?d = "poke (poke (rr_data p) 0 hdr) 4 [1, 0, 0, 0]"
  have ok: "length (rr_data p) = 1500" "rr_blocks p = map (\<lambda>k. 8 + 24 * k) [0..<n]" "8 + 24 * n \<le> 1500"
    using assms(1) by (simp_all only: rr_ok_def n_def)
  have d: "length ?d = 1500" using ok(1) by (simp add: hdr_def)
  have fit: "\<forall>k < n. 8 + 24 * k + 24 \<le> length ?d"
  proof (intro allI impI)
    fix k assume "k < n"
    then have "24 * Suc k \<le> 24 * n" by (intro mult_le_mono) simp_all
    then show "8 + 24 * k + 24 \<le> length ?d" using ok(3) d by simp
  qed
  have copy: "rr_copy_blocks 8 (rr_blocks p) ?d = Inr ?d"
    using rr_copy_self [OF fit] ok(2) by simp
  have "(8 + 24 * n) mod 65536 div 4 - 1 = 2 + 6 * n - 1" using ok(3) by simp
  then have "Rr_GetData p = Inr (Some (take (8 + 24 * n) ?d), p\<lparr>rr_data := ?d\<rparr>)"
    using assms(2) copy d ok(3) unfolding Rr_GetData_def n_def [symmetric]
    by (simp add: Let_def hdr_def)
  moreover have "rr_ok (p\<lparr>rr_data := ?d\<rparr>)" using assms(1) d by (simp add: rr_ok_def)
  moreover have "rr_contents (p\<lparr>rr_data := ?d\<rparr>) = rr_contents p"
  proof -
    let ?q = "p\<lparr>rr_data := poke (rr_data p) 0 hdr\<rparr>"
    have q: "rr_ok ?q" using assms(1) by (simp add: rr_ok_def hdr_def)
    have "rr_contents (p\<lparr>rr_data := ?d\<rparr>) = rr_contents ?q"
      using rr_poke_tail [OF q, of 4 "[1, 0, 0, 0]"] by (simp add: rr_contents_def)
    also have "\<dots> = rr_contents p"
      using rr_poke_tail [OF assms(1), of 0 hdr] by (simp add: rr_contents_def hdr_def)
    finally show ?thesis .
  qed
  moreover have "take 8 ?d = hdr @ [1, 0, 0, 0]"
    by (simp add: poke_def hdr_def)
  ultimately show ?thesis by auto
qed

lemma unat_of_nat_16: "m < 65536 \<Longrightarrow> unat (of_nat m :: u16) = m"
  by (simp only: unat_of_nat) simp

lemma Rr_Parse_ok:
  assumes ok: "rr_ok p" and n: "length (rr_blocks p) = n" "0 < n"
    and t8: "take 8 (rr_data p) = rtcp_header 2 0 c t (of_nat (2 + 6 * n - 1)) @ ssrc" and "length ssrc = 4"
  defines "out \<equiv> take (8 + 24 * n) (rr_data p)"
  shows "length out = 8 + 24 * n" "take 4 out = rtcp_header 2 0 c t (of_nat (2 + 6 * n - 1))"
    "GetRtcpLength out = 8 + 24 * n"
    "\<exists>q. Rr_Parse out (8 + 24 * n) = Inr q \<and> GetRrBlocks q = Inr (rr_contents p) \<and> GetReporterSsrc q = of_be ssrc"
proof -
  have len: "length (rr_data p) = 1500" "8 + 24 * n \<le> 1500" and blocks: "rr_blocks p = map (\<lambda>k. 8 + 24 * k) [0..<n]"
    using ok n(1) by (simp_all add: rr_ok_def)
  show olen: "length out = 8 + 24 * n" using len by (simp add: out_def)
  have o8: "take 8 out = take 8 (rr_data p)" by (simp add: out_def)
  have "take 4 out = take 4 (take 8 out)" by simp
  then show h4: "take 4 out = rtcp_header 2 0 c t (of_nat (2 + 6 * n - 1))" unfolding o8 t8 by simp
  have "rtcp_length out = of_nat (2 + 6 * n - 1)" by (rule rtcp_header_fields(5) [OF _ h4]) (simp add: olen)
  then have "unat (rtcp_length out) = 2 + 6 * n - 1" using unat_of_nat_16 [of "2 + 6 * n - 1"] len by simp
  then show glen: "GetRtcpLength out = 8 + 24 * n" using n(2) by (simp add: GetRtcpLength_def)
  define q where "q = \<lparr>rr_data = poke (replicate 1500 0) 0 out, rr_blocks = rr_blocks p, rr_len = 8 + 24 * n\<rparr>"
  have "Rr_Parse out (8 + 24 * n) = Inr q"
    using olen len n glen rr_block_offsets_exact [of 8 n] blocks
    by (simp add: Rr_Parse_def RtcpRrPacket_new_def q_def)
  moreover have "rr_ok q" using ok n olen by (simp add: rr_ok_def q_def)
  moreover have "rr_contents q = rr_contents p"
    unfolding rr_contents_def q_def using olen len by (auto simp: blocks poke_def out_def drop_take min_def)
  moreover have "GetReporterSsrc q = of_be (take 4 (drop 4 (take 8 out)))"
    using olen n by (simp add: GetReporterSsrc_def q_def fld4_def poke_def drop_take)
  ultimately show "\<exists>q. Rr_Parse out (8 + 24 * n) = Inr q \<and> GetRrBlocks q = Inr (rr_contents p) \<and> GetReporterSsrc q = of_be ssrc"
    using GetRrBlocks_eq [of q] assms(5) by (simp add: o8 t8)
qed

lemma rr_wire:
  assumes "length hdr = 4" and "\<forall>b \<in> set bs. length b = 24" and "bs \<noteq> []" and "length bs \<le> 31"
  shows "\<exists>p0 p p' out q. RtcpRrPacket_new hdr 4 = Inr p0 \<and> rr_add_all bs p0 = Inr p \<and>
    Rr_GetData p = Inr (Some out, p') \<and> rr_len p = length out \<and>
    rtcp_version out = 2 \<and> unat (rtcp_count out) = length bs \<and> rtcp_packet_type out = 201 \<and>
    GetRtcpLength out = length out \<and>
    Rr_Parse out (length out) = Inr q \<and> GetRrBlocks q = Inr bs \<and> GetReporterSsrc q = 0x01000000"
proof -
  define p0 where "p0 = \<lparr>rr_data = poke (replicate 1500 0) 0 hdr, rr_blocks = [], rr_len = 4\<rparr>"
  have p0: "RtcpRrPacket_new hdr 4 = Inr p0" "rr_ok p0" "rr_contents p0 = []" "rr_blocks p0 = []"
    using assms(1) by (simp_all add: RtcpRrPacket_new_def p0_def rr_ok_def rr_contents_def)
  obtain p where p: "rr_add_all bs p0 = Inr p" "rr_ok p" "rr_contents p = bs"
    "rr_blocks p = [] \<or> rr_len p = 8 + 24 * length (rr_blocks p)"
    using rr_add_all_ok [of p0 bs] p0 assms by auto
  define n where "n = length bs"
  have n: "length (rr_blocks p) = n" "rr_blocks p \<noteq> []" "0 < n" "n \<le> 31"
    using p(3) length_rr_contents [of p] assms(3,4) by (auto simp: n_def)
  obtain p' where p': "Rr_GetData p = Inr (Some (take (8 + 24 * n) (rr_data p')), p')" "rr_ok p'"
    "rr_contents p' = bs" "take 8 (rr_data p') = rtcp_header 2 0 (of_nat n) 201 (of_nat (2 + 6 * n - 1)) @ [1, 0, 0, 0]"
    "rr_blocks p' = rr_blocks p"
    using Rr_GetData_ok [OF p(2) n(2)] by (auto simp: n p(3))
  define out where "out = take (8 + 24 * n) (rr_data p')"
  have "length (rr_blocks p') = n" using p'(5) n(1) by simp
  note P = Rr_Parse_ok [OF p'(2) this n(3) p'(4), folded out_def, simplified]
  note h = rtcp_header_fields [OF _ P(2)]
  have "of_be [1, 0, 0, 0 :: u8] = (0x01000000 :: u32)" by (simp add: of_be_def)
  with P(4) p'(3) obtain q where q: "Rr_Parse out (length out) = Inr q" "GetRrBlocks q = Inr bs"
    "GetReporterSsrc q = 0x01000000" by (auto simp: P(1))
  have cnt: "unat (rtcp_count out) = length bs"
    using h(3) P(1) n by (simp add: take_bit_eq_mod unat_of_nat unat_mod n_def)
  have hd: "rtcp_version out = 2" "rtcp_packet_type out = 201" "GetRtcpLength out = length out" "rr_len p = length out"
    using h(1,4) P(1,3) p(4) n by simp_all
  have gd: "Rr_GetData p = Inr (Some out, p')" using p'(1) by (simp add: out_def)
  show ?thesis
    by (rule exI [of _ p0], rule exI [of _ p], rule exI [of _ p'], rule exI [of _ out], rule exI [of _ q])
      (simp only: p0(1) p(1) gd cnt hd q simp_thms)
qed

lemma Rr_GetData_len: "Rr_GetData p = Inr (out, p') \<Longrightarrow> rr_len p' = rr_len p"
  by (auto simp: Rr_GetData_def Let_def split: if_splits)

lemma rr_wire_single:
  assumes "length hdr = 4" and "length b = 24"
  shows "\<exists>p0 p p' out q. RtcpRrPacket_new hdr 4 = Inr p0 \<and> AddRrBlock b p0 = Inr p \<and>
    Rr_GetData p = Inr (Some out, p') \<and> rr_len p' = length out \<and>
    Rr_Parse out (length out) = Inr q \<and> GetRrBlocks q = Inr [b] \<and>
    rtcp_version out = 2 \<and> rtcp_packet_type out = 201 \<and> GetRtcpLength out = length out"
proof -
  from rr_wire [of hdr "[b]"] assms obtain p0 p p' out q where
    r: "RtcpRrPacket_new hdr 4 = Inr p0" "rr_add_all [b] p0 = Inr p" "Rr_GetData p = Inr (Some out, p')" "rr_len p = length out"
      "Rr_Parse out (length out) = Inr q" "GetRrBlocks q = Inr [b]"
      "rtcp_version out = 2" "rtcp_packet_type out = 201" "GetRtcpLength out = length out"
    by auto
  have "AddRrBlock b p0 = Inr p" using r(2) by (cases "AddRrBlock b p0") simp_all
  with r Rr_GetData_len [OF r(3)] show ?thesis by metis
qed

text \<open>
  C37. Receiver reports round trip: any one to 31 report blocks added to a new packet are serialised into a version
  2 packet of type 201 whose count and length fields describe exactly the bytes sent (so the
  assertion in \<open>SendRtcpRR\<close> holds), and parsing these bytes yields the same blocks. The reporter ssrc
  reads back as \<open>0x01000000\<close>, because the constant 1 is stored without \<open>htonl\<close>.
\<close>

theorem rr_roundtrip:
  assumes "length hdr = 4" and "\<forall>b \<in> set bs. length b = 24" and "bs \<noteq> []" and "length bs \<le> 31"
  shows "\<exists>p0 p p' out q. RtcpRrPacket_new hdr 4 = Inr p0 \<and> rr_add_all bs p0 = Inr p \<and>
    Rr_GetData p = Inr (Some out, p') \<and> rr_len p = length out \<and>
    rtcp_version out = 2 \<and> unat (rtcp_count out) = length bs \<and> rtcp_packet_type out = 201 \<and>
    GetRtcpLength out = length out \<and>
    Rr_Parse out (length out) = Inr q \<and> GetRrBlocks q = Inr bs \<and> GetReporterSsrc q = 0x01000000"
  using rr_wire [OF assms] .

theorem rr_roundtrip_witness:
  "\<exists>p0 p p' out q. RtcpRrPacket_new [0, 0, 0, 0] 4 = Inr p0 \<and> rr_add_all [replicate 24 7, replicate 24 9] p0 = Inr p \<and>
    Rr_GetData p = Inr (Some out, p') \<and> Rr_Parse out (length out) = Inr q \<and>
    GetRrBlocks q = Inr [replicate 24 7, replicate 24 9]"
proof -
  have "\<forall>b \<in> set [replicate 24 7, replicate 24 (9 :: u8)]. length b = 24" by simp
  from rr_roundtrip [of "[0, 0, 0, 0]", OF _ this] show ?thesis by fastforce
qed

end
