(* ===== verification/Rtcp_Feedback.thy ===== *)
theory Rtcp_Feedback
  imports Rtcp_Reports
begin

unbundle bit_operations_syntax

text \<open>
  Feedback messages: \<open>RtcpFbNack\<close> of \<open>net/rtprtcp/rtcpfb_nack.hpp\<close> (generic NACK) and \<open>RtcpPsPli\<close> of
  \<open>rtcp_pspli.hpp\<close> (picture loss). The NACK object's array is not cleared, so its constructor takes the
  memory it is built in.
\<close>

section \<open>Generic NACK\<close>

record fb_nack =
  fn_data :: bytes
  fn_len :: nat
  fn_blocks :: "nat list"   \<comment> \<open>offsets of the blocks in \<open>fn_data\<close>\<close>

definition RtcpFbNack_new :: "bytes \<Rightarrow> u32 \<Rightarrow> u32 \<Rightarrow> fb_nack" where
  "RtcpFbNack_new mem sender_ssrc media_ssrc =
     \<lparr>fn_data = set_fld4 8 media_ssrc (set_fld4 4 sender_ssrc
        (poke mem 0 (rtcp_header 2 0 FB_RTP_NACK (rtcp_type_code RTCP_RTPFB) (of_nat (12 div 4 - 1))))),
      fn_len = 12, fn_blocks = []\<rparr>"

function nack_block_offsets :: "nat \<Rightarrow> nat \<Rightarrow> nat list" where
  \<comment> \<open>\<open>while ((size_t)(p - this->data) < this->data_len)\<close>\<close>
  "nack_block_offsets off len = (if off < len then off # nack_block_offsets (off + 4) len else [])"
  by pat_completeness auto
termination by (relation "measure (\<lambda>(off, len). len - off)") auto

declare nack_block_offsets.simps [simp del]

definition Nack_UpdateData :: "bytes \<Rightarrow> nat \<Rightarrow> fb_nack \<Rightarrow> (bool \<times> fb_nack) res" where
  "Nack_UpdateData data len p =
     (if len \<le> 12 then Inr (False, p)
      else rbind (rd data 0 len) (\<lambda>v. rbind (wr (fn_data p) 0 v) (\<lambda>d.
        Inr (True, \<lparr>fn_data = d, fn_len = len, fn_blocks = fn_blocks p @ nack_block_offsets 12 len\<rparr>))))"

definition Nack_Parse :: "bytes \<Rightarrow> bytes \<Rightarrow> nat \<Rightarrow> fb_nack option res" where
  "Nack_Parse mem data len =
     (if len \<le> 12 then Inr None
      else rbind (Nack_UpdateData data len (RtcpFbNack_new mem 0 0)) (\<lambda>(_, p). Inr (Some p)))"

fun nack_bitmap :: "u16 \<Rightarrow> u16 list \<Rightarrow> u16 \<Rightarrow> u16 res" where
  \<comment> \<open>\<open>bitmap |= 1 << (16 - (temp_seq - packet_id))\<close> in \<open>int\<close>: a negative amount is undefined\<close>
  "nack_bitmap packet_id [] bitmap = Inr bitmap"
| "nack_bitmap packet_id (temp_seq # rs) bitmap =
     (let sh = 16 - (int (unat temp_seq) - int (unat packet_id)) in
      if sh < 0 \<or> 30 < sh then Inl BadShift
      else nack_bitmap packet_id rs (bitmap OR ucast (push_bit (nat sh) (1 :: u32))))"

definition InsertBlock :: "u16 list \<Rightarrow> fb_nack \<Rightarrow> fb_nack res" where
  "InsertBlock report_seqs p =
     (case report_seqs of
        [] \<Rightarrow> Inl OutOfBounds
      | packet_id # rs \<Rightarrow>
          rbind (nack_bitmap packet_id rs 0) (\<lambda>bitmap.
          rbind (wr (fn_data p) (fn_len p) (be 2 packet_id @ be 2 bitmap)) (\<lambda>d.
            let len = fn_len p + 4 in
            Inr \<lparr>fn_data = set_rtcp_length (of_nat (len div 4 - 1)) d, fn_len = len,
                 fn_blocks = fn_blocks p @ [fn_len p]\<rparr>)))"

fun insert_seqs :: "u16 list \<Rightarrow> u16 list \<Rightarrow> fb_nack \<Rightarrow> fb_nack res" where
  \<comment> \<open>the loop of \<open>InsertSeqList\<close> with its local vector \<open>report_seqs\<close>\<close>
  "insert_seqs report_seqs [] p = (if report_seqs = [] then Inr p else InsertBlock report_seqs p)"
| "insert_seqs report_seqs (lost_seq # ls) p =
     (let rs = report_seqs @ [lost_seq] in
      if int (unat (last rs)) - int (unat (hd rs)) > 16
      then rbind (InsertBlock rs p) (insert_seqs [] ls)
      else insert_seqs rs ls p)"

definition InsertSeqList :: "u16 list \<Rightarrow> fb_nack \<Rightarrow> fb_nack res" where
  "InsertSeqList seq_vec p = insert_seqs [] seq_vec p"

lemma half_less: "(m :: u16) \<noteq> 0 \<Longrightarrow> unat (drop_bit 1 m) < unat m"
proof -
  assume "m \<noteq> 0"
  then have "0 < unat m" by (simp add: unat_gt_0)
  moreover have "unat (drop_bit 1 m) = unat m div 2" unfolding unat_drop_bit_eq by (simp add: drop_bit_eq_div)
  ultimately show ?thesis by simp
qed

function nack_bits :: "u16 \<Rightarrow> u16 \<Rightarrow> u16 list" where
  \<comment> \<open>the inner loop of \<open>GetLostSeqs\<close>\<close>
  "nack_bits seq bit_mask =
     (if bit_mask = 0 then []
      else (if bit_mask AND 1 \<noteq> 0 then [seq] else []) @ nack_bits (seq + 1) (drop_bit 1 bit_mask))"
  by pat_completeness auto
termination by (relation "measure (\<lambda>(s, m). unat m)") (auto simp: half_less [simplified])

declare nack_bits.simps [simp del]

fun nack_lost :: "bytes \<Rightarrow> nat list \<Rightarrow> u16 list res" where
  "nack_lost d [] = Inr []"
| "nack_lost d (off # offs) =
     rbind (rd d off 4) (\<lambda>v.
       let seq = fld2 0 v; bit_mask = fld2 2 v in
       rbind (nack_lost d offs) (\<lambda>l. Inr ((seq # nack_bits (seq + 1) bit_mask) @ l)))"

definition GetLostSeqs :: "fb_nack \<Rightarrow> u16 list res" where
  "GetLostSeqs p = nack_lost (fn_data p) (fn_blocks p)"

definition Nack_GetSenderSsrc :: "fb_nack \<Rightarrow> u32" where
  "Nack_GetSenderSsrc p = fld4 4 (fn_data p)"

definition Nack_GetMediaSsrc :: "fb_nack \<Rightarrow> u32" where
  "Nack_GetMediaSsrc p = fld4 8 (fn_data p)"

definition Nack_GetData :: "fb_nack \<Rightarrow> bytes" where
  \<comment> \<open>\<open>GetData()\<close> with \<open>GetLen()\<close>\<close>
  "Nack_GetData p = take (fn_len p) (fn_data p)"

definition Nack_GetPayloadLen :: "fb_nack \<Rightarrow> nat" where
  "Nack_GetPayloadLen p = unat (rtcp_length (fn_data p)) * 4"

section \<open>Picture loss indication\<close>

definition RtcpPsPli_new :: bytes where
  \<comment> \<open>the object is its 1500 byte array\<close>
  "RtcpPsPli_new = poke (replicate RTP_PACKET_MAX_SIZE 0) 0 (rtcp_header 2 0 FB_PS_PLI (rtcp_type_code RTCP_PSFB) 2)"

definition Pli_Parse :: "bytes \<Rightarrow> nat \<Rightarrow> bytes option res" where
  "Pli_Parse data len =
     (if len \<noteq> 12 then Inr None
      else rbind (rd data 0 len) (\<lambda>v. rbind (wr RtcpPsPli_new 0 v) (\<lambda>d. Inr (Some d))))"

definition Pli_SetSenderSsrc :: "u32 \<Rightarrow> bytes \<Rightarrow> bytes" where
  "Pli_SetSenderSsrc v p = set_fld4 4 v p"

definition Pli_SetMediaSsrc :: "u32 \<Rightarrow> bytes \<Rightarrow> bytes" where
  "Pli_SetMediaSsrc v p = set_fld4 8 v p"

definition Pli_GetSenderSsrc :: "bytes \<Rightarrow> u32" where
  "Pli_GetSenderSsrc p = fld4 4 p"

definition Pli_GetMediaSsrc :: "bytes \<Rightarrow> u32" where
  "Pli_GetMediaSsrc p = fld4 8 p"

definition Pli_GetData :: "bytes \<Rightarrow> bytes" where
  "Pli_GetData p = take 12 p"

section \<open>Decoding a NACK\<close>

definition rfc4585_lost :: "u16 \<times> u16 \<Rightarrow> u16 list" where
  \<comment> \<open>the meaning RFC 4585 gives to a packet id and its bitmask: bit \<open>i\<close> stands for the packet \<open>i + 1\<close> later\<close>
  "rfc4585_lost = (\<lambda>(pid, blp). pid # map (\<lambda>i. pid + 1 + of_nat i) (filter (bit blp) [0..<16]))"

lemma nack_bits_upto:
  "(\<And>i. n \<le> i \<Longrightarrow> \<not> bit m i) \<Longrightarrow> nack_bits s m = map (\<lambda>i. s + of_nat i) (filter (bit m) [0..<n])"
proof (induction n arbitrary: s m)
  case 0
  then have "m = 0" by (intro bit_word_eqI) auto
  then show ?case by (simp add: nack_bits.simps)
next
  case (Suc n)
  have ih: "nack_bits (s + 1) (drop_bit 1 m) = map (\<lambda>i. s + 1 + of_nat i) (filter (bit (drop_bit 1 m)) [0..<n])"
    by (rule Suc.IH) (use Suc.prems in \<open>auto simp: bit_drop_bit_eq\<close>)
  have "[0..<Suc n] = 0 # map Suc [0..<n]" by (simp add: map_Suc_upt upt_conv_Cons del: upt_Suc)
  moreover have "bit m 0 \<longleftrightarrow> m AND 1 \<noteq> 0" by (simp add: and_one_eq odd_iff_mod_2_eq_one bit_0)
  moreover have "nack_bits s m = (if m AND 1 \<noteq> 0 then [s] else []) @ nack_bits (s + 1) (drop_bit 1 m)"
    by (cases "m = 0") (simp_all add: nack_bits.simps [of s m] nack_bits.simps [of _ 0])
  ultimately show ?case
    unfolding ih by (simp add: filter_map o_def bit_drop_bit_eq add.assoc del: upt_Suc)
qed

lemma nack_bits_rfc: "pid # nack_bits (pid + 1) blp = rfc4585_lost (pid, blp)"
proof -
  have "\<not> bit blp i" if "16 \<le> i" for i using that bit_imp_le_length [of blp i] by auto
  from nack_bits_upto [OF this, of 16] show ?thesis by (simp add: rfc4585_lost_def)
qed

definition nack_wire :: "(u16 \<times> u16) list \<Rightarrow> bytes" where
  \<comment> \<open>the feedback control information of a NACK\<close>
  "nack_wire bl = concat (map (\<lambda>(pid, blp). be 2 pid @ be 2 blp) bl)"

lemma nack_wire_simps [simp]:
  "nack_wire [] = []" "nack_wire ((pid, blp) # bl) = be 2 pid @ be 2 blp @ nack_wire bl"
  "nack_wire (bl @ [(pid, blp)]) = nack_wire bl @ be 2 pid @ be 2 blp"
  by (simp_all add: nack_wire_def)

lemma length_nack_wire [simp]: "length (nack_wire bl) = 4 * length bl"
  by (induction bl) auto

lemma nack_lost_wire:
  "nack_lost (pre @ nack_wire bl @ post) (map (\<lambda>k. length pre + 4 * k) [0..<length bl])
     = Inr (concat (map rfc4585_lost bl))"
proof (induction bl arbitrary: pre)
  case (Cons e bl)
  obtain pid blp where e: "e = (pid, blp)" by (cases e)
  let ?d = "pre @ nack_wire (e # bl) @ post"
  have d: "?d = (pre @ be 2 pid @ be 2 blp) @ nack_wire bl @ post" by (simp add: e)
  have offs: "map (\<lambda>k. length pre + 4 * k) [0..<length (e # bl)]
      = length pre # map (\<lambda>k. length (pre @ be 2 pid @ be 2 blp) + 4 * k) [0..<length bl]"
    by (simp add: map_upt_Suc del: upt_Suc)
  have "rd ?d (length pre) 4 = Inr (be 2 pid @ be 2 blp)" by (simp add: e rd_def)
  moreover have "fld2 0 (be 2 pid @ be 2 blp) = pid" "fld2 2 (be 2 pid @ be 2 blp) = blp"
    by (simp_all add: fld2_def)
  ultimately show ?case
    unfolding offs using Cons.IH [of "pre @ be 2 pid @ be 2 blp"]
    by (simp add: d Let_def e nack_bits_rfc [symmetric] del: append_assoc) (simp add: e nack_bits_rfc [symmetric])
qed simp

lemma nack_block_offsets_exact: "nack_block_offsets off (off + 4 * n) = map (\<lambda>k. off + 4 * k) [0..<n]"
proof (induction n arbitrary: off)
  case 0
  then show ?case by (simp add: nack_block_offsets.simps)
next
  case (Suc n)
  have "nack_block_offsets off (off + 4 * Suc n) = off # nack_block_offsets (off + 4) (off + 4 + 4 * n)"
    by (subst nack_block_offsets.simps) (simp add: add.assoc)
  then show ?case using Suc [of "off + 4"] by (simp add: map_upt_Suc del: upt_Suc)
qed

text \<open>
  A received generic NACK that fits the object's 1500 bytes is decoded to exactly the sequence numbers
  RFC 4585 assigns to its blocks, in order: for each block the packet id and, for every set bit \<open>i\<close>
  of the bitmask, the number \<open>i + 1\<close> later, modulo \<open>2^16\<close>.
\<close>

theorem nack_decode:
  assumes "length hdr = 12" and "bl \<noteq> []" and "12 + 4 * length bl \<le> 1500" and "length mem = 1500"
  shows "\<exists>p. Nack_Parse mem (hdr @ nack_wire bl) (12 + 4 * length bl) = Inr (Some p) \<and>
    GetLostSeqs p = Inr (concat (map rfc4585_lost bl)) \<and> Nack_GetMediaSsrc p = fld4 8 hdr"
proof -
  let ?data = "hdr @ nack_wire bl" and ?len = "12 + 4 * length bl"
  let ?m = "fn_data (RtcpFbNack_new mem 0 0)"
  have m: "length ?m = 1500" using assms(4) by (simp add: RtcpFbNack_new_def)
  have d: "poke ?m 0 ?data = hdr @ nack_wire bl @ drop ?len ?m" using assms(1) by (simp add: poke_def)
  define p where "p = \<lparr>fn_data = poke ?m 0 ?data, fn_len = ?len, fn_blocks = nack_block_offsets 12 ?len\<rparr>"
  have "Nack_Parse mem ?data ?len = Inr (Some p)"
    using assms m by (simp add: Nack_Parse_def Nack_UpdateData_def p_def) (simp add: RtcpFbNack_new_def)
  moreover have "GetLostSeqs p = Inr (concat (map rfc4585_lost bl))"
    using nack_lost_wire [of hdr bl "drop ?len ?m"] assms(1)
    unfolding GetLostSeqs_def p_def by (simp add: d nack_block_offsets_exact)
  moreover have "Nack_GetMediaSsrc p = fld4 8 hdr"
    using assms(1) unfolding Nack_GetMediaSsrc_def p_def by (simp add: d fld4_def)
  ultimately show ?thesis by blast
qed

theorem nack_decode_witness:
  "\<exists>p. Nack_Parse (replicate 1500 0) (replicate 12 0 @ nack_wire [(65535, 0x8001)]) 16 = Inr (Some p) \<and>
     GetLostSeqs p = Inr [65535, 0, 15]"
proof -
  have "rfc4585_lost (65535, 0x8001) = [65535, 0, 15]" by code_simp
  with nack_decode [of "replicate 12 0" "[(65535, 0x8001)]" "replicate 1500 0"] show ?thesis by auto
qed

section \<open>Encoding a NACK\<close>

lemma nack_bitmap_ok:
  assumes "\<forall>r \<in> set rs. unat packet_id < unat r \<and> unat r \<le> unat packet_id + 16"
  shows "\<exists>b. nack_bitmap packet_id rs b0 = Inr b \<and>
    (\<forall>i < 16. bit b i \<longleftrightarrow> bit b0 i \<or> (\<exists>r \<in> set rs. unat r - unat packet_id = 16 - i))"
  using assms
proof (induction rs arbitrary: b0)
  case (Cons r rs)
  define dd where "dd = unat r - unat packet_id"
  have dd: "unat packet_id < unat r" "1 \<le> dd" "dd \<le> 16" using Cons.prems by (auto simp: dd_def)
  have i: "int (unat r) - int (unat packet_id) = int dd"
    unfolding dd_def using dd(1) by (subst of_nat_diff) simp_all
  have "nat (16 - int dd) = 16 - dd" by simp
  then have step: "nack_bitmap packet_id (r # rs) b0
      = nack_bitmap packet_id rs (b0 OR ucast (push_bit (16 - dd) (1 :: u32)))"
    unfolding nack_bitmap.simps Let_def i using dd(2,3) by simp
  have bit: "bit (b0 OR ucast (push_bit (16 - dd) (1 :: u32))) i \<longleftrightarrow> bit b0 i \<or> dd = 16 - i" if "i < 16" for i
    using that dd by (auto simp: bit_simps)
  from Cons.IH [of "b0 OR ucast (push_bit (16 - dd) (1 :: u32))"] Cons.prems
  obtain b where "nack_bitmap packet_id (r # rs) b0 = Inr b"
    "\<forall>i < 16. bit b i \<longleftrightarrow> (bit b0 i \<or> dd = 16 - i) \<or> (\<exists>r \<in> set rs. unat r - unat packet_id = 16 - i)"
    unfolding step using bit by auto
  then show ?case by (auto simp: dd_def)
qed simp

text \<open>What a packet under construction looks like: the header, the blocks inserted so far, untouched memory.\<close>

definition nack_ok :: "fb_nack \<Rightarrow> (u16 \<times> u16) list \<Rightarrow> bool" where
  "nack_ok p bl \<longleftrightarrow> length (fn_data p) = 1500 \<and> fn_len p = 12 + 4 * length bl \<and>
     take (fn_len p) (fn_data p) = take 12 (fn_data p) @ nack_wire bl \<and>
     fn_blocks p = map (\<lambda>k. 12 + 4 * k) [0..<length bl]"

lemma nack_ok_new: "length mem = 1500 \<Longrightarrow> nack_ok (RtcpFbNack_new mem s m) []"
  by (simp add: nack_ok_def RtcpFbNack_new_def)

lemma nack_ok_lost:
  assumes "nack_ok p bl" and "12 + 4 * length bl \<le> 1500"
  shows "GetLostSeqs p = Inr (concat (map rfc4585_lost bl))"
proof -
  have p: "length (fn_data p) = 1500" "take (fn_len p) (fn_data p) = take 12 (fn_data p) @ nack_wire bl"
    "fn_blocks p = map (\<lambda>k. 12 + 4 * k) [0..<length bl]"
    using assms(1) unfolding nack_ok_def by blast+
  have "fn_data p = take (fn_len p) (fn_data p) @ drop (fn_len p) (fn_data p)" by simp
  then have d: "fn_data p = take 12 (fn_data p) @ nack_wire bl @ drop (fn_len p) (fn_data p)"
    unfolding p(2) by simp
  have "length (take 12 (fn_data p)) = 12" using p(1) by simp
  with nack_lost_wire [of "take 12 (fn_data p)" bl "drop (fn_len p) (fn_data p)", folded d] show ?thesis
    by (simp only: GetLostSeqs_def p(3))
qed

lemma InsertBlock_ok:
  assumes "nack_ok p bl" and "16 + 4 * length bl \<le> 1500" and "nack_bitmap pid rs 0 = Inr b"
  shows "\<exists>p'. InsertBlock (pid # rs) p = Inr p' \<and> nack_ok p' (bl @ [(pid, b)])"
proof -
  let ?w = "be 2 pid @ be 2 b" and ?d = "fn_data p" and ?n = "fn_len p"
  let ?l = "of_nat ((?n + 4) div 4 - 1) :: u16"
  have p: "length ?d = 1500" "?n = 12 + 4 * length bl" "take ?n ?d = take 12 ?d @ nack_wire bl"
    and blocks: "fn_blocks p = map (\<lambda>k. 12 + 4 * k) [0..<length bl]"
    using assms(1) unfolding nack_ok_def by blast+
  have "take (?n + 4) (poke ?d ?n ?w) = take ?n ?d @ ?w" using p(1,2) assms(2) by (simp add: poke_def)
  then have e: "take (?n + 4) (poke ?d ?n ?w) = take 12 ?d @ nack_wire (bl @ [(pid, b)])" by (simp add: p(3))
  have "take (?n + 4) (set_rtcp_length ?l (poke ?d ?n ?w)) = poke (take (?n + 4) (poke ?d ?n ?w)) 2 (be 2 ?l)"
    unfolding set_rtcp_length_def using p(1,2) assms(2) by (intro take_poke_within) simp_all
  also have "\<dots> = take 12 (set_rtcp_length ?l (poke ?d ?n ?w)) @ nack_wire (bl @ [(pid, b)])"
    unfolding e using p(1,2) assms(2) by (simp add: poke_def set_rtcp_length_def drop_take)
  finally have t: "take (?n + 4) (set_rtcp_length ?l (poke ?d ?n ?w)) =
    take 12 (set_rtcp_length ?l (poke ?d ?n ?w)) @ nack_wire (bl @ [(pid, b)])" .
  let ?p' = "\<lparr>fn_data = set_rtcp_length ?l (poke ?d ?n ?w), fn_len = ?n + 4, fn_blocks = fn_blocks p @ [?n]\<rparr>"
  have "InsertBlock (pid # rs) p = Inr ?p'" using assms(2,3) p(1,2) by (simp add: InsertBlock_def Let_def)
  moreover have "nack_ok ?p' (bl @ [(pid, b)])"
    unfolding nack_ok_def using t p(1,2) assms(2) blocks by (simp add: set_rtcp_length_def)
  ultimately show ?thesis by blast
qed

text \<open>
  The encoder does not speak the format the decoder (and RFC 4585) reads: for a base number \<open>p\<close> and
  further lost numbers at distances \<open>d\<close> between 1 and 16 it sets bit \<open>16 - d\<close> instead of \<open>d - 1\<close>, so the
  receiver of the message reads the mirrored distances \<open>17 - d\<close>.
\<close>

theorem InsertBlock_mirrors:
  assumes "\<forall>r \<in> set rs. unat pid < unat r \<and> unat r \<le> unat pid + 16" and "length mem = 1500"
  shows "\<exists>p l. InsertBlock (pid # rs) (RtcpFbNack_new mem s m) = Inr p \<and> GetLostSeqs p = Inr l \<and>
    set l = insert pid {pid + 17 - (r - pid) | r. r \<in> set rs}"
proof -
  obtain b where b: "nack_bitmap pid rs 0 = Inr b"
    "\<forall>i < 16. bit b i \<longleftrightarrow> (\<exists>r \<in> set rs. unat r - unat pid = 16 - i)"
    using nack_bitmap_ok [OF assms(1), of 0] by auto
  obtain p where p: "InsertBlock (pid # rs) (RtcpFbNack_new mem s m) = Inr p" "nack_ok p [(pid, b)]"
    using InsertBlock_ok [OF nack_ok_new [OF assms(2)] _ b(1)] by auto
  have dist: "pid + 1 + of_nat (16 - (unat r - unat pid)) = pid + 17 - (r - pid)" if "r \<in> set rs" for r
  proof -
    have "of_nat (unat r - unat pid) = r - pid" "unat r - unat pid \<le> 16"
      using that assms(1) by (auto simp: of_nat_diff less_imp_le)
    then show ?thesis by (simp add: of_nat_diff)
  qed
  have "{i. i < 16 \<and> bit b i} = (\<lambda>r. 16 - (unat r - unat pid)) ` set rs" (is "?A = ?B")
  proof
    show "?A \<subseteq> ?B"
    proof
      fix i assume "i \<in> ?A"
      with b(2) obtain r where "r \<in> set rs" "unat r - unat pid = 16 - i" "i < 16" by blast
      then show "i \<in> ?B" by (intro image_eqI [of _ _ r]) simp_all
    qed
    show "?B \<subseteq> ?A" using b(2) assms(1) by fastforce
  qed
  then have "set (rfc4585_lost (pid, b)) = insert pid ((\<lambda>i. pid + 1 + of_nat i) ` (\<lambda>r. 16 - (unat r - unat pid)) ` set rs)"
    by (simp only: rfc4585_lost_def split_conv list.set set_map set_filter set_upt) simp
  also have "(\<lambda>i. pid + 1 + of_nat i) ` (\<lambda>r. 16 - (unat r - unat pid)) ` set rs = (\<lambda>r. pid + 17 - (r - pid)) ` set rs"
    unfolding image_image by (rule image_cong [OF refl]) (rule dist)
  also have "(\<lambda>r. pid + 17 - (r - pid)) ` set rs = {pid + 17 - (r - pid) | r. r \<in> set rs}" by blast
  finally have "set (rfc4585_lost (pid, b)) = insert pid {pid + 17 - (r - pid) | r. r \<in> set rs}" .
  with p nack_ok_lost [OF p(2)] show ?thesis by auto
qed

theorem InsertBlock_mirrors_witness:
  "\<exists>p l. InsertBlock [10, 11] (RtcpFbNack_new (replicate 1500 0) 0 7) = Inr p \<and> GetLostSeqs p = Inr l \<and>
     set l = {10, 26}"
  using InsertBlock_mirrors [of "[11]" 10 "replicate 1500 0" 0 7] by simp

lemma nack_bitmap_append: "nack_bitmap pid (xs @ ys) b = rbind (nack_bitmap pid xs b) (nack_bitmap pid ys)"
  by (induction xs arbitrary: b) (auto simp: Let_def)

lemma nack_bitmap_far: "unat pid + 16 < unat r \<Longrightarrow> nack_bitmap pid (r # rs) b = Inl BadShift"
proof -
  assume "unat pid + 16 < unat r"
  then have "16 - (int (unat r) - int (unat pid)) < 0" by linarith
  then show ?thesis unfolding nack_bitmap.simps Let_def by (simp only: simp_thms if_True)
qed

lemma insert_seqs_span:
  assumes "\<forall>r \<in> set rs. unat a < unat r \<and> unat r \<le> unat a + 16" and "sorted_wrt (<) (a # rs @ ls)"
  shows "insert_seqs (a # rs) ls p =
    (if unat a + 16 < unat (last (a # rs @ ls)) then Inl BadShift else InsertBlock (a # rs @ ls) p)"
  using assms
proof (induction ls arbitrary: rs)
  case Nil
  then show ?case by (cases rs rule: rev_cases) auto
next
  case (Cons x ls)
  have lx: "last (a # rs @ [x]) = x" by simp
  have xa: "unat a < unat x" using Cons.prems(2) by (auto simp: word_less_nat_alt sorted_wrt_append)
  show ?case
  proof (cases "unat a + 16 < unat x")
    case True
    have "x \<le> last (x # ls)" using Cons.prems(2) by (cases ls rule: rev_cases) (auto simp: sorted_wrt_append)
    then have far: "unat a + 16 < unat (last (a # rs @ x # ls))" using True by (auto simp: word_le_nat_alt)
    obtain b where "nack_bitmap a rs 0 = Inr b" using nack_bitmap_ok [OF Cons.prems(1)] by blast
    then have "InsertBlock (a # rs @ [x]) p = Inl BadShift"
      using nack_bitmap_far [OF True] by (simp only: InsertBlock_def list.case nack_bitmap_append rbind_simps)
    moreover have "int (unat x) - int (unat a) > 16" using True by linarith
    ultimately have "insert_seqs (a # rs) (x # ls) p = Inl BadShift"
      by (simp only: insert_seqs.simps Let_def append_Cons lx list.sel if_True rbind_simps)
    with far show ?thesis by simp
  next
    case False
    then have "\<not> int (unat x) - int (unat a) > 16" by linarith
    then have "insert_seqs (a # rs) (x # ls) p = insert_seqs (a # rs @ [x]) ls p"
      by (simp only: insert_seqs.simps Let_def append_Cons lx list.sel if_False)
    then show ?thesis using Cons.IH [of "rs @ [x]"] Cons.prems False xa by simp
  qed
qed

text \<open>
  \<open>InsertSeqList\<close> on an increasing list of lost numbers puts everything into one block when the list spans
  at most 16, and runs into a shift by a negative amount (undefined behaviour) as soon as it spans
  more, because the number that exceeds the block's range is still inserted into it.
\<close>

theorem InsertSeqList_span:
  assumes "sorted_wrt (<) (a # ls)" and "length mem = 1500"
  shows "(unat a + 16 < unat (last (a # ls)) \<longrightarrow> InsertSeqList (a # ls) (RtcpFbNack_new mem s m) = Inl BadShift) \<and>
    (unat (last (a # ls)) \<le> unat a + 16 \<longrightarrow>
      (\<exists>p b. InsertSeqList (a # ls) (RtcpFbNack_new mem s m) = Inr p \<and> nack_ok p [(a, b)]))"
proof -
  have e: "InsertSeqList (a # ls) p = (if unat a + 16 < unat (last (a # ls)) then Inl BadShift else InsertBlock (a # ls) p)" for p
    using insert_seqs_span [of "[]" a ls p] assms(1) by (simp add: InsertSeqList_def)
  have "\<exists>p b. InsertBlock (a # ls) (RtcpFbNack_new mem s m) = Inr p \<and> nack_ok p [(a, b)]"
    if "unat (last (a # ls)) \<le> unat a + 16"
  proof -
    have "r \<le> last (a # ls)" if "r \<in> set ls" for r
      using that assms(1) by (cases ls rule: rev_cases) (auto simp: sorted_wrt_append)
    then have "\<forall>r \<in> set ls. unat a < unat r \<and> unat r \<le> unat a + 16"
      using that assms(1) by (auto simp: word_less_nat_alt word_le_nat_alt intro: le_trans)
    then obtain b where "nack_bitmap a ls 0 = Inr b" using nack_bitmap_ok by blast
    from InsertBlock_ok [OF nack_ok_new [OF assms(2)] _ this] show ?thesis by fastforce
  qed
  then show ?thesis by (simp add: e not_less)
qed

theorem InsertSeqList_span_witness:
  "InsertSeqList [100, 110, 117] (RtcpFbNack_new (replicate 1500 0) 0 7) = Inl BadShift"
  using InsertSeqList_span [of 100 "[110, 117]" "replicate 1500 0" 0 7] by simp

section \<open>Picture loss indication\<close>

text \<open>
  A picture loss indication filled in by the setters is the 12 byte message of RFC 4585 (version 2, format 1,
  type 206, length 2) and parses back to the two ssrc values; a message of any other length is refused.
\<close>

theorem pli_roundtrip:
  assumes "out = Pli_GetData (Pli_SetMediaSsrc media (Pli_SetSenderSsrc sender RtcpPsPli_new))"
  shows "length out = 12 \<and> rtcp_version out = 2 \<and> rtcp_count out = 1 \<and> rtcp_packet_type out = 206 \<and>
    GetRtcpLength out = 12 \<and>
    (\<exists>p. Pli_Parse out 12 = Inr (Some p) \<and> Pli_GetSenderSsrc p = sender \<and> Pli_GetMediaSsrc p = media) \<and>
    (\<forall>data len. len \<noteq> 12 \<longrightarrow> Pli_Parse data len = Inr None)"
proof -
  define d where "d = Pli_SetMediaSsrc media (Pli_SetSenderSsrc sender RtcpPsPli_new)"
  have len: "length d = 1500" "length RtcpPsPli_new = 1500"
    by (simp_all add: d_def Pli_SetMediaSsrc_def Pli_SetSenderSsrc_def RtcpPsPli_new_def RTP_PACKET_MAX_SIZE_def)
  have f: "fld4 4 d = sender" "fld4 8 d = media"
    using len by (simp_all add: d_def Pli_SetMediaSsrc_def Pli_SetSenderSsrc_def)
  have out: "out = take 12 d" "length out = 12" using len by (simp_all add: assms d_def [symmetric] Pli_GetData_def)
  have "take 4 out = rtcp_header 2 0 1 206 2"
    using len(2)
    by (simp add: out d_def Pli_SetMediaSsrc_def Pli_SetSenderSsrc_def take_set_fld4_below)
      (simp add: RtcpPsPli_new_def poke_def FB_PS_PLI_def)
  note h = rtcp_header_fields [OF _ this]
  have "fld4 i (poke RtcpPsPli_new 0 out) = fld4 i d" if "i + 4 \<le> 12" for i
    using that out by (simp add: fld4_def poke_def drop_take)
  then show ?thesis
    using h out f len by (simp add: Pli_Parse_def Pli_GetSenderSsrc_def Pli_GetMediaSsrc_def GetRtcpLength_def)
qed

theorem pli_roundtrip_witness:
  "\<exists>p. Pli_Parse (Pli_GetData (Pli_SetMediaSsrc 9 (Pli_SetSenderSsrc 5 RtcpPsPli_new))) 12 = Inr (Some p) \<and>
     Pli_GetMediaSsrc p = 9"
  using pli_roundtrip [of "Pli_GetData (Pli_SetMediaSsrc 9 (Pli_SetSenderSsrc 5 RtcpPsPli_new))" 9 5] by blast

end
