(* ===== verification/Rtp_Recv.thy ===== *)
theory Rtp_Recv
  imports Nack_Generator Rtcp_Feedback "HOL-Library.Signed_Division"
begin

unbundle bit_operations_syntax

text \<open>
  \<open>RtpRecvSession\<close> of \<open>webrtc_room/rtp_recv_session.cpp\<close>: one received stream. It tracks sequence numbers and
  jitter, feeds the NACK generator, turns retransmissions back into the original packets, and sends
  receiver reports. An operation that may throw returns its result beside the state, because the
  assignments made before the exception stay. \<open>lost_percent_\<close> is kept as numerator and denominator.
\<close>

section \<open>State\<close>

definition kVideoRtcpRRInterval :: int where "kVideoRtcpRRInterval = 400"
definition kAudioRtcpRRInterval :: int where "kAudioRtcpRRInterval = 2000"

record rtp_recv_session = rtp_session +
  nack_gen :: "nack_generator option"
  last_send_rtcp_rr :: int
  sr_ssrc :: u32
  rc_ntp :: NTP_TIMESTAMP
  rc_rtp_timestamp :: int
  sr_local_ms :: int
  rc_pkt_count :: u32
  rc_bytes_count :: u32
  last_sr_ms :: int
  rc_lsr :: u32
  expect_recv :: int
  last_recv :: int
  total_lost :: int
  frac_lost :: int
  lost_percent :: "int \<times> int"
  recv_statics :: StreamStatics

definition RtpRecvSession_new :: "RtpSessionParam \<Rightarrow> NTP_TIMESTAMP \<Rightarrow> rtp_recv_session" where
  \<comment> \<open>\<open>ntp_\<close> is not initialised by the constructor\<close>
  "RtpRecvSession_new p ntp0 = rtp_session.extend (rtp_session_init p)
     (rtp_recv_session.fields (if p_use_nack p then Some NackGenerator_new else None)
        (-1) 0 ntp0 0 0 0 0 0 0 0 0 0 0 (0, 1) StreamStatics_new)"

section \<open>Jitter\<close>

definition GenerateJitter :: "u32 \<Rightarrow> int \<Rightarrow> rtp_recv_session \<Rightarrow> unit res \<times> rtp_recv_session" where
  "GenerateJitter rtp_timestamp recv_pkt_ms s =
     (if p_clock_rate (param s) = 0 then (Inl Throw, s)
      else if last_pkt_ms s = 0 \<or> last_rtp_ts s = 0 then (Inr (), s)
      else let receive_diff_ms = recv_pkt_ms - last_pkt_ms s;
        receive_diff_rtp = (word_of_int ((receive_diff_ms * uint (p_clock_rate (param s))) sdiv 1000) :: u32);
        time_diff_samples = \<bar>uint receive_diff_rtp - (uint rtp_timestamp - last_rtp_ts s)\<bar>
      in if time_diff_samples < 450000 then
        let jitter_diff_q4 = sint ((word_of_int (time_diff_samples * 16) :: u32) - jitter_q4 s);
            q4 = jitter_q4 s + word_of_int ((jitter_diff_q4 + 8) div 16)
        in (Inr (), s\<lparr>jitter_q4 := q4, jitter := drop_bit 4 q4\<rparr>)
      else (Inr (), s))"

section \<open>Receiving\<close>

definition ReceiveRtpPacket :: "rtp_packet \<Rightarrow> rtp_recv_session \<Rightarrow> bool res \<times> rtp_recv_session" where
  "ReceiveRtpPacket rtp_pkt s =
     (if first_pkt s then
        (Inr True, (InitSeq (GetSeq rtp_pkt) (s\<lparr>first_pkt := False\<rparr>))
           \<lparr>max_packet_ts := GetTimestamp rtp_pkt, max_packet_ms := rp_local_ms rtp_pkt\<rparr>)
      else (case UpdateSeq rtp_pkt s of
        (False, s1) \<Rightarrow> (Inr False, s1)
      | (True, s1) \<Rightarrow>
          (case GenerateJitter (GetTimestamp rtp_pkt) (rp_local_ms rtp_pkt) s1 of
             (Inl e, s2) \<Rightarrow> (Inl e, s2)
           | (Inr _, s2) \<Rightarrow>
               let s3 = s2\<lparr>last_pkt_ms := rp_local_ms rtp_pkt, last_rtp_ts := uint (GetTimestamp rtp_pkt),
                 recv_statics := ss_Update (rp_data_len rtp_pkt) (rp_local_ms rtp_pkt) (recv_statics s2)\<rparr>
               in if p_use_nack (param s3) then
                 (case nack_gen s3 of
                    None \<Rightarrow> (Inl OutOfBounds, s3)
                  | Some g \<Rightarrow> (Inr True, s3\<lparr>nack_gen := Some (UpdateNackList rtp_pkt g)\<rparr>))
               else (Inr True, s3))))"

definition ReceiveRtxPacket ::
    "rtp_packet \<Rightarrow> rtp_recv_session \<Rightarrow> (bool \<times> bool option \<times> rtp_packet) res \<times> rtp_recv_session" where
  \<comment> \<open>the return value, what is assigned to \<open>repeat\<close> if anything, and the packet, which is rewritten in place;
    every exception inside is caught\<close>
  "ReceiveRtxPacket rtp_pkt s =
     (if rp_payload_len rtp_pkt = 0 then (Inr (True, None, rtp_pkt), s)
      else (case RtxDemux rtp_pkt (p_ssrc (param s)) (p_payload_type (param s)) of
        Inl Throw \<Rightarrow> (Inr (False, Some False, rtp_pkt), s)
      | Inl e \<Rightarrow> (Inl e, s)
      | Inr pkt \<Rightarrow>
          if (case nack_gen s of None \<Rightarrow> False | Some g \<Rightarrow> \<not> IsInNackList (GetSeq pkt) g)
          then (Inr (True, Some True, pkt), s)
          else (case ReceiveRtpPacket pkt s of
            (Inr r, s') \<Rightarrow> (Inr (r, Some False, pkt), s')
          | (Inl Throw, s') \<Rightarrow> (Inr (False, Some False, pkt), s')
          | (Inl e, s') \<Rightarrow> (Inl e, s'))))"

section \<open>Reports\<close>

definition round_div :: "int \<Rightarrow> int \<Rightarrow> int" where
  \<comment> \<open>\<open>std::round((double)a / b)\<close> for \<open>b > 0\<close>: halves away from zero. The double quotient of values of this
    size never crosses a half that the exact quotient does not reach\<close>
  "round_div a b = (if 0 \<le> a then (2 * a + b) div (2 * b) else - ((- 2 * a + b) div (2 * b)))"

definition GetLostStatics :: "rtp_recv_session \<Rightarrow> rtp_recv_session" where
  "GetLostStatics s =
     (let expected = GetExpectedPackets s; recv_count = int (ss_count (recv_statics s));
          expected_interval = expected - expect_recv s; recv_interval = recv_count - last_recv s;
          s1 = s\<lparr>expect_recv := expected, last_recv := recv_count\<rparr> in
      if last_recv s \<le> 0 then s1
      else if expected_interval \<le> 0 \<or> recv_interval \<le> 0 then s1\<lparr>frac_lost := 0\<rparr>
      else s1\<lparr>total_lost := total_lost s + (expected_interval - recv_interval),
              frac_lost := round_div ((expected_interval - recv_interval) * 256) expected_interval,
              lost_percent := (expected_interval - recv_interval, expected_interval)\<rparr>)"

definition dlsr_of :: "int \<Rightarrow> u32" where
  "dlsr_of dlsr_ms =
     word_of_int (push_bit 16 (dlsr_ms sdiv 1000) OR ((dlsr_ms smod 1000) * 65536) sdiv 1000)"

definition SendRtcpRR :: "int \<Rightarrow> bytes \<Rightarrow> rtp_recv_session \<Rightarrow> (bytes \<times> rtp_recv_session) res" where
  \<comment> \<open>\<open>mem\<close> is the block of 24 bytes that \<open>RtcpRrBlockInfo\<close> allocates\<close>
  "SendRtcpRR now_ms mem s0 =
     rbind (RtcpRrPacket_new (rtcp_header 2 0 1 (rtcp_type_code RTCP_RR) (of_nat ((4 + 4 + 24) div 4 - 1))) 4) (\<lambda>rr_pkt.
       let s = GetLostStatics s0;
           block = rr_block_fill mem (p_ssrc (param s)) (word_of_int (total_lost s)) (word_of_int (frac_lost s))
             (ucast (max_seq s) + cycles s) (jitter s) (rc_lsr s) (dlsr_of (now_ms - last_sr_ms s))
       in rbind (AddRrBlock block rr_pkt) (\<lambda>rr_pkt1.
         rbind (Rr_GetData rr_pkt1) (\<lambda>(data, rr_pkt2).
           let len = (case data of None \<Rightarrow> 0 | Some d \<Rightarrow> length d) in
           if len \<noteq> rtcp_rr.rr_len rr_pkt2 then Inl AssertFail
           else Inr (case data of None \<Rightarrow> [] | Some d \<Rightarrow> d, s))))"

definition GenerateNackList :: "bytes \<Rightarrow> u16 list \<Rightarrow> rtp_recv_session \<Rightarrow> bytes res" where
  \<comment> \<open>\<open>mem\<close> is the stack memory of the message object\<close>
  "GenerateNackList mem seq_vec s =
     rbind (InsertSeqList seq_vec (RtcpFbNack_new mem 0 (p_ssrc (param s)))) (\<lambda>nack_pkt. Inr (Nack_GetData nack_pkt))"

definition recv_nack_timer :: "int \<Rightarrow> bytes \<Rightarrow> rtp_recv_session \<Rightarrow> (bytes option \<times> rtp_recv_session) res" where
  \<comment> \<open>the generator's timer with the session as its callback\<close>
  "recv_nack_timer now_ms mem s =
     (case nack_gen s of
        None \<Rightarrow> Inr (None, s)
      | Some g \<Rightarrow>
          (case nack_OnTimer now_ms g of
             (None, g') \<Rightarrow> Inr (None, s\<lparr>nack_gen := Some g'\<rparr>)
           | (Some seq_vec, g') \<Rightarrow> rbind (GenerateNackList mem seq_vec s) (\<lambda>d. Inr (Some d, s\<lparr>nack_gen := Some g'\<rparr>))))"

definition recv_OnTimer :: "int \<Rightarrow> bytes \<Rightarrow> rtp_recv_session \<Rightarrow> (bytes option \<times> rtp_recv_session) res" where
  "recv_OnTimer now_ms mem s =
     (if last_send_rtcp_rr s < 0 then Inr (None, s\<lparr>last_send_rtcp_rr := now_ms\<rparr>)
      else let rtcp_rr_interval =
          (if av_type (param s) = MEDIA_VIDEO_TYPE then kVideoRtcpRRInterval else kAudioRtcpRRInterval) in
        if now_ms - last_send_rtcp_rr s > rtcp_rr_interval then
          rbind (SendRtcpRR now_ms mem (s\<lparr>last_send_rtcp_rr := now_ms\<rparr>)) (\<lambda>(d, s'). Inr (Some d, s'))
        else Inr (None, s))"

definition HandleRtcpSrPacket :: "int \<Rightarrow> rtcp_sr \<Rightarrow> rtp_recv_session \<Rightarrow> int \<times> rtp_recv_session" where
  "HandleRtcpSrPacket now_ms sr_pkt s =
     (let ntp = \<lparr>ntp_sec = Sr_GetNtpSec sr_pkt, ntp_frac = Sr_GetNtpFrac sr_pkt\<rparr> in
      (0, s\<lparr>sr_ssrc := Sr_GetSsrc sr_pkt, rc_ntp := ntp, rc_rtp_timestamp := uint (Sr_GetRtpTimestamp sr_pkt),
        sr_local_ms := now_ms, rc_pkt_count := Sr_GetPktCount sr_pkt, rc_bytes_count := Sr_GetBytesCount sr_pkt,
        last_sr_ms := now_ms,
        rc_lsr := push_bit 16 (ntp_sec ntp AND 0xffff) OR (ntp_frac ntp AND 0xffff0000)\<rparr>))"

definition UpdateSSRC :: "u32 \<Rightarrow> rtp_recv_session \<Rightarrow> rtp_recv_session" where
  "UpdateSSRC new_ssrc s = s\<lparr>param := (param s)\<lparr>p_ssrc := new_ssrc\<rparr>\<rparr>"

section \<open>The parameters stay\<close>

lemma ReceiveRtpPacket_param: "ReceiveRtpPacket pkt s = (ret, s') \<Longrightarrow> param s' = param s"
proof -
  assume r: "ReceiveRtpPacket pkt s = (ret, s')"
  obtain ok s1 where u: "UpdateSeq pkt s = (ok, s1)" by (cases "UpdateSeq pkt s")
  obtain j s2 where j: "GenerateJitter (GetTimestamp pkt) (rp_local_ms pkt) s1 = (j, s2)"
    by (cases "GenerateJitter (GetTimestamp pkt) (rp_local_ms pkt) s1")
  have "param s1 = param s" using u by (auto simp: UpdateSeq_def update_seq_def InitSeq_def Let_def split: if_splits)
  moreover have "param s2 = param s1" using j by (auto simp: GenerateJitter_def Let_def split: if_splits)
  ultimately show ?thesis using r u j
    by (auto simp: ReceiveRtpPacket_def InitSeq_def Let_def split: if_splits bool.splits sum.splits option.splits)
qed

lemma ReceiveRtxPacket_param: "ReceiveRtxPacket pkt s = (ret, s') \<Longrightarrow> param s' = param s"
  by (auto simp: ReceiveRtxPacket_def split: if_splits sum.splits cpp_error.splits prod.splits dest: ReceiveRtpPacket_param)

lemma GetLostStatics_param [simp]: "param (GetLostStatics s) = param s"
  by (simp add: GetLostStatics_def Let_def)

lemma recv_OnTimer_param: "recv_OnTimer now_ms mem s = Inr (msg, s') \<Longrightarrow> param s' = param s"
  by (auto simp: recv_OnTimer_def SendRtcpRR_def Let_def split: if_splits)

lemma recv_nack_timer_param: "recv_nack_timer now_ms mem s = Inr (msg, s') \<Longrightarrow> param s' = param s"
  by (auto simp: recv_nack_timer_def split: option.splits prod.splits)

lemma HandleRtcpSrPacket_param [simp]: "param (snd (HandleRtcpSrPacket now_ms sr s)) = param s"
  by (simp add: HandleRtcpSrPacket_def Let_def)

lemmas recv_session_params = ReceiveRtpPacket_param ReceiveRtxPacket_param recv_OnTimer_param recv_nack_timer_param

section \<open>Jitter estimate\<close>

definition arrival_diff :: "u32 \<Rightarrow> int \<Rightarrow> rtp_recv_session \<Rightarrow> int" where
  \<comment> \<open>\<open>|D|\<close> of RFC 3550 in time stamp units: the difference between arrival spacing and time stamp spacing\<close>
  "arrival_diff ts ms s =
     \<bar>uint (word_of_int (((ms - last_pkt_ms s) * uint (p_clock_rate (param s))) sdiv 1000) :: u32)
        - (uint ts - last_rtp_ts s)\<bar>"

definition JITTER_Q4_MAX :: int where
  "JITTER_Q4_MAX = 16 * 449999"

lemma jitter_step:
  assumes "0 \<le> d" and "d < 450000" and "uint (q :: u32) \<le> JITTER_Q4_MAX"
  defines "q' \<equiv> q + word_of_int ((sint ((word_of_int (d * 16) :: u32) - q) + 8) div 16)"
  shows "uint q' = (15 * uint q + 16 * d + 8) div 16" "uint q' \<le> JITTER_Q4_MAX"
proof -
  have q: "0 \<le> uint q" "uint q \<le> 7199984" using assms(3) by (simp_all add: JITTER_Q4_MAX_def)
  have "(word_of_int (d * 16) :: u32) - q = word_of_int (d * 16 - uint q)" by simp
  then have "sint ((word_of_int (d * 16) :: u32) - q) = signed_take_bit 31 (d * 16 - uint q)"
    by (simp only: sint_sbintrunc') simp
  also have "\<dots> = d * 16 - uint q"
  proof (rule signed_take_bit_int_eq_self)
    have two: "(2 :: int) ^ 31 = 2147483648" by simp
    show "- (2 ^ 31) \<le> d * 16 - uint q" unfolding two using assms(1,2) q by linarith
    show "d * 16 - uint q < 2 ^ 31" unfolding two using assms(1,2) q by linarith
  qed
  finally have s: "sint ((word_of_int (d * 16) :: u32) - q) = d * 16 - uint q" .
  let ?v = "(15 * uint q + 16 * d + 8) div 16"
  have "uint q + (d * 16 - uint q + 8) div 16 = ?v"
  proof -
    have "15 * uint q + 16 * d + 8 = (d * 16 - uint q + 8) + 16 * uint q" by simp
    then show ?thesis by (simp only: div_mult_self2 [of 16, simplified])
  qed
  moreover have "q' = word_of_int (uint q + (d * 16 - uint q + 8) div 16)" unfolding q'_def s by simp
  ultimately have e: "q' = word_of_int ?v" by (simp only:)
  have v: "0 \<le> ?v" "?v \<le> 7199984" using assms(1,2) q by linarith+
  then show "uint q' = ?v" by (simp only: e uint_word_of_int) simp
  with v show "uint q' \<le> JITTER_Q4_MAX" by (simp add: JITTER_Q4_MAX_def)
qed

text \<open>
  The jitter estimate follows RFC 3550 in 1/16 units: with \<open>D\<close> the difference of arrival and time stamp
  spacing, the new value is \<open>(15 J + 16 |D| + 8) / 16\<close>; a jump of 450000 units or more leaves it alone. The
  arithmetic, which mixes signed and unsigned 32 bit values, never wraps: the estimate stays
  below the bound for ever.
\<close>

theorem jitter_rfc3550:
  assumes "p_clock_rate (param s) \<noteq> 0" and "uint (jitter_q4 s) \<le> JITTER_Q4_MAX"
    and "GenerateJitter ts ms s = (r, s')"
  shows "r = Inr () \<and> uint (jitter_q4 s') \<le> JITTER_Q4_MAX \<and>
    uint (jitter_q4 s') =
      (if last_pkt_ms s \<noteq> 0 \<and> last_rtp_ts s \<noteq> 0 \<and> arrival_diff ts ms s < 450000
       then (15 * uint (jitter_q4 s) + 16 * arrival_diff ts ms s + 8) div 16 else uint (jitter_q4 s))"
proof -
  have "0 \<le> arrival_diff ts ms s" by (simp add: arrival_diff_def)
  note step = jitter_step [OF this _ assms(2)]
  show ?thesis
    using assms step by (auto simp: GenerateJitter_def arrival_diff_def Let_def split: if_splits)
qed

theorem jitter_rfc3550_witness:
  "\<exists>s'. GenerateJitter 4000 1020 (RtpRecvSession_new RtpSessionParam_default \<lparr>ntp_sec = 0, ntp_frac = 0\<rparr>
      \<lparr>last_pkt_ms := 1000, last_rtp_ts := 1000\<rparr>) = (Inr (), s') \<and> uint (jitter_q4 s') = 1200"
proof -
  let ?s = "RtpRecvSession_new RtpSessionParam_default \<lparr>ntp_sec = 0, ntp_frac = 0\<rparr>\<lparr>last_pkt_ms := 1000, last_rtp_ts := 1000\<rparr>"
  have s: "p_clock_rate (param ?s) \<noteq> 0" "uint (jitter_q4 ?s) \<le> JITTER_Q4_MAX" "jitter_q4 ?s = 0" "arrival_diff 4000 1020 ?s = 1200"
    by (simp_all add: RtpRecvSession_new_def rtp_session.defs rtp_recv_session.defs rtp_session_init_def
        RtpSessionParam_default_def JITTER_Q4_MAX_def arrival_diff_def signed_divide_int_def)
  obtain r s' where g: "GenerateJitter 4000 1020 ?s = (r, s')" by (cases "GenerateJitter 4000 1020 ?s")
  from jitter_rfc3550 [OF s(1,2) g] s(3,4) g show ?thesis by simp
qed

section \<open>Receiver reports\<close>

lemma GetLostStatics_frame [simp]:
  "max_seq (GetLostStatics s) = max_seq s" "cycles (GetLostStatics s) = cycles s"
  "jitter (GetLostStatics s) = jitter s" "rc_lsr (GetLostStatics s) = rc_lsr s" "last_sr_ms (GetLostStatics s) = last_sr_ms s"
  by (simp_all add: GetLostStatics_def Let_def)

definition rr_reports :: "rtp_recv_session \<Rightarrow> int \<Rightarrow> bytes \<Rightarrow> bool" where
  \<comment> \<open>\<open>b\<close> is the report block describing session \<open>s\<close> at time \<open>now_ms\<close>\<close>
  "rr_reports s now_ms b \<longleftrightarrow> Rr_GetReporteeSsrc b = p_ssrc (param s) \<and>
     Rr_GetHighestSeq b = ucast (max_seq s) + cycles s \<and> Rr_GetJitter b = jitter s \<and>
     Rr_GetCumulativeLost b = take_bit 24 (word_of_int (total_lost s)) \<and>
     Rr_GetFracLost b = word_of_int (frac_lost s) \<and>
     Rr_GetLsr b = rc_lsr s \<and> Rr_GetDlsr b = dlsr_of (now_ms - last_sr_ms s)"

lemma SendRtcpRR_ok:
  assumes "length mem = 24"
  shows "\<exists>d q b. SendRtcpRR now_ms mem s = Inr (d, GetLostStatics s) \<and>
    Rr_Parse d (length d) = Inr q \<and> GetRrBlocks q = Inr [b] \<and> rr_reports (GetLostStatics s) now_ms b \<and>
    rtcp_version d = 2 \<and> rtcp_packet_type d = 201 \<and> GetRtcpLength d = length d"
proof -
  define t where "t = GetLostStatics s"
  define b where "b = rr_block_fill mem (p_ssrc (param t)) (word_of_int (total_lost t)) (word_of_int (frac_lost t))
             (ucast (max_seq t) + cycles t) (jitter t) (rc_lsr t) (dlsr_of (now_ms - last_sr_ms t))"
  note B = rr_block_fill_fields [OF assms b_def]
  obtain p0 p p' d q where
    r: "RtcpRrPacket_new (rtcp_header 2 0 1 (rtcp_type_code RTCP_RR) (of_nat ((4 + 4 + 24) div 4 - 1))) 4 = Inr p0"
      "AddRrBlock b p0 = Inr p" "Rr_GetData p = Inr (Some d, p')" "rtcp_rr.rr_len p' = length d"
      "Rr_Parse d (length d) = Inr q" "GetRrBlocks q = Inr [b]"
      "rtcp_version d = 2" "rtcp_packet_type d = 201" "GetRtcpLength d = length d"
    using rr_wire_single [OF length_rtcp_header B(1)] by blast
  have "SendRtcpRR now_ms mem s = Inr (d, t)"
    unfolding SendRtcpRR_def t_def [symmetric] r(1) rbind_simps Let_def b_def [symmetric] r(2) r(3)
    by (simp add: r(4))
  moreover have "rr_reports t now_ms b" using B by (simp add: rr_reports_def)
  ultimately show ?thesis using r(5-9) unfolding t_def by blast
qed

text \<open>
  A receiver report goes out on the first timer tick more than 400 ms (video) or 2 s (other media) after the
  previous one and only then; sending never fails (in particular the length assertion holds), and the
  report parses to a single block with the session's ssrc, highest extended sequence number, jitter,
  loss figures and the time since the last sender report.
\<close>

theorem rr_sent:
  assumes "length mem = 24"
    and "interval = (if av_type (param s) = MEDIA_VIDEO_TYPE then 400 else 2000)"
  shows "\<exists>out s'. recv_OnTimer now_ms mem s = Inr (out, s') \<and>
    (out \<noteq> None \<longleftrightarrow> 0 \<le> last_send_rtcp_rr s \<and> last_send_rtcp_rr s + interval < now_ms) \<and>
    (\<forall>d. out = Some d \<longrightarrow> (\<exists>q b. Rr_Parse d (length d) = Inr q \<and> GetRrBlocks q = Inr [b] \<and>
       rr_reports (GetLostStatics s) now_ms b))"
proof -
  let ?s = "s\<lparr>last_send_rtcp_rr := now_ms\<rparr>"
  obtain d q b where d: "SendRtcpRR now_ms mem ?s = Inr (d, GetLostStatics ?s)"
    "Rr_Parse d (length d) = Inr q" "GetRrBlocks q = Inr [b]" "rr_reports (GetLostStatics ?s) now_ms b"
    using SendRtcpRR_ok [OF assms(1)] by blast
  have "rr_reports (GetLostStatics ?s) now_ms b = rr_reports (GetLostStatics s) now_ms b"
    by (simp add: rr_reports_def GetLostStatics_def Let_def GetExpectedPackets_def)
  then show ?thesis
    using d assms(2)
    by (auto simp: recv_OnTimer_def Let_def kVideoRtcpRRInterval_def kAudioRtcpRRInterval_def)
qed

theorem rr_sent_witness:
  "\<exists>d s' q b. recv_OnTimer 5000 (replicate 24 0) (RtpRecvSession_new RtpSessionParam_default
      \<lparr>ntp_sec = 0, ntp_frac = 0\<rparr>\<lparr>last_send_rtcp_rr := 1000\<rparr>) = Inr (Some d, s') \<and>
    Rr_Parse d (length d) = Inr q \<and> GetRrBlocks q = Inr [b]"
proof -
  let ?s = "RtpRecvSession_new RtpSessionParam_default \<lparr>ntp_sec = 0, ntp_frac = 0\<rparr>\<lparr>last_send_rtcp_rr := 1000\<rparr>"
  have a: "av_type (param ?s) \<noteq> MEDIA_VIDEO_TYPE"
    by (simp add: RtpRecvSession_new_def rtp_session.defs rtp_recv_session.defs rtp_session_init_def RtpSessionParam_default_def)
  from rr_sent [of "replicate 24 0" 2000 ?s 5000] obtain out s' where
    "recv_OnTimer 5000 (replicate 24 0) ?s = Inr (out, s')" "out \<noteq> None"
    "\<forall>d. out = Some d \<longrightarrow> (\<exists>q b. Rr_Parse d (length d) = Inr q \<and> GetRrBlocks q = Inr [b])"
    using a by auto
  then show ?thesis by blast
qed

section \<open>Following a stream and repairing it\<close>

text \<open>The coupling of the session with its generator: both agree on the newest number as long as no jump is
  followed and the second packet is not an older one.\<close>

definition in_step :: "rtp_recv_session \<Rightarrow> bool" where
  "in_step s \<longleftrightarrow> p_use_nack (param s) \<and> p_clock_rate (param s) \<noteq> 0 \<and>
     (\<exists>g. nack_gen s = Some g \<and> nack_inv g \<and> (first_pkt s \<longrightarrow> \<not> ng_init_flag g) \<and>
       (ng_init_flag g \<longrightarrow> ng_last_seq g = max_seq s))"

definition in_reach :: "u16 \<Rightarrow> rtp_recv_session \<Rightarrow> bool" where
  "in_reach q s \<longleftrightarrow> first_pkt s \<or> unat (q - max_seq s) < MAX_DROPOUT \<or>
     (unat (q - max_seq s) > RTP_SEQ_MOD - MAX_MISORDER \<and> (\<exists>g. nack_gen s = Some g \<and> ng_init_flag g))"

lemma GenerateJitter_frame:
  assumes "GenerateJitter ts ms s = (r, s')"
  shows "param s' = param s" "nack_gen s' = nack_gen s" "max_seq s' = max_seq s" "first_pkt s' = first_pkt s" 
    "cycles s' = cycles s" "recv_statics s' = recv_statics s" "p_clock_rate (param s) \<noteq> 0 \<Longrightarrow> r = Inr ()"
  using assms by (auto simp: GenerateJitter_def Let_def split: if_splits)

lemma update_seq_frame:
  assumes "update_seq q s = (r, s')"
  shows "param s' = param s" "nack_gen s' = nack_gen s" "first_pkt s' = first_pkt s" "recv_statics s' = recv_statics s"
  using assms by (auto simp: update_seq_def Let_def InitSeq_def split: if_splits)

lemma seq_lower_ahead:
  fixes q m :: u16
  shows "unat (q - m) < 3000 \<Longrightarrow> \<not> SeqLowerThan q m"
    "unat (q - m) > 64036 \<Longrightarrow> SeqLowerThan q m \<and> q \<noteq> m"
proof -
  have d: "unat (q - m) = (if unat m \<le> unat q then unat q - unat m else unat q + 65536 - unat m)"
    by (simp add: unat_sub_if_size word_size)
  show "unat (q - m) < 3000 \<Longrightarrow> \<not> SeqLowerThan q m" "unat (q - m) > 64036 \<Longrightarrow> SeqLowerThan q m \<and> q \<noteq> m"
    using unat_lt16 [of q] unat_lt16 [of m] unfolding SeqLowerThan_unat d by (auto split: if_splits)
qed

lemma update_nack_list_last:
  assumes "ng_init_flag g \<longrightarrow> ng_last_seq g = m"
  shows "unat (q - m) < 3000 \<Longrightarrow> ng_last_seq (update_nack_list q g) = q"
    "unat (q - m) > 64036 \<Longrightarrow> ng_init_flag g \<Longrightarrow> update_nack_list q g = g\<lparr>ng_nack_map := om_erase q (ng_nack_map g)\<rparr>"
  using assms seq_lower_ahead [of q m]
  by (auto simp: update_nack_list_def om_find_None om_erase_def filter_id_conv intro!: nack_generator.equality filter_True [symmetric])


lemma ReceiveRtpPacket_step:
  assumes "in_step s" and "nack_gen s = Some g" and "\<not> first_pkt s" and "in_reach (GetSeq pkt) s"
  obtains s' where "ReceiveRtpPacket pkt s = (Inr True, s')" "in_step s'"
    "nack_gen s' = Some (update_nack_list (GetSeq pkt) g)" "\<not> first_pkt s'" "param s' = param s"
    "ss_count (recv_statics s') = Suc (ss_count (recv_statics s))"
    "max_seq s' = (if unat (GetSeq pkt - max_seq s) < MAX_DROPOUT then GetSeq pkt else max_seq s)"
proof -
  let ?q = "GetSeq pkt"
  have c: "p_use_nack (param s)" "p_clock_rate (param s) \<noteq> 0" "nack_inv g" "ng_init_flag g \<longrightarrow> ng_last_seq g = max_seq s"
    using assms(1,2) by (auto simp: in_step_def)
  have r: "unat (?q - max_seq s) < 3000 \<or> unat (?q - max_seq s) > 64036 \<and> ng_init_flag g"
    using assms(2,3,4) by (auto simp: in_reach_def MAX_DROPOUT_def MAX_MISORDER_def RTP_SEQ_MOD_def)
  obtain s1 where u: "UpdateSeq pkt s = (True, s1)" "max_seq s1 = (if unat (?q - max_seq s) < 3000 then ?q else max_seq s)"
    using r by (auto simp: UpdateSeq_def update_seq_def Let_def MAX_DROPOUT_def MAX_MISORDER_def RTP_SEQ_MOD_def)
  note f1 = update_seq_frame [OF u(1) [unfolded UpdateSeq_def]]
  obtain x s2 where j: "GenerateJitter (GetTimestamp pkt) (rp_local_ms pkt) s1 = (x, s2)"
    by (cases "GenerateJitter (GetTimestamp pkt) (rp_local_ms pkt) s1")
  note f2 = GenerateJitter_frame [OF j]
  have x: "x = Inr ()" using f2(7) f1(1) c(2) by simp
  let ?s3 = "s2\<lparr>last_pkt_ms := rp_local_ms pkt, last_rtp_ts := uint (GetTimestamp pkt),
    recv_statics := ss_Update (rp_data_len pkt) (rp_local_ms pkt) (recv_statics s2)\<rparr>"
  let ?s' = "?s3\<lparr>nack_gen := Some (update_nack_list ?q g)\<rparr>"
  have e: "ReceiveRtpPacket pkt s = (Inr True, ?s')"
    using assms(2,3) c(1) f1 f2 by (simp add: ReceiveRtpPacket_def u(1) j x Let_def UpdateNackList_def)
  have last: "ng_last_seq (update_nack_list ?q g) = max_seq s1"
    using r u(2) update_nack_list_last [OF c(4), of ?q] c(4) by auto
  show ?thesis
  proof (rule that [OF e])
    show "in_step ?s'"
      using c f1 f2 last nack_inv_update [OF c(3), of ?q] assms(3) by (simp add: in_step_def)
  qed (use assms(3) f1 f2 u(2) in \<open>simp_all add: MAX_DROPOUT_def ss_Update_def ss_snapshot_def Let_def\<close>)
qed








lemma rtx_restores:
  assumes "rtp_ok pkt" and "rp_data_len pkt + 2 \<le> length (rp_buf pkt)" and "RtxMux pkt pt ssrc seq = Inr mux"
    and "p_ssrc (param s) = GetSsrc pkt" and "p_payload_type (param s) = GetPayloadType pkt"
    and "in_step s" and "\<not> first_pkt s" and "nack_gen s = Some g" and "ng_init_flag g"
    and "max_seq s = GetSeq pkt + d" and "0 < unat d" and "unat d < MAX_MISORDER"
  shows "\<exists>pkt' s' g'. rtp_ok pkt' \<and> rtp_view pkt' = rtp_view pkt \<and> nack_gen s' = Some g' \<and> in_step s' \<and>
    (if IsInNackList (GetSeq pkt) g
     then ReceiveRtxPacket mux s = (Inr (True, Some False, pkt'), s') \<and> max_seq s' = max_seq s \<and>
       (\<forall>k. IsInNackList k g' \<longleftrightarrow> IsInNackList k g \<and> k \<noteq> GetSeq pkt) \<and>
       ss_count (recv_statics s') = Suc (ss_count (recv_statics s))
     else ReceiveRtxPacket mux s = (Inr (True, Some True, pkt'), s') \<and> s' = s)"
proof -
  obtain pkt' where m: "rtp_ok mux" "GetPayload mux = be 2 (GetSeq pkt) @ GetPayload pkt"
    "RtxDemux mux (GetSsrc pkt) (GetPayloadType pkt) = Inr pkt'" "rtp_view pkt' = rtp_view pkt"
    "rtp_ok pkt'"
    using retransmit_packet [OF assms(1) has_roomI [OF assms(1,2)], of pt ssrc seq] assms(3) by (metis sum.inject(2))
  have n: "rp_payload_len mux \<noteq> 0" using arg_cong [OF m(2), of length] by (auto simp: GetPayload_def)
  have q: "GetSeq pkt' = GetSeq pkt" using m(4) by (simp add: rtp_view_def)
  have u: "unat (GetSeq pkt - max_seq s) > 64036"
  proof -
    have "GetSeq pkt - max_seq s = - d" by (simp add: assms(10))
    moreover have "unat (- d) = 65536 - unat d" using assms(11) unat_sub_if_size [of 0 d] by (simp add: word_size)
    ultimately show ?thesis using assms(12) by (simp add: MAX_MISORDER_def)
  qed
  show ?thesis
  proof (cases "IsInNackList (GetSeq pkt) g")
    case False
    then show ?thesis using m(3-5) n q assms(4,5,6,8) by (intro exI) (auto simp: ReceiveRtxPacket_def)
  next
    case True
    have r: "in_reach (GetSeq pkt') s"
      using u assms(8,9) by (simp add: in_reach_def q MAX_MISORDER_def RTP_SEQ_MOD_def)
    obtain s' where s': "ReceiveRtpPacket pkt' s = (Inr True, s')" "in_step s'"
      "nack_gen s' = Some (update_nack_list (GetSeq pkt) g)"
      "ss_count (recv_statics s') = Suc (ss_count (recv_statics s))" "max_seq s' = max_seq s"
      using ReceiveRtpPacket_step [OF assms(6,8,7) r] u q by (auto simp: MAX_DROPOUT_def)
    have l: "ng_last_seq g = max_seq s" using assms(6,8,9) by (auto simp: in_step_def)
    have "update_nack_list (GetSeq pkt) g = g\<lparr>ng_nack_map := om_erase (GetSeq pkt) (ng_nack_map g)\<rparr>"
      using update_nack_list_last(2) [of g "max_seq s" "GetSeq pkt"] l u assms(9) by simp
    then have "\<forall>k. IsInNackList k (update_nack_list (GetSeq pkt) g) \<longleftrightarrow> IsInNackList k g \<and> k \<noteq> GetSeq pkt"
      by (simp add: IsInNackList_def)
    moreover have "ReceiveRtxPacket mux s = (Inr (True, Some False, pkt'), s')"
      using True m(3) n s'(1) assms(4,5,8) q by (simp add: ReceiveRtxPacket_def)
    ultimately show ?thesis using True m(4,5) s'(2-5) by auto
  qed
qed

text \<open>
  A retransmission repairs the stream: the original packet, sent through \<open>RtxMux\<close>, is
  restored by \<open>ReceiveRtxPacket\<close>. When its number is in the NACK list it is accepted and counted and exactly this number
  leaves the list; when it is not (it was not asked for, or has been repaired already) it is
  reported as a repetition and the session does not change.
\<close>

theorem rtx_repairs:
  assumes "rtp_ok pkt" and "rp_data_len pkt + 2 \<le> length (rp_buf pkt)" and "RtxMux pkt pt ssrc seq = Inr mux"
    and "p_ssrc (param s) = GetSsrc pkt" and "p_payload_type (param s) = GetPayloadType pkt"
    and "in_step s" and "\<not> first_pkt s" and "nack_gen s = Some g" and "ng_init_flag g"
    and "max_seq s = GetSeq pkt + d" and "0 < unat d" and "unat d < MAX_MISORDER"
  shows "\<exists>pkt' s' g'. rtp_view pkt' = rtp_view pkt \<and> nack_gen s' = Some g' \<and> in_step s' \<and>
    (if IsInNackList (GetSeq pkt) g
     then ReceiveRtxPacket mux s = (Inr (True, Some False, pkt'), s') \<and> max_seq s' = max_seq s \<and>
       (\<forall>k. IsInNackList k g' \<longleftrightarrow> IsInNackList k g \<and> k \<noteq> GetSeq pkt) \<and>
       ss_count (recv_statics s') = Suc (ss_count (recv_statics s))
     else ReceiveRtxPacket mux s = (Inr (True, Some True, pkt'), s') \<and> s' = s)"
  using rtx_restores [OF assms] by blast

theorem rtx_repairs_witness:
  "\<exists>s mux pkt' s' g'. nack_gen s = Some nack_example \<and> IsInNackList 11 nack_example \<and>
     ReceiveRtxPacket mux s = (Inr (True, Some False, pkt'), s') \<and> GetSeq pkt' = 11 \<and> GetPayload pkt' = [0xAA] \<and>
     nack_gen s' = Some g' \<and> \<not> IsInNackList 11 g'"
proof -
  let ?P = "Parse 7 ([0x80, 96, 0, 11, 0, 0, 0, 2, 0, 0, 0, 3, 0xAA] @ replicate 20 0) 13"
  have "case_sum (\<lambda>_. False) (\<lambda>p. rtp_view p = (11, 2, 3, 96, 0, [0xAA])) ?P" by code_simp
  then obtain p where p: "?P = Inr p" "rtp_view p = (11, 2, 3, 96, 0, [0xAA])" by (auto split: sum.splits)
  have v: "GetSeq p = 11" "GetSsrc p = 3" "GetPayloadType p = 96" "GetPayload p = [0xAA]" using p(2) by (simp_all add: rtp_view_def)
  have ok: "rtp_ok p" "rp_data_len p + 2 \<le> length (rp_buf p)" using Parse_Inr [OF p(1)] by auto
  obtain mux where m: "RtxMux p 97 9 500 = Inr mux" using retransmit_packet [OF ok(1) has_roomI [OF ok]] by blast
  define s where "s = (RtpRecvSession_new (RtpSessionParam_default\<lparr>p_use_nack := True, p_ssrc := 3, p_payload_type := 96\<rparr>)
    \<lparr>ntp_sec = 0, ntp_frac = 0\<rparr>)\<lparr>first_pkt := False, max_seq := 12, nack_gen := Some nack_example\<rparr>"
  have n: "nack_inv nack_example" "ng_last_seq nack_example = 12" "ng_init_flag nack_example" "IsInNackList 11 nack_example"
    using nack_reach_inv [OF nack_example_reach] by (simp_all add: nack_example_def IsInNackList_def om_find_def)
  have s: "p_ssrc (param s) = 3" "p_payload_type (param s) = 96" "in_step s" "\<not> first_pkt s"
    "nack_gen s = Some nack_example" "max_seq s = 12"
    using n by (simp_all add: s_def in_step_def RtpRecvSession_new_def rtp_session.defs rtp_recv_session.defs
        rtp_session_init_def RtpSessionParam_default_def)
  from rtx_repairs [OF ok m _ _ s(3,4,5) n(3), of 1] s(1,2,6) v n(4) obtain pkt' s' g' where
    "rtp_view pkt' = rtp_view p" "ReceiveRtxPacket mux s = (Inr (True, Some False, pkt'), s')"
    "nack_gen s' = Some g'" "\<not> IsInNackList 11 g'"
    by (auto simp: MAX_MISORDER_def)
  moreover have "GetSeq pkt' = 11" "GetPayload pkt' = [0xAA]" using calculation(1) p(2) by (simp_all add: rtp_view_def)
  ultimately show ?thesis using s(5) n(4) by blast
qed

section \<open>Loss figures\<close>

lemma le_int_div_iff:
  assumes "0 < (k :: int)"
  shows "q \<le> n div k \<longleftrightarrow> q * k \<le> n"
proof
  assume "q \<le> n div k"
  then have "q * k \<le> n div k * k" using assms by (intro mult_right_mono) simp_all
  moreover have "n div k * k + n mod k = n" by simp
  ultimately show "q * k \<le> n" using pos_mod_sign [OF assms, of n] by linarith
next
  assume "q * k \<le> n"
  from zdiv_mono1 [OF this assms] show "q \<le> n div k" using assms by simp
qed

lemma round_div_bounds:
  assumes "0 < e" and "0 < r" and "r \<le> e"
  shows "0 \<le> round_div ((e - r) * 256) e" "round_div ((e - r) * 256) e \<le> 256"
    "round_div ((e - r) * 256) e = 256 \<longleftrightarrow> 512 * r \<le> e"
proof -
  let ?n = "2 * ((e - r) * 256) + e"
  have v: "round_div ((e - r) * 256) e = ?n div (2 * e)" using assms by (simp add: round_div_def)
  show "0 \<le> round_div ((e - r) * 256) e" unfolding v using assms by (simp add: pos_imp_zdiv_nonneg_iff)
  have "\<not> 257 \<le> ?n div (2 * e)" using assms by (subst le_int_div_iff) simp_all
  then show le: "round_div ((e - r) * 256) e \<le> 256" unfolding v by simp
  have "256 \<le> ?n div (2 * e) \<longleftrightarrow> 256 * (2 * e) \<le> ?n" using assms by (intro le_int_div_iff) simp
  then show "round_div ((e - r) * 256) e = 256 \<longleftrightarrow> 512 * r \<le> e" using le unfolding v by auto
qed

lemma GetExpectedPackets_diff:
  assumes "seq_ok s" and "highest s < 2 ^ 32" and "bad_seq s = 65537"
  shows "GetExpectedPackets s = (if highest s < 65536 then int (highest s) + 4294901760 else int (highest s) - 65536)"
proof -
  have "cycles s + ucast (max_seq s) - bad_seq s + 1 = word_of_int (int (highest s) - 65536)"
    by (simp add: highest_def assms(3))
  then have *: "GetExpectedPackets s = (int (highest s) - 65536) mod 2 ^ 32"
    unfolding GetExpectedPackets_def by (simp only: uint_word_of_int) simp
  show ?thesis
  proof (cases "highest s < 65536")
    case True
    have "(int (highest s) - 65536) mod 2 ^ 32 = (int (highest s) - 65536 + 2 ^ 32) mod 2 ^ 32"
      by (rule mod_add_self2 [symmetric])
    also have "\<dots> = int (highest s) + 4294901760" by (subst mod_pos_pos_trivial) (use True in simp_all)
    finally show ?thesis using * True by simp
  next
    case False
    then show ?thesis using * assms(2) by (simp add: mod_pos_pos_trivial)
  qed
qed

text \<open>The figures a report computes, from the session at the previous report and the session now.\<close>

lemma loss_figures:
  assumes "seq_ok s0" and "seq_ok s" and "bad_seq s0 = 65537" and "bad_seq s = 65537"
    and "highest s0 < highest s" and "highest s < 2 ^ 32"
    and "expect_recv s = GetExpectedPackets s0" and "0 < last_recv s" and "last_recv s < int (ss_count (recv_statics s))"
    and "expected = int (highest s) - int (highest s0)" and "received = int (ss_count (recv_statics s)) - last_recv s"
    and "received \<le> expected"
  shows "if highest s < 65536 \<or> 65536 \<le> highest s0
    then total_lost (GetLostStatics s) = total_lost s + (expected - received) \<and>
      frac_lost (GetLostStatics s) = round_div ((expected - received) * 256) expected \<and>
      0 \<le> frac_lost (GetLostStatics s) \<and> frac_lost (GetLostStatics s) \<le> 256 \<and>
      (frac_lost (GetLostStatics s) = 256 \<longleftrightarrow> 512 * received \<le> expected)
    else total_lost (GetLostStatics s) = total_lost s \<and> frac_lost (GetLostStatics s) = 0"
proof -
  have pos: "0 < expected" "0 < received" using assms(5,9,10,11) by simp_all
  note E = GetExpectedPackets_diff [OF assms(2,6,4)] GetExpectedPackets_diff [OF assms(1) _ assms(3)]
  have h0: "highest s0 < 2 ^ 32" using assms(5,6) by simp
  show ?thesis
  proof (cases "highest s < 65536 \<or> 65536 \<le> highest s0")
    case True
    then have "GetExpectedPackets s - expect_recv s = expected"
      using E(1) E(2) [OF h0] assms(5,7,10) by auto
    then show ?thesis
      using True pos assms(8,11) round_div_bounds [OF pos assms(12)] by (simp add: GetLostStatics_def Let_def)
  next
    case False
    then have "GetExpectedPackets s - expect_recv s \<le> 0"
      using E(1) E(2) [OF h0] assms(6,7) by simp
    then show ?thesis using False assms(8) by (simp add: GetLostStatics_def Let_def)
  qed
qed

definition since_report :: "rtp_recv_session \<Rightarrow> rtp_recv_session \<Rightarrow> bool" where
  \<comment> \<open>the last report before \<open>s\<close> was made from \<open>s0\<close>; what it stored is still there\<close>
  "since_report s0 s \<longleftrightarrow> expect_recv s = expect_recv (GetLostStatics s0) \<and> last_recv s = last_recv (GetLostStatics s0) \<and>
     total_lost s = total_lost (GetLostStatics s0)"

lemma since_report_stored:
  "since_report s0 s \<Longrightarrow> expect_recv s = GetExpectedPackets s0 \<and> last_recv s = int (ss_count (recv_statics s0))"
  by (simp add: since_report_def GetLostStatics_def Let_def)

lemma byte_of_fraction:
  assumes "0 \<le> x" and "x \<le> 256"
  shows "uint (word_of_int x :: u8) = (if x = 256 then 0 else x)"
proof -
  have "uint (word_of_int x :: u8) = x mod 256" by (simp add: uint_word_of_int)
  then show ?thesis using assms by (cases "x = 256") simp_all
qed

text \<open>
  C38. The loss figures of the receiver report that is sent, for two successive reports made from the session states \<open>s0\<close> and
  then \<open>s\<close>, neither with a sequence jump pending, when packets had been counted before the first report, at least one since, and
  not more than expected (no duplicates). While the highest extended number stays on one side of 65536, the interval is
  accounted exactly: the cumulative loss of the report grows by the packets expected less the packets received, and its
  fraction is \<open>256 lost / expected\<close>, rounded; but when the rounding reaches 256, that is when at most one packet in
  512 arrived, the 8 bit field says 0: nearly everything lost is reported as no loss. The interval in
  which the number passes 65536 is not accounted at all, since \<open>GetExpectedPackets\<close> wraps there.
\<close>

theorem loss_accounted:
  assumes "seq_ok s0" and "seq_ok s" and "bad_seq s0 = 65537" and "bad_seq s = 65537"
    and "highest s0 < highest s" and "highest s < 2 ^ 32" and "since_report s0 s"
    and "0 < ss_count (recv_statics s0)" and "ss_count (recv_statics s0) < ss_count (recv_statics s)"
    and "expected = int (highest s) - int (highest s0)"
    and "received = int (ss_count (recv_statics s)) - int (ss_count (recv_statics s0))" and "received \<le> expected"
    and "length mem = 24"
  shows "\<exists>d q b. SendRtcpRR now_ms mem s = Inr (d, GetLostStatics s) \<and> Rr_Parse d (length d) = Inr q \<and> GetRrBlocks q = Inr [b] \<and>
    (if highest s < 65536 \<or> 65536 \<le> highest s0
     then Rr_GetCumulativeLost b = take_bit 24 (word_of_int (total_lost s + (expected - received))) \<and>
       uint (Rr_GetFracLost b) = (if 512 * received \<le> expected then 0 else round_div ((expected - received) * 256) expected)
     else Rr_GetCumulativeLost b = take_bit 24 (word_of_int (total_lost s)) \<and> Rr_GetFracLost b = 0)"
proof -
  note st = since_report_stored [OF assms(7)]
  have l: "0 < last_recv s" "last_recv s < int (ss_count (recv_statics s))"
    "received = int (ss_count (recv_statics s)) - last_recv s" using st assms(8,9,11) by simp_all
  note F = loss_figures [OF assms(1-6) conjunct1 [OF st] l(1,2) assms(10) l(3) assms(12)]
  obtain d q b where d: "SendRtcpRR now_ms mem s = Inr (d, GetLostStatics s)" "Rr_Parse d (length d) = Inr q"
    "GetRrBlocks q = Inr [b]" "rr_reports (GetLostStatics s) now_ms b"
    using SendRtcpRR_ok [OF assms(13)] by blast
  then have "Rr_GetCumulativeLost b = take_bit 24 (word_of_int (total_lost (GetLostStatics s)))"
    "Rr_GetFracLost b = word_of_int (frac_lost (GetLostStatics s))" by (simp_all add: rr_reports_def)
  note B = this byte_of_fraction [of "frac_lost (GetLostStatics s)"]
  show ?thesis
  proof (cases "highest s < 65536 \<or> 65536 \<le> highest s0")
    case True
    note G = F [unfolded if_P [OF True]]
    let ?x = "frac_lost (GetLostStatics s)"
    have g: "?x = round_div ((expected - received) * 256) expected" "?x = 256 \<longleftrightarrow> 512 * received \<le> expected"
      "0 \<le> ?x" "?x \<le> 256" "total_lost (GetLostStatics s) = total_lost s + (expected - received)"
      using G by blast+
    have "uint (Rr_GetFracLost b) = (if ?x = 256 then 0 else ?x)" unfolding B(2) by (rule byte_of_fraction [OF g(3,4)])
    then have "uint (Rr_GetFracLost b) = (if 512 * received \<le> expected then 0 else round_div ((expected - received) * 256) expected)"
      unfolding g(2) unfolding g(1) .
    then show ?thesis using True B(1) [unfolded g(5)] d(1-3) by (intro exI [of _ d] exI [of _ q] exI [of _ b] conjI) (simp_all only: simp_thms if_True)
  next
    case False
    then show ?thesis using F B(1,2) d(1-3) by (intro exI [of _ d] exI [of _ q] exI [of _ b]) simp
  qed
qed

theorem loss_accounted_witness:
  "\<exists>s d q b. highest s = 200 \<and> ss_count (recv_statics s) = 125 \<and>
     SendRtcpRR 5000 (replicate 24 0) s = Inr (d, GetLostStatics s) \<and> Rr_Parse d (length d) = Inr q \<and> GetRrBlocks q = Inr [b] \<and>
     uint (Rr_GetFracLost b) = 64"
proof -
  let ?new = "RtpRecvSession_new RtpSessionParam_default \<lparr>ntp_sec = 0, ntp_frac = 0\<rparr>"
  define s0 where "s0 = (InitSeq 100 ?new)\<lparr>recv_statics := StreamStatics_new\<lparr>ss_count := 50\<rparr>\<rparr>"
  define s where "s = (InitSeq 200 ?new)\<lparr>expect_recv := expect_recv (GetLostStatics s0), last_recv := last_recv (GetLostStatics s0),
    total_lost := total_lost (GetLostStatics s0), recv_statics := StreamStatics_new\<lparr>ss_count := 125\<rparr>\<rparr>"
  have b: "seq_ok s0" "seq_ok s" "bad_seq s0 = 65537" "bad_seq s = 65537" "highest s0 = 100" "highest s = 200"
    "since_report s0 s" "ss_count (recv_statics s0) = 50" "ss_count (recv_statics s) = 125"
    by (simp_all add: s_def s0_def InitSeq_def RTP_SEQ_MOD_def seq_ok_def highest_def RtpRecvSession_new_def since_report_def
        rtp_session.defs rtp_recv_session.defs)
  have "round_div ((100 - 75) * 256) 100 = 64" by (simp add: round_div_def)
  then obtain d q x where "SendRtcpRR 5000 (replicate 24 0) s = Inr (d, GetLostStatics s)" "Rr_Parse d (length d) = Inr q"
    "GetRrBlocks q = Inr [x]" "uint (Rr_GetFracLost x) = 64"
    using loss_accounted [OF b(1-4) _ _ b(7), of 100 75 "replicate 24 0" 5000] b(5,6,8,9) by auto
  with b show ?thesis by blast
qed

end
