(* ===== verification/Rtp_Send.thy ===== *)
theory Rtp_Send
  imports Rtp_Session Rtcp_Feedback "HOL-Library.Signed_Division"
begin

unbundle bit_operations_syntax

text \<open>
  \<open>RtpSendSession\<close> of \<open>webrtc_room/rtp_send_session.cpp\<close>: forwards the packets of one stream to a puller,
  keeps the last 1000 of them for retransmission, answers NACKs with RTX packets, sends sender reports
  and evaluates receiver reports. Datagrams handed to the transport callback are returned as values.
  Members used for log texts only (ids) are left out; \<open>lost_rate_\<close> is kept as its numerator over 256.
\<close>

section \<open>State\<close>

definition SEND_RTX_CACHE_SIZE :: nat where "SEND_RTX_CACHE_SIZE = 1000"

record rtp_send_session = rtp_session +
  rtx_packet_cache :: "rtp_packet option list"
  send_statics :: StreamStatics
  last_rtcp_sr_ms :: int
  last_rtcp_sr_rtp_ts :: int
  avg_rtt_ms :: int
  lost_total :: int
  lost_fract :: int
  lost_rate_256 :: int
  rtcp_rr_dbg_ms :: int
  rtx_seq :: u16
  last_seq :: u16
  has_send_cb :: bool

definition RtpSendSession_new :: "RtpSessionParam \<Rightarrow> bool \<Rightarrow> rtp_send_session" where
  "RtpSendSession_new p cb = rtp_session.extend (rtp_session_init p)
     (rtp_send_session.fields (replicate SEND_RTX_CACHE_SIZE None) StreamStatics_new (-1) 0 30 0 0 0 (-1) 0 0 cb)"

section \<open>Sending and caching\<close>

definition StoreRtxPacket :: "int \<Rightarrow> bytes \<Rightarrow> rtp_packet \<Rightarrow> rtp_send_session \<Rightarrow> rtp_send_session res" where
  \<comment> \<open>\<open>mem\<close> is the block \<open>Clone\<close> allocates\<close>
  "StoreRtxPacket now_ms mem in_pkt s =
     (if \<not> p_use_nack (param s) \<or> p_rtx_ssrc (param s) = 0 \<or> p_rtx_payload_type (param s) = 0 then Inr s
      else rbind (Clone now_ms mem True in_pkt) (\<lambda>rtp_pkt.
        let index = unat (GetSeq rtp_pkt) mod SEND_RTX_CACHE_SIZE in
        Inr (s\<lparr>rtx_packet_cache := (rtx_packet_cache s)[index := Some rtp_pkt]\<rparr>)))"

definition send_store :: "int \<Rightarrow> bytes \<Rightarrow> rtp_packet \<Rightarrow> rtp_send_session \<Rightarrow> bool res \<times> rtp_send_session" where
  \<comment> \<open>\<open>StoreRtxPacket(rtp_pkt); return true;\<close>, with the state an exception leaves behind\<close>
  "send_store now_ms mem rtp_pkt s =
     (case StoreRtxPacket now_ms mem rtp_pkt s of Inl e \<Rightarrow> (Inl e, s) | Inr s' \<Rightarrow> (Inr True, s'))"

definition SendRtpPacket :: "int \<Rightarrow> bytes \<Rightarrow> rtp_packet \<Rightarrow> rtp_send_session \<Rightarrow> bool res \<times> rtp_send_session" where
  "SendRtpPacket now_ms mem rtp_pkt s0 =
     (let s = s0\<lparr>last_seq := GetSeq rtp_pkt\<rparr> in
      if first_pkt s then
        send_store now_ms mem rtp_pkt
          ((InitSeq (GetSeq rtp_pkt) (s\<lparr>first_pkt := False\<rparr>))
            \<lparr>last_pkt_ms := rp_local_ms rtp_pkt, last_rtp_ts := uint (GetTimestamp rtp_pkt)\<rparr>)
      else (case UpdateSeq rtp_pkt s of
        (False, s1) \<Rightarrow> (Inr False, s1)
      | (True, s1) \<Rightarrow>
          send_store now_ms mem rtp_pkt
            (s1\<lparr>last_pkt_ms := rp_local_ms rtp_pkt, last_rtp_ts := uint (GetTimestamp rtp_pkt),
                send_statics := ss_Update (rp_data_len rtp_pkt) (rp_local_ms rtp_pkt) (send_statics s1)\<rparr>)))"

lemma send_store_Inr: "send_store now_ms mem pkt s = (Inr r, s') \<longleftrightarrow> r \<and> StoreRtxPacket now_ms mem pkt s = Inr s'"
  by (auto simp: send_store_def split: sum.split)

section \<open>Retransmission\<close>

definition RetransmitRtxPackets ::
    "nat \<Rightarrow> rtp_packet \<Rightarrow> rtp_send_session \<Rightarrow> bytes list \<times> rtp_send_session \<times> cpp_error option" where
  \<comment> \<open>\<open>rtp_pkt\<close> is the object in slot \<open>index\<close>, which is rewritten in place; the last component is the failure
    that ends the call, if any\<close>
  "RetransmitRtxPackets index rtp_pkt s =
     (if p_rtx_ssrc (param s) > 0 \<and> p_rtx_payload_type (param s) > 0 \<and> has_send_cb s then
        let origin_ssrc = GetSsrc rtp_pkt; origin_payload = GetPayloadType rtp_pkt;
            s1 = s\<lparr>rtx_seq := rtx_seq s + 1\<rparr> in
        (case RtxMux rtp_pkt (p_rtx_payload_type (param s)) (p_rtx_ssrc (param s)) (rtx_seq s1) of
           Inl e \<Rightarrow> ([], s1, Some e)
         | Inr mux \<Rightarrow>
             (case RtxDemux mux origin_ssrc origin_payload of
                Inl e \<Rightarrow> ([GetData mux], s1\<lparr>rtx_packet_cache := (rtx_packet_cache s1)[index := Some mux]\<rparr>, Some e)
              | Inr pkt' \<Rightarrow> ([GetData mux], s1\<lparr>rtx_packet_cache := (rtx_packet_cache s1)[index := Some pkt']\<rparr>, None)))
      else ([], s, None))"

fun nack_retransmit :: "u16 list \<Rightarrow> rtp_send_session \<Rightarrow> bytes list \<times> rtp_send_session \<times> cpp_error option" where
  \<comment> \<open>the loop over the lost numbers\<close>
  "nack_retransmit [] s = ([], s, None)"
| "nack_retransmit (seq # seqs) s =
     (let index = unat seq mod SEND_RTX_CACHE_SIZE in
      case (rtx_packet_cache s) ! index of
        None \<Rightarrow> nack_retransmit seqs s
      | Some rtx_pkt \<Rightarrow>
          if GetSeq rtx_pkt = seq then
            (case RetransmitRtxPackets index rtx_pkt s of
               (out, s1, Some e) \<Rightarrow> (out, s1, Some e)
             | (out, s1, None) \<Rightarrow> (let (outs, s2, e) = nack_retransmit seqs s1 in (out @ outs, s2, e)))
          else nack_retransmit seqs s)"

definition RecvRtcpFbNack :: "fb_nack \<Rightarrow> rtp_send_session \<Rightarrow> (int \<times> bytes list \<times> rtp_send_session) res" where
  \<comment> \<open>the return value, the datagrams sent and the new state; an exception is caught and becomes \<open>-1\<close>\<close>
  "RecvRtcpFbNack nack_pkt s =
     (case GetLostSeqs nack_pkt of
        Inl Throw \<Rightarrow> Inr (-1, [], s)
      | Inl e \<Rightarrow> Inl e
      | Inr lost_seqs \<Rightarrow>
          (case nack_retransmit lost_seqs s of
             (outs, s', None) \<Rightarrow> Inr (0, outs, s')
           | (outs, s', Some Throw) \<Rightarrow> Inr (-1, outs, s')
           | (outs, s', Some e) \<Rightarrow> Inl e))"

section \<open>Reports\<close>

definition OnSendRtcpSr :: "int \<Rightarrow> rtp_send_session \<Rightarrow> bytes option \<times> rtp_send_session" where
  "OnSendRtcpSr now_ms s =
     (if last_rtcp_sr_ms s < 0 then (None, s\<lparr>last_rtcp_sr_ms := now_ms\<rparr>)
      else if now_ms - last_rtcp_sr_ms s < 1000 then (None, s)
      else if ss_count (send_statics s) = 0 then (None, s)
      else let ntp = millisec_to_ntp now_ms;
        diff_ms = now_ms - last_pkt_ms s;
        diff_ts = (uint (p_clock_rate (param s)) * diff_ms) sdiv 1000;
        rtp_ts = (word_of_int (last_rtp_ts s) :: u32) + word_of_int diff_ts;
        sr_pkt = sr_build (p_ssrc (param s)) (ntp_sec ntp) (ntp_frac ntp) rtp_ts
          (of_nat (ss_count (send_statics s))) (of_nat (ss_bytes (send_statics s)))
      in (Some (Sr_Serial sr_pkt),
          s\<lparr>last_rtcp_sr_ms := now_ms, last_rtcp_sr_rtp_ts := uint rtp_ts\<rparr>))"

definition send_OnTimer :: "int \<Rightarrow> rtp_send_session \<Rightarrow> bytes option \<times> rtp_send_session" where
  "send_OnTimer now_ms s = OnSendRtcpSr now_ms s"

definition rr_rtt_ms :: "int \<Rightarrow> u32 \<Rightarrow> u32 \<Rightarrow> u32" where
  \<comment> \<open>the round trip time computed from a report block, capped at 200\<close>
  "rr_rtt_ms now_ms lsr dlsr =
     (let ntp = millisec_to_ntp now_ms;
          compactNtp = push_bit 16 (ntp_sec ntp AND 0x0000FFFF) OR drop_bit 16 (ntp_frac ntp AND 0xFFFF0000);
          rtt_ms = (if compactNtp > dlsr + lsr then
              let rtt_ntp_frac = compactNtp - dlsr - lsr in
              drop_bit 16 rtt_ntp_frac * 1000 + drop_bit 16 ((rtt_ntp_frac AND 0x0000FFFF) * 1000)
            else 5)
      in if rtt_ms > 200 then 200 else rtt_ms)"

definition RecvRtcpRrBlock :: "int \<Rightarrow> bytes \<Rightarrow> rtp_send_session \<Rightarrow> int \<times> rtp_send_session" where
  "RecvRtcpRrBlock now_ms rr_block s =
     (let lsr = Rr_GetLsr rr_block; dlsr = Rr_GetDlsr rr_block in
      if lsr = 0 \<or> dlsr = 0 then (0, s)
      else let s1 = s\<lparr>avg_rtt_ms := (avg_rtt_ms s * 15 + uint (rr_rtt_ms now_ms lsr dlsr)) sdiv 16,
            lost_total := uint (Rr_GetCumulativeLost rr_block), lost_fract := uint (Rr_GetFracLost rr_block),
            lost_rate_256 := uint (Rr_GetFracLost rr_block)\<rparr>
      in (0, if rtcp_rr_dbg_ms s1 < 0 \<or> now_ms - rtcp_rr_dbg_ms s1 > 5000
             then s1\<lparr>rtcp_rr_dbg_ms := now_ms\<rparr> else s1))"

section \<open>Invariant\<close>

definition cache_ok :: "rtp_send_session \<Rightarrow> bool" where
  \<comment> \<open>every slot holds a well-formed packet of its own residue class in a block of its own, which \<open>Clone\<close>
    allocates with room for at most 1499 bytes of packet\<close>
  "cache_ok s \<longleftrightarrow> length (rtx_packet_cache s) = SEND_RTX_CACHE_SIZE \<and>
     (\<forall>i < SEND_RTX_CACHE_SIZE. \<forall>p. rtx_packet_cache s ! i = Some p \<longrightarrow>
        rtp_ok p \<and> unat (GetSeq p) mod SEND_RTX_CACHE_SIZE = i \<and>
        rp_data_len p < RTP_PACKET_MAX_SIZE \<and> length (rp_buf p) = RTP_PACKET_MAX_SIZE)"

definition cached :: "u16 \<Rightarrow> rtp_send_session \<Rightarrow> rtp_packet option" where
  \<comment> \<open>the packet a NACK for \<open>seq\<close> finds\<close>
  "cached seq s = (case rtx_packet_cache s ! (unat seq mod SEND_RTX_CACHE_SIZE) of
     None \<Rightarrow> None | Some p \<Rightarrow> if GetSeq p = seq then Some p else None)"

definition rtx_enabled :: "rtp_send_session \<Rightarrow> bool" where
  "rtx_enabled s \<longleftrightarrow> p_rtx_ssrc (param s) > 0 \<and> p_rtx_payload_type (param s) > 0 \<and> has_send_cb s"

definition rtx_datagram :: "RtpSessionParam \<Rightarrow> u16 \<Rightarrow> rtp_packet \<Rightarrow> bytes \<Rightarrow> bool" where
  \<comment> \<open>\<open>out\<close> is the RFC 4588 retransmission of \<open>p\<close> with sequence number \<open>n\<close>\<close>
  "rtx_datagram prm n p out \<longleftrightarrow> hdr_sequence out = n \<and> hdr_ssrc out = p_rtx_ssrc prm \<and>
     hdr_payload_type out = take_bit 7 (p_rtx_payload_type prm) \<and>
     hdr_timestamp out = GetTimestamp p \<and> hdr_marker out = GetMarker p \<and>
     drop (rp_payload p) out = be 2 (GetSeq p) @ GetPayload p"

abbreviation slot :: "u16 \<Rightarrow> nat" where
  "slot q \<equiv> unat q mod SEND_RTX_CACHE_SIZE"

lemma slot_less [simp]: "slot q < SEND_RTX_CACHE_SIZE"
  by (simp add: SEND_RTX_CACHE_SIZE_def)

lemma cached_Some: "cached q s = Some p \<longleftrightarrow> rtx_packet_cache s ! slot q = Some p \<and> GetSeq p = q"
  by (auto simp: cached_def split: option.splits)

lemma rtx_datagram_GetData:
  assumes "rtp_ok mux" and "rp_pad_len mux = 0" and "rp_payload mux = rp_payload p" and "GetSeq mux = n"
    and "GetSsrc mux = p_rtx_ssrc prm" and "GetPayloadType mux = take_bit 7 (p_rtx_payload_type prm)"
    and "GetTimestamp mux = GetTimestamp p" and "GetMarker mux = GetMarker p"
    and "GetPayload mux = be 2 (GetSeq p) @ GetPayload p"
  shows "rtx_datagram prm n p (GetData mux)"
proof -
  have "12 \<le> rp_data_len mux" "rp_data_len mux = rp_payload mux + rp_payload_len mux"
    using assms(1,2) by (simp_all add: rtp_ok_def)
  then show ?thesis
    using assms by (simp add: rtx_datagram_def GetData_def hdr_prefix drop_take GetSeq_def GetSsrc_def
        GetPayloadType_def GetTimestamp_def GetMarker_def GetPayload_def)
qed

lemma RetransmitRtxPackets_ok:
  assumes "cache_ok s" and "rtx_enabled s" and "cached q s = Some p" and "has_room p"
  shows "\<exists>out s1. RetransmitRtxPackets (slot q) p s = ([out], s1, None) \<and> cache_ok s1 \<and> rtx_enabled s1 \<and>
    param s1 = param s \<and> rtx_seq s1 = rtx_seq s + 1 \<and> rtx_datagram (param s) (rtx_seq s + 1) p out \<and>
    (\<forall>r. map_option rtp_view (cached r s1) = map_option rtp_view (cached r s) \<and>
         map_option rp_payload (cached r s1) = map_option rp_payload (cached r s))"
proof -
  have p: "rtx_packet_cache s ! slot q = Some p" "GetSeq p = q" using assms(3) by (simp_all add: cached_Some)
  then have ok: "rtp_ok p" "rp_data_len p < RTP_PACKET_MAX_SIZE" "length (rp_buf p) = RTP_PACKET_MAX_SIZE" and len: "length (rtx_packet_cache s) = SEND_RTX_CACHE_SIZE"
    using assms(1) slot_less unfolding cache_ok_def by blast+
  obtain mux p' where m: "RtxMux p (p_rtx_payload_type (param s)) (p_rtx_ssrc (param s)) (rtx_seq s + 1) = Inr mux"
    "rtp_ok mux" "GetSeq mux = rtx_seq s + 1" "GetSsrc mux = p_rtx_ssrc (param s)"
    "GetPayloadType mux = take_bit 7 (p_rtx_payload_type (param s))" "GetPayload mux = be 2 (GetSeq p) @ GetPayload p"
    and d: "RtxDemux mux (GetSsrc p) (GetPayloadType p) = Inr p'" "rtp_ok p'" "rtp_view p' = rtp_view p"
      "rp_data_len p' \<le> rp_data_len p" "length (rp_buf p') = length (rp_buf p)"
    and x: "rp_payload mux = rp_payload p" "rp_pad_len mux = 0" "GetTimestamp mux = GetTimestamp p" "GetMarker mux = GetMarker p"
    by (rule retransmit_packet [OF ok(1) assms(4)])
  have pp: "rp_payload p' = rp_payload p"
    using d(1) x(1) m(2) by (auto simp: RtxDemux_def Let_def drop_padding_eq SetSsrc_def SetSeq_def SetPayloadType_def split: if_splits)
  have seq': "GetSeq p' = q" using d(3) p(2) by (simp add: rtp_view_def)
  let ?s1 = "s\<lparr>rtx_seq := rtx_seq s + 1, rtx_packet_cache := (rtx_packet_cache s)[slot q := Some p']\<rparr>"
  have "RetransmitRtxPackets (slot q) p s = ([GetData mux], ?s1, None)"
    using assms(2) m(1) d(1) by (simp add: RetransmitRtxPackets_def rtx_enabled_def Let_def)
  moreover have "cache_ok ?s1"
    using assms(1) d(2,4,5) ok(2,3) seq' len by (auto simp: cache_ok_def nth_list_update)
  moreover have "map_option rtp_view (cached r ?s1) = map_option rtp_view (cached r s) \<and>
      map_option rp_payload (cached r ?s1) = map_option rp_payload (cached r s)" for r
    using d(3) p seq' len pp by (auto simp: cached_def nth_list_update)
  moreover have "rtx_datagram (param s) (rtx_seq s + 1) p (GetData mux)"
    by (rule rtx_datagram_GetData) (use m x in simp_all)
  ultimately show ?thesis using assms(2) by (fastforce simp: rtx_enabled_def)
qed

text \<open>The requests of a NACK that can be served, and the datagrams that answer them.\<close>

fun rtx_answers :: "RtpSessionParam \<Rightarrow> u16 \<Rightarrow> rtp_packet option list \<Rightarrow> bytes list \<Rightarrow> bool" where
  "rtx_answers prm n [] outs \<longleftrightarrow> outs = []"
| "rtx_answers prm n (None # ps) outs \<longleftrightarrow> rtx_answers prm n ps outs"
| "rtx_answers prm n (Some p # ps) outs \<longleftrightarrow>
     (\<exists>out outs'. outs = out # outs' \<and> rtx_datagram prm (n + 1) p out \<and> rtx_answers prm (n + 1) ps outs')"

definition same_view :: "rtp_packet option \<Rightarrow> rtp_packet option \<Rightarrow> bool" where
  "same_view a b \<longleftrightarrow> map_option rtp_view a = map_option rtp_view b \<and> map_option rp_payload a = map_option rp_payload b"

lemma rtx_answers_cong: "list_all2 same_view ps qs \<Longrightarrow> rtx_answers prm n ps outs = rtx_answers prm n qs outs"
proof (induction ps qs arbitrary: n outs rule: list_all2_induct)
  case (Cons a ps b qs)
  then show ?case
    by (cases a; cases b) (auto simp: same_view_def rtx_datagram_def rtp_view_def)
qed simp

lemma cached_ok:
  assumes "cache_ok s" and "cached q s = Some p"
  shows "rtp_ok p" "has_room p \<longleftrightarrow> rp_payload p + length (GetPayload p) + 2 \<le> RTP_PACKET_MAX_SIZE"
proof -
  have p: "rtp_ok p" "length (rp_buf p) = RTP_PACKET_MAX_SIZE"
    using assms slot_less unfolding cache_ok_def cached_Some by blast+
  then show "rtp_ok p" by simp
  have "length (GetPayload p) = rp_payload_len p" using p(1) by (auto simp: GetPayload_def rtp_ok_def)
  then show "has_room p \<longleftrightarrow> rp_payload p + length (GetPayload p) + 2 \<le> RTP_PACKET_MAX_SIZE"
    using p(2) by (simp add: has_room_def)
qed

definition room_for :: "rtp_send_session \<Rightarrow> u16 \<Rightarrow> bool" where
  \<comment> \<open>the packet a request for \<open>q\<close> finds, if any, can be retransmitted inside its block\<close>
  "room_for s q \<longleftrightarrow> (\<forall>p. cached q s = Some p \<longrightarrow> rp_payload p + length (GetPayload p) + 2 \<le> RTP_PACKET_MAX_SIZE)"

lemma room_for_view: "same_view (cached q s) (cached q t) \<Longrightarrow> room_for s q \<longleftrightarrow> room_for t q"
  by (cases "cached q s"; cases "cached q t") (auto simp: same_view_def room_for_def rtp_view_def)

lemma RetransmitRtxPackets_overrun:
  assumes "rtx_enabled s" and "rtp_ok p" and "\<not> has_room p"
  shows "\<exists>s1. RetransmitRtxPackets i p s = ([], s1, Some OutOfBounds)"
  using assms RtxMux_overrun [OF assms(2,3)] by (simp add: RetransmitRtxPackets_def rtx_enabled_def Let_def)

lemma nack_retransmit_uncached: "cached q s = None \<Longrightarrow> nack_retransmit (q # seqs) s = nack_retransmit seqs s"
  by (auto simp: cached_def Let_def split: option.splits)

lemma nack_retransmit_ok:
  assumes "cache_ok s" and "rtx_enabled s" and "\<forall>q \<in> set seqs. room_for s q"
  shows "\<exists>outs s'. nack_retransmit seqs s = (outs, s', None) \<and> cache_ok s' \<and>
    rtx_answers (param s) (rtx_seq s) (map (\<lambda>q. cached q s) seqs) outs \<and>
    rtx_seq s' = rtx_seq s + of_nat (length outs) \<and> (\<forall>r. same_view (cached r s') (cached r s))"
  using assms
proof (induction seqs arbitrary: s)
  case Nil
  then show ?case by (simp add: same_view_def)
next
  case (Cons q seqs)
  show ?case
  proof (cases "cached q s")
    case None
    then show ?thesis using Cons nack_retransmit_uncached [OF None] by auto
  next
    case (Some p)
    have room: "has_room p" using Cons.prems(3) Some cached_ok(2) [OF Cons.prems(1) Some] by (simp add: room_for_def)
    from RetransmitRtxPackets_ok [OF Cons.prems(1,2) Some room] obtain out s1 where
      r: "RetransmitRtxPackets (slot q) p s = ([out], s1, None)" "cache_ok s1" "rtx_enabled s1"
        "param s1 = param s" "rtx_seq s1 = rtx_seq s + 1" "rtx_datagram (param s) (rtx_seq s + 1) p out"
      and v: "\<And>r. same_view (cached r s1) (cached r s)"
      by (auto simp: same_view_def)
    have "\<forall>q \<in> set seqs. room_for s1 q" using Cons.prems(3) room_for_view [OF v] by simp
    from Cons.IH [OF r(2,3) this] obtain outs s2 where
      h: "nack_retransmit seqs s1 = (outs, s2, None)" "cache_ok s2"
        "rtx_answers (param s) (rtx_seq s + 1) (map (\<lambda>q. cached q s1) seqs) outs"
        "rtx_seq s2 = rtx_seq s + 1 + of_nat (length outs)" "\<And>r. same_view (cached r s2) (cached r s1)"
      using r(4,5) by auto
    have "nack_retransmit (q # seqs) s = (out # outs, s2, None)"
      using Some r(1) h(1) by (auto simp: cached_Some Let_def)
    moreover have "rtx_answers (param s) (rtx_seq s + 1) (map (\<lambda>q. cached q s) seqs) outs"
      using h(3) rtx_answers_cong [of "map (\<lambda>q. cached q s1) seqs" "map (\<lambda>q. cached q s) seqs"] v
      by (auto simp: list_all2_conv_all_nth)
    ultimately show ?thesis
      using h r(6) Some v by (auto simp: same_view_def)
  qed
qed

lemma nack_retransmit_overrun:
  assumes "cache_ok s" and "rtx_enabled s" and "q \<in> set seqs" and "\<not> room_for s q"
  shows "\<exists>outs s'. nack_retransmit seqs s = (outs, s', Some OutOfBounds)"
  using assms
proof (induction seqs arbitrary: s)
  case (Cons r seqs)
  show ?case
  proof (cases "cached r s")
    case None
    then have "r \<noteq> q" using Cons.prems(4) by (auto simp: room_for_def)
    then show ?thesis using Cons nack_retransmit_uncached [OF None] by auto
  next
    case (Some p)
    then have slot: "rtx_packet_cache s ! slot r = Some p" "GetSeq p = r" by (simp_all add: cached_Some)
    note p = cached_ok [OF Cons.prems(1) Some]
    show ?thesis
    proof (cases "has_room p")
      case True
      with p(2) Some Cons.prems(3,4) have q: "q \<in> set seqs" by (auto simp: room_for_def)
      from RetransmitRtxPackets_ok [OF Cons.prems(1,2) Some True] obtain out s1 where
        r: "RetransmitRtxPackets (slot r) p s = ([out], s1, None)" "cache_ok s1" "rtx_enabled s1"
        and v: "same_view (cached q s1) (cached q s)" by (auto simp: same_view_def)
      from Cons.IH [OF r(2,3) q] Cons.prems(4) room_for_view [OF v] obtain outs s2 where
        "nack_retransmit seqs s1 = (outs, s2, Some OutOfBounds)" by auto
      then show ?thesis using slot r(1) by (simp add: Let_def)
    next
      case False
      from RetransmitRtxPackets_overrun [OF Cons.prems(2) p(1) False, of "slot r"] obtain s1 where
        "RetransmitRtxPackets (slot r) p s = ([], s1, Some OutOfBounds)" by blast
      then show ?thesis using slot by (simp add: Let_def)
    qed
  qed
qed simp

lemma nack_retransmit_off: "\<not> rtx_enabled s \<Longrightarrow> nack_retransmit seqs s = ([], s, None)"
  by (induction seqs) (auto simp: RetransmitRtxPackets_def rtx_enabled_def Let_def split: option.split)

lemma RecvRtcpFbNack_cache_ok:
  assumes "cache_ok s" and "RecvRtcpFbNack nack s = Inr (ret, outs, s')"
  shows "cache_ok s'"
proof (cases "GetLostSeqs nack")
  case (Inr seqs)
  consider "\<not> rtx_enabled s" | q where "rtx_enabled s" "q \<in> set seqs" "\<not> room_for s q"
    | "rtx_enabled s" "\<forall>q \<in> set seqs. room_for s q" by blast
  then show ?thesis
  proof cases
    case 1
    then show ?thesis using assms Inr by (simp add: RecvRtcpFbNack_def nack_retransmit_off)
  next
    case 2
    then show ?thesis using nack_retransmit_overrun [OF assms(1) 2] assms(2) Inr by (auto simp: RecvRtcpFbNack_def)
  next
    case 3
    then show ?thesis using nack_retransmit_ok [OF assms(1) 3] assms(2) Inr by (auto simp: RecvRtcpFbNack_def)
  qed
qed (use assms in \<open>auto simp: RecvRtcpFbNack_def split: cpp_error.splits\<close>)

section \<open>Caching\<close>

lemma cache_ok_new: "cache_ok (RtpSendSession_new p cb)"
  by (simp add: cache_ok_def RtpSendSession_new_def rtp_session.defs rtp_send_session.defs rtp_session_init_def)

lemma UpdateSeq_cache [simp]:
  "UpdateSeq pkt s = (r, s') \<Longrightarrow> rtx_packet_cache s' = rtx_packet_cache s"
  "UpdateSeq pkt s = (r, s') \<Longrightarrow> param s' = param s"
  by (auto simp: UpdateSeq_def update_seq_def InitSeq_def Let_def split: if_splits)

lemma StoreRtxPacket_ok:
  assumes "cache_ok s" and "rtp_ok pkt" and "length mem = RTP_PACKET_MAX_SIZE"
    and "StoreRtxPacket now_ms mem pkt s = Inr s'"
  shows "cache_ok s'" "slot q \<noteq> slot (GetSeq pkt) \<Longrightarrow> cached q s' = cached q s"
    "p_use_nack (param s) \<Longrightarrow> p_rtx_ssrc (param s) \<noteq> 0 \<Longrightarrow> p_rtx_payload_type (param s) \<noteq> 0 \<Longrightarrow>
      \<exists>c. cached (GetSeq pkt) s' = Some c \<and> GetData c = GetData pkt"
proof -
  let ?on = "p_use_nack (param s) \<and> p_rtx_ssrc (param s) \<noteq> 0 \<and> p_rtx_payload_type (param s) \<noteq> 0"
  have len: "length (rtx_packet_cache s) = SEND_RTX_CACHE_SIZE" using assms(1) by (simp add: cache_ok_def)
  have dl: "rp_data_len pkt \<le> length (rp_buf pkt)" "12 \<le> rp_data_len pkt" using assms(2) by (simp_all add: rtp_ok_def)
  have on: "\<exists>c. s' = s\<lparr>rtx_packet_cache := (rtx_packet_cache s)[slot (GetSeq pkt) := Some c]\<rparr> \<and>
      GetSeq c = GetSeq pkt \<and> GetData c = GetData pkt \<and> rtp_ok c \<and>
      rp_data_len c < RTP_PACKET_MAX_SIZE \<and> length (rp_buf c) = RTP_PACKET_MAX_SIZE" if ?on
  proof -
    from that assms(4) obtain c where c: "Clone now_ms mem True pkt = Inr c"
      "s' = s\<lparr>rtx_packet_cache := (rtx_packet_cache s)[slot (GetSeq c) := Some c]\<rparr>"
      by (auto simp: StoreRtxPacket_def Let_def)
    note C = Clone_Inr [OF c(1) dl(1)]
    have "hdr_sequence (GetData c) = GetSeq c" "hdr_sequence (GetData pkt) = GetSeq pkt"
      using dl(2) C(5) by (simp_all add: GetData_def GetSeq_def hdr_prefix)
    then have "GetSeq c = GetSeq pkt" using C(2) by simp
    with c(2) C assms(3) show ?thesis by (auto simp: RTP_PACKET_MAX_SIZE_def)
  qed
  have off: "s' = s" if "\<not> ?on" using that assms(4) by (auto simp: StoreRtxPacket_def)
  show "cache_ok s'"
    using on off assms(1) len by (cases ?on) (auto simp: cache_ok_def nth_list_update split: if_splits)
  show "cached q s' = cached q s" if "slot q \<noteq> slot (GetSeq pkt)"
    using on off that by (cases ?on) (auto simp: cached_def)
  show "p_use_nack (param s) \<Longrightarrow> p_rtx_ssrc (param s) \<noteq> 0 \<Longrightarrow> p_rtx_payload_type (param s) \<noteq> 0 \<Longrightarrow>
      \<exists>c. cached (GetSeq pkt) s' = Some c \<and> GetData c = GetData pkt"
    using on len by (auto simp: cached_def)
qed

lemma cached_cong: "rtx_packet_cache s = rtx_packet_cache s' \<Longrightarrow> cached q s = cached q s'"
  by (simp add: cached_def)

lemma cache_ok_cong: "rtx_packet_cache s = rtx_packet_cache s' \<Longrightarrow> cache_ok s = cache_ok s'"
  by (simp add: cache_ok_def)

definition cache_example :: rtp_send_session where
  "cache_example = RtpSendSession_new (RtpSessionParam_default\<lparr>p_use_nack := True, p_rtx_ssrc := 9, p_rtx_payload_type := 97\<rparr>) True"

lemma SendRtpPacket_cases:
  assumes "SendRtpPacket now_ms mem pkt s = (r, s')"
  obtains s1 where "rtx_packet_cache s1 = rtx_packet_cache s" "param s1 = param s"
    "r = Inr False \<and> s' = s1 \<or> send_store now_ms mem pkt s1 = (r, s')"
proof (cases "first_pkt s")
  case True
  then show thesis
    using assms that [of "(InitSeq (GetSeq pkt) (s\<lparr>last_seq := GetSeq pkt, first_pkt := False\<rparr>))
          \<lparr>last_pkt_ms := rp_local_ms pkt, last_rtp_ts := uint (GetTimestamp pkt)\<rparr>"]
    by (auto simp: SendRtpPacket_def Let_def InitSeq_def)
next
  case False
  obtain ok t where t: "UpdateSeq pkt (s\<lparr>last_seq := GetSeq pkt\<rparr>) = (ok, t)" by (cases "UpdateSeq pkt (s\<lparr>last_seq := GetSeq pkt\<rparr>)")
  show thesis
  proof (cases ok)
    case True
    then show thesis
      using False t assms UpdateSeq_cache [OF t]
        that [of "t\<lparr>last_pkt_ms := rp_local_ms pkt, last_rtp_ts := uint (GetTimestamp pkt),
              send_statics := ss_Update (rp_data_len pkt) (rp_local_ms pkt) (send_statics t)\<rparr>"]
      by (auto simp: SendRtpPacket_def Let_def)
  next
    case ok: False
    then show thesis using False t assms UpdateSeq_cache [OF t] that [of t] by (auto simp: SendRtpPacket_def Let_def)
  qed
qed

lemma SendRtpPacket_cache_ok:
  assumes "cache_ok s" and "rtp_ok pkt" and "length mem = RTP_PACKET_MAX_SIZE"
    and "SendRtpPacket now_ms mem pkt s = (r, s')"
  shows "cache_ok s'"
proof -
  obtain s1 where s1: "rtx_packet_cache s1 = rtx_packet_cache s"
    and c: "r = Inr False \<and> s' = s1 \<or> send_store now_ms mem pkt s1 = (r, s')"
    using assms(4) by (rule SendRtpPacket_cases)
  have ok1: "cache_ok s1" using assms(1) cache_ok_cong [OF s1] by simp
  with c show ?thesis
    using StoreRtxPacket_ok(1) [OF ok1 assms(2,3)] by (auto simp: send_store_def split: sum.splits)
qed

text \<open>
  After a packet is accepted with retransmission configured, a NACK for its number finds a byte-identical copy, and
  only packets of the same slot, that is 1000 numbers apart, are displaced.
\<close>

theorem send_caches:
  assumes "cache_ok s" and "rtp_ok pkt" and "length mem = RTP_PACKET_MAX_SIZE"
    and "SendRtpPacket now_ms mem pkt s = (Inr r, s')"
  shows "(\<forall>q. slot q \<noteq> slot (GetSeq pkt) \<longrightarrow> cached q s' = cached q s) \<and>
    (r \<and> p_use_nack (param s) \<and> p_rtx_ssrc (param s) \<noteq> 0 \<and> p_rtx_payload_type (param s) \<noteq> 0 \<longrightarrow>
      (\<exists>c. cached (GetSeq pkt) s' = Some c \<and> GetData c = GetData pkt))"
proof -
  obtain s1 where s1: "rtx_packet_cache s1 = rtx_packet_cache s" "param s1 = param s"
    and c: "Inr r = (Inr False :: bool res) \<and> s' = s1 \<or> send_store now_ms mem pkt s1 = (Inr r, s')"
    using assms(4) by (rule SendRtpPacket_cases)
  have ok1: "cache_ok s1" using assms(1) cache_ok_cong [OF s1(1)] by simp
  from c show ?thesis
  proof
    assume "Inr r = (Inr False :: bool res) \<and> s' = s1"
    then show ?thesis using cached_cong [OF s1(1)] by auto
  next
    assume "send_store now_ms mem pkt s1 = (Inr r, s')"
    then have st: "StoreRtxPacket now_ms mem pkt s1 = Inr s'" by (simp add: send_store_Inr)
    show ?thesis using StoreRtxPacket_ok(2,3) [OF ok1 assms(2,3) st] s1(2) cached_cong [OF s1(1)] by auto
  qed
qed

theorem send_caches_witness:
  "\<exists>pkt s' c. Parse 7 [0x80, 96, 0, 1, 0, 0, 0, 2, 0, 0, 0, 3, 0xAA] 13 = Inr pkt \<and>
     SendRtpPacket 8 (replicate 1500 0) pkt cache_example = (Inr True, s') \<and>
     cached (GetSeq pkt) s' = Some c \<and> GetData c = GetData pkt"
proof -
  let ?d = "[0x80, 96, 0, 1, 0, 0, 0, 2, 0, 0, 0, 3, 0xAA] :: bytes"
  have v: "case_sum (\<lambda>_. False) (\<lambda>p. case_sum (\<lambda>_. False) (\<lambda>_. True) (Clone 8 (replicate 1500 0) True p)) (Parse 7 ?d 13)"
    by code_simp
  then obtain pkt c where p: "Parse 7 ?d 13 = Inr pkt" "Clone 8 (replicate 1500 0) True pkt = Inr c" by (auto split: sum.splits)
  have ok: "rtp_ok pkt" using Parse_Inr [OF p(1)] by auto
  obtain s' where s': "SendRtpPacket 8 (replicate 1500 0) pkt cache_example = (Inr True, s')"
    using p(2) by (simp add: SendRtpPacket_def send_store_def StoreRtxPacket_def Let_def cache_example_def RtpSendSession_new_def
        rtp_session.defs rtp_send_session.defs rtp_session_init_def InitSeq_def)
  have "cache_ok cache_example" unfolding cache_example_def by (rule cache_ok_new)
  from send_caches [OF this ok _ s'] RTP_PACKET_MAX_SIZE_def obtain c where "cached (GetSeq pkt) s' = Some c" "GetData c = GetData pkt"
    by (auto simp: cache_example_def RtpSendSession_new_def rtp_session.defs rtp_send_session.defs rtp_session_init_def)
  with p(1) s' show ?thesis by blast
qed

section \<open>Answering NACKs\<close>

inductive send_reach :: "rtp_send_session \<Rightarrow> bool" where
  \<comment> \<open>the states of a session: any packets sent, any feedback received, any timer ticks; \<open>mem\<close> is a new block\<close>
  new: "send_reach (RtpSendSession_new p cb)"
| send: "send_reach s \<Longrightarrow> rtp_ok pkt \<Longrightarrow> length mem = RTP_PACKET_MAX_SIZE \<Longrightarrow>
    SendRtpPacket now_ms mem pkt s = (r, s') \<Longrightarrow> send_reach s'"
| nack: "send_reach s \<Longrightarrow> RecvRtcpFbNack n s = Inr (ret, outs, s') \<Longrightarrow> send_reach s'"
| timer: "send_reach s \<Longrightarrow> send_OnTimer now_ms s = (out, s') \<Longrightarrow> send_reach s'"
| rr: "send_reach s \<Longrightarrow> RecvRtcpRrBlock now_ms blk s = (ret, s') \<Longrightarrow> send_reach s'"

lemma send_reach_cache_ok: "send_reach s \<Longrightarrow> cache_ok s"
proof (induction rule: send_reach.induct)
  case (timer s now_ms out s')
  then show ?case by (auto simp: send_OnTimer_def OnSendRtcpSr_def Let_def cache_ok_def split: if_splits)
next
  case (rr s now_ms blk ret s')
  then show ?case by (auto simp: RecvRtcpRrBlock_def Let_def cache_ok_def split: if_splits)
qed (auto intro: cache_ok_new SendRtpPacket_cache_ok RecvRtcpFbNack_cache_ok)

text \<open>
  C6. Answering a NACK, in every state a session can reach from its construction by sending well-formed packets
  of any size, receiving feedback and ticking, with retransmission enabled. If every requested packet that is still
  cached leaves two bytes of its 1500-byte block free (header and payload of at most 1498 bytes), the
  session sends, for the lost numbers in the order given, one retransmission for each number whose packet is
  cached and nothing for the others; each datagram carries the RTX ssrc and payload type, the
  next RTX sequence number, the original time stamp and marker, and as payload the original sequence number
  followed by the original payload; afterwards the cache still shows the same packets, so that a repeated NACK is
  answered again. If a requested packet of 1499 bytes is cached, the session writes past the end of its block:
  \<open>Clone\<close> accepts such packets and \<open>RtxMux\<close> does not check.
\<close>

theorem nack_answered:
  assumes "send_reach s" and "rtx_enabled s" and "GetLostSeqs nack = Inr seqs"
  shows "if \<forall>q \<in> set seqs. room_for s q then
      \<exists>outs s'. RecvRtcpFbNack nack s = Inr (0, outs, s') \<and> send_reach s' \<and>
        rtx_answers (param s) (rtx_seq s) (map (\<lambda>q. cached q s) seqs) outs \<and>
        rtx_seq s' = rtx_seq s + of_nat (length outs) \<and> (\<forall>r. same_view (cached r s') (cached r s))
    else RecvRtcpFbNack nack s = Inl OutOfBounds"
proof (cases "\<forall>q \<in> set seqs. room_for s q")
  case True
  from nack_retransmit_ok [OF send_reach_cache_ok [OF assms(1)] assms(2) True] obtain outs s' where
    r: "nack_retransmit seqs s = (outs, s', None)"
      "rtx_answers (param s) (rtx_seq s) (map (\<lambda>q. cached q s) seqs) outs"
      "rtx_seq s' = rtx_seq s + of_nat (length outs)" "\<forall>r. same_view (cached r s') (cached r s)" by blast
  then have "RecvRtcpFbNack nack s = Inr (0, outs, s')" using assms(3) by (simp add: RecvRtcpFbNack_def)
  with r send_reach.nack [OF assms(1) this] True show ?thesis by auto
next
  case False
  then obtain q where q: "q \<in> set seqs" "\<not> room_for s q" by blast
  with nack_retransmit_overrun [OF send_reach_cache_ok [OF assms(1)] assms(2) q] assms(3) show ?thesis
    by (auto simp: RecvRtcpFbNack_def)
qed

lemma cache_example_sent:
  obtains pkt s c where "Parse 7 [0x80, 96, 0, 1, 0, 0, 0, 2, 0, 0, 0, 3, 0xAA] 13 = Inr pkt" "rtp_ok pkt"
    "SendRtpPacket 8 (replicate 1500 0) pkt cache_example = (Inr True, s)" "param s = param cache_example" "has_send_cb s"
    "cached 1 s = Some c" "cached 2 s = None" "GetSeq c = 1" "GetPayload c = [0xAA]" "rp_payload c = 12"
proof -
  let ?P = "Parse 7 [0x80, 96, 0, 1, 0, 0, 0, 2, 0, 0, 0, 3, 0xAA] 13"
  have v: "case_sum (\<lambda>_. False) (\<lambda>p. case_sum (\<lambda>_. False) (\<lambda>c. GetSeq c = 1 \<and> GetPayload c = [0xAA] \<and> rp_payload c = 12)
      (Clone 8 (replicate 1500 0) True p)) ?P"
    by code_simp
  then obtain pkt c where p: "?P = Inr pkt" "Clone 8 (replicate 1500 0) True pkt = Inr c"
    and c: "GetSeq c = 1" "GetPayload c = [0xAA]" "rp_payload c = 12" by (auto split: sum.splits)
  have "rtp_ok pkt" using Parse_Inr [OF p(1)] by auto
  then show thesis
    using p c that by (simp add: SendRtpPacket_def send_store_def StoreRtxPacket_def Let_def cache_example_def RtpSendSession_new_def
        rtp_session.defs rtp_send_session.defs rtp_session_init_def InitSeq_def cached_def SEND_RTX_CACHE_SIZE_def)
qed

theorem nack_answered_witness:
  "\<exists>pkt s out s'. Parse 7 [0x80, 96, 0, 1, 0, 0, 0, 2, 0, 0, 0, 3, 0xAA] 13 = Inr pkt \<and>
     SendRtpPacket 8 (replicate 1500 0) pkt cache_example = (Inr True, s) \<and>
     RecvRtcpFbNack \<lparr>fn_data = replicate 12 0 @ nack_wire [(1, 1)], fn_len = 16, fn_blocks = [12]\<rparr> s = Inr (0, [out], s') \<and>
     hdr_sequence out = rtx_seq s + 1 \<and> hdr_ssrc out = 9 \<and> drop 12 out = [0, 1, 0xAA]"
proof -
  let ?n = "\<lparr>fn_data = replicate 12 0 @ nack_wire [(1, 1)], fn_len = 16, fn_blocks = [12]\<rparr>"
  obtain pkt s c where p: "Parse 7 [0x80, 96, 0, 1, 0, 0, 0, 2, 0, 0, 0, 3, 0xAA] 13 = Inr pkt" "rtp_ok pkt"
    and s: "SendRtpPacket 8 (replicate 1500 0) pkt cache_example = (Inr True, s)"
    and par: "param s = param cache_example" "has_send_cb s"
    and c: "cached 1 s = Some c" "cached 2 s = None" "GetSeq c = 1" "GetPayload c = [0xAA]" "rp_payload c = 12"
    by (rule cache_example_sent)
  have R: "send_reach s" using send_reach.send [OF send_reach.new p(2) _ s [unfolded cache_example_def]]
    by (simp add: RTP_PACKET_MAX_SIZE_def)
  have en: "rtx_enabled s" "p_rtx_ssrc (param s) = 9"
    using par by (simp_all add: rtx_enabled_def cache_example_def RtpSendSession_new_def rtp_session.defs
        rtp_send_session.defs rtp_session_init_def)
  have l: "GetLostSeqs ?n = Inr [1, 2]" by code_simp
  have "\<forall>q \<in> set [1, 2]. room_for s q" using c by (simp add: room_for_def RTP_PACKET_MAX_SIZE_def)
  with nack_answered [OF R en(1) l] obtain outs s' where r: "RecvRtcpFbNack ?n s = Inr (0, outs, s')"
    "rtx_answers (param s) (rtx_seq s) (map (\<lambda>q. cached q s) [1, 2]) outs" by auto
  from c r(2) obtain out where "outs = [out]" "rtx_datagram (param s) (rtx_seq s + 1) c out" by auto
  moreover have "be 2 (1 :: u16) = [0, 1]" by code_simp
  ultimately show ?thesis using p s r(1) c en(2) by (fastforce simp: rtx_datagram_def)
qed

section \<open>Reports\<close>

definition sr_reports :: "rtp_send_session \<Rightarrow> int \<Rightarrow> rtcp_sr \<Rightarrow> bool" where
  \<comment> \<open>\<open>p\<close> is the report of session \<open>s\<close> at time \<open>now_ms\<close>: its time stamp extrapolates the last packet's\<close>
  "sr_reports s now_ms p \<longleftrightarrow> Sr_GetSsrc p = p_ssrc (param s) \<and>
     Sr_GetPktCount p = of_nat (ss_count (send_statics s)) \<and> Sr_GetBytesCount p = of_nat (ss_bytes (send_statics s)) \<and>
     Sr_GetRtpTimestamp p = word_of_int (last_rtp_ts s) +
       word_of_int ((uint (p_clock_rate (param s)) * (now_ms - last_pkt_ms s)) sdiv 1000) \<and>
     Sr_GetNtpSec p = ntp_sec (millisec_to_ntp now_ms) \<and> Sr_GetNtpFrac p = ntp_frac (millisec_to_ntp now_ms)"

text \<open>
  A sender report goes out on the first timer tick at least one second after the previous one, once packets
  have been counted, and never otherwise; it parses as a report of the session's ssrc with the packet and byte
  counts of the session and an RTP time stamp extrapolated from the last packet at the clock rate.
\<close>

theorem sr_sent:
  assumes "send_OnTimer now_ms s = (out, s')" and "28 \<le> length mem"
  shows "(out \<noteq> None \<longleftrightarrow> 0 \<le> last_rtcp_sr_ms s \<and> last_rtcp_sr_ms s + 1000 \<le> now_ms \<and> 0 < ss_count (send_statics s)) \<and>
    (\<forall>d. out = Some d \<longrightarrow> last_rtcp_sr_ms s' = now_ms \<and>
      (\<exists>p. Sr_Parse mem d (length d) = Inr p \<and> sr_reports s now_ms p))"
proof -
  have "out \<noteq> None \<longleftrightarrow> 0 \<le> last_rtcp_sr_ms s \<and> last_rtcp_sr_ms s + 1000 \<le> now_ms \<and> 0 < ss_count (send_statics s)"
    using assms(1) by (auto simp: send_OnTimer_def OnSendRtcpSr_def Let_def split: if_splits)
  moreover have "last_rtcp_sr_ms s' = now_ms \<and> (\<exists>p. Sr_Parse mem d (length d) = Inr p \<and> sr_reports s now_ms p)"
    if d: "out = Some d" for d
  proof -
    have e: "d = Sr_Serial (sr_build (p_ssrc (param s)) (ntp_sec (millisec_to_ntp now_ms)) (ntp_frac (millisec_to_ntp now_ms))
        (word_of_int (last_rtp_ts s) + word_of_int ((uint (p_clock_rate (param s)) * (now_ms - last_pkt_ms s)) sdiv 1000))
        (of_nat (ss_count (send_statics s))) (of_nat (ss_bytes (send_statics s))))" "last_rtcp_sr_ms s' = now_ms"
      using assms(1) d by (auto simp: send_OnTimer_def OnSendRtcpSr_def Let_def split: if_splits)
    show ?thesis using Sr_built_parses [OF assms(2) e(1)] e(2) unfolding sr_reports_def by blast
  qed
  ultimately show ?thesis by blast
qed

text \<open>A session in use, for the examples.\<close>

definition send_example :: rtp_send_session where
  "send_example = cache_example\<lparr>last_rtcp_sr_ms := 1000, send_statics := ss_Update 100 500 StreamStatics_new\<rparr>"

theorem sr_sent_witness:
  "\<exists>d s' p. send_OnTimer 3000 send_example = (Some d, s') \<and> Sr_Parse (replicate 1500 0) d (length d) = Inr p \<and>
     sr_reports send_example 3000 p"
proof -
  obtain out s' where o: "send_OnTimer 3000 send_example = (out, s')" by (cases "send_OnTimer 3000 send_example")
  have "0 \<le> last_rtcp_sr_ms send_example" "last_rtcp_sr_ms send_example + 1000 \<le> 3000" "0 < ss_count (send_statics send_example)"
    by (simp_all add: send_example_def)
  with sr_sent [OF o, of "replicate 1500 0"] o show ?thesis by auto
qed

lemma rr_rtt_ms_le: "uint (rr_rtt_ms now_ms lsr dlsr) \<le> 200" "0 \<le> uint (rr_rtt_ms now_ms lsr dlsr)"
proof -
  have "rr_rtt_ms now_ms lsr dlsr \<le> 200" unfolding rr_rtt_ms_def Let_def by auto
  then show "uint (rr_rtt_ms now_ms lsr dlsr) \<le> 200" by (simp add: word_le_def)
qed simp

text \<open>
  The smoothed round trip time stays between 0 and 200 milliseconds whatever receiver reports arrive, including
  reports with arbitrary \<open>lsr\<close> and \<open>dlsr\<close> fields.
\<close>

theorem avg_rtt_bounded:
  assumes "0 \<le> avg_rtt_ms s" and "avg_rtt_ms s \<le> 200"
  shows "0 \<le> avg_rtt_ms (fold (\<lambda>(t, blk) s. snd (RecvRtcpRrBlock t blk s)) rrs s) \<and>
    avg_rtt_ms (fold (\<lambda>(t, blk) s. snd (RecvRtcpRrBlock t blk s)) rrs s) \<le> 200"
  using assms
proof (induction rrs arbitrary: s)
  case (Cons r rrs)
  obtain t blk where r: "r = (t, blk)" by (cases r)
  have "0 \<le> avg_rtt_ms (snd (RecvRtcpRrBlock t blk s)) \<and> avg_rtt_ms (snd (RecvRtcpRrBlock t blk s)) \<le> 200"
    using Cons.prems rr_rtt_ms_le [of t "Rr_GetLsr blk" "Rr_GetDlsr blk"]
    by (auto simp: RecvRtcpRrBlock_def Let_def signed_divide_int_def sgn_if)
  with Cons.IH show ?case by (simp add: r)
qed simp

theorem avg_rtt_bounded_witness:
  "avg_rtt_ms (snd (RecvRtcpRrBlock 5000 (replicate 24 255) (RtpSendSession_new RtpSessionParam_default True))) \<le> 200"
  using avg_rtt_bounded [of "RtpSendSession_new RtpSessionParam_default True" "[(5000, replicate 24 255)]"]
  by (simp add: RtpSendSession_new_def rtp_session.defs rtp_send_session.defs rtp_session_init_def)

end
