(* ===== verification/Jitter_Buffer.thy ===== *)
theory Jitter_Buffer
  imports Rtp_Packet "HOL-Library.Multiset"
begin

text \<open>
  \<open>FastJitterBuffer\<close> of \<open>webrtc_room/fast_jitterbuffer.cpp\<close>, which puts the packets of a voice stream in order
  before they go to the voice agent. Packets are handed on by calling \<open>OnJitterBufferRtpPacket\<close>; a model
  operation returns the arguments of that call (\<open>None\<close>: no call). A null packet pointer is \<open>None\<close>, and
  \<open>jb_callback\<close> says whether a callback object was given.
\<close>

section \<open>State and operations\<close>

record fast_jitterbuffer =
  jb_callback :: bool
  jb_max_delay_ms :: int
  jb_clock_rate :: int
  jb_next_expected_seq :: u16
  jb_has_received_first_packet :: bool
  jb_packet_buffer :: "(u16, rtp_packet) omap"
  jb_closed :: bool

type_synonym jb_call = "(rtp_packet list \<times> bool) option"

definition FastJitterBuffer_new :: "bool \<Rightarrow> int \<Rightarrow> int \<Rightarrow> fast_jitterbuffer" where
  "FastJitterBuffer_new callback max_delay_ms clock_rate =
     \<lparr>jb_callback = callback, jb_max_delay_ms = max_delay_ms, jb_clock_rate = clock_rate, jb_next_expected_seq = 0,
      jb_has_received_first_packet = False, jb_packet_buffer = [], jb_closed = False\<rparr>"

definition jb_Close :: "fast_jitterbuffer \<Rightarrow> fast_jitterbuffer" where
  "jb_Close j = (if jb_closed j then j else j\<lparr>jb_closed := True, jb_packet_buffer := []\<rparr>)"

definition jb_expired :: "int \<Rightarrow> int \<Rightarrow> rtp_packet \<Rightarrow> bool" where
  \<comment> \<open>the difference of an unsigned and a signed 64 bit value is unsigned\<close>
  "jb_expired current_time_ms max_delay_ms pkt \<longleftrightarrow>
     (word_of_int (current_time_ms - rp_local_ms pkt) :: u64) \<ge> word_of_int max_delay_ms"

fun jb_timeout :: "int \<Rightarrow> int \<Rightarrow> u16 \<Rightarrow> (u16, rtp_packet) omap \<Rightarrow> rtp_packet list \<times> u16 \<times> (u16, rtp_packet) omap" where
  \<comment> \<open>the loop of the timer: expired packets, the next expected number and the rest of the buffer\<close>
  "jb_timeout now_ms delay next [] = ([], next, [])"
| "jb_timeout now_ms delay next ((k, pkt) # m) =
     (if jb_expired now_ms delay pkt then
        let (pkts, next', m') = jb_timeout now_ms delay (GetSeq pkt + 1) m in (pkt # pkts, next', m')
      else ([], next, (k, pkt) # m))"

definition jb_OnTimer :: "int \<Rightarrow> fast_jitterbuffer \<Rightarrow> jb_call \<times> fast_jitterbuffer" where
  "jb_OnTimer current_time_ms j =
     (let (pkts, next, m) = jb_timeout current_time_ms (jb_max_delay_ms j) (jb_next_expected_seq j) (jb_packet_buffer j) in
      (if pkts \<noteq> [] \<and> jb_callback j then Some (pkts, True) else None,
       j\<lparr>jb_next_expected_seq := next, jb_packet_buffer := m\<rparr>))"

lemma om_erase_shorter:
  assumes "om_find m k = Some v"
  shows "length (om_erase k m) < length m"
proof -
  from assms have "(k, v) \<in> set m" by (simp add: om_find_def map_of_SomeD)
  then show ?thesis unfolding om_erase_def by (intro length_filter_less [of "(k, v)"]) simp_all
qed

function jb_drain :: "u16 \<Rightarrow> (u16, rtp_packet) omap \<Rightarrow> rtp_packet list \<times> u16 \<times> (u16, rtp_packet) omap" where
  \<comment> \<open>the loop that takes consecutive packets out of the buffer\<close>
  "jb_drain next m =
     (case om_find m next of
        None \<Rightarrow> ([], next, m)
      | Some pkt \<Rightarrow> (let (pkts, next', m') = jb_drain (next + 1) (om_erase next m) in (pkt # pkts, next', m')))"
  by pat_completeness auto
termination
  by (relation "measure (\<lambda>(next, m). length m)") (auto simp: om_erase_shorter)

declare jb_drain.simps [simp del]

definition PushRtpPacket :: "rtp_packet option \<Rightarrow> fast_jitterbuffer \<Rightarrow> jb_call \<times> fast_jitterbuffer" where
  "PushRtpPacket rtp_packet j =
     (case rtp_packet of
        None \<Rightarrow> (None, j)
      | Some pkt \<Rightarrow>
          if \<not> jb_callback j then (None, j)
          else let seq = GetSeq pkt in
            if \<not> jb_has_received_first_packet j then
              (Some ([pkt], False), j\<lparr>jb_has_received_first_packet := True, jb_next_expected_seq := seq + 1\<rparr>)
            else (case CompareSeq (jb_next_expected_seq j) seq of
              REPEAT_SEQ \<Rightarrow> (None, j)
            | DISCORD_SEQ \<Rightarrow> (None, j)
            | NORMAL_SEQ \<Rightarrow>
                (let (pkts, next, m) = jb_drain (jb_next_expected_seq j + 1) (jb_packet_buffer j) in
                 (Some (pkt # pkts, False), j\<lparr>jb_next_expected_seq := next, jb_packet_buffer := m\<rparr>))
            | LITTLE_JUMP_SEQ \<Rightarrow> (None, j\<lparr>jb_packet_buffer := om_insert seq pkt (jb_packet_buffer j)\<rparr>)
            | _ \<Rightarrow>
                (Some (map snd (jb_packet_buffer j) @ [pkt], False),
                 j\<lparr>jb_packet_buffer := [], jb_next_expected_seq := seq + 1\<rparr>)))"

section \<open>Invariant and conservation\<close>

definition jb_ok :: "fast_jitterbuffer \<Rightarrow> bool" where
  "jb_ok j \<longleftrightarrow> om_ok (jb_packet_buffer j) \<and> (\<forall>(k, p) \<in> set (jb_packet_buffer j). GetSeq p = k)"

abbreviation delivered :: "jb_call \<Rightarrow> rtp_packet list" where
  "delivered out \<equiv> (case out of None \<Rightarrow> [] | Some (pkts, _) \<Rightarrow> pkts)"

abbreviation buffered :: "fast_jitterbuffer \<Rightarrow> rtp_packet list" where
  "buffered j \<equiv> map snd (jb_packet_buffer j)"

lemma mset_om_erase:
  assumes "om_ok m" and "om_find m k = Some v"
  shows "mset (map snd m) = add_mset v (mset (map snd (om_erase k m)))"
  using assms
proof (induction m)
  case (Cons e m)
  obtain k' v' where e: "e = (k', v')" by (cases e)
  show ?case
  proof (cases "k' = k")
    case True
    with Cons.prems(1) e have "\<forall>kv \<in> set m. fst kv \<noteq> k" by auto
    then have "om_erase k m = m" by (simp add: om_erase_def filter_id_conv)
    with True Cons.prems(2) e show ?thesis by (simp add: om_find_def om_erase_def)
  next
    case False
    with Cons e show ?thesis by (simp add: om_find_def om_erase_def)
  qed
qed simp

lemma mset_om_insert:
  assumes "om_ok m"
  shows "mset (map snd (om_insert k v m)) + (case om_find m k of None \<Rightarrow> {#} | Some old \<Rightarrow> {#old#}) =
    add_mset v (mset (map snd m))"
  using assms
proof (induction k v m rule: om_insert.induct)
  case (2 k v k' v' m)
  have "om_find m k = None" if "k < k'"
    using that 2(2) by (fastforce simp: om_find_None)
  with 2 show ?case by (auto simp: om_find_def split: option.splits)
qed (simp add: om_find_def)

lemma jb_drain_ok:
  assumes "om_ok m" and "\<forall>(k, p) \<in> set m. GetSeq p = k" and "jb_drain next m = (pkts, next', m')"
  shows "om_ok m' \<and> (\<forall>(k, p) \<in> set m'. GetSeq p = k) \<and> mset pkts + mset (map snd m') = mset (map snd m) \<and>
    map GetSeq pkts = map (\<lambda>i. next + of_nat i) [0 ..< length pkts] \<and> next' = next + of_nat (length pkts) \<and>
    om_find m' next' = None"
  using assms
proof (induction "next" m arbitrary: pkts next' m' rule: jb_drain.induct)
  case (1 n m)
  show ?case
  proof (cases "om_find m n")
    case None
    with 1(4) have "pkts = []" "next' = n" "m' = m" by (simp_all add: jb_drain.simps)
    with None 1(2,3) show ?thesis by simp
  next
    case (Some p)
    obtain ps x y where d: "jb_drain (n + 1) (om_erase n m) = (ps, x, y)" by (cases "jb_drain (n + 1) (om_erase n m)")
    with 1(4) Some have e: "pkts = p # ps" "next' = x" "m' = y" by (simp_all add: jb_drain.simps)
    have "om_ok (om_erase n m)" "\<forall>(k, p) \<in> set (om_erase n m). GetSeq p = k"
      using 1(2,3) by (auto simp: om_erase_def om_ok_def sorted_wrt_map sorted_wrt_filter)
    note ih = 1(1) [OF Some this d]
    have "GetSeq p = n" using Some 1(2,3) by (auto simp: om_find_Some)
    moreover have "map (\<lambda>i. n + of_nat i) [0 ..< length pkts] = n # map (\<lambda>i. n + 1 + of_nat i) [0 ..< length ps]"
      unfolding e by (simp add: upt_conv_Cons map_Suc_upt [symmetric] comp_def del: upt_Suc)
    ultimately show ?thesis using ih e mset_om_erase [OF 1(2) Some] by (auto simp: algebra_simps)
  qed
qed

lemma jb_example_packets:
  obtains a b c d where "GetSeq a = 10" "GetSeq b = 11" "GetSeq c = 12" "GetSeq d = 13"
proof -
  let ?pk = "\<lambda>q :: u16. RtpPacket_new 0 (set_hdr_sequence q (replicate 12 0)) None 12 0 0 12"
  have v: "\<forall>q \<in> {10, 11, 12, 13}. case_sum (\<lambda>_. False) (\<lambda>p. GetSeq p = q) (?pk q)"
    by code_simp
  then show ?thesis using that by (auto split: sum.splits)
qed

definition jb_example :: "rtp_packet \<Rightarrow> fast_jitterbuffer" where
  \<comment> \<open>number 10 is the last delivered one; the given packet is buffered under its number\<close>
  "jb_example d = (FastJitterBuffer_new True 600 48000)
     \<lparr>jb_has_received_first_packet := True, jb_next_expected_seq := 10, jb_packet_buffer := [(GetSeq d, d)]\<rparr>"

lemma jb_example_ok [simp]:
  "jb_ok (jb_example d)" "jb_callback (jb_example d)" "jb_has_received_first_packet (jb_example d)"
  "jb_next_expected_seq (jb_example d) = 10" "buffered (jb_example d) = [d]" "jb_max_delay_ms (jb_example d) = 600"
  "jb_packet_buffer (jb_example d) = [(GetSeq d, d)]"
  by (simp_all add: jb_example_def jb_ok_def FastJitterBuffer_new_def)

definition jb_dropped :: "rtp_packet \<Rightarrow> fast_jitterbuffer \<Rightarrow> rtp_packet multiset" where
  \<comment> \<open>what a push loses: the packet that carries exactly the expected number, or a buffered packet that is overwritten\<close>
  "jb_dropped pkt j =
     (if \<not> jb_has_received_first_packet j then {#}
      else if GetSeq pkt = jb_next_expected_seq j then {#pkt#}
      else if CompareSeq (jb_next_expected_seq j) (GetSeq pkt) = LITTLE_JUMP_SEQ
        then (case om_find (jb_packet_buffer j) (GetSeq pkt) of None \<Rightarrow> {#} | Some old \<Rightarrow> {#old#})
      else {#})"

text \<open>
  C35. Nothing is lost or duplicated except in two named cases: with a callback, the packets handed on by a push
  together with those buffered afterwards are those buffered before plus the new one, less what
  \<open>jb_dropped\<close> names; the buffer stays sorted and indexed by the packets' own numbers; and what a timer tick
  hands on together with what stays buffered is what was buffered.
\<close>

theorem jb_conservation:
  assumes "jb_ok j" and "jb_callback j" and "PushRtpPacket (Some pkt) j = (out, j')"
    and "jb_OnTimer now_ms j = (tout, tj)"
  shows "jb_ok j' \<and> mset (delivered out) + mset (buffered j') + jb_dropped pkt j = add_mset pkt (mset (buffered j)) \<and>
    jb_ok tj \<and> delivered tout @ buffered tj = buffered j"
proof -
  note ok = assms(1) [unfolded jb_ok_def]
  obtain pkts n m where d: "jb_drain (jb_next_expected_seq j + 1) (jb_packet_buffer j) = (pkts, n, m)"
    by (cases "jb_drain (jb_next_expected_seq j + 1) (jb_packet_buffer j)")
  note D = jb_drain_ok [OF conjunct1 [OF ok] conjunct2 [OF ok] d]
  have ins: "\<forall>(k, p) \<in> set (om_insert (GetSeq pkt) pkt (jb_packet_buffer j)). GetSeq p = k"
    using ok set_om_insert_subset [of "GetSeq pkt" pkt "jb_packet_buffer j"] by auto
  have push: "jb_ok j' \<and> mset (delivered out) + mset (buffered j') + jb_dropped pkt j = add_mset pkt (mset (buffered j))"
    using assms(2,3) D ok ins mset_om_insert [of "jb_packet_buffer j" "GetSeq pkt" pkt]
    by (auto simp: PushRtpPacket_def jb_dropped_def jb_ok_def d Let_def CompareSeq_cases
        split: if_splits SEQ_COMPARE_RESULT.splits)
  have loop: "om_ok m' \<and> (\<forall>(k, p) \<in> set m'. GetSeq p = k) \<and> ps @ map snd m' = map snd mm"
    if "jb_timeout now_ms dl nx mm = (ps, nx', m')" "om_ok mm" "\<forall>(k, p) \<in> set mm. GetSeq p = k" for dl nx mm ps nx' m'
    using that by (induction now_ms dl nx mm arbitrary: ps nx' m' rule: jb_timeout.induct)
      (auto split: if_splits prod.splits)
  obtain ps nx m' where t: "jb_timeout now_ms (jb_max_delay_ms j) (jb_next_expected_seq j) (jb_packet_buffer j) = (ps, nx, m')"
    by (cases "jb_timeout now_ms (jb_max_delay_ms j) (jb_next_expected_seq j) (jb_packet_buffer j)")
  have "jb_ok tj \<and> delivered tout @ buffered tj = buffered j"
    using loop [OF t] ok assms(2,4) by (auto simp: jb_OnTimer_def t jb_ok_def split: if_splits)
  with push show ?thesis by blast
qed

theorem jb_conservation_witness:
  "\<exists>b c out j'. GetSeq b = 11 \<and> GetSeq c = 12 \<and> PushRtpPacket (Some b) (jb_example c) = (out, j') \<and>
     mset (delivered out) + mset (buffered j') = {#b, c#}"
proof -
  obtain b c where bc: "GetSeq b = 11" "GetSeq c = 12" by (rule jb_example_packets)
  obtain out j' tout tj where e: "PushRtpPacket (Some b) (jb_example c) = (out, j')" "jb_OnTimer 0 (jb_example c) = (tout, tj)"
    by (cases "PushRtpPacket (Some b) (jb_example c)", cases "jb_OnTimer 0 (jb_example c)")
  have "jb_dropped b (jb_example c) = {#}" using bc by (simp add: jb_dropped_def CompareSeq_def)
  with jb_conservation [OF _ _ e] bc e(1) show ?thesis by fastforce
qed

text \<open>
  When a packet is taken as the next in order, the packets handed on with it are the buffered ones with the
  consecutive numbers that follow the old expected number, up to the first number that is not buffered.
\<close>

theorem jb_in_order:
  assumes "jb_ok j" and "jb_callback j" and "jb_has_received_first_packet j"
    and "CompareSeq (jb_next_expected_seq j) (GetSeq pkt) = NORMAL_SEQ"
  shows "\<exists>pkts j'. PushRtpPacket (Some pkt) j = (Some (pkt # pkts, False), j') \<and>
    map GetSeq pkts = map (\<lambda>i. jb_next_expected_seq j + 1 + of_nat i) [0 ..< length pkts] \<and>
    set pkts \<subseteq> set (buffered j) \<and>
    jb_next_expected_seq j' = jb_next_expected_seq j + 1 + of_nat (length pkts) \<and>
    om_find (jb_packet_buffer j') (jb_next_expected_seq j') = None"
proof -
  note ok = assms(1) [unfolded jb_ok_def]
  obtain pkts n m where d: "jb_drain (jb_next_expected_seq j + 1) (jb_packet_buffer j) = (pkts, n, m)"
    by (cases "jb_drain (jb_next_expected_seq j + 1) (jb_packet_buffer j)")
  note D = jb_drain_ok [OF conjunct1 [OF ok] conjunct2 [OF ok] d]
  have "set_mset (mset pkts) \<subseteq> set_mset (mset (buffered j))" using D by (metis mset_subset_eq_add_left set_mset_mono)
  then show ?thesis using D assms(2-4) by (auto simp: PushRtpPacket_def d)
qed

theorem jb_in_order_witness:
  "\<exists>b c pkts j'. GetSeq b = 11 \<and> PushRtpPacket (Some b) (jb_example c) = (Some (b # pkts, False), j') \<and>
     om_find (jb_packet_buffer j') (jb_next_expected_seq j') = None"
proof -
  obtain b c where bc: "GetSeq b = 11" "GetSeq c = 12" by (rule jb_example_packets)
  have "CompareSeq (jb_next_expected_seq (jb_example c)) (GetSeq b) = NORMAL_SEQ" using bc by (simp add: CompareSeq_def)
  from jb_in_order [OF _ _ _ this] bc show ?thesis by fastforce
qed

fun jb_push_all :: "rtp_packet list \<Rightarrow> fast_jitterbuffer \<Rightarrow> rtp_packet list \<times> fast_jitterbuffer" where
  "jb_push_all [] j = ([], j)"
| "jb_push_all (p # ps) j =
     (let (out, j') = PushRtpPacket (Some p) j; (rest, j'') = jb_push_all ps j' in (delivered out @ rest, j''))"

lemma jb_push_consecutive:
  assumes "jb_callback j" and "jb_has_received_first_packet j" and "jb_packet_buffer j = []"
    and "jb_next_expected_seq j = of_nat n" and "map GetSeq pkts = map (\<lambda>i. of_nat (n + 1 + i)) [0 ..< length pkts]"
    and "n + length pkts < 65536"
  shows "fst (jb_push_all pkts j) = pkts"
  using assms
proof (induction pkts arbitrary: j n)
  case (Cons p ps)
  have q: "GetSeq p = of_nat (n + 1)" and r: "map GetSeq ps = map (\<lambda>i. of_nat (n + 1 + 1 + i)) [0 ..< length ps]"
    using Cons.prems(5) by (simp_all add: upt_conv_Cons map_Suc_upt [symmetric] comp_def del: upt_Suc)
  have "CompareSeq (of_nat n) (GetSeq p) = NORMAL_SEQ"
    using Cons.prems(6) unfolding q by (subst CompareSeq_cases) (simp add: unat_of_nat del: of_nat_add of_nat_Suc)
  then have "PushRtpPacket (Some p) j = (Some ([p], False), j\<lparr>jb_next_expected_seq := of_nat (n + 1), jb_packet_buffer := []\<rparr>)"
    using Cons.prems(1-4) by (simp add: PushRtpPacket_def jb_drain.simps)
  with Cons.IH [of "j\<lparr>jb_next_expected_seq := of_nat (n + 1), jb_packet_buffer := []\<rparr>" "n + 1"] Cons.prems r show ?case
    by (simp add: split_beta)
qed simp

text \<open>
  What happens to a stream that arrives complete and in order: after the first packet the expected number is
  its successor, and the packet with exactly that number is treated as a duplicate and dropped;
  everything else is handed on in order. (The stream is taken not to pass 65535.)
\<close>

theorem jb_second_packet_dropped:
  assumes "map GetSeq (a # b # pkts) = map (\<lambda>i. of_nat (n + i)) [0 ..< length pkts + 2]" and "n + length pkts + 1 < 65536"
  shows "fst (jb_push_all (a # b # pkts) (FastJitterBuffer_new True delay rate)) = a # pkts"
proof -
  have q: "GetSeq a = of_nat n" "GetSeq b = of_nat (n + 1)" "map GetSeq pkts = map (\<lambda>i. of_nat (n + 1 + 1 + i)) [0 ..< length pkts]"
    using assms(1) by (simp_all add: upt_conv_Cons map_Suc_upt [symmetric] comp_def del: upt_Suc)
  let ?j = "FastJitterBuffer_new True delay rate"
  let ?j1 = "?j\<lparr>jb_has_received_first_packet := True, jb_next_expected_seq := of_nat (n + 1)\<rparr>"
  have 1: "PushRtpPacket (Some a) ?j = (Some ([a], False), ?j1)"
    by (simp add: PushRtpPacket_def FastJitterBuffer_new_def q(1))
  have 2: "PushRtpPacket (Some b) ?j1 = (None, ?j1)"
    using CompareSeq_cases(1) [of "of_nat (n + 1)" "of_nat (n + 1)"]
    by (simp add: PushRtpPacket_def FastJitterBuffer_new_def q(2))
  have "fst (jb_push_all pkts ?j1) = pkts"
    by (rule jb_push_consecutive [where n = "n + 1"]) (use assms(2) q(3) in \<open>simp_all add: FastJitterBuffer_new_def\<close>)
  then show ?thesis using 1 2 by (simp only: jb_push_all.simps split_beta Let_def fst_conv snd_conv) simp
qed

theorem jb_second_packet_dropped_witness:
  "\<exists>a b c d. map GetSeq [a, b, c, d] = [10, 11, 12, 13] \<and>
     fst (jb_push_all [a, b, c, d] (FastJitterBuffer_new True 600 48000)) = [a, c, d]"
proof -
  obtain a b c d where p: "GetSeq a = 10" "GetSeq b = 11" "GetSeq c = 12" "GetSeq d = 13" by (rule jb_example_packets)
  then have "map GetSeq [a, b, c, d] = map (\<lambda>i. of_nat (10 + i)) [0 ..< length [c, d] + 2]"
    by (simp add: upt_conv_Cons)
  from jb_second_packet_dropped [OF this] p show ?thesis by fastforce
qed

section \<open>The timer\<close>

lemma jb_expired_iff:
  assumes "rp_local_ms p \<le> now_ms" and "now_ms - rp_local_ms p < 2 ^ 63" and "0 \<le> delay" and "delay < 2 ^ 31"
  shows "jb_expired now_ms delay p \<longleftrightarrow> rp_local_ms p + delay \<le> now_ms"
proof -
  have "uint (word_of_int (now_ms - rp_local_ms p) :: u64) = now_ms - rp_local_ms p" "uint (word_of_int delay :: u64) = delay"
    using assms by (simp_all only: uint_word_of_int, simp_all)
  then show ?thesis by (auto simp: jb_expired_def word_le_def)
qed

text \<open>
  A tick of the timer hands on, as discarded, the longest run of expired packets at the low end of the buffer.
  When buffered packets with higher numbers arrived no earlier, no packet that has waited for the
  maximal delay stays behind, and every packet handed on had waited that long.
\<close>

theorem jb_delay_bounded:
  assumes "jb_callback j" and "0 \<le> jb_max_delay_ms j" and "jb_max_delay_ms j < 2 ^ 31"
    and "sorted (map rp_local_ms (buffered j))"
    and "\<forall>p \<in> set (buffered j). rp_local_ms p \<le> now_ms \<and> now_ms - rp_local_ms p < 2 ^ 63"
    and "jb_OnTimer now_ms j = (out, j')"
  shows "buffered j' = filter (\<lambda>p. now_ms < rp_local_ms p + jb_max_delay_ms j) (buffered j) \<and>
    delivered out = filter (\<lambda>p. rp_local_ms p + jb_max_delay_ms j \<le> now_ms) (buffered j)"
proof -
  let ?d = "jb_max_delay_ms j"
  have loop: "map snd m' = filter (\<lambda>p. now_ms < rp_local_ms p + ?d) (map snd m) \<and>
      ps = filter (\<lambda>p. rp_local_ms p + ?d \<le> now_ms) (map snd m)"
    if "jb_timeout now_ms ?d nx m = (ps, nx', m')" "sorted (map rp_local_ms (map snd m))"
      "\<forall>p \<in> set (map snd m). rp_local_ms p \<le> now_ms \<and> now_ms - rp_local_ms p < 2 ^ 63" for nx m ps nx' m'
    using that
  proof (induction m arbitrary: nx ps nx' m')
    case (Cons e m)
    obtain k p where e: "e = (k, p)" by (cases e)
    have x: "jb_expired now_ms ?d p \<longleftrightarrow> rp_local_ms p + ?d \<le> now_ms"
      using Cons.prems(3) e assms(2,3) by (intro jb_expired_iff) auto
    show ?case
    proof (cases "rp_local_ms p + ?d \<le> now_ms")
      case True
      obtain ps1 n1 m1 where r: "jb_timeout now_ms ?d (GetSeq p + 1) m = (ps1, n1, m1)"
        by (cases "jb_timeout now_ms ?d (GetSeq p + 1) m")
      with Cons.IH [OF r] Cons.prems True e x show ?thesis by auto
    next
      case False
      then have "\<forall>q \<in> set (map snd m). now_ms < rp_local_ms q + ?d" using Cons.prems(2) e by fastforce
      then have "filter (\<lambda>p. now_ms < rp_local_ms p + ?d) (map snd m) = map snd m"
        "filter (\<lambda>p. rp_local_ms p + ?d \<le> now_ms) (map snd m) = []" by (auto intro!: filter_True filter_False simp: not_le)
      moreover have "ps = []" "m' = (k, p) # m" using Cons.prems(1) False e x by simp_all
      ultimately show ?thesis using False e by (simp del: filter_map)
    qed
  qed simp
  obtain ps nx m' where t: "jb_timeout now_ms ?d (jb_next_expected_seq j) (jb_packet_buffer j) = (ps, nx, m')"
    by (cases "jb_timeout now_ms ?d (jb_next_expected_seq j) (jb_packet_buffer j)")
  from loop [OF t] assms show ?thesis by (auto simp: jb_OnTimer_def t split: if_splits)
qed

theorem jb_delay_bounded_witness:
  "\<exists>c out j'. jb_OnTimer (rp_local_ms c + 600) (jb_example c) = (out, j') \<and> buffered j' = [] \<and> delivered out = [c]"
proof -
  obtain c where "GetSeq c = 12" by (rule jb_example_packets)
  obtain out j' where e: "jb_OnTimer (rp_local_ms c + 600) (jb_example c) = (out, j')"
    by (cases "jb_OnTimer (rp_local_ms c + 600) (jb_example c)")
  from jb_delay_bounded [OF _ _ _ _ _ e] e show ?thesis by fastforce
qed

end
