(* ===== verification/Rtcp_Tcc.thy ===== *)
theory Rtcp_Tcc
  imports Rtp_Packet Rtcp_Reports "HOL-Library.Signed_Division"
begin

unbundle bit_operations_syntax

text \<open>
  Transport-wide congestion control feedback: \<open>RtcpTccFbPacket\<close> of \<open>net/rtprtcp/rtcp_tcc_fb.hpp\<close> collects the
  arrival times of packets by their transport-wide number and serialises them; \<open>TccServer\<close> of
  \<open>webrtc_room/tcc_server.cpp\<close> decides when a message is sent. The serialiser writes through a pointer into a
  buffer of the caller; the model keeps the buffer and the pointer's offset, to which the
  output parameter \<open>len\<close> is always equal. A failed parse (\<open>nullptr\<close>) is \<open>None\<close>; the
  data pointer itself is not null.
\<close>

section \<open>Chunks\<close>

record run_length_chunk =
  rl_status :: u8
  rl_recv_delta_length :: u8
  rl_run_length :: u16
  rl_data :: "u8 \<times> u8"

definition RunLengthChunk_new :: run_length_chunk where
  "RunLengthChunk_new = \<lparr>rl_status = 0, rl_recv_delta_length = 0, rl_run_length = 0, rl_data = (0, 0)\<rparr>"

definition rl_SetStatus :: "u8 \<Rightarrow> run_length_chunk \<Rightarrow> run_length_chunk" where
  "rl_SetStatus status c = (let s = status AND 0x01; (d0, d1) = rl_data c in
     c\<lparr>rl_status := s, rl_data := (d0 OR push_bit 6 s, d1)\<rparr>)"

definition rl_SetRecvDeltaLength :: "u16 \<Rightarrow> run_length_chunk \<Rightarrow> run_length_chunk" where
  "rl_SetRecvDeltaLength len c = (let l = ucast (len AND 0x1F); (d0, d1) = rl_data c in
     c\<lparr>rl_recv_delta_length := l, rl_data := (d0 OR push_bit 1 (l AND 0x1F), d1)\<rparr>)"

definition rl_SetRunLength :: "u16 \<Rightarrow> run_length_chunk \<Rightarrow> run_length_chunk" where
  "rl_SetRunLength run_length c = (let r = run_length AND 0x1FF; (d0, d1) = rl_data c in
     c\<lparr>rl_run_length := r, rl_data := ((d0 AND 0xFE) OR (ucast (drop_bit 8 r) AND 0x01), ucast (r AND 0xFF))\<rparr>)"

definition rl_GetChunkData :: "run_length_chunk \<Rightarrow> u16" where
  "rl_GetChunkData c = (let (d0, d1) = rl_data c in push_bit 8 (ucast d0) OR ucast d1)"

record status_vector_chunk =
  sv_symbol :: u8
  sv_symbol_list :: u16
  sv_data :: "u8 \<times> u8"

definition StatusVectorChunk_new :: status_vector_chunk where
  "StatusVectorChunk_new = \<lparr>sv_symbol = 0, sv_symbol_list = 0, sv_data = (0x80, 0)\<rparr>"

definition sv_SetSymbol :: "u8 \<Rightarrow> status_vector_chunk \<Rightarrow> status_vector_chunk" where
  "sv_SetSymbol symbol c = (let s = symbol AND 0x01; (d0, d1) = sv_data c in
     c\<lparr>sv_symbol := s, sv_data := (d0 OR push_bit 6 s, d1)\<rparr>)"

definition sv_SetSymbolList :: "u16 \<Rightarrow> status_vector_chunk \<Rightarrow> status_vector_chunk" where
  "sv_SetSymbolList symbol_list c = (let l = symbol_list AND 0x3FFF; (d0, d1) = sv_data c in
     c\<lparr>sv_symbol_list := l, sv_data := (d0 OR (ucast (drop_bit 8 l) AND 0x3F), ucast (l AND 0xFF))\<rparr>)"

definition sv_GetChunkData :: "status_vector_chunk \<Rightarrow> u16" where
  "sv_GetChunkData c = (let (d0, d1) = sv_data c in push_bit 8 (ucast d0) OR ucast d1)"

definition svc_chunk :: "u16 \<Rightarrow> u16" where
  \<comment> \<open>a status vector chunk with one bit per packet\<close>
  "svc_chunk symbols = sv_GetChunkData (sv_SetSymbolList symbols (sv_SetSymbol 0 StatusVectorChunk_new))"

section \<open>The feedback message\<close>

record RcvDeltaInfo =
  delta_ms :: u16
  wide_seq :: u16

definition RcvDeltaInfo_new :: "int \<Rightarrow> u16 \<Rightarrow> RcvDeltaInfo" where
  \<comment> \<open>the parameter is an \<open>int16_t\<close>, the member a \<open>uint16_t\<close>\<close>
  "RcvDeltaInfo_new d seq = \<lparr>delta_ms = word_of_int d, wide_seq = seq\<rparr>"

record tcc_fb =
  tf_sender_ssrc :: u32
  tf_media_ssrc :: u32
  tf_base_seq :: u16
  tf_packet_status_cnt :: u16
  tf_reference_time :: u32
  tf_fb_pkt_count :: u8
  tf_recv_deltas :: "RcvDeltaInfo list"
  tf_packet_chunks :: "u16 list"
  tf_base_time_ms :: int
  tf_has_first_packet :: bool
  tf_last_wide_seq :: u16

definition tcc_Reset :: "tcc_fb \<Rightarrow> tcc_fb" where
  \<comment> \<open>\<open>last_wide_seq_\<close> keeps its value\<close>
  "tcc_Reset f = f\<lparr>tf_sender_ssrc := 0, tf_media_ssrc := 0, tf_base_seq := 0, tf_packet_status_cnt := 0,
     tf_reference_time := 0, tf_fb_pkt_count := 0, tf_base_time_ms := 0, tf_has_first_packet := False,
     tf_packet_chunks := [], tf_recv_deltas := []\<rparr>"

definition RtcpTccFbPacket_new :: tcc_fb where
  "RtcpTccFbPacket_new = tcc_Reset
     \<lparr>tf_sender_ssrc = 0, tf_media_ssrc = 0, tf_base_seq = 0, tf_packet_status_cnt = 0, tf_reference_time = 0,
      tf_fb_pkt_count = 0, tf_recv_deltas = [], tf_packet_chunks = [], tf_base_time_ms = 0,
      tf_has_first_packet = False, tf_last_wide_seq = 0\<rparr>"

definition tcc_SetSsrc :: "u32 \<Rightarrow> u32 \<Rightarrow> tcc_fb \<Rightarrow> tcc_fb" where
  "tcc_SetSsrc sender_ssrc media_ssrc f = f\<lparr>tf_sender_ssrc := sender_ssrc, tf_media_ssrc := media_ssrc\<rparr>"

definition tcc_SetFbPktCount :: "u8 \<Rightarrow> tcc_fb \<Rightarrow> tcc_fb" where
  "tcc_SetFbPktCount cnt f = f\<lparr>tf_fb_pkt_count := cnt\<rparr>"

definition kMaxRecvRtpPacketNumber :: nat where "kMaxRecvRtpPacketNumber = 300"

definition IsFullRtcp :: "tcc_fb \<Rightarrow> bool" where
  "IsFullRtcp f \<longleftrightarrow> length (tf_recv_deltas f) \<ge> kMaxRecvRtpPacketNumber"

definition PacketCount :: "tcc_fb \<Rightarrow> nat" where
  "PacketCount f = length (tf_recv_deltas f)"

definition OldestPacketTimeMs :: "tcc_fb \<Rightarrow> int" where
  "OldestPacketTimeMs f = (if tf_has_first_packet f then tf_base_time_ms f else 0)"

definition tcc_max_delta :: int where "tcc_max_delta = 5 * 1000"

definition InsertPacket :: "int \<Rightarrow> int \<Rightarrow> tcc_fb \<Rightarrow> int \<times> tcc_fb" where
  "InsertPacket wideSeq now_ms f =
     (if wideSeq < 0 \<or> wideSeq > 0xFFFF then (-1, f)
      else let q = word_of_int wideSeq in
        if \<not> tf_has_first_packet f then
          (0, f\<lparr>tf_has_first_packet := True, tf_base_seq := q, tf_base_time_ms := now_ms, tf_last_wide_seq := q,
                tf_reference_time := word_of_int ((now_ms sdiv 16) AND 0x00FFFFFF)\<rparr>)
        else if wideSeq = uint (tf_last_wide_seq f) then (0, f)
        else if tf_last_wide_seq f \<noteq> 0 \<and> SeqLowerThan q (tf_last_wide_seq f) then (-1, f)
        else let delta = now_ms - tf_base_time_ms f in
          if delta < - tcc_max_delta \<or> delta > tcc_max_delta then (1, f)
          else (0, f\<lparr>tf_base_time_ms := now_ms, tf_recv_deltas := tf_recv_deltas f @ [RcvDeltaInfo_new delta q],
                     tf_last_wide_seq := q\<rparr>))"

section \<open>Serialisation\<close>

type_synonym cursor = "bytes \<times> nat"

definition tcc_put :: "u16 \<Rightarrow> cursor \<Rightarrow> cursor res" where
  "tcc_put w c = (case c of (b, p) \<Rightarrow> rbind (wr b p (be 2 w)) (\<lambda>b'. Inr (b', p + 2)))"

fun chunk_zeros :: "nat \<Rightarrow> u16 \<times> nat \<Rightarrow> u16 \<times> nat" where
  \<comment> \<open>a loop that appends lost packets to the current chunk\<close>
  "chunk_zeros 0 (current_chunk, packets) = (current_chunk, packets)"
| "chunk_zeros (Suc n) (current_chunk, packets) = chunk_zeros n (push_bit 1 current_chunk, packets + 1)"

definition chunk_one :: "u16 \<times> nat \<Rightarrow> u16 \<times> nat" where
  "chunk_one st = (case st of (current_chunk, packets) \<Rightarrow> (push_bit 1 current_chunk OR 0x01, packets + 1))"

fun lost_chunks :: "nat \<Rightarrow> cursor \<Rightarrow> (nat \<times> cursor) res" where
  "lost_chunks remaining_lost c =
     (if remaining_lost \<ge> 14 then rbind (tcc_put (svc_chunk 0) c) (\<lambda>c'. lost_chunks (remaining_lost - 14) c')
      else Inr (remaining_lost, c))"

declare lost_chunks.simps [simp del]

definition tcc_gap :: "u16 \<Rightarrow> u16 \<Rightarrow> nat" where
  "tcc_gap last_seq cur =
     (if cur < last_seq then (0xffff + unat cur + 1 - unat last_seq) mod 65536 else unat cur - unat last_seq)"

definition chunk_add :: "nat \<Rightarrow> u16 \<times> nat \<Rightarrow> cursor \<Rightarrow> ((u16 \<times> nat) \<times> cursor) res" where
  \<comment> \<open>one packet that follows the previous one at distance \<open>gap\<close>; the number of packets in the chunk never
    exceeds 14 and is kept as a natural number\<close>
  "chunk_add gap st c =
     (if gap = 1 then Inr (chunk_one st, c)
      else if snd st + gap < 14 then Inr (chunk_one (chunk_zeros (gap - 1) st), c)
      else let space_left = 14 - snd st; flushed = fst (chunk_zeros (space_left - 1) st) in
        rbind (tcc_put (svc_chunk flushed) c) (\<lambda>c1.
        rbind (lost_chunks (gap - space_left) c1) (\<lambda>(remaining_lost, c2).
          Inr (chunk_one (chunk_zeros (remaining_lost - 1) (0, 0)), c2))))"

definition chunk_full :: "u16 \<times> nat \<Rightarrow> cursor \<Rightarrow> ((u16 \<times> nat) \<times> cursor) res" where
  "chunk_full st c =
     (if snd st = 14 then rbind (tcc_put (svc_chunk (fst st)) c) (\<lambda>c'. Inr ((0, 0), c'))
      else if snd st < 14 then Inr (st, c) else Inl AssertFail)"

fun chunks_loop :: "nat \<Rightarrow> u16 \<Rightarrow> RcvDeltaInfo list \<Rightarrow> u16 \<times> nat \<Rightarrow> cursor \<Rightarrow> ((u16 \<times> nat) \<times> cursor) res" where
  "chunks_loop start last_seq [] st c = Inr (st, c)"
| "chunks_loop start last_seq (d # ds) st c =
     rbind (chunk_add (tcc_gap last_seq (wide_seq d)) st c) (\<lambda>(st1, c1).
       if snd c1 - start > 512 then Inl AssertFail
       else rbind (chunk_full st1 c1) (\<lambda>(st2, c2). chunks_loop start (wide_seq d) ds st2 c2))"

definition symbol_ones :: "u16 \<Rightarrow> nat" where
  "symbol_ones chunk =
     (if chunk AND 0x8000 \<noteq> 0 \<and> chunk AND 0x4000 = 0
      then length (filter (\<lambda>b. (chunk AND 0x3FFF) AND push_bit b 1 \<noteq> 0) [0 ..< 14]) else 0)"

function ones_count :: "bytes \<Rightarrow> nat \<Rightarrow> nat \<Rightarrow> nat res" where
  "ones_count b q p =
     (if q < p then rbind (rd b q 2) (\<lambda>d. rbind (ones_count b (q + 2) p) (\<lambda>n. Inr (symbol_ones (of_be d) + n)))
      else Inr 0)"
  by pat_completeness auto

termination
  by (relation "measure (\<lambda>(b, q, p). p - q)") auto

declare ones_count.simps [simp del]

definition SerialPacketChunks :: "RcvDeltaInfo list \<Rightarrow> cursor \<Rightarrow> cursor res" where
  "SerialPacketChunks deltas c =
     (case deltas of
        [] \<Rightarrow> Inl OutOfBounds
      | d # ds \<Rightarrow>
          rbind (chunks_loop (snd c) (wide_seq d) ds (1, 1) c) (\<lambda>((current_chunk, packets), c1).
          rbind (if packets > 1 then tcc_put (svc_chunk (push_bit (14 - packets) current_chunk)) c1 else Inr c1) (\<lambda>c2.
          rbind (ones_count (fst c2) (snd c) (snd c2)) (\<lambda>ones.
            if ones \<le> length deltas then Inr c2 else Inl AssertFail))))"

fun SerialRecvDelta :: "RcvDeltaInfo list \<Rightarrow> cursor \<Rightarrow> cursor res" where
  "SerialRecvDelta [] c = Inr c"
| "SerialRecvDelta (d # ds) c = rbind (tcc_put (delta_ms d) c) (\<lambda>c'. SerialRecvDelta ds c')"

definition tcc_pad :: "cursor \<Rightarrow> cursor res" where
  \<comment> \<open>padding to a multiple of four: the header's padding bit, zeros and the count\<close>
  "tcc_pad c = (case c of (b, p) \<Rightarrow>
     let pad = (4 - p mod 4) mod 4 in
     if pad = 0 then Inr (b, p)
     else rbind (wr b 0 [set_bits 5 1 1 (b ! 0)]) (\<lambda>b1.
       rbind (wr b1 p (replicate (pad - 1) 0 @ [of_nat pad])) (\<lambda>b2. Inr (b2, p + pad))))"

definition tcc_Serial :: "bytes \<Rightarrow> nat \<Rightarrow> tcc_fb \<Rightarrow> (bool \<times> bytes \<times> nat) res" where
  "tcc_Serial buffer len f =
     (if length (tf_recv_deltas f) < 2 then Inr (False, buffer, len)
      else rbind (wr buffer 0 (rtcp_header 2 0 15 205 0)) (\<lambda>b1.
        rbind (wr b1 4 (be 4 (tf_sender_ssrc f) @ be 4 (tf_media_ssrc f))) (\<lambda>b2.
        rbind (wr b2 12 (be 2 (tf_base_seq f) @ be 2 (of_nat (length (tf_recv_deltas f)) :: u16))) (\<lambda>b3.
        rbind (wr b3 16 (be 4 (push_bit 8 (tf_reference_time f) OR ucast (tf_fb_pkt_count f)))) (\<lambda>b4.
        rbind (SerialPacketChunks (tf_recv_deltas f) (b4, 20)) (\<lambda>c1.
        rbind (SerialRecvDelta (tf_recv_deltas f) c1) (\<lambda>c2.
        rbind (tcc_pad c2) (\<lambda>(b5, p).
        rbind (wr b5 2 (be 2 (of_nat (p div 4 - 1) :: u16))) (\<lambda>b6. Inr (True, b6, p))))))))))"

section \<open>Parsing\<close>

function tcc_read_chunks :: "bytes \<Rightarrow> nat \<Rightarrow> nat \<Rightarrow> u16 \<Rightarrow> u16 \<Rightarrow> (u16 list \<times> nat) option res" where
  "tcc_read_chunks data e p symbols_collected symbols_needed =
     (if symbols_collected < symbols_needed then
        if p + 2 > e then Inr None
        else rbind (Read2Bytes data p) (\<lambda>chunk.
          if chunk AND 0x8000 = 0 \<or> chunk AND 0x4000 \<noteq> 0 then Inr None
          else rbind (tcc_read_chunks data e (p + 2) (symbols_collected + 14) symbols_needed) (\<lambda>r.
            Inr (map_option (\<lambda>(chunks, p'). (chunk # chunks, p')) r)))
      else Inr (Some ([], p)))"
  by pat_completeness auto

termination
  by (relation "measure (\<lambda>(data, e, p, _). e - p)") auto

declare tcc_read_chunks.simps [simp del]

definition chunk_symbols :: "u16 \<Rightarrow> bool list" where
  "chunk_symbols chunk = map (\<lambda>b. (chunk AND 0x3FFF) AND push_bit b 1 \<noteq> 0) (rev [0 ..< 14])"

definition valid_symbols :: "u16 \<Rightarrow> u16 list \<Rightarrow> bool list" where
  \<comment> \<open>the symbols visited by the nested loops, which stop after \<open>symbols_needed\<close> of them\<close>
  "valid_symbols symbols_needed chunks = take (unat symbols_needed) (concat (map chunk_symbols chunks))"

fun tcc_read_deltas :: "bytes \<Rightarrow> nat \<Rightarrow> nat \<Rightarrow> nat \<Rightarrow> RcvDeltaInfo list option res" where
  "tcc_read_deltas data e p 0 = Inr (Some [])"
| "tcc_read_deltas data e p (Suc n) =
     (if p + 2 > e then Inr None
      else rbind (Read2Bytes data p) (\<lambda>d. rbind (tcc_read_deltas data e (p + 2) n) (\<lambda>r.
        Inr (map_option (\<lambda>ds. RcvDeltaInfo_new (sint d) 0 # ds) r))))"

fun assign_seqs :: "u16 \<Rightarrow> bool list \<Rightarrow> RcvDeltaInfo list \<Rightarrow> RcvDeltaInfo list" where
  "assign_seqs seq (True # bs) (d # ds) = d\<lparr>wide_seq := seq\<rparr> # assign_seqs (seq + 1) bs ds"
| "assign_seqs seq (False # bs) ds = assign_seqs (seq + 1) bs ds"
| "assign_seqs seq bs ds = ds"

definition tcc_parse_fci :: "bytes \<Rightarrow> nat \<Rightarrow> tcc_fb \<Rightarrow> tcc_fb option res" where
  \<comment> \<open>from the packet chunks on; \<open>pkt\<close> has the fixed fields\<close>
  "tcc_parse_fci data e pkt =
     rbind (tcc_read_chunks data e 20 0 (tf_packet_status_cnt pkt)) (\<lambda>rc.
       case rc of None \<Rightarrow> Inr None | Some (chunks, p) \<Rightarrow>
         let symbols = valid_symbols (tf_packet_status_cnt pkt) chunks in
         rbind (tcc_read_deltas data e p (length (filter id symbols))) (\<lambda>ds.
           Inr (map_option (\<lambda>deltas. pkt\<lparr>tf_packet_chunks := chunks,
             tf_recv_deltas := assign_seqs (tf_base_seq pkt) symbols deltas\<rparr>) ds)))"

definition tcc_parse_fields :: "bytes \<Rightarrow> nat \<Rightarrow> tcc_fb option res" where
  \<comment> \<open>the fixed fields\<close>
  "tcc_parse_fields data e =
     (if 4 + 8 > e then Inr None
      else rbind (Read4Bytes data 4) (\<lambda>sender. rbind (Read4Bytes data 8) (\<lambda>media.
        if 12 + 4 > e then Inr None
        else rbind (Read2Bytes data 12) (\<lambda>base. rbind (Read2Bytes data 14) (\<lambda>cnt.
          if 16 + 4 > e then Inr None
          else rbind (Read4Bytes data 16) (\<lambda>ref_and_cnt.
            Inr (Some (RtcpTccFbPacket_new
              \<lparr>tf_sender_ssrc := sender, tf_media_ssrc := media, tf_base_seq := base, tf_packet_status_cnt := cnt,
               tf_fb_pkt_count := ucast (ref_and_cnt AND 0xFF),
               tf_reference_time := drop_bit 8 ref_and_cnt AND 0x00FFFFFF\<rparr>))))))))"

definition tcc_parse_end :: "bytes \<Rightarrow> nat \<Rightarrow> nat option res" where
  \<comment> \<open>the end of the message without its padding\<close>
  "tcc_parse_end data total_len =
     (if rtcp_padding data = 0 then Inr (Some total_len)
      else if total_len = 0 then Inr None
      else rbind (rd8 data (total_len - 1)) (\<lambda>padding_count.
        Inr (if padding_count = 0 \<or> unat padding_count > total_len then None
             else Some (total_len - unat padding_count))))"

definition tcc_Parse :: "bytes \<Rightarrow> nat \<Rightarrow> tcc_fb option res" where
  "tcc_Parse data len =
     (if len < 4 + 8 + 8 then Inr None
      else if rtcp_version data \<noteq> 2 \<or> rtcp_packet_type data \<noteq> 205 \<or> rtcp_count data \<noteq> 15 then Inr None
      else let total_len = (unat (rtcp_length data) + 1) * 4 in
        if total_len > len then Inr None
        else rbind (tcc_parse_end data total_len) (\<lambda>r. case r of None \<Rightarrow> Inr None | Some e \<Rightarrow>
          rbind (tcc_parse_fields data e) (\<lambda>r. case r of None \<Rightarrow> Inr None | Some pkt \<Rightarrow>
            tcc_parse_fci data e pkt)))"

section \<open>The words a message consists of\<close>

definition pop14 :: "u16 \<Rightarrow> nat" where
  "pop14 w = card {i. i < 14 \<and> bit w i}"

lemma and_push_bit_1: "w AND push_bit b 1 \<noteq> 0 \<longleftrightarrow> bit w b" for w :: "'a::len word"
  by (metis and.commute bit_iff_and_push_bit_not_eq_0)

lemma bit_svc_chunk: "bit (svc_chunk w) i \<longleftrightarrow> i = 15 \<or> (i < 14 \<and> bit w i)"
proof -
  have "svc_chunk w = 0x8000 OR take_bit 14 w"
  proof -
    have "w AND 0x3FFF = take_bit 14 w" by (simp add: take_bit_eq_mask mask_eq_exp_minus_1)
    moreover have "push_bit 8 (ucast ((0x80 :: u8) OR (ucast (drop_bit 8 (take_bit 14 w)) AND 0x3F))) OR
        ucast (ucast (take_bit 14 w AND 0xFF) :: u8) = (0x8000 OR take_bit 14 w :: u16)"
    proof -
      let ?l = "push_bit 8 (ucast ((0x80 :: u8) OR (ucast (drop_bit 8 (take_bit 14 w)) AND 0x3F))) OR
          ucast (ucast (take_bit 14 w AND 0xFF) :: u8) :: u16" and ?r = "0x8000 OR take_bit 14 w :: u16"
      have "list_all (\<lambda>i. bit ?l i = bit ?r i) [0..<16]" by (simp add: upt_rec bit_simps) (simp add: numeral_eq_Suc)
      then show ?thesis by (intro bit_word_eqI) (simp add: list_all_iff)
    qed
    ultimately show ?thesis
      by (simp add: svc_chunk_def sv_GetChunkData_def sv_SetSymbolList_def sv_SetSymbol_def StatusVectorChunk_new_def Let_def)
  qed
  moreover have "bit (0x8000 :: u16) i \<longleftrightarrow> i = 15"
  proof -
    have "(0x8000 :: u16) = push_bit 15 1" by simp
    then show ?thesis by (simp only: bit_push_bit_iff) (auto simp: bit_1_iff)
  qed
  ultimately show ?thesis by (auto simp: bit_simps)
qed

lemma bit_clear14:
  "(w AND 0x3FFF) AND push_bit b 1 \<noteq> 0 \<longleftrightarrow> b < 14 \<and> bit w b" for w :: u16
proof -
  have "w AND 0x3FFF = take_bit 14 w" by (simp add: take_bit_eq_mask mask_eq_exp_minus_1)
  then show ?thesis by (simp only: and_push_bit_1) (simp add: bit_simps)
qed

lemma svc_chunk_type: "svc_chunk w AND 0x8000 \<noteq> 0" "svc_chunk w AND 0x4000 = 0"
proof -
  have "(0x8000 :: u16) = push_bit 15 1" "(0x4000 :: u16) = push_bit 14 1" by simp_all
  then show "svc_chunk w AND 0x8000 \<noteq> 0" "svc_chunk w AND 0x4000 = 0"
    using and_push_bit_1 [of "svc_chunk w" 15] and_push_bit_1 [of "svc_chunk w" 14] by (simp_all only: bit_svc_chunk) simp_all
qed

lemma symbol_ones_svc [simp]: "symbol_ones (svc_chunk w) = pop14 w"
proof -
  have "length (filter (\<lambda>b. b < 14 \<and> bit (svc_chunk w) b) [0 ..< 14]) = card {i. i < 14 \<and> bit w i}"
    by (subst distinct_length_filter) (auto simp: bit_svc_chunk intro!: arg_cong [of _ _ card])
  then show ?thesis unfolding symbol_ones_def bit_clear14 using svc_chunk_type [of w] by (simp add: pop14_def)
qed

lemma chunk_symbols_svc: "chunk_symbols (svc_chunk w) = map (bit w) (rev [0 ..< 14])"
  unfolding chunk_symbols_def bit_clear14 by (intro map_cong) (auto simp: bit_svc_chunk)

lemma pop14_0 [simp]: "pop14 0 = 0"
  by (simp add: pop14_def)

lemma pop14_push: "pop14 (push_bit n w) \<le> pop14 w"
  unfolding pop14_def
  by (rule card_inj_on_le [where f = "\<lambda>i. i - n"]) (auto simp: inj_on_def bit_simps)

lemma pop14_or_1: "pop14 (push_bit n w OR 1) \<le> Suc (pop14 w)"
proof -
  have "{i. i < 14 \<and> bit (push_bit n w OR 1) i} \<subseteq> insert 0 {i. i < 14 \<and> bit (push_bit n w) i}"
    by (auto simp: bit_simps)
  from card_mono [OF _ this] have "pop14 (push_bit n w OR 1) \<le> Suc (pop14 (push_bit n w))"
    unfolding pop14_def by (simp add: card_insert_if split: if_splits)
  then show ?thesis using pop14_push [of n w] by linarith
qed

lemma chunk_zeros_eq [simp]: "chunk_zeros n (w, k) = (push_bit n w, k + n)"
  by (induction n arbitrary: w k) (simp_all add: push_bit_push_bit)

lemma chunk_one_eq [simp]: "chunk_one (w, k) = (push_bit 1 w OR 1, k + 1)"
  by (simp add: chunk_one_def)

section \<open>Writing words\<close>

definition put_all :: "u16 list \<Rightarrow> cursor \<Rightarrow> cursor" where
  "put_all ws c = (poke (fst c) (snd c) (concat (map (be 2) ws)), snd c + 2 * length ws)"

lemma length_words [simp]: "length (concat (map (be 2) ws)) = 2 * length ws"
  by (induction ws) simp_all

abbreviation fits :: "u16 list \<Rightarrow> cursor \<Rightarrow> bool" where
  "fits ws c \<equiv> snd c + 2 * length ws \<le> length (fst c)"

lemma put_all_simps [simp]:
  "put_all [] c = c" "snd (put_all ws c) = snd c + 2 * length ws"
  "fits ws c \<Longrightarrow> length (fst (put_all ws c)) = length (fst c)"
  by (simp_all add: put_all_def poke_def)

lemma poke_append:
  assumes "i + length v + length w \<le> length b"
  shows "poke b i (v @ w) = poke (poke b i v) (i + length v) w"
proof -
  have "length (take i b) = i" using assms by simp
  then show ?thesis by (simp add: poke_def add.assoc add.commute [of "length w"])
qed

lemma put_all_append: "fits (xs @ ys) c \<Longrightarrow> put_all (xs @ ys) c = put_all ys (put_all xs c)"
  by (simp add: put_all_def poke_append)

lemma tcc_put_ok: "fits [w] c \<Longrightarrow> tcc_put w c = Inr (put_all [w] c)"
  by (cases c) (simp add: tcc_put_def put_all_def)

lemma tcc_put_overflow: "\<not> fits [w] c \<Longrightarrow> tcc_put w c = Inl OutOfBounds"
  by (cases c) (simp add: tcc_put_def wr_def)

lemma put_all_Cons: "fits (w # ws) c \<Longrightarrow> put_all (w # ws) c = put_all ws (put_all [w] c)"
  using put_all_append [where xs = "[w]" and ys = ws and c = c] by simp

lemma lost_chunks_ok:
  assumes "fits (replicate (n div 14) (svc_chunk 0)) c"
  shows "lost_chunks n c = Inr (n mod 14, put_all (replicate (n div 14) (svc_chunk 0)) c)"
  using assms
proof (induction n c rule: lost_chunks.induct)
  case (1 n c)
  show ?case
  proof (cases "14 \<le> n")
    case True
    then have d: "n div 14 = Suc ((n - 14) div 14)" "(n - 14) mod 14 = n mod 14"
      by (simp_all add: div_if le_mod_geq)
    have f: "fits [svc_chunk 0] c" "fits (replicate ((n - 14) div 14) (svc_chunk 0)) (put_all [svc_chunk 0] c)"
      using 1(2) d(1) by simp_all
    have "lost_chunks n c = lost_chunks (n - 14) (put_all [svc_chunk 0] c)"
      using True by (subst lost_chunks.simps) (simp add: tcc_put_ok [OF f(1)])
    also have "\<dots> = Inr (n mod 14, put_all (replicate (n div 14) (svc_chunk 0)) c)"
      using 1(1) [OF True tcc_put_ok [OF f(1)] f(2)] 1(2) d put_all_Cons [where w = "svc_chunk 0" and ws = "replicate ((n - 14) div 14) (svc_chunk 0)" and c = c]
      by simp
    finally show ?thesis .
  next
    case False
    then show ?thesis by (subst lost_chunks.simps) simp
  qed
qed

lemma lost_chunks_overflow:
  assumes "\<not> fits (replicate (n div 14) (svc_chunk 0)) c" and "snd c \<le> length (fst c)"
  shows "lost_chunks n c = Inl OutOfBounds"
  using assms
proof (induction n c rule: lost_chunks.induct)
  case (1 n c)
  then have n: "14 \<le> n" by (cases "n < 14") simp_all
  then have d: "n div 14 = Suc ((n - 14) div 14)" by (simp add: div_if)
  show ?case
  proof (cases "fits [svc_chunk 0] c")
    case True
    then show ?thesis
      using n 1 d by (subst lost_chunks.simps) (simp add: tcc_put_ok)
  next
    case False
    then show ?thesis using n by (subst lost_chunks.simps) (simp add: tcc_put_overflow)
  qed
qed

text \<open>What one packet adds: the words written and the chunk in progress.\<close>

definition add_words :: "nat \<Rightarrow> u16 \<times> nat \<Rightarrow> u16 list" where
  "add_words gap st =
     (if gap = 1 \<or> snd st + gap < 14 then []
      else svc_chunk (push_bit (14 - snd st - 1) (fst st)) # replicate ((gap - (14 - snd st)) div 14) (svc_chunk 0))"

definition add_state :: "nat \<Rightarrow> u16 \<times> nat \<Rightarrow> u16 \<times> nat" where
  "add_state gap st =
     (if gap = 1 then (push_bit 1 (fst st) OR 1, snd st + 1)
      else if snd st + gap < 14 then (push_bit 1 (push_bit (gap - 1) (fst st)) OR 1, snd st + (gap - 1) + 1)
      else (push_bit 1 0 OR 1, (gap - (14 - snd st)) mod 14 - 1 + 1))"

definition full_words :: "u16 \<times> nat \<Rightarrow> u16 list" where
  "full_words st = (if snd st = 14 then [svc_chunk (fst st)] else [])"

definition full_state :: "u16 \<times> nat \<Rightarrow> u16 \<times> nat" where
  "full_state st = (if snd st = 14 then (0, 0) else st)"

fun loop_words :: "u16 \<Rightarrow> RcvDeltaInfo list \<Rightarrow> u16 \<times> nat \<Rightarrow> u16 list" where
  "loop_words last_seq [] st = []"
| "loop_words last_seq (d # ds) st =
     (let g = tcc_gap last_seq (wide_seq d); st1 = add_state g st in
      add_words g st @ full_words st1 @ loop_words (wide_seq d) ds (full_state st1))"

fun loop_state :: "u16 \<Rightarrow> RcvDeltaInfo list \<Rightarrow> u16 \<times> nat \<Rightarrow> u16 \<times> nat" where
  "loop_state last_seq [] st = st"
| "loop_state last_seq (d # ds) st =
     loop_state (wide_seq d) ds (full_state (add_state (tcc_gap last_seq (wide_seq d)) st))"

fun span :: "u16 \<Rightarrow> RcvDeltaInfo list \<Rightarrow> nat" where
  \<comment> \<open>how far the transport-wide numbers reach\<close>
  "span last_seq [] = 0"
| "span last_seq (d # ds) = tcc_gap last_seq (wide_seq d) + span (wide_seq d) ds"

lemma chunk_add_ok:
  assumes "fits (add_words gap st) c"
  shows "chunk_add gap st c = Inr (add_state gap st, put_all (add_words gap st) c)"
proof -
  obtain w k where st: "st = (w, k)" by (cases st)
  show ?thesis
  proof (cases "gap = 1 \<or> k + gap < 14")
    case True
    then show ?thesis by (auto simp: st chunk_add_def add_words_def add_state_def)
  next
    case False
    let ?w = "svc_chunk (push_bit (14 - k - 1) w)" and ?n = "(gap - (14 - k)) div 14"
    have words: "add_words gap st = ?w # replicate ?n (svc_chunk 0)" using False by (auto simp: st add_words_def)
    have f: "fits [?w] c" "fits (replicate ?n (svc_chunk 0)) (put_all [?w] c)" using assms unfolding words by simp_all
    have "put_all (add_words gap st) c = put_all (replicate ?n (svc_chunk 0)) (put_all [?w] c)"
      unfolding words using assms unfolding words by (rule put_all_Cons)
    then show ?thesis
      using False tcc_put_ok [OF f(1)] lost_chunks_ok [OF f(2)] by (simp add: st chunk_add_def add_state_def Let_def)
  qed
qed

lemma chunk_add_overflow:
  assumes "\<not> fits (add_words gap st) c" and "snd c \<le> length (fst c)"
  shows "chunk_add gap st c = Inl OutOfBounds"
proof -
  obtain w k where st: "st = (w, k)" by (cases st)
  have n: "\<not> (gap = 1 \<or> k + gap < 14)" using assms by (auto simp: st add_words_def)
  let ?w = "svc_chunk (push_bit (14 - k - 1) w)" and ?n = "(gap - (14 - k)) div 14"
  show ?thesis
  proof (cases "fits [?w] c")
    case True
    have "\<not> fits (replicate ?n (svc_chunk 0)) (put_all [?w] c)" using assms(1) n True by (auto simp: st add_words_def)
    then have "lost_chunks (gap - (14 - k)) (put_all [?w] c) = Inl OutOfBounds"
      using True by (intro lost_chunks_overflow) simp_all
    then show ?thesis using n tcc_put_ok [OF True] by (simp add: st chunk_add_def Let_def)
  next
    case False
    then show ?thesis using n tcc_put_overflow [OF False] by (simp add: st chunk_add_def Let_def)
  qed
qed

lemma add_state_bounds:
  assumes "snd st < 14"
  shows "snd (add_state gap st) \<le> 14" "14 * length (add_words gap st) + snd (add_state gap st) \<le> snd st + gap + 1"
    "sum_list (map symbol_ones (add_words gap st)) + pop14 (fst (add_state gap st)) \<le> Suc (pop14 (fst st))"
proof -
  obtain w k where st: "st = (w, k)" by (cases st)
  have one: "pop14 1 \<le> 1" using pop14_or_1 [of 1 0] by simp
  show "snd (add_state gap st) \<le> 14" using assms by (auto simp: st add_state_def)
  show "14 * length (add_words gap st) + snd (add_state gap st) \<le> snd st + gap + 1"
  proof (cases "gap = 1 \<or> k + gap < 14")
    case True
    then show ?thesis by (auto simp: st add_words_def add_state_def)
  next
    case False
    define r where "r = gap - (14 - k)"
    have "14 * (r div 14) + r mod 14 = r" by simp
    moreover have "gap + k = r + 14" using False assms by (simp add: r_def st)
    moreover have "r mod 14 - 1 \<le> r mod 14" by simp
    ultimately have "14 * Suc (r div 14) + (r mod 14 - 1 + 1) \<le> k + gap + 1" unfolding mult_Suc_right by linarith
    then show ?thesis using False by (simp add: st add_words_def add_state_def r_def [symmetric])
  qed
  show "sum_list (map symbol_ones (add_words gap st)) + pop14 (fst (add_state gap st)) \<le> Suc (pop14 (fst st))"
    using pop14_or_1 [of 1 w] order_trans [OF pop14_or_1 [of 1 "push_bit (gap - 1) w"] Suc_le_mono [THEN iffD2, OF pop14_push]]
      pop14_push [of "14 - k - 1" w] one
    by (auto simp: st add_words_def add_state_def sum_list_replicate)
qed

lemma full_state_bounds:
  assumes "snd st \<le> 14"
  shows "snd (full_state st) < 14" "14 * length (full_words st) + snd (full_state st) = snd st"
    "sum_list (map symbol_ones (full_words st)) + pop14 (fst (full_state st)) = pop14 (fst st)"
  using assms by (auto simp: full_state_def full_words_def)

lemma chunk_full_ok:
  assumes "snd st \<le> 14" and "fits (full_words st) c"
  shows "chunk_full st c = Inr (full_state st, put_all (full_words st) c)"
  using assms by (cases "snd st = 14")
    (simp_all add: chunk_full_def full_state_def full_words_def tcc_put_ok [where w = "svc_chunk (fst st)" and c = c])

lemma chunks_loop_ok:
  assumes "snd st < 14" and "fits (loop_words last_seq ds st) c" and "start \<le> snd c"
    and "snd c + 2 * length (loop_words last_seq ds st) \<le> start + 512"
  shows "chunks_loop start last_seq ds st c =
    Inr (loop_state last_seq ds st, put_all (loop_words last_seq ds st) c)"
  using assms
proof (induction ds arbitrary: last_seq st c)
  case (Cons d ds)
  define g where "g = tcc_gap last_seq (wide_seq d)"
  define st1 where "st1 = add_state g st"
  let ?A = "add_words g st" and ?F = "full_words st1" and ?L = "loop_words (wide_seq d) ds (full_state st1)"
  have w: "loop_words last_seq (d # ds) st = ?A @ ?F @ ?L" by (simp add: g_def st1_def Let_def)
  note le = Cons.prems(2,4) [unfolded w]
  let ?c1 = "put_all ?A c" and ?c2 = "put_all ?F (put_all ?A c)"
  have l: "length (fst ?c1) = length (fst c)" "length (fst ?c2) = length (fst c)" using le by simp_all
  have 1: "chunk_add g st c = Inr (st1, ?c1)" unfolding st1_def by (rule chunk_add_ok) (use le in simp)
  have s: "snd st1 \<le> 14" unfolding st1_def by (rule add_state_bounds(1) [OF Cons.prems(1)])
  have 2: "chunk_full st1 ?c1 = Inr (full_state st1, ?c2)" by (rule chunk_full_ok [OF s]) (use le l in simp)
  have 3: "chunks_loop start (wide_seq d) ds (full_state st1) ?c2 =
      Inr (loop_state (wide_seq d) ds (full_state st1), put_all ?L ?c2)"
    by (rule Cons.IH [OF full_state_bounds(1) [OF s]]) (use le l Cons.prems(3) in simp_all)
  have p: "put_all (?A @ ?F @ ?L) c = put_all ?L ?c2"
    using le l put_all_append [where xs = ?A and ys = "?F @ ?L" and c = c]
      put_all_append [where xs = ?F and ys = ?L and c = "put_all ?A c"] by simp
  have "\<not> 512 < snd ?c1 - start" using le(2) by simp
  then have "chunks_loop start last_seq (d # ds) st c = chunks_loop start (wide_seq d) ds (full_state st1) ?c2"
    by (simp add: g_def [symmetric] 1 2)
  then show ?case unfolding w using 3 p by (simp add: g_def st1_def)
qed simp

lemma loop_bounds:
  assumes "snd st < 14"
  shows "snd (loop_state last_seq ds st) < 14 \<and>
    14 * length (loop_words last_seq ds st) + snd (loop_state last_seq ds st) \<le> snd st + span last_seq ds + length ds \<and>
    sum_list (map symbol_ones (loop_words last_seq ds st)) + pop14 (fst (loop_state last_seq ds st))
      \<le> pop14 (fst st) + length ds"
  using assms
proof (induction ds arbitrary: last_seq st)
  case (Cons d ds)
  define g where "g = tcc_gap last_seq (wide_seq d)"
  define st1 where "st1 = add_state g st"
  note a = add_state_bounds [OF Cons.prems, of g, folded st1_def]
  note f = full_state_bounds [OF a(1)]
  from Cons.IH [OF f(1), of "wide_seq d"] a f show ?case by (simp add: g_def [symmetric] st1_def [symmetric] Let_def)
qed simp

lemma ones_count_words:
  assumes "fits ws c"
  shows "ones_count (fst (put_all ws c)) (snd c) (snd c + 2 * length ws) = Inr (sum_list (map symbol_ones ws))"
proof -
  let ?b = "fst (put_all ws c)" and ?p = "snd c"
  have gen: "ones_count ?b (?p + 2 * k) (?p + 2 * length ws) = Inr (sum_list (map symbol_ones (drop k ws)))"
    if "k \<le> length ws" for k
    using that
  proof (induction "length ws - k" arbitrary: k)
    case 0
    then show ?case by (subst ones_count.simps) simp
  next
    case (Suc n)
    have w: "take 2 (drop (2 * k) (concat (map (be 2) ws))) = be 2 (ws ! k)" if "k < length ws" for ws :: "u16 list" and k
      using that by (induction ws arbitrary: k) (auto simp: nth_Cons split: nat.split)
    have k: "k < length ws" using Suc.hyps(2) by simp
    have "take 2 (drop (?p + 2 * k) ?b) = take 2 (drop (2 * k) (concat (map (be 2) ws)))"
      using assms k by (simp add: put_all_def poke_def min_def)
    then have r: "rd ?b (?p + 2 * k) 2 = Inr (be 2 (ws ! k))" using assms k w [OF k] by simp
    have "drop k ws = ws ! k # drop (Suc k) ws" using k by (simp add: Cons_nth_drop_Suc)
    moreover have "ones_count ?b (?p + 2 * Suc k) (?p + 2 * length ws) = Inr (sum_list (map symbol_ones (drop (Suc k) ws)))"
      using Suc.hyps(1) [of "Suc k"] Suc.hyps(2) by simp
    ultimately show ?case using k by (subst ones_count.simps) (simp add: r)
  qed
  from gen [of 0] show ?thesis by simp
qed

definition message_words :: "RcvDeltaInfo list \<Rightarrow> u16 list" where
  \<comment> \<open>the chunks of a message for a non-empty batch\<close>
  "message_words deltas =
     (let d = hd deltas; st = loop_state (wide_seq d) (tl deltas) (1, 1) in
      loop_words (wide_seq d) (tl deltas) (1, 1) @
        (if snd st > 1 then [svc_chunk (push_bit (14 - snd st) (fst st))] else []))"

lemma SerialPacketChunks_ok:
  assumes "deltas \<noteq> []" and "fits (message_words deltas) c" and "length (message_words deltas) \<le> 256"
  shows "SerialPacketChunks deltas c = Inr (put_all (message_words deltas) c)"
proof -
  obtain d ds where ds: "deltas = d # ds" using assms(1) by (cases deltas) auto
  let ?L = "loop_words (wide_seq d) ds (1, 1)" and ?S = "loop_state (wide_seq d) ds (1, 1)"
  define R where "R = (if snd ?S > 1 then [svc_chunk (push_bit (14 - snd ?S) (fst ?S))] else [])"
  have w: "message_words deltas = ?L @ R" by (simp add: ds message_words_def R_def Let_def)
  have f: "fits ?L c" "fits R (put_all ?L c)" and "2 * length ?L \<le> 512" using assms(2,3) unfolding w by simp_all
  have 1: "chunks_loop (snd c) (wide_seq d) ds (1, 1) c = Inr (?S, put_all ?L c)"
    by (rule chunks_loop_ok) (use f \<open>2 * length ?L \<le> 512\<close> in simp_all)
  have 2: "(if snd ?S > 1 then tcc_put (svc_chunk (push_bit (14 - snd ?S) (fst ?S))) (put_all ?L c) else Inr (put_all ?L c)) =
      Inr (put_all (message_words deltas) c)"
    unfolding w put_all_append [OF assms(2) [unfolded w]] using f(2)
    by (auto simp: R_def tcc_put_ok split: if_splits)
  have one: "pop14 1 \<le> 1" using pop14_or_1 [of 1 0] by simp
  have "sum_list (map symbol_ones (message_words deltas)) \<le> length deltas"
    using loop_bounds [of "(1, 1)" "wide_seq d" ds] one pop14_push [of "14 - snd ?S" "fst ?S"] unfolding w
    by (auto simp: R_def ds)
  then show ?thesis
    using ones_count_words [OF assms(2)]
    by (simp only: SerialPacketChunks_def list.case 1 rbind_simps split_beta fst_conv snd_conv 2 [unfolded ds]
        put_all_simps(2) if_True ds)
qed

lemma SerialRecvDelta_ok:
  assumes "fits (map delta_ms ds) c"
  shows "SerialRecvDelta ds c = Inr (put_all (map delta_ms ds) c)"
  using assms
proof (induction ds arbitrary: c)
  case (Cons d ds)
  have f: "fits [delta_ms d] c" "fits (map delta_ms ds) (put_all [delta_ms d] c)" using Cons.prems by simp_all
  have "put_all (map delta_ms (d # ds)) c = put_all (map delta_ms ds) (put_all [delta_ms d] c)"
    using put_all_Cons [where w = "delta_ms d" and ws = "map delta_ms ds" and c = c] Cons.prems by simp
  then show ?case using tcc_put_ok [OF f(1)] Cons.IH [OF f(2)] by simp
qed simp

definition tcc_fixed :: "tcc_fb \<Rightarrow> bytes" where
  "tcc_fixed f = rtcp_header 2 0 15 205 0 @ be 4 (tf_sender_ssrc f) @ be 4 (tf_media_ssrc f) @ be 2 (tf_base_seq f) @
     be 2 (of_nat (length (tf_recv_deltas f)) :: u16) @ be 4 (push_bit 8 (tf_reference_time f) OR ucast (tf_fb_pkt_count f))"

lemma length_tcc_fixed [simp]: "length (tcc_fixed f) = 20"
  by (simp add: tcc_fixed_def)

lemma tcc_Serial_start:
  assumes "2 \<le> length (tf_recv_deltas f)" and "20 \<le> length b"
  shows "tcc_Serial b len f = rbind (SerialPacketChunks (tf_recv_deltas f) (poke b 0 (tcc_fixed f), 20)) (\<lambda>c1.
     rbind (SerialRecvDelta (tf_recv_deltas f) c1) (\<lambda>c2. rbind (tcc_pad c2) (\<lambda>(b5, p).
       rbind (wr b5 2 (be 2 (of_nat (p div 4 - 1) :: u16))) (\<lambda>b6. Inr (True, b6, p)))))"
proof -
  let ?h = "rtcp_header 2 0 15 205 0" and ?s = "be 4 (tf_sender_ssrc f) @ be 4 (tf_media_ssrc f)"
    and ?q = "be 2 (tf_base_seq f) @ be 2 (of_nat (length (tf_recv_deltas f)) :: u16)"
    and ?r = "be 4 (push_bit 8 (tf_reference_time f) OR ucast (tf_fb_pkt_count f))"
  have e: "poke (poke (poke (poke b 0 ?h) 4 ?s) 12 ?q) 16 ?r = poke b 0 (tcc_fixed f)"
  proof -
    have "poke b 0 (?h @ ?s) = poke (poke b 0 ?h) 4 ?s"
      "poke b 0 ((?h @ ?s) @ ?q) = poke (poke b 0 (?h @ ?s)) 12 ?q"
      "poke b 0 (((?h @ ?s) @ ?q) @ ?r) = poke (poke b 0 ((?h @ ?s) @ ?q)) 16 ?r"
      using assms(2) by (subst poke_append, simp_all)+
    then show ?thesis by (simp add: tcc_fixed_def)
  qed
  show ?thesis using assms by (simp add: tcc_Serial_def e)
qed

lemma tcc_pad_ok:
  assumes "20 \<le> p" and "p + 4 \<le> length b" and "p mod 2 = 0"
  shows "tcc_pad (b, p) =
    Inr (if p mod 4 = 0 then (b, p) else (poke (poke b 0 [set_bits 5 1 1 (b ! 0)]) p [0, 2], p + 2))"
proof -
  have "p mod 4 = 0 \<or> p mod 4 = 2" using assms(3) by presburger
  then show ?thesis using assms(1,2) by (elim disjE) (auto simp: tcc_pad_def Let_def wr_def)
qed

lemma tcc_Serial_ok:
  assumes "deltas = tf_recv_deltas f" and "2 \<le> length deltas" and "length (message_words deltas) \<le> 256"
    and "n = 20 + 2 * length (message_words deltas) + 2 * length deltas" and "n + 4 \<le> length b"
  shows "\<exists>out. tcc_Serial b len f = Inr (True, out, n + n mod 4) \<and> length out = length b \<and>
    take (n + n mod 4) out = rtcp_header 2 (of_nat (n mod 4 div 2)) 15 205 (of_nat ((n + n mod 4) div 4 - 1)) @ drop 4 (tcc_fixed f) @
      concat (map (be 2) (message_words deltas @ map delta_ms deltas)) @ (if n mod 4 = 0 then [] else [0, 2])"
proof -
  let ?W = "message_words deltas" and ?D = "map delta_ms deltas"
  let ?b = "poke b 0 (tcc_fixed f)"
  let ?c = "put_all (?W @ ?D) (?b, 20)"
  have len: "length ?b = length b" using assms(4,5) by simp
  have f: "fits (?W @ ?D) (?b, 20)" "fits ?W (?b, 20)" using assms(4,5) len by simp_all
  have c: "?c = put_all ?D (put_all ?W (?b, 20))" using f(1) by (rule put_all_append)
  have f2: "fits ?D (put_all ?W (?b, 20))" using f by simp
  define X where "X = concat (map (be 2) (?W @ ?D))"
  have lx: "length X = n - 20" unfolding X_def length_words by (simp add: assms(4))
  have cb: "fst ?c = tcc_fixed f @ X @ drop n b" "snd ?c = n"
  proof -
    have e: "?c = (poke ?b 20 X, 20 + 2 * length (?W @ ?D))" by (simp only: put_all_def X_def fst_conv snd_conv)
    show "fst ?c = tcc_fixed f @ X @ drop n b" "snd ?c = n"
      unfolding e using assms(4,5) lx by (simp_all add: poke_def add.commute add.left_commute)
  qed
  have 1: "tcc_Serial b len f = rbind (tcc_pad (fst ?c, n)) (\<lambda>(b5, p).
       rbind (wr b5 2 (be 2 (of_nat (p div 4 - 1) :: u16))) (\<lambda>b6. Inr (True, b6, p)))"
  proof -
    have ne: "deltas \<noteq> []" "2 \<le> length (tf_recv_deltas f)" "20 \<le> length b" using assms(1,2,4,5) by auto
    have cc: "?c = (fst ?c, n)" using cb(2) by (metis prod.collapse)
    show ?thesis
      unfolding tcc_Serial_start [OF ne(2,3)] assms(1) [symmetric] SerialPacketChunks_ok [OF ne(1) f(2) assms(3)] rbind_simps
        SerialRecvDelta_ok [OF f2] c [symmetric]
      by (subst cc) (rule refl)
  qed
  define Y where "Y = drop 4 (tcc_fixed f) @ X"
  have y: "length Y = n - 4" "tcc_fixed f @ X = rtcp_header 2 0 15 205 0 @ Y" using lx assms(4)
    by (simp_all add: Y_def tcc_fixed_def)
  have h: "rtcp_header 2 0 15 205 0 = [0x8F, 205, 0, 0]" "\<And>l. rtcp_header 2 0 15 205 l = [0x8F, 205] @ be 2 l"
    "\<And>l. rtcp_header 2 1 15 205 l = [0xAF, 205] @ be 2 l" "set_bits 5 1 1 (0x8F :: u8) = 0xAF"
    by (simp_all add: rtcp_header_def be_expand) code_simp+
  have p: "tcc_pad (fst ?c, n) = Inr (if n mod 4 = 0 then ([0x8F, 205, 0, 0] @ Y @ drop n b, n)
      else ([0xAF, 205, 0, 0] @ Y @ [0, 2] @ drop (n + 2) b, n + 2))"
  proof -
    have b0: "fst ?c ! 0 = 0x8F" by (simp add: cb(1) y(2) h(1) flip: append_assoc)
    have "length (fst ?c) = length b" using assms(4,5) lx by (simp add: cb(1))
    moreover have "n mod 2 = 0" "20 \<le> n" by (simp_all add: assms(4))
    ultimately have "tcc_pad (fst ?c, n) = Inr (if n mod 4 = 0 then (fst ?c, n)
        else (poke (poke (fst ?c) 0 [0xAF]) n [0, 2], n + 2))"
      using tcc_pad_ok [of n "fst ?c"] assms(5) by (simp only: b0 h(4))
    moreover have "fst ?c = [0x8F, 205, 0, 0] @ Y @ drop n b" by (simp add: cb(1) y(2) h(1) flip: append_assoc)
    moreover have "poke (poke ([0x8F, 205, 0, 0] @ Y @ drop n b) 0 [0xAF]) n [0, 2] = [0xAF, 205, 0, 0] @ Y @ [0, 2] @ drop (n + 2) b"
      using y(1) assms(4,5) by (simp add: poke_def take_Cons' drop_Cons')
    ultimately show ?thesis by simp
  qed
  have m: "n mod 4 = 0 \<or> n mod 4 = 2" unfolding assms(4) by presburger
  have n20: "4 \<le> n" "length Y = n - 4" "n + 4 \<le> length b" using assms(4,5) y(1) by simp_all
  have ex: "length xs = k \<Longrightarrow> take k (xs @ ys) = xs" for xs ys :: bytes and k by simp
  have goal: "drop 4 (tcc_fixed f) @ concat (map (be 2) (?W @ ?D)) @ t = Y @ t" for t by (simp only: Y_def X_def append_assoc)
  show ?thesis
  proof (cases "n mod 4 = 0")
    case True
    let ?o = "[0x8F, 205] @ be 2 (of_nat (n div 4 - 1) :: u16) @ Y @ drop n b"
    have w: "wr ([0x8F, 205, 0, 0] @ Y @ drop n b) 2 (be 2 (of_nat (n div 4 - 1) :: u16)) = Inr ?o"
      by (simp add: wr_def poke_def)
    have "tcc_Serial b len f = Inr (True, ?o, n)" unfolding 1 p using True by (simp only: refl if_True rbind_simps prod.case w)
    moreover have "length ?o = length b" "take n ?o = rtcp_header 2 0 15 205 (of_nat (n div 4 - 1)) @ Y"
      using n20 ex [of "[0x8F, 205] @ be 2 (of_nat (n div 4 - 1) :: u16) @ Y" n "drop n b"]
      by (simp_all only: h(2) append_assoc) simp_all
    ultimately show ?thesis unfolding goal using True by (intro exI [of _ ?o]) simp
  next
    case False
    with m have n2: "n mod 4 = 2" by simp
    let ?o = "[0xAF, 205] @ be 2 (of_nat ((n + 2) div 4 - 1) :: u16) @ Y @ [0, 2] @ drop (n + 2) b"
    have w: "wr ([0xAF, 205, 0, 0] @ Y @ [0, 2] @ drop (n + 2) b) 2 (be 2 (of_nat ((n + 2) div 4 - 1) :: u16)) = Inr ?o"
      by (simp add: wr_def poke_def)
    have "tcc_Serial b len f = Inr (True, ?o, n + 2)" unfolding 1 p using False by (simp only: refl if_False rbind_simps prod.case w)
    moreover have "length ?o = length b" "take (n + 2) ?o = rtcp_header 2 1 15 205 (of_nat ((n + 2) div 4 - 1)) @ Y @ [0, 2]"
      using n20 ex [of "[0xAF, 205] @ be 2 (of_nat ((n + 2) div 4 - 1) :: u16) @ Y @ [0, 2]" "n + 2" "drop (n + 2) b"]
      by (simp_all only: h(3) append_assoc) simp_all
    ultimately show ?thesis unfolding goal using n2 by (intro exI [of _ ?o]) simp
  qed
qed

section \<open>Serialising\<close>

lemma message_words_length:
  assumes "deltas \<noteq> []"
  shows "14 * length (message_words deltas) \<le> span (wide_seq (hd deltas)) (tl deltas) + length deltas + 14"
  using loop_bounds [of "(1, 1)" "wide_seq (hd deltas)" "tl deltas"] assms
  by (auto simp: message_words_def Let_def)

definition tcc_example :: tcc_fb where
  "tcc_example = snd (InsertPacket 3 1050 (snd (InsertPacket 2 1020 (snd (InsertPacket 1 1000 RtcpTccFbPacket_new)))))"

lemma tcc_example_eq:
  "tf_recv_deltas tcc_example = [\<lparr>delta_ms = 20, wide_seq = 2\<rparr>, \<lparr>delta_ms = 30, wide_seq = 3\<rparr>]"
  "tf_base_seq tcc_example = 1"
  by (simp_all add: tcc_example_def InsertPacket_def RtcpTccFbPacket_new_def tcc_Reset_def Let_def tcc_max_delta_def
      SeqLowerThan_unat RcvDeltaInfo_new_def)

lemma tcc_serial_safe_aux:
  assumes "tf_recv_deltas f = d # ds" and "1 \<le> length ds" and "length ds < 300" and "span (wide_seq d) ds \<le> 3000"
    and "length b = 1500"
  shows "\<exists>out n. tcc_Serial b len f = Inr (True, out, n) \<and> n \<le> 1500 \<and> n mod 4 = 0 \<and> GetRtcpLength out = n \<and>
    length out = 1500"
proof -
  let ?D = "tf_recv_deltas f"
  have w: "length (message_words ?D) \<le> 256" using message_words_length [of ?D] assms(1-4) by simp
  define n where "n = 20 + 2 * length (message_words ?D) + 2 * length ?D"
  define N where "N = n + n mod 4"
  have n: "n + 4 \<le> length b" "n \<le> 1132" "n mod 2 = 0" using w assms(1,3,5) by (simp_all add: n_def)
  have N: "N \<le> 1500" "N mod 4 = 0" "20 \<le> N" using n unfolding N_def by (simp_all add: n_def) presburger+
  obtain out where o: "tcc_Serial b len f = Inr (True, out, N)" "length out = 1500"
    "take N out = rtcp_header 2 (of_nat (n mod 4 div 2)) 15 205 (of_nat (N div 4 - 1)) @ drop 4 (tcc_fixed f) @
      concat (map (be 2) (message_words ?D @ map delta_ms ?D)) @ (if n mod 4 = 0 then [] else [0, 2])"
    using tcc_Serial_ok [OF refl _ w n_def n(1), of len] assms(1,2,5) unfolding N_def by auto
  have "take 2 (drop 2 (take N out)) = be 2 (of_nat (N div 4 - 1) :: u16)" unfolding o(3) by (simp add: rtcp_header_def)
  moreover have "take 2 (drop 2 (take N out)) = take 2 (drop 2 out)" using N(3) by (simp add: drop_take)
  ultimately have "rtcp_length out = of_nat (N div 4 - 1)" by (simp add: rtcp_length_def)
  moreover have "N div 4 - 1 < 65536" using N by simp
  ultimately have "unat (rtcp_length out) = N div 4 - 1" by (simp add: unat_of_nat)
  moreover have "(N div 4 - 1 + 1) * 4 = N" using N by auto
  ultimately have "GetRtcpLength out = N" by (simp add: GetRtcpLength_def)
  with o(1,2) N(1,2) show ?thesis by (intro exI [of _ out] exI [of _ N]) simp
qed

text \<open>
  C23. Serialising a batch is safe and succeeds when it has between 2 and 300 packets and their transport-wide
  numbers do not reach further than 3000: no write leaves the 1500 byte buffer of the caller, none of the
  assertions fails, and the message is a multiple of four bytes long, with a correct length field.
\<close>

theorem tcc_serial_safe:
  assumes "tf_recv_deltas f = d # ds" and "1 \<le> length ds" and "length ds < 300" and "span (wide_seq d) ds \<le> 3000"
    and "length b = 1500"
  shows "\<exists>out n. tcc_Serial b len f = Inr (True, out, n) \<and> n \<le> 1500 \<and> n mod 4 = 0 \<and> GetRtcpLength out = n \<and>
    length out = 1500"
  by (rule tcc_serial_safe_aux [OF assms])

theorem tcc_serial_safe_witness:
  "\<exists>out n. tcc_Serial (replicate 1500 0) 0 tcc_example = Inr (True, out, n) \<and> n \<le> 1500 \<and> GetRtcpLength out = n"
proof -
  have "span 2 [\<lparr>delta_ms = 30, wide_seq = 3\<rparr>] \<le> 3000" by (simp add: tcc_gap_def)
  then show ?thesis
    using tcc_serial_safe [of tcc_example "\<lparr>delta_ms = 20, wide_seq = 2\<rparr>" "[\<lparr>delta_ms = 30, wide_seq = 3\<rparr>]" "replicate 1500 0" 0]
    by (auto simp: tcc_example_eq)
qed

text \<open>
  The same code overruns the buffer when a transport-wide number follows the previous one at a distance of
  10400 or more: the chunks for the lost packets alone exceed 1500 bytes, and the bound on the
  number of chunks is checked only after they have been written.
\<close>

theorem tcc_serial_overflow:
  assumes "tf_recv_deltas f = d # e # ds" and "10400 \<le> tcc_gap (wide_seq d) (wide_seq e)" and "length b = 1500"
  shows "tcc_Serial b len f = Inl OutOfBounds"
proof -
  let ?g = "tcc_gap (wide_seq d) (wide_seq e)"
  have "741 \<le> (?g - (14 - 1)) div 14" using div_le_mono [of 10387 "?g - 13" 14] assms(2) by simp
  then have "742 \<le> length (add_words ?g (1, 1))" using assms(2) by (simp add: add_words_def)
  then have "chunk_add ?g (1, 1) (poke b 0 (tcc_fixed f), 20) = Inl OutOfBounds"
    using assms(3) by (intro chunk_add_overflow) simp_all
  then show ?thesis
    using tcc_Serial_start [of f b len] assms(1,3) by (simp add: SerialPacketChunks_def)
qed
theorem tcc_serial_overflow_witness:
  "tcc_Serial (replicate 1500 0) 0
     (snd (InsertPacket 20000 1040 (snd (InsertPacket 2 1020 (snd (InsertPacket 1 1000 RtcpTccFbPacket_new)))))) = Inl OutOfBounds"
proof -
  let ?f = "snd (InsertPacket 20000 1040 (snd (InsertPacket 2 1020 (snd (InsertPacket 1 1000 RtcpTccFbPacket_new)))))"
  have "tf_recv_deltas ?f = [\<lparr>delta_ms = 20, wide_seq = 2\<rparr>, \<lparr>delta_ms = 20, wide_seq = 20000\<rparr>]"
    by (simp add: InsertPacket_def RtcpTccFbPacket_new_def tcc_Reset_def Let_def tcc_max_delta_def SeqLowerThan_unat RcvDeltaInfo_new_def)
  then show ?thesis by (rule tcc_serial_overflow) (simp_all add: tcc_gap_def)
qed

fun contiguous :: "u16 \<Rightarrow> RcvDeltaInfo list \<Rightarrow> bool" where
  "contiguous last_seq [] = True"
| "contiguous last_seq (d # ds) \<longleftrightarrow> wide_seq d = last_seq + 1 \<and> contiguous (wide_seq d) ds"

lemma tcc_gap_next [simp]: "tcc_gap q (q + 1) = 1"
proof (cases "q = 0xFFFF")
  case True
  then show ?thesis by (simp add: tcc_gap_def)
next
  case False
  then have "unat q \<noteq> 65535" by (simp add: word_unat_eq_iff)
  then have "unat (q + 1) = Suc (unat q)" using unat_word_ariths(1) [of q 1] unsigned_less [of q, where ?'a = nat] by simp
  then show ?thesis by (simp add: tcc_gap_def word_less_nat_alt)
qed

lemma mask_one: "push_bit 1 (mask k) OR 1 = (mask (Suc k) :: u16)"
  by (simp add: mask_Suc_double or.commute mult.commute)

lemma loop_contiguous:
  assumes "contiguous last_seq ds" and "k < 14"
  shows "loop_words last_seq ds (mask k, k) = replicate ((k + length ds) div 14) (svc_chunk (mask 14)) \<and>
    loop_state last_seq ds (mask k, k) = (mask ((k + length ds) mod 14), (k + length ds) mod 14)"
  using assms
proof (induction ds arbitrary: last_seq k)
  case (Cons d ds)
  have g: "tcc_gap last_seq (wide_seq d) = 1" using Cons.prems(1) by simp
  have st: "add_state (Suc 0) (mask k, k) = (mask (Suc k), Suc k)" "add_words (Suc 0) (mask k, k) = []" for k
    using mask_one [of k] by (simp_all add: add_state_def add_words_def)
  show ?case
  proof (cases "Suc k = 14")
    case True
    have "(14 + length ds) div 14 = Suc (length ds div 14)" by simp
    then show ?thesis
      using True Cons.IH [of "wide_seq d" 0] Cons.prems(1) by (auto simp: g st full_words_def full_state_def)
  next
    case False
    then show ?thesis
      using Cons.IH [of "wide_seq d" "Suc k"] Cons.prems by (auto simp: g st full_words_def full_state_def)
  qed
qed simp

lemma message_words_contiguous:
  assumes "contiguous (wide_seq d) ds" and "n = Suc (length ds)"
  shows "message_words (d # ds) = replicate (n div 14) (svc_chunk (mask 14)) @
    (if n mod 14 > 1 then [svc_chunk (push_bit (14 - n mod 14) (mask (n mod 14)))] else [])"
proof -
  have "(1 :: u16) = mask 1" by (simp add: mask_eq_exp_minus_1)
  then show ?thesis
    using loop_contiguous [OF assms(1), of 1] assms(2) by (simp only: message_words_def Let_def list.sel) simp
qed

text \<open>Reading 16 bit words back.\<close>

definition words_at :: "bytes \<Rightarrow> nat \<Rightarrow> u16 list \<Rightarrow> bool" where
  "words_at data p ws \<longleftrightarrow> p + 2 * length ws \<le> length data \<and> take (2 * length ws) (drop p data) = concat (map (be 2) ws)"

lemma words_at_append:
  assumes "words_at data p (xs @ ys)"
  shows "words_at data p xs" "words_at data (p + 2 * length xs) ys"
proof -
  let ?A = "concat (map (be 2) xs)" and ?B = "concat (map (be 2) ys)"
  have l: "p + 2 * length xs + 2 * length ys \<le> length data"
    and t: "take (2 * length xs + 2 * length ys) (drop p data) = ?A @ ?B"
    using assms by (simp_all add: words_at_def distrib_left)
  have "take (2 * length xs) (drop p data) = take (2 * length xs) (take (2 * length xs + 2 * length ys) (drop p data))" by simp
  also have "\<dots> = ?A" unfolding t by simp
  finally show "words_at data p xs" using l by (simp add: words_at_def)
  have "take (2 * length ys) (drop (p + 2 * length xs) data) =
      drop (2 * length xs) (take (2 * length xs + 2 * length ys) (drop p data))" by (simp add: drop_take add.commute)
  also have "\<dots> = ?B" unfolding t by simp
  finally show "words_at data (p + 2 * length xs) ys" using l by (simp add: words_at_def)
qed

lemma words_at_Cons:
  assumes "words_at data p (w # ws)"
  shows "Read2Bytes data p = Inr w" "words_at data (p + 2) ws" "p + 2 \<le> length data"
proof -
  have a: "words_at data p [w]" and b: "words_at data (p + 2) ws" using words_at_append [of data p "[w]" ws] assms by simp_all
  then show "words_at data (p + 2) ws" "p + 2 \<le> length data" by (simp_all add: words_at_def)
  show "Read2Bytes data p = Inr w" using a by (simp add: words_at_def Read_be numeral_2_eq_2 [symmetric])
qed

lemma tcc_read_chunks_svc:
  assumes "words_at data p (map svc_chunk ws)" and "p + 2 * length ws \<le> e"
    and "unat c + 14 * length ws < 65536" and "unat need \<le> unat c + 14 * length ws"
    and "ws \<noteq> [] \<Longrightarrow> unat c + 14 * (length ws - 1) < unat need"
  shows "tcc_read_chunks data e p c need = Inr (Some (map svc_chunk ws, p + 2 * length ws))"
  using assms
proof (induction ws arbitrary: p c)
  case Nil
  then show ?case by (subst tcc_read_chunks.simps) (simp add: word_less_nat_alt)
next
  case (Cons w ws)
  have r: "Read2Bytes data p = Inr (svc_chunk w)" "words_at data (p + 2) (map svc_chunk ws)"
    using words_at_Cons [of data p "svc_chunk w" "map svc_chunk ws"] Cons.prems(1) by simp_all
  have c: "unat (c + 14) = unat c + 14" using Cons.prems(3) unat_word_ariths(1) [of c 14] by simp
  have lt: "c < need" using Cons.prems(5) by (simp add: word_less_nat_alt)
  have "tcc_read_chunks data e (p + 2) (c + 14) need = Inr (Some (map svc_chunk ws, p + 2 + 2 * length ws))"
    by (rule Cons.IH [OF r(2)]) (use Cons.prems c in \<open>auto simp: neq_Nil_conv\<close>)
  then show ?case
    using lt Cons.prems(2) svc_chunk_type [of w] by (subst tcc_read_chunks.simps) (simp add: r(1))
qed

lemma tcc_read_deltas_words:
  assumes "words_at data p ws" and "p + 2 * length ws \<le> e"
  shows "tcc_read_deltas data e p (length ws) = Inr (Some (map (\<lambda>w. \<lparr>delta_ms = w, wide_seq = 0\<rparr>) ws))"
  using assms
proof (induction ws arbitrary: p)
  case (Cons w ws)
  have "RcvDeltaInfo_new (sint w) 0 = \<lparr>delta_ms = w, wide_seq = 0\<rparr>" by (simp add: RcvDeltaInfo_new_def)
  then show ?case using Cons.IH [OF words_at_Cons(2) [OF Cons.prems(1)]] words_at_Cons(1,3) [OF Cons.prems(1)] Cons.prems(2) by simp
qed simp

lemma symbols_full: "chunk_symbols (svc_chunk (mask 14)) = replicate 14 True"
  unfolding chunk_symbols_svc by (rule nth_equalityI) (auto simp: rev_nth bit_simps)

lemma symbols_part:
  assumes "r \<le> 14"
  shows "chunk_symbols (svc_chunk (push_bit (14 - r) (mask r))) = replicate r True @ replicate (14 - r) False"
  unfolding chunk_symbols_svc using assms by (intro nth_equalityI) (auto simp: rev_nth bit_simps nth_append)

lemma assign_seqs_all:
  "length ds = n \<Longrightarrow> assign_seqs q (replicate n True) ds = map (\<lambda>i. (ds ! i)\<lparr>wide_seq := q + of_nat i\<rparr>) [0 ..< n]"
proof (induction ds arbitrary: q n)
  case (Cons d ds)
  then obtain m where n: "n = Suc m" "length ds = m" by auto
  have "[0 ..< Suc m] = 0 # map Suc [0 ..< m]" by (simp add: upt_conv_Cons map_Suc_upt del: upt_Suc)
  then show ?case unfolding n(1) using Cons.IH [OF n(2), of "q + 1"] by (simp add: comp_def algebra_simps del: upt_Suc)
qed simp

section \<open>Round trip of a complete batch\<close>

lemma tcc_fields_read:
  assumes "take n out = hdr @ drop 4 (tcc_fixed f) @ rest" and "length hdr = 4" and "20 \<le> e" and "20 \<le> n" and "n \<le> length out"
  shows "tcc_parse_fields out e = Inr (Some (RtcpTccFbPacket_new
     \<lparr>tf_sender_ssrc := tf_sender_ssrc f, tf_media_ssrc := tf_media_ssrc f, tf_base_seq := tf_base_seq f,
      tf_packet_status_cnt := of_nat (length (tf_recv_deltas f)), tf_fb_pkt_count := tf_fb_pkt_count f,
      tf_reference_time := take_bit 24 (tf_reference_time f)\<rparr>))"
proof -
  let ?rc = "push_bit 8 (tf_reference_time f) OR ucast (tf_fb_pkt_count f)"
  have r: "take k (drop i out) = take k (drop i (hdr @ drop 4 (tcc_fixed f) @ rest))" if "i + k \<le> n" for i k
    unfolding assms(1) [symmetric] using that by (simp add: drop_take min_def)
  have "Read4Bytes out 4 = Inr (tf_sender_ssrc f)" "Read4Bytes out 8 = Inr (tf_media_ssrc f)"
    "Read2Bytes out 12 = Inr (tf_base_seq f)" "Read2Bytes out 14 = Inr (of_nat (length (tf_recv_deltas f)))"
    "Read4Bytes out 16 = Inr ?rc"
    using assms(2,4,5) by (simp_all add: Read_be r tcc_fixed_def)
  moreover have "(ucast (?rc AND 0xFF) :: u8) = tf_fb_pkt_count f"
  proof -
    have "?rc AND 0xFF = take_bit 8 ?rc" by (simp add: take_bit_eq_mask mask_eq_exp_minus_1)
    also have "\<dots> = ucast (tf_fb_pkt_count f)" by (rule bit_word_eqI) (auto simp: bit_simps dest: bit_imp_le_length)
    finally have "?rc AND 0xFF = ucast (tf_fb_pkt_count f)" .
    then show ?thesis by (simp only:) (rule bit_word_eqI, simp add: bit_simps)
  qed
  moreover have "drop_bit 8 ?rc AND 0x00FFFFFF = take_bit 24 (tf_reference_time f)"
  proof -
    have "drop_bit 8 ?rc AND 0x00FFFFFF = take_bit 24 (drop_bit 8 ?rc)" by (simp add: take_bit_eq_mask mask_eq_exp_minus_1)
    also have "\<dots> = take_bit 24 (tf_reference_time f)" by (rule bit_word_eqI) (auto simp: bit_simps dest: bit_imp_le_length)
    finally show ?thesis .
  qed
  ultimately show ?thesis using assms(3) by (simp add: tcc_parse_fields_def)
qed

lemma tcc_read_chunks_reject:
  assumes "words_at data p (map svc_chunk ws @ [x])" and "p + 2 * length ws + 2 \<le> e"
    and "unat c + 14 * length ws < unat need" and "x AND 0x8000 = 0 \<or> x AND 0x4000 \<noteq> 0"
  shows "tcc_read_chunks data e p c need = Inr None"
  using assms
proof (induction ws arbitrary: p c)
  case Nil
  then show ?case using words_at_Cons(1) [of data p x "[]"]
    by (subst tcc_read_chunks.simps) (auto simp: word_less_nat_alt)
next
  case (Cons w ws)
  have r: "Read2Bytes data p = Inr (svc_chunk w)" "words_at data (p + 2) (map svc_chunk ws @ [x])"
    using words_at_Cons [of data p "svc_chunk w" "map svc_chunk ws @ [x]"] Cons.prems(1) by simp_all
  have lt: "c < need" using Cons.prems(3) by (simp add: word_less_nat_alt)
  have "unat need < 65536" using unsigned_less [of need, where ?'a = nat] by simp
  then have c: "unat (c + 14) = unat c + 14" using Cons.prems(3) unat_word_ariths(1) [of c 14] by simp
  have "tcc_read_chunks data e (p + 2) (c + 14) need = Inr None"
    by (rule Cons.IH [OF r(2)]) (use Cons.prems c in auto)
  then show ?case
    using lt Cons.prems(2) svc_chunk_type [of w] by (subst tcc_read_chunks.simps) (simp add: r(1))
qed

lemma small_delta_not_svc:
  assumes "\<bar>sint (x :: u16)\<bar> \<le> 5000"
  shows "x AND 0x8000 = 0 \<or> x AND 0x4000 \<noteq> 0"
proof -
  have u: "uint x = sint x mod 65536" using uint_sint [of x] by (simp add: take_bit_eq_mod)
  have "bit x 15 \<longrightarrow> bit x 14"
  proof (cases "0 \<le> sint x")
    case True
    then have "uint x = sint x" using assms unfolding u by (intro mod_pos_pos_trivial) simp_all
    then have "uint x div 32768 = 0" using True assms by simp
    then have "\<not> bit (uint x) 15" by (simp add: bit_iff_odd)
    then show ?thesis by (simp add: bit_uint_iff)
  next
    case False
    have "sint x mod 65536 = (sint x + 65536) mod 65536" by simp
    also have "\<dots> = sint x + 65536" using False assms by (intro mod_pos_pos_trivial) simp_all
    finally have "uint x = sint x + 65536" unfolding u .
    then have "uint x div 16384 = 3" using False assms by simp
    then have "bit (uint x) 14" by (simp add: bit_iff_odd)
    then show ?thesis by (simp add: bit_uint_iff)
  qed
  moreover have "(0x8000 :: u16) = push_bit 15 1" "(0x4000 :: u16) = push_bit 14 1" by simp_all
  ultimately show ?thesis using and_push_bit_1 [of x 15] and_push_bit_1 [of x 14] by auto
qed

lemma concat_replicate_replicate: "concat (replicate q (replicate k x)) = replicate (k * q) x"
  by (induction q) (simp_all add: replicate_add)

lemma valid_symbols_all:
  assumes "n < 65536" and "n mod 14 \<noteq> 1"
  shows "valid_symbols (of_nat n) (map svc_chunk (replicate (n div 14) (mask 14) @
    (if n mod 14 > 1 then [push_bit (14 - n mod 14) (mask (n mod 14))] else []))) = replicate n True"
proof -
  let ?q = "n div 14" and ?r = "n mod 14"
  have n: "14 * ?q + ?r = n" by simp
  have "unat (of_nat n :: u16) = n" using assms(1) by (simp add: unat_of_nat)
  moreover have "concat (map chunk_symbols (map svc_chunk (replicate ?q (mask 14)))) = replicate (14 * ?q) True"
    by (simp add: symbols_full concat_replicate_replicate)
  moreover have "chunk_symbols (svc_chunk (push_bit (14 - ?r) (mask ?r))) = replicate ?r True @ replicate (14 - ?r) False"
    by (rule symbols_part) simp
  moreover have "take n (replicate (14 * ?q) True @ replicate ?r True @ replicate (14 - ?r) False) = replicate n True"
    using n by (simp add: replicate_add [symmetric] flip: append_assoc)
  moreover have "?r = 0 \<Longrightarrow> replicate (14 * ?q) True = replicate n True" using n by simp
  ultimately show ?thesis using assms(2) by (auto simp: valid_symbols_def)
qed

lemma tcc_parse_end_ok:
  assumes "take (m + m mod 4) out = rtcp_header 2 (of_nat (m mod 4 div 2)) 15 205 l @ mid @ (if m mod 4 = 0 then [] else [0, 2])"
    and "m mod 2 = 0" and "length mid = m - 4" and "20 \<le> m" and "m + m mod 4 \<le> length out"
  shows "rtcp_version out = 2" "rtcp_packet_type out = 205" "rtcp_count out = 15" "rtcp_length out = l"
    "tcc_parse_end out (m + m mod 4) = Inr (Some m)"
proof -
  let ?N = "m + m mod 4"
  define p where "p = m mod 4 div 2"
  have m4: "m mod 4 = 0 \<or> m mod 4 = 2" using assms(2) by presburger
  have k: "out ! i = (rtcp_header 2 (of_nat p) 15 205 l @ mid @ (if m mod 4 = 0 then [] else [0, 2])) ! i" if "i < ?N" for i
    unfolding p_def assms(1) [symmetric] using that by simp
  have h: "rtcp_header 2 (of_nat p) 15 205 l = [if p = 0 then 0x8F else 0xAF, 205] @ be 2 l"
  proof -
    have "rtcp_header 2 0 15 205 l = [0x8F, 205] @ be 2 l" "rtcp_header 2 1 15 205 l = [0xAF, 205] @ be 2 l"
      by (simp_all add: rtcp_header_def) code_simp+
    moreover have "p = 0 \<or> p = 1" using m4 by (auto simp: p_def)
    ultimately show ?thesis by auto
  qed
  have o: "out ! 0 = (if p = 0 then 0x8F else 0xAF)" "out ! 1 = 205" using k [of 0] k [of 1] assms(4) by (simp_all add: h)
  have "get_bits 6 2 (0x8F :: u8) = 2" "get_bits 6 2 (0xAF :: u8) = 2" "get_bits 0 5 (0x8F :: u8) = 15" "get_bits 0 5 (0xAF :: u8) = 15"
    "get_bits 5 1 (0x8F :: u8) = 0" "get_bits 5 1 (0xAF :: u8) = 1" by code_simp+
  then show "rtcp_version out = 2" "rtcp_packet_type out = 205" "rtcp_count out = 15" and
    pad: "tcc_parse_end out ?N = Inr (Some m)"
    using o k [of "?N - 1"] m4 assms(3,4,5)
    by (auto simp: rtcp_version_def rtcp_packet_type_def rtcp_count_def rtcp_padding_def tcc_parse_end_def p_def h nth_append)
  have "take 2 (drop 2 out) = take 2 (drop 2 (take ?N out))" using assms(4) by (simp add: drop_take min_def)
  also have "\<dots> = be 2 l" unfolding assms(1) h [unfolded p_def] by simp
  finally show "rtcp_length out = l" by (simp add: rtcp_length_def)
qed

lemma tcc_serial_parse:
  assumes "deltas = tf_recv_deltas f" and "2 \<le> length deltas" and "length deltas \<le> 300"
    and "length (message_words deltas) \<le> 256" and "length b = 1500"
  obtains out N m where "tcc_Serial b len f = Inr (True, out, N)"
    "words_at out 20 (message_words deltas @ map delta_ms deltas)"
    "m = 20 + 2 * length (message_words deltas) + 2 * length deltas"
    "tcc_Parse out N = tcc_parse_fci out m (RtcpTccFbPacket_new
     \<lparr>tf_sender_ssrc := tf_sender_ssrc f, tf_media_ssrc := tf_media_ssrc f, tf_base_seq := tf_base_seq f,
      tf_packet_status_cnt := of_nat (length deltas), tf_fb_pkt_count := tf_fb_pkt_count f,
      tf_reference_time := take_bit 24 (tf_reference_time f)\<rparr>)"
proof -
  let ?ws = "message_words deltas @ map delta_ms deltas"
  define m where "m = 20 + 2 * length (message_words deltas) + 2 * length deltas"
  define N where "N = m + m mod 4"
  define X where "X = concat (map (be 2) ?ws)"
  have lx: "length X = m - 20" unfolding X_def length_words by (simp add: m_def)
  have m: "m + 4 \<le> length b" "20 \<le> m" "m mod 2 = 0" using assms(2-5) by (simp_all add: m_def)
  define mid where "mid = drop 4 (tcc_fixed f) @ X"
  obtain out where o: "tcc_Serial b len f = Inr (True, out, N)" "length out = 1500"
    "take N out = rtcp_header 2 (of_nat (m mod 4 div 2)) 15 205 (of_nat (N div 4 - 1)) @ mid @ (if m mod 4 = 0 then [] else [0, 2])"
    using tcc_Serial_ok [OF assms(1,2,4) m_def m(1), of len] assms(5)
    unfolding N_def mid_def X_def append_assoc by auto
  have N: "N \<le> 1500" "20 \<le> N" "(N div 4 - 1 + 1) * 4 = N" "m \<le> N"
    using m assms(5) unfolding N_def by (simp_all, presburger+)
  note e = tcc_parse_end_ok [OF o(3) [unfolded N_def] m(3) _ m(2), folded N_def]
  have e: "rtcp_version out = 2" "rtcp_packet_type out = 205" "rtcp_count out = 15"
    "rtcp_length out = of_nat (N div 4 - 1)" "tcc_parse_end out N = Inr (Some m)"
    using e o(2) N(1) lx m(2) by (simp_all add: mid_def)
  have "N div 4 - 1 < 65536" using N(1) by simp
  then have l: "unat (rtcp_length out) = N div 4 - 1" by (simp add: e(4) unat_of_nat)
  have T: "(unat (rtcp_length out) + 1) * 4 = N" using l N(3) by (simp only:)
  have "words_at out 20 ?ws"
  proof -
    have w: "2 * length ?ws = m - 20" by (simp add: m_def)
    have "take (m - 20) (drop 20 out) = take (m - 20) (drop 20 (take N out))" using N(4) by (simp add: drop_take min_def)
    also have "\<dots> = X" unfolding o(3) mid_def using lx by simp
    finally show ?thesis using w m N(1,4) o(2) by (simp only: words_at_def X_def) simp
  qed
  moreover have "tcc_parse_fields out m = Inr (Some (RtcpTccFbPacket_new
     \<lparr>tf_sender_ssrc := tf_sender_ssrc f, tf_media_ssrc := tf_media_ssrc f, tf_base_seq := tf_base_seq f,
      tf_packet_status_cnt := of_nat (length deltas), tf_fb_pkt_count := tf_fb_pkt_count f,
      tf_reference_time := take_bit 24 (tf_reference_time f)\<rparr>))"
    unfolding assms(1)
    by (rule tcc_fields_read [OF o(3) [unfolded mid_def append_assoc]]) (use m N o(2) in simp_all)
  then have "tcc_Parse out N = tcc_parse_fci out m (RtcpTccFbPacket_new
     \<lparr>tf_sender_ssrc := tf_sender_ssrc f, tf_media_ssrc := tf_media_ssrc f, tf_base_seq := tf_base_seq f,
      tf_packet_status_cnt := of_nat (length deltas), tf_fb_pkt_count := tf_fb_pkt_count f,
      tf_reference_time := take_bit 24 (tf_reference_time f)\<rparr>)"
    using N(2) unfolding tcc_Parse_def Let_def T by (simp add: e(1-3,5))
  ultimately show ?thesis using that [OF o(1) _ m_def] by blast
qed

text \<open>A batch without losses, as it is stored: what parsing returns of it.\<close>

lemma tcc_batch_roundtrip:
  assumes "tf_recv_deltas f = d # ds" and "contiguous (wide_seq d) ds" and "n = Suc (length ds)" and "2 \<le> n" and "n \<le> 300"
    and "\<bar>sint (delta_ms d)\<bar> \<le> 5000" and "length b = 1500"
  shows "\<exists>out N. tcc_Serial b len f = Inr (True, out, N) \<and>
    (if n mod 14 = 1 then tcc_Parse out N = Inr None
     else \<exists>g. tcc_Parse out N = Inr (Some g) \<and> tf_sender_ssrc g = tf_sender_ssrc f \<and> tf_media_ssrc g = tf_media_ssrc f \<and>
       tf_base_seq g = tf_base_seq f \<and> unat (tf_packet_status_cnt g) = n \<and> tf_fb_pkt_count g = tf_fb_pkt_count f \<and>
       tf_reference_time g = take_bit 24 (tf_reference_time f) \<and>
       map delta_ms (tf_recv_deltas g) = map delta_ms (d # ds) \<and>
       map wide_seq (tf_recv_deltas g) = map (\<lambda>i. tf_base_seq f + of_nat i) [0 ..< n])"
proof -
  let ?q = "n div 14" and ?r = "n mod 14" and ?D = "map delta_ms (d # ds)"
  define ws where "ws = replicate ?q (mask 14 :: u16) @ (if ?r > 1 then [push_bit (14 - ?r) (mask ?r)] else [])"
  have W: "message_words (d # ds) = map svc_chunk ws"
    unfolding ws_def message_words_contiguous [OF assms(2,3)] by simp
  have n: "14 * ?q + ?r = n" "?r < 14" "length (d # ds) = n" using assms(3) by simp_all
  have lw: "length ws = ?q + (if ?r > 1 then 1 else 0)" by (simp add: ws_def)
  have small: "length (message_words (d # ds)) \<le> 256"
    using lw div_le_mono [OF assms(5), of 14] by (simp add: W)
  obtain out N m where S: "tcc_Serial b len f = Inr (True, out, N)" "words_at out 20 (map svc_chunk ws @ ?D)"
    "m = 20 + 2 * length ws + 2 * n"
    "tcc_Parse out N = tcc_parse_fci out m (RtcpTccFbPacket_new
     \<lparr>tf_sender_ssrc := tf_sender_ssrc f, tf_media_ssrc := tf_media_ssrc f, tf_base_seq := tf_base_seq f,
      tf_packet_status_cnt := of_nat n, tf_fb_pkt_count := tf_fb_pkt_count f,
      tf_reference_time := take_bit 24 (tf_reference_time f)\<rparr>)"
    using tcc_serial_parse [of "d # ds" f b len] assms(1,4,5,7) n(3) small unfolding W by (metis length_map)
  have u: "unat (of_nat n :: u16) = n" using assms(5) by (simp add: unat_of_nat)
  show ?thesis
  proof (cases "?r = 1")
    case True
    have "words_at out 20 (map svc_chunk ws @ [delta_ms d])"
      using words_at_append(1) [of out 20 "map svc_chunk ws @ [delta_ms d]" "map delta_ms ds"] S(2) by simp
    then have "tcc_read_chunks out m 20 0 (of_nat n) = Inr None"
      by (rule tcc_read_chunks_reject) (use S(3) assms(4,6) lw n u True small_delta_not_svc in simp_all)
    then show ?thesis using S(1,4) True by (simp add: tcc_parse_fci_def)
  next
    case False
    have a: "n \<le> 14 * length ws" "14 * length ws < 65536" "14 * (length ws - 1) < n"
    proof -
      have k: "length ws = ?q + 1 \<and> 1 < ?r \<or> length ws = ?q \<and> ?r = 0" using lw False by auto
      then have "length ws - 1 \<le> ?q" "0 < ?q \<longrightarrow> ?r = 0 \<longrightarrow> length ws - 1 + 1 = ?q" by auto
      then show "n \<le> 14 * length ws" "14 * length ws < 65536" "14 * (length ws - 1) < n"
        using k n(1,2) assms(4,5) by linarith+
    qed
    have "tcc_read_chunks out m 20 0 (of_nat n) = Inr (Some (map svc_chunk ws, 20 + 2 * length ws))"
      by (rule tcc_read_chunks_svc [OF words_at_append(1) [OF S(2)]]) (use S(3) a u in simp_all)
    moreover have "valid_symbols (of_nat n) (map svc_chunk ws) = replicate n True"
      unfolding ws_def by (rule valid_symbols_all) (use False assms(5) in simp_all)
    moreover have "tcc_read_deltas out m (20 + 2 * length ws) n = Inr (Some (map (\<lambda>w. \<lparr>delta_ms = w, wide_seq = 0\<rparr>) ?D))"
    proof -
      have "length ?D = n" using n(3) by (simp only: length_map)
      moreover have "words_at out (20 + 2 * length ws) ?D" using words_at_append(2) [OF S(2)] by (simp only: length_map)
      ultimately show ?thesis using tcc_read_deltas_words [of out "20 + 2 * length ws" ?D m] S(3) by (simp only:)
    qed
    moreover have "assign_seqs (tf_base_seq f) (replicate n True) (map (\<lambda>w. \<lparr>delta_ms = w, wide_seq = 0\<rparr>) ?D) =
        map (\<lambda>i. \<lparr>delta_ms = ?D ! i, wide_seq = tf_base_seq f + of_nat i\<rparr>) [0 ..< n]"
      using assign_seqs_all [of "map (\<lambda>w. \<lparr>delta_ms = w, wide_seq = 0\<rparr>) ?D" n "tf_base_seq f"] n(3)
      by (auto simp del: list.map intro!: map_cong)
    moreover have "map (\<lambda>i. ?D ! i) [0 ..< n] = ?D" using n(3) by (metis length_map map_nth)
    ultimately show ?thesis using S(1,4) False u by (simp add: tcc_parse_fci_def comp_def)
  qed
qed

section \<open>Arrival times\<close>

fun tcc_insert_all :: "(u16 \<times> int) list \<Rightarrow> tcc_fb \<Rightarrow> bool \<times> tcc_fb" where
  "tcc_insert_all [] f = (True, f)"
| "tcc_insert_all ((q, t) # ps) f =
     (let (r, f') = InsertPacket (uint q) t f; (ok, f'') = tcc_insert_all ps f' in (r = 0 \<and> ok, f''))"

fun tcc_sequence :: "u16 \<Rightarrow> int \<Rightarrow> (u16 \<times> int) list \<Rightarrow> bool" where
  \<comment> \<open>numbers ascend in serial order and packets arrive at most five seconds apart\<close>
  "tcc_sequence q0 t0 [] = True"
| "tcc_sequence q0 t0 ((q, t) # ps) \<longleftrightarrow> SeqLowerThan q0 q \<and> \<bar>t - t0\<bar> \<le> 5000 \<and> tcc_sequence q t ps"

fun arrival_times :: "int \<Rightarrow> RcvDeltaInfo list \<Rightarrow> int list" where
  \<comment> \<open>what a receiver of the feedback computes from the deltas\<close>
  "arrival_times t0 [] = []"
| "arrival_times t0 (d # ds) = (t0 + sint (delta_ms d)) # arrival_times (t0 + sint (delta_ms d)) ds"

lemma arrival_times_append:
  "arrival_times t0 (xs @ ys) = arrival_times t0 xs @ arrival_times (last (t0 # arrival_times t0 xs)) ys"
  by (induction xs arbitrary: t0) auto

lemma sint_small: "\<bar>d\<bar> \<le> 5000 \<Longrightarrow> sint (word_of_int d :: u16) = d"
  by (simp add: sint_sbintrunc' signed_take_bit_int_eq_self)

lemma tcc_insert_step:
  assumes "tf_has_first_packet f" and "SeqLowerThan (tf_last_wide_seq f) q" and "\<bar>t - tf_base_time_ms f\<bar> \<le> 5000"
  shows "InsertPacket (uint q) t f = (0, f\<lparr>tf_base_time_ms := t,
    tf_recv_deltas := tf_recv_deltas f @ [RcvDeltaInfo_new (t - tf_base_time_ms f) q], tf_last_wide_seq := q\<rparr>)"
proof -
  have "uint q < 65536" using uint_lt2p [of q] by simp
  moreover have "uint q \<noteq> uint (tf_last_wide_seq f)" using assms(2) seq_lt.irrefl [of q] by (metis word_uint_eq_iff)
  ultimately show ?thesis
    using assms seq_lt.asym [of "tf_last_wide_seq f" q]
    by (auto simp: InsertPacket_def Let_def tcc_max_delta_def)
qed

lemma tcc_insert_run:
  assumes "tf_has_first_packet f" and "tcc_sequence (tf_last_wide_seq f) (tf_base_time_ms f) ps"
  shows "\<exists>f' ds. tcc_insert_all ps f = (True, f') \<and> tf_recv_deltas f' = tf_recv_deltas f @ ds \<and>
    map wide_seq ds = map fst ps \<and> arrival_times (tf_base_time_ms f) ds = map snd ps \<and> tf_base_seq f' = tf_base_seq f \<and>
    tf_reference_time f' = tf_reference_time f \<and> tf_sender_ssrc f' = tf_sender_ssrc f \<and> tf_media_ssrc f' = tf_media_ssrc f \<and>
    tf_fb_pkt_count f' = tf_fb_pkt_count f"
  using assms
proof (induction ps arbitrary: f)
  case (Cons p ps)
  obtain q t where p: "p = (q, t)" by (cases p)
  define d where "d = RcvDeltaInfo_new (t - tf_base_time_ms f) q"
  let ?f = "f\<lparr>tf_base_time_ms := t, tf_recv_deltas := tf_recv_deltas f @ [d], tf_last_wide_seq := q\<rparr>"
  have i: "InsertPacket (uint q) t f = (0, ?f)"
    unfolding d_def by (rule tcc_insert_step) (use Cons.prems p in auto)
  have s: "sint (delta_ms d) = t - tf_base_time_ms f"
    unfolding d_def RcvDeltaInfo_new_def using Cons.prems(2) p sint_small [of "t - tf_base_time_ms f"]
    by simp
  have "tf_has_first_packet ?f" "tcc_sequence (tf_last_wide_seq ?f) (tf_base_time_ms ?f) ps" using Cons.prems p by simp_all
  from Cons.IH [OF this] obtain f' ds where r: "tcc_insert_all ps ?f = (True, f')" "tf_recv_deltas f' = tf_recv_deltas ?f @ ds"
    "map wide_seq ds = map fst ps" "arrival_times t ds = map snd ps" "tf_base_seq f' = tf_base_seq f"
    "tf_reference_time f' = tf_reference_time f" "tf_sender_ssrc f' = tf_sender_ssrc f" "tf_media_ssrc f' = tf_media_ssrc f"
    "tf_fb_pkt_count f' = tf_fb_pkt_count f" by auto
  then show ?case using i s p by (intro exI [of _ f'] exI [of _ "d # ds"]) (simp add: d_def RcvDeltaInfo_new_def)
qed simp

text \<open>
  A fresh batch records arrival times without loss: for packets with ascending numbers that arrive at most five
  seconds apart, every insertion succeeds, the recorded numbers are those after the first packet, and
  summing up the 16 bit deltas from the first arrival gives back every arrival time. The base number is that of
  the first packet, for which there is no delta.
\<close>

lemma tcc_batch_recorded:
  assumes "\<not> tf_has_first_packet f" and "tf_recv_deltas f = []" and "tcc_sequence q0 t0 ps"
  shows "\<exists>f'. tcc_insert_all ((q0, t0) # ps) f = (True, f') \<and> tf_base_seq f' = q0 \<and>
    map wide_seq (tf_recv_deltas f') = map fst ps \<and> arrival_times t0 (tf_recv_deltas f') = map snd ps \<and>
    tf_reference_time f' = word_of_int ((t0 sdiv 16) AND 0x00FFFFFF) \<and>
    tf_sender_ssrc f' = tf_sender_ssrc f \<and> tf_media_ssrc f' = tf_media_ssrc f \<and> tf_fb_pkt_count f' = tf_fb_pkt_count f"
proof -
  let ?f = "f\<lparr>tf_has_first_packet := True, tf_base_seq := q0, tf_base_time_ms := t0, tf_last_wide_seq := q0,
     tf_reference_time := word_of_int ((t0 sdiv 16) AND 0x00FFFFFF)\<rparr>"
  have "uint q0 < 65536" using uint_lt2p [of q0] by simp
  then have i: "InsertPacket (uint q0) t0 f = (0, ?f)" using assms(1) by (simp add: InsertPacket_def Let_def)
  show ?thesis using tcc_insert_run [of ?f ps] assms(2,3) i by auto
qed

theorem tcc_times_recorded:
  assumes "\<not> tf_has_first_packet f" and "tf_recv_deltas f = []" and "tcc_sequence q0 t0 ps"
  shows "\<exists>f'. tcc_insert_all ((q0, t0) # ps) f = (True, f') \<and> tf_base_seq f' = q0 \<and>
    map wide_seq (tf_recv_deltas f') = map fst ps \<and> arrival_times t0 (tf_recv_deltas f') = map snd ps"
  using tcc_batch_recorded [OF assms] by blast

theorem tcc_times_recorded_witness:
  "\<exists>f'. tcc_insert_all [(65535, 1000), (1, 1020), (2, 1015)] RtcpTccFbPacket_new = (True, f') \<and>
     arrival_times 1000 (tf_recv_deltas f') = [1020, 1015]"
proof -
  have "tcc_sequence 65535 1000 [(1, 1020), (2, 1015)]" by (simp add: SeqLowerThan_unat)
  then show ?thesis
    using tcc_times_recorded [of RtcpTccFbPacket_new 65535 1000 "[(1, 1020), (2, 1015)]"]
    by (auto simp: RtcpTccFbPacket_new_def tcc_Reset_def)
qed

section \<open>From arrivals to the parsed feedback\<close>

lemma arrival_times_delta: "map delta_ms xs = map delta_ms ys \<Longrightarrow> arrival_times t xs = arrival_times t ys"
proof (induction xs arbitrary: ys t)
  case (Cons x xs)
  from Cons.prems obtain y ys' where y: "ys = y # ys'" "delta_ms x = delta_ms y" "map delta_ms xs = map delta_ms ys'"
    by (cases ys) auto
  with Cons.IH [OF y(3), of "t + sint (delta_ms y)"] show ?case by simp
qed simp

lemma contiguous_numbers: "contiguous q ds \<longleftrightarrow> map wide_seq ds = map (\<lambda>i. q + 1 + of_nat i) [0 ..< length ds]"
proof (induction ds arbitrary: q)
  case (Cons d ds)
  have "map (\<lambda>i. q + 1 + of_nat i) [0 ..< length (d # ds)] = (q + 1) # map (\<lambda>i. (q + 1) + 1 + of_nat i) [0 ..< length ds]"
    by (simp only: length_Cons map_upt_Suc of_nat_Suc add_ac) simp
  then show ?case using Cons.IH [of "q + 1"] by (cases "wide_seq d = q + 1") (simp_all only: contiguous.simps list.map list.inject simp_thms)
qed simp

text \<open>
  C22. Feedback for packets without losses: a first packet and 2 to 300 more with the following transport-wide numbers
  (which may wrap), at most five seconds apart, are all inserted into a fresh batch; serialising it succeeds, and
  parsing the message returns its header fields, the number of the first packet as base number, the reference time and
  the arrival time of every packet but the first. The numbers are off by one: no delta is stored for the first packet,
  but the parser counts from its number, so the time of each packet comes back under the number before its own.
  A batch of one more than a multiple of 14 packets does not parse at all: its last chunk, with a single symbol,
  is not written.
\<close>

theorem tcc_roundtrip:
  assumes "\<not> tf_has_first_packet f" and "tf_recv_deltas f = []" and "tcc_sequence q0 t0 ps"
    and "map fst ps = map (\<lambda>i. q0 + 1 + of_nat i) [0 ..< n]" and "2 \<le> n" and "n \<le> 300" and "length b = 1500"
  shows "\<exists>f' out N. tcc_insert_all ((q0, t0) # ps) f = (True, f') \<and> tcc_Serial b len f' = Inr (True, out, N) \<and>
    map wide_seq (tf_recv_deltas f') = map fst ps \<and>
    (if n mod 14 = 1 then tcc_Parse out N = Inr None
     else \<exists>g. tcc_Parse out N = Inr (Some g) \<and> tf_sender_ssrc g = tf_sender_ssrc f \<and> tf_media_ssrc g = tf_media_ssrc f \<and>
       tf_base_seq g = q0 \<and> unat (tf_packet_status_cnt g) = n \<and> tf_fb_pkt_count g = tf_fb_pkt_count f \<and>
       tf_reference_time g = take_bit 24 (word_of_int ((t0 sdiv 16) AND 0x00FFFFFF)) \<and>
       arrival_times t0 (tf_recv_deltas g) = map snd ps \<and>
       map wide_seq (tf_recv_deltas g) = map (\<lambda>(q, t). q - 1) ps)"
proof -
  obtain f' where f: "tcc_insert_all ((q0, t0) # ps) f = (True, f')" "tf_base_seq f' = q0"
    "map wide_seq (tf_recv_deltas f') = map fst ps" "arrival_times t0 (tf_recv_deltas f') = map snd ps"
    "tf_reference_time f' = word_of_int ((t0 sdiv 16) AND 0x00FFFFFF)"
    "tf_sender_ssrc f' = tf_sender_ssrc f" "tf_media_ssrc f' = tf_media_ssrc f" "tf_fb_pkt_count f' = tf_fb_pkt_count f"
    using tcc_batch_recorded [OF assms(1-3)] by blast
  have len: "length ps = n" "length (tf_recv_deltas f') = n"
    using arg_cong [OF assms(4), of length] arg_cong [OF f(3), of length] by simp_all
  then have c: "contiguous q0 (tf_recv_deltas f')" using f(3) assms(4) by (simp add: contiguous_numbers)
  obtain d ds where d: "tf_recv_deltas f' = d # ds" using len assms(5) by (cases "tf_recv_deltas f'") auto
  have e: "contiguous (wide_seq d) ds" "n = Suc (length ds)" "\<bar>sint (delta_ms d)\<bar> \<le> 5000"
    using c d len(2) f(4) assms(3) by (simp, simp, cases ps, auto)
  obtain out N where S: "tcc_Serial b len f' = Inr (True, out, N)"
    "if n mod 14 = 1 then tcc_Parse out N = Inr None
     else \<exists>g. tcc_Parse out N = Inr (Some g) \<and> tf_sender_ssrc g = tf_sender_ssrc f' \<and> tf_media_ssrc g = tf_media_ssrc f' \<and>
       tf_base_seq g = tf_base_seq f' \<and> unat (tf_packet_status_cnt g) = n \<and> tf_fb_pkt_count g = tf_fb_pkt_count f' \<and>
       tf_reference_time g = take_bit 24 (tf_reference_time f') \<and>
       map delta_ms (tf_recv_deltas g) = map delta_ms (tf_recv_deltas f') \<and>
       map wide_seq (tf_recv_deltas g) = map (\<lambda>i. tf_base_seq f' + of_nat i) [0 ..< n]"
    using tcc_batch_roundtrip [OF d e(1,2) assms(5,6) e(3) assms(7), of len, folded d] by blast
  have t: "arrival_times t0 (tf_recv_deltas g) = map snd ps" if "map delta_ms (tf_recv_deltas g) = map delta_ms (tf_recv_deltas f')" for g
    using arrival_times_delta [OF that] f(4) by simp
  have "map (\<lambda>(q, t). q - 1) ps = map (\<lambda>q. q - 1) (map fst ps)" by (simp add: comp_def split_def)
  then have "map (\<lambda>(q, t). q - 1) ps = map (\<lambda>i. q0 + of_nat i) [0 ..< n]" unfolding assms(4) by (simp add: comp_def)
  then show ?thesis using S f(1-3,5-8) t by (intro exI [of _ f'] exI [of _ out] exI [of _ N]) (simp split: if_splits, blast)
qed

theorem tcc_roundtrip_witness:
  "\<exists>f' out N g. tcc_insert_all [(65535, 1000), (0, 1020), (1, 1015)] RtcpTccFbPacket_new = (True, f') \<and>
     tcc_Serial (replicate 1500 0) 0 f' = Inr (True, out, N) \<and> tcc_Parse out N = Inr (Some g) \<and>
     arrival_times 1000 (tf_recv_deltas g) = [1020, 1015] \<and> map wide_seq (tf_recv_deltas g) = [65535, 0]"
proof -
  have f: "\<not> tf_has_first_packet RtcpTccFbPacket_new" "tf_recv_deltas RtcpTccFbPacket_new = []"
    by (simp_all add: RtcpTccFbPacket_new_def tcc_Reset_def)
  have s: "tcc_sequence 65535 1000 [(0, 1020), (1, 1015)]" by (simp add: SeqLowerThan_unat)
  have m: "map fst [(0 :: u16, 1020 :: int), (1, 1015)] = map (\<lambda>i. 65535 + 1 + of_nat i) [0 ..< 2]" by (simp add: upt_conv_Cons)
  from tcc_roundtrip [OF f s m, of "replicate 1500 0" 0] show ?thesis by auto
qed

end
