(* ===== verification/Tcc_Server.thy ===== *)
theory Tcc_Server
  imports Rtcp_Tcc
begin

unbundle bit_operations_syntax

text \<open>
  \<open>TccServer\<close> of \<open>webrtc_room/tcc_server.cpp\<close>: one feedback batch per WebRTC session, filled by the received RTP
  packets and flushed when it is full, when a packet does not fit, or by the timer. The batch is allocated by the
  constructor and never released, so the tests for a null pointer do not appear. A message passed to
  \<open>OnTransportSendRtcp\<close> is returned; \<open>now_ms\<close> stands for \<open>now_millisec()\<close>.
\<close>

section \<open>State and operations\<close>

record tcc_server =
  ts_cb :: bool
  ts_fb :: tcc_fb
  ts_fb_pkt_count :: u8
  ts_sender_ssrc :: u32
  ts_media_ssrc :: u32
  ts_tcc_extension_id :: u8

definition kFeedbackTimeoutMs :: int where "kFeedbackTimeoutMs = 2 * 1000"

definition ResetFeedbackPacket :: "tcc_server \<Rightarrow> tcc_server" where
  "ResetFeedbackPacket s = s\<lparr>ts_fb := tcc_SetFbPktCount (ts_fb_pkt_count s)
     (tcc_SetSsrc (ts_sender_ssrc s) (ts_media_ssrc s) (tcc_Reset (ts_fb s)))\<rparr>"

definition TccServer_new :: "bool \<Rightarrow> tcc_server" where
  "TccServer_new cb = ResetFeedbackPacket \<lparr>ts_cb = cb, ts_fb = RtcpTccFbPacket_new, ts_fb_pkt_count = 0,
     ts_sender_ssrc = 0, ts_media_ssrc = 0, ts_tcc_extension_id = 0\<rparr>"

definition SetSenderSsrc :: "u32 \<Rightarrow> tcc_server \<Rightarrow> tcc_server" where
  "SetSenderSsrc ssrc s = s\<lparr>ts_sender_ssrc := ssrc, ts_fb := tcc_SetSsrc ssrc (ts_media_ssrc s) (ts_fb s)\<rparr>"

definition SetTccExtensionId :: "u8 \<Rightarrow> tcc_server \<Rightarrow> tcc_server" where
  "SetTccExtensionId i s = s\<lparr>ts_tcc_extension_id := i\<rparr>"

definition FlushFeedback :: "tcc_server \<Rightarrow> (bool \<times> bytes option \<times> tcc_server) res" where
  "FlushFeedback s =
     (if PacketCount (ts_fb s) = 0 then Inr (False, None, ResetFeedbackPacket s)
      else if \<not> ts_cb s then Inr (False, None, ResetFeedbackPacket s)
      else let fb = tcc_SetFbPktCount (ts_fb_pkt_count s) (tcc_SetSsrc (ts_sender_ssrc s) (ts_media_ssrc s) (ts_fb s));
               s1 = s\<lparr>ts_fb := fb, ts_fb_pkt_count := ts_fb_pkt_count s + 1\<rparr> in
        rbind (tcc_Serial (replicate 1500 0) 1500 fb) (\<lambda>(r, buffer, len).
          if \<not> r then Inr (False, None, ResetFeedbackPacket s1)
          else Inr (True, Some (take len buffer), ResetFeedbackPacket s1)))"

definition ts_OnTimer :: "int \<Rightarrow> tcc_server \<Rightarrow> (bytes option \<times> tcc_server) res" where
  "ts_OnTimer now_ms s =
     (if PacketCount (ts_fb s) = 0 then Inr (None, s)
      else let oldest_ms = OldestPacketTimeMs (ts_fb s) in
        if oldest_ms \<le> 0 then Inr (None, s)
        else if now_ms - oldest_ms \<ge> kFeedbackTimeoutMs
          then rbind (FlushFeedback s) (\<lambda>(_, out, s'). Inr (out, s'))
          else Inr (None, s))"

definition ResolvePacketTimeMs :: "int \<Rightarrow> rtp_packet option \<Rightarrow> int" where
  "ResolvePacketTimeMs now_ms rtp_packet =
     (case rtp_packet of None \<Rightarrow> now_ms | Some p \<Rightarrow> if rp_local_ms p \<le> 0 then now_ms else rp_local_ms p)"

definition InsertRtpPacket :: "int \<Rightarrow> rtp_packet option \<Rightarrow> tcc_server \<Rightarrow> (int \<times> bytes option \<times> tcc_server) res" where
  "InsertRtpPacket now_ms rtp_packet s =
     (case rtp_packet of
        None \<Rightarrow> Inr (-1, None, s)
      | Some pkt \<Rightarrow>
          if ts_tcc_extension_id s = 0 then Inr (-1, None, s)
          else let s1 = s\<lparr>ts_media_ssrc := GetSsrc pkt, ts_sender_ssrc := 0, ts_fb := tcc_SetSsrc 0 (GetSsrc pkt) (ts_fb s)\<rparr> in
            rbind (ReadWideSeq pkt) (\<lambda>r. case r of
              None \<Rightarrow> Inr (-1, None, s1)
            | Some q \<Rightarrow>
                let t = ResolvePacketTimeMs now_ms rtp_packet; (ret, fb) = InsertPacket (uint q) t (ts_fb s1);
                    s2 = s1\<lparr>ts_fb := fb\<rparr> in
                if ret \<noteq> 0 then
                  rbind (FlushFeedback s2) (\<lambda>(_, out, s3).
                    let s4 = ResetFeedbackPacket s3 in
                    Inr (0, out, s4\<lparr>ts_fb := snd (InsertPacket (uint q) t (ts_fb s4))\<rparr>))
                else if IsFullRtcp fb then rbind (FlushFeedback s2) (\<lambda>(_, out, s3). Inr (0, out, s3))
                else Inr (0, None, s2)))"

section \<open>Flushing\<close>

lemma Reset_batch [simp]:
  "tf_recv_deltas (ts_fb (ResetFeedbackPacket s)) = []" "tf_has_first_packet (ts_fb (ResetFeedbackPacket s)) = False"
  "ts_cb (ResetFeedbackPacket s) = ts_cb s" "ts_fb_pkt_count (ResetFeedbackPacket s) = ts_fb_pkt_count s"
  "PacketCount (ts_fb (ResetFeedbackPacket s)) = 0" "tf_fb_pkt_count (ts_fb (ResetFeedbackPacket s)) = ts_fb_pkt_count s"
  by (simp_all add: ResetFeedbackPacket_def tcc_SetFbPktCount_def tcc_SetSsrc_def tcc_Reset_def PacketCount_def)

lemma Flush_batch:
  assumes "FlushFeedback s = Inr (r, out, s')"
  shows "PacketCount (ts_fb s') = 0" "\<not> tf_has_first_packet (ts_fb s')" "ts_cb s' = ts_cb s"
    "ts_tcc_extension_id s' = ts_tcc_extension_id s"
  using assms by (auto simp: FlushFeedback_def Let_def ResetFeedbackPacket_def tcc_SetFbPktCount_def tcc_SetSsrc_def
      tcc_Reset_def PacketCount_def split: if_splits)

text \<open>
  Flushing a batch of at most 300 packets whose numbers reach no further than 3000 always succeeds: a message
  goes out exactly when there is a callback and the batch has at least two entries; it is a
  complete RTCP packet with a correct length field; the feedback count is advanced for every batch that is
  not empty, sent or not; and the batch is empty afterwards.
\<close>

theorem tcc_flush_outcome:
  assumes "PacketCount (ts_fb s) \<le> 300" and "\<And>d ds. tf_recv_deltas (ts_fb s) = d # ds \<Longrightarrow> span (wide_seq d) ds \<le> 3000"
  shows "\<exists>out s'. FlushFeedback s = Inr (out \<noteq> None, out, s') \<and> PacketCount (ts_fb s') = 0 \<and>
    (out \<noteq> None \<longleftrightarrow> ts_cb s \<and> 2 \<le> PacketCount (ts_fb s)) \<and>
    ts_fb_pkt_count s' = ts_fb_pkt_count s + (if ts_cb s \<and> PacketCount (ts_fb s) \<noteq> 0 then 1 else 0) \<and>
    (\<forall>m. out = Some m \<longrightarrow> length m mod 4 = 0 \<and> GetRtcpLength m = length m \<and> length m \<le> 1500)"
proof (cases "ts_cb s \<and> PacketCount (ts_fb s) \<noteq> 0")
  case False
  then show ?thesis by (auto simp: FlushFeedback_def)
next
  case True
  define fb where "fb = tcc_SetFbPktCount (ts_fb_pkt_count s) (tcc_SetSsrc (ts_sender_ssrc s) (ts_media_ssrc s) (ts_fb s))"
  have fb: "tf_recv_deltas fb = tf_recv_deltas (ts_fb s)" by (simp add: fb_def tcc_SetFbPktCount_def tcc_SetSsrc_def)
  obtain d ds where ds: "tf_recv_deltas (ts_fb s) = d # ds" using True by (cases "tf_recv_deltas (ts_fb s)") (auto simp: PacketCount_def)
  show ?thesis
  proof (cases "ds = []")
    case single: True
    then have "tcc_Serial (replicate 1500 0) 1500 fb = Inr (False, replicate 1500 0, 1500)"
      using ds fb by (simp add: tcc_Serial_def)
    then show ?thesis using True single ds by (simp add: FlushFeedback_def fb_def [symmetric] PacketCount_def)
  next
    case many: False
    then obtain b n where r: "tcc_Serial (replicate 1500 0) 1500 fb = Inr (True, b, n)" "n \<le> 1500" "n mod 4 = 0"
      "GetRtcpLength b = n" "length b = 1500"
      using tcc_serial_safe_aux [of fb d ds "replicate 1500 0" 1500] fb ds assms
      by (auto simp: PacketCount_def Suc_le_eq)
    have "4 \<le> n" using r(4) by (auto simp: GetRtcpLength_def)
    then have "take 2 (drop 2 (take n b)) = take 2 (drop 2 b)" by (simp add: drop_take)
    then have "GetRtcpLength (take n b) = n" using r(4) by (simp add: GetRtcpLength_def rtcp_length_def)
    then show ?thesis using True many ds r by (auto simp: FlushFeedback_def fb_def [symmetric] PacketCount_def Suc_le_eq)
  qed
qed

theorem tcc_flush_outcome_witness:
  "\<exists>m s'. FlushFeedback ((TccServer_new True)\<lparr>ts_fb := tcc_example\<rparr>) = Inr (True, Some m, s') \<and>
     ts_fb_pkt_count s' = 1 \<and> GetRtcpLength m = length m"
proof -
  let ?s = "(TccServer_new True)\<lparr>ts_fb := tcc_example\<rparr>"
  have "PacketCount (ts_fb ?s) = 2" "ts_cb ?s" "ts_fb_pkt_count ?s = 0"
    by (simp_all add: PacketCount_def tcc_example_eq TccServer_new_def)
  moreover have "span (wide_seq d) ds \<le> 3000" if "tf_recv_deltas (ts_fb ?s) = d # ds" for d ds
    using that by (auto simp: tcc_example_eq tcc_gap_def)
  ultimately show ?thesis using tcc_flush_outcome [of ?s] by auto
qed

section \<open>Filling\<close>

lemma InsertPacket_count: "PacketCount (snd (InsertPacket q t f)) \<le> Suc (PacketCount f)"
  by (simp add: InsertPacket_def Let_def PacketCount_def)

lemma InsertPacket_fresh:
  "PacketCount f = 0 \<Longrightarrow> \<not> tf_has_first_packet f \<Longrightarrow> PacketCount (snd (InsertPacket q t f)) = 0"
  by (simp add: InsertPacket_def Let_def PacketCount_def)

inductive tcc_reach :: "tcc_server \<Rightarrow> bool" where
  tcc_start: "tcc_reach (TccServer_new cb)"
| tcc_set_id: "tcc_reach s \<Longrightarrow> tcc_reach (SetTccExtensionId i s)"
| tcc_set_ssrc: "tcc_reach s \<Longrightarrow> tcc_reach (SetSenderSsrc ssrc s)"
| tcc_packet: "tcc_reach s \<Longrightarrow> InsertRtpPacket now_ms pkt s = Inr (r, out, s') \<Longrightarrow> tcc_reach s'"
| tcc_tick: "tcc_reach s \<Longrightarrow> ts_OnTimer now_ms s = Inr (out, s') \<Longrightarrow> tcc_reach s'"

lemma InsertRtpPacket_count:
  assumes "PacketCount (ts_fb s) < 300" and "InsertRtpPacket now_ms pkt s = Inr (r, out, s')"
  shows "PacketCount (ts_fb s') < 300"
proof -
  have c: "PacketCount (tcc_SetSsrc a b f) = PacketCount f" for a b f by (simp add: PacketCount_def tcc_SetSsrc_def)
  have full: "\<not> IsFullRtcp f \<Longrightarrow> PacketCount f < 300" for f by (simp add: IsFullRtcp_def PacketCount_def kMaxRecvRtpPacketNumber_def)
  show ?thesis
  proof (cases pkt)
    case None
    then show ?thesis using assms by (simp add: InsertRtpPacket_def)
  next
    case (Some p)
    define s1 where "s1 = s\<lparr>ts_media_ssrc := GetSsrc p, ts_sender_ssrc := 0, ts_fb := tcc_SetSsrc 0 (GetSsrc p) (ts_fb s)\<rparr>"
    have n1: "PacketCount (ts_fb s1) < 300" using assms(1) c by (simp add: s1_def)
    show ?thesis
    proof (cases "ts_tcc_extension_id s = 0")
      case True
      then show ?thesis using assms by (simp add: InsertRtpPacket_def Some)
    next
      case False
      then obtain w where w: "ReadWideSeq p = Inr w"
        using assms(2) by (cases "ReadWideSeq p") (simp_all add: InsertRtpPacket_def Some Let_def)
      show ?thesis
      proof (cases w)
        case None
        then show ?thesis using assms(2) False w n1 by (simp add: InsertRtpPacket_def Some Let_def s1_def [symmetric])
      next
        case q: (Some q)
        define t where "t = ResolvePacketTimeMs now_ms pkt"
        obtain ret fb where ip: "InsertPacket (uint q) t (ts_fb s1) = (ret, fb)" by (cases "InsertPacket (uint q) t (ts_fb s1)")
        define s2 where "s2 = s1\<lparr>ts_fb := fb\<rparr>"
        have e: "InsertRtpPacket now_ms pkt s =
            (if ret \<noteq> 0 then rbind (FlushFeedback s2) (\<lambda>(_, out, s3). let s4 = ResetFeedbackPacket s3 in
                Inr (0, out, s4\<lparr>ts_fb := snd (InsertPacket (uint q) t (ts_fb s4))\<rparr>))
             else if IsFullRtcp fb then rbind (FlushFeedback s2) (\<lambda>(_, out, s3). Inr (0, out, s3)) else Inr (0, None, s2))"
          using False w q ip unfolding InsertRtpPacket_def Some s2_def t_def by (simp add: Let_def s1_def [symmetric] Some)
        show ?thesis
          using assms(2) [unfolded e] full [of fb] Flush_batch(1) [of s2]
          by (auto simp: Let_def s2_def InsertPacket_fresh split: if_splits)
      qed
    qed
  qed
qed

text \<open>
  In every reachable state the batch holds fewer than 300 packets, the size at which it is flushed; with the
  bound on a message this is what keeps the feedback inside one datagram.
\<close>

theorem tcc_batch_bounded:
  assumes "tcc_reach s"
  shows "PacketCount (ts_fb s) < 300 \<and> \<not> IsFullRtcp (ts_fb s)"
proof -
  have "PacketCount (ts_fb s) < 300"
    using assms
  proof (induction rule: tcc_reach.induct)
    case (tcc_packet s now_ms pkt r out s')
    then show ?case using InsertRtpPacket_count by blast
  next
    case (tcc_tick s now_ms out s')
    then show ?case using Flush_batch(1) by (fastforce simp: ts_OnTimer_def Let_def split: if_splits)
  qed (simp_all add: TccServer_new_def SetTccExtensionId_def SetSenderSsrc_def tcc_SetSsrc_def PacketCount_def)
  then show ?thesis by (simp add: IsFullRtcp_def PacketCount_def kMaxRecvRtpPacketNumber_def)
qed

theorem tcc_batch_bounded_witness: "\<not> IsFullRtcp (ts_fb (SetTccExtensionId 3 (TccServer_new True)))"
  using tcc_batch_bounded [OF tcc_set_id [OF tcc_start]] by simp

end
