(* ===== verification/Byte_Crypto.thy ===== *)
theory Byte_Crypto
  imports RTC_Prelude
begin

unbundle bit_operations_syntax

text \<open>
  The CRC-32 of \<open>utils/byte_crypto.cpp\<close>, which protects STUN messages. The table driven loop is shown equal to the
  bit by bit definition of the checksum. The HMAC of the same class is a call into OpenSSL and is a parameter of
  the theories that use it.
\<close>

section \<open>The code\<close>

definition crc32_table :: "u32 list" where
  "crc32_table =
     [0x00000000, 0x77073096, 0xee0e612c, 0x990951ba, 0x076dc419, 0x706af48f, 0xe963a535, 0x9e6495a3,
      0x0edb8832, 0x79dcb8a4, 0xe0d5e91e, 0x97d2d988, 0x09b64c2b, 0x7eb17cbd, 0xe7b82d07, 0x90bf1d91,
      0x1db71064, 0x6ab020f2, 0xf3b97148, 0x84be41de, 0x1adad47d, 0x6ddde4eb, 0xf4d4b551, 0x83d385c7,
      0x136c9856, 0x646ba8c0, 0xfd62f97a, 0x8a65c9ec, 0x14015c4f, 0x63066cd9, 0xfa0f3d63, 0x8d080df5,
      0x3b6e20c8, 0x4c69105e, 0xd56041e4, 0xa2677172, 0x3c03e4d1, 0x4b04d447, 0xd20d85fd, 0xa50ab56b,
      0x35b5a8fa, 0x42b2986c, 0xdbbbc9d6, 0xacbcf940, 0x32d86ce3, 0x45df5c75, 0xdcd60dcf, 0xabd13d59,
      0x26d930ac, 0x51de003a, 0xc8d75180, 0xbfd06116, 0x21b4f4b5, 0x56b3c423, 0xcfba9599, 0xb8bda50f,
      0x2802b89e, 0x5f058808, 0xc60cd9b2, 0xb10be924, 0x2f6f7c87, 0x58684c11, 0xc1611dab, 0xb6662d3d,
      0x76dc4190, 0x01db7106, 0x98d220bc, 0xefd5102a, 0x71b18589, 0x06b6b51f, 0x9fbfe4a5, 0xe8b8d433,
      0x7807c9a2, 0x0f00f934, 0x9609a88e, 0xe10e9818, 0x7f6a0dbb, 0x086d3d2d, 0x91646c97, 0xe6635c01,
      0x6b6b51f4, 0x1c6c6162, 0x856530d8, 0xf262004e, 0x6c0695ed, 0x1b01a57b, 0x8208f4c1, 0xf50fc457,
      0x65b0d9c6, 0x12b7e950, 0x8bbeb8ea, 0xfcb9887c, 0x62dd1ddf, 0x15da2d49, 0x8cd37cf3, 0xfbd44c65,
      0x4db26158, 0x3ab551ce, 0xa3bc0074, 0xd4bb30e2, 0x4adfa541, 0x3dd895d7, 0xa4d1c46d, 0xd3d6f4fb,
      0x4369e96a, 0x346ed9fc, 0xad678846, 0xda60b8d0, 0x44042d73, 0x33031de5, 0xaa0a4c5f, 0xdd0d7cc9,
      0x5005713c, 0x270241aa, 0xbe0b1010, 0xc90c2086, 0x5768b525, 0x206f85b3, 0xb966d409, 0xce61e49f,
      0x5edef90e, 0x29d9c998, 0xb0d09822, 0xc7d7a8b4, 0x59b33d17, 0x2eb40d81, 0xb7bd5c3b, 0xc0ba6cad,
      0xedb88320, 0x9abfb3b6, 0x03b6e20c, 0x74b1d29a, 0xead54739, 0x9dd277af, 0x04db2615, 0x73dc1683,
      0xe3630b12, 0x94643b84, 0x0d6d6a3e, 0x7a6a5aa8, 0xe40ecf0b, 0x9309ff9d, 0x0a00ae27, 0x7d079eb1,
      0xf00f9344, 0x8708a3d2, 0x1e01f268, 0x6906c2fe, 0xf762575d, 0x806567cb, 0x196c3671, 0x6e6b06e7,
      0xfed41b76, 0x89d32be0, 0x10da7a5a, 0x67dd4acc, 0xf9b9df6f, 0x8ebeeff9, 0x17b7be43, 0x60b08ed5,
      0xd6d6a3e8, 0xa1d1937e, 0x38d8c2c4, 0x4fdff252, 0xd1bb67f1, 0xa6bc5767, 0x3fb506dd, 0x48b2364b,
      0xd80d2bda, 0xaf0a1b4c, 0x36034af6, 0x41047a60, 0xdf60efc3, 0xa867df55, 0x316e8eef, 0x4669be79,
      0xcb61b38c, 0xbc66831a, 0x256fd2a0, 0x5268e236, 0xcc0c7795, 0xbb0b4703, 0x220216b9, 0x5505262f,
      0xc5ba3bbe, 0xb2bd0b28, 0x2bb45a92, 0x5cb36a04, 0xc2d7ffa7, 0xb5d0cf31, 0x2cd99e8b, 0x5bdeae1d,
      0x9b64c2b0, 0xec63f226, 0x756aa39c, 0x026d930a, 0x9c0906a9, 0xeb0e363f, 0x72076785, 0x05005713,
      0x95bf4a82, 0xe2b87a14, 0x7bb12bae, 0x0cb61b38, 0x92d28e9b, 0xe5d5be0d, 0x7cdcefb7, 0x0bdbdf21,
      0x86d3d2d4, 0xf1d4e242, 0x68ddb3f8, 0x1fda836e, 0x81be16cd, 0xf6b9265b, 0x6fb077e1, 0x18b74777,
      0x88085ae6, 0xff0f6a70, 0x66063bca, 0x11010b5c, 0x8f659eff, 0xf862ae69, 0x616bffd3, 0x166ccf45,
      0xa00ae278, 0xd70dd2ee, 0x4e048354, 0x3903b3c2, 0xa7672661, 0xd06016f7, 0x4969474d, 0x3e6e77db,
      0xaed16a4a, 0xd9d65adc, 0x40df0b66, 0x37d83bf0, 0xa9bcae53, 0xdebb9ec5, 0x47b2cf7f, 0x30b5ffe9,
      0xbdbdf21c, 0xcabac28a, 0x53b39330, 0x24b4a3a6, 0xbad03605, 0xcdd70693, 0x54de5729, 0x23d967bf,
      0xb3667a2e, 0xc4614ab8, 0x5d681b02, 0x2a6f2b94, 0xb40bbe37, 0xc30c8ea1, 0x5a05df1b, 0x2d02ef8d]"

fun crc32_loop :: "bytes \<Rightarrow> u32 \<Rightarrow> u32" where
  "crc32_loop [] crc = crc"
| "crc32_loop (b # bs) crc = crc32_loop bs (crc32_table ! unat ((crc XOR ucast b) AND 0xFF) XOR drop_bit 8 crc)"

definition GetCrc32 :: "bytes \<Rightarrow> nat \<Rightarrow> u32 res" where
  "GetCrc32 data n = rbind (rd data 0 n) (\<lambda>d. Inr (crc32_loop d 0xFFFFFFFF XOR NOT 0))"

fun GetCrc32_from :: "u32 \<Rightarrow> bytes \<Rightarrow> u32" where
  "GetCrc32_from crc [] = crc"
| "GetCrc32_from crc (b # bs) = GetCrc32_from (crc32_table ! unat ((ucast crc :: u8) XOR b) XOR drop_bit 8 crc) bs"

section \<open>The bitwise definition\<close>

definition crc_bit :: "u32 \<Rightarrow> u32" where
  \<comment> \<open>one division step by the reflected generator polynomial\<close>
  "crc_bit c = (if bit c 0 then drop_bit 1 c XOR 0xEDB88320 else drop_bit 1 c)"

definition crc_byte :: "u8 \<Rightarrow> u32 \<Rightarrow> u32" where
  "crc_byte b c = (crc_bit ^^ 8) (c XOR ucast b)"

definition crc32 :: "bytes \<Rightarrow> u32" where
  "crc32 d = NOT (fold crc_byte d (NOT 0))"

lemma crc_bit_xor: "crc_bit (a XOR b) = crc_bit a XOR crc_bit b"
  by (rule bit_word_eqI) (auto simp: crc_bit_def bit_simps)

lemma crc_bits_xor: "(crc_bit ^^ n) (a XOR b) = (crc_bit ^^ n) a XOR (crc_bit ^^ n) b"
  by (induction n) (simp_all add: crc_bit_xor)

lemma crc_bits_zero: "\<forall>i < n. \<not> bit c i \<Longrightarrow> (crc_bit ^^ n) c = drop_bit n c"
proof (induction n)
  case (Suc n)
  then have "(crc_bit ^^ Suc n) c = crc_bit (drop_bit n c)" by simp
  also have "\<dots> = drop_bit 1 (drop_bit n c)" using Suc.prems by (simp add: crc_bit_def bit_drop_bit_eq)
  finally show ?case by (simp only: drop_bit_drop_bit) simp
qed simp


text \<open>The table is checked row against row: halving an even index undoes one step, an odd entry differs from
  its even neighbour by the entry of 1.\<close>

fun evens :: "'a list \<Rightarrow> 'a list" where
  "evens (x # y # r) = x # evens r"
| "evens xs = xs"

fun odds :: "'a list \<Rightarrow> 'a list" where
  "odds (x # y # r) = y # odds r"
| "odds xs = []"

lemma nth_evens: "2 * i < length xs \<Longrightarrow> evens xs ! i = xs ! (2 * i)"
  by (induction xs arbitrary: i rule: evens.induct) (auto simp: nth_Cons split: nat.split)

lemma nth_odds: "2 * i + 1 < length xs \<Longrightarrow> odds xs ! i = xs ! (2 * i + 1)"
  by (induction xs arbitrary: i rule: odds.induct) (auto simp: nth_Cons split: nat.split)

lemma length_evens: "length (evens xs) = (length xs + 1) div 2" "length (odds xs) = length xs div 2"
  by (induction xs rule: evens.induct) auto

lemma table_rows:
  "map crc_bit (evens crc32_table) = take 128 crc32_table"
  "odds crc32_table = map (\<lambda>x. x XOR 0x77073096) (evens crc32_table)"
  by (simp_all add: crc32_table_def crc_bit_def)

lemma crc_bit_inj: "crc_bit a = crc_bit b \<Longrightarrow> a = b"
proof -
  assume e: "crc_bit a = crc_bit b"
  have p: "bit (0xEDB88320 :: u32) 31" by simp
  have top: "bit (crc_bit x) 31 \<longleftrightarrow> bit x 0" for x
    using p bit_imp_le_length [of x 32] by (auto simp: crc_bit_def bit_simps)
  have cancel: "x XOR p = y XOR p \<Longrightarrow> x = y" for x y p :: u32 by (metis xor.assoc xor_self_eq xor.right_neutral)
  have z: "bit a 0 \<longleftrightarrow> bit b 0" using top [of a] top [of b] e by simp
  then have "drop_bit 1 a = drop_bit 1 b"
    using e cancel by (auto simp: crc_bit_def split: if_splits)
  then have d: "bit a (Suc n) \<longleftrightarrow> bit b (Suc n)" for n by (metis bit_drop_bit_eq plus_1_eq_Suc comp_apply)
  show "a = b"
  proof (rule bit_word_eqI)
    fix n show "bit a n \<longleftrightarrow> bit b n" using z d by (cases n) auto
  qed
qed

definition crc8 :: "u32 \<Rightarrow> u32" where
  "crc8 c = (crc_bit ^^ 8) c"

lemma crc8_xor: "crc8 (a XOR b) = crc8 a XOR crc8 b"
  unfolding crc8_def by (rule crc_bits_xor)

lemma crc8_one: "crc8 1 = 0x77073096"
proof -
  have "crc8 c = crc_bit (crc_bit (crc_bit (crc_bit (crc_bit (crc_bit (crc_bit (crc_bit c)))))))" for c
    by (simp add: crc8_def eval_nat_numeral)
  then show ?thesis by (simp add: crc_bit_def)
qed

lemma crc8_double:
  assumes "j < 128"
  shows "crc_bit (crc8 (of_nat (2 * j))) = crc8 (of_nat j)"
proof -
  have "unat (of_nat (2 * j) :: u32) = 2 * j" "unat (of_nat j :: u32) = j" using assms by (simp_all only: unat_of_nat) simp_all
  then have "drop_bit 1 (of_nat (2 * j) :: u32) = of_nat j"
    by (simp only: word_unat_eq_iff unat_drop_bit_eq) (simp add: drop_bit_eq_div)
  moreover have "\<not> bit (of_nat (2 * j) :: u32) 0" by (simp add: bit_0)
  ultimately have "crc_bit (of_nat (2 * j)) = of_nat j" by (simp only: crc_bit_def if_False)
  then show ?thesis unfolding crc8_def funpow_swap1 by (simp only:)
qed

lemma table_steps:
  assumes "j < 128"
  shows "crc_bit (crc32_table ! (2 * j)) = crc32_table ! j" "crc32_table ! (2 * j + 1) = crc32_table ! (2 * j) XOR 0x77073096"
proof -
  have len: "length crc32_table = 256" by (simp add: crc32_table_def)
  have l: "j < length (evens crc32_table)" "2 * j + 1 < length crc32_table" "2 * j < length crc32_table"
    using assms by (simp_all add: length_evens len)
  have "map crc_bit (evens crc32_table) ! j = take 128 crc32_table ! j" by (simp only: table_rows(1))
  then show "crc_bit (crc32_table ! (2 * j)) = crc32_table ! j"
    using assms l by (simp only: nth_map nth_evens nth_take)
  have "odds crc32_table ! j = map (\<lambda>x. x XOR 0x77073096) (evens crc32_table) ! j" by (simp only: table_rows(2))
  then show "crc32_table ! (2 * j + 1) = crc32_table ! (2 * j) XOR 0x77073096"
    using l by (simp only: nth_map nth_evens nth_odds)
qed

lemma table_zero: "crc32_table ! 0 = crc8 0"
proof -
  have "crc8 0 = 0" unfolding crc8_def by (subst crc_bits_zero) simp_all
  then show ?thesis by (simp add: crc32_table_def)
qed

lemma table_even: "j < 128 \<Longrightarrow> crc32_table ! j = crc8 (of_nat j) \<Longrightarrow> crc32_table ! (2 * j) = crc8 (of_nat (2 * j))"
  by (rule crc_bit_inj) (simp only: table_steps(1) [of j] crc8_double [of j])

lemma table_odd:
  assumes "j < 128" and "crc32_table ! (2 * j) = crc8 (of_nat (2 * j))"
  shows "crc32_table ! (2 * j + 1) = crc8 (of_nat (2 * j + 1))"
proof -
  have "(of_nat (2 * j) :: u32) XOR 1 = of_nat (2 * j) + 1" by (simp add: xor_one_eq)
  then have "(of_nat (2 * j + 1) :: u32) = of_nat (2 * j) XOR 1" by (simp add: add.commute)
  then show ?thesis using table_steps(2) [OF assms(1)] assms(2) by (simp only: crc8_xor crc8_one)
qed

lemma table_entry: "i < 256 \<Longrightarrow> crc32_table ! i = crc8 (of_nat i)"
proof (induction i rule: nat_bit_induct)
  case zero
  have "of_nat 0 = (0 :: u32)" by simp
  then show ?case using table_zero by (simp only:)
next
  case (even n)
  have n: "n < 128" "n < 256" using even.prems by linarith+
  from table_even [OF n(1) even.IH [OF n(2)]] show ?case .
next
  case (odd n)
  have n: "n < 128" "n < 256" using odd.prems by linarith+
  from table_odd [OF n(1) table_even [OF n(1) odd.IH [OF n(2)]]] show ?case unfolding Suc_eq_plus1 .
qed

lemma crc_byte_table: "crc32_table ! unat ((crc XOR ucast b) AND 0xFF) XOR drop_bit 8 crc = crc_byte b crc"
proof -
  let ?x = "crc XOR ucast b"
  have m: "?x AND 0xFF = take_bit 8 ?x" by (simp add: take_bit_eq_mask mask_eq_exp_minus_1)
  have split: "?x = take_bit 8 ?x XOR push_bit 8 (drop_bit 8 ?x)" proof (rule bit_word_eqI)
    fix n show "bit ?x n \<longleftrightarrow> bit (take_bit 8 ?x XOR push_bit 8 (drop_bit 8 ?x)) n"
      using bit_imp_le_length [of ?x n] by (cases "n < 8") (auto simp: bit_simps not_less)
  qed
  have inv: "of_nat (unat y) = y" for y :: u32 by simp
  have lt: "unat (take_bit 8 y) < 256" for y :: u32
    using take_bit_nat_less_exp [of 8 "unat y"] by (simp add: unsigned_take_bit_eq)
  have "drop_bit 8 (push_bit 8 (drop_bit 8 ?x)) = drop_bit 8 crc" by (rule bit_word_eqI) (auto simp: bit_simps dest: bit_imp_le_length)
  moreover have "(crc_bit ^^ 8) (push_bit 8 (drop_bit 8 ?x)) = drop_bit 8 (push_bit 8 (drop_bit 8 ?x))"
    by (rule crc_bits_zero) (simp add: bit_simps)
  ultimately have "(crc_bit ^^ 8) ?x = (crc_bit ^^ 8) (take_bit 8 ?x) XOR drop_bit 8 crc"
    by (subst split) (simp only: crc_bits_xor)
  then show ?thesis 
    using table_entry [OF lt, of ?x] by (simp only: crc_byte_def crc8_def m inv)
qed

text \<open>
  The table driven checksum is CRC-32: for every input it equals the bit by bit division by the reflected
  polynomial \<open>0xEDB88320\<close> with the usual initial and final complement, and it reads exactly the bytes asked for.
\<close>

theorem GetCrc32_correct:
  "GetCrc32 data n = (if n \<le> length data then Inr (crc32 (take n data)) else Inl OutOfBounds)"
proof -
  have loop: "crc32_loop d c = fold crc_byte d c" for d c
    by (induction d arbitrary: c) (simp_all only: crc32_loop.simps crc_byte_table fold_simps id_apply fold.simps comp_apply)
  have n: "x XOR NOT 0 = NOT x" for x :: u32 by (rule bit_word_eqI) (auto simp: bit_simps)
  have "(NOT 0 :: u32) = 0xFFFFFFFF" by simp
  then show ?thesis unfolding GetCrc32_def rd_def loop n crc32_def by (simp only: if_distrib rbind_simps drop_0 add_0 split: if_splits) simp
qed

end
