(* ===== verification/Stun.thy ===== *)
theory Stun
  imports Byte_Stream Byte_Crypto
begin

text \<open>
  \<open>net/stun/stun.{hpp,cpp}\<close> and the address helpers of \<open>utils/ipaddress.hpp\<close>: STUN messages as the
  ICE server receives and answers them. A \<open>std::string\<close> is the list of its bytes. \<open>data_\<close> is the
  whole buffer; \<open>message_integrity_\<close>, a pointer into it, is an offset; \<open>transaction_id_\<close> is the list of
  the bytes it points to (nothing writes to them). HMAC-SHA1 is computed by OpenSSL and is the
  parameter \<open>hmac\<close> (key, message) of the operations that call it. \<open>Dump\<close> prints and is left out.
\<close>

section \<open>Addresses\<close>

definition AF_INET :: u16 where "AF_INET = 2"
definition AF_INET6 :: u16 where "AF_INET6 = 10"

record sockaddr_in =
  sin_family :: u16
  sin_port :: u16
  s_addr :: u32

definition ntohs :: "u16 \<Rightarrow> u16" where
  "ntohs w = of_bytes_le (be 2 w)"

definition ntohl :: "u32 \<Rightarrow> u32" where
  "ntohl w = of_bytes_le (be 4 w)"

text \<open>\<open>inet_ntop\<close> and \<open>inet_pton\<close> of the C library for \<open>AF_INET\<close>: the dotted decimal form of the
  four bytes of an address in memory order, and the strict reader of that form (no leading zero, four
  numbers up to 255, nothing else).\<close>

fun dec_str :: "nat \<Rightarrow> bytes" where
  "dec_str n = (if n < 10 then [] else dec_str (n div 10)) @ [48 + of_nat (n mod 10)]"

declare dec_str.simps [simp del]

definition inet_ntop :: "u32 \<Rightarrow> bytes" where
  "inet_ntop a = dec_str (unat (byte_of 0 a)) @ 46 # dec_str (unat (byte_of 1 a)) @ 46 #
     dec_str (unat (byte_of 2 a)) @ 46 # dec_str (unat (byte_of 3 a))"

definition is_digit :: "u8 \<Rightarrow> bool" where
  "is_digit c \<longleftrightarrow> 48 \<le> c \<and> c \<le> 57"

fun pton_loop :: "bytes \<Rightarrow> bytes \<Rightarrow> nat option \<Rightarrow> bytes option" where
  "pton_loop [] os None = None"
| "pton_loop [] os (Some v) = (if length os = 3 then Some (os @ [of_nat v]) else None)"
| "pton_loop (c # cs) os None =
     (if is_digit c \<and> length os < 4 then pton_loop cs os (Some (unat (c - 48))) else None)"
| "pton_loop (c # cs) os (Some v) =
     (if is_digit c
      then if v = 0 \<or> 255 < 10 * v + unat (c - 48) then None else pton_loop cs os (Some (10 * v + unat (c - 48)))
      else if c = 46 \<and> length os \<noteq> 3 then pton_loop cs (os @ [of_nat v]) None
      else None)"

definition inet_pton :: "bytes \<Rightarrow> u32 option" where
  "inet_pton s = map_option of_bytes_le (pton_loop (takeWhile (\<lambda>c. c \<noteq> 0) s) [] None)"

definition IpStringToUint32 :: "bytes \<Rightarrow> u32" where
  "IpStringToUint32 ipv4_str = (case inet_pton ipv4_str of None \<Rightarrow> 0 | Some a \<Rightarrow> ntohl a)"

text \<open>Both callers pass a 16 byte \<open>struct sockaddr\<close>: the IPv6 branch reads 16 bytes at offset 8 and so
  leaves it. A family that is neither yields the empty string and leaves \<open>port\<close> alone.\<close>

definition GetIpStr :: "sockaddr_in \<Rightarrow> u16 \<Rightarrow> (bytes \<times> u16) res" where
  "GetIpStr sa port =
     (if sin_family sa = AF_INET then Inr (inet_ntop (s_addr sa), sin_port sa)
      else if sin_family sa = AF_INET6 then Inl OutOfBounds
      else Inr ([], port))"

definition GetIpv4Sockaddr :: "bytes \<Rightarrow> u16 \<Rightarrow> sockaddr_in \<Rightarrow> sockaddr_in" where
  \<comment> \<open>the last argument is what the struct held before\<close>
  "GetIpv4Sockaddr ip port addr =
     addr\<lparr>s_addr := (case inet_pton ip of None \<Rightarrow> s_addr addr | Some a \<Rightarrow> a),
          sin_port := port, sin_family := AF_INET\<rparr>"

section \<open>The packet\<close>

definition STUN_HEADER_SIZE :: nat where "STUN_HEADER_SIZE = 20"

definition STUN_REQUEST :: u16 where "STUN_REQUEST = 0"
definition STUN_SUCCESS_RESPONSE :: u16 where "STUN_SUCCESS_RESPONSE = 2"
definition STUN_ERROR_RESPONSE :: u16 where "STUN_ERROR_RESPONSE = 3"
definition BINDING :: u16 where "BINDING = 1"

definition STUN_USERNAME :: u16 where "STUN_USERNAME = 0x0006"
definition STUN_MESSAGE_INTEGRITY :: u16 where "STUN_MESSAGE_INTEGRITY = 0x0008"
definition STUN_ERROR_CODE :: u16 where "STUN_ERROR_CODE = 0x0009"
definition STUN_XOR_MAPPED_ADDRESS :: u16 where "STUN_XOR_MAPPED_ADDRESS = 0x0020"
definition STUN_PRIORITY :: u16 where "STUN_PRIORITY = 0x0024"
definition STUN_USE_CANDIDATE :: u16 where "STUN_USE_CANDIDATE = 0x0025"
definition STUN_FINGERPRINT :: u16 where "STUN_FINGERPRINT = 0x8028"
definition STUN_ICE_CONTROLLED :: u16 where "STUN_ICE_CONTROLLED = 0x8029"
definition STUN_ICE_CONTROLLING :: u16 where "STUN_ICE_CONTROLLING = 0x802A"

lemmas stun_types = STUN_USERNAME_def STUN_MESSAGE_INTEGRITY_def STUN_ERROR_CODE_def
  STUN_XOR_MAPPED_ADDRESS_def STUN_PRIORITY_def STUN_USE_CANDIDATE_def STUN_FINGERPRINT_def
  STUN_ICE_CONTROLLED_def STUN_ICE_CONTROLLING_def

datatype STUN_AUTHENTICATION = AUTH_OK | UNAUTHORIZED | BAD_REQUEST

definition magic_cookie :: bytes where
  "magic_cookie = [0x21, 0x12, 0xA4, 0x42]"

record stun_packet =
  sp_data :: bytes
  sp_data_len :: nat
  stun_class :: u16
  stun_method :: u16
  transaction_id :: "bytes option"
  message_integrity :: "nat option"
  username :: bytes
  password :: bytes
  fingerprint :: u32
  priority :: u32
  ice_controlling :: u64
  ice_controlled :: u64
  error_code :: u16
  xor_address :: "sockaddr_in option"
  has_use_candidate :: bool
  add_msg_integrity :: bool
  has_fingerprint :: bool

definition StunPacket_on :: "bytes \<Rightarrow> nat \<Rightarrow> stun_packet" where
  \<comment> \<open>\<open>stun_class_\<close> and \<open>stun_method_\<close> have no initial value; every caller sets them\<close>
  "StunPacket_on data len =
     \<lparr>sp_data = data, sp_data_len = len, stun_class = 0, stun_method = 0, transaction_id = None,
      message_integrity = None, username = [], password = [], fingerprint = 0, priority = 0,
      ice_controlling = 0, ice_controlled = 0, error_code = 0, xor_address = None,
      has_use_candidate = False, add_msg_integrity = False, has_fingerprint = False\<rparr>"

definition StunPacket_new :: stun_packet where
  "StunPacket_new = StunPacket_on (replicate 8192 0) 0"

definition IsStun :: "bytes \<Rightarrow> nat \<Rightarrow> bool res" where
  "IsStun data len =
     (if \<not> STUN_HEADER_SIZE \<le> len then Inr False else
      rbind (rd8 data 0) (\<lambda>b0. if \<not> b0 < 3 then Inr False else
      rbind (rd8 data 4) (\<lambda>b4. if b4 \<noteq> magic_cookie ! 0 then Inr False else
      rbind (rd8 data 5) (\<lambda>b5. if b5 \<noteq> magic_cookie ! 1 then Inr False else
      rbind (rd8 data 6) (\<lambda>b6. if b6 \<noteq> magic_cookie ! 2 then Inr False else
      rbind (rd8 data 7) (\<lambda>b7. Inr (b7 = magic_cookie ! 3)))))))"

definition IsBindingRequest :: "bytes \<Rightarrow> nat \<Rightarrow> bool res" where
  "IsBindingRequest buf buf_size = rbind (IsStun buf buf_size) (\<lambda>s.
     if \<not> s then Inr False else
     if \<not> 1 < buf_size then Inr False else
     rbind (rd8 buf 0) (\<lambda>b0. rbind (rd8 buf 1) (\<lambda>b1. Inr (b0 = 0x00 \<and> b1 = 0x01))))"

definition IsBindingResponse :: "bytes \<Rightarrow> nat \<Rightarrow> bool res" where
  "IsBindingResponse buf buf_size = rbind (IsStun buf buf_size) (\<lambda>s.
     if \<not> s then Inr False else
     if \<not> 1 < buf_size then Inr False else
     rbind (rd8 buf 0) (\<lambda>b0. rbind (rd8 buf 1) (\<lambda>b1. Inr (b0 = 0x01 \<and> b1 = 0x01))))"

section \<open>Parsing\<close>

text \<open>The locals of the attribute loop.\<close>

record stun_scan =
  scan_pkt :: stun_packet
  scan_fp :: bool
  scan_mi :: bool
  scan_fp_pos :: nat

definition stun_xor_address :: "bytes \<Rightarrow> sockaddr_in res" where
  \<comment> \<open>the branch for \<open>STUN_XOR_MAPPED_ADDRESS\<close>, on the copied 8 bytes\<close>
  "stun_xor_address ip0 =
     rbind (Read2Bytes ip0 0) (\<lambda>net_family.
     let ip1 = ip0[2 := ip0 ! 2 XOR magic_cookie ! 0, 3 := ip0 ! 3 XOR magic_cookie ! 1] in
     rbind (Read2Bytes ip1 2) (\<lambda>port.
     let ip2 = ip1[4 := ip1 ! 4 XOR magic_cookie ! 0, 5 := ip1 ! 5 XOR magic_cookie ! 1,
                   6 := ip1 ! 6 XOR magic_cookie ! 2, 7 := ip1 ! 7 XOR magic_cookie ! 3] in
     rbind (Read4Bytes ip2 4) (\<lambda>addr.
     Inr \<lparr>sin_family = (if net_family = 1 then AF_INET else AF_INET6),
          sin_port = ntohs port, s_addr = ntohl addr\<rparr>)))"

definition stun_attr :: "bytes \<Rightarrow> u16 \<Rightarrow> u16 \<Rightarrow> nat \<Rightarrow> stun_scan \<Rightarrow> stun_scan res" where
  "stun_attr data attr_type attr_len attr_data s =
     (let ret_packet = scan_pkt s; keep = (\<lambda>r. s\<lparr>scan_pkt := r\<rparr>) in
      if attr_type = STUN_USERNAME then
        rbind (rd data attr_data (unat attr_len)) (\<lambda>v. Inr (keep (ret_packet\<lparr>username := v\<rparr>)))
      else if attr_type = STUN_PRIORITY then
        if attr_len \<noteq> 4 then Inl Throw else
        rbind (Read4Bytes data attr_data) (\<lambda>v. Inr (keep (ret_packet\<lparr>priority := v\<rparr>)))
      else if attr_type = STUN_ICE_CONTROLLING then
        if attr_len \<noteq> 8 then Inl Throw else
        rbind (Read8Bytes data attr_data) (\<lambda>v. Inr (keep (ret_packet\<lparr>ice_controlling := v\<rparr>)))
      else if attr_type = STUN_ICE_CONTROLLED then
        if attr_len \<noteq> 8 then Inl Throw else
        rbind (Read8Bytes data attr_data) (\<lambda>v. Inr (keep (ret_packet\<lparr>ice_controlled := v\<rparr>)))
      else if attr_type = STUN_USE_CANDIDATE then
        if attr_len \<noteq> 0 then Inl Throw else Inr (keep (ret_packet\<lparr>has_use_candidate := True\<rparr>))
      else if attr_type = STUN_MESSAGE_INTEGRITY then
        if attr_len \<noteq> 20 then Inl Throw else
        Inr (s\<lparr>scan_mi := True, scan_pkt := ret_packet\<lparr>message_integrity := Some attr_data\<rparr>\<rparr>)
      else if attr_type = STUN_FINGERPRINT then
        if attr_len \<noteq> 4 then Inl Throw else
        rbind (Read4Bytes data attr_data) (\<lambda>v.
        Inr (s\<lparr>scan_fp := True, scan_pkt := ret_packet\<lparr>fingerprint := v\<rparr>, scan_fp_pos := attr_data - 4\<rparr>))
      else if attr_type = STUN_ERROR_CODE then
        if attr_len \<noteq> 4 then Inl Throw else
        rbind (rd8 data (attr_data + 2)) (\<lambda>error_class.
        rbind (rd8 data (attr_data + 3)) (\<lambda>error_number.
        Inr (keep (ret_packet\<lparr>error_code := ucast error_class * 100 + ucast error_number\<rparr>))))
      else if attr_type = STUN_XOR_MAPPED_ADDRESS then
        if attr_len \<noteq> 8 then Inl Throw else
        rbind (rd data attr_data 8) (\<lambda>ip_data. rbind (stun_xor_address ip_data) (\<lambda>a.
        Inr (keep (ret_packet\<lparr>xor_address := Some a\<rparr>))))
      else Inr s)"

function stun_attrs :: "bytes \<Rightarrow> nat \<Rightarrow> nat \<Rightarrow> stun_scan \<Rightarrow> (nat \<times> stun_scan) res" where
  "stun_attrs data len p s =
     (if p + 4 < len then
        rbind (Read2Bytes data p) (\<lambda>attr_type. rbind (Read2Bytes data (p + 2)) (\<lambda>attr_len.
        if len < p + 4 + unat attr_len then Inl Throw
        else if scan_fp s then Inl Throw
        else if scan_mi s \<and> attr_type \<noteq> STUN_FINGERPRINT then Inl Throw
        else rbind (stun_attr data attr_type attr_len (p + 4) s)
               (stun_attrs data len (p + 4 + unat (PadTo4Bytes16 attr_len)))))
      else Inr (p, s))"
  by pat_completeness auto
termination by (relation "measure (\<lambda>(data, len, p, s). len - p)") auto

declare stun_attrs.simps [simp del]

definition stun_Parse :: "bytes \<Rightarrow> nat \<Rightarrow> stun_packet res" where
  \<comment> \<open>on a fingerprint mismatch the text of the exception is formatted from \<open>ret_packet->fingerprint_\<close> after
    \<open>delete ret_packet\<close>\<close>
  "stun_Parse data len =
     rbind (IsStun data len) (\<lambda>is_stun. if \<not> is_stun then Inl Throw else
     rbind (Read2Bytes data 0) (\<lambda>msg_type.
     rbind (Read2Bytes data 2) (\<lambda>msg_len.
     if unat msg_len \<noteq> len - 20 \<or> msg_len AND 0x03 \<noteq> 0 then Inl Throw else
     rbind (rd8 data 0) (\<lambda>d0. rbind (rd8 data 1) (\<lambda>d1. rbind (rd data 8 12) (\<lambda>tid.
     let ret_packet = (StunPacket_on data len)
           \<lparr>stun_method := (msg_type AND 0x000f) OR drop_bit 1 (msg_type AND 0x00e0)
                            OR drop_bit 2 (msg_type AND 0x3E00),
            stun_class := push_bit 1 (ucast (d0 AND 0x01)) OR ucast (drop_bit 4 (d1 AND 0x10)),
            transaction_id := Some tid\<rparr> in
     rbind (stun_attrs data len 20 \<lparr>scan_pkt = ret_packet, scan_fp = False, scan_mi = False, scan_fp_pos = 0\<rparr>)
       (\<lambda>(p, s).
     if p \<noteq> len then Inl Throw
     else if scan_fp s then
       rbind (GetCrc32 data (scan_fp_pos s)) (\<lambda>crc.
       if fingerprint (scan_pkt s) \<noteq> crc XOR 0x5354554e then Inl UseAfterFree
       else Inr ((scan_pkt s)\<lparr>has_fingerprint := True\<rparr>))
     else Inr (scan_pkt s))))))))"

section \<open>Writing\<close>

text \<open>The write position travels with the buffer; each helper is one \<open>if\<close> of \<open>Serialize\<close>.\<close>

type_synonym stun_out = "bytes \<times> nat"

definition put2 :: "u16 \<Rightarrow> stun_out \<Rightarrow> stun_out res" where
  "put2 w = (\<lambda>(b, p). rbind (Write2Bytes b p w) (\<lambda>b. Inr (b, p + 2)))"

definition put4 :: "u32 \<Rightarrow> stun_out \<Rightarrow> stun_out res" where
  "put4 w = (\<lambda>(b, p). rbind (Write4Bytes b p w) (\<lambda>b. Inr (b, p + 4)))"

definition put_bytes :: "bytes \<Rightarrow> nat \<Rightarrow> stun_out \<Rightarrow> stun_out res" where
  \<comment> \<open>\<open>memcpy(p, v, ...); p += skip\<close>\<close>
  "put_bytes v skip = (\<lambda>(b, p). rbind (wr b p v) (\<lambda>b. Inr (b, p + skip)))"

definition stun_data_len :: "stun_packet \<Rightarrow> bool \<Rightarrow> nat" where
  "stun_data_len k add_mi = STUN_HEADER_SIZE
     + (if username k \<noteq> [] then 4 + unat (PadTo4Bytes16 (of_nat (length (username k)))) else 0)
     + (if priority k \<noteq> 0 then 4 + 4 else 0)
     + (if has_use_candidate k then 4 else 0)
     + (if xor_address k \<noteq> None then 4 + 8 else 0)
     + (if add_mi then 4 + 20 else 0)
     + (4 + 4)"

definition stun_type_field :: "stun_packet \<Rightarrow> u16" where
  "stun_type_field k = push_bit 2 (stun_method k AND 0x0f80) OR push_bit 1 (stun_method k AND 0x0070)
     OR (stun_method k AND 0x000f) OR push_bit 7 (stun_class k AND 0x02) OR push_bit 4 (stun_class k AND 0x01)"

definition put_header :: "stun_packet \<Rightarrow> nat \<Rightarrow> stun_out \<Rightarrow> stun_out res" where
  "put_header k data_len o1 =
     rbind (put2 (stun_type_field k) o1) (\<lambda>o1. rbind (put2 (of_nat data_len - 20) o1) (\<lambda>o1.
     rbind (put_bytes magic_cookie 4 o1) (\<lambda>o1.
     case transaction_id k of None \<Rightarrow> Inl OutOfBounds
     | Some tid \<Rightarrow> rbind (rd tid 0 12) (\<lambda>tid. put_bytes tid 12 o1))))"

definition put_username :: "stun_packet \<Rightarrow> stun_out \<Rightarrow> stun_out res" where
  "put_username k o1 = (if username k = [] then Inr o1 else
     rbind (put2 STUN_USERNAME o1) (\<lambda>o1. rbind (put2 (of_nat (length (username k))) o1) (\<lambda>o1.
     put_bytes (username k) (unat (PadTo4Bytes16 (of_nat (length (username k))))) o1)))"

definition put_priority :: "stun_packet \<Rightarrow> stun_out \<Rightarrow> stun_out res" where
  "put_priority k o1 = (if priority k = 0 then Inr o1 else
     rbind (put2 STUN_PRIORITY o1) (\<lambda>o1. rbind (put2 4 o1) (\<lambda>o1. put4 (priority k) o1)))"

definition put_use_candidate :: "stun_packet \<Rightarrow> stun_out \<Rightarrow> stun_out res" where
  "put_use_candidate k o1 = (if \<not> has_use_candidate k then Inr o1 else
     rbind (put2 STUN_USE_CANDIDATE o1) (\<lambda>o1. put2 0 o1))"

definition put_xor_address :: "stun_packet \<Rightarrow> stun_out \<Rightarrow> stun_out res" where
  "put_xor_address k o1 = (case xor_address k of None \<Rightarrow> Inr o1 | Some sa \<Rightarrow>
     rbind (put2 STUN_XOR_MAPPED_ADDRESS o1) (\<lambda>o1. rbind (put2 8 o1) (\<lambda>o1.
     rbind (put2 0x01 o1) (\<lambda>o1.
     rbind (GetIpStr sa 0) (\<lambda>(ip_str, port).
     rbind (put2 (port XOR (push_bit 8 (ucast (magic_cookie ! 0)) OR ucast (magic_cookie ! 1))) o1) (\<lambda>o1.
     rbind (Read4Bytes magic_cookie 0) (\<lambda>cookie.
     put4 (IpStringToUint32 ip_str XOR cookie) o1)))))))"

definition put_integrity :: "(bytes \<Rightarrow> bytes \<Rightarrow> bytes res) \<Rightarrow> stun_packet \<Rightarrow> nat \<Rightarrow> stun_out \<Rightarrow> stun_out res" where
  "put_integrity hmac k data_len = (\<lambda>(b, p).
     rbind (Write2Bytes b 2 (of_nat (data_len - 20 - 8))) (\<lambda>b.
     rbind (rd b 0 p) (\<lambda>msg. rbind (hmac (password k) msg) (\<lambda>mac.
     rbind (put2 STUN_MESSAGE_INTEGRITY (b, p)) (\<lambda>o1. rbind (put2 20 o1) (\<lambda>o1.
     rbind (rd mac 0 20) (\<lambda>mac. rbind (put_bytes mac 20 o1) (\<lambda>(b, p).
     rbind (Write2Bytes b 2 (of_nat (data_len - STUN_HEADER_SIZE))) (\<lambda>b. Inr (b, p))))))))))"

definition put_fingerprint :: "stun_out \<Rightarrow> stun_out res" where
  "put_fingerprint = (\<lambda>(b, p). rbind (GetCrc32 b p) (\<lambda>crc.
     rbind (put2 STUN_FINGERPRINT (b, p)) (\<lambda>o1. rbind (put2 4 o1) (\<lambda>o1. put4 (crc XOR 0x5354554e) o1))))"

definition stun_Serialize :: "(bytes \<Rightarrow> bytes \<Rightarrow> bytes res) \<Rightarrow> stun_packet \<Rightarrow> (stun_packet \<times> nat) res" where
  "stun_Serialize hmac k =
     (let add_mi = stun_class k \<noteq> STUN_ERROR_RESPONSE \<and> password k \<noteq> [];
          data_len = stun_data_len k add_mi in
      rbind (put_header k data_len (sp_data k, 0)) (\<lambda>o1.
      rbind (put_username k o1) (\<lambda>o1. rbind (put_priority k o1) (\<lambda>o1.
      rbind (put_use_candidate k o1) (\<lambda>o1. rbind (put_xor_address k o1) (\<lambda>o1.
      rbind (if add_mi then put_integrity hmac k data_len o1 else Inr o1) (\<lambda>o2.
      rbind (put_fingerprint o2) (\<lambda>(b, p).
      if p \<noteq> data_len then Inl AssertFail
      else Inr (k\<lparr>add_msg_integrity := add_mi, sp_data := b, sp_data_len := data_len,
                  message_integrity := (if add_mi then Some (snd o1 + 4) else None)\<rparr>, data_len)))))))))"

section \<open>Authentication and response\<close>

definition CheckAuthentication ::
  "(bytes \<Rightarrow> bytes \<Rightarrow> bytes res) \<Rightarrow> bytes \<Rightarrow> bytes \<Rightarrow> stun_packet \<Rightarrow> (STUN_AUTHENTICATION \<times> stun_packet) res" where
  "CheckAuthentication hmac ufrag pwd k =
     (if take (length ufrag) (username k) \<noteq> ufrag then Inr (UNAUTHORIZED, k) else
      rbind (if has_fingerprint k then Write2Bytes (sp_data k) 2 (of_nat (sp_data_len k - 20 - 8))
             else Inr (sp_data k)) (\<lambda>d.
      case message_integrity k of None \<Rightarrow> Inl OutOfBounds
      | Some mi \<Rightarrow>
        rbind (rd d 0 (mi - 4)) (\<lambda>msg. rbind (hmac pwd msg) (\<lambda>mac.
        rbind (rd d mi 20) (\<lambda>sent. rbind (rd mac 0 20) (\<lambda>computed.
        if sent \<noteq> computed then Inr (UNAUTHORIZED, k\<lparr>sp_data := d\<rparr>) else
        rbind (if has_fingerprint k then Write2Bytes d 2 (of_nat (sp_data_len k - STUN_HEADER_SIZE))
               else Inr d) (\<lambda>d.
        Inr (AUTH_OK, k\<lparr>sp_data := d\<rparr>))))))))"

definition CreateSuccessResponse :: "stun_packet \<Rightarrow> stun_packet" where
  "CreateSuccessResponse k = StunPacket_new\<lparr>stun_class := STUN_SUCCESS_RESPONSE,
     stun_method := stun_method k, transaction_id := transaction_id k\<rparr>"

section \<open>Addresses round trip\<close>

lemma ntoh_ntoh [simp]: "ntohs (ntohs w) = w" "ntohl (ntohl v) = v"
proof -
  have b: "be 2 (of_bytes_le bs :: u16) = rev bs" if "length bs = 2" for bs
    using be_of_be [of "rev bs" 2, where 'a = 16] that by (simp add: of_be_def)
  have c: "be 4 (of_bytes_le bs :: u32) = rev bs" if "length bs = 4" for bs
    using be_of_be [of "rev bs" 4, where 'a = 32] that by (simp add: of_be_def)
  show "ntohs (ntohs w) = w" "ntohl (ntohl v) = v"
    using of_be_be_full(1) [of w] of_be_be_full(2) [of v]
    unfolding ntohs_def ntohl_def of_be_def by (simp_all add: b c)
qed

lemma digit_code:
  assumes "d < 10"
  shows "is_digit (48 + of_nat d)" "unat ((48 + of_nat d :: u8) - 48) = d" "(48 + of_nat d :: u8) \<noteq> 0"
proof -
  have u: "unat (48 + of_nat d :: u8) = 48 + d"
    using assms by (simp add: unat_word_ariths unat_of_nat)
  then show "is_digit (48 + of_nat d)" using assms by (simp add: is_digit_def word_le_nat_alt)
  show "unat ((48 + of_nat d :: u8) - 48) = d" using assms by (simp add: unat_of_nat)
  show "(48 + of_nat d :: u8) \<noteq> 0" using u by auto
qed

lemma pton_dec:
  "n < 256 \<Longrightarrow> length os < 4 \<Longrightarrow> pton_loop (dec_str n @ rest) os None = pton_loop rest os (Some n)"
proof (induction n arbitrary: rest rule: dec_str.induct)
  case (1 n)
  have d: "n mod 10 < 10" by simp
  show ?case
  proof (cases "n < 10")
    case True
    then show ?thesis using 1 by (subst dec_str.simps) (simp add: digit_code unat_of_nat)
  next
    case False
    then have "n div 10 \<noteq> 0" by simp
    moreover have "10 * (n div 10) + n mod 10 = n" by simp
    ultimately show ?thesis
      using False 1 digit_code [OF d] by (subst dec_str.simps) (simp del: mult_div_mod_eq)
  qed
qed

lemma dec_str_nonzero: "c \<in> set (dec_str n) \<Longrightarrow> c \<noteq> 0"
proof (induction n rule: dec_str.induct)
  case (1 n)
  then show ?case by (subst (asm) (2) dec_str.simps) (auto simp: digit_code split: if_splits)
qed

lemma inet_pton_ntop [simp]: "inet_pton (inet_ntop a) = Some a"
proof -
  have nz: "takeWhile (\<lambda>c. c \<noteq> 0) (inet_ntop a) = inet_ntop a"
    by (rule takeWhile_eq_all_conv [THEN iffD2]) (auto simp: inet_ntop_def dest: dec_str_nonzero)
  have l: "unat (byte_of k a) < 256" for k using unsigned_less [of "byte_of k a"] by simp
  have dot: "pton_loop (46 # cs) os (Some (unat (b :: u8))) = pton_loop cs (os @ [b]) None" if "length os \<noteq> 3" for cs os b
    using that by (simp add: is_digit_def)
  have "pton_loop (inet_ntop a) [] None = Some [byte_of 0 a, byte_of 1 a, byte_of 2 a, byte_of 3 a]"
    unfolding inet_ntop_def using pton_dec [OF l, of _ _ "[]"]
    by (simp add: pton_dec l dot del: pton_loop.simps(4)) 
  moreover have "of_bytes_le [byte_of 0 a, byte_of 1 a, byte_of 2 a, byte_of 3 a] = a"
    using of_bytes_le_bytes [of a 4] by (simp add: upt_rec numeral_eq_Suc take_bit_word_eq_self)
  ultimately show ?thesis by (simp add: inet_pton_def nz)
qed

section \<open>Parsing is safe\<close>

lemma xor_address_total: "length d = 8 \<Longrightarrow> \<exists>a. stun_xor_address d = Inr a"
  by (simp add: stun_xor_address_def Read_be Let_def)

lemma stun_attr_safe:
  assumes "q + unat attr_len \<le> length data"
  shows "throws_only (stun_attr data t attr_len q s)"
proof -
  have x: "throws_only (rbind (stun_xor_address (take 8 (drop q data))) f)"
    if "q + 8 \<le> length data" "\<And>a. throws_only (f a)" for f :: "sockaddr_in \<Rightarrow> stun_scan res"
    using xor_address_total [of "take 8 (drop q data)"] that by auto
  show ?thesis using assms unfolding stun_attr_def Let_def Read_be
    by (intro throws_only_if) (simp_all add: x)
qed

lemma stun_attrs_safe: "len \<le> length data \<Longrightarrow> throws_only (stun_attrs data len p s)"
proof (induction data len p s rule: stun_attrs.induct)
  case (1 data len p s)
  show ?case
    by (subst stun_attrs.simps, unfold Read_be)
      (use 1 in \<open>auto intro!: throws_only_if throws_only_rbind stun_attr_safe simp: Read_be\<close>)
qed

definition scan_ok :: "bytes \<Rightarrow> nat \<Rightarrow> nat \<Rightarrow> stun_scan \<Rightarrow> bool" where
  \<comment> \<open>between two attributes: what was seen so far ends at \<open>p\<close>, nothing but a fingerprint follows a
    message integrity attribute, nothing follows a fingerprint\<close>
  "scan_ok data len p s \<longleftrightarrow> 20 \<le> p \<and>
     sp_data (scan_pkt s) = data \<and> sp_data_len (scan_pkt s) = len \<and> \<not> has_fingerprint (scan_pkt s) \<and>
     transaction_id (scan_pkt s) = Some (take 12 (drop 8 data)) \<and>
     (scan_mi s \<longleftrightarrow> message_integrity (scan_pkt s) \<noteq> None) \<and>
     (\<forall>m. message_integrity (scan_pkt s) = Some m \<longrightarrow> 24 \<le> m \<and> p = m + 20 + (if scan_fp s then 8 else 0)) \<and>
     (scan_fp s \<longrightarrow> 28 \<le> p \<and> p = scan_fp_pos s + 8 \<and> fld2 (p - 8) data = STUN_FINGERPRINT \<and>
        fingerprint (scan_pkt s) = fld4 (p - 4) data)"

lemma pad_fixed: "unat (PadTo4Bytes16 4) = 4" "unat (PadTo4Bytes16 20) = 20"
  by (simp_all add: PadTo4Bytes16_def)

lemma stun_attr_ok:
  assumes "scan_ok data len p s" "\<not> scan_fp s" "scan_mi s \<Longrightarrow> t = STUN_FINGERPRINT"
    and "Read2Bytes data p = Inr t" "stun_attr data t l (p + 4) s = Inr s'"
  shows "scan_ok data len (p + 4 + unat (PadTo4Bytes16 l)) s'"
proof -
  consider "t = STUN_MESSAGE_INTEGRITY" | "t = STUN_FINGERPRINT" | "t \<noteq> STUN_MESSAGE_INTEGRITY" "t \<noteq> STUN_FINGERPRINT"
    by blast
  then show ?thesis
  proof cases
    case 1
    then show ?thesis using assms(1-3,5)
      by (auto simp: stun_attr_def scan_ok_def stun_types pad_fixed Let_def split: if_splits)
  next
    case 2
    then show ?thesis using assms
      by (auto simp: stun_attr_def scan_ok_def stun_types pad_fixed Let_def Read_be fld2_def fld4_def split: if_splits)
  next
    case 3
    then have nm: "\<not> scan_mi s" using assms(3) by blast
    show ?thesis using assms(1,2,5) nm 3
      unfolding stun_attr_def Let_def by (auto simp: scan_ok_def split: if_splits)
  qed
qed

lemma stun_attrs_ok:
  "scan_ok data len p s \<Longrightarrow> stun_attrs data len p s = Inr (p', s') \<Longrightarrow> scan_ok data len p' s'"
proof (induction data len p s rule: stun_attrs.induct)
  case (1 data len p s)
  from 1(3) show ?case
    by (subst (asm) stun_attrs.simps) (use 1(1,2) in \<open>fastforce split: if_splits intro: stun_attr_ok\<close>)
qed

lemma IsStun_total: "len \<le> length data \<Longrightarrow> \<exists>b. IsStun data len = Inr b \<and> (b \<longrightarrow> 20 \<le> len)"
  by (auto simp: IsStun_def STUN_HEADER_SIZE_def)

definition stun_scan0 :: "bytes \<Rightarrow> nat \<Rightarrow> stun_scan" where
  \<comment> \<open>the state before the first attribute\<close>
  "stun_scan0 data len = \<lparr>scan_pkt = (StunPacket_on data len)
      \<lparr>stun_method := (fld2 0 data AND 0x000f) OR drop_bit 1 (fld2 0 data AND 0x00e0)
                       OR drop_bit 2 (fld2 0 data AND 0x3E00),
       stun_class := push_bit 1 (ucast (data ! 0 AND 0x01)) OR ucast (drop_bit 4 (data ! 1 AND 0x10)),
       transaction_id := Some (take 12 (drop 8 data))\<rparr>,
     scan_fp = False, scan_mi = False, scan_fp_pos = 0\<rparr>"

lemma stun_Parse_step:
  assumes "len \<le> length data" "IsStun data len = Inr True"
  shows "stun_Parse data len =
    (if unat (fld2 2 data) \<noteq> len - 20 \<or> fld2 2 data AND 3 \<noteq> 0 then Inl Throw else
     rbind (stun_attrs data len 20 (stun_scan0 data len)) (\<lambda>(p, s).
     if p \<noteq> len then Inl Throw
     else if scan_fp s then
       (if scan_fp_pos s \<le> length data
        then if fingerprint (scan_pkt s) \<noteq> crc32 (take (scan_fp_pos s) data) XOR 0x5354554e then Inl UseAfterFree
             else Inr ((scan_pkt s)\<lparr>has_fingerprint := True\<rparr>)
        else Inl OutOfBounds)
     else Inr (scan_pkt s)))"
proof -
  have "20 \<le> len" using IsStun_total [OF assms(1)] assms(2) by auto
  then have "data \<noteq> []" using assms(1) by auto
  with \<open>20 \<le> len\<close> have r: "Read2Bytes data 0 = Inr (fld2 0 data)" "Read2Bytes data 2 = Inr (fld2 2 data)"
    "rd8 data 0 = Inr (data ! 0)" "rd8 data 1 = Inr (data ! 1)" "rd data 8 12 = Inr (take 12 (drop 8 data))"
    using assms(1) by (simp_all add: Read_be fld2_def)
  show ?thesis unfolding stun_Parse_def assms(2) rbind_simps r Let_def stun_scan0_def [symmetric] GetCrc32_correct
    by (auto intro!: arg_cong2 [where f = rbind])
qed

lemma scan_ok_0: "scan_ok data len 20 (stun_scan0 data len)"
  by (simp add: scan_ok_def stun_scan0_def StunPacket_on_def)

lemma and_3_dvd: "(w AND 3 = 0) \<longleftrightarrow> 4 dvd unat (w :: u16)"
proof -
  have 3: "w AND 3 = take_bit 2 w"
    by (simp only: take_bit_eq_mask) (simp add: mask_eq_exp_minus_1)
  have "unat (w AND 3) = unat w mod 4"
    unfolding 3 unsigned_take_bit_eq by (simp add: take_bit_eq_mod)
  then show ?thesis by (metis dvd_eq_mod_eq_0 unat_eq_zero)
qed

definition bad_fingerprint :: "bytes \<Rightarrow> nat \<Rightarrow> bool" where
  \<comment> \<open>the message ends with a fingerprint attribute whose value is not the checksum of what precedes it\<close>
  "bad_fingerprint data len \<longleftrightarrow> 28 \<le> len \<and> fld2 (len - 8) data = STUN_FINGERPRINT \<and>
     fld4 (len - 4) data \<noteq> crc32 (take (len - 8) data) XOR 0x5354554e"

lemma stun_Parse_Inl:
  assumes "len \<le> length data" and "stun_Parse data len = Inl e"
  shows "e = Throw \<or> e = UseAfterFree \<and> bad_fingerprint data len"
proof (cases "IsStun data len = Inr True")
  case True
  consider "e = Throw" | s where "stun_attrs data len 20 (stun_scan0 data len) = Inr (len, s)" "scan_fp s"
      "if scan_fp_pos s \<le> length data
        then fingerprint (scan_pkt s) \<noteq> crc32 (take (scan_fp_pos s) data) XOR 0x5354554e \<and> e = UseAfterFree
        else e = OutOfBounds"
    using assms(2) stun_attrs_safe [OF assms(1), of 20 "stun_scan0 data len"] unfolding stun_Parse_step [OF assms(1) True]
    by (cases "stun_attrs data len 20 (stun_scan0 data len)") (auto split: if_splits)
  then show ?thesis
  proof cases
    case 2
    then show ?thesis using stun_attrs_ok [OF scan_ok_0 2(1)] assms(1) by (auto simp: scan_ok_def bad_fingerprint_def)
  qed simp
next
  case False
  then have "IsStun data len = Inr False" using IsStun_total [OF assms(1)] by auto
  then show ?thesis using assms(2) by (simp add: stun_Parse_def)
qed

lemma stun_Parse_InrE:
  assumes "len \<le> length data" "stun_Parse data len = Inr k"
  obtains s where "IsStun data len = Inr True" "unat (fld2 2 data) = len - 20" "4 dvd len - 20"
    "stun_attrs data len 20 (stun_scan0 data len) = Inr (len, s)" "scan_ok data len len s"
    "k = (scan_pkt s)\<lparr>has_fingerprint := scan_fp s\<rparr>"
    "scan_fp s \<Longrightarrow> fingerprint k = crc32 (take (len - 8) data) XOR 0x5354554e"
proof -
  have i: "IsStun data len = Inr True"
    using assms IsStun_total [OF assms(1)] by (auto simp: stun_Parse_def split: if_splits)
  from assms(2) obtain s where s: "stun_attrs data len 20 (stun_scan0 data len) = Inr (len, s)"
    and l: "unat (fld2 2 data) = len - 20" "fld2 2 data AND 3 = 0"
    and k: "(if scan_fp s then
       (if scan_fp_pos s \<le> length data
        then if fingerprint (scan_pkt s) \<noteq> crc32 (take (scan_fp_pos s) data) XOR 0x5354554e then Inl UseAfterFree
             else Inr ((scan_pkt s)\<lparr>has_fingerprint := True\<rparr>)
        else Inl OutOfBounds)
     else Inr (scan_pkt s)) = Inr k"
    unfolding stun_Parse_step [OF assms(1) i] by (auto split: if_splits)
  have ok: "scan_ok data len len s" by (rule stun_attrs_ok [OF scan_ok_0 s])
  then have "k = (scan_pkt s)\<lparr>has_fingerprint := scan_fp s\<rparr>"
    "scan_fp s \<Longrightarrow> fingerprint k = crc32 (take (len - 8) data) XOR 0x5354554e"
    using k by (auto simp: scan_ok_def split: if_splits)
  then show thesis using that i l ok s by (metis and_3_dvd)
qed

text \<open>
  C16. Whatever bytes arrive, the STUN parser never reads outside the datagram. It fails by an exception, with one
  exception: when the message ends with a fingerprint attribute whose value is not the checksum of what precedes it,
  it reads a member of the packet it has just deleted, to format the text of the exception. What it accepts has the
  length the header announces, a multiple of four; a message integrity attribute covers everything before it and is
  followed by nothing but the fingerprint, and a fingerprint is the last attribute and is the checksum of
  all that precedes it.
\<close>

theorem stun_parse_safe:
  assumes "len \<le> length data"
  shows "(\<forall>e. stun_Parse data len = Inl e \<longrightarrow> e = Throw \<or> e = UseAfterFree \<and> bad_fingerprint data len) \<and>
    (\<forall>k. stun_Parse data len = Inr k \<longrightarrow>
       20 \<le> len \<and> 4 dvd len \<and> sp_data k = data \<and> sp_data_len k = len \<and>
       transaction_id k = Some (take 12 (drop 8 data)) \<and>
       (\<forall>mi. message_integrity k = Some mi \<longrightarrow> 24 \<le> mi \<and> mi + 20 + (if has_fingerprint k then 8 else 0) = len) \<and>
       (has_fingerprint k \<longrightarrow> fingerprint k = crc32 (take (len - 8) data) XOR 0x5354554e))"
proof (rule conjI; intro allI impI)
  show "e = Throw \<or> e = UseAfterFree \<and> bad_fingerprint data len" if "stun_Parse data len = Inl e" for e
    by (rule stun_Parse_Inl [OF assms that])
next
  fix k assume "stun_Parse data len = Inr k"
  then obtain s where s: "IsStun data len = Inr True" "4 dvd len - 20" "scan_ok data len len s"
    "k = (scan_pkt s)\<lparr>has_fingerprint := scan_fp s\<rparr>"
    "scan_fp s \<Longrightarrow> fingerprint k = crc32 (take (len - 8) data) XOR 0x5354554e"
    using stun_Parse_InrE [OF assms] by metis
  have l: "20 \<le> len" using IsStun_total [OF assms] s(1) by auto
  then have "4 dvd len" using dvd_add [OF s(2), of 20] by simp
  then show "20 \<le> len \<and> 4 dvd len \<and> sp_data k = data \<and> sp_data_len k = len \<and>
       transaction_id k = Some (take 12 (drop 8 data)) \<and>
       (\<forall>mi. message_integrity k = Some mi \<longrightarrow> 24 \<le> mi \<and> mi + 20 + (if has_fingerprint k then 8 else 0) = len) \<and>
       (has_fingerprint k \<longrightarrow> fingerprint k = crc32 (take (len - 8) data) XOR 0x5354554e)"
    using s l by (auto simp: scan_ok_def)
qed

theorem stun_parse_safe_witness:
  "(\<exists>k. stun_Parse ([0, 1, 0, 0] @ magic_cookie @ replicate 12 7) 20 = Inr k \<and> transaction_id k = Some (replicate 12 7)) \<and>
   stun_Parse ([0, 1, 0, 8] @ magic_cookie @ replicate 12 7 @ [0x80, 0x28, 0, 4, 1, 2, 3, 4]) 28 = Inl UseAfterFree \<and>
   bad_fingerprint ([0, 1, 0, 8] @ magic_cookie @ replicate 12 7 @ [0x80, 0x28, 0, 4, 1, 2, 3, 4]) 28"
proof -
  let ?d = "[0, 1, 0, 0] @ magic_cookie @ replicate 12 7" and ?b = "[0, 1, 0, 8] @ magic_cookie @ replicate 12 7 @ [0x80, 0x28, 0, 4, 1, 2, 3, 4]"
  have "case_sum (\<lambda>_. False) (\<lambda>_. True) (stun_Parse ?d 20)" by code_simp
  then obtain k where k: "stun_Parse ?d 20 = Inr k" by (auto split: sum.splits)
  have b: "stun_Parse ?b 28 = Inl UseAfterFree" by code_simp
  have l: "20 \<le> length ?d" "28 \<le> length ?b" "take 12 (drop 8 ?d) = replicate 12 7" by (simp_all add: magic_cookie_def)
  show ?thesis using stun_parse_safe [OF l(1)] stun_parse_safe [OF l(2)] k b l(3) by auto
qed

section \<open>Authentication\<close>

definition hmac_ok :: "(bytes \<Rightarrow> bytes \<Rightarrow> bytes res) \<Rightarrow> bool" where
  \<comment> \<open>\<open>GetHmacSha1\<close> returns 20 bytes or throws\<close>
  "hmac_ok hmac \<longleftrightarrow> (\<forall>key msg. throws_only (hmac key msg) \<and> (\<forall>mac. hmac key msg = Inr mac \<longrightarrow> length mac = 20))"

definition stun_signed :: "bytes \<Rightarrow> nat \<Rightarrow> bytes" where
  \<comment> \<open>RFC 5389, 15.4: the message up to the attribute whose value is at \<open>mi\<close>, with a header that
    announces a message ending with that attribute\<close>
  "stun_signed data mi = poke (take (mi - 4) data) 2 (be 2 (of_nat mi :: u16))"

lemma stun_signed_take:
  assumes "24 \<le> mi" "mi \<le> length data"
  shows "take (mi - 4) (poke data 2 (be 2 (of_nat mi :: u16))) = stun_signed data mi"
  using assms by (simp add: stun_signed_def take_poke_within)

lemma fld2_poke_self: "i + 2 \<le> length data \<Longrightarrow> poke data i (be 2 (fld2 i data)) = data"
  using poke_self [of i 2 data] be_of_be [of "take 2 (drop i data)" 2, where 'a = 16] by (simp add: fld2_def)

lemma CheckAuthentication_parsed:
  assumes "hmac_ok hmac" "len \<le> length data" "stun_Parse data len = Inr k" "message_integrity k = Some mi"
  shows "CheckAuthentication hmac u w k =
    (if take (length u) (username k) \<noteq> u then Inr (UNAUTHORIZED, k)
     else rbind (hmac w (stun_signed data mi)) (\<lambda>mac.
       if mac = take 20 (drop mi data) then Inr (AUTH_OK, k)
       else Inr (UNAUTHORIZED,
              if has_fingerprint k then k\<lparr>sp_data := poke data 2 (be 2 (of_nat mi :: u16))\<rparr> else k)))"
proof -
  obtain s where s: "unat (fld2 2 data) = len - 20" "scan_ok data len len s"
    "k = (scan_pkt s)\<lparr>has_fingerprint := scan_fp s\<rparr>"
    using stun_Parse_InrE [OF assms(2,3)] by metis
  have k: "sp_data k = data" "sp_data_len k = len" "24 \<le> mi" "mi + 20 + (if has_fingerprint k then 8 else 0) = len"
    using s assms(4) by (auto simp: scan_ok_def)
  have f: "of_nat (len - 20) = fld2 2 data" by (simp flip: s(1))
  have mac: "rd mac 0 20 = Inr mac" if "hmac w m = Inr mac" for m mac
    using assms(1) that by (simp add: hmac_ok_def)
  have fin: "rbind (hmac w m) (\<lambda>mac. rbind (rd mac 0 20) (g mac)) = rbind (hmac w m) (\<lambda>mac. g mac mac)"
    for m and g :: "bytes \<Rightarrow> bytes \<Rightarrow> (STUN_AUTHENTICATION \<times> stun_packet) res"
    by (rule rbind_cong) (simp_all add: mac)
  show ?thesis
  proof (cases "has_fingerprint k")
    case True
    then have "len - 20 - 8 = mi" and le: "mi + 20 \<le> length data" using k assms(2) by auto
    have p: "take 20 (drop mi (poke data 2 (be 2 (of_nat mi :: u16)))) = take 20 (drop mi data)"
      using le k(3) by (intro take_drop_poke_other) auto
    have b: "poke (poke data 2 (be 2 (of_nat mi :: u16))) 2 (be 2 (of_nat (len - 20) :: u16)) = data"
      using le k(3) by (simp add: f fld2_poke_self)
    have e: "sp_data_len k - 20 - 8 = mi" "sp_data_len k - STUN_HEADER_SIZE = len - 20"
      using k \<open>len - 20 - 8 = mi\<close> by (simp_all add: STUN_HEADER_SIZE_def)
    have r: "rd (poke data 2 (be 2 (of_nat mi :: u16))) 0 (mi - 4) = Inr (stun_signed data mi)"
      "rd (poke data 2 (be 2 (of_nat mi :: u16))) mi 20 = Inr (take 20 (drop mi data))"
      using le k(3) p stun_signed_take by simp_all
    have i: "wr data 2 (be 2 (of_nat mi :: u16)) = Inr (poke data 2 (be 2 (of_nat mi :: u16)))"
      "wr (poke data 2 (be 2 (of_nat mi :: u16))) 2 (be 2 (of_nat (len - 20) :: u16)) = Inr data"
      using le k(3) b by (simp_all del: of_nat_diff)
    have same: "k\<lparr>sp_data := data\<rparr> = k" using k(1) by auto
    show ?thesis
      unfolding CheckAuthentication_def if_P [OF True] e k(1) Write_be i rbind_simps assms(4) option.case r fin same
      by (auto intro!: arg_cong2 [where f = rbind])
  next
    case False
    then have m: "mi = len - 20" and le: "mi + 20 \<le> length data" using k assms(2) by auto
    have "stun_signed data mi = take (mi - 4) data"
      using le k(3) stun_signed_take [of mi data] by (simp add: m f fld2_poke_self)
    then have r: "rd data 0 (mi - 4) = Inr (stun_signed data mi)" "rd data mi 20 = Inr (take 20 (drop mi data))"
      using le k(3) by simp_all
    have same: "k\<lparr>sp_data := data\<rparr> = k" using k(1) by auto
    show ?thesis
      unfolding CheckAuthentication_def if_not_P [OF False] k(1) rbind_simps assms(4) option.case r fin same
      by (auto intro!: arg_cong2 [where f = rbind])
  qed
qed

text \<open>
  C17. A parsed request is authenticated exactly when its user name starts with the server's fragment and its message
  integrity value is the HMAC, under the server's password, of the message as RFC 5389 prescribes it; then the packet
  is left as it was. When the HMAC differs and the message has a fingerprint, the header keeps the shortened length.
\<close>

theorem stun_auth:
  assumes "hmac_ok hmac" "len \<le> length data" "stun_Parse data len = Inr k" "message_integrity k = Some mi"
  shows "CheckAuthentication hmac u w k =
    (if take (length u) (username k) \<noteq> u then Inr (UNAUTHORIZED, k)
     else rbind (hmac w (stun_signed data mi)) (\<lambda>mac.
       if mac = take 20 (drop mi data) then Inr (AUTH_OK, k)
       else Inr (UNAUTHORIZED,
              if has_fingerprint k then k\<lparr>sp_data := poke data 2 (be 2 (of_nat mi :: u16))\<rparr> else k)))"
  by (rule CheckAuthentication_parsed [OF assms])

theorem stun_auth_witness:
  "\<exists>k. stun_Parse ([0, 1, 0, 24] @ magic_cookie @ replicate 12 7 @ [0, 8, 0, 20] @ replicate 20 22) 44 = Inr k \<and>
     CheckAuthentication (\<lambda>key msg. Inr (replicate 20 (of_nat (length key + length msg)))) [] [5, 6] k = Inr (AUTH_OK, k) \<and>
     CheckAuthentication (\<lambda>key msg. Inr (replicate 20 (of_nat (length key + length msg)))) [] [5] k = Inr (UNAUTHORIZED, k)"
proof -
  let ?d = "[0, 1, 0, 24] @ magic_cookie @ replicate 12 7 @ [0, 8, 0, 20] @ replicate 20 22"
  let ?h = "\<lambda>key msg. Inr (replicate 20 (of_nat (length key + length msg))) :: bytes res"
  obtain k where k: "stun_Parse ?d 44 = Inr k" "message_integrity k = Some 24" "\<not> has_fingerprint k"
  proof -
    have "(case stun_Parse ?d 44 of Inl e \<Rightarrow> False
       | Inr k \<Rightarrow> message_integrity k = Some 24 \<and> \<not> has_fingerprint k)" by code_simp
    then show thesis using that by (auto split: sum.splits)
  qed
  have h: "hmac_ok ?h" by (simp add: hmac_ok_def)
  have d: "44 \<le> length ?d" by (simp add: magic_cookie_def)
  have v: "take 20 (drop 24 ?d) = replicate 20 22" "length (stun_signed ?d 24) = 20"
    by (simp_all add: magic_cookie_def stun_signed_def)
  have ne: "replicate 20 21 \<noteq> (replicate 20 22 :: bytes)" by simp
  show ?thesis
    using k stun_auth [OF h d k(1,2), of "[]" "[5, 6]"] stun_auth [OF h d k(1,2), of "[]" "[5]"] v ne
    by (intro exI [of _ k] conjI) simp_all
qed

end
