(* ===== verification/Stun_Codec.thy ===== *)
theory Stun_Codec
  imports Stun
begin

text \<open>
  The wire format that \<open>StunPacket::Serialize\<close> produces and what \<open>StunPacket::Parse\<close> makes of it: \<open>enc_stun\<close> is the
  message as a list of attributes, \<open>stun_Serialize_enc\<close> shows that the write positions and the buffer of the code
  produce it, \<open>stun_Parse_enc\<close> that the attribute loop reads it back.
\<close>

section \<open>The encoding\<close>

definition tlv :: "u16 \<Rightarrow> bytes \<Rightarrow> bytes" where
  \<comment> \<open>an attribute, padded with zeros to a multiple of four\<close>
  "tlv t v = be 2 t @ be 2 (of_nat (length v) :: u16) @ v
     @ replicate ((length v + 3) div 4 * 4 - length v) 0"

definition enc_header :: "stun_packet \<Rightarrow> nat \<Rightarrow> bytes" where
  "enc_header k n = be 2 (stun_type_field k) @ be 2 (of_nat n :: u16) @ magic_cookie @ the (transaction_id k)"

definition enc_username :: "stun_packet \<Rightarrow> bytes" where
  "enc_username k = (if username k = [] then [] else tlv STUN_USERNAME (username k))"

definition enc_priority :: "stun_packet \<Rightarrow> bytes" where
  "enc_priority k = (if priority k = 0 then [] else tlv STUN_PRIORITY (be 4 (priority k)))"

definition enc_use_candidate :: "stun_packet \<Rightarrow> bytes" where
  "enc_use_candidate k = (if has_use_candidate k then tlv STUN_USE_CANDIDATE [] else [])"

definition enc_address :: "sockaddr_in \<Rightarrow> bytes" where
  "enc_address a = be 2 (1 :: u16) @ be 2 (sin_port a XOR 0x2112) @ be 4 (ntohl (s_addr a) XOR 0x2112A442)"

definition enc_xor_address :: "stun_packet \<Rightarrow> bytes" where
  "enc_xor_address k = (case xor_address k of None \<Rightarrow> [] | Some a \<Rightarrow> tlv STUN_XOR_MAPPED_ADDRESS (enc_address a))"

definition enc_fingerprint :: "bytes \<Rightarrow> bytes" where
  "enc_fingerprint d = tlv STUN_FINGERPRINT (be 4 (crc32 d XOR 0x5354554e))"

definition out :: "bytes \<Rightarrow> stun_out" where
  \<comment> \<open>the zeroed buffer after \<open>d\<close> was written to its start\<close>
  "out d = (d @ replicate (8192 - length d) 0, length d)"

lemma wr_out:
  assumes "length v \<le> m" "length d + m \<le> 8192"
  shows "wr (d @ replicate (8192 - length d) 0) (length d) v
    = Inr ((d @ v @ replicate (m - length v) 0) @ replicate (8192 - length (d @ v @ replicate (m - length v) 0)) 0)"
proof -
  have "8192 - length d = length v + (m - length v) + (8192 - length d - m)" using assms by simp
  then have "replicate (8192 - length d) (0 :: u8)
     = replicate (length v) 0 @ replicate (m - length v) 0 @ replicate (8192 - length d - m) 0"
    by (metis append.assoc replicate_add)
  then show ?thesis using assms by (simp add: poke_def)
qed

lemma put_out:
  "length d + 2 \<le> 8192 \<Longrightarrow> put2 w2 (out d) = Inr (out (d @ be 2 w2))"
  "length d + 4 \<le> 8192 \<Longrightarrow> put4 w4 (out d) = Inr (out (d @ be 4 w4))"
  "length v \<le> m \<Longrightarrow> length d + m \<le> 8192 \<Longrightarrow>
     put_bytes v m (out d) = Inr (out (d @ v @ replicate (m - length v) 0))"
  using wr_out [of "be 2 w2" 2 d] wr_out [of "be 4 w4" 4 d] wr_out [of v m d]
  by (simp_all add: put2_def put4_def put_bytes_def out_def Write_be del: wr_Inr access_ok)

lemma length_tlv: "length (tlv t v) = 4 + (length v + 3) div 4 * 4"
  by (simp add: tlv_def)

lemma pad_of_nat: "n \<le> 8000 \<Longrightarrow> unat (PadTo4Bytes16 (of_nat n)) = (n + 3) div 4 * 4"
  using PadTo4Bytes_correct [of "of_nat n"] by (simp add: unat_of_nat)

lemma put_header_out:
  "transaction_id k = Some tid \<Longrightarrow> length tid = 12 \<Longrightarrow>
     put_header k n (out []) = Inr (out (enc_header k (n - 20)))" if "20 \<le> n"
  using that by (simp add: put_header_def put_out enc_header_def magic_cookie_def)

lemma put_username_out:
  "length (username k) \<le> 8000 \<Longrightarrow> length d + length (enc_username k) \<le> 8192 \<Longrightarrow>
     put_username k (out d) = Inr (out (d @ enc_username k))"
  by (auto simp: put_username_def put_out enc_username_def tlv_def pad_of_nat simp del: rbind_eq_Inr)

lemma put_priority_out:
  "length d + length (enc_priority k) \<le> 8192 \<Longrightarrow> put_priority k (out d) = Inr (out (d @ enc_priority k))"
  by (auto simp: put_priority_def put_out enc_priority_def tlv_def simp del: rbind_eq_Inr)

lemma put_use_candidate_out:
  "length d + length (enc_use_candidate k) \<le> 8192 \<Longrightarrow>
     put_use_candidate k (out d) = Inr (out (d @ enc_use_candidate k))"
  by (auto simp: put_use_candidate_def put_out enc_use_candidate_def tlv_def simp del: rbind_eq_Inr)

lemma read_cookie: "Read4Bytes magic_cookie 0 = Inr 0x2112A442"
  "push_bit 8 (ucast (magic_cookie ! 0)) OR ucast (magic_cookie ! 1) = (0x2112 :: u16)"
  by (simp_all add: Read4Bytes_def magic_cookie_def rd_def)

lemma put_xor_address_out:
  "(\<And>a. xor_address k = Some a \<Longrightarrow> sin_family a = AF_INET) \<Longrightarrow> length d + length (enc_xor_address k) \<le> 8192 \<Longrightarrow>
     put_xor_address k (out d) = Inr (out (d @ enc_xor_address k))"
  by (cases "xor_address k")
    (simp_all add: put_xor_address_def put_out enc_xor_address_def enc_address_def tlv_def GetIpStr_def read_cookie
      IpStringToUint32_def del: rbind_eq_Inr One_nat_def)

lemma put_fingerprint_out:
  assumes "length d + 8 \<le> 8192"
  shows "put_fingerprint (out d) = Inr (out (d @ enc_fingerprint d))"
proof -
  have "put_fingerprint (out d) = rbind (put2 STUN_FINGERPRINT (out d)) (\<lambda>o1. rbind (put2 4 o1)
     (\<lambda>o1. put4 (crc32 d XOR 0x5354554e) o1))"
    using assms by (simp add: put_fingerprint_def out_def GetCrc32_correct)
  then show ?thesis using assms by (simp add: put_out enc_fingerprint_def tlv_def del: rbind_eq_Inr)
qed

definition enc_integrity :: "(bytes \<Rightarrow> bytes \<Rightarrow> bytes res) \<Rightarrow> stun_packet \<Rightarrow> bytes \<Rightarrow> bytes" where
  "enc_integrity hmac k d = (case hmac (password k) (poke d 2 (be 2 (of_nat (length d + 4) :: u16))) of
     Inl e \<Rightarrow> [] | Inr mac \<Rightarrow> tlv STUN_MESSAGE_INTEGRITY mac)"

definition hmac_up :: "(bytes \<Rightarrow> bytes \<Rightarrow> bytes res) \<Rightarrow> bool" where
  \<comment> \<open>\<open>GetHmacSha1\<close> with an initialised context: it returns 20 bytes\<close>
  "hmac_up hmac \<longleftrightarrow> (\<forall>key msg. \<exists>mac. hmac key msg = Inr mac \<and> length mac = 20)"

lemma put_integrity_out:
  assumes "hmac_up hmac" "20 \<le> length d" "length d + 24 \<le> 8192" "n = length d + 32"
    and "take 2 (drop 2 d) = be 2 (of_nat (n - 20) :: u16)"
  shows "put_integrity hmac k n (out d) = Inr (out (d @ enc_integrity hmac k d))"
proof -
  let ?d = "poke d 2 (be 2 (of_nat (length d + 4) :: u16))"
  obtain mac where m: "hmac (password k) ?d = Inr mac" "length mac = 20"
    using assms(1) unfolding hmac_up_def by blast
  have n: "n - 20 - 8 = length d + 4" using assms(4) by simp
  have p: "poke (d @ r) 2 w = poke d 2 w @ r" if "length w = 2" for r w
    using that assms(2) by (simp add: poke_def)
  have w: "wr (d @ r) 2 (be 2 v) = Inr (poke d 2 (be 2 v) @ r)" for r and v :: u16
    using assms(2) by (simp add: p)
  have b: "poke (?d @ r) 2 (be 2 (of_nat (n - 20) :: u16)) = d @ r" for r
    using assms(2) poke_self [of 2 2 "d @ r"] by (simp add: p assms(5) [symmetric] flip: p)
  have "put_integrity hmac k n (out d) =
    rbind (put2 STUN_MESSAGE_INTEGRITY (out ?d)) (\<lambda>o1. rbind (put2 20 o1) (\<lambda>o1.
     rbind (put_bytes mac 20 o1) (\<lambda>(b, p).
     rbind (wr b 2 (be 2 (of_nat (n - 20) :: u16))) (\<lambda>b. Inr (b, p)))))"
    using assms(2,3) m unfolding put_integrity_def out_def case_prod_conv Write_be n w rbind_simps STUN_HEADER_SIZE_def
    by simp
  also have "\<dots> = (case out (?d @ tlv STUN_MESSAGE_INTEGRITY mac) of (b, p) \<Rightarrow>
     rbind (wr b 2 (be 2 (of_nat (n - 20) :: u16))) (\<lambda>b. Inr (b, p)))"
    using assms(2,3) m by (simp add: put_out tlv_def del: rbind_eq_Inr)
  also have "\<dots> = Inr (out (d @ enc_integrity hmac k d))" using assms(2,3) m b
    by (simp add: out_def enc_integrity_def length_tlv)
  finally show ?thesis .
qed

definition stun_ready :: "stun_packet \<Rightarrow> bool" where
  \<comment> \<open>a message as the constructor and the callers leave it before \<open>Serialize\<close>\<close>
  "stun_ready k \<longleftrightarrow> sp_data k = replicate 8192 0 \<and> stun_method k = BINDING \<and> stun_class k < 4 \<and>
     (\<exists>tid. transaction_id k = Some tid \<and> length tid = 12) \<and> length (username k) \<le> 8000 \<and>
     (\<forall>a. xor_address k = Some a \<longrightarrow> sin_family a = AF_INET)"

definition with_integrity :: "stun_packet \<Rightarrow> bool" where
  "with_integrity k \<longleftrightarrow> stun_class k \<noteq> STUN_ERROR_RESPONSE \<and> password k \<noteq> []"

definition enc_body :: "stun_packet \<Rightarrow> bytes" where
  "enc_body k = enc_header k (stun_data_len k (with_integrity k) - 20) @ enc_username k @ enc_priority k
     @ enc_use_candidate k @ enc_xor_address k"

definition enc_signed :: "(bytes \<Rightarrow> bytes \<Rightarrow> bytes res) \<Rightarrow> stun_packet \<Rightarrow> bytes" where
  "enc_signed hmac k = enc_body k @ (if with_integrity k then enc_integrity hmac k (enc_body k) else [])"

definition enc_stun :: "(bytes \<Rightarrow> bytes \<Rightarrow> bytes res) \<Rightarrow> stun_packet \<Rightarrow> bytes" where
  "enc_stun hmac k = enc_signed hmac k @ enc_fingerprint (enc_signed hmac k)"

lemma length_enc_address [simp]: "length (enc_address a) = 8"
  by (simp add: enc_address_def)

lemma length_enc_header [simp]: "stun_ready k \<Longrightarrow> length (enc_header k n) = 20"
  by (auto simp: enc_header_def stun_ready_def magic_cookie_def)

lemma length_enc_integrity: "hmac_up hmac \<Longrightarrow> length (enc_integrity hmac k d) = 24"
proof -
  assume "hmac_up hmac"
  then obtain mac where "hmac (password k) (poke d 2 (be 2 (of_nat (length d + 4) :: u16))) = Inr mac" "length mac = 20"
    unfolding hmac_up_def by blast
  then show ?thesis by (simp add: enc_integrity_def length_tlv del: of_nat_add)
qed

lemma length_enc_body:
  assumes "stun_ready k"
  shows "length (enc_body k) + (if m then 24 else 0) + 8 = stun_data_len k m" "stun_data_len k m \<le> 8192"
    "20 \<le> length (enc_body k)"
proof -
  have u: "length (username k) \<le> 8000" using assms by (simp add: stun_ready_def)
  have "(length (username k) + 3) div 4 * 4 \<le> 8003" using u by simp
  with u show "length (enc_body k) + (if m then 24 else 0) + 8 = stun_data_len k m" "stun_data_len k m \<le> 8192"
    "20 \<le> length (enc_body k)"
    using assms by (auto simp: enc_body_def stun_data_len_def enc_username_def enc_priority_def enc_use_candidate_def
        enc_xor_address_def length_tlv STUN_HEADER_SIZE_def pad_of_nat split: option.split)
qed

lemma length_enc_stun:
  assumes "stun_ready k" "hmac_up hmac"
  shows "length (enc_signed hmac k) + 8 = stun_data_len k (with_integrity k)"
    "length (enc_stun hmac k) = stun_data_len k (with_integrity k)"
  using length_enc_body(1,2) [OF assms(1), of "with_integrity k"] assms(2)
  by (auto simp: enc_stun_def enc_signed_def length_enc_integrity enc_fingerprint_def length_tlv split: if_splits)

lemma out_Nil: "out [] = (replicate 8192 0, 0)" by (simp add: out_def)

lemma stun_Serialize_enc:
  assumes r: "stun_ready k" and h: "hmac_up hmac"
  shows "stun_Serialize hmac k =
    Inr (k\<lparr>add_msg_integrity := with_integrity k, sp_data := fst (out (enc_stun hmac k)),
           sp_data_len := stun_data_len k (with_integrity k),
           message_integrity := (if with_integrity k then Some (length (enc_body k) + 4) else None)\<rparr>,
         stun_data_len k (with_integrity k))"
proof -
  let ?n = "stun_data_len k (with_integrity k)"
  let ?d1 = "enc_header k (?n - 20)" and ?d2 = "enc_username k" and ?d3 = "enc_priority k"
    and ?d4 = "enc_use_candidate k" and ?d5 = "enc_xor_address k"
  note len = length_enc_body(1,2) [OF r, of "with_integrity k"] length_enc_body(3) [OF r]
  have b: "20 \<le> ?n" using len by auto
  obtain tid where t: "transaction_id k = Some tid" "length tid = 12" using r by (auto simp: stun_ready_def)
  have u: "length (username k) \<le> 8000" and fam: "\<And>a. xor_address k = Some a \<Longrightarrow> sin_family a = AF_INET"
    using r by (auto simp: stun_ready_def)
  have sub: "length ?d1 + length ?d2 + length ?d3 + length ?d4 + length ?d5 = length (enc_body k)"
    by (simp add: enc_body_def)
  have le: "length (enc_body k) \<le> 8192" using len by auto
  have fl: "take 2 (drop 2 (enc_body k)) = be 2 (of_nat (?n - 20) :: u16)"
    by (simp add: enc_body_def enc_header_def)
  have s1: "put_header k ?n (sp_data k, 0) = Inr (out ?d1)"
    using put_header_out [OF b t] r by (simp add: stun_ready_def out_Nil)
  have s2: "put_username k (out ?d1) = Inr (out (?d1 @ ?d2))"
    using sub le by (intro put_username_out [OF u]) simp
  have s3: "put_priority k (out (?d1 @ ?d2)) = Inr (out (?d1 @ ?d2 @ ?d3))"
    using put_priority_out [of "?d1 @ ?d2" k] sub le by simp
  have s4: "put_use_candidate k (out (?d1 @ ?d2 @ ?d3)) = Inr (out (?d1 @ ?d2 @ ?d3 @ ?d4))"
    using put_use_candidate_out [of "?d1 @ ?d2 @ ?d3" k] sub le by simp
  have s5: "put_xor_address k (out (?d1 @ ?d2 @ ?d3 @ ?d4)) = Inr (out (enc_body k))"
    using put_xor_address_out [of k "?d1 @ ?d2 @ ?d3 @ ?d4"] fam sub le by (simp add: enc_body_def)
  have s6: "(if with_integrity k then put_integrity hmac k ?n (out (enc_body k)) else Inr (out (enc_body k)))
      = Inr (out (enc_signed hmac k))"
  proof (cases "with_integrity k")
    case True
    have n: "?n = length (enc_body k) + 32" using len(1) unfolding if_P [OF True] by linarith
    have "length (enc_body k) + 24 \<le> 8192" using n len(2) by linarith
    then show ?thesis unfolding if_P [OF True] enc_signed_def by (rule put_integrity_out [OF h len(3) _ n fl])
  qed (simp add: enc_signed_def)
  have s7: "put_fingerprint (out (enc_signed hmac k)) = Inr (out (enc_stun hmac k))"
    using length_enc_stun [OF r h] len by (simp add: put_fingerprint_out enc_stun_def)
  have e: "out (enc_stun hmac k) = (fst (out (enc_stun hmac k)), ?n)" "snd (out (enc_body k)) = length (enc_body k)"
    using length_enc_stun [OF r h] by (simp_all add: out_def)
  show ?thesis
    unfolding stun_Serialize_def Let_def with_integrity_def [symmetric] s1 s2 s3 s4 s5 s6 s7 rbind_simps
    by (subst e(1)) (simp add: e(2))
qed

section \<open>Reading the encoding\<close>

lemma stun_attrs_tlv:
  assumes "data = pre @ tlv t v @ post" "length v \<le> 8000" "length pre + 4 < len" "length pre + length (tlv t v) \<le> len"
    "\<not> scan_fp s" "scan_mi s \<Longrightarrow> t = STUN_FINGERPRINT"
  shows "stun_attrs data len (length pre) s =
    rbind (stun_attr data t (of_nat (length v)) (length pre + 4) s) (stun_attrs data len (length (pre @ tlv t v)))"
proof -
  have r: "Read2Bytes data (length pre) = Inr t" "Read2Bytes data (length pre + 2) = Inr (of_nat (length v))"
    by (simp_all add: assms(1) Read_be tlv_def)
  have u: "unat (of_nat (length v) :: u16) = length v" using assms(2) by (simp add: unat_of_nat)
  have "length v \<le> (length v + 3) div 4 * 4" by linarith
  then have l: "\<not> len < length pre + 4 + length v" using assms(4) by (simp add: length_tlv)
  show ?thesis
    using assms(3,5,6) l
    by (subst stun_attrs.simps, unfold r rbind_simps u pad_of_nat [OF assms(2)] length_append length_tlv)
      (auto simp: add.assoc)
qed

lemma tlv_value:
  assumes "data = pre @ tlv t v @ post"
  shows "take (length v) (drop (length pre + 4) data) = v" "length pre + 4 + length v \<le> length data"
  by (simp_all add: assms tlv_def)

lemma attr_username:
  assumes "data = pre @ tlv STUN_USERNAME v @ post" "length v \<le> 8000"
  shows "stun_attr data STUN_USERNAME (of_nat (length v)) (length pre + 4) s
     = Inr (s\<lparr>scan_pkt := (scan_pkt s)\<lparr>username := v\<rparr>\<rparr>)"
  using tlv_value [OF assms(1)] assms(2) by (simp add: stun_attr_def Let_def unat_of_nat)

lemma attr_priority:
  assumes "data = pre @ tlv STUN_PRIORITY (be 4 v) @ post"
  shows "stun_attr data STUN_PRIORITY 4 (length pre + 4) s = Inr (s\<lparr>scan_pkt := (scan_pkt s)\<lparr>priority := v\<rparr>\<rparr>)"
  using tlv_value [OF assms] by (simp add: stun_attr_def Let_def stun_types Read_be)

lemma attr_use_candidate:
  "stun_attr data STUN_USE_CANDIDATE 0 q s = Inr (s\<lparr>scan_pkt := (scan_pkt s)\<lparr>has_use_candidate := True\<rparr>\<rparr>)"
  by (simp add: stun_attr_def Let_def stun_types)

lemma attr_integrity:
  "stun_attr data STUN_MESSAGE_INTEGRITY 20 q s =
     Inr (s\<lparr>scan_mi := True, scan_pkt := (scan_pkt s)\<lparr>message_integrity := Some q\<rparr>\<rparr>)"
  by (simp add: stun_attr_def Let_def stun_types)

lemma attr_fingerprint:
  assumes "data = pre @ tlv STUN_FINGERPRINT (be 4 v) @ post"
  shows "stun_attr data STUN_FINGERPRINT 4 (length pre + 4) s =
     Inr (s\<lparr>scan_fp := True, scan_pkt := (scan_pkt s)\<lparr>fingerprint := v\<rparr>, scan_fp_pos := length pre\<rparr>)"
  using tlv_value [OF assms] by (simp add: stun_attr_def Let_def stun_types Read_be)

lemma byte_of_xor: "byte_of k (a XOR b) = byte_of k a XOR byte_of k b"
  by (rule bit_word_eqI) (simp add: bit_byte_of bit_xor_iff)

lemma xor_address_enc:
  "stun_xor_address (enc_address a) = Inr \<lparr>sin_family = AF_INET, sin_port = ntohs (sin_port a), s_addr = s_addr a\<rparr>"
proof -
  have c: "byte_of (Suc 0) (0x2112 :: u16) = 0x21" "byte_of 0 (0x2112 :: u16) = 0x12"
     "byte_of 3 (0x2112A442 :: u32) = 0x21" "byte_of 2 (0x2112A442 :: u32) = 0x12"
     "byte_of (Suc 0) (0x2112A442 :: u32) = 0xA4" "byte_of 0 (0x2112A442 :: u32) = 0x42"
     "byte_of (Suc 0) (1 :: u16) = 0" "byte_of 0 (1 :: u16) = 1"
    by (simp_all add: byte_of_def)
  have "enc_address a = [0, 1, byte_of 1 (sin_port a) XOR 0x21, byte_of 0 (sin_port a) XOR 0x12,
     byte_of 3 (ntohl (s_addr a)) XOR 0x21, byte_of 2 (ntohl (s_addr a)) XOR 0x12,
     byte_of 1 (ntohl (s_addr a)) XOR 0xA4, byte_of 0 (ntohl (s_addr a)) XOR 0x42]"
    by (simp add: enc_address_def be_expand byte_of_xor c)
  moreover have "(of_be [byte_of 1 p, byte_of 0 p] :: u16) = p" for p :: u16
    using of_be_be_full(1) [of p] by (simp add: be_expand)
  moreover have "(of_be [byte_of 3 w, byte_of 2 w, byte_of 1 w, byte_of 0 w] :: u32) = w" for w :: u32
    using of_be_be_full(2) [of w] by (simp add: be_expand)
  moreover have "(of_be [0, 1] :: u16) = 1" by (simp add: of_be_def)
  ultimately show ?thesis
    by (simp add: stun_xor_address_def Read_be magic_cookie_def Let_def rd_def xor.assoc)
qed

lemma attr_xor_address:
  assumes "data = pre @ tlv STUN_XOR_MAPPED_ADDRESS (enc_address a) @ post"
  shows "stun_attr data STUN_XOR_MAPPED_ADDRESS 8 (length pre + 4) s =
    Inr (s\<lparr>scan_pkt := (scan_pkt s)\<lparr>xor_address :=
       Some \<lparr>sin_family = AF_INET, sin_port = ntohs (sin_port a), s_addr = s_addr a\<rparr>\<rparr>\<rparr>)"
  using tlv_value [OF assms] by (simp add: stun_attr_def Let_def stun_types xor_address_enc)

lemma scan_username:
  assumes "data = pre @ enc_username k @ post" "length (username k) \<le> 8000"
    "length pre + length (enc_username k) + 8 \<le> len" "\<not> scan_fp s" "\<not> scan_mi s"
  shows "stun_attrs data len (length pre) s = stun_attrs data len (length (pre @ enc_username k))
    (if username k = [] then s else s\<lparr>scan_pkt := (scan_pkt s)\<lparr>username := username k\<rparr>\<rparr>)"
proof (cases "username k = []")
  case False
  then have d: "data = pre @ tlv STUN_USERNAME (username k) @ post" using assms(1) by (simp add: enc_username_def)
  show ?thesis using False assms stun_attrs_tlv [OF d assms(2), of len s] attr_username [OF d assms(2), of s]
    by (simp add: enc_username_def length_tlv)
qed (simp add: enc_username_def)

lemma scan_priority:
  assumes "data = pre @ enc_priority k @ post"
    "length pre + length (enc_priority k) + 8 \<le> len" "\<not> scan_fp s" "\<not> scan_mi s"
  shows "stun_attrs data len (length pre) s = stun_attrs data len (length (pre @ enc_priority k))
    (if priority k = 0 then s else s\<lparr>scan_pkt := (scan_pkt s)\<lparr>priority := priority k\<rparr>\<rparr>)"
proof (cases "priority k = 0")
  case False
  then have d: "data = pre @ tlv STUN_PRIORITY (be 4 (priority k)) @ post" using assms(1) by (simp add: enc_priority_def)
  show ?thesis using False assms stun_attrs_tlv [OF d, of len s] attr_priority [OF d, of s]
    by (simp add: enc_priority_def length_tlv)
qed (simp add: enc_priority_def)

lemma scan_use_candidate:
  assumes "data = pre @ enc_use_candidate k @ post"
    "length pre + length (enc_use_candidate k) + 8 \<le> len" "\<not> scan_fp s" "\<not> scan_mi s"
  shows "stun_attrs data len (length pre) s = stun_attrs data len (length (pre @ enc_use_candidate k))
    (if has_use_candidate k then s\<lparr>scan_pkt := (scan_pkt s)\<lparr>has_use_candidate := True\<rparr>\<rparr> else s)"
proof (cases "has_use_candidate k")
  case True
  then have d: "data = pre @ tlv STUN_USE_CANDIDATE [] @ post" using assms(1) by (simp add: enc_use_candidate_def)
  show ?thesis using True assms stun_attrs_tlv [OF d, of len s]
    by (simp add: enc_use_candidate_def length_tlv attr_use_candidate)
qed (simp add: enc_use_candidate_def)

definition parsed_address :: "sockaddr_in \<Rightarrow> sockaddr_in" where
  \<comment> \<open>what \<open>Parse\<close> makes of an address that \<open>Serialize\<close> wrote: the port in the other byte order\<close>
  "parsed_address a = \<lparr>sin_family = AF_INET, sin_port = ntohs (sin_port a), s_addr = s_addr a\<rparr>"

lemma scan_xor_address:
  assumes "data = pre @ enc_xor_address k @ post"
    "length pre + length (enc_xor_address k) + 8 \<le> len" "\<not> scan_fp s" "\<not> scan_mi s"
  shows "stun_attrs data len (length pre) s = stun_attrs data len (length (pre @ enc_xor_address k))
    (case xor_address k of None \<Rightarrow> s
     | Some a \<Rightarrow> s\<lparr>scan_pkt := (scan_pkt s)\<lparr>xor_address := Some (parsed_address a)\<rparr>\<rparr>)"
proof (cases "xor_address k")
  case (Some a)
  then have d: "data = pre @ tlv STUN_XOR_MAPPED_ADDRESS (enc_address a) @ post"
    using assms(1) by (simp add: enc_xor_address_def)
  show ?thesis using Some assms stun_attrs_tlv [OF d, of len s] attr_xor_address [OF d, of s]
    by (simp add: enc_xor_address_def length_tlv parsed_address_def)
qed (simp add: enc_xor_address_def)

lemma scan_integrity:
  assumes "data = pre @ enc_integrity hmac k d @ post" "hmac_up hmac"
    "length pre + 32 \<le> len" "\<not> scan_fp s" "\<not> scan_mi s"
  shows "stun_attrs data len (length pre) s = stun_attrs data len (length pre + 24)
    (s\<lparr>scan_mi := True, scan_pkt := (scan_pkt s)\<lparr>message_integrity := Some (length pre + 4)\<rparr>\<rparr>)"
proof -
  obtain mac where m: "hmac (password k) (poke d 2 (be 2 (of_nat (length d + 4) :: u16))) = Inr mac" "length mac = 20"
    using assms(2) unfolding hmac_up_def by blast
  then have d: "data = pre @ tlv STUN_MESSAGE_INTEGRITY mac @ post"
    using assms(1) by (simp add: enc_integrity_def del: of_nat_add)
  show ?thesis using assms m(2) stun_attrs_tlv [OF d, of len s] by (simp add: length_tlv attr_integrity)
qed

lemma scan_fingerprint:
  assumes "data = pre @ enc_fingerprint pre @ post" "len = length pre + 8" "\<not> scan_fp s"
  shows "stun_attrs data len (length pre) s = Inr (len,
    (s\<lparr>scan_fp := True, scan_pkt := (scan_pkt s)\<lparr>fingerprint := crc32 pre XOR 0x5354554e\<rparr>, scan_fp_pos := length pre\<rparr>))"
proof -
  have d: "data = pre @ tlv STUN_FINGERPRINT (be 4 (crc32 pre XOR 0x5354554e)) @ post"
    using assms(1) by (simp add: enc_fingerprint_def)
  have "stun_attrs data len len s' = Inr (len, s')" for s' by (subst stun_attrs.simps) simp
  then show ?thesis using assms stun_attrs_tlv [OF d, of len s] attr_fingerprint [OF d, of s]
    by (simp add: length_tlv)
qed

lemma class_cases: "c < 4 \<Longrightarrow> c = 0 \<or> c = 1 \<or> c = 2 \<or> c = (3 :: u16)"
  by (simp add: word_less_nat_alt word_unat_eq_iff) linarith

lemma stun_header:
  assumes r: "stun_ready k" and d: "data = enc_header k n @ post" and len: "20 \<le> len"
  shows "IsStun data len = Inr True" "fld2 2 data = of_nat n"
    "scan_pkt (stun_scan0 data len) = (StunPacket_on data len)
       \<lparr>stun_method := stun_method k, stun_class := stun_class k, transaction_id := transaction_id k\<rparr>"
proof -
  obtain tid where t: "transaction_id k = Some tid" "length tid = 12" using r by (auto simp: stun_ready_def)
  let ?f = "stun_type_field k"
  have e: "data = byte_of 1 ?f # byte_of 0 ?f # be 2 (of_nat n :: u16) @ magic_cookie @ tid @ post"
    by (simp add: d enc_header_def t be_expand)
  have f: "fld2 0 data = ?f" by (simp add: d enc_header_def fld2_def)
  have tid: "take 12 (drop 8 data) = tid" using t by (simp add: d enc_header_def magic_cookie_def)
  have c: "stun_class k = 0 \<or> stun_class k = 1 \<or> stun_class k = 2 \<or> stun_class k = 3" and m: "stun_method k = 1"
    using r class_cases by (auto simp: stun_ready_def BINDING_def)
  have bits: "byte_of 1 ?f < 3 \<and> (?f AND 0x000f) OR drop_bit 1 (?f AND 0x00e0) OR drop_bit 2 (?f AND 0x3E00) = stun_method k
     \<and> push_bit 1 (ucast (byte_of 1 ?f AND 0x01)) OR ucast (drop_bit 4 (byte_of 0 ?f AND 0x10)) = stun_class k"
    using c by (elim disjE) (simp_all add: stun_type_field_def m byte_of_def)
  show "fld2 2 data = of_nat n" by (simp add: d enc_header_def fld2_def)
  show "IsStun data len = Inr True" using bits len
    by (simp add: IsStun_def STUN_HEADER_SIZE_def e magic_cookie_def be_expand)
  show "scan_pkt (stun_scan0 data len) = (StunPacket_on data len)
       \<lparr>stun_method := stun_method k, stun_class := stun_class k, transaction_id := transaction_id k\<rparr>"
    unfolding stun_scan0_def stun_scan.simps f tid t using bits by (simp add: e)
qed

definition stun_parsed :: "(bytes \<Rightarrow> bytes \<Rightarrow> bytes res) \<Rightarrow> stun_packet \<Rightarrow> bytes \<Rightarrow> stun_packet" where
  \<comment> \<open>the packet the receiver of \<open>k\<close> sees, in a buffer with \<open>post\<close> after the message\<close>
  "stun_parsed hmac k post = (StunPacket_on (enc_stun hmac k @ post) (stun_data_len k (with_integrity k)))
     \<lparr>stun_method := stun_method k, stun_class := stun_class k, transaction_id := transaction_id k,
      username := username k, priority := priority k, has_use_candidate := has_use_candidate k,
      xor_address := map_option parsed_address (xor_address k),
      message_integrity := (if with_integrity k then Some (length (enc_body k) + 4) else None),
      fingerprint := crc32 (enc_signed hmac k) XOR 0x5354554e, has_fingerprint := True\<rparr>"

lemma scan_body:
  assumes r: "stun_ready k" and d: "data = enc_body k @ post" and len: "length (enc_body k) + 8 \<le> len"
  shows "stun_attrs data len 20 (stun_scan0 data len) = stun_attrs data len (length (enc_body k))
    \<lparr>scan_pkt = (StunPacket_on data len)
     \<lparr>stun_method := stun_method k, stun_class := stun_class k, transaction_id := transaction_id k,
      username := username k, priority := priority k, has_use_candidate := has_use_candidate k,
      xor_address := map_option parsed_address (xor_address k)\<rparr>,
     scan_fp = False, scan_mi = False, scan_fp_pos = 0\<rparr>"
proof -
  let ?d1 = "enc_header k (stun_data_len k (with_integrity k) - 20)"
  let ?d2 = "?d1 @ enc_username k" let ?d3 = "?d2 @ enc_priority k" let ?d4 = "?d3 @ enc_use_candidate k"
  have u: "length (username k) \<le> 8000" using r by (simp add: stun_ready_def)
  have l: "length ?d1 = 20" using r by simp
  have e: "length (enc_body k) = 20 + length (enc_username k) + length (enc_priority k)
     + length (enc_use_candidate k) + length (enc_xor_address k)" using l by (simp add: enc_body_def)
  have h: "scan_pkt (stun_scan0 data len) = (StunPacket_on data len)
       \<lparr>stun_method := stun_method k, stun_class := stun_class k, transaction_id := transaction_id k\<rparr>"
    using stun_header(3) [OF r, of data _ "enc_username k @ enc_priority k @ enc_use_candidate k @ enc_xor_address k @ post" len]
      len e by (simp add: d enc_body_def)
  have f: "\<not> scan_fp (stun_scan0 data len)" "\<not> scan_mi (stun_scan0 data len)" "scan_fp_pos (stun_scan0 data len) = 0"
    by (simp_all add: stun_scan0_def)
  have "stun_attrs data len 20 (stun_scan0 data len) = stun_attrs data len (length (?d4 @ enc_xor_address k))
    (let s = stun_scan0 data len;
         s = if username k = [] then s else s\<lparr>scan_pkt := (scan_pkt s)\<lparr>username := username k\<rparr>\<rparr>;
         s = if priority k = 0 then s else s\<lparr>scan_pkt := (scan_pkt s)\<lparr>priority := priority k\<rparr>\<rparr>;
         s = if has_use_candidate k then s\<lparr>scan_pkt := (scan_pkt s)\<lparr>has_use_candidate := True\<rparr>\<rparr> else s
     in case xor_address k of None \<Rightarrow> s
     | Some a \<Rightarrow> s\<lparr>scan_pkt := (scan_pkt s)\<lparr>xor_address := Some (parsed_address a)\<rparr>\<rparr>)"
    using scan_username [of data ?d1 k "enc_priority k @ enc_use_candidate k @ enc_xor_address k @ post" len]
      scan_priority [of data ?d2 k "enc_use_candidate k @ enc_xor_address k @ post" len]
      scan_use_candidate [of data ?d3 k "enc_xor_address k @ post" len]
      scan_xor_address [of data ?d4 k post len] u l e len f
    by (simp add: d enc_body_def Let_def)
  moreover have "?d4 @ enc_xor_address k = enc_body k" by (simp add: enc_body_def)
  moreover have "(let s = stun_scan0 data len;
         s = if username k = [] then s else s\<lparr>scan_pkt := (scan_pkt s)\<lparr>username := username k\<rparr>\<rparr>;
         s = if priority k = 0 then s else s\<lparr>scan_pkt := (scan_pkt s)\<lparr>priority := priority k\<rparr>\<rparr>;
         s = if has_use_candidate k then s\<lparr>scan_pkt := (scan_pkt s)\<lparr>has_use_candidate := True\<rparr>\<rparr> else s
     in case xor_address k of None \<Rightarrow> s
     | Some a \<Rightarrow> s\<lparr>scan_pkt := (scan_pkt s)\<lparr>xor_address := Some (parsed_address a)\<rparr>\<rparr>) =
    \<lparr>scan_pkt = (StunPacket_on data len)
     \<lparr>stun_method := stun_method k, stun_class := stun_class k, transaction_id := transaction_id k,
      username := username k, priority := priority k, has_use_candidate := has_use_candidate k,
      xor_address := map_option parsed_address (xor_address k)\<rparr>,
     scan_fp = False, scan_mi = False, scan_fp_pos = 0\<rparr>"
    using f h by (auto simp: Let_def StunPacket_on_def split: option.split)
  ultimately show ?thesis by (simp only:)
qed

lemma enc_dvd4: "stun_ready k \<Longrightarrow> 4 dvd stun_data_len k m"
  by (simp add: stun_data_len_def STUN_HEADER_SIZE_def stun_ready_def pad_of_nat)

lemma stun_Parse_enc:
  assumes r: "stun_ready k" and h: "hmac_up hmac"
  shows "stun_Parse (enc_stun hmac k @ post) (stun_data_len k (with_integrity k)) = Inr (stun_parsed hmac k post)"
proof -
  define data where "data = enc_stun hmac k @ post"
  define len where "len = stun_data_len k (with_integrity k)"
  note L = length_enc_body(1,2) [OF r, of "with_integrity k", folded len_def] length_enc_body(3) [OF r]
    length_enc_stun [OF r h, folded len_def]
  have d: "data = enc_signed hmac k @ enc_fingerprint (enc_signed hmac k) @ post"
    by (simp add: data_def enc_stun_def)
  have i: "IsStun data len = Inr True" "fld2 2 data = of_nat (len - 20)"
    using stun_header [OF r, of data "len - 20" _ len] L
    by (auto simp: d enc_signed_def enc_body_def len_def simp del: of_nat_diff)
  have u: "unat (of_nat (len - 20) :: u16) = len - 20" using L(2) by (simp add: unat_of_nat del: of_nat_diff)
  have "4 dvd len - 20" using enc_dvd4 [OF r, of "with_integrity k"] by (simp add: len_def)
  then have a: "(of_nat (len - 20) :: u16) AND 3 = 0" by (simp add: and_3_dvd u del: of_nat_diff)
  have dl: "len \<le> length data" using L by (simp add: d enc_fingerprint_def length_tlv)
  let ?s = "\<lparr>scan_pkt = (StunPacket_on data len)
     \<lparr>stun_method := stun_method k, stun_class := stun_class k, transaction_id := transaction_id k,
      username := username k, priority := priority k, has_use_candidate := has_use_candidate k,
      xor_address := map_option parsed_address (xor_address k)\<rparr>,
     scan_fp = False, scan_mi = False, scan_fp_pos = 0\<rparr>"
  let ?t = "?s\<lparr>scan_mi := with_integrity k, scan_pkt := (scan_pkt ?s)\<lparr>message_integrity :=
     (if with_integrity k then Some (length (enc_body k) + 4) else None)\<rparr>\<rparr>"
  have body: "stun_attrs data len 20 (stun_scan0 data len) = stun_attrs data len (length (enc_body k)) ?s"
    using L by (intro scan_body [OF r]) (auto simp: d enc_signed_def)
  have mi: "stun_attrs data len (length (enc_body k)) ?s = stun_attrs data len (length (enc_signed hmac k)) ?t"
  proof (cases "with_integrity k")
    case True
    then show ?thesis using L scan_integrity [OF _ h, of data "enc_body k" k "enc_body k" _ len ?s]
      by (simp add: d enc_signed_def length_enc_integrity [OF h])
  qed (simp add: enc_signed_def StunPacket_on_def)
  have fp: "stun_attrs data len (length (enc_signed hmac k)) ?t = Inr (len, ?t\<lparr>scan_fp := True,
     scan_pkt := (scan_pkt ?t)\<lparr>fingerprint := crc32 (enc_signed hmac k) XOR 0x5354554e\<rparr>,
     scan_fp_pos := length (enc_signed hmac k)\<rparr>)"
    using L by (intro scan_fingerprint [OF d]) simp_all
  have c: "take (length (enc_signed hmac k)) data = enc_signed hmac k" by (simp add: d)
  show ?thesis unfolding data_def [symmetric] len_def [symmetric] stun_Parse_step [OF dl i(1)] body mi fp i(2) u a
    using L dl c by (simp add: stun_parsed_def StunPacket_on_def flip: data_def len_def)
qed

lemma hmac_up_ok: "hmac_up hmac \<Longrightarrow> hmac_ok hmac"
  unfolding hmac_up_def hmac_ok_def by (metis Inr_inject throws_only_simps(1))

lemma integrity_value:
  fixes post :: bytes
  assumes r: "stun_ready k" and h: "hmac_up hmac" and w: "with_integrity k"
  defines "data \<equiv> enc_stun hmac k @ post" and "mi \<equiv> length (enc_body k) + 4"
  shows "hmac (password k) (stun_signed data mi) = Inr (take 20 (drop mi data))"
proof -
  obtain mac where m: "hmac (password k) (poke (enc_body k) 2 (be 2 (of_nat mi :: u16))) = Inr mac" "length mac = 20"
    using h unfolding hmac_up_def by blast
  obtain rest where d: "data = enc_body k @ tlv STUN_MESSAGE_INTEGRITY mac @ rest"
    using w m unfolding data_def mi_def enc_stun_def enc_signed_def enc_integrity_def by (simp del: of_nat_add)
  have "stun_signed data mi = poke (enc_body k) 2 (be 2 (of_nat mi :: u16))"
    using d by (simp add: stun_signed_def mi_def)
  moreover have "take 20 (drop mi data) = mac" using tlv_value(1) [OF d] m(2) by (simp add: mi_def)
  ultimately show ?thesis using m(1) by simp
qed

lemma stun_parsed_auth:
  assumes "stun_ready k" "hmac_up hmac" "with_integrity k" "take (length u) (username k) = u"
  shows "CheckAuthentication hmac u (password k) (stun_parsed hmac k post) = Inr (AUTH_OK, stun_parsed hmac k post)"
proof -
  let ?data = "enc_stun hmac k @ post"
  have l: "stun_data_len k (with_integrity k) \<le> length ?data"
    using length_enc_stun [OF assms(1,2)] by simp
  have mi: "message_integrity (stun_parsed hmac k post) = Some (length (enc_body k) + 4)"
    using assms(3) by (simp add: stun_parsed_def)
  have u: "username (stun_parsed hmac k post) = username k" by (simp add: stun_parsed_def)
  show ?thesis
    unfolding CheckAuthentication_parsed [OF hmac_up_ok [OF assms(2)] l stun_Parse_enc [OF assms(1,2)] mi] u
    using integrity_value [OF assms(1,2,3)] assms(4) by simp
qed

lemma stun_Serialize_Parse:
  assumes "stun_ready k" and "hmac_up hmac"
  obtains k' n post where "stun_Serialize hmac k = Inr (k', n)" "n \<le> 8192" "sp_data_len k' = n"
    "sp_data k' = enc_stun hmac k @ post" "length (enc_stun hmac k) = n"
    "stun_Parse (sp_data k') n = Inr (stun_parsed hmac k post)" "message_integrity (stun_parsed hmac k post) = message_integrity k'"
  using stun_Serialize_enc [OF assms] stun_Parse_enc [OF assms] length_enc_body(2) [OF assms(1)]
    length_enc_stun [OF assms]
  by (fastforce simp: stun_parsed_def StunPacket_on_def out_def)

text \<open>
  C18. What \<open>Serialize\<close> writes, \<open>Parse\<close> reads back, but for one field: for every Binding message with a user name of up to
  8000 bytes and an IPv4 address the serialiser succeeds inside its 8192 byte buffer and the parser accepts the result with its
  fingerprint; class, method, transaction id, user name, priority, the use-candidate flag and the mapped address come back
  as they were, while the port of the mapped address comes back with its two bytes exchanged, because \<open>Parse\<close>
  applies \<open>ntohs\<close> to a value it has already converted. A receiver that knows the password
  authenticates the message.
\<close>

theorem stun_roundtrip:
  assumes "stun_ready k" and "hmac_up hmac"
  shows "\<exists>k' n j. stun_Serialize hmac k = Inr (k', n) \<and> n \<le> 8192 \<and> stun_Parse (sp_data k') n = Inr j \<and>
    stun_class j = stun_class k \<and> stun_method j = stun_method k \<and> transaction_id j = transaction_id k \<and>
    username j = username k \<and> priority j = priority k \<and> has_use_candidate j = has_use_candidate k \<and>
    xor_address j = map_option (\<lambda>a. \<lparr>sin_family = AF_INET, sin_port = ntohs (sin_port a), s_addr = s_addr a\<rparr>) (xor_address k) \<and>
    has_fingerprint j \<and> message_integrity j = message_integrity k' \<and>
    (stun_class k \<noteq> STUN_ERROR_RESPONSE \<longrightarrow> password k \<noteq> [] \<longrightarrow> take (length u) (username k) = u \<longrightarrow>
       CheckAuthentication hmac u (password k) j = Inr (AUTH_OK, j))"
proof -
  obtain k' n post where s: "stun_Serialize hmac k = Inr (k', n)" "n \<le> 8192"
    "stun_Parse (sp_data k') n = Inr (stun_parsed hmac k post)" "message_integrity (stun_parsed hmac k post) = message_integrity k'"
    using stun_Serialize_Parse [OF assms] by metis
  have "parsed_address = (\<lambda>a. \<lparr>sin_family = AF_INET, sin_port = ntohs (sin_port a), s_addr = s_addr a\<rparr>)"
    by (simp add: parsed_address_def fun_eq_iff)
  then have "stun_class (stun_parsed hmac k post) = stun_class k \<and> stun_method (stun_parsed hmac k post) = stun_method k \<and>
    transaction_id (stun_parsed hmac k post) = transaction_id k \<and> username (stun_parsed hmac k post) = username k \<and>
    priority (stun_parsed hmac k post) = priority k \<and> has_use_candidate (stun_parsed hmac k post) = has_use_candidate k \<and>
    xor_address (stun_parsed hmac k post) =
      map_option (\<lambda>a. \<lparr>sin_family = AF_INET, sin_port = ntohs (sin_port a), s_addr = s_addr a\<rparr>) (xor_address k) \<and>
    has_fingerprint (stun_parsed hmac k post)"
    by (simp add: stun_parsed_def)
  then show ?thesis using s stun_parsed_auth [OF assms, of u] unfolding with_integrity_def by blast
qed

theorem stun_roundtrip_witness:
  "\<exists>k' n j. stun_Serialize (\<lambda>key msg. Inr (replicate 20 9))
      (StunPacket_new\<lparr>stun_class := STUN_SUCCESS_RESPONSE, stun_method := BINDING, transaction_id := Some (replicate 12 7),
        username := [97, 58, 98], priority := 5, password := [112]\<rparr>) = Inr (k', n) \<and>
     stun_Parse (sp_data k') n = Inr j \<and> username j = [97, 58, 98] \<and> priority j = 5 \<and>
     CheckAuthentication (\<lambda>key msg. Inr (replicate 20 9)) [97] [112] j = Inr (AUTH_OK, j)"
proof -
  let ?k = "StunPacket_new\<lparr>stun_class := STUN_SUCCESS_RESPONSE, stun_method := BINDING, transaction_id := Some (replicate 12 7),
        username := [97, 58, 98], priority := 5, password := [112]\<rparr>"
  have r: "stun_ready ?k"
    by (simp add: stun_ready_def StunPacket_new_def StunPacket_on_def STUN_SUCCESS_RESPONSE_def)
  have h: "hmac_up (\<lambda>key msg. Inr (replicate 20 9))" by (simp add: hmac_up_def)
  have f: "username ?k = [97, 58, 98]" "priority ?k = 5" "password ?k = [112]" "stun_class ?k \<noteq> STUN_ERROR_RESPONSE"
    by (simp_all add: STUN_SUCCESS_RESPONSE_def STUN_ERROR_RESPONSE_def)
  show ?thesis using stun_roundtrip [OF r h, of "[97]"] f by (metis (no_types, lifting) length_Cons list.distinct(1) list.size(3) take0 take_Suc_Cons)
qed

end
