(* ===== verification/Ice_Server.thy ===== *)
theory Ice_Server
  imports Stun_Codec
begin

text \<open>
  \<open>IceServer\<close> of \<open>webrtc_room/ice_server.{hpp,cpp}\<close> and the address type \<open>UdpTuple\<close> of \<open>net/udp/udp_pub.hpp\<close>:
  the answer to a connectivity check. The random user fragment and password are arguments of the constructor,
  the datagrams handed to \<open>OnIceWrite\<close> are part of the result, and the 64 bit key of an address, which libuv
  computes (\<open>uv_ip4_addr\<close>), is the parameter \<open>ip4_key\<close>.
\<close>

record udp_tuple =
  ip_address :: bytes
  udp_port :: u16
  addr_u64 :: u64

definition UdpTuple_new :: "(bytes \<Rightarrow> u16 \<Rightarrow> u64) \<Rightarrow> bytes \<Rightarrow> u16 \<Rightarrow> udp_tuple" where
  "UdpTuple_new ip4_key ip udp = \<lparr>ip_address = ip, udp_port = udp, addr_u64 = ip4_key ip udp\<rparr>"

record ice_server =
  ice_ufrag :: bytes
  ice_pwd :: bytes

definition IceServer_new :: "bytes \<Rightarrow> bytes \<Rightarrow> ice_server" where
  "IceServer_new num16 num32 = \<lparr>ice_ufrag = num16, ice_pwd = num32\<rparr>"

definition ice_HandleStunPacket ::
  "(bytes \<Rightarrow> bytes \<Rightarrow> bytes res) \<Rightarrow> sockaddr_in \<Rightarrow> ice_server \<Rightarrow> stun_packet \<Rightarrow> udp_tuple
     \<Rightarrow> (int \<times> stun_packet \<times> (bytes \<times> udp_tuple) list) res" where
  \<comment> \<open>\<open>remote_sock_addr\<close> is the uninitialised local\<close>
  "ice_HandleStunPacket hmac remote_sock_addr ice stun_pkt addr =
     (if stun_method stun_pkt \<noteq> BINDING \<or> stun_class stun_pkt \<noteq> STUN_REQUEST then Inr (-1, stun_pkt, [])
      else if username stun_pkt = [] \<or> priority stun_pkt = 0 \<or> message_integrity stun_pkt = None
      then Inr (-1, stun_pkt, [])
      else rbind (CheckAuthentication hmac (ice_ufrag ice) (ice_pwd ice) stun_pkt) (\<lambda>(ret, stun_pkt).
        if ret \<noteq> AUTH_OK then Inr (-1, stun_pkt, [])
        else if ice_controlled stun_pkt \<noteq> 0 then Inr (-2, stun_pkt, [])
        else
          let resp_pkt = (CreateSuccessResponse stun_pkt)
                \<lparr>password := ice_pwd ice,
                 xor_address := Some (GetIpv4Sockaddr (ip_address addr) (udp_port addr) remote_sock_addr)\<rparr> in
          rbind (stun_Serialize hmac resp_pkt) (\<lambda>(resp_pkt, n).
          rbind (rd (sp_data resp_pkt) 0 (sp_data_len resp_pkt)) (\<lambda>d.
          Inr (0, stun_pkt, [(d, addr)])))))"

definition ice_accepts :: "(bytes \<Rightarrow> bytes \<Rightarrow> bytes res) \<Rightarrow> ice_server \<Rightarrow> bytes \<Rightarrow> stun_packet \<Rightarrow> bool" where
  \<comment> \<open>an authentic Binding request of a controlling peer with all required attributes\<close>
  "ice_accepts hmac ice data k \<longleftrightarrow> stun_method k = BINDING \<and> stun_class k = STUN_REQUEST \<and> username k \<noteq> [] \<and>
     priority k \<noteq> 0 \<and> take (length (ice_ufrag ice)) (username k) = ice_ufrag ice \<and> ice_controlled k = 0 \<and>
     (case message_integrity k of None \<Rightarrow> False
      | Some mi \<Rightarrow> hmac (ice_pwd ice) (stun_signed data mi) = Inr (take 20 (drop mi data)))"

lemma transaction_id_parsed:
  assumes "len \<le> length data" "stun_Parse data len = Inr k"
  shows "\<exists>tid. transaction_id k = Some tid \<and> length tid = 12"
proof -
  obtain s where "IsStun data len = Inr True" "scan_ok data len len s" "k = (scan_pkt s)\<lparr>has_fingerprint := scan_fp s\<rparr>"
    using stun_Parse_InrE [OF assms] by metis
  then show ?thesis using IsStun_total [OF assms(1)] assms(1) by (auto simp: scan_ok_def)
qed

lemma ice_response:
  fixes old :: sockaddr_in
  assumes up: "hmac_up hmac" and t: "transaction_id k = Some tid" "length tid = 12" and m: "stun_method k = BINDING"
    and w: "ice_pwd ice \<noteq> []" and a: "inet_pton (ip_address addr) = Some a"
  defines "resp \<equiv> (CreateSuccessResponse k)\<lparr>password := ice_pwd ice,
      xor_address := Some (GetIpv4Sockaddr (ip_address addr) (udp_port addr) old)\<rparr>"
  shows "\<exists>d j. rbind (stun_Serialize hmac resp) (\<lambda>(r, n). rbind (rd (sp_data r) 0 (sp_data_len r)) (\<lambda>d.
      Inr (0, k, [(d, addr)]))) = Inr (0 :: int, k, [(d, addr)]) \<and>
    stun_Parse d (length d) = Inr j \<and> stun_class j = STUN_SUCCESS_RESPONSE \<and> stun_method j = BINDING \<and>
    transaction_id j = Some tid \<and> has_fingerprint j \<and>
    xor_address j = Some \<lparr>sin_family = AF_INET, sin_port = ntohs (udp_port addr), s_addr = a\<rparr> \<and>
    CheckAuthentication hmac [] (ice_pwd ice) j = Inr (AUTH_OK, j)"
proof -
  have r: "stun_ready resp"
    using t m by (simp add: resp_def stun_ready_def CreateSuccessResponse_def StunPacket_new_def StunPacket_on_def
        STUN_SUCCESS_RESPONSE_def GetIpv4Sockaddr_def)
  have wi: "with_integrity resp" and pw: "password resp = ice_pwd ice"
    using w by (simp_all add: resp_def with_integrity_def CreateSuccessResponse_def STUN_SUCCESS_RESPONSE_def
        STUN_ERROR_RESPONSE_def)
  obtain k' n post where s: "stun_Serialize hmac resp = Inr (k', n)" "sp_data_len k' = n"
    "sp_data k' = enc_stun hmac resp @ post" "length (enc_stun hmac resp) = n"
    using stun_Serialize_Parse [OF r up] by metis
  let ?d = "enc_stun hmac resp" and ?j = "stun_parsed hmac resp []"
  have "stun_Parse ?d (length ?d) = Inr ?j"
    using stun_Parse_enc [OF r up, of "[]"] length_enc_stun(2) [OF r up] by simp
  moreover have "CheckAuthentication hmac [] (ice_pwd ice) ?j = Inr (AUTH_OK, ?j)"
    using stun_parsed_auth [OF r up wi, of "[]"] by (simp add: pw)
  moreover have "stun_class ?j = STUN_SUCCESS_RESPONSE \<and> stun_method ?j = BINDING \<and> transaction_id ?j = Some tid \<and>
    has_fingerprint ?j \<and> xor_address ?j = Some \<lparr>sin_family = AF_INET, sin_port = ntohs (udp_port addr), s_addr = a\<rparr>"
    using t m a by (simp add: stun_parsed_def resp_def CreateSuccessResponse_def parsed_address_def GetIpv4Sockaddr_def)
  ultimately show ?thesis using s by (intro exI [of _ ?d] exI [of _ ?j]) simp
qed

lemma ice_outcome:
  assumes "hmac_up hmac" "len \<le> length data" "stun_Parse data len = Inr k" "ice_pwd ice \<noteq> []"
    and "inet_pton (ip_address addr) = Some a"
  shows "(if ice_accepts hmac ice data k
    then \<exists>d j. ice_HandleStunPacket hmac old ice k addr = Inr (0, k, [(d, addr)]) \<and>
      stun_Parse d (length d) = Inr j \<and> stun_class j = STUN_SUCCESS_RESPONSE \<and> stun_method j = BINDING \<and>
      transaction_id j = transaction_id k \<and> has_fingerprint j \<and>
      xor_address j = Some \<lparr>sin_family = AF_INET, sin_port = ntohs (udp_port addr), s_addr = a\<rparr> \<and>
      CheckAuthentication hmac [] (ice_pwd ice) j = Inr (AUTH_OK, j)
    else \<exists>ret k'. ice_HandleStunPacket hmac old ice k addr = Inr (ret, k', []) \<and> ret \<noteq> 0)"
proof (cases "message_integrity k")
  case None
  then show ?thesis by (simp add: ice_accepts_def ice_HandleStunPacket_def)
next
  case (Some mi)
  obtain tid where t: "transaction_id k = Some tid" "length tid = 12"
    using transaction_id_parsed [OF assms(2,3)] by blast
  obtain mac where mac: "hmac (ice_pwd ice) (stun_signed data mi) = Inr mac"
    using assms(1) unfolding hmac_up_def by blast
  note auth = CheckAuthentication_parsed [OF hmac_up_ok [OF assms(1)] assms(2,3) Some, of "ice_ufrag ice" "ice_pwd ice",
      unfolded mac rbind_simps]
  show ?thesis
  proof (cases "ice_accepts hmac ice data k")
    case True
    then have "ice_HandleStunPacket hmac old ice k addr =
      rbind (stun_Serialize hmac ((CreateSuccessResponse k)\<lparr>password := ice_pwd ice,
      xor_address := Some (GetIpv4Sockaddr (ip_address addr) (udp_port addr) old)\<rparr>))
       (\<lambda>(r, n). rbind (rd (sp_data r) 0 (sp_data_len r)) (\<lambda>d. Inr (0, k, [(d, addr)])))"
      using Some mac by (simp add: ice_accepts_def ice_HandleStunPacket_def auth del: rbind_eq_Inr)
    moreover have "stun_method k = BINDING" using True by (simp add: ice_accepts_def)
    ultimately show ?thesis using True ice_response [OF assms(1) t _ assms(4,5), of old] t by simp
  next
    case False
    then show ?thesis using Some mac by (auto simp: ice_accepts_def ice_HandleStunPacket_def auth)
  qed
qed

text \<open>
  C7. The ICE server answers exactly the authentic Binding requests of a controlling peer: any other parsed datagram
  produces an error code and no datagram. The answer is one datagram to the sender; it parses as a Binding success
  response with a valid fingerprint, carries the request's transaction id and the sender's address, and is
  authenticated by the session's password.
\<close>

theorem ice_answers:
  assumes "hmac_up hmac" "len \<le> length data" "stun_Parse data len = Inr k" "ice_pwd ice \<noteq> []"
    and "inet_pton (ip_address addr) = Some a"
  shows "(if ice_accepts hmac ice data k
    then \<exists>d j. ice_HandleStunPacket hmac old ice k addr = Inr (0, k, [(d, addr)]) \<and>
      stun_Parse d (length d) = Inr j \<and> stun_class j = STUN_SUCCESS_RESPONSE \<and> stun_method j = BINDING \<and>
      transaction_id j = transaction_id k \<and> has_fingerprint j \<and>
      xor_address j = Some \<lparr>sin_family = AF_INET, sin_port = ntohs (udp_port addr), s_addr = a\<rparr> \<and>
      CheckAuthentication hmac [] (ice_pwd ice) j = Inr (AUTH_OK, j)
    else \<exists>ret k'. ice_HandleStunPacket hmac old ice k addr = Inr (ret, k', []) \<and> ret \<noteq> 0)"
  by (rule ice_outcome [OF assms])

theorem ice_answers_witness:
  "\<exists>k d j. stun_Parse ([0, 1, 0, 40] @ magic_cookie @ replicate 12 7 @ [0, 6, 0, 1, 117, 0, 0, 0] @ [0, 0x24, 0, 4, 0, 0, 0, 5]
       @ [0, 8, 0, 20] @ replicate 20 9) 60 = Inr k \<and>
     ice_HandleStunPacket (\<lambda>key msg. Inr (replicate 20 9)) \<lparr>sin_family = 0, sin_port = 0, s_addr = 0\<rparr> (IceServer_new [117] [112])
       k \<lparr>ip_address = inet_ntop 0x0100007F, udp_port = 5000, addr_u64 = 0\<rparr>
       = Inr (0, k, [(d, \<lparr>ip_address = inet_ntop 0x0100007F, udp_port = 5000, addr_u64 = 0\<rparr>)]) \<and>
     stun_Parse d (length d) = Inr j \<and> stun_class j = STUN_SUCCESS_RESPONSE"
proof -
  let ?d = "[0, 1, 0, 40] @ magic_cookie @ replicate 12 7 @ [0, 6, 0, 1, 117, 0, 0, 0] @ [0, 0x24, 0, 4, 0, 0, 0, 5]
       @ [0, 8, 0, 20] @ replicate 20 9 :: bytes"
  let ?h = "\<lambda>key msg. Inr (replicate 20 9) :: bytes res" and ?i = "IceServer_new [117] [112]"
  let ?a = "\<lparr>ip_address = inet_ntop 0x0100007F, udp_port = 5000, addr_u64 = 0\<rparr>"
  have "(case stun_Parse ?d 60 of Inl e \<Rightarrow> False | Inr k \<Rightarrow> ice_accepts ?h ?i ?d k)" by code_simp
  then obtain k where k: "stun_Parse ?d 60 = Inr k" "ice_accepts ?h ?i ?d k" by (auto split: sum.splits)
  have h: "hmac_up ?h" by (simp add: hmac_up_def)
  have l: "60 \<le> length ?d" by (simp add: magic_cookie_def)
  have "ice_pwd ?i \<noteq> []" "inet_pton (ip_address ?a) = Some 0x0100007F" by (simp_all add: IceServer_new_def)
  from ice_answers [OF h l k(1) this, of "\<lparr>sin_family = 0, sin_port = 0, s_addr = 0\<rparr>"] k show ?thesis by auto
qed

end
