(* ===== verification/Rtcp_Walk.thy ===== *)
theory Rtcp_Walk
  imports Rtp_Pub
begin

text \<open>
  The loop over the items of a compound RTCP datagram. \<open>RtcSendRelay\<close>, \<open>RtcRecvRelay\<close> and \<open>WebRtcSession\<close> contain the
  same loop with a different \<open>switch\<close> in its body; here the body is an argument. A body gets the memory from the current item on,
  the length the item's header states, and the state; it returns an error or nothing, what it sends, and the new state.
  The loop ends because an item is at least four bytes long. The locale \<open>rtcp_body\<close> states what a body keeps, and
  its lemma carries that over to the loop.
\<close>

type_synonym ('s, 'o) rtcp_switch = "bytes \<Rightarrow> nat \<Rightarrow> 's \<Rightarrow> unit res \<times> 'o list \<times> 's"

lemma rtcp_item_shrinks: "0 < left_len \<Longrightarrow> nat (left_len - int (GetRtcpLength p)) < nat left_len"
proof -
  have "0 < GetRtcpLength p" by (simp add: GetRtcpLength_def)
  moreover assume "0 < left_len"
  ultimately show ?thesis by linarith
qed

function rtcp_walk :: "('s, 'o) rtcp_switch \<Rightarrow> bytes \<Rightarrow> int \<Rightarrow> 's \<Rightarrow> unit res \<times> 'o list \<times> 's" where
  \<comment> \<open>\<open>p\<close> is the memory from the current item on; the header is read without looking at \<open>left_len\<close>\<close>
  "rtcp_walk item p left_len s =
     (if 0 < left_len then
        if length p < 4 then (Inl OutOfBounds, [], s)
        else (case item p (GetRtcpLength p) s of
          (Inl e, outs, s1) \<Rightarrow> (Inl e, outs, s1)
        | (Inr _, outs, s1) \<Rightarrow>
            (let (ret, outs', s2) = rtcp_walk item (drop (GetRtcpLength p) p) (left_len - int (GetRtcpLength p)) s1
             in (ret, outs @ outs', s2)))
      else (Inr (), [], s))"
  by pat_completeness auto
termination
  by (relation "measure (\<lambda>(item, p, left_len, s). nat left_len)") (auto simp only: in_measure case_prod_conv rtcp_item_shrinks)

declare rtcp_walk.simps [simp del]

section \<open>Well-formed compounds\<close>

definition rtcp_item_ok :: "bytes \<Rightarrow> bool" where
  \<comment> \<open>an item whose header states its length\<close>
  "rtcp_item_ok b \<longleftrightarrow> 4 \<le> length b \<and> GetRtcpLength b = length b"

fun run_items :: "('s, 'o) rtcp_switch \<Rightarrow> bytes list \<Rightarrow> bytes \<Rightarrow> 's \<Rightarrow> unit res \<times> 'o list \<times> 's" where
  \<comment> \<open>the body on each item in turn; it sees the rest of the memory behind its item\<close>
  "run_items item [] rest s = (Inr (), [], s)"
| "run_items item (b # bs) rest s =
     (case item (b @ concat bs @ rest) (length b) s of
        (Inl e, outs, s1) \<Rightarrow> (Inl e, outs, s1)
      | (Inr _, outs, s1) \<Rightarrow> (let (ret, outs', s2) = run_items item bs rest s1 in (ret, outs @ outs', s2)))"

lemma GetRtcpLength_append: "4 \<le> length b \<Longrightarrow> GetRtcpLength (b @ c) = GetRtcpLength b"
  by (simp add: GetRtcpLength_def rtcp_length_def)

lemma rtcp_walk_items:
  assumes "\<forall>b \<in> set bs. rtcp_item_ok b"
  shows "rtcp_walk item (concat bs @ rest) (int (length (concat bs))) s = run_items item bs rest s"
  using assms
proof (induction bs arbitrary: s)
  case Nil
  show ?case by (simp add: rtcp_walk.simps)
next
  case (Cons b bs)
  let ?p = "b @ concat bs @ rest"
  have b: "4 \<le> length b" "GetRtcpLength ?p = length b"
    using Cons.prems by (simp_all add: rtcp_item_ok_def GetRtcpLength_append)
  have "rtcp_walk item (drop (length b) ?p) (int (length (b @ concat bs)) - int (length b)) s' = run_items item bs rest s'" for s'
    using Cons by simp
  then show ?case using b by (subst rtcp_walk.simps) (simp split: prod.split sum.split)
qed

section \<open>What the loop keeps\<close>

locale rtcp_body =
  fixes item :: "bytes \<Rightarrow> nat \<Rightarrow> 's \<Rightarrow> unit res \<times> 'o list \<times> 's"
    and keeps :: "'s \<Rightarrow> 's \<Rightarrow> bool"
  assumes keeps_refl: "keeps s s"
    and keeps_trans: "keeps s t \<Longrightarrow> keeps t u \<Longrightarrow> keeps s u"
    and item_keeps: "item p n s = (ret, outs, s') \<Longrightarrow> keeps s s'"
begin

lemma walk_keeps: "rtcp_walk item p l s = (ret, outs, s') \<Longrightarrow> keeps s s'"
proof (induction "nat l" arbitrary: p l s ret outs s' rule: less_induct)
  case less
  let ?n = "GetRtcpLength p"
  obtain b o1 s1 where i: "item p ?n s = (b, o1, s1)" by (cases "item p ?n s")
  obtain c o2 s2 where w: "rtcp_walk item (drop ?n p) (l - int ?n) s1 = (c, o2, s2)"
    by (cases "rtcp_walk item (drop ?n p) (l - int ?n) s1")
  have "keeps s1 s2" if "0 < l" by (rule less.hyps [OF rtcp_item_shrinks [OF that] w])
  moreover have "s' = s \<or> s' = s1 \<or> 0 < l \<and> s' = s2"
    using less.prems i w by (subst (asm) rtcp_walk.simps) (auto split: if_splits sum.splits)
  ultimately show ?case using keeps_refl item_keeps [OF i] keeps_trans by blast
qed

end

locale rtcp_emitter = rtcp_body item keeps
  for item :: "bytes \<Rightarrow> nat \<Rightarrow> 's \<Rightarrow> unit res \<times> 'o list \<times> 's" and keeps :: "'s \<Rightarrow> 's \<Rightarrow> bool" +
  fixes emits :: "'s \<Rightarrow> 'o \<Rightarrow> bool"
  assumes emits_keeps: "keeps s s' \<Longrightarrow> emits s' x \<Longrightarrow> emits s x"
    and item_emits: "item p n s = (ret, outs, s') \<Longrightarrow> x \<in> set outs \<Longrightarrow> emits s x"
begin

lemma walk_emits: "rtcp_walk item p l s = (ret, outs, s') \<Longrightarrow> x \<in> set outs \<Longrightarrow> emits s x"
proof (induction "nat l" arbitrary: p l s ret outs s' rule: less_induct)
  case less
  let ?n = "GetRtcpLength p"
  obtain b o1 s1 where i: "item p ?n s = (b, o1, s1)" by (cases "item p ?n s")
  obtain c o2 s2 where w: "rtcp_walk item (drop ?n p) (l - int ?n) s1 = (c, o2, s2)"
    by (cases "rtcp_walk item (drop ?n p) (l - int ?n) s1")
  have "emits s1 x" if "0 < l" "x \<in> set o2" by (rule less.hyps [OF rtcp_item_shrinks [OF that(1)] w that(2)])
  moreover have "x \<in> set o1 \<or> 0 < l \<and> x \<in> set o2"
    using less.prems i w by (subst (asm) rtcp_walk.simps) (auto split: if_splits sum.splits)
  ultimately show ?case using item_emits [OF i] emits_keeps [OF item_keeps [OF i]] by blast
qed

end

end
