(* ===== verification/Rtc_Send_Relay.thy ===== *)
theory Rtc_Send_Relay
  imports Rtp_Send Ice_Server Rtcp_Walk "HOL-Library.List_Lexorder"
begin

text \<open>
  \<open>RtcSendRelay\<close> of \<open>webrtc_room/rtc_send_relay.{hpp,cpp}\<close>: it forwards the media of a local user to another SFU
  of the cluster over plain UDP and answers the RTCP that comes back. The send sessions are shared between the map
  from media source ids and the map from retransmission source ids, so they live in a list and the maps hold
  positions. Datagrams and key frame requests are returned in order. The clock, the random numbers of the loss
  simulation (\<open>sr_draws\<close> counts the packets that were offered, each has its own), and whether the event log is enabled are arguments; \<open>data\<close> is the receive buffer, of which the first
  \<open>data_size\<close> bytes were received.
\<close>

section \<open>State\<close>

record push_info =
  pi_pusher_id :: bytes
  pi_param :: RtpSessionParam

datatype relay_out = RelayUdp bytes udp_tuple | OnKeyFrameRequest bytes bytes bytes u32

record send_relay =
  sr_pusher_user_id :: bytes
  sr_remote :: udp_tuple
  sr_media_event_cb :: bool
  sr_push_infos :: "(bytes, push_info) omap"
  sr_sessions :: "rtp_send_session list"
  sr_ssrc2send_session :: "(u32, nat) omap"
  sr_rtx_ssrc2send_session :: "(u32, nat) omap"
  sr_last_alive_ms :: int
  sr_send_discard_percent :: u32
  sr_last_statics_ms :: int
  sr_draws :: nat

definition RtcSendRelay_new :: "bytes \<Rightarrow> udp_tuple \<Rightarrow> bool \<Rightarrow> u32 \<Rightarrow> int \<Rightarrow> send_relay" where
  "RtcSendRelay_new pusher_user_id remote cb percent now_ms =
     \<lparr>sr_pusher_user_id = pusher_user_id, sr_remote = remote, sr_media_event_cb = cb, sr_push_infos = [],
      sr_sessions = [], sr_ssrc2send_session = [], sr_rtx_ssrc2send_session = [], sr_last_alive_ms = now_ms,
      sr_send_discard_percent = percent, sr_last_statics_ms = 0, sr_draws = 0\<rparr>"

definition emplace :: "'k::linorder \<Rightarrow> 'v \<Rightarrow> ('k, 'v) omap \<Rightarrow> ('k, 'v) omap" where
  \<comment> \<open>\<open>std::map::emplace\<close> keeps an entry that is already there\<close>
  "emplace k v m = (if om_find m k = None then om_insert k v m else m)"

definition AddPushInfo :: "push_info \<Rightarrow> send_relay \<Rightarrow> send_relay" where
  "AddPushInfo info r =
     (let n = length (sr_sessions r);
          r1 = r\<lparr>sr_push_infos := emplace (pi_pusher_id info) info (sr_push_infos r),
                 sr_sessions := sr_sessions r @ [RtpSendSession_new (pi_param info) True],
                 sr_ssrc2send_session := emplace (p_ssrc (pi_param info)) n (sr_ssrc2send_session r)\<rparr>
      in if p_rtx_ssrc (pi_param info) \<noteq> 0
         then r1\<lparr>sr_rtx_ssrc2send_session := emplace (p_rtx_ssrc (pi_param info)) n (sr_rtx_ssrc2send_session r1)\<rparr>
         else r1)"

section \<open>Sending\<close>

definition DiscardPacketByPercent :: "u32 \<Rightarrow> u32 \<Rightarrow> bool" where
  \<comment> \<open>the second argument is the random number, between 0 and 100\<close>
  "DiscardPacketByPercent percent rand_val \<longleftrightarrow> percent > 0 \<and> rand_val \<le> percent"

definition relay_OnTransportSendRtp :: "int \<Rightarrow> (nat \<Rightarrow> u32) \<Rightarrow> bytes \<Rightarrow> send_relay \<Rightarrow> relay_out list \<times> send_relay" where
  "relay_OnTransportSendRtp now_ms rand data r =
     (let r1 = r\<lparr>sr_draws := sr_draws r + 1\<rparr> in
      if DiscardPacketByPercent (sr_send_discard_percent r) (rand (sr_draws r)) then ([], r1)
      else ([RelayUdp data (sr_remote r)], r1\<lparr>sr_last_alive_ms := now_ms\<rparr>))"

definition relay_OnTransportSendRtcp :: "bytes \<Rightarrow> send_relay \<Rightarrow> relay_out list" where
  "relay_OnTransportSendRtcp data r = [RelayUdp data (sr_remote r)]"

definition relay_IsConnected :: "send_relay \<Rightarrow> bool" where
  "relay_IsConnected r \<longleftrightarrow> ip_address (sr_remote r) \<noteq> [] \<and> udp_port (sr_remote r) \<noteq> 0"

definition relay_find :: "u32 \<Rightarrow> send_relay \<Rightarrow> nat option" where
  "relay_find ssrc r =
     (case om_find (sr_ssrc2send_session r) ssrc of
        Some i \<Rightarrow> Some i
      | None \<Rightarrow> om_find (sr_rtx_ssrc2send_session r) ssrc)"

definition relay_SendRtpPacket ::
    "int \<Rightarrow> bytes \<Rightarrow> (nat \<Rightarrow> u32) \<Rightarrow> rtp_packet \<Rightarrow> send_relay \<Rightarrow> unit res \<times> relay_out list \<times> send_relay" where
  "relay_SendRtpPacket now_ms mem rand rtp_packet r =
     (case relay_find (GetSsrc rtp_packet) r of
        None \<Rightarrow> (Inr (), [], r)
      | Some i \<Rightarrow>
          (case SendRtpPacket now_ms mem rtp_packet (sr_sessions r ! i) of
             (ret, s') \<Rightarrow>
               let r1 = r\<lparr>sr_sessions := (sr_sessions r)[i := s']\<rparr> in
               (case ret of
                  Inl Throw \<Rightarrow> (Inr (), [], r1)
                | Inl e \<Rightarrow> (Inl e, [], r1)
                | Inr False \<Rightarrow> (Inr (), [], r1)
                | Inr True \<Rightarrow>
                    (let (outs, r2) = relay_OnTransportSendRtp now_ms rand (GetData rtp_packet) r1
                     in (Inr (), outs, r2)))))"

section \<open>Timer\<close>

definition relay_statics :: "int \<Rightarrow> bool \<Rightarrow> nat \<Rightarrow> send_relay \<Rightarrow> send_relay" where
  \<comment> \<open>the statistics of the session at \<open>i\<close>, whose interval is shared by all sessions\<close>
  "relay_statics now_ms log i r =
     (let r1 = (if sr_last_statics_ms r < 0 then r\<lparr>sr_last_statics_ms := now_ms\<rparr> else r);
          s1 = sr_sessions r ! i in
      if now_ms - sr_last_statics_ms r1 > 5000
      then r1\<lparr>sr_last_statics_ms := now_ms,
              sr_sessions := (if log then (sr_sessions r)
                [i := s1\<lparr>send_statics := snd (snd (BytesPerSecond now_ms (send_statics s1)))\<rparr>] else sr_sessions r)\<rparr>
      else r1)"

fun relay_timer :: "int \<Rightarrow> bool \<Rightarrow> (u32 \<times> nat) list \<Rightarrow> send_relay \<Rightarrow> relay_out list \<times> send_relay" where
  \<comment> \<open>the loop over the send sessions\<close>
  "relay_timer now_ms log [] r = ([], r)"
| "relay_timer now_ms log ((ssrc, i) # m) r =
     (let (out, s1) = send_OnTimer now_ms (sr_sessions r ! i);
          (outs, r') = relay_timer now_ms log m
             (relay_statics now_ms log i (r\<lparr>sr_sessions := (sr_sessions r)[i := s1]\<rparr>))
      in ((case out of None \<Rightarrow> [] | Some d \<Rightarrow> relay_OnTransportSendRtcp d r) @ outs, r'))"

definition relay_OnTimer :: "int \<Rightarrow> bool \<Rightarrow> send_relay \<Rightarrow> relay_out list \<times> send_relay" where
  "relay_OnTimer now_ms log r = relay_timer now_ms log (sr_ssrc2send_session r) r"

definition relay_IsAlive :: "int \<Rightarrow> send_relay \<Rightarrow> bool" where
  "relay_IsAlive now_ms r \<longleftrightarrow> now_ms - sr_last_alive_ms r \<le> 40 * 1000"

section \<open>Incoming RTCP\<close>

fun relay_send_all :: "int \<Rightarrow> (nat \<Rightarrow> u32) \<Rightarrow> bytes list \<Rightarrow> send_relay \<Rightarrow> relay_out list \<times> send_relay" where
  \<comment> \<open>the retransmissions, handed to the relay one by one by the send session\<close>
  "relay_send_all now_ms rand [] r = ([], r)"
| "relay_send_all now_ms rand (d # ds) r =
     (let (o1, r1) = relay_OnTransportSendRtp now_ms rand d r;
          (o2, r2) = relay_send_all now_ms rand ds r1 in (o1 @ o2, r2))"

definition relay_HandleRtcpRtpfbPacket ::
    "int \<Rightarrow> bytes \<Rightarrow> (nat \<Rightarrow> u32) \<Rightarrow> bytes \<Rightarrow> nat \<Rightarrow> send_relay \<Rightarrow> unit res \<times> relay_out list \<times> send_relay" where
  "relay_HandleRtcpRtpfbPacket now_ms mem rand data len r =
     (if len \<le> 4 then (Inr (), [], r)
      else if rtcp_count data \<noteq> FB_RTP_NACK then (Inr (), [], r)
      else (case Nack_Parse mem data len of
        Inl Throw \<Rightarrow> (Inr (), [], r)
      | Inl e \<Rightarrow> (Inl e, [], r)
      | Inr None \<Rightarrow> (Inr (), [], r)
      | Inr (Some nack_pkt) \<Rightarrow>
          (case om_find (sr_ssrc2send_session r) (Nack_GetMediaSsrc nack_pkt) of
             None \<Rightarrow> (Inr (), [], r)
           | Some i \<Rightarrow>
               (case RecvRtcpFbNack nack_pkt (sr_sessions r ! i) of
                  Inl e \<Rightarrow> (Inl e, [], r)
                | Inr (ret, ds, s') \<Rightarrow>
                    (let (outs, r1) = relay_send_all now_ms rand ds (r\<lparr>sr_sessions := (sr_sessions r)[i := s']\<rparr>)
                     in (Inr (), outs, r1))))))"

fun relay_rr_blocks :: "int \<Rightarrow> bytes list \<Rightarrow> send_relay \<Rightarrow> send_relay" where
  \<comment> \<open>an unknown source id ends the loop\<close>
  "relay_rr_blocks now_ms [] r = r"
| "relay_rr_blocks now_ms (rr_block # bs) r =
     (case om_find (sr_ssrc2send_session r) (Rr_GetReporteeSsrc rr_block) of
        None \<Rightarrow> r
      | Some i \<Rightarrow> relay_rr_blocks now_ms bs
          (r\<lparr>sr_sessions := (sr_sessions r)[i := snd (RecvRtcpRrBlock now_ms rr_block (sr_sessions r ! i))]\<rparr>))"

definition relay_HandleRtcpRrPacket :: "int \<Rightarrow> bytes \<Rightarrow> nat \<Rightarrow> send_relay \<Rightarrow> unit res \<times> relay_out list \<times> send_relay" where
  "relay_HandleRtcpRrPacket now_ms data len r =
     (case rbind (Rr_Parse data len) GetRrBlocks of
        Inl Throw \<Rightarrow> (Inr (), [], r)
      | Inl e \<Rightarrow> (Inl e, [], r)
      | Inr blocks \<Rightarrow> (Inr (), [], relay_rr_blocks now_ms blocks r))"

fun find_pusher :: "u32 \<Rightarrow> (bytes \<times> push_info) list \<Rightarrow> bytes" where
  "find_pusher ssrc [] = []"
| "find_pusher ssrc ((k, info) # m) = (if p_ssrc (pi_param info) = ssrc then pi_pusher_id info else find_pusher ssrc m)"

definition relay_HandleRtcpPsfbPacket :: "bytes \<Rightarrow> nat \<Rightarrow> send_relay \<Rightarrow> unit res \<times> relay_out list \<times> send_relay" where
  \<comment> \<open>\<open>"remote_user_id"\<close> is spelled out; the missing \<open>break\<close> after the first case only reaches a log call\<close>
  "relay_HandleRtcpPsfbPacket data len r =
     (if len \<le> 4 then (Inr (), [], r)
      else if rtcp_count data \<noteq> FB_PS_PLI then (Inr (), [], r)
      else (case Pli_Parse data len of
        Inl Throw \<Rightarrow> (Inr (), [], r)
      | Inl e \<Rightarrow> (Inl e, [], r)
      | Inr None \<Rightarrow> (Inr (), [], r)
      | Inr (Some pli) \<Rightarrow>
          let ssrc = Pli_GetMediaSsrc pli; pusher_id = find_pusher ssrc (sr_push_infos r) in
          if pusher_id = [] \<or> \<not> sr_media_event_cb r then (Inr (), [], r)
          else (Inr (), [OnKeyFrameRequest pusher_id (map (of_nat \<circ> of_char) ''remote_user_id'') (sr_pusher_user_id r) ssrc], r)))"

definition relay_item ::
    "int \<Rightarrow> bytes \<Rightarrow> (nat \<Rightarrow> u32) \<Rightarrow> bytes \<Rightarrow> nat \<Rightarrow> send_relay \<Rightarrow> unit res \<times> relay_out list \<times> send_relay" where
  \<comment> \<open>the \<open>switch\<close> on the packet type\<close>
  "relay_item now_ms mem rand p item_total r =
     (if rtcp_packet_type p = rtcp_type_code RTCP_RR then relay_HandleRtcpRrPacket now_ms p item_total r
      else if rtcp_packet_type p = rtcp_type_code RTCP_PSFB then relay_HandleRtcpPsfbPacket p item_total r
      else if rtcp_packet_type p = rtcp_type_code RTCP_RTPFB then relay_HandleRtcpRtpfbPacket now_ms mem rand p item_total r
      else (Inr (), [], r))"

definition relay_HandleRtcpPacket ::
    "int \<Rightarrow> bytes \<Rightarrow> (nat \<Rightarrow> u32) \<Rightarrow> bytes \<Rightarrow> nat \<Rightarrow> send_relay \<Rightarrow> unit res \<times> relay_out list \<times> send_relay" where
  "relay_HandleRtcpPacket now_ms mem rand data data_size r = rtcp_walk (relay_item now_ms mem rand) data (int data_size) r"

definition relay_OnRead ::
    "int \<Rightarrow> bytes \<Rightarrow> (nat \<Rightarrow> u32) \<Rightarrow> bytes \<Rightarrow> nat \<Rightarrow> send_relay \<Rightarrow> unit res \<times> relay_out list \<times> send_relay" where
  "relay_OnRead now_ms mem rand data data_size r =
     (if data_size = 0 then (Inr (), [], r)
      else (case IsRtcp data data_size of
        Inl e \<Rightarrow> (Inl e, [], r)
      | Inr True \<Rightarrow> relay_HandleRtcpPacket now_ms mem rand data data_size r
      | Inr False \<Rightarrow> (Inr (), [], r)))"

section \<open>Invariant\<close>

definition relay_ok :: "send_relay \<Rightarrow> bool" where
  \<comment> \<open>every source id leads to a session that was created for it\<close>
  "relay_ok r \<longleftrightarrow>
     (\<forall>(ssrc, i) \<in> set (sr_ssrc2send_session r). i < length (sr_sessions r) \<and> p_ssrc (param (sr_sessions r ! i)) = ssrc) \<and>
     (\<forall>(ssrc, i) \<in> set (sr_rtx_ssrc2send_session r). i < length (sr_sessions r) \<and>
        p_rtx_ssrc (param (sr_sessions r ! i)) = ssrc \<and> ssrc \<noteq> 0)"

lemma relay_okD:
  assumes "relay_ok r"
  shows "(ssrc, i) \<in> set (sr_ssrc2send_session r) \<Longrightarrow>
      i < length (sr_sessions r) \<and> p_ssrc (param (sr_sessions r ! i)) = ssrc"
    and "(ssrc, i) \<in> set (sr_rtx_ssrc2send_session r) \<Longrightarrow>
      i < length (sr_sessions r) \<and> p_rtx_ssrc (param (sr_sessions r ! i)) = ssrc \<and> ssrc \<noteq> 0"
  using assms unfolding relay_ok_def by blast+

definition same_params :: "send_relay \<Rightarrow> send_relay \<Rightarrow> bool" where
  \<comment> \<open>the same maps, peer and user, and sessions with the same parameters in the same places\<close>
  "same_params r r' \<longleftrightarrow> sr_ssrc2send_session r' = sr_ssrc2send_session r \<and>
     sr_rtx_ssrc2send_session r' = sr_rtx_ssrc2send_session r \<and> map param (sr_sessions r') = map param (sr_sessions r) \<and>
     sr_remote r' = sr_remote r \<and> sr_media_event_cb r' = sr_media_event_cb r \<and> sr_push_infos r' = sr_push_infos r \<and>
     sr_pusher_user_id r' = sr_pusher_user_id r"

lemma same_params_refl [simp]: "same_params r r"
  by (simp add: same_params_def)

lemma same_params_trans: "same_params a b \<Longrightarrow> same_params b c \<Longrightarrow> same_params a c"
  by (simp add: same_params_def)

lemma same_params_ok:
  assumes "same_params r r'" "relay_ok r"
  shows "relay_ok r'"
proof -
  have m: "map param (sr_sessions r') = map param (sr_sessions r)"
    and k: "sr_ssrc2send_session r' = sr_ssrc2send_session r" "sr_rtx_ssrc2send_session r' = sr_rtx_ssrc2send_session r"
    using assms(1) by (simp_all add: same_params_def)
  have l: "length (sr_sessions r') = length (sr_sessions r)" by (rule map_eq_imp_length_eq [OF m])
  have "param (sr_sessions r' ! i) = param (sr_sessions r ! i)" if "i < length (sr_sessions r)" for i
    using that l m nth_map [of i "sr_sessions r" param] nth_map [of i "sr_sessions r'" param] by simp
  then show ?thesis using assms(2) l k by (auto simp only: relay_ok_def split: prod.splits)
qed

lemma same_params_update:
  assumes "param s = param (sr_sessions r ! i)"
  shows "same_params r (r\<lparr>sr_sessions := (sr_sessions r)[i := s]\<rparr>)"
proof -
  have "map param ((sr_sessions r)[i := s]) = map param (sr_sessions r)"
    using assms by (metis list_update_id map_update)
  then show ?thesis by (simp add: same_params_def)
qed

lemma send_session_params:
  "SendRtpPacket now_ms mem pkt s = (ret, s') \<Longrightarrow> param s' = param s"
  "param (snd (send_OnTimer now_ms s)) = param s"
  "param (snd (RecvRtcpRrBlock now_ms blk s)) = param s"
proof -
  assume a: "SendRtpPacket now_ms mem pkt s = (ret, s')"
  have st: "param (snd (send_store now_ms mem pkt t)) = param t" for t
    by (auto simp: send_store_def StoreRtxPacket_def Let_def split: sum.split if_splits)
  obtain ok t where t: "UpdateSeq pkt (s\<lparr>last_seq := GetSeq pkt\<rparr>) = (ok, t)" by (cases "UpdateSeq pkt (s\<lparr>last_seq := GetSeq pkt\<rparr>)")
  have "param s' = param (snd (SendRtpPacket now_ms mem pkt s))" using a by simp
  then show "param s' = param s" using UpdateSeq_cache(2) [OF t]
    by (auto simp: SendRtpPacket_def Let_def st t InitSeq_def split: bool.split)
qed (simp_all add: send_OnTimer_def OnSendRtcpSr_def RecvRtcpRrBlock_def Let_def)

lemma nack_retransmit_params: "nack_retransmit qs s = (outs, s', e) \<Longrightarrow> param s' = param s"
proof (induction qs arbitrary: s outs s' e)
  case (Cons q qs)
  have r: "param s1 = param s" if "RetransmitRtxPackets i p s = (o1, s1, e1)" for i p s o1 s1 e1
    using that by (auto simp: RetransmitRtxPackets_def Let_def split: if_splits sum.splits)
  from Cons.prems show ?case
    by (auto simp: Let_def split: option.splits if_splits prod.splits dest!: r Cons.IH)
qed simp

lemma RecvRtcpFbNack_params: "RecvRtcpFbNack n s = Inr (ret, outs, s') \<Longrightarrow> param s' = param s"
  by (auto simp: RecvRtcpFbNack_def split: sum.splits prod.splits option.splits cpp_error.splits dest: nack_retransmit_params)

lemma relay_send_params:
  "relay_OnTransportSendRtp now_ms rv d r = (outs, r') \<Longrightarrow> same_params r r'"
  "relay_send_all now_ms rv ds r = (outs, r') \<Longrightarrow> same_params r r'"
proof -
  show one: "same_params r r'" if "relay_OnTransportSendRtp now_ms rv d r = (outs, r')" for d r outs r'
    using that by (auto simp: relay_OnTransportSendRtp_def same_params_def Let_def split: if_splits)
  show "relay_send_all now_ms rv ds r = (outs, r') \<Longrightarrow> same_params r r'"
    by (induction ds arbitrary: r outs r') (auto split: prod.splits dest!: one intro: same_params_trans)
qed

lemma relay_SendRtpPacket_params:
  assumes "relay_SendRtpPacket now_ms mem rv pkt r = (ret, outs, r')"
  shows "same_params r r'"
proof (cases "relay_find (GetSsrc pkt) r")
  case None
  then show ?thesis using assms by (simp add: relay_SendRtpPacket_def)
next
  case (Some i)
  obtain b s' where s: "SendRtpPacket now_ms mem pkt (sr_sessions r ! i) = (b, s')"
    by (cases "SendRtpPacket now_ms mem pkt (sr_sessions r ! i)")
  have u: "same_params r (r\<lparr>sr_sessions := (sr_sessions r)[i := s']\<rparr>)"
    by (rule same_params_update) (rule send_session_params(1) [OF s])
  show ?thesis using assms Some s u
    by (auto simp: relay_SendRtpPacket_def Let_def split: sum.splits cpp_error.splits bool.splits prod.splits
        dest!: relay_send_params(1) intro: same_params_trans)
qed

lemma relay_statics_params: "same_params r (relay_statics now_ms lg i r)"
proof -
  have "same_params r (r\<lparr>sr_sessions := (sr_sessions r)[i := (sr_sessions r ! i)\<lparr>send_statics := x\<rparr>]\<rparr>)" for x
    by (rule same_params_update) simp
  then show ?thesis by (simp add: relay_statics_def Let_def same_params_def)
qed

lemma relay_timer_params: "relay_timer now_ms lg m r = (outs, r') \<Longrightarrow> same_params r r'"
proof (induction m arbitrary: r outs r')
  case (Cons a m)
  obtain ssrc i where a: "a = (ssrc, i)" by (cases a)
  obtain o1 s1 where s: "send_OnTimer now_ms (sr_sessions r ! i) = (o1, s1)" by (cases "send_OnTimer now_ms (sr_sessions r ! i)")
  have p: "param s1 = param (sr_sessions r ! i)" using send_session_params(2) [of now_ms "sr_sessions r ! i"] s by simp
  let ?r = "relay_statics now_ms lg i (r\<lparr>sr_sessions := (sr_sessions r)[i := s1]\<rparr>)"
  obtain o2 where t: "relay_timer now_ms lg m ?r = (o2, r')"
    using Cons.prems a s by (auto split: prod.splits)
  show ?case
    using same_params_update [OF p] relay_statics_params Cons.IH [OF t] by (blast intro: same_params_trans)
qed simp

lemma relay_item_params:
  assumes "relay_item now_ms mem rv p n r = (ret, outs, r')"
  shows "same_params r r'"
proof -
  have rr: "same_params r (relay_rr_blocks now_ms bs r)" for bs r
  proof (induction bs arbitrary: r)
    case (Cons b bs)
    show ?case
    proof (cases "om_find (sr_ssrc2send_session r) (Rr_GetReporteeSsrc b)")
      case (Some i)
      then show ?thesis
        using same_params_trans [OF same_params_update [OF send_session_params(3)] Cons.IH] by simp
    qed simp
  qed simp
  have fb: "same_params r r'"
    if "relay_HandleRtcpRtpfbPacket now_ms mem rv p n r = (ret, outs, r')"
    using that
    by (auto simp: relay_HandleRtcpRtpfbPacket_def split: if_splits sum.splits cpp_error.splits option.splits prod.splits
        dest!: relay_send_params(2) dest: same_params_trans [OF same_params_update [OF RecvRtcpFbNack_params]])
  show ?thesis using assms rr fb
    by (auto simp: relay_item_def relay_HandleRtcpRrPacket_def relay_HandleRtcpPsfbPacket_def Let_def
        split: if_splits sum.splits cpp_error.splits option.splits)
qed

definition relay_emits :: "send_relay \<Rightarrow> relay_out \<Rightarrow> bool" where
  \<comment> \<open>datagrams go to the peer only, key frame requests name the user of this relay\<close>
  "relay_emits r x = (case x of RelayUdp d a \<Rightarrow> a = sr_remote r | OnKeyFrameRequest pusher_id puller_id user_id ssrc \<Rightarrow>
     sr_media_event_cb r \<and> user_id = sr_pusher_user_id r \<and> pusher_id = find_pusher ssrc (sr_push_infos r))"

lemma relay_send_all_emits: "relay_send_all now_ms rand ds r = (outs, r') \<Longrightarrow> x \<in> set outs \<Longrightarrow> \<exists>d. x = RelayUdp d (sr_remote r)"
  by (induction ds arbitrary: r outs r') (fastforce simp: relay_OnTransportSendRtp_def Let_def split: prod.splits if_splits)+

lemma relay_item_emits: "relay_item now_ms mem rand p n r = (ret, outs, r') \<Longrightarrow> x \<in> set outs \<Longrightarrow> relay_emits r x"
  by (auto simp: relay_item_def relay_HandleRtcpRrPacket_def relay_HandleRtcpPsfbPacket_def relay_HandleRtcpRtpfbPacket_def relay_emits_def Let_def
      split: if_splits sum.splits cpp_error.splits option.splits prod.splits dest!: relay_send_all_emits)

interpretation send_relay_rtcp: rtcp_emitter "relay_item now_ms mem rand" same_params relay_emits for now_ms mem rand
  by unfold_locales (auto dest: relay_item_params relay_item_emits intro: same_params_trans
      simp: relay_emits_def same_params_def split: relay_out.splits)

lemma relay_OnRead_params: "relay_OnRead now_ms mem rand data n r = (ret, outs, r') \<Longrightarrow> same_params r r'"
  by (auto simp: relay_OnRead_def relay_HandleRtcpPacket_def split: if_splits sum.splits bool.splits
      dest: send_relay_rtcp.walk_keeps)

lemma set_emplace: "set (emplace k v m) \<subseteq> insert (k, v) (set m)"
  by (simp add: emplace_def set_om_insert_subset subset_insertI)

lemma AddPushInfo_ok:
  assumes "relay_ok r"
  shows "relay_ok (AddPushInfo info r)"
proof -
  let ?r = "AddPushInfo info r" and ?n = "length (sr_sessions r)" and ?p = "pi_param info"
  have s: "sr_sessions ?r = sr_sessions r @ [RtpSendSession_new ?p True]"
    by (simp add: AddPushInfo_def Let_def)
  have new: "param (RtpSendSession_new ?p True) = ?p"
    by (simp add: RtpSendSession_new_def rtp_session.defs rtp_send_session.defs rtp_session_init_def)
  have m: "set (sr_ssrc2send_session ?r) \<subseteq> insert (p_ssrc ?p, ?n) (set (sr_ssrc2send_session r))"
    by (simp add: AddPushInfo_def Let_def set_emplace)
  have x: "p_rtx_ssrc ?p \<noteq> 0 \<and> set (sr_rtx_ssrc2send_session ?r) \<subseteq> insert (p_rtx_ssrc ?p, ?n) (set (sr_rtx_ssrc2send_session r)) \<or>
      sr_rtx_ssrc2send_session ?r = sr_rtx_ssrc2send_session r"
    by (simp add: AddPushInfo_def Let_def set_emplace)
  have old: "i < length (sr_sessions ?r) \<and> sr_sessions ?r ! i = sr_sessions r ! i" if "i < ?n" for i
    using that by (simp add: s nth_append)
  have last: "?n < length (sr_sessions ?r)" "param (sr_sessions ?r ! ?n) = ?p" by (simp_all add: s new)
  have "i < length (sr_sessions ?r) \<and> p_ssrc (param (sr_sessions ?r ! i)) = ssrc"
    if t: "(ssrc, i) \<in> set (sr_ssrc2send_session ?r)" for ssrc i
  proof -
    consider "ssrc = p_ssrc ?p" "i = ?n" | "(ssrc, i) \<in> set (sr_ssrc2send_session r)" using m t by blast
    then show ?thesis using last old [of i] relay_okD(1) [OF assms, of ssrc i] by cases simp_all
  qed
  moreover have "i < length (sr_sessions ?r) \<and> p_rtx_ssrc (param (sr_sessions ?r ! i)) = ssrc \<and> ssrc \<noteq> 0"
    if t: "(ssrc, i) \<in> set (sr_rtx_ssrc2send_session ?r)" for ssrc i
  proof -
    consider "ssrc = p_rtx_ssrc ?p" "p_rtx_ssrc ?p \<noteq> 0" "i = ?n" | "(ssrc, i) \<in> set (sr_rtx_ssrc2send_session r)"
      using x t by auto
    then show ?thesis using last old [of i] relay_okD(2) [OF assms, of ssrc i] by cases simp_all
  qed
  ultimately show ?thesis unfolding relay_ok_def by blast
qed

section \<open>Reachable relays\<close>

inductive relay_reach :: "send_relay \<Rightarrow> bool" where
  init: "relay_reach (RtcSendRelay_new user remote cb percent now_ms)"
| add_push_info: "relay_reach r \<Longrightarrow> relay_reach (AddPushInfo info r)"
| send: "relay_reach r \<Longrightarrow> relay_SendRtpPacket now_ms mem rand pkt r = (ret, outs, r') \<Longrightarrow> relay_reach r'"
| timer: "relay_reach r \<Longrightarrow> relay_OnTimer now_ms log r = (outs, r') \<Longrightarrow> relay_reach r'"
| read: "relay_reach r \<Longrightarrow> relay_OnRead now_ms mem rand data n r = (ret, outs, r') \<Longrightarrow> relay_reach r'"

lemma relay_reach_ok: "relay_reach r \<Longrightarrow> relay_ok r"
proof (induction rule: relay_reach.induct)
  case (timer r now_ms log outs r')
  then show ?case using relay_timer_params same_params_ok by (fastforce simp only: relay_OnTimer_def)
qed (auto simp: AddPushInfo_ok dest: relay_SendRtpPacket_params relay_OnRead_params intro: same_params_ok,
     simp add: relay_ok_def RtcSendRelay_new_def)

lemma relay_find_ok:
  assumes "relay_ok r" "relay_find ssrc r = Some i"
  shows "i < length (sr_sessions r) \<and> ssrc \<in> {p_ssrc (param (sr_sessions r ! i)), p_rtx_ssrc (param (sr_sessions r ! i))}"
proof -
  have "(ssrc, i) \<in> set (sr_ssrc2send_session r) \<or> (ssrc, i) \<in> set (sr_rtx_ssrc2send_session r)"
    using assms(2) by (auto simp: relay_find_def om_find_def dest: map_of_SomeD split: option.splits)
  then show ?thesis using assms(1) by (auto simp: relay_ok_def)
qed

text \<open>
  C26. In every state a relay can reach, a packet whose source id is unknown changes nothing and sends nothing;
  any other packet is accounted for by one session, the one created for this source id (or this retransmission
  source id), the other sessions stay as they are, and the packet goes out once and unchanged to the remote SFU
  exactly when that session accepts it and the loss simulation does not drop it. The maps stay consistent.
\<close>

theorem relay_forwards:
  assumes "relay_reach r" "relay_SendRtpPacket now_ms mem rand pkt r = (ret, outs, r')"
  shows "relay_ok r' \<and> sr_remote r' = sr_remote r \<and>
    (case relay_find (GetSsrc pkt) r of
       None \<Rightarrow> GetSsrc pkt \<notin> fst ` set (sr_ssrc2send_session r) \<union> fst ` set (sr_rtx_ssrc2send_session r) \<and> ret = Inr () \<and> outs = [] \<and> r' = r
     | Some i \<Rightarrow> i < length (sr_sessions r) \<and>
         GetSsrc pkt \<in> {p_ssrc (param (sr_sessions r ! i)), p_rtx_ssrc (param (sr_sessions r ! i))} \<and>
         sr_sessions r' = (sr_sessions r)[i := snd (SendRtpPacket now_ms mem pkt (sr_sessions r ! i))] \<and>
         outs = (if fst (SendRtpPacket now_ms mem pkt (sr_sessions r ! i)) = Inr True \<and>
                    \<not> DiscardPacketByPercent (sr_send_discard_percent r) (rand (sr_draws r))
                 then [RelayUdp (GetData pkt) (sr_remote r)] else []))"
proof -
  have ok: "relay_ok r" by (rule relay_reach_ok [OF assms(1)])
  have p: "same_params r r'" by (rule relay_SendRtpPacket_params [OF assms(2)])
  then have ok': "relay_ok r'" "sr_remote r' = sr_remote r" using same_params_ok ok by (auto simp: same_params_def)
  show ?thesis
  proof (cases "relay_find (GetSsrc pkt) r")
    case None
    then have "GetSsrc pkt \<notin> fst ` set (sr_ssrc2send_session r) \<union> fst ` set (sr_rtx_ssrc2send_session r)"
      by (simp add: relay_find_def om_find_None split: option.splits)
    with None show ?thesis using assms(2) ok' by (simp add: relay_SendRtpPacket_def)
  next
    case (Some i)
    obtain b s' where s: "SendRtpPacket now_ms mem pkt (sr_sessions r ! i) = (b, s')"
      by (cases "SendRtpPacket now_ms mem pkt (sr_sessions r ! i)")
    show ?thesis using assms(2) Some s ok' relay_find_ok [OF ok Some]
      by (auto simp: relay_SendRtpPacket_def relay_OnTransportSendRtp_def Let_def
          split: sum.splits cpp_error.splits bool.splits if_splits)
  qed
qed

definition relay_example :: send_relay where
  "relay_example = AddPushInfo \<lparr>pi_pusher_id = [1], pi_param = RtpSessionParam_default\<lparr>p_ssrc := 3, p_payload_type := 96\<rparr>\<rparr>
     (RtcSendRelay_new [2] \<lparr>ip_address = [49], udp_port = 9000, addr_u64 = 0\<rparr> True 0 5)"

theorem relay_forwards_witness:
  "\<exists>pkt r'. Parse 7 [0x80, 96, 0, 1, 0, 0, 0, 2, 0, 0, 0, 3, 0xAA] 13 = Inr pkt \<and> relay_reach relay_example \<and>
     relay_SendRtpPacket 8 (replicate 1500 0) (\<lambda>_. 0) pkt relay_example =
       (Inr (), [RelayUdp (GetData pkt) \<lparr>ip_address = [49], udp_port = 9000, addr_u64 = 0\<rparr>], r') \<and> relay_ok r'"
proof -
  let ?d = "[0x80, 96, 0, 1, 0, 0, 0, 2, 0, 0, 0, 3, 0xAA] :: bytes"
  let ?s = "RtpSendSession_new (RtpSessionParam_default\<lparr>p_ssrc := 3, p_payload_type := 96\<rparr>) True"
  have "case_sum (\<lambda>_. False) (\<lambda>p. GetSsrc p = 3) (Parse 7 ?d 13)" by code_simp
  then obtain pkt where p: "Parse 7 ?d 13 = Inr pkt" "GetSsrc pkt = 3" by (auto split: sum.splits)
  have reach: "relay_reach relay_example" unfolding relay_example_def by (intro relay_reach.intros)
  have f: "relay_find 3 relay_example = Some 0" "sr_sessions relay_example = [?s]" "sr_send_discard_percent relay_example = 0"
    "sr_remote relay_example = \<lparr>ip_address = [49], udp_port = 9000, addr_u64 = 0\<rparr>"
    by (simp_all add: relay_find_def relay_example_def AddPushInfo_def RtcSendRelay_new_def emplace_def
        RtpSessionParam_default_def om_find_def)
  obtain s' where s: "SendRtpPacket 8 (replicate 1500 0) pkt ?s = (Inr True, s')"
    by (simp add: SendRtpPacket_def send_store_def StoreRtxPacket_def Let_def RtpSendSession_new_def rtp_session.defs
        rtp_send_session.defs rtp_session_init_def InitSeq_def RtpSessionParam_default_def)
  obtain ret outs r' where r: "relay_SendRtpPacket 8 (replicate 1500 0) (\<lambda>_. 0) pkt relay_example = (ret, outs, r')"
    by (cases "relay_SendRtpPacket 8 (replicate 1500 0) (\<lambda>_. 0) pkt relay_example")
  have "ret = Inr ()" using r p(2) f s
    by (auto simp: relay_SendRtpPacket_def Let_def split: prod.splits)
  with relay_forwards [OF reach r] p f s r reach show ?thesis
    by (auto simp: DiscardPacketByPercent_def)
qed

end
