(* ===== verification/Rtc_User.thy ===== *)
theory Rtc_User
  imports Rtc_Send_Relay
begin

text \<open>
  \<open>RtcUser\<close> of \<open>webrtc_room/rtc_user.{hpp,cpp}\<close>: a member of a room, with the callback of its signalling
  connection (a connection number, \<open>None\<close> for the null pointer), the time it was last heard of and the
  tracks it publishes. The clock is an argument.
\<close>

type_synonym conn = nat

record rtc_user =
  u_room_id :: bytes
  u_user_id :: bytes
  u_user_name :: bytes
  u_audience :: bool
  u_is_remote :: bool
  u_is_whip :: bool
  u_resp_cb :: "conn option"
  u_last_heartbeat_ms :: u64
  u_pushers :: "(bytes, push_info) omap"

definition RtcUser_new :: "int \<Rightarrow> bytes \<Rightarrow> bytes \<Rightarrow> bytes \<Rightarrow> bool \<Rightarrow> conn option \<Rightarrow> rtc_user" where
  "RtcUser_new now_ms room_id user_id user_name audience resp_cb =
     \<lparr>u_room_id = room_id, u_user_id = user_id, u_user_name = user_name, u_audience = audience, u_is_remote = False,
      u_is_whip = False, u_resp_cb = resp_cb, u_last_heartbeat_ms = word_of_int now_ms, u_pushers = []\<rparr>"

definition UpdateHeartbeat :: "int \<Rightarrow> int \<Rightarrow> rtc_user \<Rightarrow> rtc_user" where
  \<comment> \<open>the first argument is the clock, read when the second is 0\<close>
  "UpdateHeartbeat clock now_ms u = u\<lparr>u_last_heartbeat_ms := word_of_int (if now_ms = 0 then clock else now_ms)\<rparr>"

definition user_timeout :: "rtc_user \<Rightarrow> int" where
  "user_timeout u = 45 * 1000 + (if u_resp_cb u = None then 20 * 1000 else 0)"

definition user_IsAlive :: "int \<Rightarrow> rtc_user \<Rightarrow> bool" where
  "user_IsAlive now_ms u \<longleftrightarrow> now_ms - sint (u_last_heartbeat_ms u) \<le> user_timeout u"

definition AddPusher :: "bytes \<Rightarrow> push_info \<Rightarrow> rtc_user \<Rightarrow> rtc_user" where
  "AddPusher pusher_id push_info u = u\<lparr>u_pushers := om_insert pusher_id push_info (u_pushers u)\<rparr>"

definition GetPusher :: "bytes \<Rightarrow> rtc_user \<Rightarrow> push_info option" where
  "GetPusher pusher_id u = om_find (u_pushers u) pusher_id"

definition SetRespCb :: "conn option \<Rightarrow> rtc_user \<Rightarrow> rtc_user" where
  "SetRespCb resp_cb u = u\<lparr>u_resp_cb := resp_cb\<rparr>"

definition SetRemote :: "bool \<Rightarrow> rtc_user \<Rightarrow> rtc_user" where
  "SetRemote is_remote u = u\<lparr>u_is_remote := is_remote\<rparr>"

definition SetWhip :: "bool \<Rightarrow> rtc_user \<Rightarrow> rtc_user" where
  "SetWhip is_whip u = u\<lparr>u_is_whip := is_whip\<rparr>"

definition SetAudience :: "bool \<Rightarrow> rtc_user \<Rightarrow> rtc_user" where
  "SetAudience audience u = u\<lparr>u_audience := audience\<rparr>"

lemma GetPusher_AddPusher:
  "om_ok (u_pushers u) \<Longrightarrow> GetPusher k (AddPusher pusher_id i u) = (if k = pusher_id then Some i else GetPusher k u)"
  by (simp add: GetPusher_def AddPusher_def)

lemma sint_clock: "- (2 ^ 63) \<le> t \<Longrightarrow> t < 2 ^ 63 \<Longrightarrow> sint (word_of_int t :: u64) = t"
  by (simp add: sint_sbintrunc' signed_take_bit_int_eq_self)

lemma heartbeat_alive:
  assumes "0 < t" "t < 2 ^ 63"
  shows "user_IsAlive now_ms (UpdateHeartbeat t 0 u) \<longleftrightarrow> now_ms \<le> t + user_timeout u"
  using assms sint_clock [of t] by (auto simp: user_IsAlive_def UpdateHeartbeat_def user_timeout_def)

end
