(* ===== verification/Media_Puller.thy ===== *)
theory Media_Puller
  imports Rtp_Send
begin

text \<open>
  \<open>MediaPuller\<close> of \<open>webrtc_room/media_puller.{hpp,cpp}\<close>: one subscription of a user to a media track. It gives a
  packet the extension ids, payload type and source id the subscriber negotiated, lets the send session
  account for and cache it, and puts it on the wire. Datagrams handed to the transport callback are returned,
  and whether the transport is connected is an argument; the result keeps the state an exception leaves behind.
  Log texts and the event log are left out.
\<close>

section \<open>State\<close>

record media_puller =
  mp_param :: RtpSessionParam
  mp_puller_user_id :: bytes
  mp_pusher_user_id :: bytes
  mp_puller_id :: bytes
  mp_pusher_id :: bytes
  mp_has_cb :: bool
  mp_send :: "rtp_send_session option"
  mp_last_statics_ms :: int

definition MediaPuller_new :: "RtpSessionParam \<Rightarrow> bytes \<Rightarrow> bytes \<Rightarrow> bytes \<Rightarrow> bytes \<Rightarrow> bool \<Rightarrow> media_puller" where
  \<comment> \<open>the fifth argument is the generated id of the puller\<close>
  "MediaPuller_new p puller_user_id pusher_user_id pusher_id uuid cb =
     \<lparr>mp_param = p, mp_puller_user_id = puller_user_id, mp_pusher_user_id = pusher_user_id, mp_puller_id = uuid,
      mp_pusher_id = pusher_id, mp_has_cb = cb, mp_send = None, mp_last_statics_ms = -1\<rparr>"

definition CreateRtpSendSession :: "media_puller \<Rightarrow> media_puller" where
  "CreateRtpSendSession p = p\<lparr>mp_send := Some (RtpSendSession_new (mp_param p) (mp_has_cb p))\<rparr>"

section \<open>Operations\<close>

definition puller_tcc_id :: "rtp_packet \<Rightarrow> media_puller \<Rightarrow> rtp_packet res" where
  \<comment> \<open>a failure to find the old id is only logged\<close>
  "puller_tcc_id pkt p =
     (if p_tcc_ext_id (mp_param p) > 0
      then rbind (UpdateWideSeqExternId pkt (word_of_int (p_tcc_ext_id (mp_param p)))) (\<lambda>(r1, pkt). Inr pkt)
      else Inr pkt)"

definition puller_abs_time_id :: "rtp_packet \<Rightarrow> media_puller \<Rightarrow> rtp_packet res" where
  "puller_abs_time_id pkt p =
     (if p_abs_send_time_ext_id (mp_param p) > 0
      then rbind (UpdateAbsTimeExternId pkt (word_of_int (p_abs_send_time_ext_id (mp_param p)))) (\<lambda>(r1, pkt). Inr pkt)
      else Inr pkt)"

definition puller_ext_ids :: "rtp_packet \<Rightarrow> media_puller \<Rightarrow> rtp_packet res" where
  "puller_ext_ids pkt p =
     (if HasExtension pkt then rbind (puller_tcc_id pkt p) (\<lambda>pkt. puller_abs_time_id pkt p) else Inr pkt)"

definition puller_OnTransportSendRtp ::
    "int \<Rightarrow> bytes \<Rightarrow> bool \<Rightarrow> rtp_packet \<Rightarrow> media_puller \<Rightarrow> unit res \<times> bytes list \<times> rtp_packet \<times> media_puller" where
  \<comment> \<open>\<open>now_ms\<close> and \<open>mem\<close> are the clock and the block allocated by the copy in the send session\<close>
  "puller_OnTransportSendRtp now_ms mem connected in_pkt p =
     (if rp_payload_len in_pkt = 0 then (Inr (), [], in_pkt, p)
      else if mp_has_cb p \<and> \<not> connected then (Inr (), [], in_pkt, p)
      else (case puller_ext_ids in_pkt p of
        Inl e \<Rightarrow> (Inl e, [], in_pkt, p)
      | Inr rtp_pkt \<Rightarrow>
        (case mp_send p of
           None \<Rightarrow> (Inl OutOfBounds, [], rtp_pkt, p)
         | Some s \<Rightarrow>
           (case SendRtpPacket now_ms mem rtp_pkt s of
              (Inl e, s') \<Rightarrow> (Inl e, [], rtp_pkt, p\<lparr>mp_send := Some s'\<rparr>)
            | (Inr False, s') \<Rightarrow> (Inr (), [], rtp_pkt, p\<lparr>mp_send := Some s'\<rparr>)
            | (Inr True, s') \<Rightarrow>
                let origin_payload_type = GetPayloadType rtp_pkt; origin_ssrc = GetSsrc rtp_pkt;
                    pkt1 = SetSsrc (p_ssrc (mp_param p)) (SetPayloadType (p_payload_type (mp_param p)) rtp_pkt) in
                if \<not> mp_has_cb p then (Inl OutOfBounds, [], pkt1, p\<lparr>mp_send := Some s'\<rparr>)
                else (Inr (), [GetData pkt1], SetSsrc origin_ssrc (SetPayloadType origin_payload_type pkt1),
                      p\<lparr>mp_send := Some s'\<rparr>)))))"

definition puller_OnTimer :: "int \<Rightarrow> media_puller \<Rightarrow> (bytes option \<times> media_puller) res" where
  "puller_OnTimer now_ms p =
     (if mp_last_statics_ms p < 0 then Inr (None, p\<lparr>mp_last_statics_ms := now_ms\<rparr>)
      else (case mp_send p of
        None \<Rightarrow> Inl OutOfBounds
      | Some s \<Rightarrow>
          let p1 = (if now_ms - mp_last_statics_ms p > 5000
                then p\<lparr>mp_send := Some (s\<lparr>send_statics := snd (snd (BytesPerSecond now_ms (send_statics s)))\<rparr>),
                       mp_last_statics_ms := now_ms\<rparr>
                else p);
              (out, s2) = send_OnTimer now_ms (the (mp_send p1))
          in Inr (out, p1\<lparr>mp_send := Some s2\<rparr>)))"

definition puller_HandleRtcpRrBlock :: "int \<Rightarrow> bytes \<Rightarrow> media_puller \<Rightarrow> (int \<times> media_puller) res" where
  "puller_HandleRtcpRrBlock now_ms rr_block p =
     (case mp_send p of
        None \<Rightarrow> Inl OutOfBounds
      | Some s \<Rightarrow> let (ret, s') = RecvRtcpRrBlock now_ms rr_block s in Inr (ret, p\<lparr>mp_send := Some s'\<rparr>))"

definition puller_HandleRtcpFbNack :: "fb_nack option \<Rightarrow> media_puller \<Rightarrow> (int \<times> bytes list \<times> media_puller) res" where
  "puller_HandleRtcpFbNack nack_pkt p =
     (case nack_pkt of
        None \<Rightarrow> Inr (-1, [], p)
      | Some n \<Rightarrow>
        (case mp_send p of
           None \<Rightarrow> Inl OutOfBounds
         | Some s \<Rightarrow> rbind (RecvRtcpFbNack n s) (\<lambda>(ret, outs, s'). Inr (ret, outs, p\<lparr>mp_send := Some s'\<rparr>))))"

section \<open>Rewriting extension ids touches the extension block only\<close>

definition ext_pos_ok :: "rtp_packet \<Rightarrow> bool" where
  \<comment> \<open>every known extension element starts between the header and the payload\<close>
  "ext_pos_ok pkt \<longleftrightarrow> rp_payload pkt \<le> length (rp_buf pkt) \<and>
     (\<forall>(i, q) \<in> set (rp_onebyte_ext_map pkt) \<union> set (rp_twobytes_ext_map pkt). 12 \<le> q \<and> q + 2 \<le> rp_payload pkt)"

definition ext_frame :: "rtp_packet \<Rightarrow> rtp_packet \<Rightarrow> bool" where
  \<comment> \<open>the second packet differs from the first in its extension block only\<close>
  "ext_frame pkt pkt' \<longleftrightarrow> length (rp_buf pkt') = length (rp_buf pkt) \<and> rp_payload pkt' = rp_payload pkt \<and>
     rp_payload_len pkt' = rp_payload_len pkt \<and> rp_data_len pkt' = rp_data_len pkt \<and>
     rp_local_ms pkt' = rp_local_ms pkt \<and> take 12 (rp_buf pkt') = take 12 (rp_buf pkt) \<and>
     drop (rp_payload pkt) (rp_buf pkt') = drop (rp_payload pkt) (rp_buf pkt)"

lemma ext_frame_refl [simp]: "ext_frame pkt pkt"
  by (simp add: ext_frame_def)

lemma ext_frame_trans: "ext_frame a b \<Longrightarrow> ext_frame b c \<Longrightarrow> ext_frame a c"
  by (simp add: ext_frame_def)

lemma rtp_ok_pos: "rtp_ok pkt \<Longrightarrow> ext_pos_ok pkt"
  by (cases "rp_ext pkt")
    (fastforce simp: rtp_ok_def ext_pos_ok_def ext_ok_def elem_ok1_def elem_ok2_def)+

lemma om_find_set: "om_find m k = Some v \<Longrightarrow> (k, v) \<in> set m"
  by (simp add: om_find_def map_of_SomeD)

lemma set_om_erase: "set (om_erase k m) \<subseteq> set m"
  by (auto simp: om_erase_def)

lemma poke_frame:
  assumes "12 \<le> q" "q + length w \<le> rp_payload pkt" "rp_payload pkt \<le> length (rp_buf pkt)"
  shows "ext_frame pkt (pkt\<lparr>rp_buf := poke (rp_buf pkt) q w\<rparr>)"
  using assms by (simp add: ext_frame_def)

lemma change_ext_id_frame:
  assumes "ext_pos_ok pkt"
  shows "change_ext_id pkt old new_id = Inr None \<or>
    (\<exists>pkt' v. change_ext_id pkt old new_id = Inr (Some (pkt', v)) \<and> ext_frame pkt pkt' \<and> ext_pos_ok pkt')"
proof -
  have len: "rp_payload pkt \<le> length (rp_buf pkt)" using assms by (simp add: ext_pos_ok_def)
  have pos: "12 \<le> q \<and> q + 2 \<le> rp_payload pkt"
    if "om_find (rp_onebyte_ext_map pkt) i = Some q \<or> om_find (rp_twobytes_ext_map pkt) i = Some q" for i q
    using assms that by (auto simp: ext_pos_ok_def dest!: om_find_set)
  have sub: "set (om_insert n q (om_erase old m)) \<subseteq> insert (n, q) (set m)" for n q and m :: "(u8, nat) omap"
    using set_om_insert_subset [of n q "om_erase old m"] set_om_erase [of old m] by blast
  show ?thesis
  proof (cases "HasOnebyteExt (rp_buf pkt) (rp_ext pkt)")
    case True
    show ?thesis
    proof (cases "om_find (rp_onebyte_ext_map pkt) old")
      case None
      with True show ?thesis by (simp add: change_ext_id_def)
    next
      case (Some q)
      with pos have q: "12 \<le> q" "q + 2 \<le> rp_payload pkt" by blast+
      let ?b = "poke (rp_buf pkt) q [set_bits 4 4 new_id (rp_buf pkt ! q)]"
      have "ext_frame pkt (pkt\<lparr>rp_buf := ?b\<rparr>)" using q len by (intro poke_frame) simp_all
      moreover have "ext_pos_ok (pkt\<lparr>rp_buf := ?b,
          rp_onebyte_ext_map := om_insert new_id q (om_erase old (rp_onebyte_ext_map pkt))\<rparr>)"
        using assms q len sub [of new_id q "rp_onebyte_ext_map pkt"] by (fastforce simp: ext_pos_ok_def)
      ultimately show ?thesis using True Some q len by (simp add: change_ext_id_def ext_frame_def)
    qed
  next
    case one: False
    show ?thesis
    proof (cases "HasTwobytesExt (rp_buf pkt) (rp_ext pkt) \<and> om_find (rp_twobytes_ext_map pkt) old \<noteq> None")
      case False
      with one show ?thesis by (auto simp: change_ext_id_def)
    next
      case True
      then obtain q where Some: "om_find (rp_twobytes_ext_map pkt) old = Some q" by blast
      with pos have q: "12 \<le> q" "q + 2 \<le> rp_payload pkt" by blast+
      let ?b = "poke (rp_buf pkt) q [new_id]"
      have "ext_frame pkt (pkt\<lparr>rp_buf := ?b\<rparr>)" using q len by (intro poke_frame) simp_all
      moreover have "ext_pos_ok (pkt\<lparr>rp_buf := ?b,
          rp_twobytes_ext_map := om_insert new_id q (om_erase old (rp_twobytes_ext_map pkt))\<rparr>)"
        using assms q len sub [of new_id q "rp_twobytes_ext_map pkt"] by (fastforce simp: ext_pos_ok_def)
      ultimately show ?thesis using one True Some q len by (simp add: change_ext_id_def ext_frame_def)
    qed
  qed
qed

lemma ext_pos_ok_ids [simp]:
  "ext_pos_ok (pkt\<lparr>rp_abs_time_extension_id := v\<rparr>) = ext_pos_ok pkt" "ext_pos_ok (pkt\<lparr>rp_tcc_extension_id := v\<rparr>) = ext_pos_ok pkt"
  "ext_frame q (pkt\<lparr>rp_abs_time_extension_id := v\<rparr>) = ext_frame q pkt" "ext_frame q (pkt\<lparr>rp_tcc_extension_id := v\<rparr>) = ext_frame q pkt"
  by (simp_all add: ext_pos_ok_def ext_frame_def)

lemma puller_ids_frame:
  assumes "ext_pos_ok pkt"
  shows "\<exists>pkt'. puller_tcc_id pkt p = Inr pkt' \<and> ext_frame pkt pkt' \<and> ext_pos_ok pkt'"
    "\<exists>pkt'. puller_abs_time_id pkt p = Inr pkt' \<and> ext_frame pkt pkt' \<and> ext_pos_ok pkt'"
  using change_ext_id_frame [OF assms, of "rp_tcc_extension_id pkt" "word_of_int (p_tcc_ext_id (mp_param p))"]
    change_ext_id_frame [OF assms, of "rp_abs_time_extension_id pkt" "word_of_int (p_abs_send_time_ext_id (mp_param p))"] assms
  by (auto simp: puller_tcc_id_def UpdateWideSeqExternId_def puller_abs_time_id_def UpdateAbsTimeExternId_def)

lemma puller_ext_ids_frame:
  assumes "rtp_ok pkt"
  shows "\<exists>pkt'. puller_ext_ids pkt p = Inr pkt' \<and> ext_frame pkt pkt'"
proof (cases "HasExtension pkt")
  case True
  obtain q where q: "puller_tcc_id pkt p = Inr q" "ext_frame pkt q" "ext_pos_ok q"
    using puller_ids_frame(1) [OF rtp_ok_pos [OF assms]] by blast
  obtain r where "puller_abs_time_id q p = Inr r" "ext_frame q r" using puller_ids_frame(2) [OF q(3)] by blast
  with q True show ?thesis by (auto simp: puller_ext_ids_def intro: ext_frame_trans)
qed (simp add: puller_ext_ids_def)

section \<open>Forwarding\<close>

definition forwarded :: "media_puller \<Rightarrow> rtp_packet \<Rightarrow> bytes \<Rightarrow> bool" where
  \<comment> \<open>a datagram that carries the packet under the puller's payload type and source id\<close>
  "forwarded p pkt d \<longleftrightarrow> length d = rp_data_len pkt \<and> hdr_sequence d = GetSeq pkt \<and> hdr_timestamp d = GetTimestamp pkt \<and>
     hdr_marker d = GetMarker pkt \<and> hdr_padding d = hdr_padding (rp_buf pkt) \<and>
     hdr_ssrc d = p_ssrc (mp_param p) \<and> hdr_payload_type d = p_payload_type (mp_param p) \<and>
     drop (rp_payload pkt) d = drop (rp_payload pkt) (GetData pkt)"

lemma hdr_take12:
  assumes "take 12 b = take 12 b'"
  shows "hdr_sequence b = hdr_sequence b'" "hdr_timestamp b = hdr_timestamp b'" "hdr_ssrc b = hdr_ssrc b'"
    "hdr_marker b = hdr_marker b'" "hdr_payload_type b = hdr_payload_type b'" "hdr_padding b = hdr_padding b'"
  using assms hdr_prefix [of 12 b] hdr_prefix [of 12 b'] by auto

lemma readdressed_forwarded:
  assumes ok: "rtp_ok pkt" and f: "ext_frame pkt q" and pt: "take_bit 7 (p_payload_type (mp_param p)) = p_payload_type (mp_param p)"
  shows "forwarded p pkt (GetData (SetSsrc (p_ssrc (mp_param p)) (SetPayloadType (p_payload_type (mp_param p)) q)))"
    "SetSsrc (GetSsrc q) (SetPayloadType (GetPayloadType q)
       (SetSsrc (p_ssrc (mp_param p)) (SetPayloadType (p_payload_type (mp_param p)) q))) = q"
proof -
  let ?b = "set_hdr_ssrc (p_ssrc (mp_param p)) (set_hdr_payload_type (p_payload_type (mp_param p)) (rp_buf q))"
  have l: "12 \<le> rp_payload pkt" "rp_payload pkt \<le> rp_data_len pkt" "rp_data_len pkt \<le> length (rp_buf pkt)"
    using ok by (simp_all add: rtp_ok_def)
  have h: "hdr_ok (rp_buf q)" using l f by (simp add: hdr_ok_def ext_frame_def)
  note H = hdr_take12 [of "rp_buf q" "rp_buf pkt"] hdr_prefix [of "rp_data_len pkt" ?b]
  have "drop (rp_payload pkt) (take (rp_data_len pkt) ?b) = drop (rp_payload pkt) (GetData pkt)"
    using f h l by (simp add: ext_frame_def GetData_def drop_take)
  then show "forwarded p pkt (GetData (SetSsrc (p_ssrc (mp_param p)) (SetPayloadType (p_payload_type (mp_param p)) q)))"
    using f h l pt H unfolding forwarded_def GetData_def SetSsrc_def SetPayloadType_def ext_frame_def
    by (simp add: GetSeq_def GetTimestamp_def GetMarker_def)
  show "SetSsrc (GetSsrc q) (SetPayloadType (GetPayloadType q)
       (SetSsrc (p_ssrc (mp_param p)) (SetPayloadType (p_payload_type (mp_param p)) q))) = q"
    using h by (simp add: SetSsrc_def SetPayloadType_def GetSsrc_def GetPayloadType_def ssrc_pt.comm
        ssrcL.put_put ptL.put_put ssrcL.put_get ptL.put_get)
qed

text \<open>
  A connected subscriber receives a packet exactly when its send session accepts it, and then as one datagram of the
  same length with the sequence number, timestamp, marker and payload of the packet under the subscriber's own payload
  type and source id. Afterwards the caller's packet differs at most inside its extension block; in particular its
  payload type and source id are what they were.
\<close>

theorem puller_forwards:
  assumes "rtp_ok pkt" "0 < rp_payload_len pkt" "mp_has_cb p" "mp_send p = Some s"
    and "take_bit 7 (p_payload_type (mp_param p)) = p_payload_type (mp_param p)"
  shows "\<exists>pkt1. ext_frame pkt pkt1 \<and> (case SendRtpPacket now_ms mem pkt1 s of
      (Inl e, s') \<Rightarrow> puller_OnTransportSendRtp now_ms mem True pkt p = (Inl e, [], pkt1, p\<lparr>mp_send := Some s'\<rparr>)
    | (Inr False, s') \<Rightarrow> puller_OnTransportSendRtp now_ms mem True pkt p = (Inr (), [], pkt1, p\<lparr>mp_send := Some s'\<rparr>)
    | (Inr True, s') \<Rightarrow> \<exists>d. forwarded p pkt d \<and>
        puller_OnTransportSendRtp now_ms mem True pkt p = (Inr (), [d], pkt1, p\<lparr>mp_send := Some s'\<rparr>))"
proof -
  obtain pkt1 where q: "puller_ext_ids pkt p = Inr pkt1" "ext_frame pkt pkt1"
    using puller_ext_ids_frame [OF assms(1)] by blast
  note R = readdressed_forwarded [OF assms(1) q(2) assms(5)]
  obtain r s' where s: "SendRtpPacket now_ms mem pkt1 s = (r, s')" by (cases "SendRtpPacket now_ms mem pkt1 s")
  then show ?thesis using q assms(2-4) R
    by (intro exI [of _ pkt1]) (auto simp: puller_OnTransportSendRtp_def Let_def split: sum.split bool.split)
qed

definition puller_example :: media_puller where
  "puller_example = CreateRtpSendSession (MediaPuller_new (RtpSessionParam_default\<lparr>p_ssrc := 9, p_payload_type := 100\<rparr>)
     [1] [2] [3] [4] True)"

theorem puller_forwards_witness:
  "\<exists>pkt d pkt1 p'. Parse 7 [0x80, 96, 0, 1, 0, 0, 0, 2, 0, 0, 0, 3, 0xAA] 13 = Inr pkt \<and>
     puller_OnTransportSendRtp 8 (replicate 1500 0) True pkt puller_example = (Inr (), [d], pkt1, p') \<and>
     forwarded puller_example pkt d"
proof -
  let ?d = "[0x80, 96, 0, 1, 0, 0, 0, 2, 0, 0, 0, 3, 0xAA] :: bytes"
  have "case_sum (\<lambda>_. False) (\<lambda>p. 0 < rp_payload_len p) (Parse 7 ?d 13)" by code_simp
  then obtain pkt where p: "Parse 7 ?d 13 = Inr pkt" "0 < rp_payload_len pkt" by (auto split: sum.splits)
  have ok: "rtp_ok pkt" using Parse_Inr [OF p(1)] by auto
  let ?s = "RtpSendSession_new (RtpSessionParam_default\<lparr>p_ssrc := 9, p_payload_type := 100\<rparr>) True"
  have e: "mp_has_cb puller_example" "mp_send puller_example = Some ?s"
    "take_bit 7 (p_payload_type (mp_param puller_example)) = p_payload_type (mp_param puller_example)"
    by (simp_all add: puller_example_def CreateRtpSendSession_def MediaPuller_new_def)
  obtain f where "SendRtpPacket 8 (replicate 1500 0) q ?s = (Inr True, f q)" for q
    by (simp add: SendRtpPacket_def send_store_def StoreRtxPacket_def Let_def RtpSendSession_new_def rtp_session.defs
        rtp_send_session.defs rtp_session_init_def InitSeq_def RtpSessionParam_default_def)
  with puller_forwards [OF ok p(2) e, of 8 "replicate 1500 0"] p(1) show ?thesis by auto
qed

end
