(* ===== verification/Room.thy ===== *)
theory Room
  imports Rtc_User Media_Puller
begin

text \<open>
  The membership side of \<open>Room\<close> of \<open>webrtc_room/room.{hpp,cpp}\<close>: users join, are notified of each other, lose their
  connection, come back, leave and time out. Messages to signalling connections and to the pilot center are returned
  in the order the code sends them; their JSON objects are values of \<open>msg_json\<close> with the fields the code sets. Subscriptions
  (\<open>MediaPuller\<close>) are shared with the WebRTC sessions, so they live in a list and \<open>pusher2pullers_\<close> holds positions.
  Of a \<open>MediaPusher\<close> only its user id is used here. The clock is read once per operation, and a send relay is owned by
  the room. The log and the event log are left out.
\<close>

section \<open>State and messages\<close>

datatype RTC_USER_TYPE = UNKNOWN_USER_TYPE | LOCAL_RTC_USER | REMOTE_RTC_USER

datatype msg_json =
    UserNote bytes bytes
  | NamedUserNote bytes bytes bytes
  | NewUserNote bytes bytes "push_info list"
  | NewPusherNote bytes bytes bytes "push_info list"
  | TextNote bytes bytes bytes bytes
  | JoinNote bytes bytes bytes bool
  | UsersNote "(bytes \<times> bytes \<times> push_info list) list"

datatype room_msg =
    Notification conn string msg_json
  | OnProtooResponse conn int msg_json
  | PilotRequest string msg_json
  | PilotNotification string msg_json

record room =
  rm_room_id :: bytes
  rm_pilot_client :: bool
  rm_last_alive_ms :: int
  rm_closed :: bool
  rm_users :: "(bytes, rtc_user) omap"
  rm_pusherId2pusher :: "(bytes, bytes) omap"
  rm_pullers :: "media_puller list"
  rm_pusher2pullers :: "(bytes, (bytes, nat) omap) omap"
  rm_sendRelay :: "(bytes, send_relay) omap"

definition Room_new :: "bytes \<Rightarrow> bool \<Rightarrow> int \<Rightarrow> room" where
  "Room_new room_id pilot_client now_ms =
     \<lparr>rm_room_id = room_id, rm_pilot_client = pilot_client, rm_last_alive_ms = now_ms, rm_closed = False, rm_users = [],
      rm_pusherId2pusher = [], rm_pullers = [], rm_pusher2pullers = [], rm_sendRelay = []\<rparr>"

definition Close :: "room \<Rightarrow> room" where
  "Close r = r\<lparr>rm_closed := True\<rparr>"

definition GetUserType :: "bytes \<Rightarrow> room \<Rightarrow> RTC_USER_TYPE" where
  "GetUserType user_id r =
     (case om_find (rm_users r) user_id of
        None \<Rightarrow> UNKNOWN_USER_TYPE
      | Some u \<Rightarrow> if u_is_remote u then REMOTE_RTC_USER else LOCAL_RTC_USER)"

definition room_IsAlive :: "int \<Rightarrow> room \<Rightarrow> bool" where
  "room_IsAlive now_ms r \<longleftrightarrow> now_ms - rm_last_alive_ms r < 90 * 1000"

definition update_user :: "(rtc_user \<Rightarrow> rtc_user) \<Rightarrow> bytes \<Rightarrow> room \<Rightarrow> room" where
  \<comment> \<open>a method call on the user found under a key, if there is one\<close>
  "update_user f user_id r =
     (case om_find (rm_users r) user_id of
        None \<Rightarrow> r
      | Some u \<Rightarrow> r\<lparr>rm_users := om_insert user_id (f u) (rm_users r)\<rparr>)"

definition HandleWsHeartbeat :: "int \<Rightarrow> bytes \<Rightarrow> room \<Rightarrow> int \<times> room" where
  "HandleWsHeartbeat now_ms user_id r =
     (let r1 = r\<lparr>rm_last_alive_ms := now_ms\<rparr> in
      if om_find (rm_users r1) user_id = None then (-1, r1)
      else (0, update_user (UpdateHeartbeat now_ms 0) user_id r1))"

section \<open>Notifications\<close>

definition notify :: "(bytes \<Rightarrow> rtc_user \<Rightarrow> bool) \<Rightarrow> string \<Rightarrow> msg_json \<Rightarrow> room \<Rightarrow> room_msg list" where
  \<comment> \<open>the loops over \<open>users_\<close> that notify every user that is selected and has a connection\<close>
  "notify P meth data r = concat (map (\<lambda>(k, u).
     if P k u then (case u_resp_cb u of None \<Rightarrow> [] | Some cb \<Rightarrow> [Notification cb meth data]) else []) (rm_users r))"

definition other_local :: "bytes \<Rightarrow> bytes \<Rightarrow> rtc_user \<Rightarrow> bool" where
  "other_local user_id k u \<longleftrightarrow> k \<noteq> user_id \<and> \<not> u_is_remote u"

definition to_pilot :: "int \<Rightarrow> room_msg \<Rightarrow> room \<Rightarrow> room_msg list \<times> room" where
  \<comment> \<open>what the messages to the pilot center have in common\<close>
  "to_pilot now_ms msg r = (if rm_pilot_client r then ([msg], r\<lparr>rm_last_alive_ms := now_ms\<rparr>) else ([], r))"

definition Join2PilotCenter :: "int \<Rightarrow> rtc_user \<Rightarrow> room \<Rightarrow> room_msg list \<times> room" where
  "Join2PilotCenter now_ms u r =
     to_pilot now_ms (PilotRequest ''join'' (JoinNote (rm_room_id r) (u_user_id u) (u_user_name u) (u_audience u))) r"

definition UserDisconnect2PilotCenter :: "int \<Rightarrow> bytes \<Rightarrow> room \<Rightarrow> room_msg list \<times> room" where
  "UserDisconnect2PilotCenter now_ms user_id r =
     to_pilot now_ms (PilotNotification ''userDisconnect'' (UserNote user_id (rm_room_id r))) r"

definition UserLeave2PilotCenter :: "int \<Rightarrow> bytes \<Rightarrow> room \<Rightarrow> room_msg list \<times> room" where
  "UserLeave2PilotCenter now_ms user_id r =
     to_pilot now_ms (PilotNotification ''userLeave'' (UserNote user_id (rm_room_id r))) r"

definition NewPusher2PilotCenter :: "int \<Rightarrow> bytes \<Rightarrow> push_info list \<Rightarrow> room \<Rightarrow> room_msg list \<times> room" where
  "NewPusher2PilotCenter now_ms pusher_user_id push_infos r =
     (if \<not> rm_pilot_client r then ([], r)
      else let r1 = r\<lparr>rm_last_alive_ms := now_ms\<rparr> in
        (case om_find (rm_users r1) pusher_user_id of
           None \<Rightarrow> ([], r1)
         | Some u \<Rightarrow> ([PilotNotification ''push''
             (NewPusherNote pusher_user_id (u_user_name u) (rm_room_id r1) push_infos)], r1)))"

definition NotifyTextMessage2PilotCenter :: "int \<Rightarrow> bytes \<Rightarrow> bytes \<Rightarrow> bytes \<Rightarrow> room \<Rightarrow> room_msg list \<times> room" where
  "NotifyTextMessage2PilotCenter now_ms from_user_id from_user_name message r =
     to_pilot now_ms (PilotNotification ''textMessage'' (TextNote from_user_id from_user_name message (rm_room_id r))) r"

definition NotifyTextMessage2LocalUsers :: "bytes \<Rightarrow> bytes \<Rightarrow> bytes \<Rightarrow> room \<Rightarrow> room_msg list" where
  "NotifyTextMessage2LocalUsers from_user_id from_user_name message r =
     notify (\<lambda>k u. u_user_id u \<noteq> from_user_id) ''textMessage''
       (TextNote from_user_id from_user_name message (rm_room_id r)) r"

definition NotifyNewUser :: "int \<Rightarrow> bytes \<Rightarrow> bytes \<Rightarrow> room \<Rightarrow> room_msg list \<times> room" where
  "NotifyNewUser now_ms user_id user_name r =
     (case om_find (rm_users r) user_id of
        None \<Rightarrow> ([], r)
      | Some new_user \<Rightarrow>
          (notify (other_local user_id) ''newUser'' (NewUserNote user_id user_name (map snd (u_pushers new_user))) r,
           r\<lparr>rm_last_alive_ms := now_ms\<rparr>))"

definition NotifyNewPusher :: "int \<Rightarrow> bytes \<Rightarrow> bytes \<Rightarrow> push_info list \<Rightarrow> room \<Rightarrow> room_msg list \<times> room" where
  "NotifyNewPusher now_ms pusher_user_id pusher_user_name push_infos r =
     (notify (other_local pusher_user_id) ''newPusher''
        (NewPusherNote pusher_user_id pusher_user_name (rm_room_id r) push_infos) r,
      r\<lparr>rm_last_alive_ms := now_ms\<rparr>)"

section \<open>Joining\<close>

definition user_entry :: "rtc_user \<Rightarrow> bytes \<times> bytes \<times> push_info list" where
  "user_entry u = (u_user_id u, u_user_name u, map snd (u_pushers u))"

definition WhipUserJoin :: "int \<Rightarrow> bytes \<Rightarrow> bytes \<Rightarrow> room \<Rightarrow> int \<times> room_msg list \<times> room" where
  "WhipUserJoin now_ms user_id user_name r =
     (if rm_closed r then (-1, [], r)
      else
        let new_user = (case om_find (rm_users r) user_id of
              Some u \<Rightarrow> SetWhip True u
            | None \<Rightarrow> SetWhip True (RtcUser_new now_ms (rm_room_id r) user_id user_name False None));
            r1 = r\<lparr>rm_last_alive_ms := now_ms, rm_users := om_insert user_id new_user (rm_users r)\<rparr>;
            (m1, r2) = Join2PilotCenter now_ms new_user r1;
            (m2, r3) = NotifyNewUser now_ms user_id user_name r2
        in (0, m1 @ m2, r3))"

definition ReConnect :: "rtc_user \<Rightarrow> int \<Rightarrow> conn \<Rightarrow> room \<Rightarrow> int \<times> room_msg list" where
  "ReConnect new_user req_id resp_cb r =
     (0, notify (\<lambda>k u. u_user_id u \<noteq> u_user_id new_user \<and> \<not> u_is_remote u) ''userReConnect''
           (NamedUserNote (u_user_id new_user) (u_user_name new_user) (rm_room_id r)) r @
         (if rm_pilot_client r
          then [PilotNotification ''userReConnect'' (NamedUserNote (u_user_id new_user) (u_user_name new_user) (rm_room_id r))]
          else []) @
         [OnProtooResponse resp_cb req_id
            (UsersNote (map (user_entry \<circ> snd) (filter (\<lambda>(k, u). k \<noteq> u_user_id new_user) (rm_users r))))])"

definition UserJoin :: "int \<Rightarrow> bytes \<Rightarrow> bytes \<Rightarrow> bool \<Rightarrow> int \<Rightarrow> conn \<Rightarrow> room \<Rightarrow> int \<times> room_msg list \<times> room" where
  "UserJoin now_ms user_id user_name audience req_id resp_cb r =
     (if rm_closed r then (-1, [], r)
      else
        let r0 = r\<lparr>rm_last_alive_ms := now_ms\<rparr> in
        (case om_find (rm_users r0) user_id of
           Some u \<Rightarrow>
             let r1 = r0\<lparr>rm_users := om_insert user_id (SetAudience audience u) (rm_users r0)\<rparr>;
                 (ret, msgs) = ReConnect (SetAudience audience u) req_id resp_cb r1
             in (ret, msgs, r1)
         | None \<Rightarrow>
             let new_user = RtcUser_new now_ms (rm_room_id r) user_id user_name audience (Some resp_cb);
                 r1 = r0\<lparr>rm_users := om_insert user_id new_user (rm_users r0)\<rparr>;
                 users = map (user_entry \<circ> snd) (filter (\<lambda>(k, u). k \<noteq> user_id \<and> \<not> u_audience u) (rm_users r1));
                 (m1, r2) = Join2PilotCenter now_ms new_user r1;
                 (m2, r3) = (if audience then ([], r2) else NotifyNewUser now_ms user_id user_name r2)
             in (0, m1 @ [OnProtooResponse resp_cb req_id (UsersNote users)] @ m2, r3)))"

section \<open>Leaving\<close>

definition UserLeave :: "int \<Rightarrow> bytes \<Rightarrow> room \<Rightarrow> int \<times> room_msg list \<times> room" where
  "UserLeave now_ms user_id r =
     (case om_find (rm_users r) user_id of
        None \<Rightarrow> (-1, [], r)
      | Some u \<Rightarrow>
          let r1 = update_user (SetRespCb None) user_id r;
              (m, r2) = UserLeave2PilotCenter now_ms user_id r1
          in (0, notify (other_local user_id) ''userLeave'' (UserNote user_id (rm_room_id r)) r1 @ m, r2))"

definition DisconnectUser :: "int \<Rightarrow> bytes \<Rightarrow> room \<Rightarrow> int \<times> room_msg list \<times> room" where
  "DisconnectUser now_ms user_id r =
     (case om_find (rm_users r) user_id of
        None \<Rightarrow> (-1, [], r)
      | Some u \<Rightarrow>
          let r1 = update_user (SetRespCb None) user_id r;
              (m, r2) = UserDisconnect2PilotCenter now_ms user_id r1
          in (0, notify (other_local user_id) ''userDisconnect'' (UserNote user_id (rm_room_id r)) r1 @ m, r2))"

definition ReleaseUserResources :: "int \<Rightarrow> bytes \<Rightarrow> room \<Rightarrow> room_msg list \<times> room" where
  "ReleaseUserResources now_ms user_id r =
     (let (ret, msgs, r1) = UserLeave now_ms user_id r in
      if om_find (rm_users r1) user_id = None then (msgs, r1)
      else (msgs, r1\<lparr>rm_users := om_erase user_id (rm_users r1),
        rm_pusherId2pusher := filter (\<lambda>(k, uid). uid \<noteq> user_id) (rm_pusherId2pusher r1),
        rm_sendRelay := om_erase user_id (rm_sendRelay r1),
        rm_pusher2pullers := om_erase user_id (map (\<lambda>(k, m).
          (k, filter (\<lambda>(pid, i). mp_puller_user_id (rm_pullers r1 ! i) \<noteq> user_id) m)) (rm_pusher2pullers r1))\<rparr>))"

fun release_all :: "int \<Rightarrow> bytes list \<Rightarrow> room \<Rightarrow> room_msg list \<times> room" where
  "release_all now_ms [] r = ([], r)"
| "release_all now_ms (user_id # ids) r =
     (let (m1, r1) = ReleaseUserResources now_ms user_id r; (m2, r2) = release_all now_ms ids r1 in (m1 @ m2, r2))"

definition OnTimer_users :: "int \<Rightarrow> room \<Rightarrow> room_msg list \<times> room" where
  \<comment> \<open>the first half of \<open>OnTimer\<close>; the receive relays and the voice agent are not modelled\<close>
  "OnTimer_users now_ms r =
     release_all now_ms (map fst (filter (\<lambda>(k, u). \<not> u_is_remote u \<and> \<not> user_IsAlive now_ms u) (rm_users r)))
       (if rm_users r \<noteq> [] then r\<lparr>rm_last_alive_ms := now_ms\<rparr> else r)"

definition OnPushClose :: "bytes \<Rightarrow> room \<Rightarrow> room" where
  "OnPushClose pusher_id r = r\<lparr>rm_pusherId2pusher := om_erase pusher_id (rm_pusherId2pusher r)\<rparr>"

fun pull_close :: "bytes \<Rightarrow> (bytes \<times> (bytes, nat) omap) list \<Rightarrow> (bytes \<times> (bytes, nat) omap) list" where
  "pull_close puller_id [] = []"
| "pull_close puller_id ((k, m) # ps) =
     (if om_find m puller_id \<noteq> None then (k, om_erase puller_id m) # ps else (k, m) # pull_close puller_id ps)"

definition OnPullClose :: "bytes \<Rightarrow> room \<Rightarrow> room" where
  "OnPullClose puller_id r = r\<lparr>rm_pusher2pullers := pull_close puller_id (rm_pusher2pullers r)\<rparr>"

section \<open>Messages from the pilot center\<close>

text \<open>The fields of the message are arguments, \<open>None\<close> when reading them raises an exception, which is caught.\<close>

definition HandleNewUserNotificationFromCenter :: "int \<Rightarrow> (bytes \<times> bytes) option \<Rightarrow> room \<Rightarrow> room_msg list \<times> room" where
  "HandleNewUserNotificationFromCenter now_ms data r =
     (let r1 = r\<lparr>rm_last_alive_ms := now_ms\<rparr> in
      (case data of
         None \<Rightarrow> ([], r1)
       | Some (user_id, user_name) \<Rightarrow>
           if om_find (rm_users r1) user_id \<noteq> None then ([], r1)
           else NotifyNewUser now_ms user_id user_name (r1\<lparr>rm_users := om_insert user_id
             (SetRemote True (RtcUser_new now_ms (rm_room_id r1) user_id user_name False None)) (rm_users r1)\<rparr>)))"

definition HandleUserDisconnectNotificationFromCenter :: "bytes option \<Rightarrow> room \<Rightarrow> room_msg list" where
  "HandleUserDisconnectNotificationFromCenter data r =
     (case data of
        None \<Rightarrow> []
      | Some user_id \<Rightarrow>
          (case om_find (rm_users r) user_id of
             None \<Rightarrow> []
           | Some u \<Rightarrow> if u_is_remote u then notify (\<lambda>k u. True) ''userDisconnect'' (UserNote user_id (rm_room_id r)) r else []))"

definition HandleUserLeaveNotificationFromCenter :: "bytes option \<Rightarrow> room \<Rightarrow> room_msg list" where
  "HandleUserLeaveNotificationFromCenter data r =
     (case data of
        None \<Rightarrow> []
      | Some user_id \<Rightarrow>
          (case om_find (rm_users r) user_id of
             None \<Rightarrow> []
           | Some u \<Rightarrow> if u_is_remote u
               then notify (\<lambda>k u. u_user_id u \<noteq> user_id \<and> \<not> u_is_remote u) ''userLeave'' (UserNote user_id (rm_room_id r)) r
               else []))"

definition HandleNotifyTextMessageFromCenter :: "(bytes \<times> bytes \<times> bytes) option \<Rightarrow> room \<Rightarrow> room_msg list" where
  "HandleNotifyTextMessageFromCenter data r =
     (case data of None \<Rightarrow> [] | Some (uid, name, message) \<Rightarrow> NotifyTextMessage2LocalUsers uid name message r)"

definition add_puller :: "media_puller \<Rightarrow> room \<Rightarrow> room" where
  \<comment> \<open>\<open>pusher2pullers_[media_puller->GetPusherId()][media_puller->GetPullerId()] = media_puller\<close> of \<open>HandlePullSdp\<close>\<close>
  "add_puller p r =
     r\<lparr>rm_pullers := rm_pullers r @ [p],
       rm_pusher2pullers := om_insert (mp_pusher_id p)
         (om_insert (mp_puller_id p) (length (rm_pullers r))
            (case om_find (rm_pusher2pullers r) (mp_pusher_id p) of None \<Rightarrow> [] | Some m \<Rightarrow> m)) (rm_pusher2pullers r)\<rparr>"

section \<open>Invariant\<close>

definition users_ok :: "room \<Rightarrow> bool" where
  "users_ok r \<longleftrightarrow> om_ok (rm_users r) \<and> (\<forall>(k, u) \<in> set (rm_users r). u_user_id u = k)"

definition puller_refs :: "(bytes, (bytes, nat) omap) omap \<Rightarrow> nat list" where
  "puller_refs ps = concat (map (\<lambda>(k, m). map snd m) ps)"

definition pullers_ok :: "room \<Rightarrow> bool" where
  \<comment> \<open>every subscription is listed once, under the track it subscribes to\<close>
  "pullers_ok r \<longleftrightarrow> om_ok (rm_pusher2pullers r) \<and> distinct (puller_refs (rm_pusher2pullers r)) \<and>
     (\<forall>(k, m) \<in> set (rm_pusher2pullers r). om_ok m \<and>
        (\<forall>(pid, i) \<in> set m. i < length (rm_pullers r) \<and> mp_pusher_id (rm_pullers r ! i) = k))"

lemma update_user_simps [simp]:
  "rm_room_id (update_user f k r) = rm_room_id r"
  "rm_pullers (update_user f k r) = rm_pullers r"
  "rm_pusher2pullers (update_user f k r) = rm_pusher2pullers r"
  "rm_pusherId2pusher (update_user f k r) = rm_pusherId2pusher r"
  "rm_sendRelay (update_user f k r) = rm_sendRelay r"
  "rm_last_alive_ms (update_user f k r) = rm_last_alive_ms r"
  "rm_pilot_client (update_user f k r) = rm_pilot_client r"
  by (simp_all add: update_user_def split: option.split)

lemma update_user_find:
  "om_ok (rm_users r) \<Longrightarrow> om_find (rm_users (update_user f k r)) k' =
     (if k' = k then map_option f (om_find (rm_users r) k) else om_find (rm_users r) k')"
  by (simp add: update_user_def split: option.split)

lemma users_ok_insert:
  "users_ok r \<Longrightarrow> u_user_id u = k \<Longrightarrow> users_ok (r'\<lparr>rm_users := om_insert k u (rm_users r)\<rparr>)"
  using set_om_insert_subset [of k u "rm_users r"] by (auto simp: users_ok_def)

lemma users_ok_find: "users_ok r \<Longrightarrow> om_find (rm_users r) k = Some u \<Longrightarrow> u_user_id u = k"
  by (auto simp: users_ok_def om_find_Some)

lemma users_ok_update:
  assumes "users_ok r" "\<And>u. u_user_id (f u) = u_user_id u"
  shows "users_ok (update_user f k r)"
  using assms users_ok_insert [OF assms(1), of _ k r] users_ok_find [OF assms(1), of k]
  by (auto simp: update_user_def split: option.split)

lemma to_pilot_simps [simp]:
  "rm_users (snd (to_pilot now_ms m r)) = rm_users r"
  "rm_pullers (snd (to_pilot now_ms m r)) = rm_pullers r"
  "rm_pusher2pullers (snd (to_pilot now_ms m r)) = rm_pusher2pullers r"
  "rm_pusherId2pusher (snd (to_pilot now_ms m r)) = rm_pusherId2pusher r"
  "rm_sendRelay (snd (to_pilot now_ms m r)) = rm_sendRelay r"
  "fst (to_pilot now_ms m r) = (if rm_pilot_client r then [m] else [])"
  by (simp_all add: to_pilot_def)

section \<open>Leaving and timing out\<close>

lemma notify_update:
  assumes "om_ok (rm_users r)" "\<And>u. \<not> P k u"
  shows "notify P meth data (update_user f k r) = notify P meth data r"
proof -
  have "concat (map (\<lambda>(k, u). if P k u then (case u_resp_cb u of None \<Rightarrow> [] | Some cb \<Rightarrow> [Notification cb meth data]) else [])
          (om_insert k v m)) =
        concat (map (\<lambda>(k, u). if P k u then (case u_resp_cb u of None \<Rightarrow> [] | Some cb \<Rightarrow> [Notification cb meth data]) else []) m)"
    if "om_find m k \<noteq> None" "om_ok m" for v m
    using that assms(2) by (induction k v m rule: om_insert.induct) (auto simp: om_find_def split: if_splits)
  then show ?thesis using assms(1) by (auto simp: notify_def update_user_def split: option.split)
qed

lemma ReleaseUserResources_simps:
  assumes "om_ok (rm_users r)" "om_find (rm_users r) k = Some u" "ReleaseUserResources now_ms k r = (msgs, r')"
  shows "om_find (rm_users r') k' = (if k' = k then None else om_find (rm_users r) k')" "om_ok (rm_users r')"
    "rm_pullers r' = rm_pullers r"
    "rm_pusherId2pusher r' = filter (\<lambda>(p, uid). uid \<noteq> k) (rm_pusherId2pusher r)"
    "rm_sendRelay r' = om_erase k (rm_sendRelay r)"
    "rm_pusher2pullers r' = om_erase k (map (\<lambda>(p, m).
        (p, filter (\<lambda>(pid, i). mp_puller_user_id (rm_pullers r ! i) \<noteq> k) m)) (rm_pusher2pullers r))"
    "msgs = notify (other_local k) ''userLeave'' (UserNote k (rm_room_id r)) r @
       (if rm_pilot_client r then [PilotNotification ''userLeave'' (UserNote k (rm_room_id r))] else [])"
proof -
  let ?r1 = "update_user (SetRespCb None) k r"
  have l: "UserLeave now_ms k r = (0, notify (other_local k) ''userLeave'' (UserNote k (rm_room_id r)) ?r1 @
      fst (UserLeave2PilotCenter now_ms k ?r1), snd (UserLeave2PilotCenter now_ms k ?r1))"
    using assms(2) by (simp add: UserLeave_def split_beta Let_def)
  have f: "om_find (rm_users ?r1) k = Some (SetRespCb None u)"
    using assms(1,2) by (simp add: update_user_find)
  have n: "notify (other_local k) ''userLeave'' (UserNote k (rm_room_id r)) ?r1 =
      notify (other_local k) ''userLeave'' (UserNote k (rm_room_id r)) r"
    by (rule notify_update [OF assms(1)]) (simp add: other_local_def)
  have ok: "om_ok (rm_users ?r1)" using assms(1) by (simp add: update_user_def split: option.split)
  have ids: "r' = (snd (UserLeave2PilotCenter now_ms k ?r1))\<lparr>rm_users := om_erase k (rm_users ?r1),
      rm_pusherId2pusher := filter (\<lambda>(p, uid). uid \<noteq> k) (rm_pusherId2pusher r),
      rm_sendRelay := om_erase k (rm_sendRelay r),
      rm_pusher2pullers := om_erase k (map (\<lambda>(p, m).
        (p, filter (\<lambda>(pid, i). mp_puller_user_id (rm_pullers r ! i) \<noteq> k) m)) (rm_pusher2pullers r))\<rparr>"
    and "msgs = notify (other_local k) ''userLeave'' (UserNote k (rm_room_id r)) r @ fst (UserLeave2PilotCenter now_ms k ?r1)"
    using assms(3) f n by (simp_all add: ReleaseUserResources_def l UserLeave2PilotCenter_def)
  then show "msgs = notify (other_local k) ''userLeave'' (UserNote k (rm_room_id r)) r @
       (if rm_pilot_client r then [PilotNotification ''userLeave'' (UserNote k (rm_room_id r))] else [])"
    by (simp add: UserLeave2PilotCenter_def)
  show "om_find (rm_users r') k' = (if k' = k then None else om_find (rm_users r) k')"
    using assms(1) by (simp add: ids update_user_find)
  show "om_ok (rm_users r')" using ok by (simp add: ids)
  show "rm_pullers r' = rm_pullers r"
    "rm_pusherId2pusher r' = filter (\<lambda>(p, uid). uid \<noteq> k) (rm_pusherId2pusher r)"
    "rm_sendRelay r' = om_erase k (rm_sendRelay r)"
    "rm_pusher2pullers r' = om_erase k (map (\<lambda>(p, m).
        (p, filter (\<lambda>(pid, i). mp_puller_user_id (rm_pullers r ! i) \<noteq> k) m)) (rm_pusher2pullers r))"
    by (simp_all add: ids UserLeave2PilotCenter_def)
qed

lemma ReleaseUserResources_absent:
  "om_find (rm_users r) k = None \<Longrightarrow> ReleaseUserResources now_ms k r = ([], r)"
  by (simp add: ReleaseUserResources_def UserLeave_def)

lemma ReleaseUserResources_alive: "rm_last_alive_ms (snd (ReleaseUserResources now_ms k r)) \<in> {rm_last_alive_ms r, now_ms}"
  by (auto simp: ReleaseUserResources_def UserLeave_def UserLeave2PilotCenter_def to_pilot_def Let_def split: option.split)

lemma release_all_users:
  "om_ok (rm_users r) \<Longrightarrow> release_all now_ms ids r = (msgs, r') \<Longrightarrow>
     om_ok (rm_users r') \<and> rm_last_alive_ms r' \<in> {rm_last_alive_ms r, now_ms} \<and>
     om_find (rm_users r') k = (if k \<in> set ids then None else om_find (rm_users r) k)"
proof (induction ids arbitrary: r msgs)
  case (Cons a ids)
  obtain m1 r1 where r1: "ReleaseUserResources now_ms a r = (m1, r1)" by (cases "ReleaseUserResources now_ms a r")
  obtain m2 where r2: "release_all now_ms ids r1 = (m2, r')" using Cons.prems(2) r1 by (auto split: prod.splits)
  have u: "om_ok (rm_users r1) \<and> om_find (rm_users r1) k = (if k = a then None else om_find (rm_users r) k)"
  proof (cases "om_find (rm_users r) a")
    case None
    then show ?thesis using Cons.prems(1) r1 ReleaseUserResources_absent by auto
  next
    case (Some u)
    show ?thesis using ReleaseUserResources_simps(1,2) [OF Cons.prems(1) Some r1] by blast
  qed
  have "rm_last_alive_ms r1 \<in> {rm_last_alive_ms r, now_ms}" using ReleaseUserResources_alive [of now_ms a r] r1 by simp
  then show ?case using Cons.IH [OF _ r2] u by auto
qed simp

text \<open>
  C27. The room's timer removes exactly the local users that have not been heard of for longer than their timeout; every
  other user, and in particular every user of another SFU, stays as it was. A room that had a user counts as alive for
  another 90 seconds.
\<close>

theorem room_timer:
  assumes "om_ok (rm_users r)" "OnTimer_users now_ms r = (msgs, r')"
  shows "om_find (rm_users r') k =
      (case om_find (rm_users r) k of
         None \<Rightarrow> None
       | Some u \<Rightarrow> if u_is_remote u \<or> now_ms - sint (u_last_heartbeat_ms u) \<le> user_timeout u then Some u else None) \<and>
    (rm_users r \<noteq> [] \<longrightarrow> (room_IsAlive t r' \<longleftrightarrow> t < now_ms + 90000))"
proof -
  let ?r = "if rm_users r \<noteq> [] then r\<lparr>rm_last_alive_ms := now_ms\<rparr> else r"
  let ?ids = "map fst (filter (\<lambda>(k, u). \<not> u_is_remote u \<and> \<not> user_IsAlive now_ms u) (rm_users r))"
  have t: "release_all now_ms ?ids ?r = (msgs, r')" using assms(2) by (simp add: OnTimer_users_def)
  have ok: "om_ok (rm_users ?r)" using assms(1) by simp
  note R = release_all_users [OF ok t]
  have "k \<in> set ?ids \<longleftrightarrow> (\<exists>u. om_find (rm_users r) k = Some u \<and> \<not> u_is_remote u \<and> \<not> user_IsAlive now_ms u)"
    using assms(1) by (force simp: om_find_Some)
  with R [of k] have "om_find (rm_users r') k =
      (case om_find (rm_users r) k of
         None \<Rightarrow> None | Some u \<Rightarrow> if u_is_remote u \<or> user_IsAlive now_ms u then Some u else None)"
    by (auto split: option.split)
  moreover have "rm_users r \<noteq> [] \<Longrightarrow> rm_last_alive_ms r' = now_ms" using R by simp
  ultimately show ?thesis by (auto simp: user_IsAlive_def room_IsAlive_def split: option.split)
qed

definition room_example :: room where
  \<comment> \<open>user 1 was last heard of at 1000, user 2 at 50000 and user 3 belongs to another SFU\<close>
  "room_example = snd (HandleNewUserNotificationFromCenter 900 (Some ([3], [67]))
     (snd (snd (UserJoin 50000 [2] [66] False 2 22 (snd (snd (UserJoin 1000 [1] [65] False 1 11 (Room_new [9] True 0))))))))"

theorem room_timer_witness:
  "\<exists>msgs r'. OnTimer_users 60000 room_example = (msgs, r') \<and> om_find (rm_users r') [1] = None \<and>
     om_find (rm_users r') [2] \<noteq> None \<and> om_find (rm_users r') [3] \<noteq> None \<and> room_IsAlive 149999 r'"
proof -
  obtain msgs r' where t: "OnTimer_users 60000 room_example = (msgs, r')" by (cases "OnTimer_users 60000 room_example")
  have e: "rm_users room_example =
      [([1], RtcUser_new 1000 [9] [1] [65] False (Some 11)), ([2], RtcUser_new 50000 [9] [2] [66] False (Some 22)),
       ([3], SetRemote True (RtcUser_new 900 [9] [3] [67] False None))]"
    by (simp add: room_example_def UserJoin_def Room_new_def Join2PilotCenter_def to_pilot_def NotifyNewUser_def
        HandleNewUserNotificationFromCenter_def om_find_def Let_def)
  note T = room_timer [OF _ t]
  show ?thesis using t T [of "[1]" 149999] T [of "[2]" 149999] T [of "[3]" 149999]
    by (simp add: e om_find_def RtcUser_new_def SetRemote_def user_timeout_def sint_clock)
qed

lemma om_find_map_filter: "om_find (map (\<lambda>(p, m). (p, f p m)) ps) p = map_option (f p) (om_find ps p)"
  by (induction ps) (auto simp: om_find_def)

lemma notify_one:
  "m \<in> set (if P k u then (case u_resp_cb u of None \<Rightarrow> [] | Some cb \<Rightarrow> [Notification cb meth data]) else []) \<longleftrightarrow>
     P k u \<and> u_resp_cb u \<noteq> None \<and> m = Notification (the (u_resp_cb u)) meth data"
  by (cases "u_resp_cb u"; cases "P k u") (simp_all only: option.case option.simps if_True if_False list.set empty_iff singleton_iff option.sel simp_thms insert_iff)

lemma notify_mem:
  "m \<in> set (notify P meth data r) \<longleftrightarrow> (\<exists>x \<in> set (rm_users r). P (fst x) (snd x) \<and> u_resp_cb (snd x) \<noteq> None \<and>
     m = Notification (the (u_resp_cb (snd x))) meth data)"
  by (simp only: notify_def set_concat set_map UN_iff bex_simps split_beta notify_one)

lemma notify_count:
  assumes "om_ok (rm_users r)"
  shows "set (notify P meth data r) = {Notification cb meth data | k u cb.
     om_find (rm_users r) k = Some u \<and> P k u \<and> u_resp_cb u = Some cb}"
  unfolding set_eq_iff notify_mem om_find_Some [OF assms] mem_Collect_eq by force

text \<open>
  C28. When the resources of a member are released, the member, all the tracks it publishes, its relay to other SFUs and
  all its subscriptions are gone, and nothing of any other user is: users, tracks, relays and subscriptions of others
  stay. The connections that hear about it are exactly those of the other local users, and the pilot center is told.
\<close>

theorem room_release:
  assumes "om_ok (rm_users r)" "om_find (rm_users r) k = Some u" "ReleaseUserResources now_ms k r = (msgs, r')"
  shows "om_find (rm_users r') k' = (if k' = k then None else om_find (rm_users r) k') \<and>
    ((p, owner) \<in> set (rm_pusherId2pusher r') \<longleftrightarrow> (p, owner) \<in> set (rm_pusherId2pusher r) \<and> owner \<noteq> k) \<and>
    om_find (rm_sendRelay r') k' = (if k' = k then None else om_find (rm_sendRelay r) k') \<and>
    (p \<noteq> k \<longrightarrow> om_find (rm_pusher2pullers r') p =
       map_option (filter (\<lambda>(pid, i). mp_puller_user_id (rm_pullers r ! i) \<noteq> k)) (om_find (rm_pusher2pullers r) p)) \<and>
    set msgs = {Notification cb ''userLeave'' (UserNote k (rm_room_id r)) | k' u' cb.
        om_find (rm_users r) k' = Some u' \<and> k' \<noteq> k \<and> \<not> u_is_remote u' \<and> u_resp_cb u' = Some cb} \<union>
      (if rm_pilot_client r then {PilotNotification ''userLeave'' (UserNote k (rm_room_id r))} else {})"
proof -
  note R = ReleaseUserResources_simps [OF assms]
  show ?thesis by (auto simp: R(1,4-7) om_find_map_filter notify_count [OF assms(1)] other_local_def)
qed

theorem room_release_witness:
  "\<exists>msgs r'. ReleaseUserResources 60000 [1] room_example = (msgs, r') \<and> om_find (rm_users r') [1] = None \<and>
     set msgs = {Notification 22 ''userLeave'' (UserNote [1] [9]), PilotNotification ''userLeave'' (UserNote [1] [9])}"
proof -
  obtain msgs r' where t: "ReleaseUserResources 60000 [1] room_example = (msgs, r')"
    by (cases "ReleaseUserResources 60000 [1] room_example")
  have e: "rm_users room_example =
      [([1], RtcUser_new 1000 [9] [1] [65] False (Some 11)), ([2], RtcUser_new 50000 [9] [2] [66] False (Some 22)),
       ([3], SetRemote True (RtcUser_new 900 [9] [3] [67] False None))]" "rm_room_id room_example = [9]" "rm_pilot_client room_example"
    by (simp_all add: room_example_def UserJoin_def Room_new_def Join2PilotCenter_def to_pilot_def NotifyNewUser_def
        HandleNewUserNotificationFromCenter_def om_find_def Let_def)
  have "om_ok (rm_users room_example)" "om_find (rm_users room_example) [1] = Some (RtcUser_new 1000 [9] [1] [65] False (Some 11))"
    by (simp_all add: e om_find_def)
  from room_release [OF this t, of "[1]"] t show ?thesis
    by (auto simp: e om_find_def RtcUser_new_def SetRemote_def split: if_splits) (rule exI [of _ "[2]"], simp)
qed

section \<open>The operations keep the invariant\<close>

definition room_ok :: "room \<Rightarrow> bool" where
  "room_ok r \<longleftrightarrow> users_ok r \<and> pullers_ok r"

lemma users_ok_cong: "rm_users r' = rm_users r \<Longrightarrow> users_ok r \<Longrightarrow> users_ok r'"
  by (simp add: users_ok_def)

lemma pullers_ok_cong: "rm_pullers r' = rm_pullers r \<Longrightarrow> rm_pusher2pullers r' = rm_pusher2pullers r \<Longrightarrow> pullers_ok r \<Longrightarrow> pullers_ok r'"
  by (simp add: pullers_ok_def)

lemma pullers_okI:
  assumes "om_ok (rm_pusher2pullers r)" "distinct (puller_refs (rm_pusher2pullers r))"
    and "\<And>k m. (k, m) \<in> set (rm_pusher2pullers r) \<Longrightarrow>
      om_ok m \<and> (\<forall>(pid, i) \<in> set m. i < length (rm_pullers r) \<and> mp_pusher_id (rm_pullers r ! i) = k)"
  shows "pullers_ok r"
  using assms(1,2) assms(3) [of "fst x" "snd x" for x] by (simp add: pullers_ok_def split_beta)

definition shrunk :: "(bytes, (bytes, nat) omap) omap \<Rightarrow> (bytes, (bytes, nat) omap) omap \<Rightarrow> bool" where
  \<comment> \<open>the same tracks, each with some of its subscriptions\<close>
  "shrunk = list_all2 (\<lambda>(k, m) (k', m'). k' = k \<and> (\<exists>Q. m' = filter Q m))"

lemma shrunk_refs:
  "shrunk ps ps' \<Longrightarrow> distinct (puller_refs ps) \<Longrightarrow>
     distinct (puller_refs ps') \<and> set (puller_refs ps') \<subseteq> set (puller_refs ps) \<and> map fst ps' = map fst ps \<and>
     (\<forall>(k, m') \<in> set ps'. \<exists>Q m. (k, m) \<in> set ps \<and> m' = filter Q m)"
proof (induction ps arbitrary: ps')
  case Nil
  then show ?case by (simp add: shrunk_def puller_refs_def)
next
  case (Cons a ps)
  obtain k m Q qs where a: "a = (k, m)" "ps' = (k, filter Q m) # qs" "shrunk ps qs"
    using Cons.prems(1) by (cases a) (auto simp: shrunk_def list_all2_Cons1)
  have d: "distinct (puller_refs ps)" "distinct (map snd m)" "set (map snd m) \<inter> set (puller_refs ps) = {}"
    using Cons.prems(2) by (auto simp: a(1) puller_refs_def)
  note IH = Cons.IH [OF a(3) d(1)]
  have f: "distinct (map snd (filter Q m))" "set (map snd (filter Q m)) \<subseteq> set (map snd m)"
    using d(2) by (auto simp: distinct_map_filter)
  have "puller_refs ps' = map snd (filter Q m) @ puller_refs qs" "puller_refs (a # ps) = map snd m @ puller_refs ps"
    by (simp_all add: a puller_refs_def)
  moreover have "\<exists>Q' m1. (k1, m1) \<in> set (a # ps) \<and> m2 = filter Q' m1" if "(k1, m2) \<in> set ps'" for k1 m2
  proof (cases "(k1, m2) = (k, filter Q m)")
    case True
    then show ?thesis by (intro exI [of _ Q] exI [of _ m]) (simp add: a(1))
  next
    case False
    then have "(k1, m2) \<in> set qs" using that by (auto simp: a(2))
    then show ?thesis using IH by fastforce
  qed
  moreover have "distinct (map snd (filter Q m) @ puller_refs qs)"
    using IH f d(3) by (simp only: distinct_append) blast
  ultimately show ?case using IH f(2) by (simp add: a(1,2)) blast
qed

lemma distinct_concat_filter: "distinct (concat (map f xs)) \<Longrightarrow> distinct (concat (map f (filter R xs)))"
  by (induction xs) auto

lemma pullers_ok_shrunk:
  assumes "pullers_ok r" "shrunk (rm_pusher2pullers r) ps" "rm_pullers r' = rm_pullers r"
    and "rm_pusher2pullers r' = filter (\<lambda>km. K (fst km)) ps"
  shows "pullers_ok r'"
proof -
  have ok: "om_ok (rm_pusher2pullers r)" "distinct (puller_refs (rm_pusher2pullers r))"
    using assms(1) by (simp_all add: pullers_ok_def)
  have el: "om_ok m \<and> (\<forall>(pid, i) \<in> set m. i < length (rm_pullers r) \<and> mp_pusher_id (rm_pullers r ! i) = k)"
      if "(k, m) \<in> set (rm_pusher2pullers r)" for k m
    using assms(1) that by (auto simp: pullers_ok_def)
  note S = shrunk_refs [OF assms(2) ok(2)]
  have "om_ok ps" using ok(1) S by (simp add: om_ok_def)
  then have "om_ok (rm_pusher2pullers r')" by (simp add: assms(4) om_ok_def sorted_wrt_map sorted_wrt_filter)
  moreover have "distinct (puller_refs (rm_pusher2pullers r'))"
    unfolding puller_refs_def assms(4) by (rule distinct_concat_filter) (use S in \<open>simp add: puller_refs_def\<close>)
  moreover have "om_ok m' \<and> (\<forall>(pid, i) \<in> set m'. i < length (rm_pullers r') \<and> mp_pusher_id (rm_pullers r' ! i) = k)"
    if e: "(k, m') \<in> set (rm_pusher2pullers r')" for k m'
  proof -
    obtain Q m where m: "(k, m) \<in> set (rm_pusher2pullers r)" "m' = filter Q m" using e S assms(4) by fastforce
    have "om_ok m'" using el [OF m(1)] by (simp add: m(2) om_ok_def sorted_wrt_map sorted_wrt_filter)
    then show ?thesis using el [OF m(1)] by (auto simp: m(2) assms(3))
  qed
  ultimately show ?thesis by (rule pullers_okI)
qed

lemma pull_close_shrunk: "shrunk ps (pull_close puller_id ps)"
proof (induction ps)
  case (Cons a ps)
  have r: "shrunk ps ps" for ps
    unfolding shrunk_def by (rule list.rel_refl) (auto intro: exI [of _ "\<lambda>_. True"])
  have "\<exists>Q. m = filter Q m" for m :: "(bytes, nat) omap" by (rule exI [of _ "\<lambda>_. True"]) simp
  then show ?case using Cons.IH r [of ps] by (cases a) (auto simp: shrunk_def om_erase_def)
qed (simp add: shrunk_def)

lemma pullers_ok_release: "pullers_ok r \<Longrightarrow> pullers_ok (snd (ReleaseUserResources now_ms k r))"
proof -
  assume ok: "pullers_ok r"
  show ?thesis
  proof (cases "om_find (rm_users (snd (snd (UserLeave now_ms k r)))) k = None")
    case True
    then show ?thesis using ok
      by (intro pullers_ok_cong [OF _ _ ok]) (auto simp: ReleaseUserResources_def UserLeave_def UserLeave2PilotCenter_def split_beta Let_def split: option.splits)
  next
    case False
    show ?thesis
      by (rule pullers_ok_shrunk [OF ok, of "map (\<lambda>(p, m). (p, filter (\<lambda>(pid, i). mp_puller_user_id (rm_pullers r ! i) \<noteq> k) m))
            (rm_pusher2pullers r)" _ "\<lambda>p. p \<noteq> k"])
        (use False in \<open>auto simp: shrunk_def list.rel_map intro!: list.rel_refl, auto simp: ReleaseUserResources_def UserLeave_def
           UserLeave2PilotCenter_def split_beta Let_def om_erase_def split: option.splits\<close>)
  qed
qed

lemma snd_om_insert:
  "set (map snd (om_insert k n m)) \<subseteq> insert n (set (map snd m)) \<and>
     (n \<notin> set (map snd m) \<longrightarrow> distinct (map snd m) \<longrightarrow> distinct (map snd (om_insert k n m)))"
  by (induction k n m rule: om_insert.induct) auto

lemma puller_refs_simps [simp]:
  "puller_refs [] = []"
  "puller_refs ((k, m) # ps) = map snd m @ puller_refs ps"
  by (simp_all add: puller_refs_def)

definition pullers_of :: "bytes \<Rightarrow> (bytes, (bytes, nat) omap) omap \<Rightarrow> (bytes, nat) omap" where
  "pullers_of k ps = (case om_find ps k of None \<Rightarrow> [] | Some m \<Rightarrow> m)"

lemma puller_refs_insert:
  assumes "om_ok ps" "n \<notin> set (puller_refs ps)" "distinct (puller_refs ps)"
  shows "distinct (puller_refs (om_insert k (om_insert pid n (pullers_of k ps)) ps)) \<and>
    set (puller_refs (om_insert k (om_insert pid n (pullers_of k ps)) ps)) \<subseteq> insert n (set (puller_refs ps))"
  using assms
proof (induction ps)
  case Nil
  then show ?case by (simp add: pullers_of_def)
next
  case (Cons a ps)
  obtain k' m' where a: "a = (k', m')" by (cases a)
  have d: "distinct (map snd m')" "n \<notin> set (map snd m')" "set (map snd m') \<inter> set (puller_refs ps) = {}"
    "n \<notin> set (puller_refs ps)" "distinct (puller_refs ps)" "om_ok ps"
    using Cons.prems by (auto simp: a)
  note IH = Cons.IH [OF d(6,4,5)]
  show ?case
  proof (cases k k' rule: linorder_cases)
    case 1: less
    have "k' < k" if "k \<in> fst ` set ps" using that Cons.prems(1) by (simp only: a om_ok_simps)
    then have "k \<notin> fst ` set (a # ps)" using 1 by (simp add: a) (metis order.asym)
    then have "pullers_of k (a # ps) = []" by (simp add: pullers_of_def om_find_None [THEN iffD2])
    moreover have "om_insert k v (a # ps) = (k, v) # a # ps" for v using 1 by (simp add: a)
    ultimately show ?thesis using Cons.prems(2,3) by (simp add: a)
  next
    case 2: equal
    have "pullers_of k (a # ps) = m'" by (simp add: a 2 om_find_def pullers_of_def)
    moreover have "distinct (map snd (om_insert pid n m'))" using snd_om_insert [of pid n m'] d(1,2) by blast
    moreover have "set (map snd (om_insert pid n m')) \<inter> set (puller_refs ps) = {}"
      using snd_om_insert [of pid n m'] d(3,4) by blast
    moreover have "set (map snd (om_insert pid n m')) \<subseteq> insert n (set (map snd m'))"
      using snd_om_insert [of pid n m'] by blast
    ultimately show ?thesis using 2 d(5) by (simp only: a om_insert.simps order.irrefl if_False if_True refl puller_refs_simps
          distinct_append set_append) blast
  next
    case 3: greater
    then have "pullers_of k (a # ps) = pullers_of k ps" by (auto simp: a om_find_def pullers_of_def)
    moreover have "set (map snd m') \<inter> set (puller_refs (om_insert k (om_insert pid n (pullers_of k ps)) ps)) = {}"
      using IH d(2,3) by blast
    moreover have "om_insert k v (a # ps) = (k', m') # om_insert k v ps" for v using 3 by (auto simp: a)
    ultimately show ?thesis using IH d(1) by (simp only: a puller_refs_simps distinct_append set_append) blast
  qed
qed

lemma add_puller_ok:
  assumes "pullers_ok r"
  shows "pullers_ok (add_puller p r)"
proof -
  let ?n = "length (rm_pullers r)" and ?ps = "rm_pusher2pullers r" and ?k = "mp_pusher_id p" and ?l = "rm_pullers r @ [p]"
  let ?m = "pullers_of ?k ?ps"
  have ok: "om_ok ?ps" "distinct (puller_refs ?ps)" using assms by (simp_all add: pullers_ok_def)
  have el: "om_ok m" "(pid, i) \<in> set m \<Longrightarrow> i < ?n \<and> mp_pusher_id (rm_pullers r ! i) = k" if "(k, m) \<in> set ?ps" for k m pid i
    using assms that by (auto simp: pullers_ok_def)
  have "om_ok ?m \<and> (\<forall>(pid, i) \<in> set ?m. i < ?n \<and> mp_pusher_id (rm_pullers r ! i) = ?k)"
  proof (cases "om_find ?ps ?k")
    case (Some m)
    then have "(?k, m) \<in> set ?ps" by (simp add: om_find_Some [OF ok(1)])
    then show ?thesis using el [of ?k m] Some by (auto simp: pullers_of_def)
  qed (simp add: pullers_of_def)
  then have m: "om_ok ?m" "\<And>pid i. (pid, i) \<in> set ?m \<Longrightarrow> i < ?n \<and> mp_pusher_id (rm_pullers r ! i) = ?k" by auto
  have "?n \<notin> set (puller_refs ?ps)" unfolding puller_refs_def using el(2) by fastforce
  note refs = puller_refs_insert [OF ok(1) this ok(2), of ?k "mp_puller_id p"]
  have old: "i < length ?l \<and> mp_pusher_id (?l ! i) = k" if "i < ?n \<and> mp_pusher_id (rm_pullers r ! i) = k" for i k
    using that by (simp add: nth_append)
  have "om_ok m2 \<and> (\<forall>(pid, i) \<in> set m2. i < length ?l \<and> mp_pusher_id (?l ! i) = k)"
    if e: "(k, m2) \<in> set (om_insert ?k (om_insert (mp_puller_id p) ?n ?m) ?ps)" for k m2
  proof -
    consider "k = ?k" "m2 = om_insert (mp_puller_id p) ?n ?m" | "(k, m2) \<in> set ?ps"
      using e set_om_insert_subset [of ?k "om_insert (mp_puller_id p) ?n ?m" ?ps] by auto
    then show ?thesis
    proof cases
      case 1
      have "i < length ?l \<and> mp_pusher_id (?l ! i) = k" if "(pid, i) \<in> set m2" for pid i
        using that set_om_insert_subset [of "mp_puller_id p" ?n ?m] m(2) [of pid i, THEN old] 1 by auto
      moreover have "om_ok m2" using m(1) 1 by simp
      ultimately show ?thesis by blast
    next
      case 2
      then show ?thesis using el [OF 2] old by blast
    qed
  qed
  moreover have "rm_pusher2pullers (add_puller p r) = om_insert ?k (om_insert (mp_puller_id p) ?n ?m) ?ps"
    "rm_pullers (add_puller p r) = ?l" by (simp_all add: add_puller_def pullers_of_def)
  ultimately show ?thesis using refs ok(1) by (intro pullers_okI) simp_all
qed

lemma users_ok_iff: "users_ok r \<longleftrightarrow> om_ok (rm_users r) \<and> (\<forall>k u. om_find (rm_users r) k = Some u \<longrightarrow> u_user_id u = k)"
  using om_find_Some [of "rm_users r"] by (auto simp: users_ok_def)

lemma users_ok_release:
  assumes "users_ok r"
  shows "users_ok (snd (ReleaseUserResources now_ms k r))"
proof (cases "om_find (rm_users r) k")
  case None
  then show ?thesis using assms by (simp add: ReleaseUserResources_absent)
next
  case (Some u)
  obtain msgs r' where r: "ReleaseUserResources now_ms k r = (msgs, r')" by (cases "ReleaseUserResources now_ms k r")
  have ok: "om_ok (rm_users r)" using assms by (simp add: users_ok_def)
  show ?thesis using ReleaseUserResources_simps(1,2) [OF ok Some r] assms by (simp add: users_ok_iff r)
qed

lemma release_ok: "room_ok r \<Longrightarrow> room_ok (snd (ReleaseUserResources now_ms k r))"
  by (simp add: room_ok_def users_ok_release pullers_ok_release)

lemma release_all_ok: "room_ok r \<Longrightarrow> room_ok (snd (release_all now_ms ids r))"
proof (induction ids arbitrary: r)
  case (Cons a ids)
  then show ?case using Cons.IH [OF release_ok [OF Cons.prems]] by (simp add: split_beta Let_def)
qed simp

lemma room_ok_cong:
  "rm_users r' = rm_users r \<Longrightarrow> rm_pullers r' = rm_pullers r \<Longrightarrow> rm_pusher2pullers r' = rm_pusher2pullers r \<Longrightarrow>
     room_ok r \<Longrightarrow> room_ok r'"
  by (simp add: room_ok_def users_ok_def pullers_ok_def)

lemma room_ok_insert:
  assumes "room_ok r" "u_user_id u = k" "rm_users r' = om_insert k u (rm_users r)"
    and "rm_pullers r' = rm_pullers r" "rm_pusher2pullers r' = rm_pusher2pullers r"
  shows "room_ok r'"
  using assms users_ok_insert [of r u k r] by (simp add: room_ok_def users_ok_def pullers_ok_def)

lemma OnTimer_users_ok: "room_ok r \<Longrightarrow> room_ok (snd (OnTimer_users now_ms r))"
  by (simp add: OnTimer_users_def release_all_ok room_ok_cong [of "r\<lparr>rm_last_alive_ms := now_ms\<rparr>" r])

lemma OnPullClose_ok: "room_ok r \<Longrightarrow> room_ok (OnPullClose puller_id r)"
  using pullers_ok_shrunk [OF _ pull_close_shrunk [of _ puller_id], of r "OnPullClose puller_id r" "\<lambda>_. True"]
  by (simp add: room_ok_def users_ok_def OnPullClose_def)

lemma update_user_ok: "room_ok r \<Longrightarrow> (\<And>u. u_user_id (f u) = u_user_id u) \<Longrightarrow> room_ok (update_user f k r)"
  by (simp add: room_ok_def users_ok_update pullers_ok_cong [of "update_user f k r" r])

lemma NotifyNewUser_state [simp]:
  "rm_users (snd (NotifyNewUser now_ms k n r)) = rm_users r"
  "rm_pullers (snd (NotifyNewUser now_ms k n r)) = rm_pullers r"
  "rm_pusher2pullers (snd (NotifyNewUser now_ms k n r)) = rm_pusher2pullers r"
  by (simp_all add: NotifyNewUser_def split: option.split)

lemma join_ok:
  assumes "room_ok r"
  shows "room_ok (snd (snd (UserJoin now_ms k n a q cb r)))" "room_ok (snd (snd (WhipUserJoin now_ms k n r)))"
    "room_ok (snd (HandleNewUserNotificationFromCenter now_ms d r))"
proof -
  have f: "u_user_id u = k" if "om_find (rm_users r) k = Some u" for u k
    using assms that by (simp add: room_ok_def users_ok_iff)
  let ?new = "RtcUser_new now_ms (rm_room_id r) k n a (Some cb)" and ?w = "case om_find (rm_users r) k of
      Some u \<Rightarrow> SetWhip True u | None \<Rightarrow> SetWhip True (RtcUser_new now_ms (rm_room_id r) k n False None)"
  show "room_ok (snd (snd (UserJoin now_ms k n a q cb r)))"
  proof (cases "om_find (rm_users r) k")
    case None
    then show ?thesis using assms room_ok_insert [OF assms, of ?new k]
      by (simp add: UserJoin_def Let_def split_beta Join2PilotCenter_def RtcUser_new_def)
  next
    case (Some u)
    then show ?thesis using assms f [OF Some] room_ok_insert [OF assms, of "SetAudience a u" k]
      by (simp add: UserJoin_def Let_def split_beta SetAudience_def)
  qed
  have "u_user_id ?w = k" using f by (auto simp: SetWhip_def RtcUser_new_def split: option.split)
  then show "room_ok (snd (snd (WhipUserJoin now_ms k n r)))" using assms room_ok_insert [OF assms, of ?w k]
    by (simp add: WhipUserJoin_def Let_def split_beta Join2PilotCenter_def)
  show "room_ok (snd (HandleNewUserNotificationFromCenter now_ms d r))"
    using assms room_ok_insert [OF assms, of "SetRemote True (RtcUser_new now_ms (rm_room_id r) (fst (the d)) (snd (the d)) False None)"]
      room_ok_cong [of "r\<lparr>rm_last_alive_ms := now_ms\<rparr>" r]
    by (auto simp: HandleNewUserNotificationFromCenter_def Let_def SetRemote_def RtcUser_new_def split: option.split)
qed

lemma leave_ok:
  assumes "room_ok r"
  shows "room_ok (snd (snd (UserLeave now_ms k r)))" "room_ok (snd (snd (DisconnectUser now_ms k r)))"
    "room_ok (snd (HandleWsHeartbeat now_ms k r))"
proof -
  have u: "room_ok (update_user (SetRespCb None) k r)" using update_user_ok [OF assms] by (simp add: SetRespCb_def)
  show "room_ok (snd (snd (UserLeave now_ms k r)))" "room_ok (snd (snd (DisconnectUser now_ms k r)))"
    using assms room_ok_cong [OF _ _ _ u]
    by (simp_all add: UserLeave_def DisconnectUser_def UserLeave2PilotCenter_def UserDisconnect2PilotCenter_def Let_def split_beta
        split: option.split)
  have l: "room_ok (r\<lparr>rm_last_alive_ms := now_ms\<rparr>)" by (rule room_ok_cong [OF _ _ _ assms]) simp_all
  show "room_ok (snd (HandleWsHeartbeat now_ms k r))"
    using l update_user_ok [OF l] by (simp add: HandleWsHeartbeat_def UpdateHeartbeat_def Let_def)
qed

end
