(* ===== verification/Room_Media.thy ===== *)
theory Room_Media
  imports Room
begin

text \<open>
  The media side of \<open>Room\<close> (\<open>webrtc_room/room.cpp\<close>): a packet of a publisher is cloned for every subscription of the
  track and for the relay to other SFUs. Datagrams are returned with the position of the subscription they belong to.
  \<open>cm\<close> and \<open>sm\<close> give the blocks that the clone in the room and the one in the send session allocate, \<open>connected\<close>
  whether the transport of a subscription is connected. An exception of a subscription is caught and the loop goes
  on; one of \<open>Clone\<close> itself is not.
\<close>

section \<open>Model\<close>

fun fan_out :: "int \<Rightarrow> (nat \<Rightarrow> bytes) \<Rightarrow> (nat \<Rightarrow> bytes) \<Rightarrow> (nat \<Rightarrow> bool) \<Rightarrow> rtp_packet \<Rightarrow> (bytes \<times> nat) list \<Rightarrow> room \<Rightarrow>
    unit res \<times> (nat \<times> bytes) list \<times> room" where
  \<comment> \<open>the loop over the subscriptions of a track\<close>
  "fan_out now_ms cm sm connected rtp_packet [] r = (Inr (), [], r)"
| "fan_out now_ms cm sm connected rtp_packet ((puller_id, i) # m) r =
     (case Clone now_ms (cm i) True rtp_packet of
        Inl e \<Rightarrow> (Inl e, [], r)
      | Inr cpy_pkt \<Rightarrow>
          (case puller_OnTransportSendRtp now_ms (sm i) (connected i) cpy_pkt (rm_pullers r ! i) of
             (ret, ds, cpy_pkt', p') \<Rightarrow>
               let r1 = r\<lparr>rm_pullers := (rm_pullers r)[i := p']\<rparr>; out = map (Pair i) ds in
               if ret \<noteq> Inr () \<and> ret \<noteq> Inl Throw then (ret, out, r1)
               else let (ret', outs, r') = fan_out now_ms cm sm connected rtp_packet m
                      (update_user (UpdateHeartbeat now_ms 0) (mp_puller_user_id p') r1)
                    in (ret', out @ outs, r')))"

definition packet_arrived :: "int \<Rightarrow> bytes \<Rightarrow> room \<Rightarrow> room" where
  "packet_arrived now_ms user_id r = update_user (UpdateHeartbeat now_ms 0) user_id (r\<lparr>rm_last_alive_ms := now_ms\<rparr>)"

definition to_pullers :: "int \<Rightarrow> (nat \<Rightarrow> bytes) \<Rightarrow> (nat \<Rightarrow> bytes) \<Rightarrow> (nat \<Rightarrow> bool) \<Rightarrow> bytes \<Rightarrow> rtp_packet \<Rightarrow> room \<Rightarrow>
    unit res \<times> (nat \<times> bytes) list \<times> room" where
  "to_pullers now_ms cm sm connected pusher_id rtp_packet r =
     (case om_find (rm_pusher2pullers r) pusher_id of
        None \<Rightarrow> (Inr (), [], r)
      | Some m \<Rightarrow> fan_out now_ms cm sm connected rtp_packet m r)"

definition to_relay :: "int \<Rightarrow> bytes \<Rightarrow> bytes \<Rightarrow> (nat \<Rightarrow> u32) \<Rightarrow> bytes \<Rightarrow> rtp_packet \<Rightarrow> room \<Rightarrow> unit res \<times> relay_out list \<times> room" where
  \<comment> \<open>the first block is that of the clone, the second that of the relay's send session\<close>
  "to_relay now_ms cmem smem rand user_id rtp_packet r =
     (case om_find (rm_sendRelay r) user_id of
        None \<Rightarrow> (Inr (), [], r)
      | Some relay \<Rightarrow>
          (case Clone now_ms cmem True rtp_packet of
             Inl e \<Rightarrow> (Inl e, [], r)
           | Inr cpy_pkt \<Rightarrow>
               let (ret, outs, relay') = relay_SendRtpPacket now_ms smem rand cpy_pkt relay;
                   r1 = r\<lparr>rm_sendRelay := om_insert user_id relay' (rm_sendRelay r)\<rparr>
               in (if ret = Inl Throw then Inr () else ret, outs, r1)))"

definition OnRtpPacketFromRtcPusher ::
    "int \<Rightarrow> (nat \<Rightarrow> bytes) \<Rightarrow> (nat \<Rightarrow> bytes) \<Rightarrow> (nat \<Rightarrow> bool) \<Rightarrow> bytes \<Rightarrow> bytes \<Rightarrow> (nat \<Rightarrow> u32) \<Rightarrow>
     bytes \<Rightarrow> bytes \<Rightarrow> rtp_packet \<Rightarrow> room \<Rightarrow> unit res \<times> (nat \<times> bytes) list \<times> relay_out list \<times> room" where
  "OnRtpPacketFromRtcPusher now_ms cm sm connected cmem smem rand user_id pusher_id rtp_packet r =
     (case to_pullers now_ms cm sm connected pusher_id rtp_packet (packet_arrived now_ms user_id r) of
        (Inl e, outs, r1) \<Rightarrow> (Inl e, outs, [], r1)
      | (Inr _, outs, r1) \<Rightarrow>
          let (ret, routs, r2) = to_relay now_ms cmem smem rand user_id rtp_packet r1 in (ret, outs, routs, r2))"

definition OnRtpPacketFromRemoteRtcPusher ::
    "int \<Rightarrow> (nat \<Rightarrow> bytes) \<Rightarrow> (nat \<Rightarrow> bytes) \<Rightarrow> (nat \<Rightarrow> bool) \<Rightarrow> bytes \<Rightarrow> bytes \<Rightarrow> rtp_packet \<Rightarrow> room \<Rightarrow>
     unit res \<times> (nat \<times> bytes) list \<times> room" where
  "OnRtpPacketFromRemoteRtcPusher now_ms cm sm connected pusher_user_id pusher_id rtp_packet r =
     to_pullers now_ms cm sm connected pusher_id rtp_packet (packet_arrived now_ms pusher_user_id r)"

section \<open>Cloning\<close>

lemma Clone_parsed:
  assumes "Parse t (GetData pkt) (rp_data_len pkt) = Inr q" and "0 < rp_data_len pkt" "rp_data_len pkt < 1500"
    and "rp_data_len pkt \<le> length (rp_buf pkt)" "1500 \<le> length mem"
  obtains c where "Clone now_ms mem True pkt = Inr c" "rtp_ok c" "\<And>p d. forwarded p c d \<longleftrightarrow> forwarded p q d"
    "rp_payload_len c = rp_payload_len q" "rp_data_len c = rp_data_len pkt"
proof -
  let ?n = "rp_data_len pkt" and ?d = "GetData pkt"
  have l: "length ?d = ?n" using assms(4) by (simp add: GetData_def)
  have t: "take ?n ?d = take ?n (poke mem 0 ?d)" using l by (simp add: poke_def)
  have len: "?n \<le> length (poke mem 0 ?d)" using l assms(3,5) by simp
  have p: "Parse now_ms (poke mem 0 ?d) ?n = Inr (q\<lparr>rp_buf := poke mem 0 ?d, rp_local_ms := now_ms\<rparr>)"
    by (rule Parse_cong [OF t _ len assms(2,1)]) (simp add: l)
  let ?c = "q\<lparr>rp_buf := poke mem 0 ?d, rp_local_ms := rp_local_ms pkt, rp_need_delete := True,
      rp_mid_extension_id := rp_mid_extension_id pkt, rp_abs_time_extension_id := rp_abs_time_extension_id pkt,
      rp_tcc_extension_id := rp_tcc_extension_id pkt\<rparr>"
  have c: "Clone now_ms mem True pkt = Inr ?c"
    using p assms(3-5) by (simp add: Clone_def RTP_PACKET_MAX_SIZE_def GetData_def)
  note C = Clone_Inr [OF c assms(4)]
  note Q = Parse_Inr [OF assms(1)]
  have buf: "rp_buf q = ?d" "rp_data_len q = ?n" "12 \<le> ?n" using Q l by (auto simp: rtp_ok_def)
  have "take 12 (poke mem 0 ?d) = take 12 ?d" using l buf(3) by (simp add: poke_def)
  note H = hdr_take12 [OF this]
  have "forwarded p ?c d \<longleftrightarrow> forwarded p q d" for p d
    using C(2) buf by (simp add: forwarded_def GetSeq_def GetTimestamp_def GetMarker_def H GetData_def [of q] l)
  then show thesis using that [OF c C(1)] C(5) by simp
qed

section \<open>One subscription\<close>

definition puller_accepts :: "int \<Rightarrow> bytes \<Rightarrow> bool \<Rightarrow> rtp_packet \<Rightarrow> media_puller \<Rightarrow> bool" where
  \<comment> \<open>the transport is connected, there is something to send and the send session takes the packet\<close>
  "puller_accepts now_ms mem connected pkt p \<longleftrightarrow> connected \<and> 0 < rp_payload_len pkt \<and>
     (case (mp_send p, puller_ext_ids pkt p) of
        (Some s, Inr pkt1) \<Rightarrow> fst (SendRtpPacket now_ms mem pkt1 s) = Inr True
      | _ \<Rightarrow> False)"

definition puller_ready :: "media_puller \<Rightarrow> bool" where
  \<comment> \<open>as \<open>WebRtcSession::AddPullerRtpSession\<close> creates it\<close>
  "puller_ready p \<longleftrightarrow> mp_has_cb p \<and> mp_send p \<noteq> None \<and>
     take_bit 7 (p_payload_type (mp_param p)) = p_payload_type (mp_param p)"

lemma SendRtpPacket_throws_only:
  assumes "0 < rp_data_len pkt" "rp_data_len pkt < 1500" "rp_data_len pkt \<le> length (rp_buf pkt)" "1500 \<le> length mem"
  shows "fst (SendRtpPacket now_ms mem pkt s) \<in> {Inl Throw, Inr True, Inr False}"
proof -
  have "throws_only (Parse now_ms (poke mem 0 (take (rp_data_len pkt) (rp_buf pkt))) (rp_data_len pkt))"
    by (rule Parse_throws_only) (use assms in simp_all)
  then have c: "Clone now_ms mem True pkt = Inl Throw \<or> (\<exists>q. Clone now_ms mem True pkt = Inr q)"
    using assms by (cases "Parse now_ms (poke mem 0 (take (rp_data_len pkt) (rp_buf pkt))) (rp_data_len pkt)")
      (auto simp: Clone_def RTP_PACKET_MAX_SIZE_def throws_only_def)
  have "fst (send_store now_ms mem pkt t) \<in> {Inl Throw, Inr True}" for t
    using c by (auto simp: send_store_def StoreRtxPacket_def Let_def split: sum.split)
  then show ?thesis by (auto simp: SendRtpPacket_def Let_def split: prod.split bool.split)
qed

lemma puller_step:
  assumes ok: "rtp_ok pkt" "rp_data_len pkt < 1500" "1500 \<le> length mem" and p: "puller_ready p"
    and r: "puller_OnTransportSendRtp now_ms mem connected pkt p = (ret, ds, pkt', p')"
  shows "ret \<in> {Inr (), Inl Throw}" "puller_ready p'" "mp_pusher_id p' = mp_pusher_id p"
    "mp_puller_user_id p' = mp_puller_user_id p" "mp_param p' = mp_param p"
    "if puller_accepts now_ms mem connected pkt p then \<exists>d. ds = [d] \<and> forwarded p pkt d else ds = []"
proof -
  obtain pkt1 where q: "puller_ext_ids pkt p = Inr pkt1" "ext_frame pkt pkt1" using puller_ext_ids_frame [OF ok(1)] by blast
  obtain s where s: "mp_send p = Some s" using p by (auto simp: puller_ready_def)
  have pt: "take_bit 7 (p_payload_type (mp_param p)) = p_payload_type (mp_param p)" "mp_has_cb p"
    using p by (simp_all add: puller_ready_def)
  obtain b s' where b: "SendRtpPacket now_ms mem pkt1 s = (b, s')" by (cases "SendRtpPacket now_ms mem pkt1 s")
  have "b \<in> {Inl Throw, Inr True, Inr False}"
    using SendRtpPacket_throws_only [of pkt1 mem now_ms s] ok q(2) b by (auto simp: ext_frame_def rtp_ok_def)
  note B = this readdressed_forwarded(1) [OF ok(1) q(2) pt(1)]
  have a: "puller_accepts now_ms mem connected pkt p \<longleftrightarrow> connected \<and> 0 < rp_payload_len pkt \<and> b = Inr True"
    using s q b by (simp add: puller_accepts_def)
  show "if puller_accepts now_ms mem connected pkt p then \<exists>d. ds = [d] \<and> forwarded p pkt d else ds = []"
    "ret \<in> {Inr (), Inl Throw}"
    using r B s q b pt by (auto simp: a puller_OnTransportSendRtp_def Let_def split: if_splits)
  have "p' = p \<or> p' = p\<lparr>mp_send := Some s'\<rparr>"
    using r s q b pt by (auto simp: puller_OnTransportSendRtp_def Let_def split: if_splits sum.splits bool.splits)
  then show "puller_ready p'" "mp_pusher_id p' = mp_pusher_id p" "mp_puller_user_id p' = mp_puller_user_id p" "mp_param p' = mp_param p"
    using p by (auto simp: puller_ready_def)
qed

section \<open>All subscriptions of a track\<close>

definition receives :: "int \<Rightarrow> (nat \<Rightarrow> bytes) \<Rightarrow> (nat \<Rightarrow> bytes) \<Rightarrow> (nat \<Rightarrow> bool) \<Rightarrow> rtp_packet \<Rightarrow> room \<Rightarrow> nat \<Rightarrow> bool" where
  \<comment> \<open>subscription \<open>i\<close> accepts its clone of the packet\<close>
  "receives now_ms cm sm connected pkt r i \<longleftrightarrow>
     (case Clone now_ms (cm i) True pkt of
        Inl e \<Rightarrow> False
      | Inr c \<Rightarrow> puller_accepts now_ms (sm i) (connected i) c (rm_pullers r ! i))"

definition same_subscriptions :: "room \<Rightarrow> room \<Rightarrow> bool" where
  \<comment> \<open>the maps of the room and what identifies each subscription are unchanged\<close>
  "same_subscriptions r r' \<longleftrightarrow> rm_pusher2pullers r' = rm_pusher2pullers r \<and> rm_sendRelay r' = rm_sendRelay r \<and>
     rm_pusherId2pusher r' = rm_pusherId2pusher r \<and> length (rm_pullers r') = length (rm_pullers r) \<and>
     (\<forall>i < length (rm_pullers r). mp_pusher_id (rm_pullers r' ! i) = mp_pusher_id (rm_pullers r ! i) \<and>
        mp_param (rm_pullers r' ! i) = mp_param (rm_pullers r ! i) \<and>
        (puller_ready (rm_pullers r ! i) \<longrightarrow> puller_ready (rm_pullers r' ! i))) \<and>
     (users_ok r \<longrightarrow> users_ok r')"

lemma same_subscriptions_refl [simp]: "same_subscriptions r r"
  by (simp add: same_subscriptions_def)

lemma same_subscriptions_trans: "same_subscriptions a b \<Longrightarrow> same_subscriptions b c \<Longrightarrow> same_subscriptions a c"
  by (simp add: same_subscriptions_def)

lemma same_subscriptions_user:
  "(\<And>u. u_user_id (f u) = u_user_id u) \<Longrightarrow> same_subscriptions r (update_user f k r)"
  by (simp add: same_subscriptions_def users_ok_update)

lemma same_subscriptions_ok: "same_subscriptions r r' \<Longrightarrow> room_ok r \<Longrightarrow> room_ok r'"
  by (fastforce simp: same_subscriptions_def room_ok_def pullers_ok_def)

lemma fan_out_spec:
  assumes "Parse t (GetData pkt) (rp_data_len pkt) = Inr q" "0 < rp_data_len pkt" "rp_data_len pkt < 1500"
    and "rp_data_len pkt \<le> length (rp_buf pkt)" "\<And>i. 1500 \<le> length (cm i)" "\<And>i. 1500 \<le> length (sm i)"
    and "distinct (map snd m)" "\<forall>i \<in> snd ` set m. i < length (rm_pullers r) \<and> puller_ready (rm_pullers r ! i)"
    and "fan_out now_ms cm sm connected pkt m r = (ret, outs, r')"
  shows "ret = Inr () \<and> map fst outs = filter (receives now_ms cm sm connected pkt r) (map snd m) \<and>
    (\<forall>(i, d) \<in> set outs. forwarded (rm_pullers r ! i) q d) \<and>
    (\<forall>i. i \<notin> snd ` set m \<longrightarrow> rm_pullers r' ! i = rm_pullers r ! i) \<and> same_subscriptions r r'"
  using assms(7-9)
proof (induction m arbitrary: r ret outs)
  case (Cons a m)
  obtain pid i where a: "a = (pid, i)" by (cases a)
  obtain c where c: "Clone now_ms (cm i) True pkt = Inr c" "rtp_ok c" "\<And>p d. forwarded p c d \<longleftrightarrow> forwarded p q d"
    "rp_data_len c = rp_data_len pkt"
    using Clone_parsed [OF assms(1-4) assms(5) [of i]] by metis
  obtain ret1 ds c' p' where s: "puller_OnTransportSendRtp now_ms (sm i) (connected i) c (rm_pullers r ! i) = (ret1, ds, c', p')"
    by (cases "puller_OnTransportSendRtp now_ms (sm i) (connected i) c (rm_pullers r ! i)")
  have i: "i < length (rm_pullers r)" "puller_ready (rm_pullers r ! i)" using Cons.prems(2) by (simp_all add: a)
  note P = puller_step [OF c(2) _ assms(6) i(2) s, unfolded c(4), OF assms(3)]
  let ?r1 = "r\<lparr>rm_pullers := (rm_pullers r)[i := p']\<rparr>"
  let ?r2 = "update_user (UpdateHeartbeat now_ms 0) (mp_puller_user_id p') ?r1"
  have "same_subscriptions r ?r1" using P(2,3,5) i(1) by (auto simp: same_subscriptions_def nth_list_update users_ok_def)
  then have sub: "same_subscriptions r ?r2"
    by (rule same_subscriptions_trans) (rule same_subscriptions_user, simp add: UpdateHeartbeat_def)
  obtain outs2 where f: "fan_out now_ms cm sm connected pkt m ?r2 = (ret, outs2, r')" "outs = map (Pair i) ds @ outs2"
    using Cons.prems(3) P(1) by (auto simp: a c(1) s Let_def split: prod.splits)
  have d: "distinct (map snd m)" "i \<notin> snd ` set m" using Cons.prems(1) by (simp_all add: a)
  have u: "rm_pullers ?r2 ! j = rm_pullers r ! j" if "j \<noteq> i" for j using that by simp
  have "\<forall>j \<in> snd ` set m. j < length (rm_pullers ?r2) \<and> puller_ready (rm_pullers ?r2 ! j)"
    using Cons.prems(2) P(2) by (fastforce simp: a nth_list_update)
  note IH = Cons.IH [OF d(1) this f(1)]
  have rec: "receives now_ms cm sm connected pkt ?r2 j = receives now_ms cm sm connected pkt r j" if "j \<in> snd ` set m" for j
  proof -
    have "j \<noteq> i" using that d(2) by blast
    from u [OF this] show ?thesis by (simp add: receives_def split: sum.split)
  qed
  have fl: "filter (receives now_ms cm sm connected pkt ?r2) (map snd m) = filter (receives now_ms cm sm connected pkt r) (map snd m)"
    by (rule filter_cong) (use rec in auto)
  have o1: "if receives now_ms cm sm connected pkt r i then \<exists>d. ds = [d] \<and> forwarded (rm_pullers r ! i) q d else ds = []"
    using P(6) unfolding c(3) by (simp add: receives_def c(1))
  have outs2: "forwarded (rm_pullers r ! j) q d" if e: "(j, d) \<in> set outs2" for j d
  proof -
    have "j \<in> set (map fst outs2)" using e by force
    then have "j \<noteq> i" using IH d(2) by auto
    then show ?thesis using e IH u [of j] by auto
  qed
  have "ret = Inr ()" using IH by blast
  moreover have "map fst outs = filter (receives now_ms cm sm connected pkt r) (map snd (a # m))"
    using IH o1 by (auto simp: f(2) a fl split: if_splits)
  moreover have "\<forall>(j, d) \<in> set outs. forwarded (rm_pullers r ! j) q d"
    using o1 outs2 by (auto simp: f(2) split: if_splits)
  moreover have "\<forall>j. j \<notin> snd ` set (a # m) \<longrightarrow> rm_pullers r' ! j = rm_pullers r ! j"
    using IH u by (auto simp: a)
  moreover have "same_subscriptions r r'" using sub IH same_subscriptions_trans by blast
  ultimately show ?case by blast
qed simp

section \<open>The whole room\<close>

lemma packet_arrived_sub: "same_subscriptions r (packet_arrived now_ms user_id r)"
proof -
  have "same_subscriptions r (r\<lparr>rm_last_alive_ms := now_ms\<rparr>)" by (simp add: same_subscriptions_def users_ok_def)
  then show ?thesis unfolding packet_arrived_def
    by (rule same_subscriptions_trans) (rule same_subscriptions_user, simp add: UpdateHeartbeat_def)
qed

lemma packet_arrived_pullers [simp]: "rm_pullers (packet_arrived now_ms user_id r) = rm_pullers r"
  by (simp add: packet_arrived_def)

lemma track_refs:
  assumes "room_ok r" "om_find (rm_pusher2pullers r) pusher_id = Some m"
  shows "distinct (map snd m)" "\<forall>i \<in> snd ` set m. i < length (rm_pullers r) \<and> mp_pusher_id (rm_pullers r ! i) = pusher_id"
proof -
  have ok: "om_ok (rm_pusher2pullers r)" "distinct (puller_refs (rm_pusher2pullers r))"
    using assms(1) by (simp_all add: room_ok_def pullers_ok_def)
  have e: "(pusher_id, m) \<in> set (rm_pusher2pullers r)" using assms(2) om_find_Some [OF ok(1)] by blast
  have "(k, m) \<in> set ps \<Longrightarrow> distinct (puller_refs ps) \<Longrightarrow> distinct (map snd m)" for k ps
    by (induction ps) auto
  then show "distinct (map snd m)" using e ok(2) by blast
  show "\<forall>i \<in> snd ` set m. i < length (rm_pullers r) \<and> mp_pusher_id (rm_pullers r ! i) = pusher_id"
    using assms(1) e by (fastforce simp: room_ok_def pullers_ok_def)
qed

lemma to_relay_sub:
  "to_relay now_ms cmem smem rand user_id pkt r = (ret, outs, r') \<Longrightarrow>
     rm_pullers r' = rm_pullers r \<and> rm_users r' = rm_users r \<and> rm_pusher2pullers r' = rm_pusher2pullers r"
  by (auto simp: to_relay_def Let_def split: option.splits sum.splits prod.splits)

text \<open>
  C3. A packet of a local publisher reaches the subscribers of its track and nobody else: the subscriptions that get a
  datagram are exactly those of the track whose transport is connected and whose send session accepts the packet,
  each gets one datagram, in the order of the map, and that datagram carries the packet under the subscriber's own
  payload type and source id. No failure of one subscription keeps the others from being served, the subscriptions of
  other tracks are not touched and the invariant of the room is kept.
\<close>

theorem room_fans_out:
  assumes "room_ok r" "om_find (rm_pusher2pullers r) pusher_id = Some m"
    and "\<forall>i \<in> snd ` set m. puller_ready (rm_pullers r ! i)"
    and "Parse t (GetData pkt) (rp_data_len pkt) = Inr q" "0 < rp_data_len pkt" "rp_data_len pkt < 1500"
    and "rp_data_len pkt \<le> length (rp_buf pkt)" "\<And>i. 1500 \<le> length (cm i)" "\<And>i. 1500 \<le> length (sm i)"
    and "OnRtpPacketFromRtcPusher now_ms cm sm connected cmem smem rand user_id pusher_id pkt r = (ret, outs, routs, r')"
  shows "map fst outs = filter (receives now_ms cm sm connected pkt r) (map snd m) \<and>
    (\<forall>(i, d) \<in> set outs. mp_pusher_id (rm_pullers r ! i) = pusher_id \<and> forwarded (rm_pullers r ! i) q d) \<and>
    (\<forall>i. i \<notin> snd ` set m \<longrightarrow> rm_pullers r' ! i = rm_pullers r ! i) \<and> room_ok r' \<and>
    (om_find (rm_sendRelay r) user_id = None \<longrightarrow> ret = Inr () \<and> routs = [])"
proof -
  let ?r = "packet_arrived now_ms user_id r"
  have sub: "same_subscriptions r ?r" by (rule packet_arrived_sub)
  note T = track_refs [OF assms(1,2)]
  obtain ret1 r1 where f: "fan_out now_ms cm sm connected pkt m ?r = (ret1, outs, r1)"
    and ret: "ret1 = Inr () \<Longrightarrow> to_relay now_ms cmem smem rand user_id pkt r1 = (ret, routs, r')"
      "ret1 \<noteq> Inr () \<Longrightarrow> routs = [] \<and> r' = r1"
    using assms(2,10) sub
    by (auto simp: OnRtpPacketFromRtcPusher_def to_pullers_def same_subscriptions_def split: prod.splits sum.splits)
  have "\<forall>i \<in> snd ` set m. i < length (rm_pullers ?r) \<and> puller_ready (rm_pullers ?r ! i)" using T(2) assms(3) by simp
  note F = fan_out_spec [OF assms(4-9) T(1) this f]
  have rec: "receives now_ms cm sm connected pkt ?r = receives now_ms cm sm connected pkt r"
    by (rule ext) (simp add: receives_def split: sum.split)
  have relay: "to_relay now_ms cmem smem rand user_id pkt r1 = (ret, routs, r')" using ret(1) F by blast
  note R = to_relay_sub [OF relay]
  have "room_ok r1" using same_subscriptions_ok [OF same_subscriptions_trans [OF sub], of r1] F assms(1) by blast
  then have "room_ok r'" using room_ok_cong [of r' r1] R by blast
  moreover have "mp_pusher_id (rm_pullers r ! i) = pusher_id" if "(i, d) \<in> set outs" for i d
  proof -
    have "i \<in> set (map fst outs)" using that by force
    then show ?thesis using F T(2) by auto
  qed
  moreover have "om_find (rm_sendRelay r) user_id = None \<Longrightarrow> ret = Inr () \<and> routs = []"
    using relay F sub by (auto simp: to_relay_def same_subscriptions_def)
  ultimately show ?thesis using F R by (auto simp: rec)
qed

definition media_example :: room where
  \<comment> \<open>one subscription, to track 3\<close>
  "media_example = add_puller puller_example (Room_new [9] False 0)"

lemma media_example_simps:
  "rm_pullers media_example = [puller_example]" "om_find (rm_pusher2pullers media_example) [3] = Some [([4], 0)]"
  "rm_sendRelay media_example = []" "rm_users media_example = []"
  by (simp_all add: media_example_def add_puller_def Room_new_def puller_example_def CreateRtpSendSession_def MediaPuller_new_def
      om_find_def)

lemma Room_new_ok: "room_ok (Room_new room_id pilot now_ms)"
  by (simp add: room_ok_def users_ok_def pullers_ok_def Room_new_def)

lemma media_example_ok: "room_ok media_example"
proof -
  have "pullers_ok media_example" unfolding media_example_def
    by (rule add_puller_ok) (use Room_new_ok in \<open>simp add: room_ok_def\<close>)
  then show ?thesis by (simp add: room_ok_def users_ok_def media_example_simps)
qed

lemma puller_example_ready: "puller_ready puller_example" "p_tcc_ext_id (mp_param puller_example) \<le> 0"
  "p_abs_send_time_ext_id (mp_param puller_example) \<le> 0" "\<exists>s'. SendRtpPacket 8 mem c (the (mp_send puller_example)) = (Inr True, s')"
  by (simp_all add: puller_ready_def puller_example_def CreateRtpSendSession_def MediaPuller_new_def RtpSessionParam_default_def
      SendRtpPacket_def send_store_def StoreRtxPacket_def Let_def RtpSendSession_new_def rtp_session.defs
      rtp_send_session.defs rtp_session_init_def InitSeq_def)

theorem room_fans_out_witness:
  "\<exists>pkt d r'. Parse 7 [0x80, 96, 0, 1, 0, 0, 0, 2, 0, 0, 0, 3, 0xAA] 13 = Inr pkt \<and> forwarded puller_example pkt d \<and>
     OnRtpPacketFromRtcPusher 8 (\<lambda>_. replicate 1500 0) (\<lambda>_. replicate 1500 0) (\<lambda>_. True) [] [] (\<lambda>_. 0) [5] [3] pkt media_example
       = (Inr (), [(0, d)], [], r') \<and> room_ok r'"
proof -
  let ?d = "[0x80, 96, 0, 1, 0, 0, 0, 2, 0, 0, 0, 3, 0xAA] :: bytes" and ?z = "\<lambda>_ :: nat. replicate 1500 0 :: bytes"
  have "case_sum (\<lambda>_. False) (\<lambda>p. 0 < rp_payload_len p) (Parse 7 ?d 13)" by code_simp
  then obtain pkt where p: "Parse 7 ?d 13 = Inr pkt" "0 < rp_payload_len pkt" by (auto split: sum.splits)
  have b: "rp_buf pkt = ?d" "rp_data_len pkt = 13" "GetData pkt = ?d" using Parse_Inr [OF p(1)] by (auto simp: GetData_def)
  have q: "Parse 7 (GetData pkt) (rp_data_len pkt) = Inr pkt" using b p(1) by simp
  have n: "0 < rp_data_len pkt" "rp_data_len pkt < 1500" "rp_data_len pkt \<le> length (rp_buf pkt)" by (simp_all add: b)
  obtain c where c: "Clone 8 (?z 0) True pkt = Inr c" "rp_payload_len c = rp_payload_len pkt"
    using Clone_parsed [OF q n, of "?z 0"] by (metis le_refl length_replicate)
  have rec: "receives 8 ?z ?z (\<lambda>_. True) pkt media_example 0"
  proof -
    have "puller_ext_ids c puller_example = Inr c"
      using puller_example_ready(2,3) by (simp add: puller_ext_ids_def puller_tcc_id_def puller_abs_time_id_def)
    moreover obtain s where s: "mp_send puller_example = Some s" using puller_example_ready(1) by (auto simp: puller_ready_def)
    moreover have "fst (SendRtpPacket 8 (?z 0) c s) = Inr True" using puller_example_ready(4) [of "?z 0" c] s by auto
    ultimately show ?thesis using c p(2) by (simp add: receives_def puller_accepts_def media_example_simps)
  qed
  obtain ret outs routs r' where o: "OnRtpPacketFromRtcPusher 8 ?z ?z (\<lambda>_. True) [] [] (\<lambda>_. 0) [5] [3] pkt media_example =
      (ret, outs, routs, r')" by (metis prod_cases4)
  have "\<forall>i \<in> snd ` set [([4] :: bytes, 0)]. puller_ready (rm_pullers media_example ! i)"
    by (simp add: media_example_simps puller_example_ready(1))
  note F = room_fans_out [OF media_example_ok media_example_simps(2) this q n _ _ o]
  have "map fst outs = [0] \<and> (\<forall>(i, d) \<in> set outs. forwarded (rm_pullers media_example ! i) pkt d) \<and> room_ok r' \<and> ret = Inr () \<and> routs = []"
    using F rec by (simp add: media_example_simps split_beta)
  then obtain d where "outs = [(0, d)]" "forwarded puller_example pkt d" "room_ok r'" "ret = Inr ()" "routs = []"
    by (cases outs) (auto simp: media_example_simps)
  then show ?thesis using p(1) o by blast
qed

section \<open>Reachable rooms\<close>

inductive room_reach :: "room \<Rightarrow> bool" where
  init: "room_reach (Room_new room_id pilot now_ms)"
| join: "room_reach r \<Longrightarrow> UserJoin now_ms uid name audience q cb r = (ret, msgs, r') \<Longrightarrow> room_reach r'"
| whip: "room_reach r \<Longrightarrow> WhipUserJoin now_ms uid name r = (ret, msgs, r') \<Longrightarrow> room_reach r'"
| leave: "room_reach r \<Longrightarrow> UserLeave now_ms uid r = (ret, msgs, r') \<Longrightarrow> room_reach r'"
| disconnect: "room_reach r \<Longrightarrow> DisconnectUser now_ms uid r = (ret, msgs, r') \<Longrightarrow> room_reach r'"
| heartbeat: "room_reach r \<Longrightarrow> HandleWsHeartbeat now_ms uid r = (ret', r') \<Longrightarrow> room_reach r'"
| timer: "room_reach r \<Longrightarrow> OnTimer_users now_ms r = (msgs, r') \<Longrightarrow> room_reach r'"
| new_user: "room_reach r \<Longrightarrow> HandleNewUserNotificationFromCenter now_ms d r = (msgs, r') \<Longrightarrow> room_reach r'"
| push_close: "room_reach r \<Longrightarrow> room_reach (OnPushClose pid r)"
| pull_close: "room_reach r \<Longrightarrow> room_reach (OnPullClose pid r)"
| close: "room_reach r \<Longrightarrow> room_reach (Close r)"
| pull: "room_reach r \<Longrightarrow> room_reach (add_puller p r)"
| local: "room_reach r \<Longrightarrow>
    OnRtpPacketFromRtcPusher now_ms cm sm conn cmem smem rand uid pid pkt r = (res, outs, routs, r') \<Longrightarrow> room_reach r'"
| remote: "room_reach r \<Longrightarrow>
    OnRtpPacketFromRemoteRtcPusher now_ms cm sm conn uid pid pkt r = (res, outs, r') \<Longrightarrow> room_reach r'"

lemma puller_keeps_track:
  "puller_OnTransportSendRtp now_ms mem conn pkt p = (ret, ds, pkt', p') \<Longrightarrow> mp_pusher_id p' = mp_pusher_id p"
  by (auto simp: puller_OnTransportSendRtp_def Let_def split: if_splits sum.splits bool.splits option.splits prod.splits)

lemma room_ok_puller:
  assumes "room_ok r" "mp_pusher_id p' = mp_pusher_id (rm_pullers r ! i)"
  shows "room_ok (r\<lparr>rm_pullers := (rm_pullers r)[i := p']\<rparr>)"
proof -
  have "mp_pusher_id ((rm_pullers r)[i := p'] ! j) = mp_pusher_id (rm_pullers r ! j)" for j
    using assms(2) by (cases "i < length (rm_pullers r)") (auto simp: nth_list_update list_update_beyond)
  then show ?thesis using assms(1) by (auto simp: room_ok_def users_ok_def pullers_ok_def)
qed

lemma fan_out_ok: "room_ok r \<Longrightarrow> fan_out now_ms cm sm conn pkt m r = (ret, outs, r') \<Longrightarrow> room_ok r'"
proof (induction m arbitrary: r ret outs)
  case (Cons a m)
  obtain pid i where a: "a = (pid, i)" by (cases a)
  show ?case
  proof (cases "Clone now_ms (cm i) True pkt")
    case (Inl e)
    then show ?thesis using Cons.prems by (simp add: a)
  next
    case (Inr c)
    obtain ret1 ds c' p' where s: "puller_OnTransportSendRtp now_ms (sm i) (conn i) c (rm_pullers r ! i) = (ret1, ds, c', p')"
      by (cases "puller_OnTransportSendRtp now_ms (sm i) (conn i) c (rm_pullers r ! i)")
    let ?r1 = "r\<lparr>rm_pullers := (rm_pullers r)[i := p']\<rparr>"
    have ok: "room_ok ?r1" by (rule room_ok_puller [OF Cons.prems(1) puller_keeps_track [OF s]])
    then have "room_ok (update_user (UpdateHeartbeat now_ms 0) (mp_puller_user_id p') ?r1)"
      by (rule update_user_ok) (simp add: UpdateHeartbeat_def)
    then show ?thesis using Cons.prems(2) ok Cons.IH by (auto simp: a Inr s Let_def split: if_splits prod.splits)
  qed
qed simp

lemma to_pullers_ok: "room_ok r \<Longrightarrow> to_pullers now_ms cm sm conn pid pkt r = (ret, outs, r') \<Longrightarrow> room_ok r'"
  by (auto simp: to_pullers_def split: option.splits dest: fan_out_ok)

lemma media_ok:
  assumes "room_ok r"
  shows "OnRtpPacketFromRtcPusher now_ms cm sm conn cmem smem rand uid pid pkt r = (ret, outs, routs, r') \<Longrightarrow> room_ok r'"
    and "OnRtpPacketFromRemoteRtcPusher now_ms cm sm conn uid pid pkt r = (ret, outs, r') \<Longrightarrow> room_ok r'"
proof -
  have a: "room_ok (packet_arrived now_ms uid r)" by (rule same_subscriptions_ok [OF packet_arrived_sub assms])
  show "room_ok r'" if "OnRtpPacketFromRemoteRtcPusher now_ms cm sm conn uid pid pkt r = (ret, outs, r')"
    using that to_pullers_ok [OF a] by (simp add: OnRtpPacketFromRemoteRtcPusher_def)
  assume o: "OnRtpPacketFromRtcPusher now_ms cm sm conn cmem smem rand uid pid pkt r = (ret, outs, routs, r')"
  obtain ret1 outs1 r1 where f: "to_pullers now_ms cm sm conn pid pkt (packet_arrived now_ms uid r) = (ret1, outs1, r1)"
    by (cases "to_pullers now_ms cm sm conn pid pkt (packet_arrived now_ms uid r)")
  have "r' = r1 \<or> (\<exists>ret routs. to_relay now_ms cmem smem rand uid pkt r1 = (ret, routs, r'))"
    using o f by (auto simp: OnRtpPacketFromRtcPusher_def split: sum.splits prod.splits)
  then show "room_ok r'"
  proof
    assume "\<exists>ret routs. to_relay now_ms cmem smem rand uid pkt r1 = (ret, routs, r')"
    then obtain ret2 routs2 where "to_relay now_ms cmem smem rand uid pkt r1 = (ret2, routs2, r')" by blast
    from to_relay_sub [OF this] show ?thesis using to_pullers_ok [OF a f] room_ok_cong [of r' r1] by blast
  qed (use to_pullers_ok [OF a f] in simp)
qed

lemma room_reach_ok: "room_reach r \<Longrightarrow> room_ok r"
proof (induction rule: room_reach.induct)
  case (init room_id pilot now_ms)
  show ?case by (rule Room_new_ok)
next
  case (join r now_ms uid name audience q cb ret msgs r')
  then show ?case using join_ok(1) [of r now_ms uid name audience q cb] by simp
next
  case (whip r now_ms uid name ret msgs r')
  then show ?case using join_ok(2) [of r now_ms uid name] by simp
next
  case (leave r now_ms uid ret msgs r')
  then show ?case using leave_ok(1) [of r now_ms uid] by simp
next
  case (disconnect r now_ms uid ret msgs r')
  then show ?case using leave_ok(2) [of r now_ms uid] by simp
next
  case (heartbeat r now_ms uid ret' r')
  then show ?case using leave_ok(3) [of r now_ms uid] by simp
next
  case (timer r now_ms msgs r')
  then show ?case using OnTimer_users_ok [of r now_ms] by simp
next
  case (new_user r now_ms d msgs r')
  then show ?case using join_ok(3) [of r now_ms d] by simp
next
  case (pull r p)
  then show ?case using add_puller_ok by (auto simp: room_ok_def users_ok_def add_puller_def)
next
  case (push_close r pid)
  then show ?case using room_ok_cong [of "OnPushClose pid r" r] by (simp add: OnPushClose_def)
next
  case (pull_close r pid)
  then show ?case by (simp add: OnPullClose_ok)
next
  case (close r)
  then show ?case using room_ok_cong [of "Close r" r] by (simp add: Close_def)
qed (blast dest: media_ok)+

text \<open>
  C25. Whatever sequence of joins, leaves, lost connections, heartbeats, timer ticks, messages of the pilot center, new and
  closed subscriptions and media packets a room goes through: its users are filed under their own ids, every
  subscription in the map exists, is filed under the track it subscribes to, and is listed only once, so that no
  subscriber can get a packet twice.
\<close>

theorem room_invariant:
  assumes "room_reach r"
  shows "(\<forall>k u. om_find (rm_users r) k = Some u \<longrightarrow> u_user_id u = k) \<and> distinct (puller_refs (rm_pusher2pullers r)) \<and>
    (\<forall>k m pid i. om_find (rm_pusher2pullers r) k = Some m \<longrightarrow> om_find m pid = Some i \<longrightarrow>
       i < length (rm_pullers r) \<and> mp_pusher_id (rm_pullers r ! i) = k)"
proof -
  have "room_ok r" by (rule room_reach_ok [OF assms])
  then have ok: "users_ok r" "distinct (puller_refs (rm_pusher2pullers r))" "om_ok (rm_pusher2pullers r)"
    and el: "\<And>k m. (k, m) \<in> set (rm_pusher2pullers r) \<Longrightarrow>
      om_ok m \<and> (\<forall>(pid, i) \<in> set m. i < length (rm_pullers r) \<and> mp_pusher_id (rm_pullers r ! i) = k)"
    by (auto simp: room_ok_def pullers_ok_def)
  have "i < length (rm_pullers r) \<and> mp_pusher_id (rm_pullers r ! i) = k"
    if m: "om_find (rm_pusher2pullers r) k = Some m" "om_find m pid = Some i" for k m pid i
  proof -
    have e: "(k, m) \<in> set (rm_pusher2pullers r)" using m(1) om_find_Some [OF ok(3)] by blast
    then have "(pid, i) \<in> set m" using m(2) el om_find_Some [of m] by blast
    then show ?thesis using el [OF e] by blast
  qed
  then show ?thesis using ok users_ok_iff [of r] by blast
qed

theorem room_invariant_witness:
  "room_reach media_example \<and> mp_pusher_id (rm_pullers media_example ! 0) = [3]"
proof -
  have r: "room_reach media_example" unfolding media_example_def by (rule room_reach.pull [OF room_reach.init])
  have "om_find [([4] :: bytes, 0 :: nat)] [4] = Some 0" by (simp add: om_find_def)
  with room_invariant [OF r, THEN conjunct2, THEN conjunct2, rule_format, OF media_example_simps(2)] r show ?thesis by simp
qed

end
