(* ===== verification/Media_Pusher.thy ===== *)
theory Media_Pusher
  imports Rtp_Recv Media_Puller
begin

text \<open>
  \<open>MediaPusher\<close> of \<open>webrtc_room/media_pusher.{hpp,cpp}\<close>: one track of a publisher. It finds the receive session a
  packet belongs to, has the session account for it, turns retransmissions back into the original packet, blanks the
  publisher's media id and hands the packet to the room. The session is shared by the map from source ids and the map
  from retransmission source ids, so sessions live in a list and the maps hold positions. What goes to the room, to the
  voice agent and to the transport is returned. Logging and the event log are left out.
\<close>

section \<open>State\<close>

record media_pusher =
  mu_param :: RtpSessionParam
  mu_user_id :: bytes
  mu_session_id :: bytes
  mu_pusher_id :: bytes
  mu_cb :: bool
  mu_sessions :: "rtp_recv_session list"
  mu_ssrc2sessions :: "(u32, nat) omap"
  mu_rtxssrc2sessions :: "(u32, nat) omap"
  mu_media_type :: MEDIA_PKT_TYPE
  mu_last_statics_ms :: int
  mu_last_keyframe_request_ms :: int

datatype pusher_out = ToRoom bytes bytes bytes rtp_packet | ToVoiceAgent rtp_packet

definition MediaPusher_new :: "RtpSessionParam \<Rightarrow> bytes \<Rightarrow> bytes \<Rightarrow> bytes \<Rightarrow> bool \<Rightarrow> media_pusher" where
  \<comment> \<open>the fourth argument is the generated id\<close>
  "MediaPusher_new p user_id session_id uuid cb =
     \<lparr>mu_param = p, mu_user_id = user_id, mu_session_id = session_id, mu_pusher_id = uuid, mu_cb = cb, mu_sessions = [],
      mu_ssrc2sessions = [], mu_rtxssrc2sessions = [], mu_media_type = av_type p, mu_last_statics_ms = -1,
      mu_last_keyframe_request_ms = -1\<rparr>"

definition CreateRtpRecvSession :: "NTP_TIMESTAMP \<Rightarrow> media_pusher \<Rightarrow> media_pusher" where
  \<comment> \<open>the argument is what the constructor of the session leaves uninitialised\<close>
  "CreateRtpRecvSession ntp u =
     (let n = length (mu_sessions u);
          u1 = u\<lparr>mu_sessions := mu_sessions u @ [RtpRecvSession_new (mu_param u) ntp],
                 mu_ssrc2sessions := om_insert (p_ssrc (mu_param u)) n (mu_ssrc2sessions u)\<rparr>
      in if p_rtx_ssrc (mu_param u) \<noteq> 0
         then u1\<lparr>mu_rtxssrc2sessions := om_insert (p_rtx_ssrc (mu_param u)) n (mu_rtxssrc2sessions u1)\<rparr>
         else u1)"

definition pusher_UpdateSSRC :: "u32 \<Rightarrow> media_pusher \<Rightarrow> media_pusher" where
  "pusher_UpdateSSRC new_ssrc u = u\<lparr>mu_param := (mu_param u)\<lparr>p_ssrc := new_ssrc\<rparr>\<rparr>"

section \<open>Receiving\<close>

fun by_payload_type :: "u8 \<Rightarrow> rtp_recv_session list \<Rightarrow> (u32 \<times> nat) list \<Rightarrow> nat option" where
  \<comment> \<open>the first session of a map with this payload type\<close>
  "by_payload_type pt ss [] = None"
| "by_payload_type pt ss ((k, i) # m) = (if p_payload_type (param (ss ! i)) = pt then Some i else by_payload_type pt ss m)"

definition GetRtpRecvSession :: "rtp_packet \<Rightarrow> media_pusher \<Rightarrow> (nat \<times> bool) option \<times> media_pusher" where
  \<comment> \<open>the session and \<open>is_rtx\<close>\<close>
  "GetRtpRecvSession rtp_pkt u =
     (let ssrc = GetSsrc rtp_pkt; payload_type = GetPayloadType rtp_pkt in
      case om_find (mu_ssrc2sessions u) ssrc of
        Some i \<Rightarrow> (Some (i, False), u)
      | None \<Rightarrow>
        (case om_find (mu_rtxssrc2sessions u) ssrc of
           Some i \<Rightarrow> (Some (i, True), u)
         | None \<Rightarrow>
           (case by_payload_type payload_type (mu_sessions u) (mu_ssrc2sessions u) of
              Some i \<Rightarrow> (Some (i, False), u\<lparr>mu_sessions := (mu_sessions u)[i := UpdateSSRC ssrc (mu_sessions u ! i)],
                                         mu_ssrc2sessions := om_insert ssrc i (mu_ssrc2sessions u)\<rparr>)
            | None \<Rightarrow>
              (case by_payload_type payload_type (mu_sessions u) (mu_rtxssrc2sessions u) of
                 Some i \<Rightarrow> (Some (i, True), u\<lparr>mu_sessions := (mu_sessions u)[i := UpdateSSRC ssrc (mu_sessions u ! i)],
                                           mu_rtxssrc2sessions := om_insert ssrc i (mu_rtxssrc2sessions u)\<rparr>)
               | None \<Rightarrow> (None, u)))))"

definition set_ext_ids :: "RtpSessionParam \<Rightarrow> rtp_packet \<Rightarrow> rtp_packet" where
  "set_ext_ids p pkt0 =
     (let pkt1 = (if p_mid_ext_id p > 0 then pkt0\<lparr>rp_mid_extension_id := word_of_int (p_mid_ext_id p)\<rparr> else pkt0);
          pkt2 = (if p_tcc_ext_id p > 0 then pkt1\<lparr>rp_tcc_extension_id := word_of_int (p_tcc_ext_id p)\<rparr> else pkt1)
      in if p_abs_send_time_ext_id p > 0
         then pkt2\<lparr>rp_abs_time_extension_id := word_of_int (p_abs_send_time_ext_id p)\<rparr> else pkt2)"

definition pusher_to_room :: "rtp_packet \<Rightarrow> media_pusher \<Rightarrow> pusher_out list res" where
  \<comment> \<open>blank the media id and hand the packet to the room\<close>
  "pusher_to_room rtp_pkt u =
     rbind (ClearMidExtension rtp_pkt (word_of_int (mid (mu_param u)))) (\<lambda>(r, old_ext_id, pkt).
       Inr [ToRoom (mu_user_id u) (mu_session_id u) (mu_pusher_id u) pkt])"

definition to_voice_agent :: "int \<Rightarrow> bytes \<Rightarrow> bool \<Rightarrow> rtp_packet \<Rightarrow> media_pusher \<Rightarrow> pusher_out list res" where
  \<comment> \<open>\<open>voice_agent\<close> is \<open>voice_agent_cfg_.enable_\<close>, \<open>mem\<close> the block of the clone; an exception is caught\<close>
  "to_voice_agent now_ms mem voice_agent rtp_pkt u =
     (if voice_agent \<and> av_type (mu_param u) = MEDIA_AUDIO_TYPE then
        (case Clone now_ms mem True rtp_pkt of
           Inl Throw \<Rightarrow> Inr []
         | Inl e \<Rightarrow> Inl e
         | Inr c \<Rightarrow> Inr [ToVoiceAgent c])
      else Inr [])"

definition HandleRtpPacket ::
    "int \<Rightarrow> bytes \<Rightarrow> bool \<Rightarrow> rtp_packet \<Rightarrow> media_pusher \<Rightarrow> int res \<times> pusher_out list \<times> media_pusher" where
  "HandleRtpPacket now_ms mem voice_agent pkt0 u0 =
     (let rtp_pkt = set_ext_ids (mu_param u0) pkt0 in
      case GetRtpRecvSession rtp_pkt u0 of
        (None, u) \<Rightarrow> (Inr (-1), [], u)
      | (Some (i, False), u) \<Rightarrow>
          (case ReceiveRtpPacket rtp_pkt (mu_sessions u ! i) of
             (ret, s) \<Rightarrow>
               let u1 = u\<lparr>mu_sessions := (mu_sessions u)[i := s]\<rparr> in
               (case ret of
                  Inl e \<Rightarrow> (Inl e, [], u1)
                | Inr False \<Rightarrow> (Inr (-1), [], u1)
                | Inr True \<Rightarrow>
                    (case to_voice_agent now_ms mem voice_agent rtp_pkt u1 of
                       Inl e \<Rightarrow> (Inl e, [], u1)
                     | Inr vs \<Rightarrow>
                         (case pusher_to_room rtp_pkt u1 of
                            Inl e \<Rightarrow> (Inl e, vs, u1)
                          | Inr outs \<Rightarrow> (Inr 0, vs @ outs, u1)))))
      | (Some (i, True), u) \<Rightarrow>
          (case ReceiveRtxPacket rtp_pkt (mu_sessions u ! i) of
             (ret, s) \<Rightarrow>
               let u1 = u\<lparr>mu_sessions := (mu_sessions u)[i := s]\<rparr> in
               (case ret of
                  Inl e \<Rightarrow> (Inl e, [], u1)
                | Inr (False, rep, pkt) \<Rightarrow> (Inr (-1), [], u1)
                | Inr (True, rep, pkt) \<Rightarrow>
                    if rep = Some True \<or> GetSsrc pkt = GetSsrc rtp_pkt \<or> rp_payload_len pkt = 0 then (Inr 0, [], u1)
                    else (case pusher_to_room pkt u1 of
                       Inl e \<Rightarrow> (Inl e, [], u1)
                     | Inr outs \<Rightarrow> (Inr 0, outs, u1)))))"

section \<open>Reports, timer and key frames\<close>

definition pusher_HandleRtcpSrPacket :: "int \<Rightarrow> rtcp_sr \<Rightarrow> media_pusher \<Rightarrow> int \<times> media_pusher" where
  "pusher_HandleRtcpSrPacket now_ms sr_pkt u =
     (case om_find (mu_ssrc2sessions u) (Sr_GetSsrc sr_pkt) of
        None \<Rightarrow> (-1, u)
      | Some i \<Rightarrow> let (ret, s) = HandleRtcpSrPacket now_ms sr_pkt (mu_sessions u ! i)
                  in (ret, u\<lparr>mu_sessions := (mu_sessions u)[i := s]\<rparr>))"

definition pusher_IsConnected :: "bool \<Rightarrow> media_pusher \<Rightarrow> bool" where
  "pusher_IsConnected connected u \<longleftrightarrow> mu_cb u \<and> connected"

definition RequestKeyFrame :: "int \<Rightarrow> u32 \<Rightarrow> media_pusher \<Rightarrow> bytes \<times> media_pusher" where
  \<comment> \<open>the RTCP message and the new state; a request for another source id is redirected to the track's own\<close>
  "RequestKeyFrame now_ms ssrc u =
     (Pli_GetData (Pli_SetMediaSsrc (p_ssrc (mu_param u)) (Pli_SetSenderSsrc 0 RtcpPsPli_new)),
      u\<lparr>mu_last_keyframe_request_ms := now_ms\<rparr>)"

fun pusher_statics :: "int \<Rightarrow> (u32 \<times> nat) list \<Rightarrow> media_pusher \<Rightarrow> media_pusher" where
  "pusher_statics now_ms [] u = u"
| "pusher_statics now_ms ((ssrc, i) # m) u =
     (let s = mu_sessions u ! i in
      pusher_statics now_ms m (u\<lparr>mu_sessions := (mu_sessions u)
        [i := s\<lparr>recv_statics := snd (snd (BytesPerSecond now_ms (recv_statics s)))\<rparr>]\<rparr>))"

definition pusher_key_timer :: "int \<Rightarrow> media_pusher \<Rightarrow> bytes list \<times> media_pusher" where
  "pusher_key_timer now_ms u =
     (if av_type (mu_param u) = MEDIA_VIDEO_TYPE then
        if mu_last_keyframe_request_ms u < 0 then ([], u\<lparr>mu_last_keyframe_request_ms := now_ms\<rparr>)
        else if now_ms - mu_last_keyframe_request_ms u \<ge> 8000
        then let (pli, u') = RequestKeyFrame now_ms (p_ssrc (mu_param u)) u in ([pli], u')
        else ([], u)
      else ([], u))"

definition pusher_OnTimer :: "int \<Rightarrow> media_pusher \<Rightarrow> bytes list \<times> media_pusher" where
  "pusher_OnTimer now_ms u =
     (if mu_last_statics_ms u = -1 then pusher_key_timer now_ms (u\<lparr>mu_last_statics_ms := now_ms\<rparr>)
      else if now_ms - mu_last_statics_ms u < 5000 then ([], u)
      else pusher_key_timer now_ms (pusher_statics now_ms (mu_ssrc2sessions u) (u\<lparr>mu_last_statics_ms := now_ms\<rparr>)))"

section \<open>Blanking the media id\<close>

lemma find_ext_value_ok:
  assumes "\<And>p. p \<in> snd ` set m \<Longrightarrow> \<exists>v n. loc p = Inr (v, n) \<and> v + n \<le> length b"
  shows "\<exists>r. find_ext_value loc b val m = Inr r \<and> (\<forall>i p. r = Some (i, p) \<longrightarrow> (i, p) \<in> set m)"
  using assms
proof (induction m)
  case (Cons a m)
  obtain i p where a: "a = (i, p)" by (cases a)
  obtain v n where "loc p = Inr (v, n)" "v + n \<le> length b" using Cons.prems [of p] by (auto simp: a)
  moreover have "\<exists>r. find_ext_value loc b val m = Inr r \<and> (\<forall>i p. r = Some (i, p) \<longrightarrow> (i, p) \<in> set m)"
  proof (rule Cons.IH)
    show "\<exists>v n. loc p = Inr (v, n) \<and> v + n \<le> length b" if "p \<in> snd ` set m" for p
      using that Cons.prems [of p] by simp
  qed
  ultimately show ?case by (auto simp: a)
qed simp

lemma ext_frame_zero:
  assumes "12 \<le> p" "p + n \<le> rp_payload pkt" "rp_payload pkt \<le> length (rp_buf pkt)"
  shows "memset0 (rp_buf pkt) p n = Inr (poke (rp_buf pkt) p (replicate n 0))"
    "ext_frame pkt (pkt\<lparr>rp_buf := poke (rp_buf pkt) p (replicate n 0)\<rparr>)"
  using assms poke_frame [of p "replicate n 0" pkt] by (simp_all add: memset0_def)

lemma ClearMidExtension_frame:
  assumes "rtp_ok pkt"
  shows "\<exists>r old q. ClearMidExtension pkt v = Inr (r, old, q) \<and> ext_frame pkt q"
proof (cases "rp_ext pkt")
  case None
  then have "rp_onebyte_ext_map pkt = [] \<and> rp_twobytes_ext_map pkt = []" using assms by (simp add: rtp_ok_def ext_ok_def)
  then show ?thesis by (auto simp: ClearMidExtension_def ext_frame_def Let_def)
next
  case (Some e)
  let ?b = "rp_buf pkt" and ?o = "rp_onebyte_ext_map pkt" and ?t = "rp_twobytes_ext_map pkt"
  have len: "rp_payload pkt \<le> length ?b" "12 \<le> e" "ext_end pkt \<le> rp_payload pkt"
    using assms Some by (auto simp: rtp_ok_def ext_ok_def)
  have o: "12 \<le> p \<and> p + 2 + unat (get_bits 0 4 (?b ! p)) \<le> ext_end pkt" if "(i, p) \<in> set ?o" for i p
    using assms Some that len by (auto simp: rtp_ok_def ext_ok_def elem_ok1_def)
  have t: "12 \<le> p \<and> p + 2 + unat (?b ! (p + 1)) \<le> ext_end pkt" if "(i, p) \<in> set ?t" for i p
    using assms Some that len by (auto simp: rtp_ok_def ext_ok_def elem_ok2_def)
  have fo: "\<exists>v n. loc_onebyte ?b p = Inr (v, n) \<and> v + n \<le> length ?b" if "p \<in> snd ` set ?o" for p
    using that o len by (fastforce simp: loc_onebyte_def)
  obtain r where r: "find_ext_value (loc_onebyte ?b) ?b (to_string_u8 v) ?o = Inr r" "\<forall>i p. r = Some (i, p) \<longrightarrow> (i, p) \<in> set ?o"
    using find_ext_value_ok [of ?o "loc_onebyte ?b" ?b "to_string_u8 v", OF fo] by blast
  have ft: "\<exists>v n. loc_twobytes ?b p = Inr (v, n) \<and> v + n \<le> length ?b" if "p \<in> snd ` set ?t" for p
    using that t len by (fastforce simp: loc_twobytes_def)
  obtain w where w: "find_ext_value (loc_twobytes ?b) ?b (to_string_u8 v) ?t = Inr w" "\<forall>i p. w = Some (i, p) \<longrightarrow> (i, p) \<in> set ?t"
    using find_ext_value_ok [of ?t "loc_twobytes ?b" ?b "to_string_u8 v", OF ft] by blast
  have stop: "ext_end pkt = e + 4 + unat (GetExtLength ?b (Some e))" and e: "rp_ext pkt = Some e"
    using Some by (simp_all add: ext_end_def)
  consider "HasOnebyteExt ?b (rp_ext pkt)" | "\<not> HasOnebyteExt ?b (rp_ext pkt)" "HasTwobytesExt ?b (rp_ext pkt)"
    | "\<not> HasOnebyteExt ?b (rp_ext pkt)" "\<not> HasTwobytesExt ?b (rp_ext pkt)" by blast
  then show ?thesis
  proof cases
    case 1
    show ?thesis
    proof (cases r)
      case None
      with 1 r show ?thesis by (auto simp: ClearMidExtension_def ext_frame_def Let_def)
    next
      case (Some ip)
      obtain i p where ip: "r = Some (i, p)" using Some by (cases ip) simp
      let ?n = "unat (get_bits 0 4 (?b ! p)) + 2"
      have p: "12 \<le> p" "p + ?n \<le> ext_end pkt" "p < length ?b" using r o [of i p] len ip by auto
      have "p + ?n \<le> rp_payload pkt" using p(2) len(3) by linarith
      note Z = ext_frame_zero [OF p(1) this len(1)]
      show ?thesis using 1 r ip p stop e Z by (auto simp: ClearMidExtension_def Let_def ext_frame_def)
    qed
  next
    case 2
    show ?thesis
    proof (cases w)
      case None
      with 2 w show ?thesis by (auto simp: ClearMidExtension_def ext_frame_def Let_def)
    next
      case (Some ip)
      obtain i p where ip: "w = Some (i, p)" using Some by (cases ip) simp
      let ?n = "unat (?b ! (p + 1)) + 2"
      have p: "12 \<le> p" "p + ?n \<le> ext_end pkt" "p + 1 < length ?b" using w t [of i p] len ip by auto
      have "p + ?n \<le> rp_payload pkt" using p(2) len(3) by linarith
      note Z = ext_frame_zero [OF p(1) this len(1)]
      show ?thesis using 2 w ip p stop e Z by (auto simp: ClearMidExtension_def Let_def ext_frame_def)
    qed
  next
    case 3
    then show ?thesis by (auto simp: ClearMidExtension_def ext_frame_def Let_def)
  qed
qed

section \<open>What reaches the room\<close>

lemma set_ext_ids_simps [simp]:
  "GetSsrc (set_ext_ids p pkt) = GetSsrc pkt" "GetPayloadType (set_ext_ids p pkt) = GetPayloadType pkt"
  "GetSeq (set_ext_ids p pkt) = GetSeq pkt" "rtp_ok (set_ext_ids p pkt) = rtp_ok pkt"
  "rp_payload_len (set_ext_ids p pkt) = rp_payload_len pkt" "rp_data_len (set_ext_ids p pkt) = rp_data_len pkt"
  "rp_buf (set_ext_ids p pkt) = rp_buf pkt" "rtp_view (set_ext_ids p pkt) = rtp_view pkt"
  "ext_frame pkt (set_ext_ids p pkt)" "GetPayload (set_ext_ids p pkt) = GetPayload pkt"
  by (simp_all add: set_ext_ids_def Let_def GetSsrc_def GetPayloadType_def GetSeq_def rtp_view_def GetTimestamp_def GetMarker_def
      GetPayload_def ext_frame_def)



lemma pusher_to_room_frame:
  assumes "rtp_ok pkt"
  obtains q where "pusher_to_room pkt u = Inr [ToRoom (mu_user_id u) (mu_session_id u) (mu_pusher_id u) q]" "ext_frame pkt q"
proof -
  obtain r old q where "ClearMidExtension pkt (word_of_int (mid (mu_param u))) = Inr (r, old, q)" "ext_frame pkt q"
    using ClearMidExtension_frame [OF assms] by blast
  then show thesis using that by (simp add: pusher_to_room_def)
qed

lemma ext_frame_view:
  assumes "rtp_ok pkt" "ext_frame pkt q"
  shows "rtp_view q = rtp_view pkt"
proof -
  have t: "take 12 (rp_buf q) = take 12 (rp_buf pkt)" and d: "drop (rp_payload pkt) (rp_buf q) = drop (rp_payload pkt) (rp_buf pkt)"
    and p: "rp_payload q = rp_payload pkt" "rp_payload_len q = rp_payload_len pkt"
    using assms(2) by (simp_all add: ext_frame_def)
  show ?thesis using hdr_take12 [OF t]
    by (simp add: rtp_view_def GetSeq_def GetTimestamp_def GetSsrc_def GetPayloadType_def GetMarker_def GetPayload_def p d)
qed

lemma Clone_outcome:
  assumes "rtp_ok pkt" and "length mem = RTP_PACKET_MAX_SIZE"
  shows "if rp_data_len pkt < RTP_PACKET_MAX_SIZE
    then Clone now_ms mem own pkt = Inl Throw \<or> (\<exists>c. Clone now_ms mem own pkt = Inr c \<and> GetData c = GetData pkt)
    else Clone now_ms mem own pkt = Inl AssertFail"
proof -
  have l: "0 < rp_data_len pkt" "rp_data_len pkt \<le> length (rp_buf pkt)" using assms(1) by (auto simp: rtp_ok_def)
  have "throws_only (Parse now_ms (poke mem 0 (take (rp_data_len pkt) (rp_buf pkt))) (rp_data_len pkt))"
    if "rp_data_len pkt < RTP_PACKET_MAX_SIZE" using that l assms(2) by (intro Parse_throws_only) simp_all
  moreover have "GetData c = GetData pkt" if "Clone now_ms mem own pkt = Inr c" for c by (rule Clone_Inr(2) [OF that l(2)])
  ultimately have "Clone now_ms mem own pkt = Inl Throw \<or> (\<exists>c. Clone now_ms mem own pkt = Inr c)" if "rp_data_len pkt < RTP_PACKET_MAX_SIZE"
    using that l assms(2) by (cases "Parse now_ms (poke mem 0 (take (rp_data_len pkt) (rp_buf pkt))) (rp_data_len pkt)")
      (auto simp: Clone_def throws_only_def)
  then show ?thesis using Clone_Inr(2) [OF _ l(2)] by (auto simp: Clone_def simp del: rbind_eq_Inr)
qed

definition heard :: "bool \<Rightarrow> media_pusher \<Rightarrow> bool" where
  \<comment> \<open>the packets of this track are copied to a voice agent\<close>
  "heard voice_agent u \<longleftrightarrow> voice_agent \<and> av_type (mu_param u) = MEDIA_AUDIO_TYPE"

lemma to_voice_agent_outcome:
  assumes "rtp_ok pkt" and "length mem = RTP_PACKET_MAX_SIZE"
  shows "if heard voice_agent u \<and> \<not> rp_data_len pkt < RTP_PACKET_MAX_SIZE
    then to_voice_agent now_ms mem voice_agent pkt u = Inl AssertFail
    else \<exists>vs. to_voice_agent now_ms mem voice_agent pkt u = Inr vs \<and>
      (vs = [] \<longleftrightarrow> \<not> (heard voice_agent u \<and> (\<exists>c. Clone now_ms mem True pkt = Inr c))) \<and>
      (vs \<noteq> [] \<longrightarrow> (\<exists>c. vs = [ToVoiceAgent c] \<and> GetData c = GetData pkt))"
  using Clone_outcome [OF assms, of now_ms True] by (auto simp: to_voice_agent_def heard_def simp del: rbind_eq_Inr split: if_splits)

text \<open>
  C20. A packet of a known source id reaches the room exactly when the receive session accepts it; it arrives once, with its
  sequence number, time stamp, marker, source id, payload type and payload unchanged and at most its header extension
  altered, under the ids of this track. Only the session of that source id changes. When the voice agent is enabled
  and the track carries audio, the agent is handed a copy of the same datagram first, unless copying
  throws, which does not keep the packet from the room; a packet of 1500 bytes, the largest that is accepted, fails the
  assertion of \<open>Clone\<close> there and does not reach the room.
\<close>

theorem pusher_delivers:
  assumes "rtp_ok pkt" "om_find (mu_ssrc2sessions u) (GetSsrc pkt) = Some i"
    and "ReceiveRtpPacket (set_ext_ids (mu_param u) pkt) (mu_sessions u ! i) = (Inr b, s')"
    and "length mem = RTP_PACKET_MAX_SIZE"
  shows "\<exists>q vs. ext_frame pkt q \<and> rtp_view q = rtp_view pkt \<and>
    (vs = [] \<longleftrightarrow> \<not> (heard voice_agent u \<and> (\<exists>c. Clone now_ms mem True (set_ext_ids (mu_param u) pkt) = Inr c))) \<and>
    (vs \<noteq> [] \<longrightarrow> (\<exists>c. vs = [ToVoiceAgent c] \<and> GetData c = GetData pkt)) \<and>
    HandleRtpPacket now_ms mem voice_agent pkt u =
      (let u' = u\<lparr>mu_sessions := (mu_sessions u)[i := s']\<rparr> in
       if \<not> b then (Inr (-1), [], u')
       else if heard voice_agent u \<and> \<not> rp_data_len pkt < RTP_PACKET_MAX_SIZE then (Inl AssertFail, [], u')
       else (Inr 0, vs @ [ToRoom (mu_user_id u) (mu_session_id u) (mu_pusher_id u) q], u'))"
proof -
  let ?p = "set_ext_ids (mu_param u) pkt" and ?u = "u\<lparr>mu_sessions := (mu_sessions u)[i := s']\<rparr>"
  have g: "GetRtpRecvSession ?p u = (Some (i, False), u)" using assms(2) by (simp add: GetRtpRecvSession_def)
  have ok: "rtp_ok ?p" and d: "GetData ?p = GetData pkt" using assms(1) by (simp_all add: GetData_def)
  have h: "heard voice_agent ?u = heard voice_agent u" by (simp add: heard_def)
  obtain q where q: "pusher_to_room ?p ?u = Inr [ToRoom (mu_user_id ?u) (mu_session_id ?u) (mu_pusher_id ?u) q]" "ext_frame ?p q"
    by (rule pusher_to_room_frame [OF ok])
  have f: "ext_frame pkt q" by (rule ext_frame_trans [OF _ q(2)]) simp
  obtain vs where vs: "vs = [] \<longleftrightarrow> \<not> (heard voice_agent u \<and> (\<exists>c. Clone now_ms mem True ?p = Inr c))"
    "vs \<noteq> [] \<longrightarrow> (\<exists>c. vs = [ToVoiceAgent c] \<and> GetData c = GetData pkt)"
    "to_voice_agent now_ms mem voice_agent ?p ?u =
      (if heard voice_agent u \<and> \<not> rp_data_len pkt < RTP_PACKET_MAX_SIZE then Inl AssertFail else Inr vs)"
  proof (cases "heard voice_agent u \<and> \<not> rp_data_len pkt < RTP_PACKET_MAX_SIZE")
    case True
    then have "Clone now_ms mem True ?p = Inl AssertFail" by (simp add: Clone_def)
    then show thesis using True to_voice_agent_outcome [OF ok assms(4), of voice_agent ?u now_ms] that [of "[]"] by (simp add: h)
  next
    case False
    then obtain vs where "to_voice_agent now_ms mem voice_agent ?p ?u = Inr vs" "vs = [] \<longleftrightarrow> \<not> (heard voice_agent u \<and> (\<exists>c. Clone now_ms mem True ?p = Inr c))"
      "vs \<noteq> [] \<longrightarrow> (\<exists>c. vs = [ToVoiceAgent c] \<and> GetData c = GetData pkt)"
      using to_voice_agent_outcome [OF ok assms(4), of voice_agent ?u now_ms] unfolding h d by (auto split: if_splits)
    then show thesis using False that [of vs] by auto
  qed
  show ?thesis using g q(1) f ext_frame_view [OF assms(1) f] assms(3) vs
    by (intro exI [of _ q] exI [of _ vs]) (simp add: HandleRtpPacket_def Let_def split: bool.split)
qed

definition track_example :: media_pusher where
  "track_example = CreateRtpRecvSession \<lparr>ntp_sec = 0, ntp_frac = 0\<rparr> (MediaPusher_new
     (RtpSessionParam_default\<lparr>p_use_nack := True, p_ssrc := 3, p_payload_type := 96, p_rtx_ssrc := 9, p_rtx_payload_type := 97\<rparr>)
     [1] [2] [3] True)"

lemma track_example_simps:
  "mu_ssrc2sessions track_example = [(3, 0)]" "mu_rtxssrc2sessions track_example = [(9, 0)]"
  "mu_sessions track_example = [RtpRecvSession_new (mu_param track_example) \<lparr>ntp_sec = 0, ntp_frac = 0\<rparr>]"
  "mu_user_id track_example = [1]" "mu_session_id track_example = [2]" "mu_pusher_id track_example = [3]"
  "mu_param track_example = RtpSessionParam_default\<lparr>p_use_nack := True, p_ssrc := 3, p_payload_type := 96, p_rtx_ssrc := 9,
     p_rtx_payload_type := 97\<rparr>"
  by (simp_all add: track_example_def CreateRtpRecvSession_def MediaPusher_new_def Let_def)

theorem pusher_delivers_witness:
  "\<exists>pkt q c u'. Parse 7 [0x80, 96, 0, 1, 0, 0, 0, 2, 0, 0, 0, 3, 0xAA] 13 = Inr pkt \<and> rtp_view q = rtp_view pkt \<and> GetData c = GetData pkt \<and>
     HandleRtpPacket 8 (replicate 1500 0) True pkt (track_example\<lparr>mu_param := (mu_param track_example)\<lparr>av_type := MEDIA_AUDIO_TYPE\<rparr>\<rparr>)
       = (Inr 0, [ToVoiceAgent c, ToRoom [1] [2] [3] q], u')"
proof -
  let ?d = "[0x80, 96, 0, 1, 0, 0, 0, 2, 0, 0, 0, 3, 0xAA] :: bytes" and ?m = "replicate 1500 0 :: bytes"
  let ?u = "track_example\<lparr>mu_param := (mu_param track_example)\<lparr>av_type := MEDIA_AUDIO_TYPE\<rparr>\<rparr>"
  have "case_sum (\<lambda>_. False) (\<lambda>p. GetSsrc p = 3 \<and> case_sum (\<lambda>_. False) (\<lambda>_. True) (Clone 8 ?m True p)) (Parse 7 ?d 13)" by code_simp
  then obtain pkt c0 where p: "Parse 7 ?d 13 = Inr pkt" "GetSsrc pkt = 3" "Clone 8 ?m True pkt = Inr c0" by (auto split: sum.splits)
  have P: "rtp_ok pkt" "rp_data_len pkt = 13" using Parse_Inr [OF p(1)] by auto
  have f: "om_find (mu_ssrc2sessions ?u) (GetSsrc pkt) = Some 0" by (simp add: track_example_simps om_find_def p(2))
  have i: "set_ext_ids (mu_param ?u) pkt = pkt" by (simp add: set_ext_ids_def track_example_simps RtpSessionParam_default_def)
  obtain s' where s: "ReceiveRtpPacket (set_ext_ids (mu_param ?u) pkt) (mu_sessions ?u ! 0) = (Inr True, s')"
    by (simp add: ReceiveRtpPacket_def track_example_simps RtpRecvSession_new_def rtp_session.defs rtp_recv_session.defs
        rtp_session_init_def)
  have h: "heard True ?u" by (simp add: heard_def)
  have m: "length ?m = RTP_PACKET_MAX_SIZE" by (simp add: RTP_PACKET_MAX_SIZE_def)
  from pusher_delivers [OF P(1) f s m, of True 8] obtain q vs where q: "rtp_view q = rtp_view pkt" "vs \<noteq> []"
    "vs \<noteq> [] \<longrightarrow> (\<exists>c. vs = [ToVoiceAgent c] \<and> GetData c = GetData pkt)"
    "HandleRtpPacket 8 ?m True pkt ?u = (Inr 0, vs @ [ToRoom (mu_user_id ?u) (mu_session_id ?u) (mu_pusher_id ?u) q], ?u\<lparr>mu_sessions := (mu_sessions ?u)[0 := s']\<rparr>)"
    using h p(3) P(2) unfolding i by (auto simp: RTP_PACKET_MAX_SIZE_def Let_def simp del: rbind_eq_Inr)
  then show ?thesis using p(1) by (auto simp: track_example_simps)
qed



end
