(* ===== verification/Rtc_Recv_Relay.thy ===== *)
theory Rtc_Recv_Relay
  imports Rtp_Recv Rtc_Send_Relay
begin

text \<open>
  \<open>RtcRecvRelay\<close> of \<open>webrtc_room/rtc_recv_relay.{hpp,cpp}\<close>, the receiving end of a relay between two SFUs of a cluster, and
  \<open>PortGenerator\<close> of \<open>webrtc_room/port_generator.{hpp,cpp}\<close>, which gives it its UDP port. As in the sending relay the sessions live in a list
  and the maps hold positions; packets for the room and RTCP datagrams are returned. The clock, the random numbers of the
  loss simulation and what a constructor leaves uninitialised are arguments; logging and the event log are left out.
\<close>

section \<open>Ports\<close>

record port_generator =
  start_port :: u16
  end_port :: u16
  current_port :: u16

definition PortGenerator_Initialize :: "u16 \<Rightarrow> u16 \<Rightarrow> port_generator" where
  "PortGenerator_Initialize start_p end_p = \<lparr>start_port = start_p, end_port = end_p, current_port = start_p\<rparr>"

definition GeneratePort :: "port_generator \<Rightarrow> u16 \<times> port_generator" where
  "GeneratePort g =
     (let g1 = (if current_port g > end_port g then g\<lparr>current_port := start_port g\<rparr> else g)
      in (current_port g1, g1\<lparr>current_port := current_port g1 + 1\<rparr>))"

section \<open>State\<close>

record recv_relay =
  rv_pusher_user_id :: bytes
  rv_packet2room_cb :: bool
  rv_push_infos :: "(bytes, push_info) omap"
  rv_ssrc2push_infos :: "(u32, push_info) omap"
  rv_sessions :: "rtp_recv_session list"
  rv_ssrc2recv_session :: "(u32, nat) omap"
  rv_rtx_ssrc2recv_session :: "(u32, nat) omap"
  rv_udp_port :: u16
  rv_listen_ip :: bytes
  rv_remote_address :: udp_tuple
  rv_last_alive_ms :: int
  rv_recv_discard_percent :: u32
  rv_last_statics_ms :: int
  rv_draws :: nat

datatype recv_relay_out = ToRoomRemote bytes bytes rtp_packet | RelayRtcp bytes udp_tuple

definition RtcRecvRelay_new :: "bytes \<Rightarrow> bool \<Rightarrow> bytes \<Rightarrow> u32 \<Rightarrow> int \<Rightarrow> port_generator \<Rightarrow> recv_relay \<times> port_generator" where
  "RtcRecvRelay_new pusher_user_id cb relay_server_ip percent now_ms g =
     (let (udp_p, g') = GeneratePort g in
      (\<lparr>rv_pusher_user_id = pusher_user_id, rv_packet2room_cb = cb, rv_push_infos = [], rv_ssrc2push_infos = [],
        rv_sessions = [], rv_ssrc2recv_session = [], rv_rtx_ssrc2recv_session = [], rv_udp_port = udp_p, rv_listen_ip = relay_server_ip,
        rv_remote_address = \<lparr>ip_address = [], udp_port = 0, addr_u64 = 0\<rparr>, rv_last_alive_ms = now_ms,
        rv_recv_discard_percent = percent, rv_last_statics_ms = -1, rv_draws = 0\<rparr>, g'))"

definition AddVirtualPusher :: "NTP_TIMESTAMP \<Rightarrow> push_info \<Rightarrow> recv_relay \<Rightarrow> recv_relay" where
  "AddVirtualPusher ntp info r =
     (let n = length (rv_sessions r); p = pi_param info;
          r1 = r\<lparr>rv_push_infos := emplace (pi_pusher_id info) info (rv_push_infos r),
                 rv_ssrc2push_infos := emplace (p_ssrc p) info (rv_ssrc2push_infos r),
                 rv_sessions := rv_sessions r @ [RtpRecvSession_new p ntp],
                 rv_ssrc2recv_session := emplace (p_ssrc p) n (rv_ssrc2recv_session r)\<rparr>
      in if p_rtx_ssrc p \<noteq> 0
         then r1\<lparr>rv_rtx_ssrc2recv_session := emplace (p_rtx_ssrc p) n (rv_rtx_ssrc2recv_session r1)\<rparr>
         else r1)"

section \<open>Receiving media\<close>

definition relay_to_room :: "rtp_packet \<Rightarrow> recv_relay \<Rightarrow> recv_relay_out list" where
  "relay_to_room rtp_packet r =
     (if rp_payload_len rtp_packet = 0 \<or> \<not> rv_packet2room_cb r then []
      else (case om_find (rv_ssrc2push_infos r) (GetSsrc rtp_packet) of
        None \<Rightarrow> []
      | Some info \<Rightarrow> [ToRoomRemote (rv_pusher_user_id r) (pi_pusher_id info) rtp_packet]))"

definition recv_relay_HandleRtpPacket ::
    "int \<Rightarrow> bytes \<Rightarrow> nat \<Rightarrow> recv_relay \<Rightarrow> unit res \<times> recv_relay_out list \<times> recv_relay" where
  \<comment> \<open>an exception is caught and logged\<close>
  "recv_relay_HandleRtpPacket now_ms data data_size r =
     (case Parse now_ms data data_size of
        Inl Throw \<Rightarrow> (Inr (), [], r)
      | Inl e \<Rightarrow> (Inl e, [], r)
      | Inr rtp_packet \<Rightarrow>
        (case om_find (rv_ssrc2recv_session r) (GetSsrc rtp_packet) of
           Some i \<Rightarrow>
             (case ReceiveRtpPacket rtp_packet (rv_sessions r ! i) of
                (ret, s) \<Rightarrow>
                  let r1 = r\<lparr>rv_sessions := (rv_sessions r)[i := s]\<rparr> in
                  (case ret of
                     Inl Throw \<Rightarrow> (Inr (), [], r1)
                   | Inl e \<Rightarrow> (Inl e, [], r1)
                   | Inr False \<Rightarrow> (Inr (), [], r1)
                   | Inr True \<Rightarrow> (Inr (), relay_to_room rtp_packet r1, r1)))
         | None \<Rightarrow>
           (case om_find (rv_rtx_ssrc2recv_session r) (GetSsrc rtp_packet) of
              None \<Rightarrow> (Inr (), [], r)
            | Some i \<Rightarrow>
                (case ReceiveRtxPacket rtp_packet (rv_sessions r ! i) of
                   (ret, s) \<Rightarrow>
                     let r1 = r\<lparr>rv_sessions := (rv_sessions r)[i := s]\<rparr> in
                     (case ret of
                        Inl Throw \<Rightarrow> (Inr (), [], r1)
                      | Inl e \<Rightarrow> (Inl e, [], r1)
                      | Inr (False, rep, pkt) \<Rightarrow> (Inr (), [], r1)
                      | Inr (True, rep, pkt) \<Rightarrow>
                          if rep = Some True \<or> GetSsrc pkt = GetSsrc rtp_packet then (Inr (), [], r1)
                          else (Inr (), relay_to_room pkt r1, r1))))))"

section \<open>Receiving reports\<close>

definition recv_relay_HandleRtcpSrPacket ::
    "int \<Rightarrow> bytes \<Rightarrow> bytes \<Rightarrow> nat \<Rightarrow> recv_relay \<Rightarrow> unit res \<times> recv_relay_out list \<times> recv_relay" where
  \<comment> \<open>\<open>mem\<close> is the memory of the report object\<close>
  "recv_relay_HandleRtcpSrPacket now_ms mem data data_size r =
     (case Sr_Parse mem data data_size of
        Inl Throw \<Rightarrow> (Inr (), [], r)
      | Inl e \<Rightarrow> (Inl e, [], r)
      | Inr sr_packet \<Rightarrow>
        (case om_find (rv_ssrc2recv_session r) (Sr_GetSsrc sr_packet) of
           None \<Rightarrow> (Inr (), [], r)
         | Some i \<Rightarrow> (Inr (), [], r\<lparr>rv_sessions := (rv_sessions r)
             [i := snd (HandleRtcpSrPacket now_ms sr_packet (rv_sessions r ! i))]\<rparr>)))"

definition recv_relay_item ::
    "int \<Rightarrow> bytes \<Rightarrow> bytes \<Rightarrow> nat \<Rightarrow> recv_relay \<Rightarrow> unit res \<times> recv_relay_out list \<times> recv_relay" where
  "recv_relay_item now_ms mem p item_total r =
     (if rtcp_packet_type p = rtcp_type_code RTCP_SR then recv_relay_HandleRtcpSrPacket now_ms mem p item_total r
      else (Inr (), [], r))"

definition recv_relay_HandleRtcpPacket ::
    "int \<Rightarrow> bytes \<Rightarrow> bytes \<Rightarrow> nat \<Rightarrow> recv_relay \<Rightarrow> unit res \<times> recv_relay_out list \<times> recv_relay" where
  "recv_relay_HandleRtcpPacket now_ms mem data data_size r =
     rtcp_walk (recv_relay_item now_ms mem) data (int data_size) r"

definition recv_relay_OnRead ::
    "int \<Rightarrow> bytes \<Rightarrow> (nat \<Rightarrow> u32) \<Rightarrow> bytes \<Rightarrow> nat \<Rightarrow> udp_tuple \<Rightarrow> recv_relay \<Rightarrow>
     unit res \<times> recv_relay_out list \<times> recv_relay" where
  "recv_relay_OnRead now_ms mem rand data data_size address r0 =
     (let r = r0\<lparr>rv_draws := rv_draws r0 + 1\<rparr> in
      if DiscardPacketByPercent (rv_recv_discard_percent r) (rand (rv_draws r0)) then (Inr (), [], r)
      else if data_size = 0 then (Inr (), [], r)
      else let r1 = r\<lparr>rv_remote_address := address\<rparr> in
        (case IsRtcp data data_size of
           Inl e \<Rightarrow> (Inl e, [], r1)
         | Inr True \<Rightarrow> recv_relay_HandleRtcpPacket now_ms mem data data_size r1
         | Inr False \<Rightarrow>
           (case IsRtp data data_size of
              Inl e \<Rightarrow> (Inl e, [], r1)
            | Inr True \<Rightarrow> recv_relay_HandleRtpPacket now_ms data data_size (r1\<lparr>rv_last_alive_ms := now_ms\<rparr>)
            | Inr False \<Rightarrow> (Inr (), [], r1))))"

section \<open>Sending reports, timers and queries\<close>

definition recv_relay_IsAlive :: "int \<Rightarrow> recv_relay \<Rightarrow> bool" where
  "recv_relay_IsAlive now_ms r \<longleftrightarrow> \<not> now_ms - rv_last_alive_ms r > 40 * 1000"

definition recv_relay_IsConnected :: "recv_relay \<Rightarrow> bool" where
  "recv_relay_IsConnected r \<longleftrightarrow> ip_address (rv_remote_address r) \<noteq> [] \<and> udp_port (rv_remote_address r) \<noteq> 0"

definition recv_relay_OnTransportSendRtcp :: "bytes \<Rightarrow> recv_relay \<Rightarrow> recv_relay_out list" where
  "recv_relay_OnTransportSendRtcp data r =
     (if data = [] then []
      else if ip_address (rv_remote_address r) = [] \<or> udp_port (rv_remote_address r) = 0 then []
      else [RelayRtcp data (rv_remote_address r)])"

definition recv_relay_rr_timer ::
    "int \<Rightarrow> bytes \<Rightarrow> nat \<Rightarrow> recv_relay \<Rightarrow> unit res \<times> recv_relay_out list \<times> recv_relay" where
  \<comment> \<open>the timer of the session at \<open>i\<close>, with the relay as its transport\<close>
  "recv_relay_rr_timer now_ms mem i r =
     (case recv_OnTimer now_ms mem (rv_sessions r ! i) of
        Inl e \<Rightarrow> (Inl e, [], r)
      | Inr (msg, s) \<Rightarrow> (Inr (), case msg of None \<Rightarrow> [] | Some d \<Rightarrow> recv_relay_OnTransportSendRtcp d r,
          r\<lparr>rv_sessions := (rv_sessions r)[i := s]\<rparr>))"

definition recv_relay_nack_timer ::
    "int \<Rightarrow> bytes \<Rightarrow> nat \<Rightarrow> recv_relay \<Rightarrow> unit res \<times> recv_relay_out list \<times> recv_relay" where
  \<comment> \<open>the timer of the NACK generator of the session at \<open>i\<close>\<close>
  "recv_relay_nack_timer now_ms mem i r =
     (case recv_nack_timer now_ms mem (rv_sessions r ! i) of
        Inl e \<Rightarrow> (Inl e, [], r)
      | Inr (msg, s) \<Rightarrow> (Inr (), case msg of None \<Rightarrow> [] | Some d \<Rightarrow> recv_relay_OnTransportSendRtcp d r,
          r\<lparr>rv_sessions := (rv_sessions r)[i := s]\<rparr>))"

definition recv_relay_GetMediaType :: "bytes \<Rightarrow> recv_relay \<Rightarrow> MEDIA_PKT_TYPE" where
  "recv_relay_GetMediaType pusher_id r =
     (case om_find (rv_push_infos r) pusher_id of None \<Rightarrow> MEDIA_UNKNOWN_TYPE | Some info \<Rightarrow> av_type (pi_param info))"

definition GetPushInfo :: "bytes \<Rightarrow> recv_relay \<Rightarrow> push_info option" where
  "GetPushInfo pusher_id r = om_find (rv_push_infos r) pusher_id"

definition recv_relay_RequestKeyFrame :: "u32 \<Rightarrow> recv_relay \<Rightarrow> recv_relay_out list" where
  "recv_relay_RequestKeyFrame ssrc r =
     (case om_find (rv_ssrc2push_infos r) ssrc of
        None \<Rightarrow> []
      | Some info \<Rightarrow> recv_relay_OnTransportSendRtcp
          (Pli_GetData (Pli_SetMediaSsrc ssrc (Pli_SetSenderSsrc 0 RtcpPsPli_new))) r)"

fun recv_relay_statics :: "int \<Rightarrow> (u32 \<times> nat) list \<Rightarrow> recv_relay \<Rightarrow> recv_relay" where
  "recv_relay_statics now_ms [] r = r"
| "recv_relay_statics now_ms ((ssrc, i) # m) r =
     (let s = rv_sessions r ! i in
      recv_relay_statics now_ms m (r\<lparr>rv_sessions := (rv_sessions r)
        [i := s\<lparr>recv_statics := snd (snd (BytesPerSecond now_ms (recv_statics s)))\<rparr>]\<rparr>))"

definition recv_relay_OnTimer :: "int \<Rightarrow> recv_relay \<Rightarrow> recv_relay" where
  "recv_relay_OnTimer now_ms r =
     (if rv_last_statics_ms r < 0 then r\<lparr>rv_last_statics_ms := now_ms\<rparr>
      else if now_ms - rv_last_statics_ms r < 5000 then r
      else recv_relay_statics now_ms (rv_ssrc2recv_session r) (r\<lparr>rv_last_statics_ms := now_ms\<rparr>))"

section \<open>Ports are handed out in turn\<close>

lemma GeneratePort_at:
  assumes "start_p \<le> end_p" "end_p < 0xFFFF" "j < unat end_p - unat start_p + 1"
  defines "g \<equiv> \<lambda>c. \<lparr>start_port = start_p, end_port = end_p, current_port = c\<rparr>"
  shows "GeneratePort (g (start_p + of_nat j)) = (start_p + of_nat j, g (start_p + of_nat j + 1))"
    and "GeneratePort (g (end_p + 1)) = (start_p, g (start_p + 1))"
proof -
  have u: "unat start_p \<le> unat end_p" "unat end_p < 65535"
    using assms(1,2) by (simp_all add: word_le_nat_alt word_less_nat_alt)
  have j: "unat (of_nat j :: u16) = j" using assms(3) u by (intro unat_of_nat_16) simp
  then have "unat (start_p + of_nat j) = unat start_p + j" using assms(3) u by (subst unat_add_lem [THEN iffD1]) simp_all
  then have "\<not> end_p < start_p + of_nat j" using assms(3) u by (simp add: word_less_nat_alt)
  then show "GeneratePort (g (start_p + of_nat j)) = (start_p + of_nat j, g (start_p + of_nat j + 1))"
    by (simp add: GeneratePort_def g_def)
  have "unat (end_p + 1) = unat end_p + 1" using u by (subst unat_add_lem [THEN iffD1]) simp_all
  then have "end_p < end_p + 1" by (simp add: word_less_nat_alt)
  then show "GeneratePort (g (end_p + 1)) = (start_p, g (start_p + 1))" by (simp add: GeneratePort_def g_def)
qed

text \<open>
  C39. Ports are handed out in turn: with a range that ends below 65535, the \<open>k\<close>-th call returns the port \<open>k\<close> places behind the
  first one, counted modulo the size of the range. Every port therefore lies in the range, and a port comes back only
  after all others were used.
\<close>

theorem ports_in_turn:
  assumes "start_p \<le> end_p" "end_p < 0xFFFF"
  shows "fst (GeneratePort (((snd \<circ> GeneratePort) ^^ k) (PortGenerator_Initialize start_p end_p))) =
    start_p + of_nat (k mod (unat end_p - unat start_p + 1))"
proof -
  let ?n = "unat end_p - unat start_p + 1"
  define g where "g c = \<lparr>start_port = start_p, end_port = end_p, current_port = c\<rparr>" for c
  note at = GeneratePort_at [OF assms, folded g_def]
  have "GeneratePort (((snd \<circ> GeneratePort) ^^ k) (g start_p)) = (start_p + of_nat (k mod ?n), g (start_p + of_nat (k mod ?n) + 1))"
  proof (induction k)
    case 0
    show ?case using at(1) [of 0] by simp
  next
    case (Suc k)
    have lt: "k mod ?n < ?n" by simp
    show ?case
    proof (cases "Suc (k mod ?n) = ?n")
      case True
      have "unat start_p \<le> unat end_p" using assms(1) by (simp add: word_le_nat_alt)
      then have "start_p + of_nat (unat end_p - unat start_p) = end_p" by (simp add: of_nat_diff)
      moreover have "k mod ?n = unat end_p - unat start_p" using True by simp
      moreover have "Suc k mod ?n = 0" using True by (simp add: mod_Suc)
      ultimately show ?thesis using Suc at(2) [OF lt] by simp
    next
      case False
      then have "Suc k mod ?n = Suc (k mod ?n)" by (simp add: mod_Suc)
      moreover have "Suc (k mod ?n) < ?n" using lt False by linarith
      ultimately show ?thesis using Suc at(1) [of "Suc (k mod ?n)"] by (simp add: ac_simps)
    qed
  qed
  then show ?thesis by (simp add: PortGenerator_Initialize_def g_def)
qed

theorem ports_in_turn_witness:
  "fst (GeneratePort (((snd \<circ> GeneratePort) ^^ 7) (PortGenerator_Initialize 9000 9002))) = 9001"
  using ports_in_turn [of 9000 9002 7] by simp

section \<open>Invariant\<close>

lemma om_find_emplace: "om_ok m \<Longrightarrow> om_find (emplace k v m) k' = (if k' = k \<and> om_find m k = None then Some v else om_find m k')"
  by (simp add: emplace_def)

lemma om_ok_emplace [simp]: "om_ok m \<Longrightarrow> om_ok (emplace k v m)"
  by (simp add: emplace_def)

definition recv_relay_ok :: "recv_relay \<Rightarrow> bool" where
  \<comment> \<open>every source id leads to a session created for it, and the push information of a media source id is that session's\<close>
  "recv_relay_ok r \<longleftrightarrow>
     om_ok (rv_ssrc2recv_session r) \<and> om_ok (rv_ssrc2push_infos r) \<and> om_ok (rv_rtx_ssrc2recv_session r) \<and>
     (\<forall>ssrc. om_find (rv_ssrc2recv_session r) ssrc = None \<longrightarrow> om_find (rv_ssrc2push_infos r) ssrc = None) \<and>
     (\<forall>ssrc i. om_find (rv_ssrc2recv_session r) ssrc = Some i \<longrightarrow>
        i < length (rv_sessions r) \<and> p_ssrc (param (rv_sessions r ! i)) = ssrc \<and>
        (\<exists>info. om_find (rv_ssrc2push_infos r) ssrc = Some info \<and> pi_param info = param (rv_sessions r ! i))) \<and>
     (\<forall>ssrc i. om_find (rv_rtx_ssrc2recv_session r) ssrc = Some i \<longrightarrow>
        i < length (rv_sessions r) \<and> p_rtx_ssrc (param (rv_sessions r ! i)) = ssrc \<and> ssrc \<noteq> 0)"

definition same_tracks :: "recv_relay \<Rightarrow> recv_relay \<Rightarrow> bool" where
  \<comment> \<open>the same maps, and sessions with the same parameters in the same places\<close>
  "same_tracks r r' \<longleftrightarrow> rv_ssrc2recv_session r' = rv_ssrc2recv_session r \<and>
     rv_rtx_ssrc2recv_session r' = rv_rtx_ssrc2recv_session r \<and> rv_ssrc2push_infos r' = rv_ssrc2push_infos r \<and>
     map param (rv_sessions r') = map param (rv_sessions r)"

lemma same_tracks_refl [simp]: "same_tracks r r"
  by (simp add: same_tracks_def)

lemma same_tracks_trans: "same_tracks a b \<Longrightarrow> same_tracks b c \<Longrightarrow> same_tracks a c"
  by (simp add: same_tracks_def)

lemma same_tracks_frame [simp]:
  "same_tracks r (r'\<lparr>rv_draws := n\<rparr>) = same_tracks r r'" "same_tracks r (r'\<lparr>rv_remote_address := a\<rparr>) = same_tracks r r'"
  "same_tracks r (r'\<lparr>rv_last_alive_ms := t\<rparr>) = same_tracks r r'" "same_tracks r (r'\<lparr>rv_last_statics_ms := t\<rparr>) = same_tracks r r'"
  "same_tracks (r\<lparr>rv_draws := n\<rparr>) r' = same_tracks r r'" "same_tracks (r\<lparr>rv_remote_address := a\<rparr>) r' = same_tracks r r'"
  "same_tracks (r\<lparr>rv_last_alive_ms := t\<rparr>) r' = same_tracks r r'" "same_tracks (r\<lparr>rv_last_statics_ms := t\<rparr>) r' = same_tracks r r'"
  by (simp_all add: same_tracks_def)

lemma same_tracks_update: "param s = param (rv_sessions r ! i) \<Longrightarrow> same_tracks r (r\<lparr>rv_sessions := (rv_sessions r)[i := s]\<rparr>)"
  by (simp add: same_tracks_def) (metis list_update_id map_update)

lemma same_tracks_ok:
  assumes "same_tracks r r'" "recv_relay_ok r"
  shows "recv_relay_ok r'"
proof -
  have m: "map param (rv_sessions r') = map param (rv_sessions r)" using assms(1) by (simp add: same_tracks_def)
  then have l: "length (rv_sessions r') = length (rv_sessions r)" by (rule map_eq_imp_length_eq)
  have "param (rv_sessions r' ! i) = param (rv_sessions r ! i)" if "i < length (rv_sessions r)" for i
    using that l m nth_map [of i "rv_sessions r" param] nth_map [of i "rv_sessions r'" param] by simp
  with l show ?thesis using assms unfolding recv_relay_ok_def same_tracks_def by simp
qed

lemma recv_relay_HandleRtpPacket_tracks:
  "recv_relay_HandleRtpPacket now_ms data n r = (ret, outs, r') \<Longrightarrow> same_tracks r r'"
  by (auto simp: recv_relay_HandleRtpPacket_def Let_def split: sum.splits cpp_error.splits option.splits prod.splits bool.splits if_splits
      dest!: recv_session_params(1,2) intro: same_tracks_update)

lemma recv_relay_item_tracks: "recv_relay_item now_ms mem p n r = (ret, outs, r') \<Longrightarrow> same_tracks r r'"
  by (auto simp: recv_relay_item_def recv_relay_HandleRtcpSrPacket_def
      split: sum.splits cpp_error.splits option.splits if_splits intro: same_tracks_update)

interpretation recv_relay_rtcp: rtcp_emitter "recv_relay_item now_ms mem" same_tracks "\<lambda>_ _. False" for now_ms mem
  \<comment> \<open>reports never cause an answer\<close>
  by unfold_locales (auto dest: recv_relay_item_tracks intro: same_tracks_trans same_tracks_update simp: recv_relay_item_def recv_relay_HandleRtcpSrPacket_def
      split: sum.splits cpp_error.splits option.splits if_splits)

lemma recv_relay_OnRead_tracks:
  "recv_relay_OnRead now_ms mem rand data n addr r = (ret, outs, r') \<Longrightarrow> same_tracks r r'"
  by (auto simp: recv_relay_OnRead_def recv_relay_HandleRtcpPacket_def Let_def split: if_splits sum.splits bool.splits
      dest!: recv_relay_rtcp.walk_keeps recv_relay_HandleRtpPacket_tracks)

lemma recv_relay_timer_tracks:
  "recv_relay_rr_timer now_ms mem i r = (ret, outs, r') \<Longrightarrow> same_tracks r r'"
  "recv_relay_nack_timer now_ms mem i r = (ret, outs, r') \<Longrightarrow> same_tracks r r'"
  by (auto simp: recv_relay_rr_timer_def recv_relay_nack_timer_def split: sum.splits prod.splits
      dest!: recv_session_params(3,4) intro: same_tracks_update)

lemma recv_relay_OnTimer_tracks: "same_tracks r (recv_relay_OnTimer now_ms r)"
proof -
  have "same_tracks r (recv_relay_statics now_ms m r)" for m r
  proof (induction m arbitrary: r)
    case (Cons a m)
    obtain ssrc i where a: "a = (ssrc, i)" by (cases a)
    let ?s = "rv_sessions r ! i"
    have "same_tracks r (r\<lparr>rv_sessions := (rv_sessions r)[i := ?s\<lparr>recv_statics := x\<rparr>]\<rparr>)" for x
      by (rule same_tracks_update) simp
    from same_tracks_trans [OF this Cons.IH] show ?case by (simp add: a Let_def)
  qed simp
  from this [of "r\<lparr>rv_last_statics_ms := now_ms\<rparr>"] show ?thesis by (simp add: recv_relay_OnTimer_def)
qed

lemma AddVirtualPusher_ok:
  assumes "recv_relay_ok r"
  shows "recv_relay_ok (AddVirtualPusher ntp info r)"
proof -
  let ?r = "AddVirtualPusher ntp info r" and ?n = "length (rv_sessions r)" and ?p = "pi_param info"
  have s: "rv_sessions ?r = rv_sessions r @ [RtpRecvSession_new ?p ntp]"
    and m: "rv_ssrc2recv_session ?r = emplace (p_ssrc ?p) ?n (rv_ssrc2recv_session r)"
      "rv_ssrc2push_infos ?r = emplace (p_ssrc ?p) info (rv_ssrc2push_infos r)"
      "rv_rtx_ssrc2recv_session ?r = (if p_rtx_ssrc ?p \<noteq> 0 then emplace (p_rtx_ssrc ?p) ?n (rv_rtx_ssrc2recv_session r)
         else rv_rtx_ssrc2recv_session r)"
    by (simp_all add: AddVirtualPusher_def Let_def)
  have new: "param (RtpRecvSession_new ?p ntp) = ?p"
    by (simp add: RtpRecvSession_new_def rtp_session.defs rtp_recv_session.defs rtp_session_init_def)
  have ok: "om_ok (rv_ssrc2recv_session r)" "om_ok (rv_ssrc2push_infos r)" "om_ok (rv_rtx_ssrc2recv_session r)"
    and none: "om_find (rv_ssrc2recv_session r) k = None \<Longrightarrow> om_find (rv_ssrc2push_infos r) k = None"
    and some: "om_find (rv_ssrc2recv_session r) k = Some i \<Longrightarrow> i < ?n \<and> p_ssrc (param (rv_sessions r ! i)) = k \<and>
        (\<exists>info. om_find (rv_ssrc2push_infos r) k = Some info \<and> pi_param info = param (rv_sessions r ! i))"
    and rtx: "om_find (rv_rtx_ssrc2recv_session r) k = Some i \<Longrightarrow> i < ?n \<and> p_rtx_ssrc (param (rv_sessions r ! i)) = k \<and> k \<noteq> 0"
    for k i using assms unfolding recv_relay_ok_def by blast+
  have old: "i < ?n \<Longrightarrow> i < length (rv_sessions ?r) \<and> rv_sessions ?r ! i = rv_sessions r ! i"
    and last: "?n < length (rv_sessions ?r)" "param (rv_sessions ?r ! ?n) = ?p" for i by (simp_all add: s nth_append new)
  have "om_find (rv_ssrc2push_infos ?r) k = None" if "om_find (rv_ssrc2recv_session ?r) k = None" for k
    using that none [of k] ok by (auto simp: m om_find_emplace split: if_splits)
  moreover have "i < length (rv_sessions ?r) \<and> p_ssrc (param (rv_sessions ?r ! i)) = k \<and>
      (\<exists>info. om_find (rv_ssrc2push_infos ?r) k = Some info \<and> pi_param info = param (rv_sessions ?r ! i))"
    if f: "om_find (rv_ssrc2recv_session ?r) k = Some i" for k i
  proof (cases "om_find (rv_ssrc2recv_session r) k")
    case None
    then have "k = p_ssrc ?p" "i = ?n" using f ok by (auto simp: m om_find_emplace split: if_splits)
    with None show ?thesis using last none [of k] ok by (simp add: m om_find_emplace)
  next
    case (Some j)
    then have "j = i" using f ok by (simp add: m om_find_emplace split: if_splits)
    with Some show ?thesis using some [of k i] old [of i] ok by (auto simp: m om_find_emplace)
  qed
  moreover have "i < length (rv_sessions ?r) \<and> p_rtx_ssrc (param (rv_sessions ?r ! i)) = k \<and> k \<noteq> 0"
    if f: "om_find (rv_rtx_ssrc2recv_session ?r) k = Some i" for k i
  proof (cases "om_find (rv_rtx_ssrc2recv_session r) k")
    case None
    then have "k = p_rtx_ssrc ?p" "i = ?n" "k \<noteq> 0" using f ok by (auto simp: m om_find_emplace split: if_splits)
    with last show ?thesis by simp
  next
    case (Some j)
    then have "j = i" using f ok by (simp add: m om_find_emplace split: if_splits)
    with Some show ?thesis using rtx [of k i] old [of i] by simp
  qed
  moreover have "om_ok (rv_ssrc2recv_session ?r)" "om_ok (rv_ssrc2push_infos ?r)" "om_ok (rv_rtx_ssrc2recv_session ?r)"
    using ok by (simp_all add: m)
  ultimately show ?thesis unfolding recv_relay_ok_def by blast
qed

inductive recv_reach :: "recv_relay \<Rightarrow> bool" where
  init: "RtcRecvRelay_new user cb ip percent now_ms g = (r, g') \<Longrightarrow> recv_reach r"
| add: "recv_reach r \<Longrightarrow> recv_reach (AddVirtualPusher ntp info r)"
| read: "recv_reach r \<Longrightarrow> recv_relay_OnRead now_ms mem rand data n addr r = (ret, outs, r') \<Longrightarrow> recv_reach r'"
| rr_timer: "recv_reach r \<Longrightarrow> recv_relay_rr_timer now_ms mem i r = (ret, outs, r') \<Longrightarrow> recv_reach r'"
| nack_timer: "recv_reach r \<Longrightarrow> recv_relay_nack_timer now_ms mem i r = (ret, outs, r') \<Longrightarrow> recv_reach r'"
| timer: "recv_reach r \<Longrightarrow> recv_reach (recv_relay_OnTimer now_ms r)"

lemma recv_reach_ok: "recv_reach r \<Longrightarrow> recv_relay_ok r"
proof (induction rule: recv_reach.induct)
  case (init user cb ip percent now_ms g r g')
  then show ?case by (auto simp: recv_relay_ok_def RtcRecvRelay_new_def om_find_def Let_def split: prod.splits)
qed (auto intro: AddVirtualPusher_ok same_tracks_ok [OF recv_relay_OnRead_tracks] same_tracks_ok [OF recv_relay_timer_tracks(1)]
    same_tracks_ok [OF recv_relay_timer_tracks(2)] same_tracks_ok [OF recv_relay_OnTimer_tracks])

section \<open>Across the relay\<close>

lemma recv_relay_okD:
  assumes "recv_relay_ok r" "om_find (rv_ssrc2recv_session r) ssrc = Some i"
  obtains info where "i < length (rv_sessions r)" "om_find (rv_ssrc2push_infos r) ssrc = Some info" "p_ssrc (pi_param info) = ssrc"
  using assms unfolding recv_relay_ok_def by force

text \<open>
  C8. A packet crosses the link between two SFUs unchanged. The datagram the sending relay emits for it arrives at a receiving relay,
  in any state that relay can reach, where its source id was announced: if the receive session of that source id accepts the
  packet, the room of the second SFU gets it exactly once, byte for byte, under the publisher and the track that were
  announced for the source id; if not, nothing is passed on. In both cases the relay counts as alive and answers to the sender's address.
\<close>

theorem cluster_relay:
  assumes "relay_SendRtpPacket now_ms mem rand pkt r = (Inr (), [RelayUdp d remote], r')"
    and "IsRtp d (length d) = Inr True" "IsRtcp d (length d) = Inr False" "Parse now_ms' (d @ rest) (length d) = Inr q" "GetPayload q \<noteq> []"
    and "recv_reach v" "om_find (rv_ssrc2recv_session v) (GetSsrc q) = Some i" "rv_packet2room_cb v"
    and "\<not> DiscardPacketByPercent (rv_recv_discard_percent v) (rand' (rv_draws v))"
    and "ReceiveRtpPacket q (rv_sessions v ! i) = (Inr b, s')"
  shows "\<exists>info v'. om_find (rv_ssrc2push_infos v) (GetSsrc q) = Some info \<and> p_ssrc (pi_param info) = GetSsrc q \<and>
    recv_relay_OnRead now_ms' mem' rand' (d @ rest) (length d) address v =
      (Inr (), if b then [ToRoomRemote (rv_pusher_user_id v) (pi_pusher_id info) q] else [], v') \<and>
    GetData q = GetData pkt \<and> recv_relay_IsAlive now_ms' v' \<and> rv_remote_address v' = address"
proof -
  have d: "d = GetData pkt" using assms(1)
    by (auto simp: relay_SendRtpPacket_def relay_OnTransportSendRtp_def Let_def
        split: option.splits prod.splits sum.splits cpp_error.splits bool.splits if_splits)
  obtain info where info: "om_find (rv_ssrc2push_infos v) (GetSsrc q) = Some info" "p_ssrc (pi_param info) = GetSsrc q"
    by (rule recv_relay_okD [OF recv_reach_ok [OF assms(6)] assms(7)])
  have len: "12 \<le> length d" using assms(2) by (simp add: IsRtp_def split: if_splits)
  have "rd8 (d @ rest) 0 = rd8 d 0" "rd8 (d @ rest) 1 = rd8 d 1" using len by (auto simp: rd8_def nth_append)
  then have demux: "IsRtp (d @ rest) (length d) = Inr True" "IsRtcp (d @ rest) (length d) = Inr False"
    using assms(2,3) by (simp_all only: IsRtp_def IsRtcp_def)
  have "GetData q = d" using Parse_Inr [OF assms(4)] by (simp add: GetData_def)
  moreover have "rp_payload_len q \<noteq> 0" using assms(5) by (auto simp: GetPayload_def)
  ultimately show ?thesis using info demux len d assms(4,7-10)
    by (intro exI [of _ info] exI [of _ "v\<lparr>rv_draws := rv_draws v + 1, rv_remote_address := address, rv_last_alive_ms := now_ms',
          rv_sessions := (rv_sessions v)[i := s']\<rparr>"])
      (auto simp: recv_relay_OnRead_def recv_relay_HandleRtpPacket_def relay_to_room_def recv_relay_IsAlive_def Let_def
        split: bool.split)
qed

definition virtual_example :: recv_relay where
  "virtual_example = AddVirtualPusher \<lparr>ntp_sec = 0, ntp_frac = 0\<rparr>
     \<lparr>pi_pusher_id = [1], pi_param = RtpSessionParam_default\<lparr>p_ssrc := 3, p_payload_type := 96\<rparr>\<rparr>
     (fst (RtcRecvRelay_new [2] True [49] 0 5 (PortGenerator_Initialize 9000 9100)))"

theorem cluster_relay_witness:
  "\<exists>pkt d r' q v'. Parse 7 [0x80, 96, 0, 1, 0, 0, 0, 2, 0, 0, 0, 3, 0xAA] 13 = Inr pkt \<and>
     relay_SendRtpPacket 8 (replicate 1500 0) (\<lambda>_. 0) pkt relay_example =
       (Inr (), [RelayUdp d \<lparr>ip_address = [49], udp_port = 9000, addr_u64 = 0\<rparr>], r') \<and>
     recv_relay_OnRead 9 [] (\<lambda>_. 0) (d @ [1, 2]) (length d) \<lparr>ip_address = [50], udp_port = 80, addr_u64 = 0\<rparr> virtual_example =
       (Inr (), [ToRoomRemote [2] [1] q], v') \<and> GetData q = GetData pkt"
proof -
  let ?d = "[0x80, 96, 0, 1, 0, 0, 0, 2, 0, 0, 0, 3, 0xAA] :: bytes" and ?a = "\<lparr>ip_address = [50], udp_port = 80, addr_u64 = 0\<rparr>"
  let ?s = "RtpSendSession_new (RtpSessionParam_default\<lparr>p_ssrc := 3, p_payload_type := 96\<rparr>) True"
  have "case_sum (\<lambda>_. False) (\<lambda>p. GetSsrc p = 3) (Parse 7 ?d 13)" by code_simp
  then obtain pkt where p: "Parse 7 ?d 13 = Inr pkt" "GetSsrc pkt = 3" by (auto split: sum.splits)
  have "case_sum (\<lambda>_. False) (\<lambda>p. GetSsrc p = 3 \<and> GetPayload p = [0xAA]) (Parse 9 (?d @ [1, 2]) (length ?d))" by code_simp
  then obtain q where q: "Parse 9 (?d @ [1, 2]) (length ?d) = Inr q" "GetSsrc q = 3" "GetPayload q \<noteq> []"
    by (auto simp del: length_Cons list.size append_Cons split: sum.splits)
  obtain r' where r: "relay_SendRtpPacket 8 (replicate 1500 0) (\<lambda>_. 0) pkt relay_example =
      (Inr (), [RelayUdp ?d \<lparr>ip_address = [49], udp_port = 9000, addr_u64 = 0\<rparr>], r')"
    using Parse_Inr [OF p(1)] p(2)
    by (simp add: relay_SendRtpPacket_def relay_OnTransportSendRtp_def relay_find_def relay_example_def AddPushInfo_def
        RtcSendRelay_new_def emplace_def RtpSessionParam_default_def om_find_def SendRtpPacket_def send_store_def StoreRtxPacket_def
        Let_def RtpSendSession_new_def rtp_session.defs rtp_send_session.defs rtp_session_init_def InitSeq_def
        DiscardPacketByPercent_def GetData_def)
  have i: "IsRtp ?d (length ?d) = Inr True" "IsRtcp ?d (length ?d) = Inr False" by code_simp+
  have v: "recv_reach virtual_example" unfolding virtual_example_def
    by (rule recv_reach.add, rule recv_reach.init, rule surjective_pairing)
  have f: "om_find (rv_ssrc2recv_session virtual_example) (GetSsrc q) = Some 0" "rv_packet2room_cb virtual_example"
    "\<not> DiscardPacketByPercent (rv_recv_discard_percent virtual_example) 0" "rv_pusher_user_id virtual_example = [2]"
    "om_find (rv_ssrc2push_infos virtual_example) (GetSsrc q) =
       Some \<lparr>pi_pusher_id = [1], pi_param = RtpSessionParam_default\<lparr>p_ssrc := 3, p_payload_type := 96\<rparr>\<rparr>"
    by (simp_all add: virtual_example_def AddVirtualPusher_def RtcRecvRelay_new_def emplace_def RtpSessionParam_default_def
        om_find_def Let_def q(2) DiscardPacketByPercent_def split: prod.split)
  obtain s' where s: "ReceiveRtpPacket q (rv_sessions virtual_example ! 0) = (Inr True, s')"
    by (simp add: ReceiveRtpPacket_def virtual_example_def AddVirtualPusher_def RtcRecvRelay_new_def RtpRecvSession_new_def
        rtp_session.defs rtp_recv_session.defs rtp_session_init_def RtpSessionParam_default_def Let_def split: prod.split)
  show ?thesis using cluster_relay [OF r i q(1,3) v f(1-3) s, of "[]" ?a] p(1) r f(4,5) by auto
qed

end
