(* ===== verification/Srtp_Session.thy ===== *)
theory Srtp_Session
  imports RTC_Prelude
begin

text \<open>
  \<open>SRtpSession\<close> of \<open>webrtc_room/srtp_session.{hpp,cpp}\<close>: the checks around libsrtp. The library itself is the parameter
  \<open>lib\<close>; its contexts have a type of their own (\<open>'c\<close>). A \<open>protect\<close> operation takes the message and returns the protected one, or nothing when it fails;
  an \<open>unprotect\<close> operation works on a buffer of which the first \<open>len\<close> bytes are the message and returns whether it succeeded, the
  buffer and the length it leaves behind. Logging is left out.
\<close>

datatype SRtpSessionCryptoSuite =
  SRTP_SESSION_CRYPTO_SUITE_INVALID | AEAD_AES_256_GCM | AEAD_AES_128_GCM | AES_CM_128_HMAC_SHA1_80 | AES_CM_128_HMAC_SHA1_32

datatype SRtpType = SRTP_SESSION_TYPE_INVALID | SRTP_SESSION_TYPE_SEND | SRTP_SESSION_TYPE_RECV

record 'c libsrtp =
  rtp_profile :: "SRtpSessionCryptoSuite \<Rightarrow> bool"
  rtcp_profile :: "SRtpSessionCryptoSuite \<Rightarrow> bool"
  cipher_key_len :: "SRtpSessionCryptoSuite \<Rightarrow> nat"
  srtp_create :: "SRtpSessionCryptoSuite \<Rightarrow> bool \<Rightarrow> bytes \<Rightarrow> 'c option"
  srtp_protect :: "'c \<Rightarrow> bytes \<Rightarrow> bytes option \<times> 'c"
  srtp_protect_rtcp :: "'c \<Rightarrow> bytes \<Rightarrow> bytes option \<times> 'c"
  srtp_unprotect :: "'c \<Rightarrow> bytes \<Rightarrow> nat \<Rightarrow> (bool \<times> bytes \<times> nat) \<times> 'c"
  srtp_unprotect_rtcp :: "'c \<Rightarrow> bytes \<Rightarrow> nat \<Rightarrow> (bool \<times> bytes \<times> nat) \<times> 'c"

record 'c srtp_session =
  srtp_type :: SRtpType
  srtp_ctx :: "'c option"

definition DATA_BUFFER_SIZE :: nat where "DATA_BUFFER_SIZE = 2048"

section \<open>Creation\<close>

definition key_len_of :: "SRtpSessionCryptoSuite \<Rightarrow> nat" where
  \<comment> \<open>key and salt of a suite\<close>
  "key_len_of suite = (case suite of AEAD_AES_256_GCM \<Rightarrow> 44 | AEAD_AES_128_GCM \<Rightarrow> 28 | _ \<Rightarrow> 30)"

definition policy_ok :: "'c libsrtp \<Rightarrow> SRtpSessionCryptoSuite \<Rightarrow> bool" where
  \<comment> \<open>the first \<open>switch\<close> without the key lengths: for the two AEAD suites a failure is made good by a direct setup\<close>
  "policy_ok lib suite =
     (case suite of
        SRTP_SESSION_CRYPTO_SUITE_INVALID \<Rightarrow> False
      | AEAD_AES_256_GCM \<Rightarrow> True
      | AEAD_AES_128_GCM \<Rightarrow> True
      | _ \<Rightarrow> rtp_profile lib suite \<and> rtcp_profile lib suite)"

definition InitSrtpSession :: "'c libsrtp \<Rightarrow> bool \<Rightarrow> SRtpType \<Rightarrow> SRtpSessionCryptoSuite \<Rightarrow> bytes \<Rightarrow> 'c option" where
  \<comment> \<open>\<open>global\<close> is \<open>global_initialized_\<close>; the second \<open>switch\<close> sets the policy libsrtp derives from the suite\<close>
  "InitSrtpSession lib global type suite key =
     (if \<not> global then None
      else if \<not> policy_ok lib suite \<or> length key \<noteq> key_len_of suite then None
      else if length key \<noteq> cipher_key_len lib suite then None
      else srtp_create lib suite (type = SRTP_SESSION_TYPE_SEND) key)"

definition SRtpSession_new :: "'c libsrtp \<Rightarrow> bool \<Rightarrow> SRtpType \<Rightarrow> SRtpSessionCryptoSuite \<Rightarrow> bytes \<Rightarrow> 'c srtp_session" where
  "SRtpSession_new lib global type suite key = \<lparr>srtp_type = type, srtp_ctx = InitSrtpSession lib global type suite key\<rparr>"

section \<open>Messages\<close>

definition EncryptRtp :: "'c libsrtp \<Rightarrow> bytes \<Rightarrow> 'c srtp_session \<Rightarrow> bytes option \<times> 'c srtp_session" where
  \<comment> \<open>the message is copied to \<open>data_buffer_\<close> first\<close>
  "EncryptRtp lib data k =
     (case srtp_ctx k of
        None \<Rightarrow> (None, k)
      | Some c \<Rightarrow>
          if data = [] \<or> srtp_type k \<noteq> SRTP_SESSION_TYPE_SEND \<or> length data > DATA_BUFFER_SIZE then (None, k)
          else let (d, c') = srtp_protect lib c data in (d, k\<lparr>srtp_ctx := Some c'\<rparr>))"

definition EncryptRtcp :: "'c libsrtp \<Rightarrow> bytes \<Rightarrow> 'c srtp_session \<Rightarrow> bytes option \<times> 'c srtp_session" where
  "EncryptRtcp lib data k =
     (case srtp_ctx k of
        None \<Rightarrow> (None, k)
      | Some c \<Rightarrow>
          if data = [] \<or> srtp_type k \<noteq> SRTP_SESSION_TYPE_SEND then (None, k)
          else let (d, c') = srtp_protect_rtcp lib c data in (d, k\<lparr>srtp_ctx := Some c'\<rparr>))"

definition DecryptRtp :: "'c libsrtp \<Rightarrow> bytes \<Rightarrow> nat \<Rightarrow> 'c srtp_session \<Rightarrow> (bool \<times> bytes \<times> nat) \<times> 'c srtp_session" where
  "DecryptRtp lib data len k =
     (case srtp_ctx k of
        None \<Rightarrow> ((False, data, len), k)
      | Some c \<Rightarrow>
          if len = 0 \<or> srtp_type k \<noteq> SRTP_SESSION_TYPE_RECV then ((False, data, len), k)
          else let (r, c') = srtp_unprotect lib c data len in (r, k\<lparr>srtp_ctx := Some c'\<rparr>))"

definition DecryptRtcp :: "'c libsrtp \<Rightarrow> bytes \<Rightarrow> nat \<Rightarrow> 'c srtp_session \<Rightarrow> (bool \<times> bytes \<times> nat) \<times> 'c srtp_session" where
  "DecryptRtcp lib data len k =
     (case srtp_ctx k of
        None \<Rightarrow> ((False, data, len), k)
      | Some c \<Rightarrow>
          if len = 0 \<or> srtp_type k \<noteq> SRTP_SESSION_TYPE_RECV then ((False, data, len), k)
          else let (r, c') = srtp_unprotect_rtcp lib c data len in (r, k\<lparr>srtp_ctx := Some c'\<rparr>))"

end
