(* ===== verification/Webrtc_Session.thy ===== *)
theory Webrtc_Session
  imports Media_Pusher Ice_Server Tcc_Server Rtcp_Walk Srtp_Session
begin

text \<open>
  \<open>WebRtcSession\<close> of \<open>webrtc_room/webrtc_session.{hpp,cpp}\<close>: one transport to a browser. It demultiplexes the datagrams of
  the peer, decrypts media and reports, leads them to the tracks the peer publishes and the subscriptions it holds, and
  encrypts what these send. Tracks and subscriptions are shared between several maps, so they live in lists and the maps
  hold positions. What the session writes to the socket, passes to the room, requests of a publisher or hands to the
  DTLS layer is returned in order. Arguments of the operations are libsrtp (\<open>lib\<close>), HMAC-SHA1, the clock, the configuration
  \<open>cfg\<close>, the random numbers of the loss simulation (\<open>ws_draws\<close> counts those used) and uninitialised memory. The transport callback is set by the first datagram, before
  anything is sent, so it is not part of the state. Of the DTLS layer (OpenSSL) the state keeps the address and flag the session sets.
\<close>

section \<open>State\<close>

record session_cfg =
  uplink_discard_percent :: u32
  downlink_discard_percent :: u32
  voice_agent_enable :: bool

record dtls_link =
  dtls_remote_addr :: udp_tuple
  ice_connected :: bool

record 'c webrtc_session =
  ws_direction :: SRtpType
  ws_room_id :: bytes
  ws_user_id :: bytes
  ws_session_id :: bytes
  ws_closed :: bool
  ws_alive_ms :: int
  ws_dtls_connected :: bool
  ws_ice :: ice_server
  ws_dtls :: "dtls_link option"
  ws_srtp_send :: "'c srtp_session option"
  ws_srtp_recv :: "'c srtp_session option"
  ws_remote_addr :: udp_tuple
  ws_pushers :: "media_pusher list"
  ws_ssrc2media_pusher :: "(u32, nat) omap"
  ws_mid2media_pusher :: "(int, nat) omap"
  ws_pullers :: "media_puller list"
  ws_ssrc2media_puller :: "(u32, nat) omap"
  ws_rtxssrc2media_puller :: "(u32, nat) omap"
  ws_mid_ext_id :: int
  ws_tcc_ext_id :: int
  ws_tcc :: tcc_server
  ws_draws :: nat

datatype session_out =
  WriteUdp bytes udp_tuple
| Media pusher_out
| KeyFrame bytes bytes bytes u32
| PushClose bytes
| PullClose bytes
| DtlsData bytes udp_tuple

definition WebRtcSession_new :: "SRtpType \<Rightarrow> bytes \<Rightarrow> bytes \<Rightarrow> bytes \<Rightarrow> ice_server \<Rightarrow> int \<Rightarrow> 'c webrtc_session" where
  \<comment> \<open>the fourth argument is the generated id\<close>
  "WebRtcSession_new type room_id user_id uuid ice now_ms =
     \<lparr>ws_direction = type, ws_room_id = room_id, ws_user_id = user_id, ws_session_id = uuid, ws_closed = False, ws_alive_ms = now_ms,
      ws_dtls_connected = False, ws_ice = ice, ws_dtls = None, ws_srtp_send = None, ws_srtp_recv = None,
      ws_remote_addr = \<lparr>ip_address = [], udp_port = 0, addr_u64 = 0\<rparr>, ws_pushers = [], ws_ssrc2media_pusher = [],
      ws_mid2media_pusher = [], ws_pullers = [], ws_ssrc2media_puller = [], ws_rtxssrc2media_puller = [], ws_mid_ext_id = -1,
      ws_tcc_ext_id = -1, ws_tcc = TccServer_new True, ws_draws = 0\<rparr>"

definition session_Close :: "'c webrtc_session \<Rightarrow> session_out list \<times> 'c webrtc_session" where
  "session_Close s =
     (if ws_closed s then ([], s)
      else (map (\<lambda>(ssrc, i). PushClose (mu_pusher_id (ws_pushers s ! i))) (ws_ssrc2media_pusher s) @
            map (\<lambda>(ssrc, i). PullClose (mp_puller_id (ws_pullers s ! i))) (ws_ssrc2media_puller s), s\<lparr>ws_closed := True\<rparr>))"

definition DtlsInit :: "int \<Rightarrow> int \<Rightarrow> 'c webrtc_session \<Rightarrow> int \<times> 'c webrtc_session" where
  \<comment> \<open>\<open>init\<close> and \<open>run\<close> are what \<open>InitSession\<close> and \<open>Run\<close> of the DTLS layer return\<close>
  "DtlsInit init run s =
     (let s1 = s\<lparr>ws_dtls := Some \<lparr>dtls_remote_addr = \<lparr>ip_address = [], udp_port = 0, addr_u64 = 0\<rparr>, ice_connected = False\<rparr>\<rparr> in
      if init \<noteq> 0 then (init, s1) else if run \<noteq> 0 then (run, s1) else (0, s1))"

definition AddPusherRtpSession :: "NTP_TIMESTAMP \<Rightarrow> bytes \<Rightarrow> RtpSessionParam \<Rightarrow> 'c webrtc_session \<Rightarrow> int \<times> bytes \<times> 'c webrtc_session" where
  "AddPusherRtpSession ntp uuid p s =
     (let n = length (ws_pushers s);
          u = CreateRtpRecvSession ntp (MediaPusher_new p (ws_user_id s) (ws_session_id s) uuid True);
          s1 = s\<lparr>ws_mid_ext_id := p_mid_ext_id p, ws_tcc_ext_id := p_tcc_ext_id p, ws_pushers := ws_pushers s @ [u],
                 ws_ssrc2media_pusher := om_insert (p_ssrc p) n (ws_ssrc2media_pusher s),
                 ws_mid2media_pusher := om_insert (mid p) n (ws_mid2media_pusher s)\<rparr>
      in (0, mu_pusher_id u,
          if p_rtx_ssrc p \<noteq> 0 then s1\<lparr>ws_ssrc2media_pusher := om_insert (p_rtx_ssrc p) n (ws_ssrc2media_pusher s1)\<rparr> else s1))"

definition AddPullerRtpSession :: "bytes \<Rightarrow> RtpSessionParam \<Rightarrow> bytes \<Rightarrow> bytes \<Rightarrow> 'c webrtc_session \<Rightarrow> int \<times> 'c webrtc_session" where
  \<comment> \<open>\<open>puller_id\<close> is never assigned\<close>
  "AddPullerRtpSession uuid p pusher_user_id pusher_id s =
     (let n = length (ws_pullers s);
          u = CreateRtpSendSession (MediaPuller_new p (ws_user_id s) pusher_user_id pusher_id uuid True);
          s1 = s\<lparr>ws_pullers := ws_pullers s @ [u], ws_ssrc2media_puller := om_insert (p_ssrc p) n (ws_ssrc2media_puller s)\<rparr>
      in (0, if p_rtx_ssrc p \<noteq> 0 then s1\<lparr>ws_rtxssrc2media_puller := om_insert (p_rtx_ssrc p) n (ws_rtxssrc2media_puller s1)\<rparr> else s1))"

section \<open>Sending\<close>

definition session_OnTransportSendRtp ::
    "'c libsrtp \<Rightarrow> session_cfg \<Rightarrow> (nat \<Rightarrow> u32) \<Rightarrow> bytes \<Rightarrow> 'c webrtc_session \<Rightarrow> session_out list \<times> 'c webrtc_session" where
  "session_OnTransportSendRtp lib cfg rand data s =
     (if \<not> ws_dtls_connected s then ([], s)
      else (case ws_srtp_send s of
        None \<Rightarrow> ([], s)
      | Some k \<Rightarrow>
          (case EncryptRtp lib data k of
             (None, k') \<Rightarrow> ([], s\<lparr>ws_srtp_send := Some k'\<rparr>)
           | (Some d, k') \<Rightarrow>
               let s1 = s\<lparr>ws_srtp_send := Some k'\<rparr> in
               if downlink_discard_percent cfg > 0 then
                 if rand (ws_draws s) < downlink_discard_percent cfg then ([], s1\<lparr>ws_draws := ws_draws s + 1\<rparr>)
                 else ([WriteUdp d (ws_remote_addr s)], s1\<lparr>ws_draws := ws_draws s + 1\<rparr>)
               else ([WriteUdp d (ws_remote_addr s)], s1))))"

definition session_OnTransportSendRtcp :: "'c libsrtp \<Rightarrow> bytes \<Rightarrow> 'c webrtc_session \<Rightarrow> session_out list \<times> 'c webrtc_session" where
  "session_OnTransportSendRtcp lib data s =
     (if \<not> ws_dtls_connected s then ([], s)
      else (case ws_srtp_send s of
        None \<Rightarrow> ([], s)
      | Some k \<Rightarrow>
          (case EncryptRtcp lib data k of
             (None, k') \<Rightarrow> ([], s\<lparr>ws_srtp_send := Some k'\<rparr>)
           | (Some d, k') \<Rightarrow> ([WriteUdp d (ws_remote_addr s)], s\<lparr>ws_srtp_send := Some k'\<rparr>))))"

fun session_send_all ::
    "(bytes \<Rightarrow> 'c webrtc_session \<Rightarrow> session_out list \<times> 'c webrtc_session) \<Rightarrow> bytes list \<Rightarrow> 'c webrtc_session \<Rightarrow>
     session_out list \<times> 'c webrtc_session" where
  \<comment> \<open>messages a track, a subscription or the feedback server hands to the session one by one\<close>
  "session_send_all send [] s = ([], s)"
| "session_send_all send (d # ds) s =
     (let (o1, s1) = send d s; (o2, s2) = session_send_all send ds s1 in (o1 @ o2, s2))"

definition OnDtlsTransportConnected ::
    "'c libsrtp \<Rightarrow> bool \<Rightarrow> SRtpSessionCryptoSuite \<Rightarrow> bytes \<Rightarrow> bytes \<Rightarrow> 'c webrtc_session \<Rightarrow> session_out list \<times> 'c webrtc_session" where
  \<comment> \<open>the source id searched for a subscription is the smallest one filed for it; 0 is skipped\<close>
  "OnDtlsTransportConnected lib global suite local_key remote_key s =
     (let s1 = s\<lparr>ws_srtp_send := Some (SRtpSession_new lib global SRTP_SESSION_TYPE_SEND suite local_key),
                 ws_srtp_recv := Some (SRtpSession_new lib global SRTP_SESSION_TYPE_RECV suite remote_key)\<rparr>;
          reqs = (if ws_direction s = SRTP_SESSION_TYPE_SEND then
            concat (map (\<lambda>(k, i).
              let u = ws_pullers s ! i; ssrc = fst (hd (filter (\<lambda>(k', j). j = i) (ws_ssrc2media_puller s))) in
              if av_type (mp_param u) = MEDIA_VIDEO_TYPE \<and> ssrc \<noteq> 0
              then [KeyFrame (mp_pusher_id u) (mp_puller_user_id u) (mp_pusher_user_id u) ssrc] else []) (ws_ssrc2media_puller s))
            else [])
      in (reqs, s1\<lparr>ws_dtls_connected := True\<rparr>))"

section \<open>Receiving media\<close>

definition session_set_ids :: "rtp_packet \<Rightarrow> 'c webrtc_session \<Rightarrow> rtp_packet \<times> 'c webrtc_session" where
  "session_set_ids pkt s =
     (let pkt1 = (if ws_mid_ext_id s > 0 then pkt\<lparr>rp_mid_extension_id := word_of_int (ws_mid_ext_id s)\<rparr> else pkt) in
      if ws_tcc_ext_id s > 0
      then (pkt1\<lparr>rp_tcc_extension_id := word_of_int (ws_tcc_ext_id s)\<rparr>,
            s\<lparr>ws_tcc := SetTccExtensionId (word_of_int (ws_tcc_ext_id s)) (ws_tcc s)\<rparr>)
      else (pkt1, s))"

definition session_tcc ::
    "'c libsrtp \<Rightarrow> int \<Rightarrow> rtp_packet \<Rightarrow> 'c webrtc_session \<Rightarrow> (session_out list \<times> 'c webrtc_session) res" where
  \<comment> \<open>the transport-wide number is read once for a log text, then the packet goes to the feedback server\<close>
  "session_tcc lib now_ms pkt s =
     rbind (if ws_tcc_ext_id s > 0 then ReadWideSeq pkt else Inr None) (\<lambda>wide_seq.
     rbind (InsertRtpPacket now_ms (Some pkt) (ws_tcc s)) (\<lambda>(ret, msg, t).
       let s1 = s\<lparr>ws_tcc := t\<rparr> in
       Inr (case msg of None \<Rightarrow> ([], s1) | Some d \<Rightarrow> session_OnTransportSendRtcp lib d s1)))"

definition find_media_pusher :: "rtp_packet \<Rightarrow> 'c webrtc_session \<Rightarrow> (nat option \<times> 'c webrtc_session) res" where
  \<comment> \<open>the track of a packet: by source id, else by media id, which makes the source id known\<close>
  "find_media_pusher pkt s =
     (case om_find (ws_ssrc2media_pusher s) (GetSsrc pkt) of
        Some i \<Rightarrow> Inr (Some i, s)
      | None \<Rightarrow>
          rbind (ReadMid pkt) (\<lambda>m. case m of
            None \<Rightarrow> Inr (None, s)
          | Some mid_val \<Rightarrow>
              (case om_find (ws_mid2media_pusher s) (uint mid_val) of
                 None \<Rightarrow> Inr (None, s)
               | Some i \<Rightarrow> Inr (Some i,
                   s\<lparr>ws_ssrc2media_pusher := om_insert (GetSsrc pkt) i (ws_ssrc2media_pusher s),
                     ws_pushers := (ws_pushers s)[i := pusher_UpdateSSRC (GetSsrc pkt) (ws_pushers s ! i)]\<rparr>))))"

definition session_dispatch ::
    "'c libsrtp \<Rightarrow> session_cfg \<Rightarrow> int \<Rightarrow> bytes \<Rightarrow> rtp_packet \<Rightarrow> 'c webrtc_session \<Rightarrow> int res \<times> session_out list \<times> 'c webrtc_session" where
  \<comment> \<open>the second \<open>try\<close> block; an exception is caught and gives \<open>-1\<close>\<close>
  "session_dispatch lib cfg now_ms mem pkt0 s0 =
     (let (pkt, s1) = session_set_ids pkt0 s0 in
      case session_tcc lib now_ms pkt s1 of
        Inl Throw \<Rightarrow> (Inr (-1), [], s1)
      | Inl e \<Rightarrow> (Inl e, [], s1)
      | Inr (o1, s2) \<Rightarrow>
        (case find_media_pusher pkt s2 of
           Inl Throw \<Rightarrow> (Inr (-1), o1, s2)
         | Inl e \<Rightarrow> (Inl e, o1, s2)
         | Inr (None, s3) \<Rightarrow> (Inr (-1), o1, s3)
         | Inr (Some i, s3) \<Rightarrow>
             (case HandleRtpPacket now_ms mem (voice_agent_enable cfg) pkt (ws_pushers s3 ! i) of
                (ret, ms, u) \<Rightarrow>
                  (case ret of Inl Throw \<Rightarrow> Inr (-1) | _ \<Rightarrow> ret, o1 @ map Media ms, s3\<lparr>ws_pushers := (ws_pushers s3)[i := u]\<rparr>))))"

definition session_HandleRtpPacket ::
    "'c libsrtp \<Rightarrow> session_cfg \<Rightarrow> int \<Rightarrow> (nat \<Rightarrow> u32) \<Rightarrow> bytes \<Rightarrow> bytes \<Rightarrow> nat \<Rightarrow> 'c webrtc_session \<Rightarrow>
     int res \<times> session_out list \<times> 'c webrtc_session" where
  "session_HandleRtpPacket lib cfg now_ms rand mem data len s =
     (case ws_srtp_recv s of
        None \<Rightarrow> (Inr (-1), [], s)
      | Some k \<Rightarrow>
          let s1 = (if uplink_discard_percent cfg > 0 then s\<lparr>ws_draws := ws_draws s + 1\<rparr> else s) in
          if uplink_discard_percent cfg > 0 \<and> rand (ws_draws s) < uplink_discard_percent cfg then (Inr 0, [], s1)
          else (case DecryptRtp lib data len k of
            ((r, data1, len1), k') \<Rightarrow>
              let s2 = s1\<lparr>ws_srtp_recv := Some k'\<rparr> in
              if \<not> r then (Inr (-1), [], s2)
              else (case Parse now_ms data1 len1 of
                Inl Throw \<Rightarrow> (Inr (-1), [], s2)
              | Inl e \<Rightarrow> (Inl e, [], s2)
              | Inr rtp_pkt \<Rightarrow> session_dispatch lib cfg now_ms mem rtp_pkt s2)))"

section \<open>Receiving reports and feedback\<close>

definition session_HandleRtcpSrPacket ::
    "int \<Rightarrow> bytes \<Rightarrow> bytes \<Rightarrow> nat \<Rightarrow> 'c webrtc_session \<Rightarrow> int res \<times> session_out list \<times> 'c webrtc_session" where
  "session_HandleRtcpSrPacket now_ms mem data len s =
     (case Sr_Parse mem data len of
        Inl Throw \<Rightarrow> (Inr (-1), [], s)
      | Inl e \<Rightarrow> (Inl e, [], s)
      | Inr sr_pkt \<Rightarrow>
        (case om_find (ws_ssrc2media_pusher s) (Sr_GetSsrc sr_pkt) of
           None \<Rightarrow> (Inr (-1), [], s)
         | Some i \<Rightarrow>
             (let (ret, u) = pusher_HandleRtcpSrPacket now_ms sr_pkt (ws_pushers s ! i)
              in (Inr ret, [], s\<lparr>ws_pushers := (ws_pushers s)[i := u]\<rparr>))))"

fun session_rr_blocks :: "int \<Rightarrow> bytes list \<Rightarrow> 'c webrtc_session \<Rightarrow> unit res \<times> 'c webrtc_session" where
  \<comment> \<open>a block about a source id that is not filed is skipped\<close>
  "session_rr_blocks now_ms [] s = (Inr (), s)"
| "session_rr_blocks now_ms (rr_block # bs) s =
     (case om_find (ws_ssrc2media_puller s) (Rr_GetReporteeSsrc rr_block) of
        None \<Rightarrow> session_rr_blocks now_ms bs s
      | Some i \<Rightarrow>
          (case puller_HandleRtcpRrBlock now_ms rr_block (ws_pullers s ! i) of
             Inl e \<Rightarrow> (Inl e, s)
           | Inr (ret, u) \<Rightarrow> session_rr_blocks now_ms bs (s\<lparr>ws_pullers := (ws_pullers s)[i := u]\<rparr>)))"

definition session_HandleRtcpRrPacket ::
    "int \<Rightarrow> bytes \<Rightarrow> nat \<Rightarrow> 'c webrtc_session \<Rightarrow> int res \<times> session_out list \<times> 'c webrtc_session" where
  "session_HandleRtcpRrPacket now_ms data len s =
     (case rbind (Rr_Parse data len) GetRrBlocks of
        Inl Throw \<Rightarrow> (Inr (-1), [], s)
      | Inl e \<Rightarrow> (Inl e, [], s)
      | Inr blocks \<Rightarrow>
          (case session_rr_blocks now_ms blocks s of
             (Inl Throw, s1) \<Rightarrow> (Inr (-1), [], s1)
           | (Inl e, s1) \<Rightarrow> (Inl e, [], s1)
           | (Inr _, s1) \<Rightarrow> (Inr 0, [], s1)))"

definition session_HandleRtcpRtpfbPacket ::
    "'c libsrtp \<Rightarrow> session_cfg \<Rightarrow> (nat \<Rightarrow> u32) \<Rightarrow> bytes \<Rightarrow> bytes \<Rightarrow> nat \<Rightarrow> 'c webrtc_session \<Rightarrow>
     int res \<times> session_out list \<times> 'c webrtc_session" where
  "session_HandleRtcpRtpfbPacket lib cfg rand mem data len s =
     (if rtcp_count data \<noteq> FB_RTP_NACK then (Inr 0, [], s)
      else (case Nack_Parse mem data len of
        Inl Throw \<Rightarrow> (Inr 0, [], s)
      | Inl e \<Rightarrow> (Inl e, [], s)
      | Inr None \<Rightarrow> (Inr (-1), [], s)
      | Inr (Some nack_pkt) \<Rightarrow>
        (case om_find (ws_ssrc2media_puller s) (Nack_GetMediaSsrc nack_pkt) of
           None \<Rightarrow> (Inr (-1), [], s)
         | Some i \<Rightarrow>
             (case puller_HandleRtcpFbNack (Some nack_pkt) (ws_pullers s ! i) of
                Inl Throw \<Rightarrow> (Inr 0, [], s)
              | Inl e \<Rightarrow> (Inl e, [], s)
              | Inr (ret, ds, u) \<Rightarrow>
                  (let (outs, s1) = session_send_all (session_OnTransportSendRtp lib cfg rand) ds
                         (s\<lparr>ws_pullers := (ws_pullers s)[i := u]\<rparr>)
                   in (Inr (if ret < 0 then ret else 0), outs, s1))))))"

definition session_HandleRtcpPsfbPacket :: "bytes \<Rightarrow> nat \<Rightarrow> 'c webrtc_session \<Rightarrow> int res \<times> session_out list \<times> 'c webrtc_session" where
  \<comment> \<open>the missing \<open>break\<close> after the first case only reaches a log call\<close>
  "session_HandleRtcpPsfbPacket data len s =
     (if len \<le> 4 then (Inr 0, [], s)
      else if rtcp_count data \<noteq> FB_PS_PLI then (Inr 0, [], s)
      else (case Pli_Parse data len of
        Inl Throw \<Rightarrow> (Inr 0, [], s)
      | Inl e \<Rightarrow> (Inl e, [], s)
      | Inr None \<Rightarrow> (Inr (-1), [], s)
      | Inr (Some pli) \<Rightarrow>
        (case om_find (ws_ssrc2media_puller s) (Pli_GetMediaSsrc pli) of
           None \<Rightarrow> (Inr (-1), [], s)
         | Some i \<Rightarrow> let u = ws_pullers s ! i in
             (Inr 0, [KeyFrame (mp_pusher_id u) (mp_puller_user_id u) (mp_pusher_user_id u) (Pli_GetMediaSsrc pli)], s))))"

definition session_item ::
    "'c libsrtp \<Rightarrow> session_cfg \<Rightarrow> int \<Rightarrow> (nat \<Rightarrow> u32) \<Rightarrow> bytes \<Rightarrow> bytes \<Rightarrow> nat \<Rightarrow> 'c webrtc_session \<Rightarrow>
     unit res \<times> session_out list \<times> 'c webrtc_session" where
  \<comment> \<open>the \<open>switch\<close> on the packet type; the results of the handlers are ignored\<close>
  "session_item lib cfg now_ms rand mem p item_total s =
     (let (ret, outs, s1) =
        (if rtcp_packet_type p = rtcp_type_code RTCP_SR then session_HandleRtcpSrPacket now_ms mem p item_total s
         else if rtcp_packet_type p = rtcp_type_code RTCP_RR then session_HandleRtcpRrPacket now_ms p item_total s
         else if rtcp_packet_type p = rtcp_type_code RTCP_RTPFB then session_HandleRtcpRtpfbPacket lib cfg rand mem p item_total s
         else if rtcp_packet_type p = rtcp_type_code RTCP_PSFB then session_HandleRtcpPsfbPacket p item_total s
         else (Inr 0, [], s))
      in (case ret of Inl e \<Rightarrow> Inl e | Inr _ \<Rightarrow> Inr (), outs, s1))"

definition session_HandleRtcpPacket ::
    "'c libsrtp \<Rightarrow> session_cfg \<Rightarrow> int \<Rightarrow> (nat \<Rightarrow> u32) \<Rightarrow> bytes \<Rightarrow> bytes \<Rightarrow> nat \<Rightarrow> 'c webrtc_session \<Rightarrow>
     int res \<times> session_out list \<times> 'c webrtc_session" where
  \<comment> \<open>the result of the decryption is tested as it is in the code\<close>
  "session_HandleRtcpPacket lib cfg now_ms rand mem data len s =
     (case ws_srtp_recv s of
        None \<Rightarrow> (Inr (-1), [], s)
      | Some k \<Rightarrow>
        (case DecryptRtcp lib data len k of
           ((r, data1, len1), k') \<Rightarrow>
             let s1 = s\<lparr>ws_srtp_recv := Some k'\<rparr> in
             if r then (Inr (-1), [], s1)
             else (case rtcp_walk (session_item lib cfg now_ms rand mem) data1 (int len1) s1 of
               (Inl e, outs, s2) \<Rightarrow> (Inl e, outs, s2)
             | (Inr _, outs, s2) \<Rightarrow> (Inr 0, outs, s2))))"

section \<open>Datagrams of the peer\<close>

definition IsDtlsData :: "bytes \<Rightarrow> nat \<Rightarrow> bool res" where
  "IsDtlsData data len = (if \<not> len \<ge> 13 then Inr False else rbind (rd8 data 0) (\<lambda>d0. Inr (d0 > 19 \<and> d0 < 64)))"

definition session_HandleStunPacket ::
    "(bytes \<Rightarrow> bytes \<Rightarrow> bytes res) \<Rightarrow> int \<Rightarrow> sockaddr_in \<Rightarrow> stun_packet \<Rightarrow> udp_tuple \<Rightarrow> 'c webrtc_session \<Rightarrow>
     int res \<times> session_out list \<times> 'c webrtc_session" where
  "session_HandleStunPacket hmac now_ms sock stun_pkt addr s =
     (let s1 = s\<lparr>ws_remote_addr := addr, ws_alive_ms := now_ms\<rparr> in
      case ice_HandleStunPacket hmac sock (ws_ice s) stun_pkt addr of
        Inl e \<Rightarrow> (Inl e, [], s1)
      | Inr (ret, pkt, ds) \<Rightarrow>
          let outs = map (\<lambda>(d, a). WriteUdp d a) ds in
          if ret \<noteq> 0 then (Inr ret, outs, s1)
          else (case ws_dtls s of
            None \<Rightarrow> (Inl OutOfBounds, outs, s1)
          | Some l \<Rightarrow> (Inr 0, outs, s1\<lparr>ws_dtls := Some (l\<lparr>dtls_remote_addr := addr, ice_connected := True\<rparr>)\<rparr>)))"

definition session_HandleNoneStunPacket ::
    "'c libsrtp \<Rightarrow> session_cfg \<Rightarrow> int \<Rightarrow> (nat \<Rightarrow> u32) \<Rightarrow> bytes \<Rightarrow> bytes \<Rightarrow> nat \<Rightarrow> udp_tuple \<Rightarrow> 'c webrtc_session \<Rightarrow>
     int res \<times> session_out list \<times> 'c webrtc_session" where
  "session_HandleNoneStunPacket lib cfg now_ms rand mem data len addr s0 =
     (let s = s0\<lparr>ws_remote_addr := addr, ws_alive_ms := now_ms\<rparr> in
      case IsRtcp data len of
        Inl e \<Rightarrow> (Inl e, [], s)
      | Inr True \<Rightarrow> session_HandleRtcpPacket lib cfg now_ms rand mem data len s
      | Inr False \<Rightarrow>
        (case IsRtp data len of
           Inl e \<Rightarrow> (Inl e, [], s)
         | Inr True \<Rightarrow> session_HandleRtpPacket lib cfg now_ms rand mem data len s
         | Inr False \<Rightarrow>
           (case IsDtlsData data len of
              Inl e \<Rightarrow> (Inl e, [], s)
            | Inr True \<Rightarrow> if ws_dtls s = None then (Inl OutOfBounds, [], s) else (Inr 0, [DtlsData (take len data) addr], s)
            | Inr False \<Rightarrow> (Inr 0, [], s))))"

section \<open>Timer\<close>

fun session_puller_timer ::
    "'c libsrtp \<Rightarrow> int \<Rightarrow> (u32 \<times> nat) list \<Rightarrow> 'c webrtc_session \<Rightarrow> unit res \<times> session_out list \<times> 'c webrtc_session" where
  "session_puller_timer lib now_ms [] s = (Inr (), [], s)"
| "session_puller_timer lib now_ms ((ssrc, i) # m) s =
     (case puller_OnTimer now_ms (ws_pullers s ! i) of
        Inl e \<Rightarrow> (Inl e, [], s)
      | Inr (msg, u) \<Rightarrow>
          (let (o1, s1) = session_send_all (session_OnTransportSendRtcp lib) (case msg of None \<Rightarrow> [] | Some d \<Rightarrow> [d])
                 (s\<lparr>ws_pullers := (ws_pullers s)[i := u]\<rparr>);
               (ret, o2, s2) = session_puller_timer lib now_ms m s1
           in (ret, o1 @ o2, s2)))"

fun session_pusher_timer ::
    "'c libsrtp \<Rightarrow> int \<Rightarrow> (u32 \<times> nat) list \<Rightarrow> 'c webrtc_session \<Rightarrow> session_out list \<times> 'c webrtc_session" where
  \<comment> \<open>a track filed under several source ids is visited several times\<close>
  "session_pusher_timer lib now_ms [] s = ([], s)"
| "session_pusher_timer lib now_ms ((ssrc, i) # m) s =
     (let (msgs, u) = pusher_OnTimer now_ms (ws_pushers s ! i);
          (o1, s1) = session_send_all (session_OnTransportSendRtcp lib) msgs (s\<lparr>ws_pushers := (ws_pushers s)[i := u]\<rparr>);
          (o2, s2) = session_pusher_timer lib now_ms m s1
      in (o1 @ o2, s2))"

definition session_OnTimer ::
    "'c libsrtp \<Rightarrow> int \<Rightarrow> 'c webrtc_session \<Rightarrow> unit res \<times> session_out list \<times> 'c webrtc_session" where
  "session_OnTimer lib now_ms s =
     (if \<not> ws_dtls_connected s \<or> ws_closed s then (Inr (), [], s)
      else let (ret, o1, s1) =
          (if ws_direction s = SRTP_SESSION_TYPE_SEND then session_puller_timer lib now_ms (ws_ssrc2media_puller s) s
           else if ws_direction s = SRTP_SESSION_TYPE_RECV
           then (let (outs, s') = session_pusher_timer lib now_ms (ws_ssrc2media_pusher s) s in (Inr (), outs, s'))
           else (Inr (), [], s)) in
        if ret \<noteq> Inr () then (ret, o1, s1)
        else (case ts_OnTimer now_ms (ws_tcc s1) of
          Inl e \<Rightarrow> (Inl e, o1, s1)
        | Inr (msg, t) \<Rightarrow>
            (let (o2, s2) = session_send_all (session_OnTransportSendRtcp lib) (case msg of None \<Rightarrow> [] | Some d \<Rightarrow> [d]) (s1\<lparr>ws_tcc := t\<rparr>)
             in (Inr (), o1 @ o2, s2))))"

definition session_IsAlive :: "int \<Rightarrow> 'c webrtc_session \<Rightarrow> bool" where
  "session_IsAlive now_ms s \<longleftrightarrow> now_ms - ws_alive_ms s \<le> 35 * 1000"

definition session_forward ::
    "'c libsrtp \<Rightarrow> session_cfg \<Rightarrow> int \<Rightarrow> (nat \<Rightarrow> u32) \<Rightarrow> bytes \<Rightarrow> nat \<Rightarrow> rtp_packet \<Rightarrow> 'c webrtc_session \<Rightarrow>
     unit res \<times> session_out list \<times> 'c webrtc_session" where
  \<comment> \<open>the room passes a packet to the subscription at \<open>i\<close>, whose transport is this session\<close>
  "session_forward lib cfg now_ms rand mem i pkt s =
     (let (ret, ds, pkt', u) = puller_OnTransportSendRtp now_ms mem (ws_dtls_connected s) pkt (ws_pullers s ! i);
          (outs, s') = session_send_all (session_OnTransportSendRtp lib cfg rand) ds (s\<lparr>ws_pullers := (ws_pullers s)[i := u]\<rparr>)
      in (ret, outs, s'))"

section \<open>What the operations keep\<close>

definition puller_core :: "media_puller \<Rightarrow> RtpSessionParam \<times> bytes \<times> bytes \<times> bytes \<times> bytes \<times> bool \<times> bool" where
  "puller_core p = (mp_param p, mp_puller_user_id p, mp_pusher_user_id p, mp_puller_id p, mp_pusher_id p, mp_has_cb p, mp_send p = None)"

definition pusher_core :: "media_pusher \<Rightarrow> bytes \<times> bytes \<times> bytes" where
  "pusher_core u = (mu_user_id u, mu_session_id u, mu_pusher_id u)"

definition session_same :: "'c webrtc_session \<Rightarrow> 'c webrtc_session \<Rightarrow> bool" where
  \<comment> \<open>the same peer and maps, and tracks and subscriptions of the same identity in the same places\<close>
  "session_same s s' \<longleftrightarrow> ws_user_id s' = ws_user_id s \<and> ws_session_id s' = ws_session_id s \<and> ws_remote_addr s' = ws_remote_addr s \<and>
     ws_dtls_connected s' = ws_dtls_connected s \<and> ws_ssrc2media_pusher s' = ws_ssrc2media_pusher s \<and>
     ws_mid2media_pusher s' = ws_mid2media_pusher s \<and> ws_ssrc2media_puller s' = ws_ssrc2media_puller s \<and>
     ws_rtxssrc2media_puller s' = ws_rtxssrc2media_puller s \<and> map pusher_core (ws_pushers s') = map pusher_core (ws_pushers s) \<and>
     map puller_core (ws_pullers s') = map puller_core (ws_pullers s)"

lemma session_same_refl [simp]: "session_same s s"
  by (simp add: session_same_def)

lemma session_same_trans: "session_same a b \<Longrightarrow> session_same b c \<Longrightarrow> session_same a c"
  by (simp add: session_same_def)

lemma session_same_frame [simp]:
  "session_same s (s'\<lparr>ws_srtp_send := k\<rparr>) = session_same s s'" "session_same s (s'\<lparr>ws_srtp_recv := k\<rparr>) = session_same s s'"
  "session_same s (s'\<lparr>ws_draws := n\<rparr>) = session_same s s'" "session_same s (s'\<lparr>ws_tcc := t\<rparr>) = session_same s s'"
  "session_same (s\<lparr>ws_srtp_recv := k\<rparr>) s' = session_same s s'" "session_same (s\<lparr>ws_draws := n\<rparr>) s' = session_same s s'"
  "session_same (s\<lparr>ws_tcc := t\<rparr>) s' = session_same s s'" "session_same (s\<lparr>ws_srtp_send := k\<rparr>) s' = session_same s s'"
  by (simp_all add: session_same_def)

lemma session_same_puller:
  "puller_core u = puller_core (ws_pullers s ! i) \<Longrightarrow> session_same s (s\<lparr>ws_pullers := (ws_pullers s)[i := u]\<rparr>)"
  by (simp add: session_same_def map_update_same)

lemma session_same_pusher:
  "pusher_core u = pusher_core (ws_pushers s ! i) \<Longrightarrow> session_same s (s\<lparr>ws_pushers := (ws_pushers s)[i := u]\<rparr>)"
  by (simp add: session_same_def map_update_same)

lemma pusher_cores:
  "pusher_HandleRtcpSrPacket now_ms sr u = (ret, u') \<Longrightarrow> pusher_core u' = pusher_core u"
  "pusher_OnTimer now_ms u = (msgs, u') \<Longrightarrow> pusher_core u' = pusher_core u"
  "HandleRtpPacket now_ms mem va pkt u = (ret', outs, u') \<Longrightarrow> pusher_core u' = pusher_core u"
  "pusher_core (pusher_UpdateSSRC ssrc u) = pusher_core u"
proof -
  have st: "pusher_core (pusher_statics now_ms m w) = pusher_core w" for m w
    by (induction m arbitrary: w) (auto simp: pusher_core_def Let_def)
  have k: "pusher_key_timer now_ms w = (msgs, u') \<Longrightarrow> pusher_core u' = pusher_core w" for w
    by (auto simp: pusher_key_timer_def pusher_core_def RequestKeyFrame_def split: if_splits)
  show "pusher_OnTimer now_ms u = (msgs, u') \<Longrightarrow> pusher_core u' = pusher_core u"
    using st by (auto simp: pusher_OnTimer_def split: if_splits dest!: k) (simp_all add: pusher_core_def)
  have g: "GetRtpRecvSession p w = (r, w') \<Longrightarrow> pusher_core w' = pusher_core w" for p w r w'
    by (auto simp: GetRtpRecvSession_def Let_def pusher_core_def split: option.splits)
  show "HandleRtpPacket now_ms mem va pkt u = (ret', outs, u') \<Longrightarrow> pusher_core u' = pusher_core u"
    by (auto simp: HandleRtpPacket_def Let_def split: prod.splits option.splits sum.splits bool.splits if_splits dest!: g)
      (simp_all add: pusher_core_def)
qed (auto simp: pusher_core_def pusher_HandleRtcpSrPacket_def pusher_UpdateSSRC_def split: option.splits prod.splits)

lemma puller_cores:
  "puller_HandleRtcpRrBlock now_ms b p = Inr (ret, p') \<Longrightarrow> puller_core p' = puller_core p"
  "puller_HandleRtcpFbNack n p = Inr (ret, ds, p') \<Longrightarrow> puller_core p' = puller_core p"
  "puller_OnTimer now_ms p = Inr (msg, p') \<Longrightarrow> puller_core p' = puller_core p"
  by (auto simp: puller_HandleRtcpRrBlock_def puller_HandleRtcpFbNack_def puller_OnTimer_def puller_core_def Let_def
      split: option.splits prod.splits if_splits)

section \<open>What leaves the session\<close>

definition srtp_protected :: "'c libsrtp \<Rightarrow> bytes \<Rightarrow> bool" where
  \<comment> \<open>a result of libsrtp's protection\<close>
  "srtp_protected lib d \<longleftrightarrow> (\<exists>c m c'. srtp_protect lib c m = (Some d, c') \<or> srtp_protect_rtcp lib c m = (Some d, c'))"

definition rtcp_emits :: "'c libsrtp \<Rightarrow> 'c webrtc_session \<Rightarrow> session_out \<Rightarrow> bool" where
  \<comment> \<open>reports and feedback cause protected datagrams to the peer and key frame requests for its subscriptions\<close>
  "rtcp_emits lib s x =
     (case x of
        WriteUdp d a \<Rightarrow> ws_dtls_connected s \<and> a = ws_remote_addr s \<and> srtp_protected lib d
      | KeyFrame pusher_id puller_user_id pusher_user_id ssrc \<Rightarrow>
          (\<exists>i. om_find (ws_ssrc2media_puller s) ssrc = Some i)
      | _ \<Rightarrow> False)"

lemma rtcp_emits_same: "session_same s s' \<Longrightarrow> rtcp_emits lib s' x = rtcp_emits lib s x"
  by (auto simp: rtcp_emits_def session_same_def split: session_out.split)

lemma session_send_rtp:
  assumes "session_OnTransportSendRtp lib cfg rand d s = (outs, s')"
  shows "session_same s s'" "x \<in> set outs \<Longrightarrow> rtcp_emits lib s x"
proof -
  have e: "EncryptRtp lib d k = (Some m, k') \<Longrightarrow> srtp_protected lib m" for k m k'
    by (auto simp: EncryptRtp_def srtp_protected_def split: option.splits if_splits prod.splits)
  show "session_same s s'" using assms
    by (auto simp: session_OnTransportSendRtp_def Let_def split: if_splits option.splits prod.splits)
  show "x \<in> set outs \<Longrightarrow> rtcp_emits lib s x" using assms
    by (auto simp: session_OnTransportSendRtp_def rtcp_emits_def Let_def split: if_splits option.splits prod.splits dest: e)
qed

lemma session_send_rtcp:
  assumes "session_OnTransportSendRtcp lib d s = (outs, s')"
  shows "session_same s s'" "x \<in> set outs \<Longrightarrow> rtcp_emits lib s x"
proof -
  have e: "EncryptRtcp lib d k = (Some m, k') \<Longrightarrow> srtp_protected lib m" for k m k'
    by (auto simp: EncryptRtcp_def srtp_protected_def split: option.splits if_splits prod.splits)
  show "session_same s s'" using assms
    by (auto simp: session_OnTransportSendRtcp_def split: if_splits option.splits prod.splits)
  show "x \<in> set outs \<Longrightarrow> rtcp_emits lib s x" using assms
    by (auto simp: session_OnTransportSendRtcp_def rtcp_emits_def split: if_splits option.splits prod.splits dest: e)
qed

lemma session_send_all:
  assumes "session_send_all send ds s = (outs, s')"
    and "\<And>d t outs t'. send d t = (outs, t') \<Longrightarrow> session_same t t' \<and> (\<forall>x \<in> set outs. rtcp_emits lib t x)"
  shows "session_same s s' \<and> (\<forall>x \<in> set outs. rtcp_emits lib s x)"
  using assms(1)
proof (induction ds arbitrary: s outs)
  case (Cons d ds)
  obtain o1 s1 o2 s2 where d: "send d s = (o1, s1)" "session_send_all send ds s1 = (o2, s2)"
    by (cases "send d s"; cases "session_send_all send ds (snd (send d s))") auto
  then have "outs = o1 @ o2" "s' = s2" using Cons.prems by simp_all
  then show ?case using assms(2) [OF d(1)] Cons.IH [of s1 o2] d(2) rtcp_emits_same [of s s1 lib] session_same_trans by auto
qed simp

lemma send_all_keeps:
  "session_send_all (session_OnTransportSendRtp lib cfg rand) ds s = (outs, s') \<Longrightarrow>
     session_same s s' \<and> (\<forall>x \<in> set outs. rtcp_emits lib s x)"
  "session_send_all (session_OnTransportSendRtcp lib) ds s = (outs, s') \<Longrightarrow>
     session_same s s' \<and> (\<forall>x \<in> set outs. rtcp_emits lib s x)"
proof -
  show "session_same s s' \<and> (\<forall>x \<in> set outs. rtcp_emits lib s x)"
    if "session_send_all (session_OnTransportSendRtp lib cfg rand) ds s = (outs, s')"
    by (rule session_send_all [OF that]) (blast dest: session_send_rtp)
  show "session_same s s' \<and> (\<forall>x \<in> set outs. rtcp_emits lib s x)"
    if "session_send_all (session_OnTransportSendRtcp lib) ds s = (outs, s')"
    by (rule session_send_all [OF that]) (blast dest: session_send_rtcp)
qed

lemma session_rr_blocks_same: "session_rr_blocks now_ms bs s = (ret, s') \<Longrightarrow> session_same s s'"
proof (induction bs arbitrary: s)
  case (Cons b bs)
  show ?case
  proof (cases "om_find (ws_ssrc2media_puller s) (Rr_GetReporteeSsrc b)")
    case (Some i)
    show ?thesis
    proof (cases "puller_HandleRtcpRrBlock now_ms b (ws_pullers s ! i)")
      case (Inr r)
      obtain c u where "r = (c, u)" by (cases r)
      with Inr Some Cons show ?thesis
        using session_same_trans [OF session_same_puller [OF puller_cores(1)]] by fastforce
    qed (use Some Cons.prems in simp)
  qed (use Cons in simp)
qed simp

lemma session_fb_keeps:
  assumes "session_HandleRtcpRtpfbPacket lib cfg rand mem data len s = (ret, outs, s')"
  shows "session_same s s' \<and> (\<forall>x \<in> set outs. rtcp_emits lib s x)"
proof (cases "outs = [] \<and> s' = s")
  case False
  then obtain i n c ds u where n: "puller_HandleRtcpFbNack n (ws_pullers s ! i) = Inr (c, ds, u)"
    and w: "session_send_all (session_OnTransportSendRtp lib cfg rand) ds (s\<lparr>ws_pullers := (ws_pullers s)[i := u]\<rparr>) = (outs, s')"
    using assms by (auto simp: session_HandleRtcpRtpfbPacket_def split: if_splits sum.splits cpp_error.splits option.splits prod.splits)
  have p: "session_same s (s\<lparr>ws_pullers := (ws_pullers s)[i := u]\<rparr>)" by (rule session_same_puller [OF puller_cores(2) [OF n]])
  show ?thesis using send_all_keeps(1) [OF w] session_same_trans [OF p] rtcp_emits_same [OF p] by blast
qed simp

lemma session_item_keeps:
  assumes "session_item lib cfg now_ms rand mem p n s = (ret, outs, s')"
  shows "session_same s s'" "x \<in> set outs \<Longrightarrow> rtcp_emits lib s x"
proof -
  have sr: "session_same s s' \<and> outs = []" if "session_HandleRtcpSrPacket now_ms mem p n s = (r, outs, s')" for r outs s'
    using that by (auto simp: session_HandleRtcpSrPacket_def split: sum.splits cpp_error.splits option.splits prod.splits
        dest!: pusher_cores(1) intro: session_same_pusher)
  have rr: "session_same s s' \<and> outs = []" if "session_HandleRtcpRrPacket now_ms p n s = (r, outs, s')" for r outs s'
    using that by (auto simp: session_HandleRtcpRrPacket_def split: sum.splits cpp_error.splits prod.splits dest!: session_rr_blocks_same)
  have ps: "session_same s s' \<and> (\<forall>x \<in> set outs. rtcp_emits lib s x)" if "session_HandleRtcpPsfbPacket p n s = (r, outs, s')" for r outs s'
    using that by (auto simp: session_HandleRtcpPsfbPacket_def rtcp_emits_def Let_def split: if_splits sum.splits cpp_error.splits option.splits)
  have "session_same s s' \<and> (\<forall>x \<in> set outs. rtcp_emits lib s x)"
    using assms by (auto simp: session_item_def split: prod.splits if_splits dest!: sr rr ps session_fb_keeps)
  then show "session_same s s'" "x \<in> set outs \<Longrightarrow> rtcp_emits lib s x" by blast+
qed

interpretation session_rtcp: rtcp_emitter "session_item lib cfg now_ms rand mem" session_same "rtcp_emits lib"
  for lib cfg now_ms rand mem
  by unfold_locales (auto dest: session_item_keeps simp: rtcp_emits_same intro: session_same_trans)

section \<open>Invariant\<close>

definition session_ok :: "'c webrtc_session \<Rightarrow> bool" where
  \<comment> \<open>every map leads to an existing track or subscription; subscriptions can send, tracks carry the ids of this session\<close>
  "session_ok s \<longleftrightarrow>
     refs_below (length (ws_pushers s)) (ws_ssrc2media_pusher s) \<and> refs_below (length (ws_pushers s)) (ws_mid2media_pusher s) \<and>
     refs_below (length (ws_pullers s)) (ws_ssrc2media_puller s) \<and> refs_below (length (ws_pullers s)) (ws_rtxssrc2media_puller s) \<and>
     (\<forall>p \<in> set (ws_pullers s). mp_has_cb p \<and> mp_send p \<noteq> None) \<and>
     (\<forall>u \<in> set (ws_pushers s). mu_user_id u = ws_user_id s \<and> mu_session_id u = ws_session_id s)"

lemma session_ok_cores:
  "session_ok s \<longleftrightarrow>
     refs_below (length (map pusher_core (ws_pushers s))) (ws_ssrc2media_pusher s) \<and>
     refs_below (length (map pusher_core (ws_pushers s))) (ws_mid2media_pusher s) \<and>
     refs_below (length (map puller_core (ws_pullers s))) (ws_ssrc2media_puller s) \<and>
     refs_below (length (map puller_core (ws_pullers s))) (ws_rtxssrc2media_puller s) \<and>
     (\<forall>(p, a, b, c, d, cb, none) \<in> set (map puller_core (ws_pullers s)). cb \<and> \<not> none) \<and>
     (\<forall>(u, t, q) \<in> set (map pusher_core (ws_pushers s)). u = ws_user_id s \<and> t = ws_session_id s)"
  by (auto simp: session_ok_def puller_core_def pusher_core_def)

lemma session_same_ok:
  assumes "session_same s s'" "session_ok s"
  shows "session_ok s'"
proof -
  have "map pusher_core (ws_pushers s') = map pusher_core (ws_pushers s)" "map puller_core (ws_pullers s') = map puller_core (ws_pullers s)"
    "ws_user_id s' = ws_user_id s" "ws_session_id s' = ws_session_id s" "ws_ssrc2media_pusher s' = ws_ssrc2media_pusher s"
    "ws_mid2media_pusher s' = ws_mid2media_pusher s" "ws_ssrc2media_puller s' = ws_ssrc2media_puller s"
    "ws_rtxssrc2media_puller s' = ws_rtxssrc2media_puller s"
    using assms(1) by (simp_all add: session_same_def)
  then have "session_ok s' = session_ok s" by (simp only: session_ok_cores)
  then show ?thesis using assms(2) by simp
qed

lemma HandleRtpPacket_outs:
  assumes "HandleRtpPacket now_ms mem va pkt u = (ret, outs, u')" "m \<in> set outs"
  shows "case m of ToRoom user session pusher q \<Rightarrow> user = mu_user_id u \<and> session = mu_session_id u \<and> pusher = mu_pusher_id u | ToVoiceAgent q \<Rightarrow> va"
proof -
  have g: "mu_user_id w' = mu_user_id w \<and> mu_session_id w' = mu_session_id w \<and> mu_pusher_id w' = mu_pusher_id w"
    if "GetRtpRecvSession p w = (r, w')" for p w r w'
    using that by (auto simp: GetRtpRecvSession_def Let_def split: option.splits)
  show ?thesis using assms
    by (auto simp: HandleRtpPacket_def to_voice_agent_def pusher_to_room_def Let_def
        split: prod.splits option.splits sum.splits cpp_error.splits bool.splits if_splits dest!: g)
qed

lemma find_media_pusher_ok:
  assumes "find_media_pusher pkt s = Inr (f, s')" "session_ok s"
  shows "session_ok s' \<and> (\<forall>i. f = Some i \<longrightarrow> i < length (ws_pushers s')) \<and> ws_user_id s' = ws_user_id s \<and>
    ws_session_id s' = ws_session_id s \<and> map pusher_core (ws_pushers s') = map pusher_core (ws_pushers s)"
proof -
  have u: "map pusher_core (us[j := pusher_UpdateSSRC k (us ! j)]) = map pusher_core us" for us j k
    by (simp add: map_update_same pusher_cores(4))
  show ?thesis using assms(1)
  proof (cases "om_find (ws_ssrc2media_pusher s) (GetSsrc pkt)")
    case (Some i)
    have "i < length (ws_pushers s)" using refs_below_find [OF _ Some] assms(2) by (simp add: session_ok_def)
    then show ?thesis using assms Some by (auto simp: find_media_pusher_def)
  next
    case None
    show ?thesis
    proof (cases "f")
      case None
      then show ?thesis using assms \<open>om_find _ _ = None\<close> by (auto simp: find_media_pusher_def split: option.splits)
    next
      case (Some j)
      then obtain m where j: "om_find (ws_mid2media_pusher s) m = Some j"
        and s': "s' = s\<lparr>ws_ssrc2media_pusher := om_insert (GetSsrc pkt) j (ws_ssrc2media_pusher s),
            ws_pushers := (ws_pushers s)[j := pusher_UpdateSSRC (GetSsrc pkt) (ws_pushers s ! j)]\<rparr>"
        using assms(1) \<open>om_find _ _ = None\<close> by (auto simp: find_media_pusher_def split: option.splits)
      have "j < length (ws_pushers s)" using refs_below_find [OF _ j] assms(2) by (simp add: session_ok_def)
      then show ?thesis using assms(2) Some by (auto simp: session_ok_cores s' u)
    qed
  qed
qed

definition media_from :: "session_cfg \<Rightarrow> 'c webrtc_session \<Rightarrow> pusher_out \<Rightarrow> bool" where
  \<comment> \<open>a packet under the ids of this session and one of its tracks\<close>
  "media_from cfg s m = (case m of
     ToRoom user session pusher q \<Rightarrow> user = ws_user_id s \<and> session = ws_session_id s \<and> pusher \<in> mu_pusher_id ` set (ws_pushers s)
   | ToVoiceAgent q \<Rightarrow> voice_agent_enable cfg)"

lemma session_tcc_keeps:
  assumes "session_tcc lib now_ms pkt s = Inr (outs, s')"
  shows "session_same s s' \<and> (\<forall>x \<in> set outs. rtcp_emits lib s x)"
proof -
  obtain msg t where "(outs, s') = (case msg of None \<Rightarrow> ([], s\<lparr>ws_tcc := t\<rparr>) | Some d \<Rightarrow> session_OnTransportSendRtcp lib d (s\<lparr>ws_tcc := t\<rparr>))"
    using assms by (auto simp: session_tcc_def Let_def dest: sym)
  moreover have "rtcp_emits lib (s\<lparr>ws_tcc := t\<rparr>) x = rtcp_emits lib s x" for x by (rule rtcp_emits_same) simp
  ultimately show ?thesis using session_send_rtcp [of lib _ "s\<lparr>ws_tcc := t\<rparr>" outs s'] by (auto split: option.splits)
qed

lemma session_track_ok:
  assumes "find_media_pusher pkt s = Inr (Some i, s')" "session_ok s"
    and h: "HandleRtpPacket now_ms mem (voice_agent_enable cfg) pkt (ws_pushers s' ! i) = (r, ms, u)"
  shows "session_ok (s'\<lparr>ws_pushers := (ws_pushers s')[i := u]\<rparr>) \<and> (\<forall>m \<in> set ms. media_from cfg s m)"
proof -
  have ok: "session_ok s'" "i < length (ws_pushers s')" and c: "map pusher_core (ws_pushers s') = map pusher_core (ws_pushers s)"
    "ws_user_id s' = ws_user_id s" "ws_session_id s' = ws_session_id s"
    using find_media_pusher_ok [OF assms(1,2)] by simp_all
  let ?u = "ws_pushers s' ! i"
  have "pusher_core ?u \<in> set (map pusher_core (ws_pushers s))" using c(1) ok(2) by (metis nth_mem length_map nth_map)
  then have "mu_pusher_id ?u \<in> mu_pusher_id ` set (ws_pushers s)" by (auto simp: pusher_core_def)
  moreover have "mu_user_id ?u = ws_user_id s \<and> mu_session_id ?u = ws_session_id s"
    using ok c(2,3) by (simp add: session_ok_def)
  ultimately have "media_from cfg s m" if "m \<in> set ms" for m
    using HandleRtpPacket_outs [OF h that] by (auto simp: media_from_def split: pusher_out.splits)
  then show ?thesis using session_same_ok [OF session_same_pusher [OF pusher_cores(3) [OF h]] ok(1)] by blast
qed

lemma media_from_same: "session_same s s' \<Longrightarrow> media_from cfg s' m = media_from cfg s m"
proof -
  assume k: "session_same s s'"
  have "set (map pusher_core (ws_pushers s')) = set (map pusher_core (ws_pushers s))" using k by (simp add: session_same_def)
  then have "(\<lambda>(u, t, q). q) ` pusher_core ` set (ws_pushers s') = (\<lambda>(u, t, q). q) ` pusher_core ` set (ws_pushers s)" by simp
  then show ?thesis using k by (simp add: media_from_def session_same_def pusher_core_def image_image split: pusher_out.split)
qed

lemma session_dispatch_ok:
  assumes "session_dispatch lib cfg now_ms mem pkt0 s0 = (ret, outs, s')" "session_ok s0"
  shows "session_ok s' \<and> (\<forall>x \<in> set outs. rtcp_emits lib s0 x \<or> (\<exists>m. x = Media m \<and> media_from cfg s0 m))"
proof -
  obtain pkt s1 where p: "session_set_ids pkt0 s0 = (pkt, s1)" by (cases "session_set_ids pkt0 s0")
  then have k1: "session_same s0 s1" by (auto simp: session_set_ids_def Let_def split: if_splits)
  show ?thesis
  proof (cases "session_tcc lib now_ms pkt s1")
    case (Inl e)
    then show ?thesis using assms p session_same_ok [OF k1] by (auto simp: session_dispatch_def split: cpp_error.splits)
  next
    case (Inr a)
    obtain o1 s2 where a: "a = (o1, s2)" by (cases a)
    have k2: "session_same s0 s2" and o1: "\<forall>x \<in> set o1. rtcp_emits lib s0 x"
      using session_tcc_keeps [OF Inr [unfolded a]] session_same_trans [OF k1] rtcp_emits_same [OF k1] by blast+
    have ok2: "session_ok s2" by (rule session_same_ok [OF k2 assms(2)])
    show ?thesis
    proof (cases "find_media_pusher pkt s2")
      case (Inl e)
      then show ?thesis using assms(1) p \<open>session_tcc _ _ _ _ = _\<close> a o1 ok2 by (auto simp: session_dispatch_def split: cpp_error.splits)
    next
      case (Inr b)
      obtain f s3 where b: "b = (f, s3)" by (cases b)
      note d = assms(1) p \<open>session_tcc _ _ _ _ = _\<close> a Inr b
      show ?thesis
      proof (cases f)
        case None
        then show ?thesis using d o1 find_media_pusher_ok [OF _ ok2] by (auto simp: session_dispatch_def)
      next
        case (Some i)
        obtain r ms u where h: "HandleRtpPacket now_ms mem (voice_agent_enable cfg) pkt (ws_pushers s3 ! i) = (r, ms, u)"
          by (cases "HandleRtpPacket now_ms mem (voice_agent_enable cfg) pkt (ws_pushers s3 ! i)")
        have "outs = o1 @ map Media ms" "s' = s3\<lparr>ws_pushers := (ws_pushers s3)[i := u]\<rparr>"
          using d Some h by (simp_all add: session_dispatch_def)
        then show ?thesis using session_track_ok [OF _ ok2 h] Inr b Some o1 media_from_same [OF k2] by auto
      qed
    qed
  qed
qed

section \<open>Reachable sessions\<close>

lemma session_timer_same:
  "session_puller_timer lib now_ms m s = (ret, outs, s') \<Longrightarrow> session_same s s'"
  "session_pusher_timer lib now_ms m s = (outs', s') \<Longrightarrow> session_same s s'"
proof -
  show "session_puller_timer lib now_ms m s = (ret, outs, s') \<Longrightarrow> session_same s s'"
  proof (induction m arbitrary: s ret outs s')
    case (Cons a m)
    obtain ssrc i where a: "a = (ssrc, i)" by (cases a)
    show ?case
    proof (cases "puller_OnTimer now_ms (ws_pullers s ! i)")
      case (Inr r)
      obtain msg u where r: "r = (msg, u)" by (cases r)
      let ?s = "s\<lparr>ws_pullers := (ws_pullers s)[i := u]\<rparr>"
      obtain o1 s1 where w: "session_send_all (session_OnTransportSendRtcp lib) (case msg of None \<Rightarrow> [] | Some d \<Rightarrow> [d]) ?s = (o1, s1)"
        by (cases "session_send_all (session_OnTransportSendRtcp lib) (case msg of None \<Rightarrow> [] | Some d \<Rightarrow> [d]) ?s")
      obtain c o2 where t: "session_puller_timer lib now_ms m s1 = (c, o2, s')"
        using Cons.prems a Inr r w by (auto split: prod.splits)
      have "session_same s ?s" by (rule session_same_puller [OF puller_cores(3) [OF Inr [unfolded r]]])
      then show ?thesis using send_all_keeps(2) [OF w] Cons.IH [OF t] session_same_trans by blast
    qed (use Cons.prems a in simp)
  qed simp
  show "session_pusher_timer lib now_ms m s = (outs', s') \<Longrightarrow> session_same s s'"
  proof (induction m arbitrary: s outs' s')
    case (Cons a m)
    obtain ssrc i where a: "a = (ssrc, i)" by (cases a)
    obtain msgs u where r: "pusher_OnTimer now_ms (ws_pushers s ! i) = (msgs, u)" by (cases "pusher_OnTimer now_ms (ws_pushers s ! i)")
    let ?s = "s\<lparr>ws_pushers := (ws_pushers s)[i := u]\<rparr>"
    obtain o1 s1 where w: "session_send_all (session_OnTransportSendRtcp lib) msgs ?s = (o1, s1)"
      by (cases "session_send_all (session_OnTransportSendRtcp lib) msgs ?s")
    obtain o2 where t: "session_pusher_timer lib now_ms m s1 = (o2, s')" using Cons.prems a r w by (auto split: prod.splits)
    have "session_same s ?s" by (rule session_same_pusher [OF pusher_cores(2) [OF r]])
    then show ?case using send_all_keeps(2) [OF w] Cons.IH [OF t] session_same_trans by blast
  qed simp
qed

lemma session_OnTimer_same:
  assumes "session_OnTimer lib now_ms s = (ret, outs, s')"
  shows "session_same s s'"
proof -
  have k: "session_same s s2" if "session_OnTransportSendRtcp lib d (s1\<lparr>ws_tcc := t\<rparr>) = (o2, s2)" "session_same s s1" for s1 d t o2 s2
    using session_send_rtcp(1) [OF that(1)] session_same_trans [OF that(2)] by simp
  show ?thesis using assms
    by (auto simp: session_OnTimer_def Let_def split: if_splits prod.splits sum.splits option.splits
        dest!: session_timer_same intro: k)
qed

lemma session_forward_same:
  assumes "session_forward lib cfg now_ms rand mem i pkt s = (ret, outs, s')"
  shows "session_same s s' \<and> (\<forall>x \<in> set outs. rtcp_emits lib s x)"
proof -
  obtain c ds pkt' u where p: "puller_OnTransportSendRtp now_ms mem (ws_dtls_connected s) pkt (ws_pullers s ! i) = (c, ds, pkt', u)"
    by (cases "puller_OnTransportSendRtp now_ms mem (ws_dtls_connected s) pkt (ws_pullers s ! i)")
  then have "puller_core u = puller_core (ws_pullers s ! i)"
    by (auto simp: puller_OnTransportSendRtp_def puller_core_def Let_def split: if_splits sum.splits option.splits prod.splits bool.splits)
  then have k: "session_same s (s\<lparr>ws_pullers := (ws_pullers s)[i := u]\<rparr>)" by (rule session_same_puller)
  have "session_send_all (session_OnTransportSendRtp lib cfg rand) ds (s\<lparr>ws_pullers := (ws_pullers s)[i := u]\<rparr>) = (outs, s')"
    using assms p by (simp add: session_forward_def split: prod.splits)
  from send_all_keeps(1) [OF this] show ?thesis using session_same_trans [OF k] rtcp_emits_same [OF k] by blast
qed

lemma AddPusherRtpSession_ok:
  assumes "session_ok s" "AddPusherRtpSession ntp uuid p s = (ret, pid, s')"
  shows "session_ok s'"
proof -
  let ?u = "CreateRtpRecvSession ntp (MediaPusher_new p (ws_user_id s) (ws_session_id s) uuid True)"
  have u: "mu_user_id ?u = ws_user_id s" "mu_session_id ?u = ws_session_id s"
    by (simp_all add: CreateRtpRecvSession_def MediaPusher_new_def Let_def)
  show ?thesis using assms u
    by (auto simp: AddPusherRtpSession_def session_ok_def Let_def split: if_splits)
qed

lemma AddPullerRtpSession_ok:
  assumes "session_ok s" "AddPullerRtpSession uuid p user_id pusher_id s = (ret, s')"
  shows "session_ok s'"
  using assms by (auto simp: AddPullerRtpSession_def session_ok_def CreateRtpSendSession_def MediaPuller_new_def Let_def
      split: if_splits)

lemma session_none_stun_ok:
  assumes "session_HandleNoneStunPacket lib cfg now_ms rand mem data len addr s0 = (ret, outs, s')" "session_ok s0"
  shows "session_ok s'"
    and "x \<in> set outs \<Longrightarrow> rtcp_emits lib (s0\<lparr>ws_remote_addr := addr\<rparr>) x \<or> x = DtlsData (take len data) addr \<and> IsDtlsData data len = Inr True \<or>
      (\<exists>m k d1 l1 k' pkt. x = Media m \<and> media_from cfg s0 m \<and> ws_srtp_recv s0 = Some k \<and>
         DecryptRtp lib data len k = ((True, d1, l1), k') \<and> Parse now_ms d1 l1 = Inr pkt)"
proof -
  let ?s = "s0\<lparr>ws_remote_addr := addr, ws_alive_ms := now_ms\<rparr>"
  have ok: "session_ok ?s" using assms(2) by (simp add: session_ok_def)
  have e: "rtcp_emits lib ?s y = rtcp_emits lib (s0\<lparr>ws_remote_addr := addr\<rparr>) y" "media_from cfg ?s m = media_from cfg s0 m" for y m
    by (simp_all add: rtcp_emits_def media_from_def split: session_out.split pusher_out.split)
  have rtcp: "session_same ?s t \<and> (\<forall>y \<in> set os. rtcp_emits lib ?s y)"
    if "session_HandleRtcpPacket lib cfg now_ms rand mem data len ?s = (r, os, t)" for r os t
  proof (cases "ws_srtp_recv ?s")
    case (Some k)
    obtain b d1 l1 k' where d: "DecryptRtcp lib data len k = ((b, d1, l1), k')" by (metis prod.exhaust)
    let ?t = "?s\<lparr>ws_srtp_recv := Some k'\<rparr>"
    obtain c o1 t1 where w: "rtcp_walk (session_item lib cfg now_ms rand mem) d1 (int l1) ?t = (c, o1, t1)"
      by (cases "rtcp_walk (session_item lib cfg now_ms rand mem) d1 (int l1) ?t")
    have "session_same ?s ?t" by simp
    from rtcp_emits_same [OF this] show ?thesis
      using that Some d w session_rtcp.walk_keeps [OF w] session_rtcp.walk_emits [OF w]
      by (auto simp: session_HandleRtcpPacket_def Let_def split: if_splits sum.splits)
  qed (use that in \<open>simp add: session_HandleRtcpPacket_def\<close>)
  have rtp: "session_ok t \<and> (\<forall>y \<in> set os. rtcp_emits lib ?s y \<or> (\<exists>m k d1 l1 k' pkt. y = Media m \<and> media_from cfg ?s m \<and>
      ws_srtp_recv s0 = Some k \<and> DecryptRtp lib data len k = ((True, d1, l1), k') \<and> Parse now_ms d1 l1 = Inr pkt))"
    if h: "session_HandleRtpPacket lib cfg now_ms rand mem data len ?s = (r, os, t)" for r os t
  proof (cases "os = [] \<and> session_same ?s t")
    case False
    then obtain k d1 l1 k' pkt s2 where d: "ws_srtp_recv s0 = Some k" "DecryptRtp lib data len k = ((True, d1, l1), k')"
      "Parse now_ms d1 l1 = Inr pkt" "session_dispatch lib cfg now_ms mem pkt s2 = (r, os, t)" "session_same ?s s2"
      using h by (auto simp: session_HandleRtpPacket_def Let_def split: option.splits prod.splits if_splits sum.splits cpp_error.splits)
    then show ?thesis
      using session_dispatch_ok [OF d(4) session_same_ok [OF d(5) ok]] rtcp_emits_same [OF d(5)] media_from_same [OF d(5)] by blast
  qed (use session_same_ok [OF _ ok] in auto)
  show "session_ok s'" using assms(1) ok rtcp rtp session_same_ok
    by (auto simp: session_HandleNoneStunPacket_def Let_def split: sum.splits bool.splits if_splits)
  show "rtcp_emits lib (s0\<lparr>ws_remote_addr := addr\<rparr>) x \<or> x = DtlsData (take len data) addr \<and> IsDtlsData data len = Inr True \<or>
      (\<exists>m k d1 l1 k' pkt. x = Media m \<and> media_from cfg s0 m \<and> ws_srtp_recv s0 = Some k \<and>
         DecryptRtp lib data len k = ((True, d1, l1), k') \<and> Parse now_ms d1 l1 = Inr pkt)" if "x \<in> set outs"
    using assms(1) that rtcp rtp by (fastforce simp: session_HandleNoneStunPacket_def Let_def e split: sum.splits bool.splits if_splits)
qed

inductive session_reach :: "'c libsrtp \<Rightarrow> 'c webrtc_session \<Rightarrow> bool" for lib where
  init: "session_reach lib (WebRtcSession_new type room_id user_id uuid ice now_ms)"
| dtls_init: "session_reach lib s \<Longrightarrow> DtlsInit r1 r2 s = (ret, s') \<Longrightarrow> session_reach lib s'"
| add_pusher: "session_reach lib s \<Longrightarrow> AddPusherRtpSession ntp uuid p s = (ret, pid, s') \<Longrightarrow> session_reach lib s'"
| add_puller: "session_reach lib s \<Longrightarrow> AddPullerRtpSession uuid p user_id pusher_id s = (ret, s') \<Longrightarrow> session_reach lib s'"
| connected: "session_reach lib s \<Longrightarrow> OnDtlsTransportConnected lib global suite lkey rkey s = (outs, s') \<Longrightarrow> session_reach lib s'"
| stun: "session_reach lib s \<Longrightarrow> session_HandleStunPacket hmac now_ms sock pkt addr s = (ret, outs, s') \<Longrightarrow> session_reach lib s'"
| none_stun: "session_reach lib s \<Longrightarrow> session_HandleNoneStunPacket lib cfg now_ms rand mem data len addr s = (ret, outs, s')
    \<Longrightarrow> session_reach lib s'"
| forward: "session_reach lib s \<Longrightarrow> session_forward lib cfg now_ms rand mem i pkt s = (ret, outs, s') \<Longrightarrow> session_reach lib s'"
| timer: "session_reach lib s \<Longrightarrow> session_OnTimer lib now_ms s = (ret, outs, s') \<Longrightarrow> session_reach lib s'"
| close: "session_reach lib s \<Longrightarrow> session_Close s = (outs, s') \<Longrightarrow> session_reach lib s'"

lemma session_reach_ok: "session_reach lib s \<Longrightarrow> session_ok s"
proof (induction rule: session_reach.induct)
  case (stun s hmac now_ms sock pkt addr ret outs s')
  then have "session_ok s" by blast
  with stun(2) show ?case
    by (auto simp: session_HandleStunPacket_def session_ok_def Let_def split: sum.splits prod.splits if_splits option.splits)
next
  case (forward s cfg now_ms rand mem i pkt ret outs s')
  then show ?case using session_forward_same session_same_ok by blast
qed (auto dest: AddPusherRtpSession_ok AddPullerRtpSession_ok session_none_stun_ok(1) session_OnTimer_same intro: session_same_ok,
    auto simp: session_ok_def WebRtcSession_new_def DtlsInit_def OnDtlsTransportConnected_def session_Close_def Let_def split: if_splits)

text \<open>
  C2. What a datagram of the peer can cause, in every state a session can reach: whatever the session writes to the socket
  goes to the address the datagram came from, only after the DTLS handshake, and is a result of SRTP protection; media reaches the room
  only if SRTP accepted the datagram and what it contains parses as RTP, and then under the user, the session and one of the tracks of
  this session; key frames are requested only for subscriptions of the peer; everything else that happens is that a
  DTLS record is handed to the DTLS layer.
\<close>

theorem session_security:
  assumes "session_reach lib s" "session_HandleNoneStunPacket lib cfg now_ms rand mem data len addr s = (ret, outs, s')" "x \<in> set outs"
  shows "case x of
      WriteUdp d a \<Rightarrow> ws_dtls_connected s \<and> a = addr \<and> srtp_protected lib d
    | Media m \<Rightarrow> media_from cfg s m \<and> (\<exists>k d1 l1 k' pkt. ws_srtp_recv s = Some k \<and>
        DecryptRtp lib data len k = ((True, d1, l1), k') \<and> Parse now_ms d1 l1 = Inr pkt)
    | KeyFrame pusher_id puller_user_id pusher_user_id ssrc \<Rightarrow> (\<exists>i < length (ws_pullers s). om_find (ws_ssrc2media_puller s) ssrc = Some i)
    | DtlsData d a \<Rightarrow> d = take len data \<and> a = addr \<and> IsDtlsData data len = Inr True
    | PushClose p \<Rightarrow> False | PullClose p \<Rightarrow> False"
proof -
  have ok: "session_ok s" by (rule session_reach_ok [OF assms(1)])
  have "i < length (ws_pullers s)" if "om_find (ws_ssrc2media_puller s) ssrc = Some i" for ssrc i
    using refs_below_find [OF _ that] ok by (simp add: session_ok_def)
  then show ?thesis using session_none_stun_ok(2) [OF assms(2) ok assms(3)]
    by (auto simp: rtcp_emits_def split: session_out.splits)
qed

definition null_srtp :: "unit libsrtp" where
  \<comment> \<open>an instance for examples: protection appends a byte, a message is authentic when it ends in that byte\<close>
  "null_srtp = \<lparr>rtp_profile = \<lambda>_. True, rtcp_profile = \<lambda>_. True, cipher_key_len = key_len_of, srtp_create = \<lambda>_ _ _. Some (),
     srtp_protect = \<lambda>c m. (Some (m @ [7]), c), srtp_protect_rtcp = \<lambda>c m. (Some (m @ [7]), c),
     srtp_unprotect = \<lambda>c d n. ((0 < n \<and> take 1 (drop (n - 1) d) = [7], d, n - 1), c),
     srtp_unprotect_rtcp = \<lambda>c d n. ((0 < n \<and> take 1 (drop (n - 1) d) = [7], d, n - 1), c)\<rparr>"

definition peer_example :: "unit webrtc_session" where
  \<comment> \<open>a publisher after the handshake\<close>
  "peer_example = snd (OnDtlsTransportConnected null_srtp True AES_CM_128_HMAC_SHA1_80 (replicate 30 0) (replicate 30 1)
     (snd (snd (AddPusherRtpSession \<lparr>ntp_sec = 0, ntp_frac = 0\<rparr> [3] (RtpSessionParam_default\<lparr>p_ssrc := 3, p_payload_type := 96\<rparr>)
       (WebRtcSession_new SRTP_SESSION_TYPE_RECV [9] [1] [2] (IceServer_new [117] [112]) 5)))))"

definition cfg_example :: session_cfg where
  "cfg_example = \<lparr>uplink_discard_percent = 0, downlink_discard_percent = 0, voice_agent_enable = False\<rparr>"

lemma peer_example_reach: "session_reach null_srtp peer_example"
proof -
  have t: "z = (fst z, fst (snd z), snd (snd z))" for z :: "int \<times> bytes \<times> unit webrtc_session" by simp
  show ?thesis unfolding peer_example_def
    by (rule session_reach.connected [OF session_reach.add_pusher [OF session_reach.init t] surjective_pairing])
qed

lemma peer_example_simps:
  "ws_pushers peer_example = [CreateRtpRecvSession \<lparr>ntp_sec = 0, ntp_frac = 0\<rparr>
     (MediaPusher_new (RtpSessionParam_default\<lparr>p_ssrc := 3, p_payload_type := 96\<rparr>) [1] [2] [3] True)]"
  "om_find (ws_ssrc2media_pusher peer_example) 3 = Some 0" "ws_mid_ext_id peer_example = -1" "ws_tcc_ext_id peer_example = -1"
  "ws_tcc peer_example = TccServer_new True"
  "ws_srtp_recv peer_example = Some \<lparr>srtp_type = SRTP_SESSION_TYPE_RECV, srtp_ctx = Some ()\<rparr>"
  by (simp_all add: peer_example_def OnDtlsTransportConnected_def AddPusherRtpSession_def WebRtcSession_new_def RtpSessionParam_default_def
      SRtpSession_new_def InitSrtpSession_def null_srtp_def policy_ok_def key_len_of_def om_find_def Let_def)

theorem session_security_witness:
  "\<exists>q s'. session_HandleNoneStunPacket null_srtp cfg_example 8 (\<lambda>_. 0) [] [0x80, 96, 0, 1, 0, 0, 0, 2, 0, 0, 0, 3, 0xAA, 7] 14
      \<lparr>ip_address = [49], udp_port = 80, addr_u64 = 0\<rparr> peer_example = (Inr 0, [Media (ToRoom [1] [2] [3] q)], s') \<and>
    media_from cfg_example peer_example (ToRoom [1] [2] [3] q) \<and> ws_srtp_recv peer_example \<noteq> None"
proof -
  let ?d = "[0x80, 96, 0, 1, 0, 0, 0, 2, 0, 0, 0, 3, 0xAA, 7] :: bytes"
  let ?h = "session_HandleNoneStunPacket null_srtp cfg_example 8 (\<lambda>_. 0) [] ?d 14 \<lparr>ip_address = [49], udp_port = 80, addr_u64 = 0\<rparr> peer_example"
  have "case_sum (\<lambda>_. False) (\<lambda>p. GetSsrc p = 3) (Parse 8 ?d 13)" by code_simp
  then obtain pkt where p: "Parse 8 ?d 13 = Inr pkt" "GetSsrc pkt = 3" by (auto split: sum.splits)
  have ok: "rtp_ok pkt" using Parse_Inr [OF p(1)] by simp
  have demux: "IsRtcp ?d 14 = Inr False" "IsRtp ?d 14 = Inr True" by code_simp+
  let ?u = "CreateRtpRecvSession \<lparr>ntp_sec = 0, ntp_frac = 0\<rparr>
     (MediaPusher_new (RtpSessionParam_default\<lparr>p_ssrc := 3, p_payload_type := 96\<rparr>) [1] [2] [3] True)"
  obtain u' q where u: "HandleRtpPacket 8 [] False pkt ?u = (Inr 0, [ToRoom [1] [2] [3] q], u')"
  proof -
    obtain s' where r: "ReceiveRtpPacket (set_ext_ids (mu_param ?u) pkt) (mu_sessions ?u ! 0) = (Inr True, s')"
      by (simp add: ReceiveRtpPacket_def CreateRtpRecvSession_def MediaPusher_new_def RtpRecvSession_new_def rtp_session.defs
          rtp_recv_session.defs rtp_session_init_def RtpSessionParam_default_def Let_def)
    let ?u1 = "?u\<lparr>mu_sessions := [s']\<rparr>"
    have ids: "mu_user_id ?u1 = [1]" "mu_session_id ?u1 = [2]" "mu_pusher_id ?u1 = [3]" "length (mu_sessions ?u) = 1"
      "om_find (mu_ssrc2sessions ?u) 3 = Some 0"
      by (simp_all add: CreateRtpRecvSession_def MediaPusher_new_def RtpSessionParam_default_def om_find_def Let_def)
    have "rtp_ok (set_ext_ids (mu_param ?u) pkt)" using ok by simp
    then obtain q where q: "pusher_to_room (set_ext_ids (mu_param ?u) pkt) ?u1 = Inr [ToRoom [1] [2] [3] q]"
      using pusher_to_room_frame [of _ ?u1, unfolded ids] by metis
    have "(mu_sessions ?u)[0 := s'] = [s']" using ids(4) by (cases "mu_sessions ?u") auto
    then show thesis using that [of q ?u1] r q ids(5) p(2)
      by (simp add: HandleRtpPacket_def GetRtpRecvSession_def to_voice_agent_def Let_def)
  qed
  have "DecryptRtp null_srtp ?d 14 \<lparr>srtp_type = SRTP_SESSION_TYPE_RECV, srtp_ctx = Some ()\<rparr>
      = ((True, ?d, 13), \<lparr>srtp_type = SRTP_SESSION_TYPE_RECV, srtp_ctx = Some ()\<rparr>)"
    by (simp add: DecryptRtp_def null_srtp_def)
  then obtain s' where h: "?h = (Inr 0, [Media (ToRoom [1] [2] [3] q)], s')"
    using demux p u peer_example_simps
    by (simp add: session_HandleNoneStunPacket_def session_HandleRtpPacket_def session_dispatch_def session_set_ids_def session_tcc_def
        find_media_pusher_def InsertRtpPacket_def TccServer_new_def ResetFeedbackPacket_def cfg_example_def Let_def del: list.size)
  from session_security [OF peer_example_reach h, of "Media (ToRoom [1] [2] [3] q)"] h show ?thesis by auto
qed

text \<open>
  C29. Incoming RTCP is handled exactly when SRTCP rejects it: \<open>DecryptRtcp\<close> returns true on success, and the session treats true
  as a failure. An authentic compound changes nothing but the SRTP context and is answered with \<open>-1\<close>; a compound that fails authentication is
  passed on as it is, and every item in it takes effect, in order.
\<close>

theorem session_rtcp_inverted:
  assumes "ws_srtp_recv s = Some k" "DecryptRtcp lib data len k = ((authentic, concat bs @ rest, length (concat bs)), k')"
    and "\<forall>b \<in> set bs. rtcp_item_ok b"
  shows "session_HandleRtcpPacket lib cfg now_ms rand mem data len s =
    (let s1 = s\<lparr>ws_srtp_recv := Some k'\<rparr> in
     if authentic then (Inr (-1), [], s1)
     else (case run_items (session_item lib cfg now_ms rand mem) bs rest s1 of
       (Inl e, outs, s2) \<Rightarrow> (Inl e, outs, s2) | (Inr _, outs, s2) \<Rightarrow> (Inr 0, outs, s2)))"
  using assms(1,2) rtcp_walk_items [OF assms(3), of "session_item lib cfg now_ms rand mem" rest "s\<lparr>ws_srtp_recv := Some k'\<rparr>"]
  by (simp add: session_HandleRtcpPacket_def Let_def del: length_concat)

theorem session_rtcp_inverted_witness:
  "session_HandleRtcpPacket null_srtp cfg_example 8 (\<lambda>_. 0) [] [0x81, 206, 0, 2, 0, 0, 0, 0, 0, 0, 0, 3, 7] 13 peer_example
     = (Inr (-1), [], peer_example) \<and>
   session_HandleRtcpPacket null_srtp cfg_example 8 (\<lambda>_. 0) [] [0x81, 206, 0, 2, 0, 0, 0, 0, 0, 0, 0, 3, 8] 13 peer_example
     = (Inr 0, [], peer_example)"
proof -
  let ?b = "[0x81, 206, 0, 2, 0, 0, 0, 0, 0, 0, 0, 3] :: bytes" and ?k = "\<lparr>srtp_type = SRTP_SESSION_TYPE_RECV, srtp_ctx = Some ()\<rparr>"
  have ok: "\<forall>b \<in> set [?b]. rtcp_item_ok b" by code_simp
  have d: "DecryptRtcp null_srtp (?b @ [x]) 13 ?k = ((x = 7, concat [?b] @ [x], length (concat [?b])), ?k)" for x
    by (simp add: DecryptRtcp_def null_srtp_def)
  have k: "peer_example\<lparr>ws_srtp_recv := Some ?k\<rparr> = peer_example" using peer_example_simps(6) by (cases peer_example) simp
  have "case_sum (\<lambda>_. False) (\<lambda>o1. o1 \<noteq> None) (Pli_Parse (?b @ [8]) (length ?b))" by code_simp
  then obtain v where pli: "Pli_Parse (?b @ [8]) (length ?b) = Inr (Some v)" by (auto split: sum.splits)
  have p: "ws_ssrc2media_puller peer_example = []"
    by (simp add: peer_example_def OnDtlsTransportConnected_def AddPusherRtpSession_def WebRtcSession_new_def Let_def)
  have "session_item null_srtp cfg_example 8 (\<lambda>_. 0) [] (?b @ [8]) (length ?b) peer_example = (Inr (), [], peer_example)"
    using pli p by (simp add: session_item_def session_HandleRtcpPsfbPacket_def rtcp_packet_type_def)
  then show ?thesis
    using session_rtcp_inverted [OF peer_example_simps(6) d ok, of cfg_example 8 "\<lambda>_. 0" "[]"] k by (simp add: Let_def)
qed

end
