(* ===== verification/Webrtc_Server.thy ===== *)
theory Webrtc_Server
  imports Webrtc_Session "HOL-Library.List_Lexorder"
begin

text \<open>
  \<open>WebRtcServer\<close> of \<open>webrtc_room/webrtc_server.{hpp,cpp}\<close>: the UDP entry point. STUN requests find their session by the
  user fragment in the user name, every other datagram by the address it comes from. Sessions live in a list and the
  two maps hold positions; the order of an \<open>unordered_map\<close> is never observable here, so ordered maps stand for them. Removing a session
  from the maps drops the server's references to it. What goes to the socket, the rooms and the DTLS layer is returned.
\<close>

record 'c webrtc_server =
  sv_sessions :: "'c webrtc_session list"
  sv_username2sessions :: "(bytes, nat) omap"
  sv_addr2sessions :: "(u64, nat) omap"

definition WebRtcServer_new :: "'c webrtc_server" where
  "WebRtcServer_new = \<lparr>sv_sessions = [], sv_username2sessions = [], sv_addr2sessions = []\<rparr>"

definition SetUserName2Session :: "bytes \<Rightarrow> nat \<Rightarrow> 'c webrtc_server \<Rightarrow> 'c webrtc_server" where
  "SetUserName2Session user_name i v = v\<lparr>sv_username2sessions := om_insert user_name i (sv_username2sessions v)\<rparr>"

definition SetAddr2Session :: "u64 \<Rightarrow> nat \<Rightarrow> 'c webrtc_server \<Rightarrow> 'c webrtc_server" where
  "SetAddr2Session addr i v = v\<lparr>sv_addr2sessions := om_insert addr i (sv_addr2sessions v)\<rparr>"

definition GetKeyByUsername :: "bytes \<Rightarrow> bytes" where
  \<comment> \<open>up to the first colon; 58 is its code\<close>
  "GetKeyByUsername user_name = takeWhile (\<lambda>c. c \<noteq> 58) user_name"

section \<open>Datagrams\<close>

definition server_HandleStunPacket ::
    "(bytes \<Rightarrow> bytes \<Rightarrow> bytes res) \<Rightarrow> int \<Rightarrow> sockaddr_in \<Rightarrow> bytes \<Rightarrow> nat \<Rightarrow> udp_tuple \<Rightarrow> 'c webrtc_server \<Rightarrow>
     unit res \<times> session_out list \<times> 'c webrtc_server" where
  \<comment> \<open>the datagram is copied first; an exception is caught\<close>
  "server_HandleStunPacket hmac now_ms sock data data_size address v =
     (case stun_Parse (take data_size data) data_size of
        Inl Throw \<Rightarrow> (Inr (), [], v)
      | Inl e \<Rightarrow> (Inl e, [], v)
      | Inr stun_pkt \<Rightarrow>
        (case om_find (sv_username2sessions v) (GetKeyByUsername (username stun_pkt)) of
           None \<Rightarrow> (Inr (), [], v)
         | Some i \<Rightarrow>
             let v1 = SetAddr2Session (addr_u64 address) i v in
             (case session_HandleStunPacket hmac now_ms sock stun_pkt address (sv_sessions v1 ! i) of
                (ret, outs, s) \<Rightarrow>
                  (case ret of Inl Throw \<Rightarrow> Inr () | Inl e \<Rightarrow> Inl e | Inr _ \<Rightarrow> Inr (), outs,
                   v1\<lparr>sv_sessions := (sv_sessions v1)[i := s]\<rparr>))))"

definition server_HandleNoneStunPacket ::
    "'c libsrtp \<Rightarrow> session_cfg \<Rightarrow> int \<Rightarrow> (nat \<Rightarrow> u32) \<Rightarrow> bytes \<Rightarrow> bytes \<Rightarrow> nat \<Rightarrow> udp_tuple \<Rightarrow> 'c webrtc_server \<Rightarrow>
     unit res \<times> session_out list \<times> 'c webrtc_server" where
  "server_HandleNoneStunPacket lib cfg now_ms rand mem data data_size address v =
     (case om_find (sv_addr2sessions v) (addr_u64 address) of
        None \<Rightarrow> (Inr (), [], v)
      | Some i \<Rightarrow>
          (case session_HandleNoneStunPacket lib cfg now_ms rand mem data data_size address (sv_sessions v ! i) of
             (ret, outs, s) \<Rightarrow>
               (case ret of Inl e \<Rightarrow> Inl e | Inr _ \<Rightarrow> Inr (), outs, v\<lparr>sv_sessions := (sv_sessions v)[i := s]\<rparr>)))"

definition server_OnRead ::
    "'c libsrtp \<Rightarrow> (bytes \<Rightarrow> bytes \<Rightarrow> bytes res) \<Rightarrow> session_cfg \<Rightarrow> int \<Rightarrow> (nat \<Rightarrow> u32) \<Rightarrow> sockaddr_in \<Rightarrow> bytes \<Rightarrow> bytes \<Rightarrow> nat \<Rightarrow> udp_tuple \<Rightarrow>
     'c webrtc_server \<Rightarrow> unit res \<times> session_out list \<times> 'c webrtc_server" where
  "server_OnRead lib hmac cfg now_ms rand sock mem data data_size address v =
     (case IsStun data data_size of
        Inl e \<Rightarrow> (Inl e, [], v)
      | Inr True \<Rightarrow> server_HandleStunPacket hmac now_ms sock data data_size address v
      | Inr False \<Rightarrow> server_HandleNoneStunPacket lib cfg now_ms rand mem data data_size address v)"

section \<open>Removing sessions\<close>

definition remove_sessions :: "('c webrtc_session \<Rightarrow> bool) \<Rightarrow> 'c webrtc_server \<Rightarrow> 'c webrtc_server" where
  \<comment> \<open>the body that \<open>OnTimer\<close> and \<open>RemoveSessionByRoomId\<close> share: only sessions with an address are looked at\<close>
  "remove_sessions drop_it v =
     (let found = filter (\<lambda>(addr, i). drop_it (sv_sessions v ! i)) (sv_addr2sessions v);
          addr_to_remove = map fst found;
          ufrag_remove = map (\<lambda>(addr, i). ice_ufrag (ws_ice (sv_sessions v ! i))) found
      in v\<lparr>sv_addr2sessions := fold om_erase addr_to_remove (sv_addr2sessions v),
           sv_username2sessions := fold om_erase ufrag_remove (sv_username2sessions v)\<rparr>)"

definition server_OnTimer :: "int \<Rightarrow> 'c webrtc_server \<Rightarrow> 'c webrtc_server" where
  "server_OnTimer now_ms = remove_sessions (\<lambda>s. \<not> session_IsAlive now_ms s)"

definition RemoveSessionByRoomId :: "bytes \<Rightarrow> 'c webrtc_server \<Rightarrow> 'c webrtc_server" where
  "RemoveSessionByRoomId room_id = remove_sessions (\<lambda>s. ws_room_id s = room_id)"

lemma om_find_fold_erase: "om_find (fold om_erase ks m) k = (if k \<in> set ks then None else om_find m k)"
  by (induction ks arbitrary: m) auto

lemma remove_sessions_maps:
  assumes "om_ok (sv_addr2sessions v)"
  shows "om_find (sv_addr2sessions (remove_sessions P v)) a =
      (case om_find (sv_addr2sessions v) a of Some i \<Rightarrow> if P (sv_sessions v ! i) then None else Some i | None \<Rightarrow> None)"
    and "om_find (sv_username2sessions (remove_sessions P v)) u =
      (if \<exists>a i. om_find (sv_addr2sessions v) a = Some i \<and> P (sv_sessions v ! i) \<and> ice_ufrag (ws_ice (sv_sessions v ! i)) = u
       then None else om_find (sv_username2sessions v) u)"
proof -
  have f: "(k, i) \<in> set (sv_addr2sessions v) \<longleftrightarrow> om_find (sv_addr2sessions v) k = Some i" for k i
    using om_find_Some [OF assms] by blast
  show "om_find (sv_addr2sessions (remove_sessions P v)) a =
      (case om_find (sv_addr2sessions v) a of Some i \<Rightarrow> if P (sv_sessions v ! i) then None else Some i | None \<Rightarrow> None)"
    by (auto simp: remove_sessions_def Let_def om_find_fold_erase image_iff f split: option.split)
  show "om_find (sv_username2sessions (remove_sessions P v)) u =
      (if \<exists>a i. om_find (sv_addr2sessions v) a = Some i \<and> P (sv_sessions v ! i) \<and> ice_ufrag (ws_ice (sv_sessions v ! i)) = u
       then None else om_find (sv_username2sessions v) u)"
    by (auto simp: remove_sessions_def Let_def om_find_fold_erase image_iff f)
qed

text \<open>
  C32. The server's timer forgets exactly the sessions that have been silent for more than 35 seconds: an address leads to the same
  session as before if that session is alive and to none otherwise; a user fragment stops being known exactly if
  it belongs to a silent session that an address leads to. A session no datagram ever reached is therefore kept.
\<close>

theorem server_timer:
  assumes "om_ok (sv_addr2sessions v)"
  shows "(\<forall>a. om_find (sv_addr2sessions (server_OnTimer now_ms v)) a =
      (case om_find (sv_addr2sessions v) a of
         Some i \<Rightarrow> if now_ms - ws_alive_ms (sv_sessions v ! i) \<le> 35000 then Some i else None | None \<Rightarrow> None)) \<and>
    (\<forall>u. om_find (sv_username2sessions (server_OnTimer now_ms v)) u =
      (if \<exists>a i. om_find (sv_addr2sessions v) a = Some i \<and> 35000 < now_ms - ws_alive_ms (sv_sessions v ! i) \<and>
          ice_ufrag (ws_ice (sv_sessions v ! i)) = u
       then None else om_find (sv_username2sessions v) u)) \<and>
    sv_sessions (server_OnTimer now_ms v) = sv_sessions v"
proof -
  have P: "(\<lambda>s. \<not> session_IsAlive now_ms s) = (\<lambda>s. 35000 < now_ms - ws_alive_ms s)"
    by (auto simp: session_IsAlive_def)
  show ?thesis unfolding server_OnTimer_def P
    by (auto simp: remove_sessions_maps [OF assms] split: option.split) (simp add: remove_sessions_def Let_def)
qed

definition server_example :: "unit webrtc_server" where
  "server_example = SetAddr2Session 5 0 (SetUserName2Session [117] 0 (WebRtcServer_new\<lparr>sv_sessions := [peer_example]\<rparr>))"

theorem server_timer_witness:
  "om_find (sv_addr2sessions (server_OnTimer 35005 server_example)) 5 = Some 0 \<and>
   om_find (sv_addr2sessions (server_OnTimer 35006 server_example)) 5 = None \<and>
   om_find (sv_username2sessions (server_OnTimer 35006 server_example)) [117] = None"
proof -
  have s: "om_find (sv_addr2sessions server_example) 5 = Some 0" "om_ok (sv_addr2sessions server_example)"
    "ws_alive_ms (sv_sessions server_example ! 0) = 5" "ice_ufrag (ws_ice (sv_sessions server_example ! 0)) = [117]"
    by (simp_all add: server_example_def SetAddr2Session_def SetUserName2Session_def WebRtcServer_new_def om_find_def peer_example_def
        OnDtlsTransportConnected_def AddPusherRtpSession_def WebRtcSession_new_def IceServer_new_def Let_def)
  show ?thesis using server_timer [OF s(2), of 35005] server_timer [OF s(2), of 35006] s by auto
qed

section \<open>Routing\<close>

lemma session_stun_outcome:
  assumes "hmac_up hmac" "len \<le> length data" "stun_Parse data len = Inr k" "ice_pwd (ws_ice s) \<noteq> []"
    and "inet_pton (ip_address addr) = Some a" "ws_dtls s = Some l"
  shows "\<exists>ret outs. session_HandleStunPacket hmac now_ms sock k addr s =
      (Inr ret, outs, s\<lparr>ws_remote_addr := addr, ws_alive_ms := now_ms,
         ws_dtls := Some (if ice_accepts hmac (ws_ice s) data k then l\<lparr>dtls_remote_addr := addr, ice_connected := True\<rparr> else l)\<rparr>) \<and>
    (if ice_accepts hmac (ws_ice s) data k then \<exists>d. ret = 0 \<and> outs = [WriteUdp d addr] else ret \<noteq> 0 \<and> outs = [])"
proof -
  let ?s = "s\<lparr>ws_remote_addr := addr, ws_alive_ms := now_ms\<rparr>"
  note o = ice_outcome [OF assms(1-5), of sock]
  show ?thesis
  proof (cases "ice_accepts hmac (ws_ice s) data k")
    case True
    then obtain d where "ice_HandleStunPacket hmac sock (ws_ice s) k addr = Inr (0, k, [(d, addr)])" using o by auto
    then show ?thesis using True assms(6) by (simp add: session_HandleStunPacket_def Let_def)
  next
    case False
    then obtain ret k' where "ice_HandleStunPacket hmac sock (ws_ice s) k addr = Inr (ret, k', [])" "ret \<noteq> 0" using o by auto
    moreover have "?s\<lparr>ws_dtls := Some l\<rparr> = ?s" using assms(6) by (cases s) simp
    ultimately show ?thesis using False by (simp add: session_HandleStunPacket_def Let_def)
  qed
qed

text \<open>
  C15. A parsed STUN message goes to the session whose user fragment it names. If it is an authentic Binding request of a controlling
  peer the sender gets one answer and the DTLS layer is told its address; otherwise nobody gets an answer. But in both cases, authentic
  or not, the sender's address now leads to this session and the session sends its media there.
\<close>

theorem server_binding:
  assumes "hmac_up hmac" "len \<le> length data" "stun_Parse (take len data) len = Inr k"
    and "om_find (sv_username2sessions v) (GetKeyByUsername (username k)) = Some i" "i < length (sv_sessions v)"
    and "s = sv_sessions v ! i" "ice_pwd (ws_ice s) \<noteq> []" "ws_dtls s = Some l" "inet_pton (ip_address addr) = Some a"
    and "om_ok (sv_addr2sessions v)"
  shows "\<exists>outs v'. server_OnRead lib hmac cfg now_ms rand sock mem data len addr v = (Inr (), outs, v') \<and>
    om_find (sv_addr2sessions v') (addr_u64 addr) = Some i \<and> ws_remote_addr (sv_sessions v' ! i) = addr \<and>
    (\<forall>j. j \<noteq> i \<longrightarrow> sv_sessions v' ! j = sv_sessions v ! j) \<and>
    (if ice_accepts hmac (ws_ice s) (take len data) k
     then (\<exists>d. outs = [WriteUdp d addr]) \<and> ws_dtls (sv_sessions v' ! i) = Some (l\<lparr>dtls_remote_addr := addr, ice_connected := True\<rparr>)
     else outs = [] \<and> ws_dtls (sv_sessions v' ! i) = Some l)"
proof -
  have "IsStun (take len data) len = Inr True"
    using assms(3) by (auto simp: stun_Parse_def split: if_splits)
  then have stun: "IsStun data len = Inr True" using assms(2)
    by (auto simp: IsStun_def STUN_HEADER_SIZE_def rd8_def split: if_splits)
  have len: "len \<le> length (take len data)" using assms(2) by simp
  obtain ret outs where o: "session_HandleStunPacket hmac now_ms sock k addr s =
      (Inr ret, outs, s\<lparr>ws_remote_addr := addr, ws_alive_ms := now_ms,
         ws_dtls := Some (if ice_accepts hmac (ws_ice s) (take len data) k then l\<lparr>dtls_remote_addr := addr, ice_connected := True\<rparr> else l)\<rparr>)"
    "if ice_accepts hmac (ws_ice s) (take len data) k then \<exists>d. ret = 0 \<and> outs = [WriteUdp d addr] else ret \<noteq> 0 \<and> outs = []"
    using session_stun_outcome [OF assms(1) len assms(3,7,9,8), of now_ms sock] by blast
  let ?v = "(SetAddr2Session (addr_u64 addr) i v)"
  let ?v' = "?v\<lparr>sv_sessions := (sv_sessions ?v)[i := s\<lparr>ws_remote_addr := addr, ws_alive_ms := now_ms,
         ws_dtls := Some (if ice_accepts hmac (ws_ice s) (take len data) k then l\<lparr>dtls_remote_addr := addr, ice_connected := True\<rparr> else l)\<rparr>]\<rparr>"
  have e: "sv_sessions ?v = sv_sessions v" "sv_addr2sessions ?v = om_insert (addr_u64 addr) i (sv_addr2sessions v)"
    by (simp_all add: SetAddr2Session_def)
  have "server_OnRead lib hmac cfg now_ms rand sock mem data len addr v = (Inr (), outs, ?v')"
    using stun assms(3,4,6) o(1) by (simp add: server_OnRead_def server_HandleStunPacket_def e Let_def)
  then show ?thesis using o(2) assms(5,10) e by (intro exI [of _ outs] exI [of _ ?v']) (auto split: if_splits)
qed

definition binding_example :: "u8 \<Rightarrow> bytes" where
  \<comment> \<open>a Binding request for the fragment \<open>u\<close> with an integrity value of 20 equal bytes\<close>
  "binding_example x = [0, 1, 0, 40] @ magic_cookie @ replicate 12 7 @ [0, 6, 0, 1, 117, 0, 0, 0] @ [0, 0x24, 0, 4, 0, 0, 0, 5]
     @ [0, 8, 0, 20] @ replicate 20 x"

definition waiting_example :: "unit webrtc_server" where
  "waiting_example = SetUserName2Session [117] 0 (WebRtcServer_new\<lparr>sv_sessions :=
     [snd (DtlsInit 0 0 (WebRtcSession_new SRTP_SESSION_TYPE_RECV [9] [1] [2] (IceServer_new [117] [112]) 5))]\<rparr>)"

theorem server_binding_witness:
  "\<exists>outs v'. server_OnRead null_srtp (\<lambda>key msg. Inr (replicate 20 9)) cfg_example 8 (\<lambda>_. 0) \<lparr>sin_family = 0, sin_port = 0, s_addr = 0\<rparr> []
      (binding_example 8) 60 \<lparr>ip_address = inet_ntop 0x0100007F, udp_port = 5000, addr_u64 = 77\<rparr> waiting_example = (Inr (), outs, v') \<and>
    outs = [] \<and> om_find (sv_addr2sessions v') 77 = Some 0 \<and> udp_port (ws_remote_addr (sv_sessions v' ! 0)) = 5000"
proof -
  let ?h = "\<lambda>key msg. Inr (replicate 20 9) :: bytes res" and ?a = "\<lparr>ip_address = inet_ntop 0x0100007F, udp_port = 5000, addr_u64 = 77\<rparr>"
  let ?v = waiting_example and ?d = "binding_example 8"
  have "(case stun_Parse (take 60 ?d) 60 of Inl e \<Rightarrow> False
    | Inr k \<Rightarrow> \<not> ice_accepts ?h (IceServer_new [117] [112]) (take 60 ?d) k \<and> GetKeyByUsername (username k) = [117])" by code_simp
  then obtain k where k: "stun_Parse (take 60 ?d) 60 = Inr k" "\<not> ice_accepts ?h (IceServer_new [117] [112]) (take 60 ?d) k"
    "GetKeyByUsername (username k) = [117]" by (auto split: sum.splits)
  have l: "60 \<le> length ?d" by (simp add: binding_example_def magic_cookie_def)
  have s: "om_find (sv_username2sessions ?v) (GetKeyByUsername (username k)) = Some 0" "0 < length (sv_sessions ?v)"
    "ws_ice (sv_sessions ?v ! 0) = IceServer_new [117] [112]" "\<exists>l. ws_dtls (sv_sessions ?v ! 0) = Some l" "om_ok (sv_addr2sessions ?v)"
    by (simp_all add: waiting_example_def SetUserName2Session_def WebRtcServer_new_def DtlsInit_def WebRtcSession_new_def om_find_def k Let_def)
  have w: "ice_pwd (ws_ice (sv_sessions ?v ! 0)) \<noteq> []" by (simp add: s(3) IceServer_new_def)
  obtain l1 where d: "ws_dtls (sv_sessions ?v ! 0) = Some l1" using s(4) by blast
  have p: "inet_pton (ip_address ?a) = Some 0x0100007F" by simp
  have h: "hmac_up ?h" by (simp add: hmac_up_def)
  from server_binding [OF h l k(1) s(1,2) refl w d p s(5), of null_srtp cfg_example 8 "\<lambda>_. 0" "\<lparr>sin_family = 0, sin_port = 0, s_addr = 0\<rparr>" "[]"] k(2) s(3)
  show ?thesis by auto
qed

text \<open>
  C14. Datagrams of different peers do not interfere: a datagram that is not STUN changes only the session its source address leads to,
  whatever is written to the socket because of it goes back to that address protected by SRTP, and media it
  delivers is filed under that session's user. From an unknown address it has no effect at all.
\<close>

theorem server_isolation:
  assumes "IsStun data len = Inr False" "\<forall>s \<in> set (sv_sessions v). session_reach lib s"
    and "\<forall>i. om_find (sv_addr2sessions v) (addr_u64 addr) = Some i \<longrightarrow> i < length (sv_sessions v)"
    and "server_OnRead lib hmac cfg now_ms rand sock mem data len addr v = (ret, outs, v')"
  shows "case om_find (sv_addr2sessions v) (addr_u64 addr) of
      None \<Rightarrow> outs = [] \<and> v' = v
    | Some i \<Rightarrow> (\<forall>j. j \<noteq> i \<longrightarrow> sv_sessions v' ! j = sv_sessions v ! j) \<and> session_reach lib (sv_sessions v' ! i) \<and>
        sv_addr2sessions v' = sv_addr2sessions v \<and> sv_username2sessions v' = sv_username2sessions v \<and>
        (\<forall>d a. WriteUdp d a \<in> set outs \<longrightarrow> a = addr \<and> srtp_protected lib d) \<and>
        (\<forall>user t p q. Media (ToRoom user t p q) \<in> set outs \<longrightarrow> user = ws_user_id (sv_sessions v ! i))"
proof (cases "om_find (sv_addr2sessions v) (addr_u64 addr)")
  case None
  then show ?thesis using assms(1,4) by (simp add: server_OnRead_def server_HandleNoneStunPacket_def)
next
  case (Some i)
  let ?s = "sv_sessions v ! i"
  have i: "i < length (sv_sessions v)" using assms(3) Some by simp
  then have reach: "session_reach lib ?s" using assms(2) by simp
  obtain r os s' where h: "session_HandleNoneStunPacket lib cfg now_ms rand mem data len addr ?s = (r, os, s')"
    by (cases "session_HandleNoneStunPacket lib cfg now_ms rand mem data len addr ?s")
  have v': "outs = os" "v' = v\<lparr>sv_sessions := (sv_sessions v)[i := s']\<rparr>"
    using assms(1,4) Some h by (simp_all add: server_OnRead_def server_HandleNoneStunPacket_def)
  have "a = addr \<and> srtp_protected lib d" if "WriteUdp d a \<in> set os" for d a
    using session_none_stun_ok(2) [OF h session_reach_ok [OF reach] that] by (auto simp: rtcp_emits_def)
  moreover have "user = ws_user_id ?s" if "Media (ToRoom user t p q) \<in> set os" for user t p q
    using session_none_stun_ok(2) [OF h session_reach_ok [OF reach] that] by (auto simp: rtcp_emits_def media_from_def)
  ultimately show ?thesis using i Some v' session_reach.none_stun [OF reach h] by simp
qed

theorem server_isolation_witness:
  "\<exists>ret outs v'. server_OnRead null_srtp (\<lambda>key msg. Inr []) cfg_example 8 (\<lambda>_. 0) \<lparr>sin_family = 0, sin_port = 0, s_addr = 0\<rparr> []
      [0x80, 96, 0, 1, 0, 0, 0, 2, 0, 0, 0, 3, 0xAA, 7] 14 \<lparr>ip_address = [49], udp_port = 80, addr_u64 = 5\<rparr> server_example = (ret, outs, v') \<and>
    session_reach null_srtp (sv_sessions v' ! 0) \<and> sv_addr2sessions v' = sv_addr2sessions server_example"
proof -
  let ?d = "[0x80, 96, 0, 1, 0, 0, 0, 2, 0, 0, 0, 3, 0xAA, 7] :: bytes" and ?a = "\<lparr>ip_address = [49], udp_port = 80, addr_u64 = 5\<rparr>"
  have n: "IsStun ?d 14 = Inr False" by code_simp
  have f: "om_find (sv_addr2sessions server_example) (addr_u64 ?a) = Some 0" "sv_sessions server_example = [peer_example]"
    by (simp_all add: server_example_def SetAddr2Session_def SetUserName2Session_def WebRtcServer_new_def om_find_def)
  have r: "\<forall>s \<in> set (sv_sessions server_example). session_reach null_srtp s" using peer_example_reach f by simp
  have i: "\<forall>i. om_find (sv_addr2sessions server_example) (addr_u64 ?a) = Some i \<longrightarrow> i < length (sv_sessions server_example)" using f by simp
  obtain ret outs v' where h: "server_OnRead null_srtp (\<lambda>key msg. Inr []) cfg_example 8 (\<lambda>_. 0) \<lparr>sin_family = 0, sin_port = 0, s_addr = 0\<rparr> []
      ?d 14 ?a server_example = (ret, outs, v')" by (metis prod.exhaust)
  from server_isolation [OF n r i h] f(1) h show ?thesis by auto
qed

end
