(* ===== verification/Data_Buffer.thy ===== *)
theory Data_Buffer
  imports RTC_Prelude
begin

text \<open>
  \<open>DataBuffer\<close> of \<open>utils/data_buffer.hpp\<close>: the growing byte queue in which every TCP reader of the program (web sockets,
  HTTP) collects what the network delivers. The bytes live in an allocated array, with room left in front of them;
  \<open>AppendData\<close> adds at the end, moves the bytes back to the front or allocates a larger array, \<open>ConsumeData\<close> removes bytes at
  the front and, with a negative length, gives bytes back. The theory models the array with its indices at their
  widths, every copy with its bounds, and shows that the class implements a queue of bytes.

  \<open>mem i\<close> is what \<open>new char[n]\<close> leaves in the cell \<open>i\<close>; memory is never exhausted.
\<close>

section \<open>Sizes, allocation and copies\<close>

abbreviation size_max :: nat where
  "size_max \<equiv> 0x10000000000000000"

definition size_of_int :: "int \<Rightarrow> nat" where
  \<comment> \<open>\<open>(size_t)i\<close>\<close>
  "size_of_int i = nat (i mod 0x10000000000000000)"

definition int_of_size :: "nat \<Rightarrow> int" where
  \<comment> \<open>\<open>(int)n\<close>\<close>
  "int_of_size n = signed_take_bit 31 (int n)"

definition iadd :: "int \<Rightarrow> int \<Rightarrow> int res" where
  \<comment> \<open>addition of two \<open>int\<close>s\<close>
  "iadd a b = (if - 0x80000000 \<le> a + b \<and> a + b < 0x80000000 then Inr (a + b) else Inl Overflow)"

definition new_char :: "(nat \<Rightarrow> u8) \<Rightarrow> nat \<Rightarrow> bytes res" where
  \<comment> \<open>\<open>new char[n]\<close>; no object is larger than half the address space\<close>
  "new_char mem n = (if n < 0x8000000000000000 then Inr (map mem [0..<n]) else Inl Throw)"

definition memcpy :: "bytes \<Rightarrow> int \<Rightarrow> bytes \<Rightarrow> int \<Rightarrow> nat \<Rightarrow> bytes res" where
  \<comment> \<open>\<open>memcpy(dst + i, src + j, n)\<close> between two objects\<close>
  "memcpy dst i src j n =
     (if 0 \<le> i \<and> nat i + n \<le> length dst \<and> 0 \<le> j \<and> nat j + n \<le> length src
      then Inr (poke dst (nat i) (take n (drop (nat j) src)))
      else Inl OutOfBounds)"

definition memcpy_in :: "bytes \<Rightarrow> int \<Rightarrow> int \<Rightarrow> nat \<Rightarrow> bytes res" where
  \<comment> \<open>\<open>memcpy(b + i, b + j, n)\<close> inside one object\<close>
  "memcpy_in b i j n =
     (if 0 < n \<and> i < j + int n \<and> j < i + int n then Inl Overlap else memcpy b i b j n)"

lemma memcpy_ok [simp]:
  "0 \<le> i \<Longrightarrow> nat i + n \<le> length dst \<Longrightarrow> 0 \<le> j \<Longrightarrow> nat j + n \<le> length src \<Longrightarrow>
     memcpy dst i src j n = Inr (poke dst (nat i) (take n (drop (nat j) src)))"
  by (simp add: memcpy_def)

lemma int_of_size_small [simp]: "n < 0x80000000 \<Longrightarrow> int_of_size n = int n"
  by (simp add: int_of_size_def signed_take_bit_int_eq_self)

lemma size_of_int_small [simp]: "0 \<le> i \<Longrightarrow> i < 0x10000000000000000 \<Longrightarrow> size_of_int i = nat i"
  by (simp add: size_of_int_def)

lemma iadd_ok [simp]: "- 0x80000000 \<le> a + b \<Longrightarrow> a + b < 0x80000000 \<Longrightarrow> iadd a b = Inr (a + b)"
  by (simp add: iadd_def)

lemma new_char_ok [simp]: "n < 0x8000000000000000 \<Longrightarrow> new_char mem n = Inr (map mem [0..<n])"
  by (simp add: new_char_def)

section \<open>The class\<close>

abbreviation EXTRA_LEN :: int where "EXTRA_LEN \<equiv> 10240"
abbreviation PRE_RESERVE_HEADER_SIZE :: int where "PRE_RESERVE_HEADER_SIZE \<equiv> 200"

record data_buffer =
  db_sent_flag :: bool
  db_dst_ip :: bytes
  db_dst_port :: u16
  db_buffer :: bytes
  db_size :: nat
  db_len :: int
  db_start :: int
  db_end :: int

definition DataBuffer_new :: "(nat \<Rightarrow> u8) \<Rightarrow> nat \<Rightarrow> data_buffer res" where
  \<comment> \<open>the memory is cleared up to \<open>data_size\<close>\<close>
  "DataBuffer_new mem data_size =
     rbind (new_char mem ((data_size + 200) mod size_max)) (\<lambda>b.
       if data_size \<le> length b
       then Inr \<lparr>db_sent_flag = False, db_dst_ip = [], db_dst_port = 0, db_buffer = poke b 0 (replicate data_size 0),
                 db_size = data_size, db_len = 0, db_start = PRE_RESERVE_HEADER_SIZE,
                 db_end = PRE_RESERVE_HEADER_SIZE\<rparr>
       else Inl OutOfBounds)"

definition DataBuffer_copy :: "(nat \<Rightarrow> u8) \<Rightarrow> data_buffer \<Rightarrow> data_buffer res" where
  \<comment> \<open>copy constructor and assignment: the first \<open>db_len\<close> bytes of the array are copied\<close>
  "DataBuffer_copy mem input =
     rbind (new_char mem ((db_size input + 200) mod size_max)) (\<lambda>b.
     rbind (memcpy b 0 (db_buffer input) 0 (size_of_int (db_len input))) (\<lambda>b1.
       Inr (input\<lparr>db_buffer := b1\<rparr>)))"

definition buffer_Reset :: "data_buffer \<Rightarrow> data_buffer" where
  "buffer_Reset d = d\<lparr>db_start := PRE_RESERVE_HEADER_SIZE, db_end := PRE_RESERVE_HEADER_SIZE, db_len := 0\<rparr>"

definition GetNewSize :: "int \<Rightarrow> int res" where
  "GetNewSize new_len =
     (if new_len \<le> 50 * 1024 then Inr (50 * 1024)
      else if new_len \<le> 100 * 1024 then Inr (100 * 1024)
      else if new_len \<le> 200 * 1024 then Inr (200 * 1024)
      else if new_len \<le> 500 * 1024 then Inr (500 * 1024)
      else iadd new_len (10 * 1024))"

definition buffer_room :: "data_buffer \<Rightarrow> nat" where
  \<comment> \<open>\<open>db_size - PRE_RESERVE_HEADER_SIZE\<close>, unsigned\<close>
  "buffer_room d = (db_size d + size_max - 200) mod size_max"

definition append_grow :: "(nat \<Rightarrow> u8) \<Rightarrow> bytes \<Rightarrow> nat \<Rightarrow> data_buffer \<Rightarrow> (int \<times> data_buffer) res" where
  \<comment> \<open>allocates a larger array\<close>
  "append_grow mem input_data input_len d =
     rbind (iadd (db_len d) (int_of_size input_len)) (\<lambda>l.
     rbind (iadd l EXTRA_LEN) (\<lambda>l1.
     rbind (GetNewSize l1) (\<lambda>new_len.
     rbind (new_char mem (size_of_int new_len)) (\<lambda>b.
     rbind (memcpy b PRE_RESERVE_HEADER_SIZE (db_buffer d) (db_start d) (size_of_int (db_len d))) (\<lambda>b1.
     rbind (memcpy b1 (PRE_RESERVE_HEADER_SIZE + db_len d) input_data 0 input_len) (\<lambda>b2.
     rbind (iadd PRE_RESERVE_HEADER_SIZE l) (\<lambda>e.
       Inr (l, d\<lparr>db_buffer := b2, db_size := size_of_int new_len, db_len := l,
                 db_start := PRE_RESERVE_HEADER_SIZE, db_end := e\<rparr>))))))))"

definition append_compact :: "bytes \<Rightarrow> nat \<Rightarrow> data_buffer \<Rightarrow> (int \<times> data_buffer) res" where
  \<comment> \<open>moves the bytes to the front, through a second array when there are at least \<open>db_start\<close> of them\<close>
  "append_compact input_data input_len d =
     rbind (if db_start d \<le> db_len d
            then memcpy (db_buffer d) PRE_RESERVE_HEADER_SIZE (db_buffer d) (db_start d) (size_of_int (db_len d))
            else memcpy_in (db_buffer d) PRE_RESERVE_HEADER_SIZE (db_start d) (size_of_int (db_len d))) (\<lambda>b1.
     rbind (memcpy b1 (PRE_RESERVE_HEADER_SIZE + db_len d) input_data 0 input_len) (\<lambda>b2.
     rbind (iadd (db_len d) (int_of_size input_len)) (\<lambda>l.
     rbind (iadd PRE_RESERVE_HEADER_SIZE l) (\<lambda>e.
       Inr (l, d\<lparr>db_buffer := b2, db_len := l, db_start := PRE_RESERVE_HEADER_SIZE, db_end := e\<rparr>)))))"

definition append_end :: "bytes \<Rightarrow> nat \<Rightarrow> data_buffer \<Rightarrow> (int \<times> data_buffer) res" where
  "append_end input_data input_len d =
     rbind (memcpy (db_buffer d) (db_end d) input_data 0 input_len) (\<lambda>b1.
     rbind (iadd (db_len d) (int_of_size input_len)) (\<lambda>l.
     rbind (iadd (db_end d) (int_of_size input_len)) (\<lambda>e.
       Inr (l, d\<lparr>db_buffer := b1, db_len := l, db_end := e\<rparr>))))"

definition AppendData :: "(nat \<Rightarrow> u8) \<Rightarrow> bytes option \<Rightarrow> nat \<Rightarrow> data_buffer \<Rightarrow> (int \<times> data_buffer) res" where
  \<comment> \<open>the first argument after \<open>mem\<close> is the memory behind \<open>input_data\<close>, \<open>None\<close> for a null pointer\<close>
  "AppendData mem input_data input_len d =
     (case input_data of
        None \<Rightarrow> Inr (0, d)
      | Some p \<Rightarrow>
          if input_len = 0 then Inr (0, d)
          else if buffer_room d < (size_of_int (db_end d) + input_len) mod size_max then
            (if buffer_room d \<le> (size_of_int (db_len d) + input_len) mod size_max
             then append_grow mem p input_len d
             else append_compact p input_len d)
          else append_end p input_len d)"

definition ConsumeData :: "int \<Rightarrow> data_buffer \<Rightarrow> int option \<times> data_buffer" where
  \<comment> \<open>the position returned, \<open>None\<close> for a null pointer\<close>
  "ConsumeData consume_len d =
     (if db_len d < consume_len then (None, d)
      else if consume_len < 0 \<and> db_start d + consume_len < 0 then (None, d)
      else let d1 = d\<lparr>db_start := db_start d + consume_len, db_len := db_len d - consume_len\<rparr>;
               d2 = (if db_len d1 = 0 then buffer_Reset d1 else d1)
           in (Some (db_start d2), d2))"

definition DataLen :: "data_buffer \<Rightarrow> nat" where
  "DataLen d = size_of_int (db_len d)"

definition buffer_Data :: "data_buffer \<Rightarrow> bytes" where
  \<comment> \<open>what the pointer \<open>Data()\<close> may reach: the array from \<open>db_start\<close> on\<close>
  "buffer_Data d = drop (nat (db_start d)) (db_buffer d)"

definition Require :: "nat \<Rightarrow> data_buffer \<Rightarrow> bool" where
  "Require len d \<longleftrightarrow> int_of_size len \<le> db_len d"

section \<open>The bytes held, and the invariant\<close>

definition contents :: "data_buffer \<Rightarrow> bytes" where
  "contents d = take (nat (db_len d)) (drop (nat (db_start d)) (db_buffer d))"

definition buffer_ok :: "data_buffer \<Rightarrow> bool" where
  \<comment> \<open>the indices delimit a part of the array, and the recorded size is large enough not to wrap\<close>
  "buffer_ok d \<longleftrightarrow>
     0 \<le> db_start d \<and> 0 \<le> db_len d \<and> db_end d = db_start d + db_len d \<and> db_end d \<le> int (length (db_buffer d)) \<and>
     200 \<le> db_size d \<and> db_size d \<le> length (db_buffer d) \<and> db_size d < 0x80000000 \<and> db_end d < 0x80000000"

definition overlaps :: "nat \<Rightarrow> data_buffer \<Rightarrow> bool" where
  \<comment> \<open>\<open>AppendData\<close> would move the bytes onto themselves\<close>
  "overlaps n d \<longleftrightarrow>
     0 < n \<and> 0 < db_len d \<and> db_len d < db_start d \<and> db_start d < 200 + db_len d \<and> 200 < db_end d \<and>
     int (db_size d) < db_end d + int n + 200 \<and> db_len d + int n + 200 < int (db_size d)"

definition within_limit :: "nat \<Rightarrow> data_buffer \<Rightarrow> bool" where
  \<comment> \<open>the sizes stay below the range of \<open>int\<close>\<close>
  "within_limit n d \<longleftrightarrow> db_len d + int n < 0x7fffa000"

lemma length_contents: "buffer_ok d \<Longrightarrow> int (length (contents d)) = db_len d"
  by (auto simp: buffer_ok_def contents_def)

lemma DataLen_contents: "buffer_ok d \<Longrightarrow> DataLen d = length (contents d)"
  by (auto simp: buffer_ok_def contents_def DataLen_def)

lemma with_buffer:
  "contents (d\<lparr>db_buffer := b\<rparr>) = take (nat (db_len d)) (drop (nat (db_start d)) b)"
  "length b = length (db_buffer d) \<Longrightarrow> buffer_ok (d\<lparr>db_buffer := b\<rparr>) \<longleftrightarrow> buffer_ok d"
  by (simp_all add: contents_def buffer_ok_def)

lemma buffer_room_ok: "buffer_ok d \<Longrightarrow> buffer_room d = db_size d - 200"
  by (auto simp: buffer_ok_def buffer_room_def mod_if)

lemma GetNewSize_large:
  "l < 0x7fffd800 \<Longrightarrow> \<exists>m. GetNewSize l = Inr m \<and> l \<le> m \<and> 51200 \<le> m \<and> m < 0x80000000"
  by (auto simp: GetNewSize_def iadd_def)

lemma take_poke_append:
  "i + length v + length w \<le> length b \<Longrightarrow>
     take (length v + length w) (drop i (poke (poke b i v) (i + length v) w)) = v @ w"
  by (simp add: poke_def)

lemma take_poke_end:
  "i + l + length w \<le> length b \<Longrightarrow> take (l + length w) (drop i (poke b (i + l) w)) = take l (drop i b) @ w"
proof -
  assume le: "i + l + length w \<le> length b"
  then have "w = []" if "length b - i \<le> l" using that by (cases w) auto
  with le show ?thesis by (cases "length b - i \<le> l") (auto simp: poke_def min_def drop_take)
qed

lemma append_grow_ok:
  assumes ok: "buffer_ok d" and n: "n \<le> length p" and fit: "within_limit n d"
  shows "\<exists>d'. append_grow mem p n d = Inr (db_len d + int n, d') \<and> buffer_ok d' \<and>
              contents d' = contents d @ take n p \<and> db_start d' = 200"
proof -
  let ?l = "db_len d + int n"
  have l: "0 \<le> db_len d" "?l + 10240 < 0x7fffd800" "0 \<le> db_start d" "db_start d + db_len d \<le> int (length (db_buffer d))"
    using ok fit by (auto simp: buffer_ok_def within_limit_def)
  obtain m where m: "GetNewSize (?l + 10240) = Inr m" "?l + 10240 \<le> m" "51200 \<le> m" "m < 0x80000000"
    using GetNewSize_large [OF l(2)] by blast
  define v w where "v = contents d" and "w = take n p"
  let ?b = "map mem [0..<nat m]"
  let ?b2 = "poke (poke ?b 200 v) (nat (200 + db_len d)) w"
  let ?d = "d\<lparr>db_buffer := ?b2, db_size := nat m, db_len := ?l, db_start := 200, db_end := 200 + ?l\<rparr>"
  have len: "length v = nat (db_len d)" "length w = n" "nat (200 + db_len d) = 200 + length v"
    using length_contents [OF ok] l n by (auto simp: v_def w_def)
  have sz: "200 + length v + length w \<le> nat m" using m len l by linarith
  have "take (nat (db_len d)) (drop (nat (db_start d)) (db_buffer d)) = v"
    by (simp add: contents_def v_def)
  then have e: "append_grow mem p n d = Inr (?l, ?d)"
    using l m n sz len by (simp add: append_grow_def w_def)
  have "nat ?l = length v + length w" using len l by linarith
  then have "contents ?d = v @ w"
    using take_poke_append [of 200 v w ?b] sz len(3) by (simp add: contents_def)
  then show ?thesis
    unfolding e using l m sz len by (auto simp: buffer_ok_def v_def w_def)
qed

lemma append_end_ok:
  assumes ok: "buffer_ok d" and n: "n \<le> length p" and fit: "within_limit n d"
    and buffer_room: "db_end d + int n + 200 \<le> int (db_size d)"
  shows "\<exists>d'. append_end p n d = Inr (db_len d + int n, d') \<and> buffer_ok d' \<and>
              contents d' = contents d @ take n p \<and> db_start d' = db_start d"
proof -
  define w where "w = take n p"
  let ?d = "d\<lparr>db_buffer := poke (db_buffer d) (nat (db_end d)) w, db_len := db_len d + int n, db_end := db_end d + int n\<rparr>"
  have l: "0 \<le> db_len d" "0 \<le> db_start d" "db_end d = db_start d + db_len d" "nat (db_end d) + n \<le> length (db_buffer d)"
    "n < 0x80000000" "db_end d + int n < 0x80000000" "db_len d + int n < 0x80000000" "length w = n"
    using ok fit buffer_room n by (auto simp: buffer_ok_def within_limit_def w_def)
  have e: "append_end p n d = Inr (db_len d + int n, ?d)"
    using l n by (simp add: append_end_def w_def)
  have "nat (db_len d + int n) = nat (db_len d) + length w" "nat (db_end d) = nat (db_start d) + nat (db_len d)"
    using l by linarith+
  then have "contents ?d = contents d @ w"
    using take_poke_end [of "nat (db_start d)" "nat (db_len d)" w "db_buffer d"] l by (simp add: contents_def)
  then show ?thesis
    unfolding e using ok l buffer_room by (auto simp: buffer_ok_def w_def)
qed

lemma append_compact_ok:
  assumes ok: "buffer_ok d" and n: "0 < n" "n \<le> length p" and fit: "within_limit n d"
    and full: "int (db_size d) < db_end d + int n + 200" and buffer_room: "db_len d + int n + 200 < int (db_size d)"
  shows "if overlaps n d then append_compact p n d = Inl Overlap
         else \<exists>d'. append_compact p n d = Inr (db_len d + int n, d') \<and> buffer_ok d' \<and>
              contents d' = contents d @ take n p \<and> db_start d' = 200"
proof -
  let ?l = "db_len d + int n" and ?b = "db_buffer d"
  define v w where "v = contents d" and "w = take n p"
  let ?b2 = "poke (poke ?b 200 v) (nat (200 + db_len d)) w"
  let ?d = "d\<lparr>db_buffer := ?b2, db_len := ?l, db_start := 200, db_end := 200 + ?l\<rparr>"
  have l: "0 \<le> db_len d" "0 \<le> db_start d" "db_end d = db_start d + db_len d" "db_end d \<le> int (length ?b)"
    "?l + 200 < int (length ?b)" "?l + 200 < 0x80000000"
    using ok buffer_room by (auto simp: buffer_ok_def)
  have len: "length v = nat (db_len d)" "length w = n" "nat (200 + db_len d) = 200 + length v"
    using length_contents [OF ok] l n by (auto simp: v_def w_def)
  have sz: "200 + length v + length w \<le> length ?b" using len l by linarith
  have v: "take (nat (db_len d)) (drop (nat (db_start d)) ?b) = v"
    by (simp add: contents_def v_def)
  have move: "(if db_start d \<le> db_len d then memcpy ?b 200 ?b (db_start d) (size_of_int (db_len d))
               else memcpy_in ?b 200 (db_start d) (size_of_int (db_len d)))
      = (if overlaps n d then Inl Overlap else Inr (poke ?b 200 v))"
    using l n full buffer_room sz len by (auto simp: memcpy_in_def overlaps_def v)
  show ?thesis
  proof (cases "overlaps n d")
    case True
    then show ?thesis by (simp add: append_compact_def move)
  next
    case False
    have e: "append_compact p n d = Inr (?l, ?d)"
      using l n sz len False by (simp add: append_compact_def move w_def)
    have "nat ?l = length v + length w" using len l by linarith
    then have "contents ?d = v @ w"
      using take_poke_append [of 200 v w ?b] sz len(3) by (simp add: contents_def)
    then show ?thesis
      unfolding e using l ok sz len False by (auto simp: buffer_ok_def v_def w_def)
  qed
qed

lemma AppendData_outcome:
  assumes ok: "buffer_ok d" and n: "n \<le> length p" and fit: "within_limit n d"
  shows "if overlaps n d then AppendData mem (Some p) n d = Inl Overlap
         else \<exists>r d'. AppendData mem (Some p) n d = Inr (r, d') \<and> buffer_ok d' \<and> contents d' = contents d @ take n p \<and>
              (db_start d' = 200 \<or> db_start d' = db_start d)"
proof (cases "n = 0")
  case True
  then show ?thesis using ok by (simp add: AppendData_def overlaps_def)
next
  case False
  have l: "0 \<le> db_len d" "0 \<le> db_end d" "db_end d < 0x80000000" "n < 0x80000000" "200 \<le> db_size d"
    "db_len d + int n < 0x80000000"
    using ok fit by (auto simp: buffer_ok_def within_limit_def)
  let ?A = "int (db_size d) < db_end d + int n + 200" and ?B = "int (db_size d) \<le> db_len d + int n + 200"
  have cond: "buffer_room d < (size_of_int (db_end d) + n) mod 0x10000000000000000 \<longleftrightarrow> ?A"
    "buffer_room d \<le> (size_of_int (db_len d) + n) mod 0x10000000000000000 \<longleftrightarrow> ?B"
    using l ok by (auto simp: buffer_room_ok)
  have eq: "AppendData mem (Some p) n d =
      (if ?A then if ?B then append_grow mem p n d else append_compact p n d else append_end p n d)"
    using False by (simp add: AppendData_def cond)
  consider "?A" "?B" | "?A" "\<not> ?B" | "\<not> ?A" by blast
  then show ?thesis
  proof cases
    case 1
    then show ?thesis using append_grow_ok [OF ok n fit, of mem] by (auto simp: eq overlaps_def)
  next
    case 2
    then show ?thesis using append_compact_ok [OF ok _ n fit] False by (auto simp: eq split: if_splits)
  next
    case 3
    then show ?thesis using append_end_ok [OF ok n fit] by (auto simp: eq overlaps_def)
  qed
qed

text \<open>
  As long as what is still to come fits behind what is there, bytes are only added at the end: nothing is ever moved.
\<close>

definition roomy :: "nat \<Rightarrow> data_buffer \<Rightarrow> bool" where
  \<comment> \<open>\<open>n\<close> more bytes fit behind the end, also after a \<open>Reset\<close>\<close>
  "roomy n d \<longleftrightarrow> max 200 (db_end d) + int n + 200 \<le> int (db_size d)"

lemma roomy_no_overlap: "roomy (n + m) d \<Longrightarrow> \<not> overlaps n d"
  by (auto simp: roomy_def overlaps_def)

lemma roomy_shrink: "roomy n d \<Longrightarrow> db_size d' = db_size d \<Longrightarrow> db_end d' \<le> max 200 (db_end d) \<Longrightarrow> roomy n d'"
  by (auto simp: roomy_def)

lemma AppendData_roomy:
  assumes ok: "buffer_ok d" and n: "n \<le> length p" and room: "roomy (n + m) d"
    and app: "AppendData mem (Some p) n d = Inr (r, d')"
  shows "roomy m d'"
proof (cases "n = 0")
  case True
  then show ?thesis using app room by (simp add: AppendData_def)
next
  case False
  have l: "0 \<le> db_end d" "db_end d < 0x80000000" "n < 0x80000000" "db_end d + int n + 200 \<le> int (db_size d)"
    using ok room by (auto simp: buffer_ok_def roomy_def)
  then have "\<not> buffer_room d < (size_of_int (db_end d) + n) mod 0x10000000000000000"
    using ok by (auto simp: buffer_room_ok)
  then have "append_end p n d = Inr (r, d')" using app False by (simp add: AppendData_def)
  then have "db_size d' = db_size d" "db_end d' = db_end d + int n"
    using l by (auto simp: append_end_def iadd_def split: if_splits)
  then show ?thesis using room by (auto simp: roomy_def)
qed

lemma ConsumeData_end: "db_size (snd (ConsumeData c d)) = db_size d \<and> db_end (snd (ConsumeData c d)) \<le> max 200 (db_end d)"
  by (simp add: ConsumeData_def buffer_Reset_def Let_def)

lemma ConsumeData_ok:
  assumes ok: "buffer_ok d" and c: "0 \<le> c" "c \<le> db_len d"
  shows "\<exists>q d'. ConsumeData c d = (Some q, d') \<and> buffer_ok d' \<and> contents d' = drop (nat c) (contents d) \<and>
           (db_len d' = 0 \<longrightarrow> db_start d' = 200) \<and> db_size d' = db_size d"
proof -
  have "drop (nat c) (contents d) = take (nat (db_len d - c)) (drop (nat (db_start d + c)) (db_buffer d))"
    using ok c by (simp add: contents_def buffer_ok_def drop_take nat_diff_distrib nat_add_distrib add.commute)
  then show ?thesis using ok c
    by (auto simp: ConsumeData_def Let_def buffer_Reset_def buffer_ok_def contents_def)
qed

lemma buffer_ok_Reset: "buffer_ok d \<Longrightarrow> buffer_ok (buffer_Reset d)"
  by (auto simp: buffer_ok_def buffer_Reset_def)

lemma contents_Reset [simp]: "contents (buffer_Reset d) = []"
  by (simp add: contents_def buffer_Reset_def)

lemma DataBuffer_new_ok:
  assumes "200 \<le> n" "n < 0x80000000"
  shows "\<exists>d. DataBuffer_new mem n = Inr d \<and> buffer_ok d \<and> contents d = [] \<and> db_size d = n \<and> db_start d = 200"
  using assms by (auto simp: DataBuffer_new_def buffer_ok_def contents_def)

section \<open>A queue of bytes\<close>

text \<open>
  What the readers use the class for, as an interface: bytes are added at the end and taken from the front.
  \<open>queue_run\<close> performs a sequence of operations, \<open>queue_spec\<close> is its meaning on the bytes held.
\<close>

datatype queue_op = QAppend bytes | QConsume nat | QReset

fun queue_run :: "(bytes \<Rightarrow> 'q \<Rightarrow> 'q res) \<Rightarrow> (nat \<Rightarrow> 'q \<Rightarrow> 'q) \<Rightarrow> ('q \<Rightarrow> 'q) \<Rightarrow> queue_op list \<Rightarrow> 'q \<Rightarrow> 'q res" where
  "queue_run app con rst [] q = Inr q"
| "queue_run app con rst (QAppend bs # ops) q = rbind (app bs q) (queue_run app con rst ops)"
| "queue_run app con rst (QConsume n # ops) q = queue_run app con rst ops (con n q)"
| "queue_run app con rst (QReset # ops) q = queue_run app con rst ops (rst q)"

fun queue_spec :: "queue_op list \<Rightarrow> bytes \<Rightarrow> bytes" where
  "queue_spec [] held = held"
| "queue_spec (QAppend bs # ops) held = queue_spec ops (held @ bs)"
| "queue_spec (QConsume n # ops) held = queue_spec ops (if n \<le> length held then drop n held else held)"
| "queue_spec (QReset # ops) held = queue_spec ops []"

fun appended :: "queue_op list \<Rightarrow> nat" where
  "appended [] = 0"
| "appended (QAppend bs # ops) = length bs + appended ops"
| "appended (QConsume n # ops) = appended ops"
| "appended (QReset # ops) = appended ops"

locale byte_queue =
  fixes ok :: "'q \<Rightarrow> bool"
    and held :: "'q \<Rightarrow> bytes"
    and app :: "bytes \<Rightarrow> 'q \<Rightarrow> 'q res"
    and con :: "nat \<Rightarrow> 'q \<Rightarrow> 'q"
    and rst :: "'q \<Rightarrow> 'q"
    and blocked :: "nat \<Rightarrow> 'q \<Rightarrow> bool"
    and limit :: nat
  assumes app_law: "ok q \<Longrightarrow> length (held q) + length bs < limit \<Longrightarrow>
      if blocked (length bs) q then app bs q = Inl Overlap
      else \<exists>q'. app bs q = Inr q' \<and> ok q' \<and> held q' = held q @ bs"
    and con_law: "ok q \<Longrightarrow> ok (con n q) \<and> held (con n q) = (if n \<le> length (held q) then drop n (held q) else held q)"
    and rst_law: "ok q \<Longrightarrow> ok (rst q) \<and> held (rst q) = []"
begin

lemma app_cases:
  assumes "ok q" "length (held q) + length bs < limit"
  obtains "blocked (length bs) q" "app bs q = Inl Overlap"
  | q' where "\<not> blocked (length bs) q" "app bs q = Inr q'" "ok q'" "held q' = held q @ bs"
  using app_law [OF assms] by (auto split: if_splits)

lemma run_refines:
  "ok q \<Longrightarrow> length (held q) + appended ops < limit \<Longrightarrow>
     queue_run app con rst ops q = Inl Overlap \<or>
     (\<exists>q'. queue_run app con rst ops q = Inr q' \<and> ok q' \<and> held q' = queue_spec ops (held q))"
proof (induction ops arbitrary: q)
  case Nil
  then show ?case by simp
next
  case (Cons a ops)
  show ?case
  proof (cases a)
    case (QAppend bs)
    have "length (held q) + length bs < limit" using Cons.prems QAppend by simp
    with Cons.prems(1) show ?thesis
    proof (cases rule: app_cases)
      case 1
      then show ?thesis by (simp add: QAppend)
    next
      case (2 q')
      then show ?thesis using Cons.IH [of q'] Cons.prems QAppend by simp
    qed
  next
    case (QConsume n)
    then show ?thesis using Cons.IH [of "con n q"] Cons.prems con_law [of q n] by (auto split: if_splits)
  next
    case QReset
    then show ?thesis using Cons.IH [of "rst q"] Cons.prems rst_law [of q] by simp
  qed
qed

end

definition buffer_append :: "(nat \<Rightarrow> u8) \<Rightarrow> bytes \<Rightarrow> data_buffer \<Rightarrow> data_buffer res" where
  "buffer_append mem bs d = rbind (AppendData mem (Some bs) (length bs) d) (\<lambda>(_, d'). Inr d')"

definition buffer_consume :: "nat \<Rightarrow> data_buffer \<Rightarrow> data_buffer" where
  "buffer_consume n d = snd (ConsumeData (int n) d)"

interpretation db: byte_queue buffer_ok contents "buffer_append mem" buffer_consume buffer_Reset overlaps "0x7fffa000"
proof
  fix d :: data_buffer and bs :: bytes and n :: nat
  assume ok: "buffer_ok d"
  show "buffer_ok (buffer_Reset d) \<and> contents (buffer_Reset d) = []"
    using ok by (simp add: buffer_ok_Reset)
  have l: "db_len d = int (length (contents d))" using length_contents [OF ok] by simp
  show "buffer_ok (buffer_consume n d) \<and>
      contents (buffer_consume n d) = (if n \<le> length (contents d) then drop n (contents d) else contents d)"
  proof (cases "n \<le> length (contents d)")
    case True
    then show ?thesis using ConsumeData_ok [OF ok, of "int n"] l by (auto simp: buffer_consume_def)
  next
    case False
    then show ?thesis using ok l by (simp add: buffer_consume_def ConsumeData_def)
  qed
  assume "length (contents d) + length bs < 0x7fffa000"
  then have "within_limit (length bs) d" by (simp add: within_limit_def l)
  from AppendData_outcome [OF ok order.refl this, of mem]
  show "if overlaps (length bs) d then buffer_append mem bs d = Inl Overlap
      else \<exists>d'. buffer_append mem bs d = Inr d' \<and> buffer_ok d' \<and> contents d' = contents d @ bs"
    by (auto simp: buffer_append_def split: if_splits)
qed

section \<open>Limits of the class\<close>

lemma append_once:
  \<comment> \<open>a buffer made for exactly the bytes of one read, however few, takes them\<close>
  assumes n: "n \<le> length p" and fit: "n < 0x7fffa000"
  shows "\<exists>r d. rbind (DataBuffer_new mem n) (AppendData mem (Some p) n) = Inr (r, d) \<and> contents d = take n p \<and>
           0 \<le> db_start d \<and> db_len d = int n \<and> db_start d + db_len d \<le> int (length (db_buffer d))"
proof (cases "200 \<le> n")
  case True
  then obtain d where d: "DataBuffer_new mem n = Inr d" "buffer_ok d" "contents d = []" "db_start d = 200"
    using DataBuffer_new_ok [of n mem] fit by auto
  have l: "db_len d = 0" using length_contents [OF d(2)] d(3) by simp
  have "\<not> overlaps n d" using l by (simp add: overlaps_def)
  then obtain r d' where "AppendData mem (Some p) n d = Inr (r, d')" "buffer_ok d'" "contents d' = take n p"
    using AppendData_outcome [OF d(2) n, of mem] fit l d(3) by (auto simp: within_limit_def)
  then show ?thesis using d(1) n length_contents [of d'] by (auto simp: buffer_ok_def)
next
  case False
  have "(n + 0x10000000000000000 - 200) mod 0x10000000000000000 = n + 0x10000000000000000 - 200"
    using False by simp
  then show ?thesis
    using False n by (auto simp: DataBuffer_new_def AppendData_def buffer_room_def append_end_def contents_def poke_def)
qed

lemma append_twice_overruns:
  \<comment> \<open>below the reserved size the test for room wraps around, and a second append writes behind the array\<close>
  "rbind (DataBuffer_new mem 10) (queue_run (buffer_append mem) buffer_consume buffer_Reset [QAppend (replicate 10 1), QAppend (replicate 10 2)])
     = Inl OutOfBounds"
proof -
  have "DataBuffer_new mem 10 = Inr \<lparr>db_sent_flag = False, db_dst_ip = [], db_dst_port = 0,
      db_buffer = poke (map mem [0..<210]) 0 (replicate 10 0), db_size = 10, db_len = 0, db_start = 200, db_end = 200\<rparr>"
    by (simp add: DataBuffer_new_def)
  then show ?thesis
    by (simp add: buffer_append_def AppendData_def buffer_room_def append_end_def memcpy_def)
qed

lemma copy_loses_data:
  \<comment> \<open>the copy constructor copies the front of the array, which the data does not start at: up to 200 bytes of data are
    replaced by what the new array happens to hold\<close>
  assumes ok: "buffer_ok d" and d: "db_start d = 200" "db_len d \<le> 200" "db_len d \<le> int (db_size d)"
  shows "\<exists>d'. DataBuffer_copy mem d = Inr d' \<and> db_len d' = db_len d \<and>
           contents d' = map mem [200..<200 + nat (db_len d)]"
proof -
  let ?n = "nat (db_len d)" and ?b = "map mem [0..<db_size d + 200]"
  have l: "0 \<le> db_len d" "?n \<le> 200" "?n \<le> db_size d" "?n \<le> length (db_buffer d)" "db_size d < 0x80000000"
    using ok d by (auto simp: buffer_ok_def)
  have "drop 200 (poke ?b 0 (take ?n (db_buffer d))) = map mem [200..<db_size d + 200]"
    using l by (simp add: drop_map)
  then show ?thesis using l d by (simp add: DataBuffer_copy_def contents_def take_map)
qed

section \<open>Properties\<close>

text \<open>
  C13. The buffer is a queue of bytes: started with at least the reserved size, any sequence of appending, consuming and
  resetting leaves exactly the bytes that the sequence leaves in a queue, no access is outside the array and nothing
  overflows while less than \<open>2^31 - 24576\<close> bytes are appended; the one thing that can go wrong is that \<open>AppendData\<close>
  copies the bytes onto themselves.
\<close>

theorem buffer_refines:
  "200 \<le> sz \<Longrightarrow> sz < 0x80000000 \<Longrightarrow> appended ops < 0x7fffa000 \<Longrightarrow>
   let run = rbind (DataBuffer_new mem sz)
                   (queue_run (buffer_append mem) buffer_consume buffer_Reset ops)
   in run = Inl Overlap \<or> (\<exists>d. run = Inr d \<and> buffer_ok d \<and> contents d = queue_spec ops [])"
proof -
  assume s: "200 \<le> sz" "sz < 0x80000000" and a: "appended ops < 0x7fffa000"
  obtain d where "DataBuffer_new mem sz = Inr d" "buffer_ok d" "contents d = []"
    using DataBuffer_new_ok [OF s] by blast
  then show ?thesis using db.run_refines [of d ops mem] a by (simp add: Let_def)
qed

theorem buffer_refines_witness:
  "let run = rbind (DataBuffer_new (\<lambda>_. 0xcd) 10240)
                   (queue_run (buffer_append (\<lambda>_. 0xcd)) buffer_consume buffer_Reset [QAppend [1, 2, 3], QConsume 2, QAppend [4]])
   in run = Inl Overlap \<or> (\<exists>d. run = Inr d \<and> buffer_ok d \<and> contents d = [3, 4])"
  using buffer_refines [of 10240 "[QAppend [1, 2, 3], QConsume 2, QAppend [4]]" "\<lambda>_. 0xcd"] by simp

end
