(* ===== verification/Websocket_Frame.thy ===== *)
theory Websocket_Frame
  imports Data_Buffer Byte_Stream
begin

text \<open>
  Web socket framing: \<open>WebSocketFrame\<close> of \<open>net/http/websocket/websocket_frame.{hpp,cpp}\<close>, the incremental parser of frames
  that arrive in pieces, and the frame writer shared by \<open>WebSocketSession::SendWsFrame\<close> and
  \<open>WebSocketClient::SendWsFrame\<close>. The payload length of a frame has 64 bits and is compared as a signed number; the
  parser unmasks the payload inside the receive buffer.
\<close>

section \<open>Masking\<close>

definition xor_key :: "bytes \<Rightarrow> nat \<Rightarrow> nat \<Rightarrow> bytes \<Rightarrow> bytes res" where
  \<comment> \<open>\<open>p[i] ^= masking_key[j]\<close>\<close>
  "xor_key key j i p = (if i < length p then Inr (p[i := p ! i XOR key ! j]) else Inl OutOfBounds)"

function mask_blocks :: "bytes \<Rightarrow> nat \<Rightarrow> nat \<Rightarrow> bytes \<Rightarrow> bytes res" where
  "mask_blocks key i temp_len p =
     (if i < temp_len
      then rbind (xor_key key 0 i p) (\<lambda>p. rbind (xor_key key 1 (i + 1) p) (\<lambda>p.
           rbind (xor_key key 2 (i + 2) p) (\<lambda>p. rbind (xor_key key 3 (i + 3) p) (\<lambda>p.
             mask_blocks key (i + 4) temp_len p))))
      else Inr p)"
  by pat_completeness auto
termination by (relation "measure (\<lambda>(key, i, n, p). n - i)") auto

function mask_rest :: "bytes \<Rightarrow> nat \<Rightarrow> nat \<Rightarrow> bytes \<Rightarrow> bytes res" where
  "mask_rest key i frame_length p =
     (if i < frame_length
      then rbind (xor_key key (i mod 4) i p) (\<lambda>p. mask_rest key (i + 1) frame_length p)
      else Inr p)"
  by pat_completeness auto
termination by (relation "measure (\<lambda>(key, i, n, p). n - i)") auto

declare mask_blocks.simps [simp del] mask_rest.simps [simp del]

definition mask_payload :: "bytes \<Rightarrow> nat \<Rightarrow> bytes \<Rightarrow> bytes res" where
  \<comment> \<open>four bytes at a time, then the rest\<close>
  "mask_payload key frame_length p =
     (let temp_len = frame_length - frame_length mod 4 in
      rbind (mask_blocks key 0 temp_len p) (mask_rest key temp_len frame_length))"

section \<open>The parser\<close>

record ws_frame =
  wf_buffer :: data_buffer
  wf_payload_start :: int
  wf_payload_len :: int
  wf_opcode :: u8
  wf_mask_enable :: bool
  wf_fin :: bool
  wf_header_ready :: bool
  wf_masking_key :: bytes

definition WebSocketFrame_new :: "(nat \<Rightarrow> u8) \<Rightarrow> ws_frame res" where
  "WebSocketFrame_new mem = rbind (DataBuffer_new mem 10240) (\<lambda>d.
     Inr \<lparr>wf_buffer = d, wf_payload_start = 0, wf_payload_len = 0, wf_opcode = 0, wf_mask_enable = False, wf_fin = False,
          wf_header_ready = False, wf_masking_key = map mem [0..<4]\<rparr>)"

definition ladd :: "int \<Rightarrow> int \<Rightarrow> int res" where
  \<comment> \<open>addition of two \<open>int64_t\<close>\<close>
  "ladd a b = (if - 0x8000000000000000 \<le> a + b \<and> a + b < 0x8000000000000000 then Inr (a + b) else Inl Overflow)"

definition parse_length :: "bytes \<Rightarrow> nat \<Rightarrow> ws_frame \<Rightarrow> (bool \<times> ws_frame) res" where
  \<comment> \<open>the extended lengths; \<open>False\<close> when they have not arrived\<close>
  "parse_length p n f =
     (if wf_payload_len f = 127 then
        if n < 10 then Inr (False, f)
        else rbind (rd p 2 8) (\<lambda>e. Inr (True, f\<lparr>wf_payload_len := sint (of_be e :: u64), wf_payload_start := wf_payload_start f + 8\<rparr>))
      else if wf_payload_len f = 126 then
        if n < 4 then Inr (False, f)
        else rbind (rd p 2 2) (\<lambda>e. Inr (True, f\<lparr>wf_payload_len := uint (of_be e :: u16), wf_payload_start := wf_payload_start f + 2\<rparr>))
      else Inr (True, f))"

definition parse_mask :: "bytes \<Rightarrow> nat \<Rightarrow> ws_frame \<Rightarrow> (bool \<times> ws_frame) res" where
  "parse_mask p n f =
     (if wf_mask_enable f then
        if int_of_size n < wf_payload_start f + 4 then Inr (False, f)
        else rbind (rd p (nat (wf_payload_start f)) 4) (\<lambda>k.
          Inr (True, f\<lparr>wf_payload_start := wf_payload_start f + 4, wf_masking_key := k\<rparr>))
      else Inr (True, f))"

definition parse_header :: "ws_frame \<Rightarrow> (bool \<times> ws_frame) res" where
  \<comment> \<open>the part of \<open>Parse\<close> that runs until \<open>header_ready_\<close> is set\<close>
  "parse_header f =
     (let p = buffer_Data (wf_buffer f); n = DataLen (wf_buffer f) in
      rbind (rd8 p 0) (\<lambda>b0. rbind (rd8 p 1) (\<lambda>b1.
      rbind (parse_length p n (f\<lparr>wf_payload_len := uint (get_bits 0 7 b1), wf_payload_start := 2, wf_fin := bit b0 7,
                                 wf_opcode := get_bits 0 4 b0\<rparr>)) (\<lambda>(ok, f1).
      if \<not> ok then Inr (False, f1)
      else rbind (parse_mask p n (f1\<lparr>wf_mask_enable := bit b1 7\<rparr>)) (\<lambda>(ok, f2).
      if \<not> ok then Inr (False, f2)
      else Inr (True, f2\<lparr>wf_header_ready := True\<rparr>))))))"

definition unmask :: "ws_frame \<Rightarrow> ws_frame res" where
  \<comment> \<open>in the receive buffer, from the payload on\<close>
  "unmask f =
     (let d = wf_buffer f; i = nat (db_start d + wf_payload_start f) in
      rbind (mask_payload (wf_masking_key f) (size_of_int (wf_payload_len f)) (drop i (db_buffer d))) (\<lambda>p.
        Inr (f\<lparr>wf_buffer := d\<lparr>db_buffer := take i (db_buffer d) @ p\<rparr>\<rparr>)))"

definition frame_Parse :: "(nat \<Rightarrow> u8) \<Rightarrow> bytes option \<Rightarrow> nat \<Rightarrow> ws_frame \<Rightarrow> (int \<times> ws_frame) res" where
  "frame_Parse mem data len f =
     rbind (if data \<noteq> None \<and> 0 < len
            then rbind (AppendData mem data len (wf_buffer f)) (\<lambda>(_, d). Inr (f\<lparr>wf_buffer := d\<rparr>))
            else Inr f) (\<lambda>f1.
     if DataLen (wf_buffer f1) < 2 then Inr (1, f1)
     else rbind (if wf_header_ready f1 then Inr (True, f1) else parse_header f1) (\<lambda>(ready, f2).
     if \<not> ready then Inr (1, f2)
     else rbind (ladd (wf_payload_start f2) (wf_payload_len f2)) (\<lambda>tot.
     if int_of_size (DataLen (wf_buffer f2)) < tot then Inr (1, f2)
     else if wf_mask_enable f2 then rbind (unmask f2) (\<lambda>f3. Inr (0, f3))
     else Inr (0, f2))))"

definition GetPayloadData :: "ws_frame \<Rightarrow> bytes" where
  "GetPayloadData f = drop (nat (wf_payload_start f)) (buffer_Data (wf_buffer f))"

definition PayloadIsReady :: "ws_frame \<Rightarrow> bool" where
  "PayloadIsReady f \<longleftrightarrow>
     signed_take_bit 31 (wf_payload_len f) \<le> int_of_size (DataLen (wf_buffer f)) - wf_payload_start f"

definition frame_Consume :: "nat \<Rightarrow> ws_frame \<Rightarrow> ws_frame" where
  "frame_Consume len f = f\<lparr>wf_buffer := snd (ConsumeData (int_of_size len) (wf_buffer f))\<rparr>"

definition frame_Reset :: "ws_frame \<Rightarrow> ws_frame" where
  "frame_Reset f = f\<lparr>wf_payload_start := 0, wf_payload_len := 0, wf_header_ready := False\<rparr>"

section \<open>What the parser leaves alone\<close>

lemma parse_header_buffer: "parse_header f = Inr (b, f') \<Longrightarrow> wf_buffer f' = wf_buffer f"
  by (auto simp: parse_header_def parse_length_def parse_mask_def Let_def split: if_splits)

lemma frame_Parse_end:
  assumes "frame_Parse mem None 0 f = Inr (ret, f')"
  shows "db_size (wf_buffer f') = db_size (wf_buffer f) \<and> db_end (wf_buffer f') = db_end (wf_buffer f)"
  using assms by (auto simp: frame_Parse_def unmask_def Let_def split: if_splits dest!: parse_header_buffer)

lemma frame_Consume_end:
  "db_size (wf_buffer (frame_Reset (frame_Consume k f))) = db_size (wf_buffer f) \<and>
   db_end (wf_buffer (frame_Reset (frame_Consume k f))) \<le> max 200 (db_end (wf_buffer f))"
  using ConsumeData_end by (simp add: frame_Reset_def frame_Consume_def)

section \<open>The writer\<close>

definition frame_header :: "u8 \<Rightarrow> nat \<Rightarrow> bool \<Rightarrow> bytes" where
  \<comment> \<open>\<open>header_start[0 .. header_len)\<close> for a payload of \<open>len\<close> bytes\<close>
  "frame_header op_code len masked =
     (let b0 = set_bits 0 4 op_code (set_bits 7 1 1 0);
          l = (of_nat len :: u64);
          b1 = (\<lambda>v. set_bits 7 1 (if masked then 1 else 0) (set_bits 0 7 v 0)) in
      if 126 \<le> len then
        if 0xFFFF < len then [b0, b1 127, byte_of 7 l, byte_of 6 l, byte_of 5 l, byte_of 4 l, byte_of 3 l, byte_of 2 l, byte_of 1 l, byte_of 0 l]
        else [b0, b1 126, byte_of 1 l, byte_of 0 l]
      else [b0, b1 (of_nat len)])"

definition frame_writes :: "bool \<Rightarrow> bytes \<Rightarrow> u8 \<Rightarrow> bytes \<Rightarrow> bytes list res" where
  \<comment> \<open>the buffers handed to the socket: header, masking key and payload\<close>
  "frame_writes masked key op_code data =
     rbind (if masked then mask_payload key (length data) data else Inr data) (\<lambda>p.
       Inr ([frame_header op_code (length data) masked] @ (if masked then [key] else []) @ [p]))"

section \<open>Masking is an involution\<close>

definition mask_bytes :: "bytes \<Rightarrow> bytes \<Rightarrow> bytes" where
  "mask_bytes key p = map (\<lambda>i. p ! i XOR key ! (i mod 4)) [0..<length p]"

definition mask_range :: "bytes \<Rightarrow> nat \<Rightarrow> nat \<Rightarrow> bytes \<Rightarrow> bytes" where
  \<comment> \<open>the positions from \<open>i\<close> up to \<open>n\<close> masked\<close>
  "mask_range key i n p = map (\<lambda>k. if i \<le> k \<and> k < n then p ! k XOR key ! (k mod 4) else p ! k) [0..<length p]"

lemma length_mask_bytes [simp]: "length (mask_bytes key p) = length p"
  by (simp add: mask_bytes_def)

lemma nth_mask_bytes [simp]: "i < length p \<Longrightarrow> mask_bytes key p ! i = p ! i XOR key ! (i mod 4)"
  by (simp add: mask_bytes_def)

lemma mask_bytes_twice [simp]: "mask_bytes key (mask_bytes key p) = p"
  by (rule nth_equalityI) (simp_all add: xor.assoc)

lemma length_mask_range [simp]: "length (mask_range key i n p) = length p"
  by (simp add: mask_range_def)

lemma mask_range_id [simp]: "n \<le> i \<Longrightarrow> mask_range key i n p = p"
  by (rule nth_equalityI) (auto simp: mask_range_def)

lemma mask_range_step:
  "i < n \<Longrightarrow> i < length p \<Longrightarrow> mask_range key i n p = mask_range key (i + 1) n (p[i := p ! i XOR key ! (i mod 4)])"
  by (rule nth_equalityI) (auto simp: mask_range_def nth_list_update)

lemma mask_range_join: "i \<le> m \<Longrightarrow> m \<le> n \<Longrightarrow> mask_range key m n (mask_range key i m p) = mask_range key i n p"
  by (rule nth_equalityI) (auto simp: mask_range_def)

lemma mask_range_all: "n \<le> length p \<Longrightarrow> mask_range key 0 n p = mask_bytes key (take n p) @ drop n p"
  by (rule nth_equalityI) (auto simp: mask_range_def nth_append)

lemma mask_rest_range: "n \<le> length p \<Longrightarrow> mask_rest key i n p = Inr (mask_range key i n p)"
proof (induction key i n p rule: mask_rest.induct)
  case (1 key i n p)
  show ?case
  proof (cases "i < n")
    case True
    with 1 show ?thesis by (subst mask_rest.simps) (simp add: xor_key_def mask_range_step [of i])
  next
    case False
    then show ?thesis by (subst mask_rest.simps) simp
  qed
qed

lemma mask_rest_out: "i < n \<Longrightarrow> length p < n \<Longrightarrow> mask_rest key i n p = Inl OutOfBounds"
proof (induction key i n p rule: mask_rest.induct)
  case (1 key i n p)
  then show ?case by (subst mask_rest.simps) (cases "i < length p", auto simp: xor_key_def)
qed

lemma mask_blocks_range:
  "4 dvd i \<Longrightarrow> 4 dvd n \<Longrightarrow> n \<le> length p \<Longrightarrow> mask_blocks key i n p = Inr (mask_range key i n p)"
proof (induction key i n p rule: mask_blocks.induct)
  case (1 key i n p)
  show ?case
  proof (cases "i < n")
    case True
    obtain a b where ab: "i = 4 * a" "n = 4 * b" using 1(2,3) by (auto elim!: dvdE)
    with True have m: "i + 4 \<le> n" "i mod 4 = 0" "(i + 1) mod 4 = 1" "(i + 2) mod 4 = 2" "(i + 3) mod 4 = 3"
      by auto presburger+
    have "mask_range key i n p = mask_range key (i + 4) n (p[i := p ! i XOR key ! 0, i + 1 := p ! (i + 1) XOR key ! 1,
        i + 2 := p ! (i + 2) XOR key ! 2, i + 3 := p ! (i + 3) XOR key ! 3])"
      using m 1(4) by (intro nth_equalityI) (auto simp: mask_range_def nth_list_update split: if_splits)
    with 1 True m show ?thesis
      by (subst mask_blocks.simps) (simp add: xor_key_def)
  next
    case False
    then show ?thesis by (subst mask_blocks.simps) simp
  qed
qed

lemma mask_blocks_out: "i < n \<Longrightarrow> length p < n \<Longrightarrow> 4 dvd i \<Longrightarrow> 4 dvd n \<Longrightarrow> mask_blocks key i n p = Inl OutOfBounds"
proof (induction key i n p rule: mask_blocks.induct)
  case (1 key i n p)
  have "i + 4 < n" if "i + 3 < length p" using that 1 by (auto elim!: dvdE)
  with 1 show ?case
    by (subst mask_blocks.simps) (cases "i < length p", auto simp: xor_key_def rbind_def)
qed

lemma mask_payload_ok:
  "n \<le> length p \<Longrightarrow> mask_payload key n p = Inr (mask_bytes key (take n p) @ drop n p)"
proof -
  assume n: "n \<le> length p"
  let ?t = "n - n mod 4"
  have "4 dvd ?t" "?t \<le> n" by simp_all
  then have "mask_payload key n p = Inr (mask_range key ?t n (mask_range key 0 ?t p))"
    using n by (simp add: mask_payload_def Let_def mask_blocks_range mask_rest_range)
  also have "\<dots> = Inr (mask_range key 0 n p)" by (simp add: mask_range_join)
  finally show ?thesis using n by (simp add: mask_range_all)
qed

lemma mask_payload_out:
  "length p < n \<Longrightarrow> mask_payload key n p = Inl OutOfBounds"
proof -
  assume n: "length p < n"
  let ?t = "n - n mod 4"
  have t: "4 dvd ?t" "?t \<le> n" by simp_all
  show ?thesis
  proof (cases "length p < ?t")
    case True
    then show ?thesis using mask_blocks_out [of 0 ?t p key] t by (simp add: mask_payload_def Let_def)
  next
    case False
    then show ?thesis using mask_blocks_range [of 0 ?t p key] t n mask_rest_out [of ?t n "mask_range key 0 ?t p" key]
      by (simp add: mask_payload_def Let_def)
  qed
qed

section \<open>The layout of a frame\<close>

definition frame_ext :: "nat \<Rightarrow> bytes" where
  "frame_ext len = (if len < 126 then [] else if len \<le> 0xFFFF then be 2 (of_nat len :: u64) else be 8 (of_nat len :: u64))"

definition frame_head :: "bool \<Rightarrow> u8 \<Rightarrow> bool \<Rightarrow> nat \<Rightarrow> bytes" where
  "frame_head fin op_code masked len =
     [set_bits 0 4 op_code (set_bits 7 1 (if fin then 1 else 0) 0),
      set_bits 7 1 (if masked then 1 else 0) (set_bits 0 7 (if len < 126 then of_nat len else if len \<le> 0xFFFF then 126 else 127) 0)]
     @ frame_ext len"

definition frame_layout :: "bool \<Rightarrow> u8 \<Rightarrow> bool \<Rightarrow> bytes \<Rightarrow> bytes \<Rightarrow> bytes" where
  "frame_layout fin op_code masked key data =
     frame_head fin op_code masked (length data) @ (if masked then key @ mask_bytes key data else data)"

definition head_len :: "bool \<Rightarrow> nat \<Rightarrow> nat" where
  "head_len masked len = 2 + length (frame_ext len) + (if masked then 4 else 0)"

lemma length_frame_ext: "length (frame_ext len) = (if len < 126 then 0 else if len \<le> 0xFFFF then 2 else 8)"
  by (simp add: frame_ext_def)

lemma length_frame_head [simp]: "length (frame_head fin op_code masked len) = 2 + length (frame_ext len)"
  by (simp add: frame_head_def)

lemma length_frame_layout:
  "length key = 4 \<Longrightarrow> length (frame_layout fin op_code masked key data) = head_len masked (length data) + length data"
  by (simp add: frame_layout_def head_len_def)

lemma frame_header_head: "frame_header op_code len masked = frame_head True op_code masked len"
  by (auto simp: frame_header_def frame_head_def frame_ext_def Let_def be_expand be_expand8)

lemma frame_writes_layout:
  "frame_writes masked key op_code data = Inr (frame_header op_code (length data) masked #
     (if masked then [key, mask_bytes key data] else [data]))"
  "rbind (frame_writes masked key op_code data) (\<lambda>ws. Inr (concat ws)) = Inr (frame_layout True op_code masked key data)"
  by (auto simp: frame_writes_def mask_payload_ok frame_header_head frame_layout_def)

lemma head_bits:
  "take_bit 4 op_code = op_code \<Longrightarrow> get_bits 0 4 (set_bits 0 4 op_code (set_bits 7 1 v 0) :: u8) = op_code"
  "bit (set_bits 0 4 op_code (set_bits 7 1 (if fin then 1 else 0) 0) :: u8) 7 = fin"
  "bit (set_bits 7 1 (if masked then 1 else 0) w :: u8) 7 = masked"
  by (auto simp: bit_set_bits)

lemma len_bits:
  "get_bits 0 7 (set_bits 7 1 m (set_bits 0 7 v 0) :: u8) = take_bit 7 v"
  by simp

lemma uint_len7: "len < 126 \<Longrightarrow> uint (take_bit 7 (of_nat len :: u8)) = int len"
  by (simp add: unsigned_take_bit_eq uint_nat unat_of_nat take_bit_nat_eq_self)

lemma of_be_be2: "(of_be (be 2 w) :: u16) = ucast (w :: u64)"
  unfolding of_be_def by (rule bit_word_eqI) (auto simp: bit_of_bytes_le be_le bit_byte_of bit_ucast_iff)

lemma ext_len16: "len \<le> 0xFFFF \<Longrightarrow> uint (of_be (be 2 (of_nat len :: u64)) :: u16) = int len"
  by (simp add: of_be_be2 unsigned_ucast_eq unsigned_of_nat take_bit_nat_eq_self)

lemma ext_len64: "len < 0x8000000000000000 \<Longrightarrow> sint (of_be (be 8 (of_nat len :: u64)) :: u64) = int len"
  by (simp add: sint_uint uint_nat unat_of_nat signed_take_bit_int_eq_self)

lemma take_drop_prefix:
  assumes c: "c = take k xs" and le: "i + n \<le> length c"
  shows "take n (drop i c) = take n (drop i xs)"
proof -
  have "i + n \<le> k" using c le by simp
  then show ?thesis by (simp add: c drop_take min_def)
qed

lemma contents_Data: "contents d = take (nat (db_len d)) (buffer_Data d)"
  by (simp add: contents_def buffer_Data_def)

lemma buffer_Data_rd8: "i < length (contents d) \<Longrightarrow> rd8 (buffer_Data d) i = Inr (contents d ! i)"
  by (simp add: contents_Data)

lemma buffer_Data_rd: "i + n \<le> length (contents d) \<Longrightarrow> rd (buffer_Data d) i n = Inr (take n (drop i (contents d)))"
  by (auto simp: contents_Data drop_take min_def split: if_splits)

section \<open>Parsing what the writer wrote\<close>

definition frame_ready :: "bool \<Rightarrow> u8 \<Rightarrow> bool \<Rightarrow> bytes \<Rightarrow> nat \<Rightarrow> ws_frame \<Rightarrow> bool" where
  \<comment> \<open>the parser has read the header of the frame\<close>
  "frame_ready fin op_code masked key len f \<longleftrightarrow>
     wf_header_ready f \<and> wf_payload_start f = int (head_len masked len) \<and> wf_payload_len f = int len \<and>
     wf_opcode f = op_code \<and> wf_fin f = fin \<and> wf_mask_enable f = masked \<and> (masked \<longrightarrow> wf_masking_key f = key)"

lemma parse_length_layout:
  assumes c: "contents d = take k (frame_head fin op_code masked len @ rest)" and n: "2 \<le> length (contents d)"
    and len: "len < 0x8000000000000000"
    and f: "wf_payload_len f = uint (get_bits 0 7 (contents d ! 1))" "wf_payload_start f = 2"
  shows "parse_length (buffer_Data d) (length (contents d)) f =
     (if 2 + length (frame_ext len) \<le> length (contents d)
      then Inr (True, f\<lparr>wf_payload_len := int len, wf_payload_start := 2 + int (length (frame_ext len))\<rparr>)
      else Inr (False, f))"
proof -
  let ?v = "if len < 126 then of_nat len else if len \<le> 0xFFFF then 126 else 127 :: u8"
  have k: "2 \<le> k" using c n by (auto simp: min_def split: if_splits)
  have 1: "contents d ! 1 = set_bits 7 1 (if masked then 1 else 0) (set_bits 0 7 ?v 0)"
    using k by (simp add: c frame_head_def)
  have pl: "wf_payload_len f = uint (take_bit 7 ?v)" unfolding f(1) 1 len_bits ..
  have ext: "rd (buffer_Data d) 2 (length (frame_ext len)) = Inr (frame_ext len)"
    if "2 + length (frame_ext len) \<le> length (contents d)"
    unfolding buffer_Data_rd [OF that] using that c by (auto simp: frame_head_def drop_take min_def split: if_splits)
  consider "len < 126" | "126 \<le> len" "len \<le> 0xFFFF" | "0xFFFF < len" by linarith
  then show ?thesis
  proof cases
    case 1
    then have p: "wf_payload_len f = int len" by (simp add: pl uint_len7)
    then have "f\<lparr>wf_payload_len := int len, wf_payload_start := 2\<rparr> = f" using f(2) by (cases f) simp
    then show ?thesis using 1 n p by (simp add: parse_length_def frame_ext_def)
  next
    case 2
    then have p: "wf_payload_len f = 126" by (simp add: pl)
    have e: "length (frame_ext len) = 2" "frame_ext len = be 2 (of_nat len :: u64)" using 2 by (simp_all add: frame_ext_def)
    show ?thesis
      using p f(2) ext ext_len16 [OF 2(2)] by (auto simp: parse_length_def e simp del: rd_Inr)
  next
    case 3
    then have p: "wf_payload_len f = 127" by (simp add: pl)
    have e: "length (frame_ext len) = 8" "frame_ext len = be 8 (of_nat len :: u64)" using 3 by (simp_all add: frame_ext_def)
    show ?thesis
      using p f(2) ext ext_len64 [OF len] by (auto simp: parse_length_def e simp del: rd_Inr)
  qed
qed

lemma parse_header_layout:
  assumes ok: "buffer_ok (wf_buffer f)" and op: "take_bit 4 op_code = op_code" and key: "length key = 4"
    and c: "contents (wf_buffer f) = take k (frame_head fin op_code masked len @ (if masked then key else []) @ rest)"
    and n: "2 \<le> length (contents (wf_buffer f))" and len: "len < 0x8000000000000000"
  shows "\<exists>ready f'. parse_header f = Inr (ready, f') \<and> wf_buffer f' = wf_buffer f \<and>
           ready = (head_len masked len \<le> length (contents (wf_buffer f))) \<and>
           (if ready then frame_ready fin op_code masked key len f' else wf_header_ready f' = wf_header_ready f)"
proof -
  let ?d = "wf_buffer f" let ?c = "contents ?d" let ?x = "length (frame_ext len)"
  let ?f0 = "f\<lparr>wf_payload_len := uint (get_bits 0 7 (?c ! 1)), wf_payload_start := 2, wf_fin := bit (?c ! 0) 7,
               wf_opcode := get_bits 0 4 (?c ! 0)\<rparr>"
  let ?f1 = "?f0\<lparr>wf_payload_len := int len, wf_payload_start := 2 + int ?x\<rparr>"
  have k: "2 \<le> k" using c n by (auto simp: min_def split: if_splits)
  have b: "bit (?c ! 0) 7 = fin" "get_bits 0 4 (?c ! 0) = op_code" "bit (?c ! 1) 7 = masked"
    unfolding c using k op by (auto simp: frame_head_def head_bits bit_set_bits)
  have l: "length ?c < 0x80000000" "DataLen ?d = length ?c"
    using ok length_contents [OF ok] DataLen_contents [OF ok] by (auto simp: buffer_ok_def)
  have r: "rd8 (buffer_Data ?d) 0 = Inr (?c ! 0)" "rd8 (buffer_Data ?d) 1 = Inr (?c ! 1)"
    using n buffer_Data_rd8 [of 0 ?d] buffer_Data_rd8 [of 1 ?d] by linarith+
  have pl: "parse_length (buffer_Data ?d) (length ?c) ?f0 =
      (if 2 + ?x \<le> length ?c then Inr (True, ?f1) else Inr (False, ?f0))"
    using parse_length_layout [OF c n len, of ?f0] by simp
  have hd: "parse_header f =
      (if 2 + ?x \<le> length ?c
       then rbind (parse_mask (buffer_Data ?d) (length ?c) (?f1\<lparr>wf_mask_enable := masked\<rparr>)) (\<lambda>(ok, f2).
              if \<not> ok then Inr (False, f2) else Inr (True, f2\<lparr>wf_header_ready := True\<rparr>))
       else Inr (False, ?f0))"
    unfolding parse_header_def Let_def l(2) r rbind_simps pl by (simp add: b del: One_nat_def)
  show ?thesis
  proof (cases "2 + ?x \<le> length ?c")
    case False
    then show ?thesis by (auto simp: hd head_len_def)
  next
    case True
    have kk: "rd (buffer_Data ?d) (nat (2 + int ?x)) 4 = Inr key" if m: "masked" and le: "6 + ?x \<le> length ?c"
    proof -
      have "nat (2 + int ?x) = 2 + ?x" by simp
      moreover have "take 4 (drop (2 + ?x) ?c) = key"
        using m le key take_drop_prefix [OF c, of "2 + ?x" 4] by simp
      ultimately show ?thesis using buffer_Data_rd [of "2 + ?x" 4 ?d] le by simp
    qed
    have i: "int_of_size (length ?c) = int (length ?c)" using l by simp
    consider "\<not> masked" | "masked" "6 + ?x \<le> length ?c" | "masked" "\<not> 6 + ?x \<le> length ?c" by blast
    then show ?thesis
    proof cases
      case 1
      then show ?thesis using True by (auto simp: hd parse_mask_def head_len_def frame_ready_def b)
    next
      case 2
      then have "\<not> int (length ?c) < 2 + int ?x + 4" by linarith
      then show ?thesis
        using 2 True by (auto simp: hd parse_mask_def head_len_def frame_ready_def b i kk [OF 2] simp del: rd_Inr)
    next
      case 3
      then have "int (length ?c) < 2 + int ?x + 4" by linarith
      then show ?thesis using 3 True by (auto simp: hd parse_mask_def head_len_def i)
    qed
  qed
qed

lemma take_take_drop: "xs = take h xs @ take n (drop h xs) @ drop (h + n) xs"
proof -
  have "drop (h + n) xs = drop n (drop h xs)" by (simp add: add.commute)
  then show ?thesis by (simp only: append_take_drop_id)
qed

lemma take_splice:
  "s + n \<le> l \<Longrightarrow> l \<le> length xs \<Longrightarrow> length w = n \<Longrightarrow>
     take l (take s xs @ w @ drop (s + n) xs) = take s (take l xs) @ w @ drop (s + n) (take l xs)"
  by (cases "l = s") (auto simp: drop_take min_def)

lemma unmask_ok:
  assumes ok: "buffer_ok (wf_buffer f)" and ps: "wf_payload_start f = int s" and pl: "wf_payload_len f = int n"
    and le: "s + n \<le> length (contents (wf_buffer f))"
  defines "c \<equiv> contents (wf_buffer f)"
  shows "\<exists>d. unmask f = Inr (f\<lparr>wf_buffer := d\<rparr>) \<and> buffer_ok d \<and>
           contents d = take s c @ mask_bytes (wf_masking_key f) (take n (drop s c)) @ drop (s + n) c"
proof -
  let ?d = "wf_buffer f" let ?B = "db_buffer ?d" let ?a = "nat (db_start ?d)" let ?L = "nat (db_len ?d)"
  let ?m = "mask_bytes (wf_masking_key f)"
  have r: "0 \<le> db_start ?d" "0 \<le> db_len ?d" "?a + ?L \<le> length ?B" "s + n \<le> ?L" "?L < 0x80000000"
    using ok le length_contents [OF ok] by (auto simp: buffer_ok_def)
  have i: "nat (db_start ?d + wf_payload_start f) = ?a + s" using r(1) by (simp add: ps nat_add_distrib)
  let ?p = "?m (take n (drop (?a + s) ?B)) @ drop n (drop (?a + s) ?B)"
  let ?B' = "take (?a + s) ?B @ ?p"
  have e: "unmask f = Inr (f\<lparr>wf_buffer := ?d\<lparr>db_buffer := ?B'\<rparr>\<rparr>)"
    unfolding unmask_def Let_def i using r by (simp add: pl mask_payload_ok)
  have len: "length ?B' = length ?B" using r by simp
  define D where "D = drop ?a ?B"
  have D: "drop (?a + s) ?B = drop s D" "c = take ?L D" "?L \<le> length D"
    using r by (simp_all add: D_def c_def contents_def add.commute)
  have "drop ?a ?B' = take s D @ ?m (take n (drop s D)) @ drop (s + n) D"
    using r by (simp add: D(1) drop_take add.commute [of s n]) (simp add: D_def)
  then have "take ?L (drop ?a ?B') = take s c @ ?m (take n (drop s c)) @ drop (s + n) c"
    using r D take_splice [of s n ?L D "?m (take n (drop s D))"] take_drop_prefix [OF D(2), of s n] by simp
  then show ?thesis using e with_buffer(1) [where d = ?d and b = ?B'] with_buffer(2) [OF len] ok by metis
qed

lemma frame_Parse_data:
  "frame_Parse mem data n f =
     (if data \<noteq> None \<and> 0 < n
      then rbind (AppendData mem data n (wf_buffer f)) (\<lambda>(_, d). frame_Parse mem None 0 (f\<lparr>wf_buffer := d\<rparr>))
      else frame_Parse mem None 0 f)"
  by (auto simp: frame_Parse_def rbind_assoc split_def intro!: arg_cong [of _ _ "rbind _"])

lemma frame_Parse_layout:
  assumes ok: "buffer_ok (wf_buffer f)" and op: "take_bit 4 op_code = op_code" and key: "length key = 4"
    and sync: "wf_header_ready f \<Longrightarrow> frame_ready fin op_code masked key (length data) f"
    and c: "contents (wf_buffer f) = take k (frame_layout fin op_code masked key data @ rest)"
    and len: "length data < 0x7fffffff"
  defines "tot \<equiv> head_len masked (length data) + length data"
  shows "if length (contents (wf_buffer f)) < tot
         then \<exists>f'. frame_Parse mem None 0 f = Inr (1, f') \<and> wf_buffer f' = wf_buffer f \<and>
                (wf_header_ready f' \<longrightarrow> frame_ready fin op_code masked key (length data) f')
         else \<exists>f'. frame_Parse mem None 0 f = Inr (0, f') \<and> buffer_ok (wf_buffer f') \<and>
                frame_ready fin op_code masked key (length data) f' \<and>
                contents (wf_buffer f') = take (head_len masked (length data)) (contents (wf_buffer f)) @ data @
                  drop tot (contents (wf_buffer f))"
proof -
  let ?n = "length data" let ?c = "contents (wf_buffer f)" let ?h = "head_len masked ?n"
  have c': "?c = take k (frame_head fin op_code masked ?n @ (if masked then key else []) @
      (if masked then mask_bytes key data else data) @ rest)"
    unfolding c frame_layout_def by (cases masked) (simp_all del: take_append)
  have l: "length ?c < 0x80000000" "DataLen (wf_buffer f) = length ?c" "int_of_size (length ?c) = int (length ?c)"
    using ok length_contents [OF ok] DataLen_contents [OF ok] by (auto simp: buffer_ok_def)
  have h: "2 \<le> ?h" "?h \<le> 14" by (auto simp: head_len_def length_frame_ext)
  have step: "frame_Parse mem None 0 f = rbind (ladd (wf_payload_start f1) (wf_payload_len f1)) (\<lambda>t.
      if int (length ?c) < t then Inr (1, f1)
      else if masked then rbind (unmask f1) (\<lambda>f3. Inr (0, f3)) else Inr (0, f1))"
    if "2 \<le> length ?c" "(if wf_header_ready f then Inr (True, f) else parse_header f) = Inr (True, f1)"
      "wf_buffer f1 = wf_buffer f" "wf_mask_enable f1 = masked" for f1
    using that l by (simp add: frame_Parse_def)
  have fin: ?thesis if r: "frame_ready fin op_code masked key ?n f1" and le: "2 \<le> length ?c" and b: "wf_buffer f1 = wf_buffer f"
      and p: "(if wf_header_ready f then Inr (True, f) else parse_header f) = Inr (True, f1)" for f1
  proof -
    have q: "wf_payload_start f1 = int ?h" "wf_payload_len f1 = int ?n" "wf_mask_enable f1 = masked"
      using r by (simp_all add: frame_ready_def)
    have P: "frame_Parse mem None 0 f = (if length ?c < tot then Inr (1, f1)
        else if masked then rbind (unmask f1) (\<lambda>f3. Inr (0, f3)) else Inr (0, f1))"
      using step [OF le p b q(3)] q h len by (simp add: ladd_def tot_def)
    show ?thesis
    proof (cases "length ?c < tot")
      case True
      then show ?thesis using P b r by simp
    next
      case False
      have body: "take ?n (drop ?h ?c) = (if masked then mask_bytes key data else data)"
        using take_drop_prefix [OF c', of ?h ?n] False key by (simp add: tot_def head_len_def)
      show ?thesis
      proof (cases masked)
        case True
        obtain d where d: "unmask f1 = Inr (f1\<lparr>wf_buffer := d\<rparr>)" "buffer_ok d"
          "contents d = take ?h ?c @ mask_bytes (wf_masking_key f1) (take ?n (drop ?h ?c)) @ drop (?h + ?n) ?c"
          using unmask_ok [of f1, OF _ q(1,2)] ok b False by (auto simp: tot_def)
        have "wf_masking_key f1 = key" using r True by (simp add: frame_ready_def)
        then show ?thesis using P False d body True r by (simp add: frame_ready_def tot_def)
      next
        case nm: False
        have "?c = take ?h ?c @ take ?n (drop ?h ?c) @ drop (?h + ?n) ?c"
          by (rule take_take_drop)
        then show ?thesis using P False body nm r b ok by (simp add: tot_def)
      qed
    qed
  qed
  consider "length ?c < 2" | "2 \<le> length ?c" "wf_header_ready f" | "2 \<le> length ?c" "\<not> wf_header_ready f" by linarith
  then show ?thesis
  proof cases
    case 1
    then show ?thesis using sync h l by (auto simp: frame_Parse_def tot_def)
  next
    case 2
    then show ?thesis by (intro fin [of f]) (simp_all add: sync)
  next
    case 3
    obtain ready f' where p: "parse_header f = Inr (ready, f')" "wf_buffer f' = wf_buffer f" "ready = (?h \<le> length ?c)"
      "if ready then frame_ready fin op_code masked key ?n f' else wf_header_ready f' = wf_header_ready f"
      using parse_header_layout [OF ok op key c' 3(1)] len by auto
    show ?thesis
    proof (cases ready)
      case True
      then show ?thesis using fin [of f'] p 3 by simp
    next
      case False
      then show ?thesis using p 3 l by (auto simp: frame_Parse_def tot_def)
    qed
  qed
qed

section \<open>Lengths with the top bit set\<close>

lemma sint_negative: "bit (e ! 0) 7 \<Longrightarrow> length e = 8 \<Longrightarrow> sint (of_be e :: u64) < 0"
proof -
  assume e: "bit (e ! 0) 7" "length e = 8"
  then have "bit (of_be e :: u64) 63" by (simp add: of_be_def bit_of_bytes_le rev_nth)
  then show ?thesis by (simp add: sint_uint signed_take_bit_negative_iff bit_uint_iff)
qed

lemma new_frame_append:
  assumes "length seg < 9000"
  shows "\<exists>f r d. WebSocketFrame_new mem = Inr f \<and> \<not> wf_header_ready f \<and> AppendData mem (Some seg) (length seg) (wf_buffer f) = Inr (r, d) \<and>
           buffer_ok d \<and> contents d = seg \<and> length (db_buffer d) < 0x80000000"
proof -
  obtain d where d: "DataBuffer_new mem 10240 = Inr d" "buffer_ok d" "contents d = []" "db_size d = 10240" "db_start d = 200"
    using DataBuffer_new_ok [of 10240 mem] by auto
  have l: "db_len d = 0" "db_end d = 200" using length_contents [OF d(2)] d by (simp_all add: buffer_ok_def)
  have b: "length (db_buffer d) = 10440" using d(1) by (auto simp: DataBuffer_new_def)
  have "\<not> overlaps (length seg) d" "within_limit (length seg) d" using l assms by (simp_all add: overlaps_def within_limit_def)
  then obtain r d' where a: "AppendData mem (Some seg) (length seg) d = Inr (r, d')" "buffer_ok d'" "contents d' = seg"
    using AppendData_outcome [OF d(2), of "length seg" seg mem] d(3) by auto
  have "length (db_buffer d') = 10440"
    using a(1) b l assms d(2,4) by (auto simp: AppendData_def buffer_room_ok append_end_def memcpy_def split: if_splits)
  then show ?thesis using a d(1) by (simp add: WebSocketFrame_new_def)
qed

text \<open>
  C30. A masked frame that announces a length of \<open>2^63\<close> bytes or more makes \<open>Parse\<close> write outside the receive buffer:
  the length is negative as \<open>int64_t\<close>, so the frame counts as complete, and unmasking starts with the length as
  \<open>size_t\<close>. Fourteen bytes suffice, whatever else they are.
\<close>

theorem frame_length_overrun:
  "14 \<le> length seg \<Longrightarrow> length seg < 9000 \<Longrightarrow> seg ! 1 = 0xff \<Longrightarrow> bit (seg ! 2) 7 \<Longrightarrow>
     rbind (WebSocketFrame_new mem) (frame_Parse mem (Some seg) (length seg)) = Inl OutOfBounds"
proof -
  assume seg: "14 \<le> length seg" "length seg < 9000" "seg ! 1 = 0xff" "bit (seg ! 2) 7"
  obtain f r d where f: "WebSocketFrame_new mem = Inr f" "\<not> wf_header_ready f" "AppendData mem (Some seg) (length seg) (wf_buffer f) = Inr (r, d)"
    "buffer_ok d" "contents d = seg" "length (db_buffer d) < 0x80000000"
    using new_frame_append [OF seg(2)] by blast
  define g where "g = f\<lparr>wf_buffer := d\<rparr>"
  let ?e = "take 8 (drop 2 seg)" let ?n = "sint (of_be ?e :: u64)"
  have n: "?n < 0" using seg by (intro sint_negative) simp_all
  have n': "- 0x8000000000000000 \<le> ?n" using sint_ge [of "of_be ?e :: u64"] by simp
  have l: "DataLen d = length seg" using DataLen_contents [OF f(4)] f(5) by simp
  have L: "0 < length (contents d)" "1 < length (contents d)" "2 + 8 \<le> length (contents d)" "10 + 4 \<le> length (contents d)"
    using seg f(5) by auto
  note r = buffer_Data_rd8 [OF L(1)] buffer_Data_rd8 [OF L(2)] buffer_Data_rd [OF L(3)] buffer_Data_rd [OF L(4)]
  note r = r [unfolded f(5)]
  have b: "uint (get_bits 0 7 (seg ! 1)) = 127" "bit (seg ! 1) 7"
    unfolding seg(3) by (simp_all add: get_bits_def)
  obtain g' where g': "parse_header g = Inr (True, g')" "wf_payload_start g' = 14" "wf_payload_len g' = ?n"
      "wf_mask_enable g'" "wf_buffer g' = d"
    using seg(1,2) l by (simp add: parse_header_def Let_def g_def r parse_length_def parse_mask_def b del: rd_Inr rd8_Inr One_nat_def)
  have "length (drop (nat (db_start d + 14)) (db_buffer d)) < size_of_int ?n"
  proof -
    have "?n mod 0x10000000000000000 = ?n + 0x10000000000000000"
      using n n' mod_pos_pos_trivial [of "?n + 0x10000000000000000" "0x10000000000000000"]
      unfolding mod_add_self2 by linarith
    then have "0x8000000000000000 \<le> size_of_int ?n" using n' by (simp add: size_of_int_def)
    then show ?thesis using f(6) by simp
  qed
  then have "unmask g' = Inl OutOfBounds" by (simp add: unmask_def Let_def g' mask_payload_out)
  moreover have "frame_Parse mem (Some seg) (length seg) f = frame_Parse mem None 0 g"
    using seg f(3) by (auto simp: frame_Parse_data [of mem "Some seg"] g_def)
  moreover have "ladd 14 ?n = Inr (14 + ?n)" using n n' by (simp add: ladd_def)
  moreover have "\<not> wf_header_ready g" "wf_buffer g = d" using f(2) by (simp_all add: g_def)
  ultimately show ?thesis
    using seg n l g' f(1) by (simp add: frame_Parse_def [of mem None])
qed

theorem frame_length_overrun_witness:
  "rbind (WebSocketFrame_new (\<lambda>_. 0)) (frame_Parse (\<lambda>_. 0) (Some ([0x82, 0xff, 0x80] @ replicate 11 0)) 14) = Inl OutOfBounds"
  using frame_length_overrun [of "[0x82, 0xff, 0x80] @ replicate 11 0" "\<lambda>_. 0"] by simp

end
