(* ===== verification/Text_Util.thy ===== *)
theory Text_Util
  imports RTC_Prelude "HOL-Library.List_Lexorder"
begin

text \<open>
  Text handling of the HTTP and web socket code: what it uses of \<open>std::string\<close>, the helpers of \<open>utils/stringex.hpp\<close> and
  the base 64 codec of \<open>utils/base64.cpp\<close>. A \<open>std::string\<close> is the list of its bytes; \<open>str\<close> turns a literal into one.
\<close>

section \<open>Strings\<close>

definition str :: "string \<Rightarrow> bytes" where
  "str s = map of_char s"

fun str_find :: "bytes \<Rightarrow> bytes \<Rightarrow> nat option" where
  \<comment> \<open>\<open>s.find(sub)\<close>, \<open>None\<close> for \<open>npos\<close>\<close>
  "str_find sub [] = (if sub = [] then Some 0 else None)"
| "str_find sub (c # cs) = (if take (length sub) (c # cs) = sub then Some 0 else map_option Suc (str_find sub cs))"

fun str_rfind :: "bytes \<Rightarrow> bytes \<Rightarrow> nat option" where
  \<comment> \<open>\<open>s.rfind(sub)\<close>\<close>
  "str_rfind sub [] = (if sub = [] then Some 0 else None)"
| "str_rfind sub (c # cs) =
     (case str_rfind sub cs of
        Some i \<Rightarrow> Some (Suc i)
      | None \<Rightarrow> if take (length sub) (c # cs) = sub then Some 0 else None)"

definition substr_from :: "nat \<Rightarrow> bytes \<Rightarrow> bytes res" where
  \<comment> \<open>\<open>s.substr(pos)\<close> throws \<open>std::out_of_range\<close> behind the end\<close>
  "substr_from pos s = (if pos \<le> length s then Inr (drop pos s) else Inl Throw)"

function split_loop :: "bytes \<Rightarrow> bytes \<Rightarrow> bytes list" where
  \<comment> \<open>the loop of \<open>StringSplit\<close>, for the non-empty separators it is called with\<close>
  "split_loop sep s =
     (case str_find sep s of
        None \<Rightarrow> [s]
      | Some pos \<Rightarrow>
          take pos s # (if drop (pos + length sep) s = [] \<or> sep = [] then [] else split_loop sep (drop (pos + length sep) s)))"
  by pat_completeness auto
termination by (relation "measure (\<lambda>(sep, s). length s)") (auto intro!: diff_less)

declare split_loop.simps [simp del]

definition StringSplit :: "bytes \<Rightarrow> bytes \<Rightarrow> bytes list" where
  "StringSplit input_str split_str = (if input_str = [] then [] else split_loop split_str input_str)"

definition tolower :: "u8 \<Rightarrow> u8" where
  \<comment> \<open>in the C locale\<close>
  "tolower c = (if 65 \<le> c \<and> c \<le> 90 then c + 32 else c)"

definition String2Lower :: "bytes \<Rightarrow> bytes" where
  "String2Lower data = map tolower data"

definition RemoveSubfix :: "bytes \<Rightarrow> bytes \<Rightarrow> bytes" where
  "RemoveSubfix data subfix =
     (case str_rfind subfix data of
        None \<Rightarrow> data
      | Some pos \<Rightarrow> if length data - pos = length subfix then take pos data else data)"

fun nat_to_string :: "nat \<Rightarrow> bytes" where
  "nat_to_string n = (if n < 10 then [of_nat (48 + n)] else nat_to_string (n div 10) @ [of_nat (48 + n mod 10)])"

declare nat_to_string.simps [simp del]

definition to_string :: "int \<Rightarrow> bytes" where
  \<comment> \<open>\<open>std::to_string\<close> of an \<open>int\<close>\<close>
  "to_string i = (if i < 0 then 45 # nat_to_string (nat (- i)) else nat_to_string (nat i))"

section \<open>Base 64\<close>

definition base64_chars :: bytes where
  "base64_chars = str ''ABCDEFGHIJKLMNOPQRSTUVWXYZabcdefghijklmnopqrstuvwxyz0123456789+/''"

definition isalnum :: "u8 \<Rightarrow> bool" where
  "isalnum c \<longleftrightarrow> 48 \<le> c \<and> c \<le> 57 \<or> 65 \<le> c \<and> c \<le> 90 \<or> 97 \<le> c \<and> c \<le> 122"

definition is_base64 :: "u8 \<Rightarrow> bool" where
  "is_base64 c \<longleftrightarrow> isalnum c \<or> c = 43 \<or> c = 47"

definition sextets :: "u8 \<Rightarrow> u8 \<Rightarrow> u8 \<Rightarrow> bytes" where
  \<comment> \<open>\<open>char_array_4\<close> from \<open>char_array_3\<close>\<close>
  "sextets a b c =
     [drop_bit 2 (a AND 0xfc),
      push_bit 4 (a AND 0x03) + drop_bit 4 (b AND 0xf0),
      push_bit 2 (b AND 0x0f) + drop_bit 6 (c AND 0xc0),
      c AND 0x3f]"

definition octets :: "u8 \<Rightarrow> u8 \<Rightarrow> u8 \<Rightarrow> u8 \<Rightarrow> bytes" where
  \<comment> \<open>\<open>char_array_3\<close> from \<open>char_array_4\<close>\<close>
  "octets a b c d =
     [push_bit 2 a + drop_bit 4 (b AND 0x30),
      push_bit 4 (b AND 0xf) + drop_bit 2 (c AND 0x3c),
      push_bit 6 (c AND 0x3) + d]"

definition base64_char :: "u8 \<Rightarrow> u8" where
  "base64_char v = base64_chars ! unat v"

fun Base64Encode :: "bytes \<Rightarrow> bytes" where
  "Base64Encode (a # b # c # bs) = map base64_char (sextets a b c) @ Base64Encode bs"
| "Base64Encode [a, b] = map base64_char (take 3 (sextets a b 0)) @ [61]"
| "Base64Encode [a] = map base64_char (take 2 (sextets a 0 0)) @ [61, 61]"
| "Base64Encode [] = []"

definition base64_index :: "u8 \<Rightarrow> u8" where
  \<comment> \<open>\<open>(unsigned char)base64_chars.find(c)\<close>, where \<open>npos\<close> becomes 255\<close>
  "base64_index c = (case str_find [c] base64_chars of Some i \<Rightarrow> of_nat i | None \<Rightarrow> 255)"

fun decode_groups :: "bytes \<Rightarrow> bytes" where
  "decode_groups (a # b # c # d # s) =
     octets (base64_index a) (base64_index b) (base64_index c) (base64_index d) @ decode_groups s"
| "decode_groups [a, b, c] = take 2 (octets (base64_index a) (base64_index b) (base64_index c) (base64_index 0))"
| "decode_groups [a, b] = take 1 (octets (base64_index a) (base64_index b) (base64_index 0) (base64_index 0))"
| "decode_groups [a] = []"
| "decode_groups [] = []"

definition Base64Decode :: "bytes \<Rightarrow> bytes" where
  \<comment> \<open>reads up to the first byte outside the alphabet\<close>
  "Base64Decode s = decode_groups (takeWhile (\<lambda>c. c \<noteq> 61 \<and> is_base64 c) s)"

section \<open>Splitting\<close>

lemma length_str [simp]: "length (str s) = length s"
  by (simp add: str_def)

lemma str_append: "str (a @ b) = str a @ str b"
  by (simp add: str_def)

lemma str_find_fresh:
  \<comment> \<open>the first byte of what is searched does not occur before\<close>
  "sub \<noteq> [] \<Longrightarrow> hd sub \<notin> set p \<Longrightarrow> str_find sub (p @ s) = map_option ((+) (length p)) (str_find sub s)"
proof (induction p)
  case Nil
  then show ?case by (cases "str_find sub s") auto
next
  case (Cons c p)
  then have "take (length sub) (c # p @ s) \<noteq> sub" by (cases sub) auto
  with Cons show ?case by (simp add: option.map_comp comp_def)
qed

lemma str_find_here: "sub \<noteq> [] \<Longrightarrow> str_find sub (sub @ s) = Some 0"
  by (cases sub) auto

lemma str_find_none: "sub \<noteq> [] \<Longrightarrow> hd sub \<notin> set s \<Longrightarrow> str_find sub s = None"
  using str_find_fresh [of sub s "[]"] by simp

lemma str_find_at: "sub \<noteq> [] \<Longrightarrow> hd sub \<notin> set p \<Longrightarrow> str_find sub (p @ sub @ s) = Some (length p)"
  by (simp add: str_find_fresh str_find_here)

lemma str_find_le: "str_find sub s = Some i \<Longrightarrow> i + length sub \<le> length s"
proof (induction s arbitrary: i)
  case Nil
  then show ?case by (simp split: if_splits)
next
  case (Cons c s)
  show ?case
  proof (cases "take (length sub) (c # s) = sub")
    case True
    then have "length sub \<le> length (c # s)" by (metis length_take min.cobounded1 min.cobounded2)
    with True Cons show ?thesis by simp
  next
    case False
    with Cons show ?thesis by (auto simp del: take_Cons)
  qed
qed

lemma split_loop_join:
  assumes "sep \<noteq> []" "\<And>p. p \<in> set ps \<Longrightarrow> hd sep \<notin> set p" "q \<noteq> []" "hd sep \<notin> set q"
  shows "split_loop sep (concat (map (\<lambda>p. p @ sep) ps) @ q) = ps @ [q]"
  using assms(2)
proof (induction ps)
  case Nil
  then show ?case using assms by (subst split_loop.simps) (simp add: str_find_none)
next
  case (Cons p ps)
  let ?r = "concat (map (\<lambda>p. p @ sep) ps) @ q"
  have "str_find sep (p @ sep @ ?r) = Some (length p)" using assms Cons.prems by (intro str_find_at) auto
  then show ?case using Cons assms by (subst split_loop.simps) simp
qed

lemma StringSplit_join:
  "sep \<noteq> [] \<Longrightarrow> (\<And>p. p \<in> set ps \<Longrightarrow> hd sep \<notin> set p) \<Longrightarrow> q \<noteq> [] \<Longrightarrow> hd sep \<notin> set q \<Longrightarrow>
     StringSplit (concat (map (\<lambda>p. p @ sep) ps) @ q) sep = ps @ [q]"
  by (simp add: StringSplit_def split_loop_join)

section \<open>Base 64 round trip\<close>

lemma lt8_cases: "n < 8 \<Longrightarrow> n = 0 \<or> n = 1 \<or> n = 2 \<or> n = 3 \<or> n = 4 \<or> n = 5 \<or> n = 6 \<or> n = (7::nat)"
  by presburger

lemma u8_eqI: "bit (a::u8) 0 = bit b 0 \<Longrightarrow> bit a 1 = bit b 1 \<Longrightarrow> bit a 2 = bit b 2 \<Longrightarrow> bit a 3 = bit b 3 \<Longrightarrow>
   bit a 4 = bit b 4 \<Longrightarrow> bit a 5 = bit b 5 \<Longrightarrow> bit a 6 = bit b 6 \<Longrightarrow> bit a 7 = bit b 7 \<Longrightarrow> a = b"
  by (rule bit_word_eqI) (auto dest!: lt8_cases)

lemma sextets_or:
  "sextets a b c =
     [drop_bit 2 (a AND 0xfc), push_bit 4 (a AND 0x03) OR drop_bit 4 (b AND 0xf0),
      push_bit 2 (b AND 0x0f) OR drop_bit 6 (c AND 0xc0), c AND 0x3f]"
  unfolding sextets_def
  by (intro arg_cong2 [of _ _ _ _ Cons] refl disjunctive_add_eq_or u8_eqI) (simp_all add: bit_simps)

lemma octets_or:
  "\<not> bit d 6 \<Longrightarrow> \<not> bit d 7 \<Longrightarrow> octets a b c d =
     [push_bit 2 a OR drop_bit 4 (b AND 0x30), push_bit 4 (b AND 0xf) OR drop_bit 2 (c AND 0x3c), push_bit 6 (c AND 0x3) OR d]"
  unfolding octets_def
  by (intro arg_cong2 [of _ _ _ _ Cons] refl disjunctive_add_eq_or u8_eqI) (simp_all add: bit_simps)

lemma octets_sextets:
  "octets (sextets a b c ! 0) (sextets a b c ! 1) (sextets a b c ! 2) (sextets a b c ! 3) = [a, b, c]"
  unfolding sextets_or
  by (subst octets_or; (intro arg_cong2 [of _ _ _ _ Cons] refl u8_eqI)?; simp add: bit_simps)

lemma sextets_small: "v \<in> set (sextets a b c) \<Longrightarrow> unat v < 64"
proof -
  assume v: "v \<in> set (sextets a b c)"
  then have "take_bit 6 v = v"
    unfolding sextets_or by (auto intro!: u8_eqI simp: bit_simps)
  then have "unat v = take_bit 6 (unat v)" by (metis unsigned_take_bit_eq)
  then show ?thesis using take_bit_nat_less_exp [of 6 "unat v"] by simp
qed


lemma str_find_nth: "distinct xs \<Longrightarrow> i < length xs \<Longrightarrow> str_find [xs ! i] xs = Some i"
proof (induction xs arbitrary: i)
  case (Cons x xs)
  then show ?case by (cases i) auto
qed simp

lemma base64_chars_eq: "base64_chars = map of_nat ([65..<91] @ [97..<123] @ [48..<58] @ [43, 47])"
  by (simp add: base64_chars_def str_def upt_rec)


lemma distinct_map_of_nat: "distinct ns \<Longrightarrow> list_all (\<lambda>n. n < 256) ns \<Longrightarrow> distinct (map (of_nat :: nat \<Rightarrow> u8) ns)"
  by (auto simp: distinct_map list_all_iff inj_on_def dest!: arg_cong [of _ _ unat] simp: unat_of_nat)

lemma base64_chars_props: "length base64_chars = 64" "distinct base64_chars"
  "list_all (\<lambda>c. is_base64 c \<and> c \<noteq> 61) base64_chars"
proof -
  show "length base64_chars = 64" by (simp add: base64_chars_def)
  show "distinct base64_chars" unfolding base64_chars_eq by (rule distinct_map_of_nat) (simp_all add: list_all_iff)
  have "c \<in> set base64_chars \<Longrightarrow> is_base64 c \<and> c \<noteq> 61" for c
    unfolding base64_chars_eq by (auto simp: is_base64_def isalnum_def word_le_nat_alt unat_of_nat word_unat_eq_iff)
  then show "list_all (\<lambda>c. is_base64 c \<and> c \<noteq> 61) base64_chars" by (simp add: list_all_iff)
qed

lemma base64_char_props:
  assumes "unat v < 64"
  shows "base64_index (base64_char v) = v" "is_base64 (base64_char v)" "base64_char v \<noteq> 61"
  using assms base64_chars_props str_find_nth [of base64_chars "unat v"]
  by (auto simp: base64_index_def base64_char_def list_all_length)

lemma sextets_obtain:
  obtains w x y z where "sextets a b c = [w, x, y, z]" "octets w x y z = [a, b, c]"
    "unat w < 64" "unat x < 64" "unat y < 64" "unat z < 64"
proof -
  obtain w x y z where s: "sextets a b c = [w, x, y, z]" by (simp add: sextets_def)
  show ?thesis
    using that [OF s] octets_sextets [of a b c] sextets_small [of _ a b c] by (simp add: s)
qed

lemma octets_prefix: "take 2 (octets a b c d) = take 2 (octets a b c d')" "take 1 (octets a b c d) = take 1 (octets a b c' d')"
  by (simp_all add: octets_def)

text \<open>
  C40. Decoding an encoded byte string gives it back, for every length.
\<close>

theorem base64_roundtrip: "Base64Decode (Base64Encode bs) = bs"
proof (induction bs rule: Base64Encode.induct)
  case (1 a b c bs)
  obtain w x y z where "sextets a b c = [w, x, y, z]" "octets w x y z = [a, b, c]"
    "unat w < 64" "unat x < 64" "unat y < 64" "unat z < 64" by (rule sextets_obtain)
  then show ?case using 1 by (simp add: Base64Decode_def base64_char_props)
next
  case (2 a b)
  obtain w x y z where "sextets a b 0 = [w, x, y, z]" "octets w x y z = [a, b, 0]"
    "unat w < 64" "unat x < 64" "unat y < 64" "unat z < 64" by (rule sextets_obtain)
  then show ?case using octets_prefix(1) [of w x y "base64_index 0" z]
    by (simp add: Base64Decode_def base64_char_props)
next
  case (3 a)
  obtain w x y z where "sextets a 0 0 = [w, x, y, z]" "octets w x y z = [a, 0, 0]"
    "unat w < 64" "unat x < 64" "unat y < 64" "unat z < 64" by (rule sextets_obtain)
  then show ?case using octets_prefix(2) [of w x "base64_index 0" "base64_index 0" y z]
    by (simp add: Base64Decode_def base64_char_props)
next
  case 4
  then show ?case by (simp add: Base64Decode_def)
qed

lemma base64_char_in: "unat v < 64 \<Longrightarrow> base64_char v \<in> set base64_chars"
  by (simp add: base64_char_def base64_chars_props)

lemma set_Base64Encode: "set (Base64Encode bs) \<subseteq> insert 61 (set base64_chars)"
proof (induction bs rule: Base64Encode.induct)
  case (1 a b c bs)
  then show ?case using base64_char_in sextets_small [of _ a b c] by auto
next
  case (2 a b)
  then show ?case using base64_char_in sextets_small [of _ a b 0] by (auto dest!: in_set_takeD)
next
  case (3 a)
  then show ?case using base64_char_in sextets_small [of _ a 0 0] by (auto dest!: in_set_takeD)
qed simp

end
