(* ===== verification/Websocket_Base.thy ===== *)
theory Websocket_Base
  imports Websocket_Frame Text_Util
begin

text \<open>
  \<open>WebSocketSessionBase\<close> of \<open>net/http/websocket/ws_session_base.{hpp,cpp}\<close>: what the server's and the client's end of a web
  socket share. \<open>HandleFrame\<close> takes what one read of the socket has delivered, extracts the frames that are complete
  and hands their payload to virtual functions. Inheritance is the extension of the record \<open>ws_base\<close>, the virtual
  functions are a record of functions; what goes to the socket and to the callback object is returned in order.
\<close>

section \<open>State\<close>

abbreviation WS_OP_CONTINUE_TYPE :: u8 where "WS_OP_CONTINUE_TYPE \<equiv> 0"
abbreviation WS_OP_TEXT_TYPE :: u8 where "WS_OP_TEXT_TYPE \<equiv> 1"
abbreviation WS_OP_BIN_TYPE :: u8 where "WS_OP_BIN_TYPE \<equiv> 2"
abbreviation WS_OP_CLOSE_TYPE :: u8 where "WS_OP_CLOSE_TYPE \<equiv> 8"
abbreviation WS_OP_PING_TYPE :: u8 where "WS_OP_PING_TYPE \<equiv> 9"
abbreviation WS_OP_PONG_TYPE :: u8 where "WS_OP_PONG_TYPE \<equiv> 10"

datatype ws_out =
    TcpWrite bytes | TcpRead | TcpClose
  | OnReadText bytes | OnReadData bytes | OnClose int bytes | OnConnection

record ws_base =
  wb_frame :: ws_frame
  wb_recv_buffer_vec :: "data_buffer list"
  wb_last_op_code :: u8
  wb_die_count :: int
  wb_last_recv_pong_ms :: int
  wb_last_send_ping_ms :: int
  wb_is_connected :: bool
  wb_close :: bool
  wb_is_client :: bool
  wb_random :: "nat \<Rightarrow> u8"
    \<comment> \<open>what the calls of \<open>ByteCrypto::GetRandomUint(1, 0xff)\<close> will return\<close>

type_synonym 's ws_step = "'s \<Rightarrow> (ws_out list \<times> 's) res"

record 's ws_virtual =
  v_HandleWsData :: "bytes \<Rightarrow> u8 \<Rightarrow> 's ws_step"
  v_SendWsFrame :: "bytes \<Rightarrow> u8 \<Rightarrow> 's ws_step"
  v_HandleWsClose :: "bytes \<Rightarrow> 's ws_step"

section \<open>Operations\<close>

text \<open>The first argument of these is the virtual function \<open>SendWsFrame\<close>.\<close>

definition AsyncWriteText :: "(bytes \<Rightarrow> u8 \<Rightarrow> 's ws_step) \<Rightarrow> bytes \<Rightarrow> 's ws_step" where
  "AsyncWriteText send txt = send txt WS_OP_TEXT_TYPE"

definition AsyncWriteData :: "(bytes \<Rightarrow> u8 \<Rightarrow> 's ws_step) \<Rightarrow> bytes \<Rightarrow> 's ws_step" where
  "AsyncWriteData send data = send data WS_OP_BIN_TYPE"

definition SendClose :: "(bytes \<Rightarrow> u8 \<Rightarrow> 's ws_step) \<Rightarrow> u16 \<Rightarrow> bytes \<Rightarrow> 's ws_step" where
  "SendClose send code reason = send reason WS_OP_CLOSE_TYPE"

definition SendPingFrame :: "(bytes \<Rightarrow> u8 \<Rightarrow> 's ws_step) \<Rightarrow> int \<Rightarrow> 's ws_step" where
  "SendPingFrame send now_ms = send (be 4 (of_int (now_ms div 1000) :: u32)) WS_OP_PING_TYPE"

fun for_items :: "('a \<Rightarrow> 's ws_step) \<Rightarrow> 'a list \<Rightarrow> 's ws_step" where
  "for_items act [] s = Inr ([], s)"
| "for_items act (x # xs) s =
     rbind (act x s) (\<lambda>(outs, s1). rbind (for_items act xs s1) (\<lambda>(outs', s2). Inr (outs @ outs', s2)))"

definition HandleWsPing :: "'a ws_base_scheme ws_virtual \<Rightarrow> 'a ws_base_scheme ws_step" where
  "HandleWsPing vt s = for_items (\<lambda>item. v_SendWsFrame vt (contents item) WS_OP_PONG_TYPE) (wb_recv_buffer_vec s) s"

definition dispatch :: "'a ws_base_scheme ws_virtual \<Rightarrow> int \<Rightarrow> u8 \<Rightarrow> 'a ws_base_scheme ws_step" where
  \<comment> \<open>the \<open>switch\<close> over the opcode of a final frame, and the clearing of the fragments\<close>
  "dispatch vt now_ms op_code s =
     (let s0 = s\<lparr>wb_die_count := 0\<rparr>; items = wb_recv_buffer_vec s in
      rbind (if op_code = WS_OP_PING_TYPE then HandleWsPing vt s0
             else if op_code = WS_OP_PONG_TYPE then Inr ([], s0\<lparr>wb_last_recv_pong_ms := now_ms\<rparr>)
             else if op_code = WS_OP_CLOSE_TYPE then for_items (\<lambda>item. v_HandleWsClose vt (contents item)) items s0
             else if op_code = WS_OP_CONTINUE_TYPE
               then for_items (\<lambda>item. v_HandleWsData vt (contents item) (wb_last_op_code s)) items s0
             else if op_code = WS_OP_TEXT_TYPE \<or> op_code = WS_OP_BIN_TYPE
               then for_items (\<lambda>item. v_HandleWsData vt (contents item) op_code) items s0
             else Inr ([], s0))
        (\<lambda>(outs, s1). Inr (outs, s1\<lparr>wb_recv_buffer_vec := []\<rparr>)))"

fun frame_loop :: "nat \<Rightarrow> 'a ws_base_scheme ws_virtual \<Rightarrow> (nat \<Rightarrow> u8) \<Rightarrow> int \<Rightarrow> bytes option \<Rightarrow> nat \<Rightarrow>
    'a ws_base_scheme \<Rightarrow> (int \<times> ws_out list \<times> 'a ws_base_scheme) res" where
  \<comment> \<open>the loop of \<open>HandleFrame\<close>; only its first turn passes data to \<open>Parse\<close>\<close>
  "frame_loop 0 vt mem now_ms data len s = Inl Diverges"
| "frame_loop (Suc fuel) vt mem now_ms data len s =
     rbind (frame_Parse mem data len (wb_frame s)) (\<lambda>(ret, f).
     let s1 = s\<lparr>wb_frame := f\<rparr> in
     if ret \<noteq> 0 then Inr (ret, [], s1)
     else let s2 = (if wf_opcode f = WS_OP_TEXT_TYPE \<or> wf_opcode f = WS_OP_BIN_TYPE
                    then s1\<lparr>wb_last_op_code := wf_opcode f\<rparr> else s1) in
     if \<not> PayloadIsReady f then Inr (1, [], s2)
     else rbind (ladd (wf_payload_len f) 1024) (\<lambda>sz.
     rbind (DataBuffer_new mem (size_of_int sz)) (\<lambda>d.
     rbind (AppendData mem (Some (GetPayloadData f)) (size_of_int (wf_payload_len f)) d) (\<lambda>(_, d1).
     rbind (ladd (wf_payload_start f) (wf_payload_len f)) (\<lambda>used.
     let s3 = s2\<lparr>wb_recv_buffer_vec := wb_recv_buffer_vec s2 @ [d1],
                 wb_frame := frame_Reset (frame_Consume (size_of_int used) f)\<rparr> in
     rbind (if wf_fin f then dispatch vt now_ms (wf_opcode f) s3 else Inr ([], s3)) (\<lambda>(outs, s4).
     if 0 < DataLen (wf_buffer (wb_frame s4))
     then rbind (frame_loop fuel vt mem now_ms None 0 s4) (\<lambda>(r, outs', s5). Inr (r, outs @ outs', s5))
     else Inr (0, outs, s4)))))))"

definition HandleFrame :: "'a ws_base_scheme ws_virtual \<Rightarrow> (nat \<Rightarrow> u8) \<Rightarrow> int \<Rightarrow> data_buffer \<Rightarrow>
    'a ws_base_scheme \<Rightarrow> (int \<times> ws_out list \<times> 'a ws_base_scheme) res" where
  \<comment> \<open>every turn but the last consumes a frame, so more turns than bytes are never needed\<close>
  "HandleFrame vt mem now_ms data s =
     frame_loop (Suc (DataLen (wf_buffer (wb_frame s)) + DataLen data)) vt mem now_ms
       (Some (buffer_Data data)) (DataLen data) s"

definition recv_chunk :: "'a ws_base_scheme ws_virtual \<Rightarrow> (nat \<Rightarrow> u8) \<Rightarrow> int \<Rightarrow> bytes \<Rightarrow> 'a ws_base_scheme ws_step" where
  \<comment> \<open>what \<open>OnRead\<close> does with the bytes of one read: a buffer of their size, filled and handed to \<open>HandleFrame\<close>\<close>
  "recv_chunk vt mem now_ms data s =
     rbind (DataBuffer_new mem (length data)) (\<lambda>d.
     rbind (AppendData mem (Some data) (length data) d) (\<lambda>(_, d1).
     rbind (HandleFrame vt mem now_ms d1 s) (\<lambda>(_, outs, s1). Inr (outs, s1))))"

section \<open>The meaning of a sequence of frames\<close>

text \<open>
  A frame as the peer sent it, its bytes on the wire, and what receiving it means, without buffers and parsing:
  its payload joins the fragments, and a final frame is dispatched.
\<close>

datatype wire_frame = WireFrame (w_fin: bool) (w_op: u8) (w_masked: bool) (w_key: bytes) (w_data: bytes)

definition wire_bytes :: "wire_frame \<Rightarrow> bytes" where
  "wire_bytes w = frame_layout (w_fin w) (w_op w) (w_masked w) (w_key w) (w_data w)"

definition wire_ok :: "wire_frame \<Rightarrow> bool" where
  "wire_ok w \<longleftrightarrow> take_bit 4 (w_op w) = w_op w \<and> length (w_key w) = 4"

definition wire_ready :: "wire_frame \<Rightarrow> ws_frame \<Rightarrow> bool" where
  "wire_ready w f \<longleftrightarrow> frame_ready (w_fin w) (w_op w) (w_masked w) (w_key w) (length (w_data w)) f"

definition pack :: "(nat \<Rightarrow> u8) \<Rightarrow> bytes \<Rightarrow> data_buffer res" where
  "pack mem data = rbind (DataBuffer_new mem (length data + 1024)) (\<lambda>d.
     rbind (AppendData mem (Some data) (length data) d) (\<lambda>(_, d1). Inr d1))"

definition accept_frame :: "'a ws_base_scheme ws_virtual \<Rightarrow> (nat \<Rightarrow> u8) \<Rightarrow> int \<Rightarrow> wire_frame \<Rightarrow> 'a ws_base_scheme ws_step" where
  "accept_frame vt mem now_ms w s =
     (let s1 = (if w_op w = WS_OP_TEXT_TYPE \<or> w_op w = WS_OP_BIN_TYPE then s\<lparr>wb_last_op_code := w_op w\<rparr> else s) in
      rbind (pack mem (w_data w)) (\<lambda>d.
        let s2 = s1\<lparr>wb_recv_buffer_vec := wb_recv_buffer_vec s1 @ [d]\<rparr> in
        if w_fin w then dispatch vt now_ms (w_op w) s2 else Inr ([], s2)))"

definition on_frame :: "ws_frame \<Rightarrow> (ws_out list \<times> 'a ws_base_scheme) res \<Rightarrow> (ws_out list \<times> 'a ws_base_scheme) res" where
  "on_frame f r = rbind r (\<lambda>(outs, s). Inr (outs, s\<lparr>wb_frame := f\<rparr>))"

lemma on_frame_simps [simp]:
  "on_frame f (Inl e) = Inl e" "on_frame f (Inr (outs, s)) = Inr (outs, s\<lparr>wb_frame := f\<rparr>)"
  by (simp_all add: on_frame_def)

lemma frame_out:
  \<comment> \<open>updates of the parser are moved outwards\<close>
  "s\<lparr>wb_frame := f, wb_last_op_code := c\<rparr> = s\<lparr>wb_last_op_code := c, wb_frame := f\<rparr>"
  "s\<lparr>wb_frame := f, wb_recv_buffer_vec := v\<rparr> = s\<lparr>wb_recv_buffer_vec := v, wb_frame := f\<rparr>"
  "s\<lparr>wb_frame := f, wb_die_count := n\<rparr> = s\<lparr>wb_die_count := n, wb_frame := f\<rparr>"
  by simp_all

lemma length_wire_bytes:
  "wire_ok w \<Longrightarrow> length (wire_bytes w) = head_len (w_masked w) (length (w_data w)) + length (w_data w)"
  by (simp add: wire_ok_def wire_bytes_def length_frame_layout)

lemma head_len_bounds: "2 \<le> head_len masked n" "head_len masked n \<le> 14"
  by (auto simp: head_len_def length_frame_ext)

lemma wire_bytes_pos: "wire_ok w \<Longrightarrow> wire_bytes w \<noteq> []"
  using length_wire_bytes [of w] head_len_bounds(1) [of "w_masked w" "length (w_data w)"] by auto

lemma AppendData_take: "n \<le> length p \<Longrightarrow> AppendData mem (Some p) n d = AppendData mem (Some (take n p)) n d"
proof -
  assume "n \<le> length p"
  then have "memcpy b i p 0 n = memcpy b i (take n p) 0 n" for b i by (simp add: memcpy_def)
  then show ?thesis by (simp only: AppendData_def append_grow_def append_compact_def append_end_def option.case)
qed

lemma pack_ok:
  assumes n: "length data < 0x7fff0000"
  shows "\<exists>d. pack mem data = Inr d \<and> contents d = data"
proof -
  obtain d where d: "DataBuffer_new mem (length data + 1024) = Inr d" "buffer_ok d" "contents d = []"
    using DataBuffer_new_ok [of "length data + 1024" mem] n by auto
  have "db_len d = 0" using length_contents [OF d(2)] d(3) by simp
  then have "\<not> overlaps (length data) d" "within_limit (length data) d" using n by (simp_all add: overlaps_def within_limit_def)
  then show ?thesis using AppendData_outcome [OF d(2), of "length data" data mem] d by (auto simp: pack_def)
qed

section \<open>One turn of the parser\<close>

definition synced :: "wire_frame list \<Rightarrow> bytes \<Rightarrow> ws_frame \<Rightarrow> bool" where
  \<comment> \<open>what the buffer holds and \<open>future\<close>, still under way, are the frames \<open>ws\<close>\<close>
  "synced ws future f \<longleftrightarrow>
     buffer_ok (wf_buffer f) \<and> contents (wf_buffer f) @ future = concat (map wire_bytes ws) \<and>
     (wf_header_ready f \<longrightarrow> ws \<noteq> [] \<and> wire_ready (hd ws) f)"

definition waiting :: "wire_frame list \<Rightarrow> ws_frame \<Rightarrow> bool" where
  \<comment> \<open>the first frame has not arrived completely\<close>
  "waiting ws f \<longleftrightarrow> ws = [] \<or> length (contents (wf_buffer f)) < length (wire_bytes (hd ws))"

lemma synced_Nil: "synced [] future f \<Longrightarrow> contents (wf_buffer f) = [] \<and> \<not> wf_header_ready f \<and> frame_Parse mem None 0 f = Inr (1, f)"
  using DataLen_contents [of "wf_buffer f"] by (auto simp: synced_def frame_Parse_def)

lemma synced_shrinks:
  assumes g: "synced ws (chunk @ future) g" and ws: "ws = ds @ rest" and f: "synced rest future f"
  shows "length (contents (wf_buffer f)) + length future \<le> length (contents (wf_buffer g)) + length (chunk @ future)"
proof -
  have "length (contents (wf_buffer f)) + length future = length (concat (map wire_bytes rest))"
    "length (contents (wf_buffer g)) + length (chunk @ future) = length (concat (map wire_bytes ws))"
    using f g by (metis synced_def length_append)+
  moreover have "length (concat (map wire_bytes rest)) \<le> length (concat (map wire_bytes ws))"
    unfolding ws map_append concat_append length_append by (rule le_add2)
  ultimately show ?thesis by linarith
qed

lemma parse_turn:
  assumes sy: "synced (w # ws) future f" and w: "wire_ok w" and len: "length (w_data w) < 0x7fff0000"
  defines "n \<equiv> length (w_data w)" and "h \<equiv> head_len (w_masked w) (length (w_data w))"
  shows "if length (contents (wf_buffer f)) < length (wire_bytes w)
    then \<exists>f'. frame_Parse mem None 0 f = Inr (1, f') \<and> synced (w # ws) future f' \<and> waiting (w # ws) f'
    else \<exists>f'. frame_Parse mem None 0 f = Inr (0, f') \<and> wire_ready w f' \<and> buffer_ok (wf_buffer f') \<and>
           take n (drop h (contents (wf_buffer f'))) = w_data w \<and>
           h + n \<le> length (contents (wf_buffer f')) \<and> length (contents (wf_buffer f')) = length (contents (wf_buffer f)) \<and>
           drop (h + n) (contents (wf_buffer f')) @ future = concat (map wire_bytes ws)"
proof -
  let ?c = "contents (wf_buffer f)"
  have ok: "buffer_ok (wf_buffer f)" and c: "?c @ future = wire_bytes w @ concat (map wire_bytes ws)"
    and rdy: "wf_header_ready f \<Longrightarrow> wire_ready w f"
    using sy by (auto simp: synced_def)
  have c': "?c = take (length ?c) (frame_layout (w_fin w) (w_op w) (w_masked w) (w_key w) (w_data w) @ concat (map wire_bytes ws))"
    using arg_cong [OF c, of "take (length ?c)"] by (simp add: wire_bytes_def)
  have L: "length (wire_bytes w) = h + n" using w by (simp add: length_wire_bytes h_def n_def)
  note P = frame_Parse_layout [OF ok _ _ _ c', where mem = mem, folded h_def n_def]
  have k: "take_bit 4 (w_op w) = w_op w" "length (w_key w) = 4" using w by (simp_all add: wire_ok_def)
  show ?thesis
  proof (cases "length ?c < length (wire_bytes w)")
    case True
    then obtain f' where "frame_Parse mem None 0 f = Inr (1, f')" "wf_buffer f' = wf_buffer f"
      "wf_header_ready f' \<Longrightarrow> wire_ready w f'"
      using P k rdy len L by (auto simp: wire_ready_def n_def)
    then show ?thesis using True sy by (simp add: synced_def waiting_def)
  next
    case False
    then obtain f' where f': "frame_Parse mem None 0 f = Inr (0, f')" "wire_ready w f'" "buffer_ok (wf_buffer f')"
      "contents (wf_buffer f') = take h ?c @ w_data w @ drop (h + n) ?c"
      using P k rdy len L by (auto simp: wire_ready_def n_def)
    have h: "length (take h ?c) = h" using False L by simp
    have "drop (h + n) ?c @ future = concat (map wire_bytes ws)"
      using arg_cong [OF c, of "drop (length (wire_bytes w))"] False L by simp
    moreover have "length (contents (wf_buffer f')) = length ?c"
      using False L unfolding f'(4) by (simp add: n_def)
    moreover have "drop (h + n) (contents (wf_buffer f')) = drop (h + n) ?c" "take n (drop h (contents (wf_buffer f'))) = w_data w"
      unfolding f'(4) using h by (simp_all add: n_def)
    ultimately show ?thesis using f' False L by simp
  qed
qed

lemma consume_turn:
  assumes ok: "buffer_ok (wf_buffer f)" and le: "k \<le> length (contents (wf_buffer f))"
    and rest: "drop k (contents (wf_buffer f)) @ future = concat (map wire_bytes ws)"
  shows "synced ws future (frame_Reset (frame_Consume k f))"
    and "contents (wf_buffer (frame_Reset (frame_Consume k f))) = drop k (contents (wf_buffer f))"
proof -
  have l: "int k \<le> db_len (wf_buffer f)" "k < 0x80000000"
    using length_contents [OF ok] le ok by (auto simp: buffer_ok_def)
  obtain q d where d: "ConsumeData (int k) (wf_buffer f) = (Some q, d)" "buffer_ok d" "contents d = drop k (contents (wf_buffer f))"
    using ConsumeData_ok [OF ok _ l(1)] by auto
  then have b: "wf_buffer (frame_Reset (frame_Consume k f)) = d"
    using l by (simp add: frame_Reset_def frame_Consume_def)
  show "synced ws future (frame_Reset (frame_Consume k f))"
    using d rest b by (simp add: synced_def) (simp add: frame_Reset_def)
  show "contents (wf_buffer (frame_Reset (frame_Consume k f))) = drop k (contents (wf_buffer f))"
    using b d by simp
qed

lemma payload_turn:
  assumes r: "wire_ready w f" and ok: "buffer_ok (wf_buffer f)"
    and le: "head_len (w_masked w) (length (w_data w)) + length (w_data w) \<le> length (contents (wf_buffer f))"
    and data: "take (length (w_data w)) (drop (head_len (w_masked w) (length (w_data w))) (contents (wf_buffer f))) = w_data w"
    and len: "length (w_data w) < 0x7fff0000"
  shows "PayloadIsReady f"
    and "rbind (DataBuffer_new mem (size_of_int (wf_payload_len f + 1024))) (\<lambda>d.
           rbind (AppendData mem (Some (GetPayloadData f)) (size_of_int (wf_payload_len f)) d) (\<lambda>(_, d1). G d1)) =
         rbind (pack mem (w_data w)) G"
proof -
  let ?n = "length (w_data w)" let ?h = "head_len (w_masked w) ?n" let ?d = "wf_buffer f"
  have q: "wf_payload_start f = int ?h" "wf_payload_len f = int ?n" using r by (simp_all add: wire_ready_def frame_ready_def)
  have l: "length (contents ?d) < 0x80000000" "DataLen ?d = length (contents ?d)"
    using ok length_contents [OF ok] DataLen_contents [OF ok] by (auto simp: buffer_ok_def)
  show "PayloadIsReady f"
    using q l le len by (simp add: PayloadIsReady_def signed_take_bit_int_eq_self)
  have "take ?n (drop ?h (buffer_Data ?d)) = w_data w \<and> ?n \<le> length (drop ?h (buffer_Data ?d))"
    using buffer_Data_rd [of ?h ?n ?d] le data by auto
  then have "AppendData mem (Some (GetPayloadData f)) ?n = AppendData mem (Some (w_data w)) ?n"
    using AppendData_take [of ?n "GetPayloadData f" mem] by (intro ext) (simp add: GetPayloadData_def q)
  then have "rbind (DataBuffer_new mem (size_of_int (wf_payload_len f + 1024))) (\<lambda>d.
           rbind (AppendData mem (Some (GetPayloadData f)) (size_of_int (wf_payload_len f)) d) (\<lambda>(_, d1). G d1)) =
         rbind (DataBuffer_new mem (?n + 1024)) (\<lambda>d. rbind (AppendData mem (Some (w_data w)) ?n d) (\<lambda>(_, d1). G d1))"
    using q len by (simp add: nat_add_distrib)
  then show "rbind (DataBuffer_new mem (size_of_int (wf_payload_len f + 1024))) (\<lambda>d.
           rbind (AppendData mem (Some (GetPayloadData f)) (size_of_int (wf_payload_len f)) d) (\<lambda>(_, d1). G d1)) =
         rbind (pack mem (w_data w)) G"
    by (simp add: pack_def rbind_assoc split_def)
qed

lemma HandleFrame_eq:
  \<comment> \<open>appending what was read, and the loop\<close>
  "HandleFrame vt mem now_ms d s =
     (let f = wb_frame s; n = DataLen d; fuel = Suc (DataLen (wf_buffer f) + n) in
      if 0 < n
      then rbind (AppendData mem (Some (buffer_Data d)) n (wf_buffer f)) (\<lambda>(_, b).
             frame_loop fuel vt mem now_ms None 0 (s\<lparr>wb_frame := f\<lparr>wf_buffer := b\<rparr>\<rparr>))
      else frame_loop fuel vt mem now_ms None 0 s)"
  by (cases "0 < DataLen d"; cases "AppendData mem (Some (buffer_Data d)) (DataLen d) (wf_buffer (wb_frame s))")
    (simp_all add: HandleFrame_def frame_Parse_data [of mem "Some (buffer_Data d)" "DataLen d" "wb_frame s"]
      frame_Parse_data [of mem "Some (buffer_Data d)" 0 "wb_frame s"] split_def Let_def)

lemma ex2I: "P a b \<Longrightarrow> \<exists>x y. P x y"
  by blast

section \<open>The contract of the virtual functions\<close>

text \<open>The virtual functions neither look at the parser nor change it.\<close>

locale ws_derived =
  fixes vt :: "'a ws_base_scheme ws_virtual"
  assumes data_frame: "v_HandleWsData vt data op_code (s\<lparr>wb_frame := f\<rparr>) = on_frame f (v_HandleWsData vt data op_code s)"
    and send_frame: "v_SendWsFrame vt data op_code (s\<lparr>wb_frame := f\<rparr>) = on_frame f (v_SendWsFrame vt data op_code s)"
    and close_frame: "v_HandleWsClose vt data (s\<lparr>wb_frame := f\<rparr>) = on_frame f (v_HandleWsClose vt data s)"
begin

lemma items_frame:
  "(\<And>x s. act x (s\<lparr>wb_frame := f\<rparr>) = on_frame f (act x s)) \<Longrightarrow>
     for_items act xs (s\<lparr>wb_frame := f\<rparr>) = on_frame f (for_items act xs s)"
proof (induction xs arbitrary: s)
  case (Cons x xs)
  show ?case
  proof (cases "act x s")
    case (Inr r)
    then show ?thesis using Cons by (cases r; cases "for_items act xs (snd r)") auto
  qed (simp add: Cons)
qed simp

lemma items_free:
  "for_items (\<lambda>x. v_HandleWsData vt (g x) op_code) xs (s\<lparr>wb_frame := f\<rparr>) = on_frame f (for_items (\<lambda>x. v_HandleWsData vt (g x) op_code) xs s)"
  "for_items (\<lambda>x. v_SendWsFrame vt (g x) op_code) xs (s\<lparr>wb_frame := f\<rparr>) = on_frame f (for_items (\<lambda>x. v_SendWsFrame vt (g x) op_code) xs s)"
  "for_items (\<lambda>x. v_HandleWsClose vt (g x)) xs (s\<lparr>wb_frame := f\<rparr>) = on_frame f (for_items (\<lambda>x. v_HandleWsClose vt (g x)) xs s)"
  by (rule items_frame, simp add: data_frame send_frame close_frame)+

lemma dispatch_frame: "dispatch vt now_ms op_code (s\<lparr>wb_frame := f\<rparr>) = on_frame f (dispatch vt now_ms op_code s)"
proof -
  show ?thesis
    unfolding dispatch_def HandleWsPing_def Let_def frame_out items_free
    by (auto simp: on_frame_def rbind_assoc split_def items_free frame_out)
qed

lemma accept_frame_free:
  "accept_frame vt mem now_ms w (s\<lparr>wb_frame := f\<rparr>) = on_frame f (accept_frame vt mem now_ms w s)"
proof -
  let ?l = "\<lambda>s. if w_op w = 1 \<or> w_op w = 2 then s\<lparr>wb_last_op_code := w_op w\<rparr> else s"
  have c: "(?l (s\<lparr>wb_frame := f\<rparr>))\<lparr>wb_recv_buffer_vec := wb_recv_buffer_vec (?l (s\<lparr>wb_frame := f\<rparr>)) @ [d]\<rparr>
      = ((?l s)\<lparr>wb_recv_buffer_vec := wb_recv_buffer_vec (?l s) @ [d]\<rparr>)\<lparr>wb_frame := f\<rparr>" for d
    by simp
  show ?thesis
  proof (cases "pack mem (w_data w)")
    case (Inr d)
    show ?thesis unfolding accept_frame_def Let_def Inr rbind_simps c by (simp add: dispatch_frame)
  qed (simp add: accept_frame_def)
qed

lemmas accept_frames_free = items_frame [where act = "accept_frame vt mem now_ms" for mem now_ms, OF accept_frame_free]

lemma accept_frame_keeps:
  assumes "accept_frame vt mem now_ms w s = Inr (outs, s')"
  shows "wb_frame s' = wb_frame s"
proof -
  have "accept_frame vt mem now_ms w (s\<lparr>wb_frame := wb_frame s\<rparr>) = Inr (outs, s')" using assms by simp
  then show ?thesis unfolding accept_frame_free assms by (auto dest: arg_cong [of _ _ wb_frame])
qed

lemma loop_turn:
  assumes sy: "synced (w # ws) future (wb_frame s)" and w: "wire_ok w" and len: "length (w_data w) < 0x7fff0000"
    and arrived: "\<not> length (contents (wf_buffer (wb_frame s))) < length (wire_bytes w)"
  shows "\<exists>f. synced ws future f \<and> length (contents (wf_buffer f)) + 2 \<le> length (contents (wf_buffer (wb_frame s))) \<and>
    frame_loop (Suc fuel) vt mem now_ms None 0 s = rbind (accept_frame vt mem now_ms w s) (\<lambda>(outs, s4).
      if contents (wf_buffer f) \<noteq> []
      then rbind (frame_loop fuel vt mem now_ms None 0 (s4\<lparr>wb_frame := f\<rparr>)) (\<lambda>(r, outs', s5). Inr (r, outs @ outs', s5))
      else Inr (0, outs, s4\<lparr>wb_frame := f\<rparr>))"
proof -
  let ?n = "length (w_data w)" let ?h = "head_len (w_masked w) ?n"
  obtain f' where f': "frame_Parse mem None 0 (wb_frame s) = Inr (0, f')" "wire_ready w f'" "buffer_ok (wf_buffer f')"
    "take ?n (drop ?h (contents (wf_buffer f'))) = w_data w" "?h + ?n \<le> length (contents (wf_buffer f'))"
    "length (contents (wf_buffer f')) = length (contents (wf_buffer (wb_frame s)))"
    "drop (?h + ?n) (contents (wf_buffer f')) @ future = concat (map wire_bytes ws)"
    using parse_turn [OF sy w len, of mem] arrived by auto
  let ?f = "frame_Reset (frame_Consume (?h + ?n) f')"
  note P = payload_turn [OF f'(2,3,5,4) len]
  note C = consume_turn [OF f'(3,5,7)]
  have q: "wf_payload_start f' = int ?h" "wf_payload_len f' = int ?n" "wf_opcode f' = w_op w" "wf_fin f' = w_fin w"
    using f'(2) by (simp_all add: wire_ready_def frame_ready_def)
  have h: "2 \<le> ?h" "?h \<le> 14" by (rule head_len_bounds)+
  have a: "ladd (wf_payload_len f') 1024 = Inr (wf_payload_len f' + 1024)"
    "ladd (wf_payload_start f') (wf_payload_len f') = Inr (int (?h + ?n))" "size_of_int (int (?h + ?n)) = ?h + ?n"
    using q len h by (simp_all add: ladd_def)
  have l: "DataLen (wf_buffer ?f) = length (contents (wf_buffer ?f))"
    using C(1) by (intro DataLen_contents) (simp add: synced_def)
  let ?K = "\<lambda>(outs, s4). if 0 < DataLen (wf_buffer (wb_frame s4))
      then rbind (frame_loop fuel vt mem now_ms None 0 s4) (\<lambda>(r, outs', s5). Inr (r, outs @ outs', s5))
      else Inr (0, outs, s4)"
  have "frame_loop (Suc fuel) vt mem now_ms None 0 s = rbind (accept_frame vt mem now_ms w (s\<lparr>wb_frame := ?f\<rparr>)) ?K"
    unfolding frame_loop.simps(2) f'(1) rbind_simps prod.case Let_def a P(2) accept_frame_def
    by (simp add: P(1) q rbind_assoc split_def frame_out cong: if_cong)
  then have "frame_loop (Suc fuel) vt mem now_ms None 0 s = rbind (on_frame ?f (accept_frame vt mem now_ms w s)) ?K"
    by (simp only: accept_frame_free)
  then have "frame_loop (Suc fuel) vt mem now_ms None 0 s = rbind (accept_frame vt mem now_ms w s) (\<lambda>(outs, s4).
      if contents (wf_buffer ?f) \<noteq> []
      then rbind (frame_loop fuel vt mem now_ms None 0 (s4\<lparr>wb_frame := ?f\<rparr>)) (\<lambda>(r, outs', s5). Inr (r, outs @ outs', s5))
      else Inr (0, outs, s4\<lparr>wb_frame := ?f\<rparr>))"
    by (cases "accept_frame vt mem now_ms w s") (auto simp: l simp del: frame_loop.simps)
  moreover have "length (contents (wf_buffer ?f)) + 2 \<le> length (contents (wf_buffer (wb_frame s)))"
    unfolding C(2) using f'(5,6) h by simp
  ultimately show ?thesis using C(1) by blast
qed

lemma loop_frames:
  assumes "synced ws future (wb_frame s)" "\<forall>w \<in> set ws. wire_ok w \<and> length (w_data w) < 0x7fff0000"
    "length (contents (wf_buffer (wb_frame s))) < fuel"
  shows "\<exists>ds rest. ws = ds @ rest \<and>
     (case for_items (accept_frame vt mem now_ms) ds s of
        Inl e \<Rightarrow> frame_loop fuel vt mem now_ms None 0 s = Inl e
      | Inr (outs, s') \<Rightarrow> \<exists>ret f. frame_loop fuel vt mem now_ms None 0 s = Inr (ret, outs, s'\<lparr>wb_frame := f\<rparr>) \<and>
          synced rest future f \<and> waiting rest f)"
  using assms
proof (induction fuel arbitrary: ws s)
  case 0
  then show ?case by simp
next
  case (Suc fuel)
  show ?case
  proof (cases ws)
    case Nil
    then have p: "frame_Parse mem None 0 (wb_frame s) = Inr (1, wb_frame s)" using synced_Nil Suc.prems(1) by blast
    then show ?thesis using Suc.prems(1) by (intro ex2I [of _ "[]" ws]) (auto simp: Let_def Nil waiting_def intro!: exI [of _ "wb_frame s"])
  next
    case (Cons w ws')
    have w: "wire_ok w" "length (w_data w) < 0x7fff0000" using Suc.prems(2) Cons by auto
    have sy: "synced (w # ws') future (wb_frame s)" using Suc.prems(1) Cons by simp
    show ?thesis
    proof (cases "length (contents (wf_buffer (wb_frame s))) < length (wire_bytes w)")
      case True
      then obtain f' where "frame_Parse mem None 0 (wb_frame s) = Inr (1, f')" "synced ws future f'" "waiting ws f'"
        using parse_turn [OF sy w, of mem] Cons by auto
      then show ?thesis by (intro ex2I [of _ "[]" ws]) (auto simp: Let_def)
    next
      case False
      obtain f where f: "synced ws' future f" "length (contents (wf_buffer f)) + 2 \<le> length (contents (wf_buffer (wb_frame s)))"
        and L: "frame_loop (Suc fuel) vt mem now_ms None 0 s = rbind (accept_frame vt mem now_ms w s) (\<lambda>(outs, s4).
          if contents (wf_buffer f) \<noteq> []
          then rbind (frame_loop fuel vt mem now_ms None 0 (s4\<lparr>wb_frame := f\<rparr>)) (\<lambda>(r, outs', s5). Inr (r, outs @ outs', s5))
          else Inr (0, outs, s4\<lparr>wb_frame := f\<rparr>))"
        using loop_turn [OF sy w False] by blast
      show ?thesis
      proof (cases "accept_frame vt mem now_ms w s")
        case (Inl e)
        then show ?thesis by (intro ex2I [of _ "[w]" ws']) (simp add: L Cons del: frame_loop.simps)
      next
        case (Inr r)
        then obtain outs s4 where a: "accept_frame vt mem now_ms w s = Inr (outs, s4)" by (cases r) auto
        show ?thesis
        proof (cases "contents (wf_buffer f) = []")
          case True
          then have "waiting ws' f" using wire_bytes_pos Suc.prems(2) Cons by (cases ws') (auto simp: waiting_def)
          then show ?thesis using f True
            by (intro ex2I [of _ "[w]" ws']) (auto simp: L a Cons simp del: frame_loop.simps)
        next
          case F: False
          obtain ds rest where d: "ws' = ds @ rest"
            "case for_items (accept_frame vt mem now_ms) ds (s4\<lparr>wb_frame := f\<rparr>) of
               Inl e \<Rightarrow> frame_loop fuel vt mem now_ms None 0 (s4\<lparr>wb_frame := f\<rparr>) = Inl e
             | Inr (outs, s') \<Rightarrow> \<exists>ret g. frame_loop fuel vt mem now_ms None 0 (s4\<lparr>wb_frame := f\<rparr>) = Inr (ret, outs, s'\<lparr>wb_frame := g\<rparr>) \<and>
                 synced rest future g \<and> waiting rest g"
            using Suc.IH [of ws' "s4\<lparr>wb_frame := f\<rparr>"] f Suc.prems Cons by auto
          show ?thesis
            using d F by (intro ex2I [of _ "w # ds" rest])
              (cases "for_items (accept_frame vt mem now_ms) ds s4",
               auto simp: L a Cons accept_frames_free simp del: frame_loop.simps)
        qed
      qed
    qed
  qed
qed

section \<open>A stream of reads\<close>

lemma read_frames:
  assumes sy: "synced ws (chunk @ future) (wb_frame s)" and ws: "\<forall>w \<in> set ws. wire_ok w \<and> length (w_data w) < 0x7fff0000"
    and len: "length (contents (wf_buffer (wb_frame s))) + length chunk < 0x7fffa000"
    and d: "DataLen d = length chunk" "take (length chunk) (buffer_Data d) = chunk"
  shows "HandleFrame vt mem now_ms d s = Inl Overlap \<and> overlaps (length chunk) (wf_buffer (wb_frame s)) \<or>
     (\<exists>ds rest. ws = ds @ rest \<and>
       (case for_items (accept_frame vt mem now_ms) ds s of
          Inl e \<Rightarrow> HandleFrame vt mem now_ms d s = Inl e
        | Inr (outs, s') \<Rightarrow> \<exists>ret f. HandleFrame vt mem now_ms d s = Inr (ret, outs, s'\<lparr>wb_frame := f\<rparr>) \<and>
            synced rest future f \<and> waiting rest f))"
proof -
  let ?f = "wb_frame s" let ?b = "wf_buffer ?f" let ?n = "length chunk"
  let ?fuel = "Suc (DataLen ?b + ?n)"
  have ok: "buffer_ok ?b" using sy by (simp add: synced_def)
  have n: "?n \<le> length (buffer_Data d)" using d(2) by (metis length_take min.cobounded1 min.commute)
  have fit: "within_limit ?n ?b" using len length_contents [OF ok] by (simp add: within_limit_def)
  have step: "HandleFrame vt mem now_ms d s =
      (if 0 < ?n then rbind (AppendData mem (Some (buffer_Data d)) ?n ?b) (\<lambda>(_, b). frame_loop ?fuel vt mem now_ms None 0 (s\<lparr>wb_frame := ?f\<lparr>wf_buffer := b\<rparr>\<rparr>))
       else frame_loop ?fuel vt mem now_ms None 0 s)"
    by (simp add: HandleFrame_eq Let_def d(1) del: frame_loop.simps)
  show ?thesis
  proof (cases "?n = 0")
    case True
    then have s0: "synced ws future ?f" using sy by simp
    have lt: "length (contents ?b) < ?fuel" using DataLen_contents [OF ok] by simp
    have eq: "HandleFrame vt mem now_ms d s = frame_loop ?fuel vt mem now_ms None 0 s" using step True by simp
    show ?thesis unfolding eq by (rule disjI2) (rule loop_frames [OF s0 ws lt])
  next
    case False
    show ?thesis
    proof (cases "overlaps ?n ?b")
      case True
      then show ?thesis using AppendData_outcome [OF ok n fit, of mem] False by (simp add: step)
    next
      case no: False
      then obtain r b where b: "AppendData mem (Some (buffer_Data d)) ?n ?b = Inr (r, b)" "buffer_ok b" "contents b = contents ?b @ chunk"
        using AppendData_outcome [OF ok n fit, of mem] d(2) by auto
      let ?s = "s\<lparr>wb_frame := ?f\<lparr>wf_buffer := b\<rparr>\<rparr>"
      have "synced ws future (wb_frame ?s)"
        using sy b by (auto simp: synced_def wire_ready_def frame_ready_def)
      moreover have "length (contents (wf_buffer (wb_frame ?s))) < ?fuel"
        using b(3) DataLen_contents [OF ok] by simp
      ultimately obtain ds rest where "ws = ds @ rest"
        "case for_items (accept_frame vt mem now_ms) ds ?s of
           Inl e \<Rightarrow> frame_loop ?fuel vt mem now_ms None 0 ?s = Inl e
         | Inr (outs, s') \<Rightarrow> \<exists>ret f. frame_loop ?fuel vt mem now_ms None 0 ?s = Inr (ret, outs, s'\<lparr>wb_frame := f\<rparr>) \<and>
             synced rest future f \<and> waiting rest f"
        using loop_frames [OF _ ws] by blast
      moreover have "HandleFrame vt mem now_ms d s = frame_loop ?fuel vt mem now_ms None 0 ?s" using False b(1) step by simp
      ultimately show ?thesis
        by (intro disjI2 ex2I [of _ ds rest])
          (cases "for_items (accept_frame vt mem now_ms) ds s", auto simp: accept_frames_free)
    qed
  qed
qed

lemma recv_chunk_frames:
  assumes sy: "synced ws (chunk @ future) (wb_frame s)" and ws: "\<forall>w \<in> set ws. wire_ok w \<and> length (w_data w) < 0x7fff0000"
    and len: "length (contents (wf_buffer (wb_frame s))) + length chunk < 0x7fffa000"
  shows "recv_chunk vt mem now_ms chunk s = Inl Overlap \<and> overlaps (length chunk) (wf_buffer (wb_frame s)) \<or>
     (\<exists>ds rest. ws = ds @ rest \<and>
       (case for_items (accept_frame vt mem now_ms) ds s of
          Inl e \<Rightarrow> recv_chunk vt mem now_ms chunk s = Inl e
        | Inr (outs, s') \<Rightarrow> \<exists>f. recv_chunk vt mem now_ms chunk s = Inr (outs, s'\<lparr>wb_frame := f\<rparr>) \<and>
            synced rest future f \<and> waiting rest f))"
proof -
  obtain r d where d: "rbind (DataBuffer_new mem (length chunk)) (AppendData mem (Some chunk) (length chunk)) = Inr (r, d)"
    "contents d = chunk" "db_len d = int (length chunk)"
    using append_once [of "length chunk" chunk mem] len by auto
  have "recv_chunk vt mem now_ms chunk s =
      rbind (rbind (DataBuffer_new mem (length chunk)) (AppendData mem (Some chunk) (length chunk)))
        (\<lambda>(_, d1). rbind (HandleFrame vt mem now_ms d1 s) (\<lambda>(_, outs, s1). Inr (outs, s1)))"
    by (simp add: recv_chunk_def rbind_assoc)
  then have e: "recv_chunk vt mem now_ms chunk s = rbind (HandleFrame vt mem now_ms d s) (\<lambda>(_, outs, s1). Inr (outs, s1))"
    by (simp add: d(1))
  have l: "DataLen d = length chunk" "take (length chunk) (buffer_Data d) = chunk"
    using d(2,3) len by (simp_all add: DataLen_def contents_Data)
  from read_frames [OF sy ws len l, of mem now_ms] show ?thesis
  proof (elim disjE exE conjE)
    fix ds rest
    assume "ws = ds @ rest" "case for_items (accept_frame vt mem now_ms) ds s of
          Inl e \<Rightarrow> HandleFrame vt mem now_ms d s = Inl e
        | Inr (outs, s') \<Rightarrow> \<exists>ret f. HandleFrame vt mem now_ms d s = Inr (ret, outs, s'\<lparr>wb_frame := f\<rparr>) \<and>
            synced rest future f \<and> waiting rest f"
    then show ?thesis unfolding e
      by (intro disjI2 ex2I [of _ ds rest]) (auto split: sum.splits)
  qed (simp add: e)
qed

lemma dispatch_keeps:
  assumes "dispatch vt now_ms op_code s = Inr (outs, s')"
  shows "wb_frame s' = wb_frame s"
proof -
  have "dispatch vt now_ms op_code (s\<lparr>wb_frame := wb_frame s\<rparr>) = Inr (outs, s')" using assms by simp
  then show ?thesis unfolding dispatch_frame assms by (auto dest: arg_cong [of _ _ wb_frame])
qed

lemma frame_loop_end:
  assumes "frame_loop fuel vt mem now_ms None 0 s = Inr (ret, outs, s')"
  shows "db_size (wf_buffer (wb_frame s')) = db_size (wf_buffer (wb_frame s)) \<and>
    db_end (wf_buffer (wb_frame s')) \<le> max 200 (db_end (wf_buffer (wb_frame s)))"
  using assms
proof (induction fuel arbitrary: s ret outs s')
  case (Suc fuel)
  from Suc.prems obtain r f where p: "frame_Parse mem None 0 (wb_frame s) = Inr (r, f)" by auto
  note e = frame_Parse_end [OF p]
  consider "wb_frame s' = f"
    | k s4 r' o' where "wb_frame s4 = frame_Reset (frame_Consume k f)"
        "s' = s4 \<or> frame_loop fuel vt mem now_ms None 0 s4 = Inr (r', o', s')"
    using Suc.prems by (auto simp: p Let_def split: if_splits dest!: dispatch_keeps) force+
  then show ?case
  proof cases
    case (2 k s4 r' o')
    then show ?thesis using e frame_Consume_end [of k f] Suc.IH [of s4 r' o' s'] by auto
  qed (use e in simp)
qed simp

lemma recv_chunk_roomy:
  assumes ok: "buffer_ok (wf_buffer (wb_frame s))" and room: "roomy (length chunk + m) (wf_buffer (wb_frame s))"
    and r: "recv_chunk vt mem now_ms chunk s = Inr (outs, s')" and len: "length chunk < 0x7fffa000"
  shows "roomy m (wf_buffer (wb_frame s'))"
proof -
  let ?b = "wf_buffer (wb_frame s)" let ?n = "length chunk"
  obtain x d where d: "rbind (DataBuffer_new mem ?n) (AppendData mem (Some chunk) ?n) = Inr (x, d)"
    "contents d = chunk" "db_len d = int ?n"
    using append_once [of ?n chunk mem] len by auto
  have "recv_chunk vt mem now_ms chunk s =
      rbind (rbind (DataBuffer_new mem ?n) (AppendData mem (Some chunk) ?n))
        (\<lambda>(_, d1). rbind (HandleFrame vt mem now_ms d1 s) (\<lambda>(_, outs, s1). Inr (outs, s1)))"
    by (simp add: recv_chunk_def rbind_assoc)
  then obtain ret where h: "HandleFrame vt mem now_ms d s = Inr (ret, outs, s')"
    using r by (cases "HandleFrame vt mem now_ms d s") (auto simp: d(1))
  have l: "DataLen d = ?n" "?n \<le> length (buffer_Data d)"
    using d(2,3) len contents_Data [of d] by (auto simp: DataLen_def dest: arg_cong [of _ _ length])
  obtain fuel b where b: "frame_loop fuel vt mem now_ms None 0 (s\<lparr>wb_frame := (wb_frame s)\<lparr>wf_buffer := b\<rparr>\<rparr>) = Inr (ret, outs, s')"
    and m: "roomy m b"
  proof (cases "?n = 0")
    case True
    then show thesis using h room that [of _ ?b] by (auto simp: HandleFrame_eq Let_def l simp del: frame_loop.simps)
  next
    case False
    then obtain y b fuel where a: "AppendData mem (Some (buffer_Data d)) ?n ?b = Inr (y, b)"
      "frame_loop fuel vt mem now_ms None 0 (s\<lparr>wb_frame := (wb_frame s)\<lparr>wf_buffer := b\<rparr>\<rparr>) = Inr (ret, outs, s')"
      using h by (auto simp: HandleFrame_eq Let_def l simp del: frame_loop.simps)
    show thesis using that [OF a(2) AppendData_roomy [OF ok l(2) room a(1)]] .
  qed
  show ?thesis using frame_loop_end [OF b] roomy_shrink [OF m] by simp
qed

lemma items_append:
  "for_items act (xs @ ys) s = rbind (for_items act xs s) (\<lambda>(outs, s1). rbind (for_items act ys s1) (\<lambda>(outs', s2). Inr (outs @ outs', s2)))"
proof (induction xs arbitrary: s)
  case Nil
  show ?case by (cases "for_items act ys s") auto
next
  case (Cons x xs)
  show ?case by (cases "act x s") (auto simp: Cons.IH rbind_assoc split_def simp del: rbind_eq_Inr)
qed

lemma recv_chunk_exact:
  \<comment> \<open>a read that carries whole frames and finds the parser between two frames\<close>
  assumes sy: "synced ws chunk (wb_frame s)" and ws: "\<forall>w \<in> set ws. wire_ok w \<and> length (w_data w) < 0x7fff0000"
    and len: "length chunk < 0x7fffa000" and idle: "contents (wf_buffer (wb_frame s)) = []"
  shows "case for_items (accept_frame vt mem now_ms) ws s of
     Inl e \<Rightarrow> recv_chunk vt mem now_ms chunk s = Inl e
   | Inr (outs, s') \<Rightarrow> \<exists>f. recv_chunk vt mem now_ms chunk s = Inr (outs, s'\<lparr>wb_frame := f\<rparr>) \<and> synced [] [] f"
proof -
  have "\<not> overlaps (length chunk) (wf_buffer (wb_frame s))"
    using idle sy length_contents [of "wf_buffer (wb_frame s)"] by (auto simp: overlaps_def synced_def)
  then obtain ds rest where ds: "ws = ds @ rest"
    "case for_items (accept_frame vt mem now_ms) ds s of Inl e \<Rightarrow> recv_chunk vt mem now_ms chunk s = Inl e
     | Inr (outs, s') \<Rightarrow> \<exists>f. recv_chunk vt mem now_ms chunk s = Inr (outs, s'\<lparr>wb_frame := f\<rparr>) \<and>
         synced rest [] f \<and> waiting rest f"
    using recv_chunk_frames [of ws chunk "[]" s mem now_ms] sy ws len idle by auto
  show ?thesis
  proof (cases "for_items (accept_frame vt mem now_ms) ds s")
    case (Inl e)
    then show ?thesis using ds by (simp add: items_append)
  next
    case (Inr r)
    with ds obtain f where f: "recv_chunk vt mem now_ms chunk s = Inr (fst r, (snd r)\<lparr>wb_frame := f\<rparr>)" "synced rest [] f" "waiting rest f"
      by (cases r) auto
    then have "rest = []" by (cases rest) (auto simp: synced_def waiting_def)
    with f ds Inr show ?thesis by (cases r) auto
  qed
qed

lemma recv_chunks_frames:
  assumes "synced ws (concat (map snd cs)) (wb_frame s)" "waiting ws (wb_frame s)"
    "\<forall>w \<in> set ws. wire_ok w \<and> length (w_data w) < 0x7fff0000"
    "length (contents (wf_buffer (wb_frame s))) + length (concat (map snd cs)) < 0x7fffa000"
  shows "for_items (\<lambda>(now_ms, chunk). recv_chunk vt mem now_ms chunk) cs s = Inl Overlap \<or>
     (\<exists>ts rest. ws = concat (map snd ts) @ rest \<and> map fst ts = take (length ts) (map fst cs) \<and>
       (case for_items (\<lambda>(now_ms, ds). for_items (accept_frame vt mem now_ms) ds) ts s of
          Inl e \<Rightarrow> for_items (\<lambda>(now_ms, chunk). recv_chunk vt mem now_ms chunk) cs s = Inl e
        | Inr (outs, s') \<Rightarrow> rest = [] \<and>
            (\<exists>f. for_items (\<lambda>(now_ms, chunk). recv_chunk vt mem now_ms chunk) cs s = Inr (outs, s'\<lparr>wb_frame := f\<rparr>) \<and> synced [] [] f)))"
  using assms
proof (induction cs arbitrary: ws s)
  case Nil
  then have "ws = []" by (cases ws) (auto simp: synced_def waiting_def)
  then show ?case using Nil by (intro disjI2 exI [of _ "[]"]) (auto intro!: exI [of _ "wb_frame s"])
next
  case (Cons c cs)
  obtain now_ms chunk where c: "c = (now_ms, chunk)" by (cases c)
  let ?future = "concat (map snd cs)" let ?acc = "for_items (accept_frame vt mem now_ms)"
  let ?R = "for_items (\<lambda>(now_ms, chunk). recv_chunk vt mem now_ms chunk)"
  let ?T = "for_items (\<lambda>(now_ms, ds). for_items (accept_frame vt mem now_ms) ds)"
  have sy: "synced ws (chunk @ ?future) (wb_frame s)" using Cons.prems(1) c by simp
  have len: "length (contents (wf_buffer (wb_frame s))) + length chunk < 0x7fffa000"
    using Cons.prems(4) c by simp
  from recv_chunk_frames [OF sy Cons.prems(3) len, of mem now_ms] consider
    "recv_chunk vt mem now_ms chunk s = Inl Overlap"
    | ds rest where "ws = ds @ rest" "case ?acc ds s of Inl e \<Rightarrow> recv_chunk vt mem now_ms chunk s = Inl e
        | Inr (outs, s') \<Rightarrow> \<exists>f. recv_chunk vt mem now_ms chunk s = Inr (outs, s'\<lparr>wb_frame := f\<rparr>) \<and>
            synced rest ?future f \<and> waiting rest f" by blast
  then show ?case
  proof cases
    case 1
    then show ?thesis by (simp add: c)
  next
    case (2 ds rest)
    show ?thesis
    proof (cases "?acc ds s")
      case (Inl e)
      with 2 show ?thesis by (intro disjI2 ex2I [of _ "[(now_ms, ds)]" rest]) (simp add: c)
    next
      case (Inr r)
      obtain outs s' where r: "r = (outs, s')" by (cases r)
      with 2 Inr obtain f where f: "recv_chunk vt mem now_ms chunk s = Inr (outs, s'\<lparr>wb_frame := f\<rparr>)"
        "synced rest ?future f" "waiting rest f" by auto
      have lf: "length (contents (wf_buffer f)) + length ?future < 0x7fffa000"
        using synced_shrinks [OF sy 2(1) f(2)] Cons.prems(4) c by (simp del: length_concat)
      let ?s = "s'\<lparr>wb_frame := f\<rparr>"
      from Cons.IH [of rest ?s] f lf Cons.prems(3) 2(1) consider
        "?R cs ?s = Inl Overlap"
        | ts rest' where "rest = concat (map snd ts) @ rest'" "map fst ts = take (length ts) (map fst cs)"
          "case ?T ts ?s of Inl e \<Rightarrow> ?R cs ?s = Inl e
            | Inr (outs, s') \<Rightarrow> rest' = [] \<and> (\<exists>f. ?R cs ?s = Inr (outs, s'\<lparr>wb_frame := f\<rparr>) \<and> synced [] [] f)"
        by auto
      then show ?thesis
      proof cases
        case 1
        then show ?thesis by (simp add: c f(1))
      next
        case (2 ts rest')
        have T: "?T ts ?s = on_frame f (?T ts s')" by (rule items_frame) (auto simp: accept_frames_free)
        show ?thesis
          using 2 \<open>ws = ds @ rest\<close> f(1) Inr r
          by (intro disjI2 ex2I [of _ "(now_ms, ds) # ts" rest']) (cases "?T ts s'", auto simp: c T)
      qed
    qed
  qed
qed

end

end
