(* ===== verification/Websocket_Session.thy ===== *)
theory Websocket_Session
  imports Websocket_Base Rtp_Packet
begin

text \<open>
  \<open>WebSocketSession\<close> and \<open>WebSocketServer\<close> of \<open>net/http/websocket/websocket_session.{hpp,cpp}\<close> and
  \<open>websocket_server.{hpp,cpp}\<close>: the server's end of the signalling connection, with the HTTP upgrade request, the frames it
  writes and reads, the closing handshake and the timers. The TCP socket (libuv) and the callback object are left out,
  what they are told is returned; \<open>ss_session\<close> says whether \<open>session_\<close> still owns a socket. Parameters: \<open>sha1\<close>, the digest of
  OpenSSL (\<open>None\<close> when it fails), and \<open>handles\<close>, the handlers registered for paths, which set up a session. The private
  members of the class that hide members of the base class are never used and left out, as is logging.
\<close>

section \<open>State\<close>

record ws_session = ws_base +
  ss_session :: bool
  ss_remote_addr :: bytes
  ss_http_request_ready :: bool
  ss_http_recv_buffer :: data_buffer
  ss_method :: bytes
  ss_path :: bytes
  ss_query_map :: "(bytes, bytes) omap"
  ss_headers :: "(bytes, bytes) omap"
  ss_response_headers :: "(bytes, bytes) omap"
  ss_sec_ws_ver :: int
  ss_sec_ws_key :: bytes
  ss_sec_ws_protocol :: bytes
  ss_hash_code :: bytes
  ss_cb :: bool

definition WebSocketSession_new :: "(nat \<Rightarrow> u8) \<Rightarrow> (nat \<Rightarrow> u8) \<Rightarrow> bool \<Rightarrow> int \<Rightarrow> bytes \<Rightarrow> (ws_out list \<times> ws_session) res" where
  \<comment> \<open>the constructor with \<open>Init\<close>\<close>
  "WebSocketSession_new mem rnd is_client now_ms remote_addr =
     rbind (WebSocketFrame_new mem) (\<lambda>f.
     rbind (DataBuffer_new mem 10240) (\<lambda>d.
       Inr ([TcpRead],
         \<lparr>wb_frame = f, wb_recv_buffer_vec = [], wb_last_op_code = 1, wb_die_count = 0, wb_last_recv_pong_ms = now_ms,
          wb_last_send_ping_ms = now_ms, wb_is_connected = True, wb_close = False, wb_is_client = is_client, wb_random = rnd,
          ss_session = True, ss_remote_addr = remote_addr, ss_http_request_ready = False, ss_http_recv_buffer = d,
          ss_method = [], ss_path = [], ss_query_map = [], ss_headers = [], ss_response_headers = [], ss_sec_ws_ver = 13,
          ss_sec_ws_key = [], ss_sec_ws_protocol = [], ss_hash_code = [], ss_cb = False\<rparr>)))"

definition SetSessionCallback :: "bool \<Rightarrow> ws_session \<Rightarrow> ws_session" where
  "SetSessionCallback cb s = s\<lparr>ss_cb := cb\<rparr>"

definition AddHeader :: "bytes \<Rightarrow> bytes \<Rightarrow> ws_session \<Rightarrow> ws_session" where
  "AddHeader key val s = s\<lparr>ss_response_headers := om_insert key val (ss_response_headers s)\<rparr>"

section \<open>Writing\<close>

definition session_write :: "bytes \<Rightarrow> ws_session ws_step" where
  "session_write data s = (if ss_session s then Inr ([TcpWrite data], s) else Inl NullDeref)"

definition session_read :: "ws_session ws_step" where
  "session_read s = (if ss_session s then Inr ([TcpRead], s) else Inl NullDeref)"

definition draw_key :: "'a ws_base_scheme \<Rightarrow> bytes \<times> 'a ws_base_scheme" where
  \<comment> \<open>four calls of the random generator\<close>
  "draw_key s = (map (wb_random s) [0..<4], s\<lparr>wb_random := \<lambda>i. wb_random s (i + 4)\<rparr>)"

definition session_SendWsFrame :: "bytes \<Rightarrow> u8 \<Rightarrow> ws_session ws_step" where
  "session_SendWsFrame data op_code s =
     (let (key, s1) = draw_key s in
      rbind (frame_writes (wb_is_client s) key op_code data) (\<lambda>ws. for_items session_write ws s1))"

definition ws_session_OnTimer :: "int \<Rightarrow> ws_session ws_step" where
  "ws_session_OnTimer now_ms s =
     (if \<not> wb_is_connected s then Inr ([], s)
      else if 2000 < now_ms - wb_last_send_ping_ms s
      then SendPingFrame session_SendWsFrame now_ms (s\<lparr>wb_last_send_ping_ms := now_ms\<rparr>)
      else Inr ([], s))"

definition ws_session_OnWrite :: "int \<Rightarrow> ws_session \<Rightarrow> ws_out list \<times> ws_session" where
  "ws_session_OnWrite ret_code s =
     (if ret_code < 0
      then (if ss_cb s then [OnClose ret_code (str ''tcp write return:'' @ to_string ret_code)] else [],
            s\<lparr>wb_is_connected := False\<rparr>)
      else ([], s))"

section \<open>Data and closing\<close>

definition session_HandleWsData :: "bytes \<Rightarrow> u8 \<Rightarrow> ws_session ws_step" where
  "session_HandleWsData data op_code s =
     Inr (if ss_cb s then
            if op_code = WS_OP_TEXT_TYPE then [OnReadText data]
            else if op_code = WS_OP_BIN_TYPE then [OnReadData data] else []
          else [], s)"

definition CloseSession :: "ws_session \<Rightarrow> ws_out list \<times> ws_session" where
  "CloseSession s =
     (if wb_close s then ([], s)
      else ((if ss_session s then [TcpClose] else []) @ (if ss_cb s then [OnClose 0 (str ''Normal Closure'')] else []),
            s\<lparr>wb_is_connected := False, wb_close := True, ss_session := False\<rparr>))"

definition close_code_invalid :: "u16 \<Rightarrow> bool" where
  "close_code_invalid code \<longleftrightarrow> code < 1000 \<or> 5000 \<le> code \<or> code \<in> {1004, 1005, 1006, 1015}"

definition answer_close :: "(bytes \<Rightarrow> u8 \<Rightarrow> 's ws_step) \<Rightarrow> bytes \<Rightarrow> 's ws_step" where
  \<comment> \<open>what \<open>HandleWsClose\<close> of the session and of the client send back\<close>
  "answer_close send data =
     (if length data \<le> 1 then SendClose send 1002 (str ''Incomplete close code'')
      else if close_code_invalid (of_be (take 2 data)) then SendClose send 1002 (str ''Invalid close code'')
      else send data WS_OP_CLOSE_TYPE)"

definition session_HandleWsClose :: "bytes \<Rightarrow> ws_session ws_step" where
  "session_HandleWsClose data s =
     (if wb_close s then Inr ([], s)
      else rbind (answer_close session_SendWsFrame data s) (\<lambda>(outs, s1).
        let (outs', s2) = CloseSession s1 in Inr (outs @ outs', s2)))"

definition session_vt :: "ws_session ws_virtual" where
  "session_vt = \<lparr>v_HandleWsData = session_HandleWsData, v_SendWsFrame = session_SendWsFrame,
                 v_HandleWsClose = session_HandleWsClose\<rparr>"

section \<open>The upgrade request\<close>

abbreviation crlf :: bytes where "crlf \<equiv> [13, 10]"

fun query_items :: "bytes list \<Rightarrow> (bytes, bytes) omap \<Rightarrow> (bytes, bytes) omap" where
  "query_items [] m = m"
| "query_items (item # items) m =
     (case str_find [61] item of
        None \<Rightarrow> query_items items m
      | Some eq_pos \<Rightarrow> query_items items (om_insert (take eq_pos item) (drop (eq_pos + 1) item) m))"

definition GetPathAndQuery :: "bytes \<Rightarrow> (bytes, bytes) omap \<Rightarrow> bytes \<times> (bytes, bytes) omap" where
  "GetPathAndQuery all_path query_map =
     (case str_find [63] all_path of
        None \<Rightarrow> (all_path, query_map)
      | Some pos \<Rightarrow> (take pos all_path, query_items (StringSplit (drop (pos + 1) all_path) [38]) query_map))"

fun header_lines :: "bytes list \<Rightarrow> (bytes, bytes) omap \<Rightarrow> (bytes, bytes) omap" where
  \<comment> \<open>key up to the byte before the first space; a space in front makes the whole line the key\<close>
  "header_lines [] m = m"
| "header_lines (line # lines) m =
     (case str_find [32] line of
        None \<Rightarrow> header_lines lines m
      | Some pos \<Rightarrow>
          header_lines lines
            (om_insert (String2Lower (if pos = 0 then line else take (pos - 1) line)) (drop (pos + 1) line) m))"

definition OnHandleHttpRequest :: "(bytes \<Rightarrow> (ws_session \<Rightarrow> ws_session) option) \<Rightarrow> ws_session \<Rightarrow> int option \<times> ws_session" where
  \<comment> \<open>\<open>None\<close> when an exception leaves the function; what was stored before stays\<close>
  "OnHandleHttpRequest handles s =
     (let content = contents (ss_http_recv_buffer s) in
      case str_find (crlf @ crlf) content of
        None \<Rightarrow> (Some 1, s)
      | Some pos \<Rightarrow>
          let s1 = s\<lparr>ss_http_request_ready := True\<rparr>; lines = StringSplit (take pos content) crlf in
          if lines = [] then (None, s1)
          else let http_items = StringSplit (hd lines) [32] in
          if length http_items \<noteq> 3 then (None, s1)
          else let (path, query) = GetPathAndQuery (http_items ! 1) (ss_query_map s1);
                   s2 = s1\<lparr>ss_method := http_items ! 0, ss_path := path, ss_query_map := query\<rparr> in
          case handles path of
            None \<Rightarrow> (None, s2)
          | Some callback_func \<Rightarrow>
              let s3 = s2\<lparr>ss_method := String2Lower (ss_method s2), ss_headers := header_lines (tl lines) (ss_headers s2)\<rparr> in
              case om_find (ss_headers s3) (str ''connection'') of
                None \<Rightarrow> (None, s3)
              | Some connection \<Rightarrow>
                  let s4 = s3\<lparr>ss_headers := om_insert (str ''connection'') (String2Lower connection) (ss_headers s3)\<rparr> in
                  if String2Lower connection \<noteq> str ''upgrade'' then (None, s4)
                  else (case om_find (ss_headers s4) (str ''upgrade'') of
                    None \<Rightarrow> (None, s4)
                  | Some upgrade \<Rightarrow>
                      let s5 = s4\<lparr>ss_headers := om_insert (str ''upgrade'') (String2Lower upgrade) (ss_headers s4)\<rparr> in
                      if String2Lower upgrade \<noteq> str ''websocket'' then (None, s5)
                      else let s6 = s5\<lparr>ss_sec_ws_ver := (case om_find (ss_headers s5) (str ''sec-websocket-version'') of
                                         Some v \<Rightarrow> atoi v | None \<Rightarrow> 13)\<rparr> in
                      (case om_find (ss_headers s6) (str ''sec-websocket-key'') of
                         None \<Rightarrow> (None, s6)
                       | Some key \<Rightarrow>
                           let s7 = s6\<lparr>ss_sec_ws_key := key\<rparr>;
                               s8 = (case om_find (ss_headers s7) (str ''sec-webSocket-protocol'') of
                                       Some p \<Rightarrow> s7\<lparr>ss_sec_ws_protocol := p\<rparr> | None \<Rightarrow> s7)
                           in (Some 0, callback_func s8))))"

definition ws_guid :: bytes where
  "ws_guid = str ''258EAFA5-E914-47DA-95CA-C5AB0DC85B11''"

definition GenWebSocketHashcode :: "(bytes \<Rightarrow> bytes option) \<Rightarrow> bytes \<Rightarrow> bytes" where
  "GenWebSocketHashcode sha1 key = (case sha1 (key @ ws_guid) of None \<Rightarrow> [] | Some hash \<Rightarrow> Base64Encode hash)"

definition GenHashcode :: "(bytes \<Rightarrow> bytes option) \<Rightarrow> ws_session \<Rightarrow> bytes \<times> ws_session" where
  "GenHashcode sha1 s =
     (case sha1 (ss_sec_ws_key s @ ws_guid) of
        None \<Rightarrow> ([], s)
      | Some hash \<Rightarrow> (Base64Encode hash, s\<lparr>ss_hash_code := Base64Encode hash\<rparr>))"

definition header_text :: "bytes \<times> bytes \<Rightarrow> bytes" where
  "header_text h = fst h @ str '': '' @ snd h @ crlf"

definition SendHttpResponse :: "(bytes \<Rightarrow> bytes option) \<Rightarrow> ws_session ws_step" where
  "SendHttpResponse sha1 s =
     (let (hash_code, s1) = GenHashcode sha1 s in
      session_write
        (str ''HTTP/1.1 101 Switching Protocols'' @ crlf @ str ''Upgrade: websocket'' @ crlf @ str ''Connection: Upgrade'' @ crlf
         @ str ''Sec-WebSocket-Accept: '' @ hash_code @ crlf @ concat (map header_text (ss_response_headers s1)) @ crlf) s1)"

definition SendErrorResponse :: "ws_session ws_step" where
  "SendErrorResponse = session_write (str ''HTTP/1.1 400 Bad Request'' @ crlf @ crlf)"

section \<open>Reading\<close>

definition then_do :: "'s ws_step \<Rightarrow> 's ws_step \<Rightarrow> 's ws_step" where
  "then_do a b s = rbind (a s) (\<lambda>(outs, s1). rbind (b s1) (\<lambda>(outs', s2). Inr (outs @ outs', s2)))"

definition ws_session_OnRead :: "(nat \<Rightarrow> u8) \<Rightarrow> (bytes \<Rightarrow> bytes option) \<Rightarrow> (bytes \<Rightarrow> (ws_session \<Rightarrow> ws_session) option) \<Rightarrow>
    int \<Rightarrow> int \<Rightarrow> bytes \<Rightarrow> ws_session ws_step" where
  "ws_session_OnRead mem sha1 handles now_ms ret_code data s =
     (if ret_code < 0 then
        Inr (if ss_cb s then [OnClose ret_code (str ''tcp read return:'' @ to_string ret_code)] else [],
             s\<lparr>wb_is_connected := False\<rparr>)
      else if \<not> ss_http_request_ready s then
        rbind (AppendData mem (Some data) (length data) (ss_http_recv_buffer s)) (\<lambda>(_, d).
          case OnHandleHttpRequest handles (s\<lparr>ss_http_recv_buffer := d\<rparr>) of
            (None, s1) \<Rightarrow> Inr ([], s1\<lparr>wb_is_connected := False\<rparr>)
          | (Some ret, s1) \<Rightarrow>
              if ret = 1 then session_read s1
              else if ret = 0 then
                then_do (SendHttpResponse sha1)
                  (\<lambda>s2. session_read (s2\<lparr>ss_http_recv_buffer := buffer_Reset (ss_http_recv_buffer s2)\<rparr>)) s1
              else SendErrorResponse s1)
      else rbind (recv_chunk session_vt mem now_ms data s) (\<lambda>(outs, s1).
        if wb_close s1 \<or> \<not> ss_session s1 then Inr (outs, s1)
        else rbind (session_read s1) (\<lambda>(outs', s2). Inr (outs @ outs', s2))))"

section \<open>The server\<close>

text \<open>The sessions by the address of the peer and the handlers by path; outputs carry the address of their session.\<close>

record ws_server =
  wv_key_file :: bytes
  wv_cert_file :: bytes
  wv_uri_handles :: "(bytes, ws_session \<Rightarrow> ws_session) omap"
  wv_sessions :: "(bytes, ws_session) omap"

definition WebSocketServer_new :: "bytes \<Rightarrow> bytes \<Rightarrow> ws_server" where
  "WebSocketServer_new key_file cert_file =
     \<lparr>wv_key_file = key_file, wv_cert_file = cert_file, wv_uri_handles = [], wv_sessions = []\<rparr>"

definition AddHandle :: "bytes \<Rightarrow> (ws_session \<Rightarrow> ws_session) \<Rightarrow> ws_server \<Rightarrow> ws_server" where
  "AddHandle uri handle_ptr v = v\<lparr>wv_uri_handles := om_insert uri handle_ptr (wv_uri_handles v)\<rparr>"

definition GetHandle :: "ws_server \<Rightarrow> bytes \<Rightarrow> (ws_session \<Rightarrow> ws_session) option" where
  "GetHandle v uri = om_find (wv_uri_handles v) uri"

definition destroyed :: "bytes \<times> ws_session \<Rightarrow> (bytes \<times> ws_out) list" where
  \<comment> \<open>the destructor of a session\<close>
  "destroyed e = map (Pair (fst e)) (fst (CloseSession (snd e)))"

definition server_OnAccept :: "(nat \<Rightarrow> u8) \<Rightarrow> (nat \<Rightarrow> u8) \<Rightarrow> int \<Rightarrow> int \<Rightarrow> bytes \<Rightarrow> ws_server \<Rightarrow>
    ((bytes \<times> ws_out) list \<times> ws_server) res" where
  \<comment> \<open>a session of the same address is replaced and destroyed; with key and certificate the socket is an encrypted one\<close>
  "server_OnAccept mem rnd ret_code now_ms remote_addr v =
     (if ret_code < 0 then Inr ([], v)
      else rbind (WebSocketSession_new mem rnd False now_ms remote_addr) (\<lambda>(outs, s).
        Inr (map (Pair remote_addr) outs
               @ (case om_find (wv_sessions v) remote_addr of None \<Rightarrow> [] | Some s0 \<Rightarrow> destroyed (remote_addr, s0)),
             v\<lparr>wv_sessions := om_insert remote_addr s (wv_sessions v)\<rparr>)))"

definition pong_timeout :: "int \<Rightarrow> ws_session \<Rightarrow> bool" where
  "pong_timeout now_ms s \<longleftrightarrow> 60 * 1000 < now_ms - wb_last_recv_pong_ms s"

definition ws_server_OnTimer :: "int \<Rightarrow> ws_server \<Rightarrow> (bytes \<times> ws_out) list \<times> ws_server" where
  "ws_server_OnTimer now_ms v =
     (concat (map destroyed (filter (\<lambda>e. pong_timeout now_ms (snd e)) (wv_sessions v))),
      v\<lparr>wv_sessions := filter (\<lambda>e. \<not> pong_timeout now_ms (snd e)) (wv_sessions v)\<rparr>)"

section \<open>The session as a derived class\<close>

lemma for_items_write:
  "for_items session_write ws s = (if ss_session s \<or> ws = [] then Inr (map TcpWrite ws, s) else Inl NullDeref)"
  by (induction ws) (auto simp: session_write_def)

definition frame_outs :: "bool \<Rightarrow> bytes \<Rightarrow> u8 \<Rightarrow> bytes \<Rightarrow> ws_out list" where
  "frame_outs masked key op_code data =
     TcpWrite (frame_header op_code (length data) masked) # map TcpWrite (if masked then [key, mask_bytes key data] else [data])"

lemma session_SendWsFrame_eq:
  "session_SendWsFrame data op_code s =
     (if ss_session s then Inr (frame_outs (wb_is_client s) (fst (draw_key s)) op_code data, snd (draw_key s)) else Inl NullDeref)"
  by (simp add: session_SendWsFrame_def draw_key_def frame_writes_layout for_items_write frame_outs_def)

lemma draw_key_frame: "draw_key (s\<lparr>wb_frame := f\<rparr>) = (fst (draw_key s), (snd (draw_key s))\<lparr>wb_frame := f\<rparr>)"
  by (simp add: draw_key_def)

lemma session_SendWsFrame_frame:
  "session_SendWsFrame data op_code (s\<lparr>wb_frame := f\<rparr>) = on_frame f (session_SendWsFrame data op_code s)"
  by (simp add: session_SendWsFrame_eq draw_key_frame)

lemma CloseSession_frame:
  "CloseSession (s\<lparr>wb_frame := f\<rparr>) = (fst (CloseSession s), (snd (CloseSession s))\<lparr>wb_frame := f\<rparr>)"
  by (simp add: CloseSession_def)

lemma answer_close_frame:
  "(\<And>d c. send d c (s\<lparr>wb_frame := f\<rparr>) = on_frame f (send d c s)) \<Longrightarrow>
     answer_close send data (s\<lparr>wb_frame := f\<rparr>) = on_frame f (answer_close send data s)"
  by (simp add: answer_close_def SendClose_def)

interpretation sv: ws_derived session_vt
proof
  fix s :: ws_session and data :: bytes and op_code :: u8 and f :: ws_frame
  show "v_HandleWsData session_vt data op_code (s\<lparr>wb_frame := f\<rparr>) = on_frame f (v_HandleWsData session_vt data op_code s)"
    by (simp add: session_vt_def session_HandleWsData_def)
  show "v_SendWsFrame session_vt data op_code (s\<lparr>wb_frame := f\<rparr>) = on_frame f (v_SendWsFrame session_vt data op_code s)"
    by (simp add: session_vt_def session_SendWsFrame_frame)
  have "answer_close session_SendWsFrame data (s\<lparr>wb_frame := f\<rparr>) = on_frame f (answer_close session_SendWsFrame data s)"
    by (rule answer_close_frame) (rule session_SendWsFrame_frame)
  then show "v_HandleWsClose session_vt data (s\<lparr>wb_frame := f\<rparr>) = on_frame f (v_HandleWsClose session_vt data s)"
    by (cases "answer_close session_SendWsFrame data s")
      (auto simp: session_vt_def session_HandleWsClose_def CloseSession_frame split_def Let_def)
qed

section \<open>Data messages\<close>

definition data_frame :: "wire_frame \<Rightarrow> bool" where
  "data_frame w \<longleftrightarrow> w_fin w \<and> (w_op w = WS_OP_TEXT_TYPE \<or> w_op w = WS_OP_BIN_TYPE)"

definition delivery :: "wire_frame \<Rightarrow> ws_out" where
  "delivery w = (if w_op w = WS_OP_TEXT_TYPE then OnReadText (w_data w) else OnReadData (w_data w))"

lemma accept_data_frame:
  assumes w: "data_frame w" "length (w_data w) < 0x7fff0000" and s: "ss_cb s" "wb_recv_buffer_vec s = []"
  shows "accept_frame session_vt mem now_ms w s = Inr ([delivery w], s\<lparr>wb_last_op_code := w_op w, wb_die_count := 0\<rparr>)"
proof -
  obtain d where "pack mem (w_data w) = Inr d" "contents d = w_data w" using pack_ok [OF w(2)] by blast
  then show ?thesis
    using w s by (auto simp: accept_frame_def data_frame_def dispatch_def Let_def session_vt_def session_HandleWsData_def delivery_def)
qed

lemma accept_data_frames:
  "\<forall>w \<in> set ws. data_frame w \<and> length (w_data w) < 0x7fff0000 \<Longrightarrow> ss_cb s \<Longrightarrow> wb_recv_buffer_vec s = [] \<Longrightarrow>
   \<exists>op_code n. for_items (accept_frame session_vt mem now_ms) ws s = Inr (map delivery ws, s\<lparr>wb_last_op_code := op_code, wb_die_count := n\<rparr>)"
proof (induction ws arbitrary: s)
  case Nil
  show ?case by (intro exI [of _ "wb_last_op_code s"] exI [of _ "wb_die_count s"]) simp
next
  case (Cons w ws)
  let ?s = "s\<lparr>wb_last_op_code := w_op w, wb_die_count := 0\<rparr>"
  obtain op_code n where "for_items (accept_frame session_vt mem now_ms) ws ?s =
      Inr (map delivery ws, ?s\<lparr>wb_last_op_code := op_code, wb_die_count := n\<rparr>)"
    using Cons.IH [of ?s] Cons.prems by auto
  then show ?case using Cons.prems accept_data_frame [of w s mem now_ms] by auto
qed

definition session_open :: "ws_session \<Rightarrow> bool" where
  \<comment> \<open>upgraded, with a socket and a callback object, between two messages\<close>
  "session_open s \<longleftrightarrow> ss_http_request_ready s \<and> ss_session s \<and> \<not> wb_close s \<and> ss_cb s \<and> wb_recv_buffer_vec s = []"

definition moved_onto_itself :: "(int \<times> bytes \<Rightarrow> ws_session ws_step) \<Rightarrow> (int \<times> bytes) list \<Rightarrow> ws_session \<Rightarrow> bool" where
  \<comment> \<open>one of the reads \<open>cs\<close> finds the receive buffer such that \<open>AppendData\<close> copies overlapping bytes\<close>
  "moved_onto_itself act cs s \<longleftrightarrow> (\<exists>pre c post outs s1. cs = pre @ c # post \<and> for_items act pre s = Inr (outs, s1) \<and>
     overlaps (length (snd c)) (wf_buffer (wb_frame s1)))"

lemma moved_onto_itself_here: "overlaps (length (snd c)) (wf_buffer (wb_frame s)) \<Longrightarrow> moved_onto_itself act (c # cs) s"
  unfolding moved_onto_itself_def by (intro exI [of _ "[]"] exI [of _ c] exI [of _ cs] exI [of _ "[]"] exI [of _ s]) simp

lemma moved_onto_itself_later:
  assumes "moved_onto_itself act cs s1" and "act c s = Inr (outs, s1)"
  shows "moved_onto_itself act (c # cs) s"
proof -
  obtain pre x post o' s2 where "cs = pre @ x # post" "for_items act pre s1 = Inr (o', s2)"
    "overlaps (length (snd x)) (wf_buffer (wb_frame s2))" using assms(1) by (auto simp: moved_onto_itself_def)
  then show ?thesis unfolding moved_onto_itself_def
    by (intro exI [of _ "c # pre"] exI [of _ x] exI [of _ post] exI [of _ "outs @ o'"] exI [of _ s2]) (simp add: assms(2))
qed

lemma session_reads_data:
  assumes "synced ws (concat (map snd cs)) (wb_frame s)" "waiting ws (wb_frame s)"
    "\<forall>w \<in> set ws. wire_ok w \<and> data_frame w \<and> length (w_data w) < 0x7fff0000"
    "length (contents (wf_buffer (wb_frame s))) + length (concat (map snd cs)) < 0x7fffa000" "session_open s"
  shows "for_items (\<lambda>(now_ms, chunk). ws_session_OnRead mem sha1 handles now_ms 0 chunk) cs s = Inl Overlap \<and>
       moved_onto_itself (\<lambda>(now_ms, chunk). ws_session_OnRead mem sha1 handles now_ms 0 chunk) cs s \<and>
       \<not> roomy (length (concat (map snd cs))) (wf_buffer (wb_frame s)) \<or>
     (\<exists>outs s'. for_items (\<lambda>(now_ms, chunk). ws_session_OnRead mem sha1 handles now_ms 0 chunk) cs s = Inr (outs, s') \<and>
        filter (\<lambda>x. x \<noteq> TcpRead) outs = map delivery ws \<and> session_open s' \<and> synced [] [] (wb_frame s'))"
  using assms
proof (induction cs arbitrary: ws s)
  case Nil
  then have "ws = []" by (cases ws) (auto simp: synced_def waiting_def)
  then show ?case using Nil by simp
next
  case (Cons c cs)
  obtain now_ms chunk where c: "c = (now_ms, chunk)" by (cases c)
  let ?future = "concat (map snd cs)" let ?acc = "for_items (accept_frame session_vt mem now_ms)"
  let ?R = "for_items (\<lambda>(now_ms, chunk). ws_session_OnRead mem sha1 handles now_ms 0 chunk)"
  have sy: "synced ws (chunk @ ?future) (wb_frame s)" using Cons.prems(1) c by simp
  have len: "length (contents (wf_buffer (wb_frame s))) + length chunk < 0x7fffa000" using Cons.prems(4) c by simp
  have o: "ss_cb s" "wb_recv_buffer_vec s = []" using Cons.prems(5) by (simp_all add: session_open_def)
  have step: "ws_session_OnRead mem sha1 handles now_ms 0 chunk s = rbind (recv_chunk session_vt mem now_ms chunk s) (\<lambda>(outs, s1).
      if wb_close s1 \<or> \<not> ss_session s1 then Inr (outs, s1)
      else rbind (session_read s1) (\<lambda>(outs', s2). Inr (outs @ outs', s2)))"
    using Cons.prems(5) by (simp add: ws_session_OnRead_def session_open_def)
  have ws: "\<forall>w \<in> set ws. wire_ok w \<and> length (w_data w) < 0x7fff0000" using Cons.prems(3) by blast
  from sv.recv_chunk_frames [OF sy ws len, of mem now_ms] consider
    "recv_chunk session_vt mem now_ms chunk s = Inl Overlap" "overlaps (length chunk) (wf_buffer (wb_frame s))"
    | ds rest where "ws = ds @ rest" "case ?acc ds s of Inl e \<Rightarrow> recv_chunk session_vt mem now_ms chunk s = Inl e
        | Inr (outs, s') \<Rightarrow> \<exists>f. recv_chunk session_vt mem now_ms chunk s = Inr (outs, s'\<lparr>wb_frame := f\<rparr>) \<and>
            synced rest ?future f \<and> waiting rest f" by blast
  then show ?case
  proof cases
    case 1
    have "\<not> roomy (length (concat (map snd (c # cs)))) (wf_buffer (wb_frame s))"
      using 1(2) roomy_no_overlap [of "length chunk" "length ?future" "wf_buffer (wb_frame s)"] by (auto simp: c simp del: length_concat)
    with 1 moved_onto_itself_here show ?thesis by (auto simp: c step)
  next
    case (2 ds rest)
    obtain op_code n where a: "?acc ds s = Inr (map delivery ds, s\<lparr>wb_last_op_code := op_code, wb_die_count := n\<rparr>)"
      using accept_data_frames [OF _ o, of ds mem now_ms] Cons.prems(3) 2(1) by auto
    then obtain f where f: "recv_chunk session_vt mem now_ms chunk s =
        Inr (map delivery ds, s\<lparr>wb_last_op_code := op_code, wb_die_count := n\<rparr>\<lparr>wb_frame := f\<rparr>)"
      "synced rest ?future f" "waiting rest f" using 2(2) by auto
    let ?s = "s\<lparr>wb_last_op_code := op_code, wb_die_count := n\<rparr>\<lparr>wb_frame := f\<rparr>"
    have op: "session_open ?s" using Cons.prems(5) by (simp add: session_open_def)
    have r: "ws_session_OnRead mem sha1 handles now_ms 0 chunk s = Inr (map delivery ds @ [TcpRead], ?s)"
      using Cons.prems(5) f(1) by (simp add: step session_read_def session_open_def)
    have lf: "length (contents (wf_buffer (wb_frame ?s))) + length ?future < 0x7fffa000"
      using synced_shrinks [OF sy 2(1) f(2)] Cons.prems(4) c by (simp del: length_concat)
    have "\<forall>x \<in> set (map delivery ds). x \<noteq> TcpRead" by (auto simp: delivery_def)
    then have flt: "filter (\<lambda>x. x \<noteq> TcpRead) (map delivery ds) = map delivery ds" by (simp add: filter_id_conv)
    have room: "\<not> roomy (length (concat (map snd (c # cs)))) (wf_buffer (wb_frame s))"
      if "\<not> roomy (length ?future) (wf_buffer (wb_frame ?s))"
      using that sv.recv_chunk_roomy [OF _ _ f(1), of "length ?future"] sy len by (auto simp: c synced_def simp del: length_concat)
    have later: "moved_onto_itself (\<lambda>(now_ms, chunk). ws_session_OnRead mem sha1 handles now_ms 0 chunk) (c # cs) s"
      if "moved_onto_itself (\<lambda>(now_ms, chunk). ws_session_OnRead mem sha1 handles now_ms 0 chunk) cs ?s"
      by (rule moved_onto_itself_later [OF that]) (simp add: c r)
    from Cons.IH [of rest ?s] f op lf Cons.prems(3) 2(1) consider
      "?R cs ?s = Inl Overlap" "moved_onto_itself (\<lambda>(now_ms, chunk). ws_session_OnRead mem sha1 handles now_ms 0 chunk) cs ?s"
        "\<not> roomy (length ?future) (wf_buffer (wb_frame ?s))"
      | outs s' where "?R cs ?s = Inr (outs, s')" "filter (\<lambda>x. x \<noteq> TcpRead) outs = map delivery rest" "session_open s'"
        "synced [] [] (wb_frame s')" by auto
    then show ?thesis
    proof cases
      case 1
      then show ?thesis using room later by (simp add: c r)
    next
      case (2 outs s')
      then show ?thesis using \<open>ws = ds @ rest\<close> by (simp add: c r flt)
    qed
  qed
qed

definition frame_idle :: "ws_frame \<Rightarrow> bool" where
  \<comment> \<open>between two frames\<close>
  "frame_idle f \<longleftrightarrow> buffer_ok (wf_buffer f) \<and> contents (wf_buffer f) = [] \<and> \<not> wf_header_ready f"

lemma synced_idle: "synced [] [] f \<longleftrightarrow> frame_idle f"
  by (auto simp: synced_def frame_idle_def)

lemma idle_synced: "frame_idle f \<Longrightarrow> \<forall>w \<in> set ws. wire_ok w \<Longrightarrow> synced ws (concat (map wire_bytes ws)) f \<and> waiting ws f"
  using wire_bytes_pos by (cases ws) (auto simp: synced_def frame_idle_def waiting_def)

text \<open>A connection for the witnesses: the masking keys are all sevens.\<close>

definition demo_buffer :: data_buffer where
  "demo_buffer = \<lparr>db_sent_flag = False, db_dst_ip = [], db_dst_port = 0, db_buffer = replicate 2000 0, db_size = 1800,
     db_len = 0, db_start = 200, db_end = 200\<rparr>"

definition demo_frame :: ws_frame where
  "demo_frame = \<lparr>wf_buffer = demo_buffer, wf_payload_start = 0, wf_payload_len = 0, wf_opcode = 0, wf_mask_enable = False,
     wf_fin = False, wf_header_ready = False, wf_masking_key = [0, 0, 0, 0]\<rparr>"

definition demo_session :: ws_session where
  "demo_session = \<lparr>wb_frame = demo_frame, wb_recv_buffer_vec = [], wb_last_op_code = 1, wb_die_count = 0,
     wb_last_recv_pong_ms = 0, wb_last_send_ping_ms = 0, wb_is_connected = True, wb_close = False, wb_is_client = False,
     wb_random = (\<lambda>_. 7), ss_session = True, ss_remote_addr = [], ss_http_request_ready = True,
     ss_http_recv_buffer = demo_buffer, ss_method = [], ss_path = [], ss_query_map = [], ss_headers = [],
     ss_response_headers = [], ss_sec_ws_ver = 13, ss_sec_ws_key = [], ss_sec_ws_protocol = [], ss_hash_code = [], ss_cb = True\<rparr>"

lemma demo_open: "session_open demo_session" "frame_idle (wb_frame demo_session)"
  by (simp_all add: session_open_def frame_idle_def demo_session_def demo_frame_def demo_buffer_def buffer_ok_def contents_def)

section \<open>Properties of reading frames\<close>

text \<open>
  C11. How the stream of bytes is cut into reads does not matter: the reads of an upgraded session have the effect of
  accepting the frames one after the other, each at the time of the read that completed it, with the same outputs, the
  same state and the same failures, whatever the frames are. The exception is the overlapping copy of \<open>DataBuffer\<close>.
\<close>

theorem ws_chunking:
  "frame_idle (wb_frame s) \<Longrightarrow> \<forall>w \<in> set ws. wire_ok w \<and> length (w_data w) < 0x7fff0000 \<Longrightarrow>
   concat (map snd cs) = concat (map wire_bytes ws) \<Longrightarrow> length (concat (map wire_bytes ws)) < 0x7fffa000 \<Longrightarrow>
   (let reads = for_items (\<lambda>(now_ms, chunk). recv_chunk session_vt mem now_ms chunk) cs s in
    reads = Inl Overlap \<or>
    (\<exists>ts rest. ws = concat (map snd ts) @ rest \<and> map fst ts = take (length ts) (map fst cs) \<and>
      (case for_items (\<lambda>(now_ms, ds). for_items (accept_frame session_vt mem now_ms) ds) ts s of
         Inl e \<Rightarrow> reads = Inl e
       | Inr (outs, s') \<Rightarrow> rest = [] \<and> (\<exists>f. reads = Inr (outs, s'\<lparr>wb_frame := f\<rparr>) \<and> frame_idle f))))"
proof -
  assume s: "frame_idle (wb_frame s)" and ws: "\<forall>w \<in> set ws. wire_ok w \<and> length (w_data w) < 0x7fff0000"
    and cs: "concat (map snd cs) = concat (map wire_bytes ws)" and len: "length (concat (map wire_bytes ws)) < 0x7fffa000"
  have sy: "synced ws (concat (map snd cs)) (wb_frame s)" "waiting ws (wb_frame s)"
    using idle_synced [OF s, of ws] ws by (simp_all add: cs)
  have l: "length (contents (wf_buffer (wb_frame s))) + length (concat (map snd cs)) < 0x7fffa000"
    using s len by (simp add: frame_idle_def cs del: length_concat)
  show ?thesis unfolding Let_def synced_idle [symmetric] by (rule sv.recv_chunks_frames [OF sy ws l])
qed

theorem ws_chunking_witness:
  "let w = WireFrame True 9 True [1, 2, 3, 4] [5];
       reads = for_items (\<lambda>(now_ms, chunk). recv_chunk session_vt (\<lambda>_. 0) now_ms chunk)
                 [(10, take 1 (wire_bytes w)), (20, drop 1 (wire_bytes w))] demo_session in
    reads = Inl Overlap \<or>
    (\<exists>ts rest. [w] = concat (map snd ts) @ rest \<and> map fst ts = take (length ts) [10, 20] \<and>
      (case for_items (\<lambda>(now_ms, ds). for_items (accept_frame session_vt (\<lambda>_. 0) now_ms) ds) ts demo_session of
         Inl e \<Rightarrow> reads = Inl e
       | Inr (outs, s') \<Rightarrow> rest = [] \<and> (\<exists>f. reads = Inr (outs, s'\<lparr>wb_frame := f\<rparr>) \<and> frame_idle f)))"
proof -
  let ?w = "WireFrame True 9 True [1, 2, 3, 4] [5]"
  let ?cs = "[(10, take 1 (wire_bytes ?w)), (20, drop 1 (wire_bytes ?w))] :: (int \<times> bytes) list"
  have w: "\<forall>w \<in> set [?w]. wire_ok w \<and> length (w_data w) < 0x7fff0000" by (simp add: wire_ok_def)
  have c: "concat (map snd ?cs) = concat (map wire_bytes [?w])" by simp
  have l: "length (concat (map wire_bytes [?w])) < 0x7fffa000"
    by (simp add: wire_bytes_def length_frame_layout head_len_def length_frame_ext)
  have m: "map fst ?cs = [10, 20]" by simp
  from ws_chunking [OF demo_open(2) w c l, of "\<lambda>_. 0", unfolded Let_def m] show ?thesis unfolding Let_def .
qed

definition ping_frame :: "wire_frame \<Rightarrow> bool" where
  "ping_frame w \<longleftrightarrow> w_fin w \<and> w_op w = WS_OP_PING_TYPE"

text \<open>
  C31. A close frame followed by a ping frame in the same read crashes the server: closing drops the socket, the loop goes
  on with the rest of the read, and the answer to the ping is written through the null pointer.
\<close>

theorem ws_close_then_ping:
  "session_open s \<Longrightarrow> frame_idle (wb_frame s) \<Longrightarrow> wire_ok a \<Longrightarrow> wire_ok b \<Longrightarrow>
   w_fin a \<Longrightarrow> w_op a = WS_OP_CLOSE_TYPE \<Longrightarrow> w_fin b \<Longrightarrow> w_op b = WS_OP_PING_TYPE \<Longrightarrow>
   length (w_data a) + length (w_data b) < 0x7ff00000 \<Longrightarrow>
     ws_session_OnRead mem sha1 handles now_ms 0 (wire_bytes a @ wire_bytes b) s = Inl NullDeref"
proof -
  assume s: "session_open s" "frame_idle (wb_frame s)" and ab: "wire_ok a" "wire_ok b"
    and a: "w_fin a" "w_op a = WS_OP_CLOSE_TYPE" and b: "w_fin b" "w_op b = WS_OP_PING_TYPE"
    and len: "length (w_data a) + length (w_data b) < 0x7ff00000"
  obtain da db where d: "pack mem (w_data a) = Inr da" "contents da = w_data a" "pack mem (w_data b) = Inr db" "contents db = w_data b"
    using pack_ok [of "w_data a" mem] pack_ok [of "w_data b" mem] len by auto
  have send: "\<exists>outs s'. answer_close session_SendWsFrame data t = Inr (outs, s') \<and> ss_session s' \<and> wb_recv_buffer_vec s' = wb_recv_buffer_vec t \<and> wb_close s' = wb_close t"
    if "ss_session t" for data t
    using that by (simp add: answer_close_def SendClose_def session_SendWsFrame_eq draw_key_def)
  let ?t = "s\<lparr>wb_recv_buffer_vec := [da], wb_die_count := 0\<rparr>"
  obtain outs s' where s': "answer_close session_SendWsFrame (w_data a) ?t = Inr (outs, s')" "ss_session s'"
    "wb_recv_buffer_vec s' = [da]" "\<not> wb_close s'"
    using send [of ?t "w_data a"] s(1) by (auto simp: session_open_def)
  have "\<exists>outs s1. accept_frame session_vt mem now_ms a s = Inr (outs, s1) \<and> \<not> ss_session s1 \<and> wb_recv_buffer_vec s1 = []"
    using s(1) a d s' by (simp add: accept_frame_def dispatch_def Let_def session_vt_def session_HandleWsClose_def
        session_open_def CloseSession_def)
  then obtain outs1 s1 where s1: "accept_frame session_vt mem now_ms a s = Inr (outs1, s1)" "\<not> ss_session s1"
    "wb_recv_buffer_vec s1 = []" by blast
  have "accept_frame session_vt mem now_ms b s1 = Inl NullDeref"
    using b d s1(2,3) by (simp add: accept_frame_def dispatch_def Let_def HandleWsPing_def session_vt_def session_SendWsFrame_eq)
  then have acc: "for_items (accept_frame session_vt mem now_ms) [a, b] s = Inl NullDeref" by (simp add: s1(1))
  have sy: "synced [a, b] (wire_bytes a @ wire_bytes b) (wb_frame s)"
    using idle_synced [OF s(2), of "[a, b]"] ab by simp
  have l: "length (wire_bytes a @ wire_bytes b) < 0x7fffa000"
    using ab len head_len_bounds(2) [of "w_masked a" "length (w_data a)"] head_len_bounds(2) [of "w_masked b" "length (w_data b)"]
    by (simp add: length_wire_bytes)
  have i: "contents (wf_buffer (wb_frame s)) = []" using s(2) by (simp add: frame_idle_def)
  have "recv_chunk session_vt mem now_ms (wire_bytes a @ wire_bytes b) s = Inl NullDeref"
    using sv.recv_chunk_exact [OF sy _ l i, of mem now_ms] ab len acc by simp
  then show ?thesis using s(1) by (simp add: ws_session_OnRead_def session_open_def)
qed

theorem ws_close_then_ping_witness:
  "ws_session_OnRead (\<lambda>_. 0) (\<lambda>_. None) (\<lambda>_. None) 0 0
     (wire_bytes (WireFrame True 8 True [1, 2, 3, 4] [3, 232]) @ wire_bytes (WireFrame True 9 True [1, 2, 3, 4] [])) demo_session
   = Inl NullDeref"
  using ws_close_then_ping [OF demo_open, of "WireFrame True 8 True [1, 2, 3, 4] [3, 232]" "WireFrame True 9 True [1, 2, 3, 4] []"]
  by (simp add: wire_ok_def)

end
