(* ===== verification/Websocket_Client.thy ===== *)
theory Websocket_Client
  imports Websocket_Session
begin

text \<open>
  \<open>HttpClient\<close> of \<open>net/http/http_client.{hpp,cpp}\<close> and \<open>WebSocketClient\<close> of \<open>net/http/websocket/websocket_client.{hpp,cpp}\<close>: the
  client's end of a web socket, through which an SFU talks to the signalling centre and to the voice agent. The HTTP client
  writes the request, parses the response and hands it, and later what arrives on the upgraded connection, to its callback
  object, which here is the web socket client. The TCP client (libuv) is left out: what it is told to send and to
  do is returned. Logging is left out.
\<close>

section \<open>The HTTP client\<close>

datatype HTTP_METHOD = HTTP_GET | HTTP_POST

record http_response =
  hr_status :: bytes
  hr_status_code :: int
  hr_proto :: bytes
  hr_version :: bytes
  hr_headers :: "(bytes, bytes) omap"
  hr_content_length :: int
  hr_data :: data_buffer
  hr_header_ready :: bool
  hr_body_ready :: bool
  hr_chunked :: bool

record http_client =
  hc_host :: bytes
  hc_method :: HTTP_METHOD
  hc_header_buffer :: data_buffer
  hc_headers :: "(bytes, bytes) omap"
  hc_subpath :: bytes
  hc_post_data :: bytes
  hc_resp :: "http_response option"

definition HttpClientResponse_new :: "(nat \<Rightarrow> u8) \<Rightarrow> http_response res" where
  "HttpClientResponse_new mem = rbind (DataBuffer_new mem 10240) (\<lambda>d.
     Inr \<lparr>hr_status = str ''OK'', hr_status_code = 200, hr_proto = str ''HTTP'', hr_version = str ''1.1'', hr_headers = [],
          hr_content_length = 0, hr_data = d, hr_header_ready = False, hr_body_ready = False, hr_chunked = False\<rparr>)"

definition HttpClient_new :: "(nat \<Rightarrow> u8) \<Rightarrow> bytes \<Rightarrow> http_client res" where
  "HttpClient_new mem host = rbind (DataBuffer_new mem 10240) (\<lambda>d.
     Inr \<lparr>hc_host = host, hc_method = HTTP_GET, hc_header_buffer = d, hc_headers = [], hc_subpath = [], hc_post_data = [],
          hc_resp = None\<rparr>)"

definition http_Get :: "bytes \<Rightarrow> (bytes, bytes) omap \<Rightarrow> http_client \<Rightarrow> http_client" where
  \<comment> \<open>and connects\<close>
  "http_Get subpath headers h = h\<lparr>hc_method := HTTP_GET, hc_subpath := subpath, hc_headers := headers\<rparr>"

definition http_Post :: "bytes \<Rightarrow> (bytes, bytes) omap \<Rightarrow> bytes \<Rightarrow> http_client \<Rightarrow> http_client" where
  "http_Post subpath headers data h =
     h\<lparr>hc_method := HTTP_POST, hc_subpath := subpath, hc_post_data := data, hc_headers := headers\<rparr>"

definition http_request :: "http_client \<Rightarrow> bytes" where
  \<comment> \<open>what \<open>OnConnect\<close> sends\<close>
  "http_request h =
     (case hc_method h of HTTP_GET \<Rightarrow> str ''GET '' | HTTP_POST \<Rightarrow> str ''POST '') @ hc_subpath h @ str '' HTTP/1.1'' @ crlf
     @ str ''Accept: */*'' @ crlf @ str ''Host: '' @ hc_host h @ crlf @ concat (map header_text (hc_headers h))
     @ (if hc_method h = HTTP_POST then str ''Content-Length: '' @ nat_to_string (length (hc_post_data h)) @ crlf else [])
     @ crlf @ (if hc_method h = HTTP_POST then hc_post_data h else [])"

definition parse_status_line :: "bytes \<Rightarrow> http_response \<Rightarrow> http_response res" where
  "parse_status_line line r =
     (let item_vec = StringSplit line [32] in
      if length item_vec < 3 then Inl AssertFail
      else case str_find [47] (item_vec ! 0) of
        None \<Rightarrow> Inl AssertFail
      | Some pos \<Rightarrow>
          Inr (r\<lparr>hr_proto := take pos (item_vec ! 0), hr_version := drop (pos + 1) (item_vec ! 0),
                 hr_status_code := atoi (item_vec ! 1), hr_status := concat (drop 2 item_vec)\<rparr>))"

fun parse_header_lines :: "bytes list \<Rightarrow> http_response \<Rightarrow> http_response res" where
  "parse_header_lines [] r = Inr r"
| "parse_header_lines (line # lines) r =
     (case str_find [58] line of
        None \<Rightarrow> Inl AssertFail
      | Some pos \<Rightarrow>
          rbind (substr_from (pos + 2) line) (\<lambda>val.
            let key = take pos line;
                r1 = (if key = str ''Content-Length'' then r\<lparr>hr_content_length := atoi val\<rparr> else r);
                r2 = (if key = str ''Transfer-Encoding'' \<and> val = str ''chunked'' then r1\<lparr>hr_chunked := True\<rparr> else r1)
            in parse_header_lines lines (r2\<lparr>hr_headers := om_insert key val (hr_headers r2)\<rparr>)))"

definition parse_head :: "bytes list \<Rightarrow> http_response \<Rightarrow> http_response res" where
  "parse_head lines_vec r =
     (case lines_vec of [] \<Rightarrow> Inr r | line # lines \<Rightarrow> rbind (parse_status_line line r) (parse_header_lines lines))"

definition hex_digit :: "u8 \<Rightarrow> int option" where
  "hex_digit c =
     (if 48 \<le> c \<and> c \<le> 57 then Some (uint c - 48) else if 97 \<le> c \<and> c \<le> 102 then Some (uint c - 87)
      else if 65 \<le> c \<and> c \<le> 70 then Some (uint c - 55) else None)"

fun hex_digits :: "bytes \<Rightarrow> int \<Rightarrow> int" where
  "hex_digits [] acc = acc"
| "hex_digits (c # cs) acc = (case hex_digit c of Some v \<Rightarrow> hex_digits cs (acc * 16 + v) | None \<Rightarrow> acc)"

definition hex_unsigned :: "bytes \<Rightarrow> int option" where
  \<comment> \<open>digits with an optional prefix \<open>0x\<close>; \<open>None\<close> when there is no digit\<close>
  "hex_unsigned s =
     (case s of
        a # b # c # cs \<Rightarrow>
          if a = 48 \<and> (b = 120 \<or> b = 88) \<and> hex_digit c \<noteq> None then Some (hex_digits (c # cs) 0)
          else if hex_digit a \<noteq> None then Some (hex_digits s 0) else None
      | a # cs \<Rightarrow> if hex_digit a \<noteq> None then Some (hex_digits s 0) else None
      | [] \<Rightarrow> None)"

fun strtol16 :: "bytes \<Rightarrow> int option" where
  \<comment> \<open>\<open>strtol(s, &endptr, 16)\<close>, \<open>None\<close> when \<open>endptr == s\<close>; the result saturates\<close>
  "strtol16 [] = None"
| "strtol16 (c # cs) =
     (if c = 32 \<or> (9 \<le> c \<and> c \<le> 13) then strtol16 cs
      else if c = 45 then map_option (\<lambda>v. max (- v) (- 0x8000000000000000)) (hex_unsigned cs)
      else map_option (\<lambda>v. min v 0x7fffffffffffffff) (if c = 43 then hex_unsigned cs else hex_unsigned (c # cs)))"

text \<open>What \<open>HttpClient::OnRead\<close> does last: it calls \<open>cb_->OnHttpRead\<close> with a code, or reads on, or both in this order.\<close>

record http_end =
  he_call :: "int option"
  he_read :: bool

function chunked_body :: "(nat \<Rightarrow> u8) \<Rightarrow> bytes \<Rightarrow> http_response \<Rightarrow> (http_end \<times> http_response) res" where
  \<comment> \<open>the loop of \<open>OnHandleChuckedBody\<close>; it moves on by the length of the size line, not of the chunk\<close>
  "chunked_body mem p r =
     (case str_find crlf p of
        None \<Rightarrow> Inr (\<lparr>he_call = None, he_read = True\<rparr>, r)
      | Some pos \<Rightarrow>
          (case strtol16 (take pos p) of
             None \<Rightarrow> Inr (\<lparr>he_call = None, he_read = False\<rparr>, r)
           | Some v \<Rightarrow>
               let chunk_size = signed_take_bit 31 v in
               if chunk_size < 0 then Inr (\<lparr>he_call = None, he_read = False\<rparr>, r)
               else if chunk_size = 0 then Inr (\<lparr>he_call = Some 0, he_read = False\<rparr>, r\<lparr>hr_body_ready := True\<rparr>)
               else rbind (AppendData mem (Some (drop (pos + 2) p)) (nat chunk_size) (hr_data r)) (\<lambda>(_, d).
                 chunked_body mem (drop (pos + 2) p) (r\<lparr>hr_data := d\<rparr>))))"
  by pat_completeness auto
termination
proof (relation "measure (\<lambda>(mem, p, r). length p)")
  fix mem :: "nat \<Rightarrow> u8" and p :: bytes and r pos
  assume "str_find crlf p = Some pos"
  then have "pos + 2 \<le> length p" using str_find_le [of crlf p pos] by simp
  then show "((mem, drop (pos + 2) p, r), mem, p, r') \<in> measure (\<lambda>(mem, p, r). length p)" for r' by simp
qed simp

declare chunked_body.simps [simp del]

definition deliver_body :: "(nat \<Rightarrow> u8) \<Rightarrow> bytes \<Rightarrow> nat \<Rightarrow> http_response \<Rightarrow> (http_end \<times> http_response) res" where
  \<comment> \<open>the part of \<open>OnRead\<close> behind the header, for a response without chunks\<close>
  "deliver_body mem content content_len r =
     rbind (AppendData mem (Some content) content_len (hr_data r)) (\<lambda>(_, d).
       let r1 = r\<lparr>hr_data := d\<rparr> in
       if 0 < hr_content_length r1 then
         if hr_content_length r1 \<le> int_of_size (DataLen (hr_data r1))
         then Inr (\<lparr>he_call = Some 0, he_read = False\<rparr>, r1\<lparr>hr_body_ready := True\<rparr>)
         else Inr (\<lparr>he_call = None, he_read = True\<rparr>, r1)
       else Inr (\<lparr>he_call = Some 0, he_read = True\<rparr>, r1))"

definition http_OnRead :: "(nat \<Rightarrow> u8) \<Rightarrow> int \<Rightarrow> bytes \<Rightarrow> http_client \<Rightarrow> (http_end \<times> http_client) res" where
  "http_OnRead mem ret_code data h =
     (if ret_code < 0 then Inr (\<lparr>he_call = Some ret_code, he_read = False\<rparr>, h)
      else if data = [] then Inr (\<lparr>he_call = Some (-2), he_read = False\<rparr>, h)
      else
        rbind (case hc_resp h of None \<Rightarrow> HttpClientResponse_new mem | Some r \<Rightarrow> Inr r) (\<lambda>r.
        if \<not> hr_header_ready r then
          rbind (AppendData mem (Some data) (length data) (hc_header_buffer h)) (\<lambda>(_, d).
          let header_str = contents d in
          case str_find (crlf @ crlf) header_str of
            None \<Rightarrow> Inr (\<lparr>he_call = None, he_read = True\<rparr>, h\<lparr>hc_header_buffer := d, hc_resp := Some r\<rparr>)
          | Some pos \<Rightarrow>
              let content_len = (length data + size_max - (pos + 4)) mod size_max; content_p = drop (pos + 4) data in
              rbind (parse_head (StringSplit (take pos header_str) crlf) (r\<lparr>hr_header_ready := True\<rparr>)) (\<lambda>r1.
              rbind (if hr_chunked r1 then if length content_p < content_len then Inl Throw else chunked_body mem content_p r1
                     else deliver_body mem content_p content_len r1) (\<lambda>(e, r2).
                Inr (e, h\<lparr>hc_header_buffer := d, hc_resp := Some r2\<rparr>))))
        else
          rbind (if hr_chunked r then chunked_body mem data r else deliver_body mem data (length data) r) (\<lambda>(e, r2).
            Inr (e, h\<lparr>hc_resp := Some r2\<rparr>))))"

section \<open>The web socket client\<close>

record ws_client = ws_base +
  wc_http :: http_client
  wc_subpath :: bytes
  wc_key :: bytes
  wc_http_ready :: bool
  wc_conn_cb :: bool

definition WebSocketClient_new :: "(nat \<Rightarrow> u8) \<Rightarrow> (nat \<Rightarrow> u8) \<Rightarrow> bytes \<Rightarrow> bytes \<Rightarrow> bytes \<Rightarrow> bool \<Rightarrow> int \<Rightarrow> ws_client res" where
  \<comment> \<open>\<open>key\<close> is the random string of 16 characters\<close>
  "WebSocketClient_new mem rnd hostname subpath key conn_cb now_ms =
     rbind (HttpClient_new mem hostname) (\<lambda>h. rbind (WebSocketFrame_new mem) (\<lambda>f.
       Inr \<lparr>wb_frame = f, wb_recv_buffer_vec = [], wb_last_op_code = 1, wb_die_count = 0, wb_last_recv_pong_ms = now_ms,
            wb_last_send_ping_ms = now_ms, wb_is_connected = False, wb_close = False, wb_is_client = False, wb_random = rnd,
            wc_http = h, wc_subpath = subpath, wc_key = key, wc_http_ready = False, wc_conn_cb = conn_cb\<rparr>))"

definition AsyncConnect :: "(bytes, bytes) omap \<Rightarrow> ws_client \<Rightarrow> ws_client" where
  "AsyncConnect input_headers c =
     (let headers = om_insert (str ''Sec-WebSocket-Version'') (to_string 13)
                      (om_insert (str ''Sec-WebSocket-Key'') (Base64Encode (take 16 (wc_key c)))
                        (om_insert (str ''Connection'') (str ''Upgrade'') (om_insert (str ''Upgrade'') (str ''websocket'') [])))
      in c\<lparr>wc_http := http_Get (wc_subpath c) (fold (\<lambda>(k, v). om_insert k v) input_headers headers) (wc_http c)\<rparr>)"

definition client_SendWsFrame :: "bytes \<Rightarrow> u8 \<Rightarrow> ws_client ws_step" where
  \<comment> \<open>header, key and masked payload in one buffer\<close>
  "client_SendWsFrame data op_code c =
     (let (key, c1) = draw_key c in
      rbind (frame_writes True key op_code data) (\<lambda>ws. Inr ([TcpWrite (concat ws)], c1)))"

definition call_cb :: "ws_out \<Rightarrow> ws_client ws_step" where
  "call_cb ev c = (if wc_conn_cb c then Inr ([ev], c) else Inl NullDeref)"

definition client_OnTimer :: "int \<Rightarrow> ws_client ws_step" where
  "client_OnTimer now_ms c =
     (if \<not> wb_is_connected c then Inr ([], c)
      else then_do
        (\<lambda>c. if 2000 < now_ms - wb_last_send_ping_ms c
             then SendPingFrame client_SendWsFrame now_ms (c\<lparr>wb_last_send_ping_ms := now_ms\<rparr>) else Inr ([], c))
        (\<lambda>c. if wb_last_recv_pong_ms c \<le> 0 then Inr ([], c\<lparr>wb_last_recv_pong_ms := now_ms\<rparr>)
             else if 15 * 1000 < now_ms - wb_last_recv_pong_ms c
             then then_do (\<lambda>c. Inr ([TcpClose], c)) (call_cb (OnClose (-1) (str ''ping/pong timeout'')))
                    (c\<lparr>wb_is_connected := False\<rparr>)
             else Inr ([], c)) c)"

definition client_HandleWsData :: "bytes \<Rightarrow> u8 \<Rightarrow> ws_client ws_step" where
  "client_HandleWsData data op_code c =
     Inr (if wc_conn_cb c then
            if op_code = WS_OP_TEXT_TYPE then [OnReadText data]
            else if op_code = WS_OP_BIN_TYPE then [OnReadData data] else []
          else [], c)"

definition client_HandleWsClose :: "bytes \<Rightarrow> ws_client ws_step" where
  "client_HandleWsClose data c =
     (if wb_close c then Inr ([], c)
      else rbind (answer_close client_SendWsFrame data c) (\<lambda>(outs, c1).
        Inr (outs @ (if wc_conn_cb c1 then [OnClose 0 (str ''close'')] else []) @ [TcpClose],
             c1\<lparr>wb_close := True, wb_is_connected := False\<rparr>)))"

definition client_vt :: "ws_client ws_virtual" where
  "client_vt = \<lparr>v_HandleWsData = client_HandleWsData, v_SendWsFrame = client_SendWsFrame,
                v_HandleWsClose = client_HandleWsClose\<rparr>"

definition header_at :: "bytes \<Rightarrow> http_response \<Rightarrow> bytes \<times> http_response" where
  \<comment> \<open>\<open>headers_[key]\<close>, which adds an empty value for a missing key\<close>
  "header_at key r =
     (case om_find (hr_headers r) key of
        Some v \<Rightarrow> (v, r)
      | None \<Rightarrow> ([], r\<lparr>hr_headers := om_insert key [] (hr_headers r)\<rparr>))"

definition response_dump :: "http_response \<Rightarrow> bytes" where
  \<comment> \<open>the text built for the log; it stays in the stream and starts every error description\<close>
  "response_dump r = str ''{'' @ concat (map (\<lambda>(k, v). str '' '' @ k @ str '':'' @ v) (hr_headers r)) @ str ''}''"

definition HandleHttpRespone :: "(bytes \<Rightarrow> bytes option) \<Rightarrow> http_response \<Rightarrow> ws_client \<Rightarrow> (ws_out list \<times> http_response \<times> ws_client) res" where
  "HandleHttpRespone sha1 r c =
     (let fail = (\<lambda>txt r'. rbind (call_cb (OnClose (-1) (response_dump r @ txt)) (c\<lparr>wb_is_connected := False\<rparr>))
                    (\<lambda>(outs, c1). Inr (outs, r', c1))) in
      if hr_status_code r \<noteq> 101 then fail (str ''websocket http response code error:'' @ to_string (hr_status_code r)) r
      else let (connection_desc, r1) = header_at (str ''Connection'') r in
      if connection_desc \<noteq> str ''Upgrade'' then fail (str ''websocket http response Connection error:'' @ connection_desc) r1
      else let (upgrade_desc, r2) = header_at (str ''Upgrade'') r1 in
      if upgrade_desc \<noteq> str ''websocket'' then fail (str ''websocket http response Upgrade error:'' @ connection_desc) r2
      else let hash_code = GenWebSocketHashcode sha1 (Base64Encode (wc_key c));
               (accept_hash, r3) = header_at (str ''Sec-WebSocket-Accept'') r2 in
      if hash_code \<noteq> accept_hash
      then fail (str ''websocket http response Sec-WebSocket-Accept error, response:'' @ accept_hash @ str '', local hash:'' @ hash_code) r3
      else rbind (call_cb OnConnection c) (\<lambda>(outs, c1).
        Inr (outs, r3\<lparr>hr_data := buffer_Reset (hr_data r3)\<rparr>, c1\<lparr>wc_http_ready := True, wb_is_connected := True\<rparr>)))"

definition client_OnHttpRead :: "(nat \<Rightarrow> u8) \<Rightarrow> (bytes \<Rightarrow> bytes option) \<Rightarrow> int \<Rightarrow> int \<Rightarrow> ws_client ws_step" where
  \<comment> \<open>works on the response held by the HTTP client, which both share\<close>
  "client_OnHttpRead mem sha1 now_ms ret c =
     (if ret < 0 then call_cb (OnClose (-1) (str ''http read error'')) (c\<lparr>wb_is_connected := False\<rparr>)
      else case hc_resp (wc_http c) of
        None \<Rightarrow> Inl NullDeref
      | Some r \<Rightarrow>
          if \<not> wc_http_ready c then
            rbind (HandleHttpRespone sha1 r c) (\<lambda>(outs, r1, c1). Inr (outs, c1\<lparr>wc_http := (wc_http c1)\<lparr>hc_resp := Some r1\<rparr>\<rparr>))
          else
            rbind (HandleFrame client_vt mem now_ms (hr_data r) c) (\<lambda>(_, outs, c1).
              Inr (outs, c1\<lparr>wc_http := (wc_http c1)\<lparr>hc_resp := Some (r\<lparr>hr_data := buffer_Reset (hr_data r)\<rparr>)\<rparr>\<rparr>)))"

definition client_OnRead :: "(nat \<Rightarrow> u8) \<Rightarrow> (bytes \<Rightarrow> bytes option) \<Rightarrow> int \<Rightarrow> int \<Rightarrow> bytes \<Rightarrow> ws_client ws_step" where
  \<comment> \<open>a read of the socket: \<open>HttpClient::OnRead\<close> with its calls back into the web socket client\<close>
  "client_OnRead mem sha1 now_ms ret_code data c =
     rbind (http_OnRead mem ret_code data (wc_http c)) (\<lambda>(e, h).
       let c1 = c\<lparr>wc_http := h\<rparr> in
       rbind (case he_call e of None \<Rightarrow> Inr ([], c1) | Some ret \<Rightarrow> client_OnHttpRead mem sha1 now_ms ret c1) (\<lambda>(outs, c2).
         Inr (outs @ (if he_read e then [TcpRead] else []), c2)))"

definition client_OnConnect :: "(nat \<Rightarrow> u8) \<Rightarrow> (bytes \<Rightarrow> bytes option) \<Rightarrow> int \<Rightarrow> int \<Rightarrow> ws_client ws_step" where
  \<comment> \<open>\<open>HttpClient::OnConnect\<close>\<close>
  "client_OnConnect mem sha1 now_ms ret_code c =
     (if ret_code < 0 then client_OnHttpRead mem sha1 now_ms ret_code c
      else Inr ([TcpWrite (http_request (wc_http c))], c))"

definition client_OnWrite :: "int \<Rightarrow> ws_client ws_step" where
  \<comment> \<open>\<open>HttpClient::OnWrite\<close>: reading starts once the request is out\<close>
  "client_OnWrite ret_code c = Inr (if ret_code = 0 then [TcpRead] else [], c)"

definition http_Close :: "ws_client ws_step" where
  "http_Close c = Inr ([TcpClose], c)"

section \<open>The client as a derived class\<close>

lemma client_SendWsFrame_eq:
  "client_SendWsFrame data op_code c =
     Inr ([TcpWrite (frame_layout True op_code True (fst (draw_key c)) data)], snd (draw_key c))"
  by (simp add: client_SendWsFrame_def split_def Let_def frame_writes_layout frame_header_head frame_layout_def)

lemma client_SendWsFrame_frame:
  "client_SendWsFrame data op_code (c\<lparr>wb_frame := f\<rparr>) = on_frame f (client_SendWsFrame data op_code c)"
  by (simp add: client_SendWsFrame_eq draw_key_frame)

interpretation cv: ws_derived client_vt
proof
  fix c :: ws_client and data :: bytes and op_code :: u8 and f :: ws_frame
  show "v_HandleWsData client_vt data op_code (c\<lparr>wb_frame := f\<rparr>) = on_frame f (v_HandleWsData client_vt data op_code c)"
    by (simp add: client_vt_def client_HandleWsData_def)
  show "v_SendWsFrame client_vt data op_code (c\<lparr>wb_frame := f\<rparr>) = on_frame f (v_SendWsFrame client_vt data op_code c)"
    by (simp add: client_vt_def client_SendWsFrame_frame)
  have "answer_close client_SendWsFrame data (c\<lparr>wb_frame := f\<rparr>) = on_frame f (answer_close client_SendWsFrame data c)"
    by (rule answer_close_frame) (rule client_SendWsFrame_frame)
  then show "v_HandleWsClose client_vt data (c\<lparr>wb_frame := f\<rparr>) = on_frame f (v_HandleWsClose client_vt data c)"
    by (cases "answer_close client_SendWsFrame data c") (auto simp: client_vt_def client_HandleWsClose_def split_def simp del: rbind_eq_Inr)
qed

section \<open>Messages from the client to the server\<close>

datatype ws_message = TextMsg bytes | DataMsg bytes

fun send_message :: "(bytes \<Rightarrow> u8 \<Rightarrow> 's ws_step) \<Rightarrow> ws_message \<Rightarrow> 's ws_step" where
  "send_message send (TextMsg t) = AsyncWriteText send t"
| "send_message send (DataMsg d) = AsyncWriteData send d"

fun received :: "ws_message \<Rightarrow> ws_out" where
  "received (TextMsg t) = OnReadText t"
| "received (DataMsg d) = OnReadData d"

fun msg_bytes :: "ws_message \<Rightarrow> bytes" where
  "msg_bytes (TextMsg t) = t"
| "msg_bytes (DataMsg d) = d"

fun msg_op :: "ws_message \<Rightarrow> u8" where
  "msg_op (TextMsg t) = WS_OP_TEXT_TYPE"
| "msg_op (DataMsg d) = WS_OP_BIN_TYPE"

definition tcp_bytes :: "ws_out list \<Rightarrow> bytes" where
  \<comment> \<open>what travels over the connection\<close>
  "tcp_bytes outs = concat (map (\<lambda>x. case x of TcpWrite b \<Rightarrow> b | _ \<Rightarrow> []) outs)"

lemma tcp_bytes_simps [simp]:
  "tcp_bytes [] = []" "tcp_bytes (a @ b) = tcp_bytes a @ tcp_bytes b" "tcp_bytes (TcpWrite p # outs) = p @ tcp_bytes outs"
  by (simp_all add: tcp_bytes_def)

lemma client_send_messages:
  "\<exists>outs c' ws. for_items (send_message client_SendWsFrame) ms c = Inr (outs, c') \<and>
     tcp_bytes outs = concat (map wire_bytes ws) \<and> map delivery ws = map received ms \<and> map w_data ws = map msg_bytes ms \<and>
     (\<forall>w \<in> set ws. wire_ok w \<and> data_frame w)"
proof (induction ms arbitrary: c)
  case Nil
  show ?case by (intro exI [of _ "[]"] exI [of _ c]) simp
next
  case (Cons m ms)
  let ?w = "WireFrame True (msg_op m) True (fst (draw_key c)) (msg_bytes m)"
  have s: "send_message client_SendWsFrame m c = Inr ([TcpWrite (wire_bytes ?w)], snd (draw_key c))"
    by (cases m) (simp_all add: AsyncWriteText_def AsyncWriteData_def client_SendWsFrame_eq wire_bytes_def)
  obtain outs c' ws where "for_items (send_message client_SendWsFrame) ms (snd (draw_key c)) = Inr (outs, c')"
    "tcp_bytes outs = concat (map wire_bytes ws)" "map delivery ws = map received ms" "map w_data ws = map msg_bytes ms"
    "\<forall>w \<in> set ws. wire_ok w \<and> data_frame w" using Cons.IH by blast
  moreover have "wire_ok ?w \<and> data_frame ?w \<and> delivery ?w = received m"
    by (cases m) (simp_all add: wire_ok_def data_frame_def delivery_def draw_key_def)
  ultimately show ?case using s
    by (intro exI [of _ "TcpWrite (wire_bytes ?w) # outs"] exI [of _ c'] exI [of _ "?w # ws"]) simp
qed

text \<open>
  C9. What a client writes for a sequence of text and binary messages, cut into reads at arbitrary positions, makes an upgraded
  session of the server hand exactly these messages, in order, to its callback object, and leaves it ready for more, provided
  the bytes fit into the session's receive buffer behind what it holds (for a session between two messages with the buffer its
  constructor makes: up to 9840 bytes in all) or come in one read. Longer sequences are delivered too, unless one
  of the reads, which the theorem exhibits and which is not the first, finds the buffer in such a state that
  \<open>DataBuffer\<close> moves bytes onto themselves by \<open>memcpy\<close>: then the call has no defined result.
\<close>

theorem ws_messages_arrive:
  assumes "for_items (send_message client_SendWsFrame) ms c = Inr (outs, c')"
    and "concat (map snd cs) = tcp_bytes outs" and "length (tcp_bytes outs) < 0x7fff0000"
    and "session_open s" and "frame_idle (wb_frame s)"
  shows "let read = (\<lambda>(now_ms, chunk). ws_session_OnRead mem sha1 handles now_ms 0 chunk); r = for_items read cs s;
       delivered = (\<exists>outs' s'. r = Inr (outs', s') \<and> filter (\<lambda>x. x \<noteq> TcpRead) outs' = map received ms \<and>
         session_open s' \<and> frame_idle (wb_frame s')) in
     (roomy (length (tcp_bytes outs)) (wf_buffer (wb_frame s)) \<or> length cs \<le> 1 \<longrightarrow> delivered) \<and>
     (\<not> delivered \<longrightarrow> r = Inl Overlap \<and> moved_onto_itself read cs s)"
proof -
  obtain ws where ws: "tcp_bytes outs = concat (map wire_bytes ws)" "map delivery ws = map received ms"
    "\<forall>w \<in> set ws. wire_ok w \<and> data_frame w"
    using client_send_messages [of ms c] assms(1) by auto
  have small: "length (w_data w) < 0x7fff0000" if w: "w \<in> set ws" for w
  proof -
    have "length (w_data w) \<le> length (wire_bytes w)" using ws(3) w length_wire_bytes by simp
    also have "\<dots> \<le> length (concat (map wire_bytes ws))" using w
      by (simp add: length_concat member_le_sum_list)
    finally show ?thesis using assms(3) ws(1) by simp
  qed
  have sy: "synced ws (concat (map snd cs)) (wb_frame s)" "waiting ws (wb_frame s)"
    using idle_synced [OF assms(5)] ws assms(2) by auto
  have e: "contents (wf_buffer (wb_frame s)) = []" "buffer_ok (wf_buffer (wb_frame s))" using assms(5) by (simp_all add: frame_idle_def)
  have one: "\<not> moved_onto_itself act cs s" if "length cs \<le> 1" for act
    using that e length_contents [OF e(2)] by (auto simp: moved_onto_itself_def overlaps_def append_eq_Cons_conv)
  from session_reads_data [OF sy _ _ assms(4), of mem sha1 handles] show ?thesis
    using ws small assms(2,3) e one by (auto simp: Let_def synced_idle simp del: length_concat)
qed

lemma WebSocketSession_new_roomy:
  \<comment> \<open>the size of the receive buffer\<close>
  "WebSocketSession_new mem rnd is_client now_ms addr = Inr (outs, s) \<Longrightarrow> frame_idle (wb_frame s) \<and> (roomy n (wf_buffer (wb_frame s)) \<longleftrightarrow> n \<le> 9840)"
  by (auto simp: WebSocketSession_new_def WebSocketFrame_new_def DataBuffer_new_def new_char_def roomy_def frame_idle_def
      buffer_ok_def contents_def split: if_splits)

definition demo_client :: ws_client where
  "demo_client = \<lparr>wb_frame = demo_frame, wb_recv_buffer_vec = [], wb_last_op_code = 1, wb_die_count = 0,
     wb_last_recv_pong_ms = 0, wb_last_send_ping_ms = 0, wb_is_connected = True, wb_close = False, wb_is_client = False,
     wb_random = (\<lambda>_. 7), wc_http = \<lparr>hc_host = [], hc_method = HTTP_GET, hc_header_buffer = demo_buffer, hc_headers = [],
     hc_subpath = [], hc_post_data = [], hc_resp = None\<rparr>, wc_subpath = [], wc_key = [], wc_http_ready = True, wc_conn_cb = True\<rparr>"

theorem ws_messages_arrive_witness:
  "let bs = frame_layout True 1 True [7, 7, 7, 7] [104, 105] in
   \<exists>outs' s'. for_items (\<lambda>(now_ms, chunk). ws_session_OnRead (\<lambda>_. 0) (\<lambda>_. None) (\<lambda>_. None) now_ms 0 chunk)
       [(10, take 3 bs), (20, drop 3 bs)] demo_session = Inr (outs', s') \<and> filter (\<lambda>x. x \<noteq> TcpRead) outs' = [OnReadText [104, 105]]"
proof -
  let ?bs = "frame_layout True 1 True [7, 7, 7, 7] [104, 105]"
  have s: "for_items (send_message client_SendWsFrame) [TextMsg [104, 105]] demo_client =
      Inr ([TcpWrite ?bs], snd (draw_key demo_client))"
    by (simp add: AsyncWriteText_def client_SendWsFrame_eq draw_key_def demo_client_def upt_rec numeral_eq_Suc)
  have n: "length (tcp_bytes [TcpWrite ?bs]) = 8"
    by (simp add: length_frame_layout head_len_def length_frame_ext)
  then have l: "length (tcp_bytes [TcpWrite ?bs]) < 0x7fff0000" by simp
  have c: "concat (map snd [(10 :: int, take 3 ?bs), (20, drop 3 ?bs)]) = tcp_bytes [TcpWrite ?bs]" by simp
  have r: "roomy (length (tcp_bytes [TcpWrite ?bs])) (wf_buffer (wb_frame demo_session))"
    unfolding n by (simp add: roomy_def demo_session_def demo_frame_def demo_buffer_def)
  show ?thesis
    using ws_messages_arrive [OF s c l demo_open, of "\<lambda>_. 0" "\<lambda>_. None" "\<lambda>_. None"] r by (auto simp: Let_def)
qed

end
