(* ===== verification/Websocket_Total.thy ===== *)
theory Websocket_Total
  imports Websocket_Client
begin

text \<open>
  Arbitrary bytes on a web socket. A peer need not send frames: whatever it sends, the loop of
  \<open>WebSocketSessionBase::HandleFrame\<close> ends, for the server's and the client's end, and leaves a parser that satisfies its
  invariant. The result is proved once for every derived class whose virtual functions end.
\<close>

section \<open>Operations that end\<close>

definition ends :: "'a res \<Rightarrow> bool" where
  "ends r \<longleftrightarrow> r \<noteq> Inl Diverges"

lemma ends_simps [simp]: "ends (Inr x)" "ends (Inl e) \<longleftrightarrow> e \<noteq> Diverges"
  by (auto simp: ends_def)

lemma ends_rbind: "ends m \<Longrightarrow> (\<And>x. m = Inr x \<Longrightarrow> ends (f x)) \<Longrightarrow> ends (rbind m f)"
  by (cases m) auto

lemma ends_prim [simp]:
  "ends (iadd a b)" "ends (ladd a b)" "ends (new_char mem n)" "ends (memcpy d i s j n)" "ends (memcpy_in d i j n)"
  "ends (GetNewSize l)" "ends (rd p k n)" "ends (rd8 p k)" "ends (xor_key key q k p)"
  by (simp_all add: iadd_def ladd_def new_char_def memcpy_def memcpy_in_def GetNewSize_def rd_def rd8_def xor_key_def)

lemma ends_AppendData [simp]: "ends (AppendData mem p n d)"
  by (auto simp: AppendData_def append_grow_def append_compact_def append_end_def intro!: ends_rbind split: option.splits)

lemma ends_DataBuffer_new [simp]: "ends (DataBuffer_new mem n)"
  by (auto simp: DataBuffer_new_def intro!: ends_rbind)

lemma ends_mask_blocks [simp]: "ends (mask_blocks key i n p)"
  by (induction key i n p rule: mask_blocks.induct) (subst mask_blocks.simps, auto intro!: ends_rbind)

lemma ends_mask_rest [simp]: "ends (mask_rest key i n p)"
  by (induction key i n p rule: mask_rest.induct) (subst mask_rest.simps, auto intro!: ends_rbind)

lemma ends_unmask [simp]: "ends (unmask f)"
  by (auto simp: unmask_def mask_payload_def Let_def intro!: ends_rbind)

lemma ends_parse_header [simp]: "ends (parse_header f)"
  by (auto simp: parse_header_def parse_length_def parse_mask_def Let_def split_def intro!: ends_rbind)

lemma ends_frame_Parse [simp]: "ends (frame_Parse mem data n f)"
  by (auto simp: frame_Parse_def split_def intro!: ends_rbind)

section \<open>The parser on arbitrary bytes\<close>

definition head_wf :: "ws_frame \<Rightarrow> bool" where
  "head_wf f \<longleftrightarrow> 2 \<le> wf_payload_start f \<and> wf_payload_start f \<le> 14 \<and>
     - 0x8000000000000000 \<le> wf_payload_len f \<and> wf_payload_len f < 0x8000000000000000"

definition frame_wf :: "ws_frame \<Rightarrow> bool" where
  \<comment> \<open>the invariant of the parser\<close>
  "frame_wf f \<longleftrightarrow> buffer_ok (wf_buffer f) \<and> (wf_header_ready f \<longrightarrow> head_wf f)"

lemma parse_header_any:
  assumes "parse_header f = Inr (ready, f')"
  shows "wf_buffer f' = wf_buffer f" "ready \<Longrightarrow> head_wf f'" "\<not> ready \<Longrightarrow> wf_header_ready f' = wf_header_ready f"
proof -
  have s: "- 0x8000000000000000 \<le> sint (w :: u64)" "sint w < 0x8000000000000000" for w
    using sint_ge [of w] sint_lt [of w] by simp_all
  have u: "0 \<le> uint (w :: u16)" "uint w < 0x10000" for w using uint_bounded [of w] by simp_all
  have u8: "0 \<le> uint (w :: u8)" "uint w < 0x100" for w using uint_bounded [of w] by simp_all
  have u16: "uint (w :: u16) < 0x8000000000000000" for w using u(2) [of w] by linarith
  have u8': "uint (w :: u8) < 0x8000000000000000" "- 0x8000000000000000 \<le> uint w" for w using u8 [of w] by linarith+
  have u16': "- 0x8000000000000000 \<le> uint (w :: u16)" for w using u(1) [of w] by linarith
  show "wf_buffer f' = wf_buffer f" "ready \<Longrightarrow> head_wf f'" "\<not> ready \<Longrightarrow> wf_header_ready f' = wf_header_ready f"
    using assms s u16 u16' u8'
    by (auto simp: parse_header_def parse_length_def parse_mask_def head_wf_def Let_def split: if_splits)
qed

lemma header_any:
  assumes f: "frame_wf f" and h: "(if wf_header_ready f then Inr (True, f) else parse_header f) = Inr (ready, g)"
  shows "wf_buffer g = wf_buffer f" "ready \<Longrightarrow> head_wf g" "\<not> ready \<Longrightarrow> frame_wf g"
  using h f parse_header_any [of f ready g] by (auto simp: frame_wf_def split: if_splits)

lemma frame_Parse_eq:
  assumes f: "frame_wf f"
  shows "frame_Parse mem None 0 f =
    (if length (contents (wf_buffer f)) < 2 then Inr (1, f)
     else rbind (if wf_header_ready f then Inr (True, f) else parse_header f) (\<lambda>(ready, g).
       if \<not> ready then Inr (1, g)
       else rbind (ladd (wf_payload_start g) (wf_payload_len g)) (\<lambda>t.
         if int (length (contents (wf_buffer f))) < t then Inr (1, g)
         else if wf_mask_enable g then rbind (unmask g) (\<lambda>f3. Inr (0, f3)) else Inr (0, g))))"
proof -
  have ok: "buffer_ok (wf_buffer f)" using f by (simp add: frame_wf_def)
  have l: "DataLen (wf_buffer f) = length (contents (wf_buffer f))"
    "int_of_size (length (contents (wf_buffer f))) = int (length (contents (wf_buffer f)))"
    using ok length_contents [OF ok] DataLen_contents [OF ok] by (auto simp: buffer_ok_def)
  show ?thesis
  proof (cases "if wf_header_ready f then Inr (True, f) else parse_header f")
    case (Inl e)
    then show ?thesis unfolding frame_Parse_def by (simp add: l Inl)
  next
    case (Inr r)
    obtain ready g where r: "r = (ready, g)" by (cases r)
    have "wf_buffer g = wf_buffer f" using header_any(1) [OF f] Inr r by blast
    then show ?thesis unfolding frame_Parse_def by (simp add: Inr r l)
  qed
qed

lemma xor_key_length: "xor_key key q k p = Inr p' \<Longrightarrow> length p' = length p"
  by (auto simp: xor_key_def split: if_splits)

lemma mask_blocks_length: "mask_blocks key i n p = Inr p' \<Longrightarrow> length p' = length p"
proof (induction "n - i" arbitrary: i p rule: less_induct)
  case (less i p)
  from less(2) show ?case
    by (subst (asm) mask_blocks.simps) (auto split: if_splits dest!: xor_key_length less(1) [rotated])
qed

lemma mask_rest_length: "mask_rest key i n p = Inr p' \<Longrightarrow> length p' = length p"
proof (induction "n - i" arbitrary: i p rule: less_induct)
  case (less i p)
  from less(2) show ?case
    by (subst (asm) mask_rest.simps) (auto split: if_splits dest!: xor_key_length less(1) [rotated])
qed

lemma unmask_any:
  assumes u: "unmask g = Inr f'" and ok: "buffer_ok (wf_buffer g)"
  shows "wf_payload_start f' = wf_payload_start g" "wf_payload_len f' = wf_payload_len g"
    and "buffer_ok (wf_buffer f')" "length (contents (wf_buffer f')) = length (contents (wf_buffer g))"
proof -
  let ?d = "wf_buffer g" let ?i = "nat (db_start ?d + wf_payload_start g)"
  obtain p where p: "f' = g\<lparr>wf_buffer := ?d\<lparr>db_buffer := take ?i (db_buffer ?d) @ p\<rparr>\<rparr>" "length p = length (drop ?i (db_buffer ?d))"
    using u by (auto simp: unmask_def mask_payload_def Let_def dest!: mask_blocks_length mask_rest_length)
  show b: "buffer_ok (wf_buffer f')" using with_buffer(2) [of "take ?i (db_buffer ?d) @ p" ?d] ok p by simp
  show "wf_payload_start f' = wf_payload_start g" "wf_payload_len f' = wf_payload_len g" by (simp_all add: p)
  show "length (contents (wf_buffer f')) = length (contents (wf_buffer g))"
    using length_contents [OF b] length_contents [OF ok] p by simp
qed

lemma parse_any:
  assumes f: "frame_wf f" and p: "frame_Parse mem None 0 f = Inr (ret, f')"
  shows "ret \<noteq> 0 \<and> frame_wf f' \<and> wf_buffer f' = wf_buffer f \<or>
    ret = 0 \<and> head_wf f' \<and> wf_payload_start f' + wf_payload_len f' \<le> int (length (contents (wf_buffer f))) \<and>
      buffer_ok (wf_buffer f') \<and> length (contents (wf_buffer f')) = length (contents (wf_buffer f))"
proof (cases "length (contents (wf_buffer f)) < 2")
  case True
  then show ?thesis using p f by (simp add: frame_Parse_eq [OF f])
next
  case False
  let ?c = "contents (wf_buffer f)" let ?h = "if wf_header_ready f then Inr (True, f) else parse_header f"
  have ok: "buffer_ok (wf_buffer f)" using f by (simp add: frame_wf_def)
  obtain ready g where g: "?h = Inr (ready, g)" "(if \<not> ready then Inr (1, g)
       else rbind (ladd (wf_payload_start g) (wf_payload_len g)) (\<lambda>t.
         if int (length ?c) < t then Inr (1, g)
         else if wf_mask_enable g then rbind (unmask g) (\<lambda>f3. Inr (0, f3)) else Inr (0, g))) = Inr (ret, f')"
    using p False unfolding frame_Parse_eq [OF f] rbind_eq_Inr if_not_P [OF False] by (auto simp only: prod.case)
  have wf: "wf_buffer g = wf_buffer f" "ready \<Longrightarrow> head_wf g" "\<not> ready \<Longrightarrow> frame_wf g" using header_any [OF f g(1)] by blast+
  show ?thesis
  proof (cases ready)
    case False
    then show ?thesis using g(2) wf by simp
  next
    case True
    then obtain t where t: "ladd (wf_payload_start g) (wf_payload_len g) = Inr t"
      "(if int (length ?c) < t then Inr (1, g)
        else if wf_mask_enable g then rbind (unmask g) (\<lambda>f3. Inr (0, f3)) else Inr (0, g)) = Inr (ret, f')"
      using g(2) by auto
    have te: "t = wf_payload_start g + wf_payload_len g" using t(1) by (simp add: ladd_def split: if_splits)
    consider "int (length ?c) < t" | "t \<le> int (length ?c)" "\<not> wf_mask_enable g" | "t \<le> int (length ?c)" "wf_mask_enable g" by linarith
    then show ?thesis
    proof cases
      case 1
      then show ?thesis using t(2) wf ok True by (auto simp: frame_wf_def)
    next
      case 2
      then show ?thesis using t(2) te wf ok True by simp
    next
      case 3
      then have "unmask g = Inr f'" "ret = 0" using t(2) by auto
      with unmask_any [of g f'] show ?thesis using wf te ok True 3 by (simp add: head_wf_def)
    qed
  qed
qed

lemma negative_payload:
  \<comment> \<open>a negative length never gets past the copy of the payload\<close>
  assumes pl: "n < 0" "- 0x8000000000000000 \<le> n" and d: "DataBuffer_new mem (size_of_int (n + 1024)) = Inr d"
  shows "AppendData mem' (Some p) (size_of_int n) d \<noteq> Inr r"
proof -
  have m: "size_of_int n = nat (n + 0x10000000000000000)"
    using pl mod_pos_pos_trivial [of "n + 0x10000000000000000" "0x10000000000000000"]
    by (simp add: size_of_int_def)
  then have big: "0x8000000000000000 \<le> size_of_int n" using pl by simp
  have "length (db_buffer d) < 0x80000000"
  proof (cases "0 \<le> n + 1024")
    case True
    then have "size_of_int (n + 1024) < 1024" using pl(1) by simp
    then show ?thesis using d by (auto simp: DataBuffer_new_def split: if_splits)
  next
    case False
    have "(n + 1024) mod 0x10000000000000000 = n + 1024 + 0x10000000000000000"
      using False pl mod_pos_pos_trivial [of "n + 1024 + 0x10000000000000000" "0x10000000000000000"]
      unfolding mod_add_self2 by linarith
    then have "0x8000000000000000 \<le> size_of_int (n + 1024)" using pl by (simp add: size_of_int_def)
    then show ?thesis using d by (auto simp: DataBuffer_new_def new_char_def split: if_splits)
  qed
  with big have e: "memcpy b i p 0 (size_of_int n) = Inl OutOfBounds" if "length b < 0x80000000" for b i
    using that by (simp add: memcpy_def)
  have copied: "length b' = length b" if "memcpy b i v k m = Inr b'" for b b' i v k m
    using that by (auto simp: memcpy_def split: if_splits)
  have in_copied: "length b' = length b" if "memcpy_in b i k m = Inr b'" for b b' i k m
    using that copied by (auto simp: memcpy_in_def split: if_splits)
  have grown: "length b < 0x80000000" if "iadd l k = Inr l1" "GetNewSize l1 = Inr m" "new_char mem (size_of_int m) = Inr b" for l k l1 m b mem
    using that by (auto simp: iadd_def GetNewSize_def new_char_def split: if_splits)
  note len = \<open>length (db_buffer d) < 0x80000000\<close>
  have "append_end p (size_of_int n) d \<noteq> Inr r" using e [OF len] by (simp add: append_end_def)
  moreover have "append_compact p (size_of_int n) d \<noteq> Inr r"
    using e len copied in_copied unfolding append_compact_def by (auto split: if_splits)
  moreover have "append_grow mem' p (size_of_int n) d \<noteq> Inr r"
    using e copied grown unfolding append_grow_def by auto
  ultimately show ?thesis using m pl by (simp add: AppendData_def)
qed

section \<open>The loop\<close>

definition good :: "nat \<Rightarrow> (int \<times> ws_out list \<times> 'a ws_base_scheme) res \<Rightarrow> bool" where
  "good n r \<longleftrightarrow> (case r of Inl e \<Rightarrow> e \<noteq> Diverges
     | Inr (ret, outs, s) \<Rightarrow> frame_wf (wb_frame s) \<and> length (contents (wf_buffer (wb_frame s))) \<le> n)"

lemma good_rbind: "ends m \<Longrightarrow> (\<And>x. m = Inr x \<Longrightarrow> good n (f x)) \<Longrightarrow> good n (rbind m f)"
  by (cases m) (auto simp: good_def)

lemma good_more: "good n r \<Longrightarrow> n \<le> m \<Longrightarrow> good m (rbind r (\<lambda>(ret, outs', s). Inr (ret, outs @ outs', s)))"
  by (cases r) (auto simp: good_def)

locale ws_total = ws_derived +
  assumes data_ends: "ends (v_HandleWsData vt data op_code s)"
    and send_ends: "ends (v_SendWsFrame vt data op_code s)"
    and close_ends: "ends (v_HandleWsClose vt data s)"
begin

lemma items_ends: "(\<And>x s. ends (act x s)) \<Longrightarrow> ends (for_items act xs s)"
  by (induction xs arbitrary: s) (auto intro!: ends_rbind)

lemma dispatch_ends: "ends (dispatch vt now_ms op_code s)"
  unfolding dispatch_def HandleWsPing_def Let_def
  by (auto simp: split_def intro!: ends_rbind items_ends data_ends send_ends close_ends)

lemma dispatch_keeps:
  assumes "dispatch vt now_ms op_code s = Inr (outs, s')"
  shows "wb_frame s' = wb_frame s"
proof -
  have "dispatch vt now_ms op_code (s\<lparr>wb_frame := wb_frame s\<rparr>) = Inr (outs, s')" using assms by simp
  then show ?thesis unfolding dispatch_frame assms by (auto dest: arg_cong [of _ _ wb_frame])
qed

lemma consumed:
  \<comment> \<open>the parser after a complete frame\<close>
  assumes "buffer_ok (wf_buffer f)" "head_wf f" "0 \<le> wf_payload_len f"
    "wf_payload_start f + wf_payload_len f \<le> int (length (contents (wf_buffer f)))" "ladd (wf_payload_start f) (wf_payload_len f) = Inr used"
  shows "frame_wf (frame_Reset (frame_Consume (size_of_int used) f))"
    and "length (contents (wf_buffer (frame_Reset (frame_Consume (size_of_int used) f)))) < length (contents (wf_buffer f))"
proof -
  let ?d = "wf_buffer f"
  have u: "used = wf_payload_start f + wf_payload_len f" "2 \<le> used" "used \<le> db_len ?d" "used < 0x80000000"
    using assms length_contents [of ?d] by (auto simp: ladd_def head_wf_def buffer_ok_def split: if_splits)
  obtain q d where d: "ConsumeData used ?d = (Some q, d)" "buffer_ok d" "contents d = drop (nat used) (contents ?d)"
    using ConsumeData_ok [OF assms(1), of used] u by auto
  have b: "wf_buffer (frame_Reset (frame_Consume (size_of_int used) f)) = d"
    using u d(1) by (simp add: frame_Reset_def frame_Consume_def)
  show "frame_wf (frame_Reset (frame_Consume (size_of_int used) f))"
    unfolding frame_wf_def b using d(2) by (simp add: frame_Reset_def)
  show "length (contents (wf_buffer (frame_Reset (frame_Consume (size_of_int used) f)))) < length (contents (wf_buffer f))"
    unfolding b d(3) using u length_contents [OF assms(1)] by simp
qed

lemma turn_good:
  assumes f: "buffer_ok (wf_buffer f)" "head_wf f" "wf_payload_start f + wf_payload_len f \<le> int (length (contents (wf_buffer f)))"
    and IH: "\<And>s. length (contents (wf_buffer (wb_frame s))) < fuel \<Longrightarrow> frame_wf (wb_frame s) \<Longrightarrow>
      good (length (contents (wf_buffer (wb_frame s)))) (frame_loop fuel vt mem now_ms None 0 s)"
    and fuel: "length (contents (wf_buffer f)) \<le> fuel"
  shows "good (length (contents (wf_buffer f))) (rbind (ladd (wf_payload_len f) 1024) (\<lambda>sz.
     rbind (DataBuffer_new mem (size_of_int sz)) (\<lambda>d.
     rbind (AppendData mem (Some (GetPayloadData f)) (size_of_int (wf_payload_len f)) d) (\<lambda>(_, d1).
     rbind (ladd (wf_payload_start f) (wf_payload_len f)) (\<lambda>used.
     rbind (if wf_fin f then dispatch vt now_ms (wf_opcode f) (s\<lparr>wb_recv_buffer_vec := wb_recv_buffer_vec s @ [d1],
                 wb_frame := frame_Reset (frame_Consume (size_of_int used) f)\<rparr>)
            else Inr ([], s\<lparr>wb_recv_buffer_vec := wb_recv_buffer_vec s @ [d1],
                 wb_frame := frame_Reset (frame_Consume (size_of_int used) f)\<rparr>)) (\<lambda>(outs, s4).
     if 0 < DataLen (wf_buffer (wb_frame s4))
     then rbind (frame_loop fuel vt mem now_ms None 0 s4) (\<lambda>(r, outs', s5). Inr (r, outs @ outs', s5))
     else Inr (0, outs, s4)))))))"
proof (unfold split_def, rule good_rbind [OF ends_prim(2)], rule good_rbind [OF ends_DataBuffer_new],
    rule good_rbind [OF ends_AppendData], rule good_rbind [OF ends_prim(2)], rule good_rbind)
  fix sz d used x and a :: "int \<times> data_buffer"
  let ?g = "frame_Reset (frame_Consume (size_of_int used) f)"
  let ?s3 = "s\<lparr>wb_recv_buffer_vec := wb_recv_buffer_vec s @ [snd a], wb_frame := ?g\<rparr>"
  let ?D = "if wf_fin f then dispatch vt now_ms (wf_opcode f) ?s3 else Inr ([], ?s3)"
  show "ends ?D" using dispatch_ends by simp
  assume sz: "ladd (wf_payload_len f) 1024 = Inr sz" and d: "DataBuffer_new mem (size_of_int sz) = Inr d"
    and a: "AppendData mem (Some (GetPayloadData f)) (size_of_int (wf_payload_len f)) d = Inr a"
    and u: "ladd (wf_payload_start f) (wf_payload_len f) = Inr used" and x: "?D = Inr x"
  have "sz = wf_payload_len f + 1024" using sz by (simp add: ladd_def split: if_splits)
  then have pos: "0 \<le> wf_payload_len f" using negative_payload [of "wf_payload_len f" mem d mem "GetPayloadData f" a] a d f(2)
    unfolding head_wf_def by fastforce
  note g = consumed [OF f(1,2) pos f(3) u]
  have "wb_frame (snd x) = ?g" using x dispatch_keeps [of now_ms "wf_opcode f" ?s3 "fst x" "snd x"] by (auto split: if_splits)
  then show "good (length (contents (wf_buffer f))) (if 0 < DataLen (wf_buffer (wb_frame (snd x)))
     then rbind (frame_loop fuel vt mem now_ms None 0 (snd x)) (\<lambda>p. Inr (fst p, fst x @ fst (snd p), snd (snd p)))
     else Inr (0, fst x, snd x))"
    using good_more [OF IH [of "snd x"]] g fuel by (auto simp: good_def split_def)
qed

lemma loop_good:
  "length (contents (wf_buffer (wb_frame s))) < fuel \<Longrightarrow> frame_wf (wb_frame s) \<Longrightarrow>
     good (length (contents (wf_buffer (wb_frame s)))) (frame_loop fuel vt mem now_ms None 0 s)"
proof (induction fuel arbitrary: s)
  case 0
  then show ?case by simp
next
  case (Suc fuel)
  show ?case
  proof (cases "frame_Parse mem None 0 (wb_frame s)")
    case (Inl e)
    then show ?thesis using ends_frame_Parse [of mem None 0 "wb_frame s"] by (simp add: good_def)
  next
    case (Inr r)
    then obtain ret f where p: "frame_Parse mem None 0 (wb_frame s) = Inr (ret, f)" by (cases r) auto
    from parse_any [OF Suc.prems(2) p] consider "ret \<noteq> 0" "frame_wf f" "wf_buffer f = wf_buffer (wb_frame s)"
      | "ret = 0" "head_wf f" "wf_payload_start f + wf_payload_len f \<le> int (length (contents (wf_buffer f)))"
        "buffer_ok (wf_buffer f)" "length (contents (wf_buffer f)) = length (contents (wf_buffer (wb_frame s)))" by auto
    then show ?thesis
    proof cases
      case 1
      then show ?thesis by (simp add: p good_def Let_def)
    next
      case 2
      let ?s2 = "if wf_opcode f = WS_OP_TEXT_TYPE \<or> wf_opcode f = WS_OP_BIN_TYPE
        then s\<lparr>wb_frame := f\<rparr>\<lparr>wb_last_op_code := wf_opcode f\<rparr> else s\<lparr>wb_frame := f\<rparr>"
      have wf: "frame_wf f" using 2 by (simp add: frame_wf_def)
      show ?thesis
      proof (cases "PayloadIsReady f")
        case False
        then show ?thesis using wf 2 by (simp add: p good_def Let_def)
      next
        case True
        have "length (contents (wf_buffer f)) \<le> fuel" using 2(5) Suc.prems(1) by simp
        note turn_good [OF 2(4,2,3) Suc.IH this, of ?s2]
        then show ?thesis using True 2(1,5) by (simp only: frame_loop.simps(2) p rbind_simps prod.case Let_def simp_thms if_False)
      qed
    qed
  qed
qed

lemma HandleFrame_good:
  assumes f: "frame_wf (wb_frame s)" and len: "length (contents (wf_buffer (wb_frame s))) + DataLen d < 0x7fffa000"
    and d: "DataLen d \<le> length (buffer_Data d)"
  shows "good (length (contents (wf_buffer (wb_frame s))) + DataLen d) (HandleFrame vt mem now_ms d s)"
proof -
  let ?f = "wb_frame s" let ?b = "wf_buffer ?f" let ?n = "DataLen d"
  have ok: "buffer_ok ?b" using f by (simp add: frame_wf_def)
  have l: "DataLen ?b = length (contents ?b)" by (rule DataLen_contents [OF ok])
  have fit: "within_limit ?n ?b" using len length_contents [OF ok] by (simp add: within_limit_def)
  show ?thesis
  proof (cases "?n = 0")
    case True
    then show ?thesis using loop_good [OF _ f, of "Suc (length (contents ?b))"] l by (simp add: HandleFrame_eq Let_def del: frame_loop.simps)
  next
    case False
    show ?thesis
    proof (cases "AppendData mem (Some (buffer_Data d)) ?n ?b")
      case (Inl e)
      then show ?thesis using ends_AppendData [of mem "Some (buffer_Data d)" ?n ?b] False
        by (simp add: HandleFrame_eq Let_def good_def del: frame_loop.simps)
    next
      case (Inr r)
      then obtain q b where b: "AppendData mem (Some (buffer_Data d)) ?n ?b = Inr (q, b)" "buffer_ok b"
        "contents b = contents ?b @ take ?n (buffer_Data d)"
        using AppendData_outcome [OF ok d fit, of mem] by (auto split: if_splits)
      let ?s = "s\<lparr>wb_frame := ?f\<lparr>wf_buffer := b\<rparr>\<rparr>"
      have "frame_wf (wb_frame ?s)" using f b(2) by (simp add: frame_wf_def head_wf_def)
      moreover have "length (contents (wf_buffer (wb_frame ?s))) = length (contents ?b) + ?n" using b(3) d by simp
      ultimately show ?thesis using loop_good [of ?s "Suc (length (contents ?b) + ?n)" mem now_ms] b(1) False l
        by (simp add: HandleFrame_eq Let_def del: frame_loop.simps)
    qed
  qed
qed

lemma recv_chunk_good:
  assumes f: "frame_wf (wb_frame s)" and len: "length (contents (wf_buffer (wb_frame s))) + length chunk < 0x7fffa000"
  shows "case recv_chunk vt mem now_ms chunk s of Inl e \<Rightarrow> e \<noteq> Diverges
    | Inr (outs, s') \<Rightarrow> frame_wf (wb_frame s') \<and>
        length (contents (wf_buffer (wb_frame s'))) \<le> length (contents (wf_buffer (wb_frame s))) + length chunk"
proof -
  obtain r d where d: "rbind (DataBuffer_new mem (length chunk)) (AppendData mem (Some chunk) (length chunk)) = Inr (r, d)"
    "contents d = chunk" "db_len d = int (length chunk)"
    using append_once [of "length chunk" chunk mem] len by auto
  have "recv_chunk vt mem now_ms chunk s =
      rbind (rbind (DataBuffer_new mem (length chunk)) (AppendData mem (Some chunk) (length chunk)))
        (\<lambda>(_, d1). rbind (HandleFrame vt mem now_ms d1 s) (\<lambda>(_, outs, s1). Inr (outs, s1)))"
    by (simp add: recv_chunk_def rbind_assoc)
  then have e: "recv_chunk vt mem now_ms chunk s = rbind (HandleFrame vt mem now_ms d s) (\<lambda>(_, outs, s1). Inr (outs, s1))"
    by (simp add: d(1))
  have l: "DataLen d = length chunk" "DataLen d \<le> length (buffer_Data d)"
    using d(2,3) len arg_cong [OF contents_Data [of d], of length] by (simp_all add: DataLen_def)
  show ?thesis
    using HandleFrame_good [OF f _ l(2), of mem now_ms] len l(1) unfolding e
    by (cases "HandleFrame vt mem now_ms d s") (auto simp: good_def)
qed

end

section \<open>Both ends\<close>

lemma ends_frame_writes [simp]: "ends (frame_writes masked key op_code data)"
  by (simp add: frame_writes_layout)

lemma ends_answer_close: "(\<And>d c s. ends (send d c s)) \<Longrightarrow> ends (answer_close send data s)"
  by (simp add: answer_close_def SendClose_def)

interpretation st: ws_total session_vt
proof
  fix s :: ws_session and data :: bytes and op_code :: u8
  have send: "ends (session_SendWsFrame d c s)" for d c s by (simp add: session_SendWsFrame_eq)
  show "ends (v_SendWsFrame session_vt data op_code s)" by (simp add: session_vt_def send)
  show "ends (v_HandleWsData session_vt data op_code s)" by (simp add: session_vt_def session_HandleWsData_def)
  show "ends (v_HandleWsClose session_vt data s)"
    by (auto simp: session_vt_def session_HandleWsClose_def split_def Let_def intro!: ends_rbind ends_answer_close send)
qed

interpretation ct: ws_total client_vt
proof
  fix c :: ws_client and data :: bytes and op_code :: u8
  have send: "ends (client_SendWsFrame d k c)" for d k c by (simp add: client_SendWsFrame_eq)
  show "ends (v_SendWsFrame client_vt data op_code c)" by (simp add: client_vt_def send)
  show "ends (v_HandleWsData client_vt data op_code c)" by (simp add: client_vt_def client_HandleWsData_def)
  show "ends (v_HandleWsClose client_vt data c)"
    by (auto simp: client_vt_def client_HandleWsClose_def split_def intro!: ends_rbind ends_answer_close send)
qed

lemma WebSocketFrame_new_wf: "\<exists>f. WebSocketFrame_new mem = Inr f \<and> frame_wf f"
  using DataBuffer_new_ok [of 10240 mem] by (auto simp: WebSocketFrame_new_def frame_wf_def)

text \<open>
  C12. Reading ends on every input: whatever bytes a read delivers and whatever earlier reads left in the parser, the loop over
  the frames ends, at the server's end (\<open>OnRead\<close>) as at the client's (\<open>HandleFrame\<close>), with an error or with a parser that
  satisfies its invariant and holds no more than was received. A new parser satisfies the invariant.
\<close>

theorem ws_reads_end:
  assumes s: "frame_wf (wb_frame s)" "ss_http_request_ready s" "length (contents (wf_buffer (wb_frame s))) + length data < 0x7fffa000"
    and c: "frame_wf (wb_frame c)" "buffer_ok d" "length (contents (wf_buffer (wb_frame c))) + length (contents d) < 0x7fffa000"
  shows "(case ws_session_OnRead mem sha1 handles now_ms 0 data s of Inl e \<Rightarrow> e \<noteq> Diverges
      | Inr (outs, s') \<Rightarrow> frame_wf (wb_frame s') \<and>
          length (contents (wf_buffer (wb_frame s'))) \<le> length (contents (wf_buffer (wb_frame s))) + length data) \<and>
    (case HandleFrame client_vt mem now_ms d c of Inl e \<Rightarrow> e \<noteq> Diverges
      | Inr (ret, outs, c') \<Rightarrow> frame_wf (wb_frame c') \<and>
          length (contents (wf_buffer (wb_frame c'))) \<le> length (contents (wf_buffer (wb_frame c))) + length (contents d)) \<and>
    (\<exists>f. WebSocketFrame_new mem = Inr f \<and> frame_wf f)"
    (is "?server \<and> ?client \<and> ?new")
proof (intro conjI)
  show ?server
    using st.recv_chunk_good [OF s(1,3), of mem now_ms] s(2)
    by (cases "recv_chunk session_vt mem now_ms data s") (auto simp: ws_session_OnRead_def session_read_def)
  have "DataLen d = length (contents d)" "length (contents d) \<le> length (buffer_Data d)"
    using DataLen_contents [OF c(2)] by (simp_all add: contents_Data)
  then show ?client using ct.HandleFrame_good [OF c(1), of d mem now_ms] c(3) by (simp add: good_def)
  show ?new by (rule WebSocketFrame_new_wf)
qed

theorem ws_reads_end_witness:
  "case ws_session_OnRead (\<lambda>_. 0) (\<lambda>_. None) (\<lambda>_. None) 10 0 [0x02, 0x7f, 0xff, 0xff, 0, 0] demo_session of Inl e \<Rightarrow> e \<noteq> Diverges
    | Inr (outs, s') \<Rightarrow> frame_wf (wb_frame s') \<and> length (contents (wf_buffer (wb_frame s'))) \<le> 6"
proof -
  have b: "buffer_ok demo_buffer" "contents demo_buffer = []" by (simp_all add: demo_buffer_def buffer_ok_def contents_def)
  then have f: "frame_wf (wb_frame demo_session)" "frame_wf (wb_frame demo_client)" "contents (wf_buffer (wb_frame demo_session)) = []"
    "contents (wf_buffer (wb_frame demo_client)) = []"
    by (simp_all add: frame_wf_def demo_session_def demo_client_def demo_frame_def)
  have h: "ss_http_request_ready demo_session" by (simp add: demo_session_def)
  have l: "length (contents (wf_buffer (wb_frame demo_session))) + length [0x02, 0x7f, 0xff, 0xff, 0, 0 :: u8] < 0x7fffa000"
    "length (contents (wf_buffer (wb_frame demo_client))) + length (contents demo_buffer) < 0x7fffa000"
    "length (contents (wf_buffer (wb_frame demo_session))) + length [0x02, 0x7f, 0xff, 0xff, 0, 0 :: u8] = 6" by (simp_all add: f b)
  show ?thesis
    using ws_reads_end [OF f(1) h l(1) f(2) b(1) l(2), of "\<lambda>_. 0" "\<lambda>_. None" "\<lambda>_. None" 10, unfolded l(3), THEN conjunct1] .
qed

end
