(* ===== verification/Websocket_Handshake.thy ===== *)
theory Websocket_Handshake
  imports Websocket_Client
begin

text \<open>
  The opening handshake between the two ends of a signalling connection: the request of \<open>WsProtooClient\<close>
  (\<open>ws_message/ws_protoo_client.cpp\<close>) over the web socket client, and the answer of a web socket session whose server has the handler of
  \<open>ws_message/ws_message_server.cpp\<close>. Of the handler the theory models what it does to the session: the message session it
  creates registers itself as the callback object, and a header is added to the answer.
\<close>

section \<open>The users of the two ends\<close>

definition protoo_AsyncConnect :: "ws_client \<Rightarrow> ws_client" where
  "protoo_AsyncConnect = AsyncConnect (om_insert (str ''Sec-WebSocket-Protocol'') (str ''protoo'') [])"

definition OnWSMessageSessionHandle :: "ws_session \<Rightarrow> ws_session" where
  "OnWSMessageSessionHandle s = AddHeader (str ''Sec-WebSocket-Protocol'') (str ''protoo'') (SetSessionCallback True s)"

definition WsMessageServer_new :: "bytes \<Rightarrow> bytes \<Rightarrow> ws_server" where
  "WsMessageServer_new key_file cert_file =
     AddHandle (str ''/webrtc'') OnWSMessageSessionHandle (WebSocketServer_new key_file cert_file)"

section \<open>The head of a message\<close>

definition head_text :: "bytes list \<Rightarrow> bytes" where
  "head_text lines = concat (map (\<lambda>l. l @ crlf) lines) @ crlf"

definition field :: "bytes \<times> bytes \<Rightarrow> bytes" where
  "field h = fst h @ str '': '' @ snd h"

lemma colon_space: "str '': '' = [58, 32]"
  by (simp add: str_def)

lemma header_text_field: "header_text h = field h @ crlf"
  by (simp add: header_text_def field_def)

lemma find_blank_skip:
  assumes "13 \<notin> set p" "c \<noteq> 13"
  shows "str_find (crlf @ crlf) (p @ crlf @ c # t) = map_option ((+) (length p + 2)) (str_find (crlf @ crlf) (c # t))"
proof -
  have "str_find (crlf @ crlf) (crlf @ c # t) = map_option ((+) 2) (str_find (crlf @ crlf) (c # t))"
    using assms(2) by (simp add: option.map_comp comp_def)
  then show ?thesis
    using str_find_fresh [of "crlf @ crlf" p "crlf @ c # t"] assms(1) by (simp add: option.map_comp comp_def)
qed

lemma find_blank:
  assumes "\<forall>l \<in> set (ps @ [q]). l \<noteq> [] \<and> 13 \<notin> set l"
  shows "str_find (crlf @ crlf) (concat (map (\<lambda>l. l @ crlf) ps) @ q @ crlf @ crlf @ rest) =
    Some (length (concat (map (\<lambda>l. l @ crlf) ps) @ q))"
  using assms
proof (induction ps)
  case Nil
  then show ?case using str_find_at [of "crlf @ crlf" q rest] by simp
next
  case (Cons p ps)
  let ?t = "concat (map (\<lambda>l. l @ crlf) ps) @ q @ crlf @ crlf @ rest"
  obtain c t where t: "?t = c # t" "c \<noteq> 13"
  proof (cases ps)
    case Nil
    then show ?thesis using Cons.prems that by (cases q) auto
  next
    case (Cons p' ps')
    then show ?thesis using \<open>\<forall>l \<in> set ((p # ps) @ [q]). _ l\<close> that by (cases p') auto
  qed
  have "str_find (crlf @ crlf) (p @ crlf @ ?t) = map_option ((+) (length p + 2)) (str_find (crlf @ crlf) ?t)"
    unfolding t(1) using find_blank_skip [of p c t] Cons.prems t(2) by simp
  then show ?case using Cons by simp
qed

lemma head_lines:
  assumes "\<forall>l \<in> set lines. l \<noteq> [] \<and> 13 \<notin> set l" "lines \<noteq> []"
  shows "\<exists>pos. str_find (crlf @ crlf) (head_text lines) = Some pos \<and> pos + 4 = length (head_text lines) \<and>
    StringSplit (take pos (head_text lines)) crlf = lines"
proof -
  obtain ps q where l: "lines = ps @ [q]" using assms(2) by (cases lines rule: rev_cases) auto
  let ?a = "concat (map (\<lambda>l. l @ crlf) ps) @ q"
  have t: "head_text lines = ?a @ crlf @ crlf" by (simp add: head_text_def l)
  have "StringSplit ?a crlf = ps @ [q]" using assms by (intro StringSplit_join) (auto simp: l)
  then show ?thesis using find_blank [of ps q "[]"] assms unfolding t by (intro exI [of _ "length ?a"]) (simp add: l)
qed

lemma header_lines_fields:
  "\<forall>h \<in> set hs. 32 \<notin> set (fst h) \<Longrightarrow> header_lines (map field hs) m = fold (\<lambda>(k, v). om_insert (String2Lower k) v) hs m"
proof (induction hs arbitrary: m)
  case (Cons h hs)
  have "str_find [32] (field h) = Some (length (fst h) + 1)"
    using str_find_at [of "[32]" "fst h @ [58]" "snd h"] Cons.prems by (simp add: field_def colon_space)
  then show ?case using Cons by (simp add: field_def colon_space split_def)
qed simp

lemma parse_header_fields:
  "\<forall>h \<in> set hs. 58 \<notin> set (fst h) \<and> fst h \<noteq> str ''Content-Length'' \<and> fst h \<noteq> str ''Transfer-Encoding'' \<Longrightarrow>
     parse_header_lines (map field hs) r = Inr (r\<lparr>hr_headers := fold (\<lambda>(k, v). om_insert k v) hs (hr_headers r)\<rparr>)"
proof (induction hs arbitrary: r)
  case (Cons h hs)
  have "str_find [58] (field h) = Some (length (fst h))"
    using str_find_at [of "[58]" "fst h" "32 # snd h"] Cons.prems by (simp add: field_def colon_space)
  then show ?case using Cons by (simp add: field_def colon_space split_def substr_from_def Let_def)
qed simp

section \<open>The request\<close>

lemma protoo_headers:
  "om_insert (str ''Sec-WebSocket-Protocol'') (str ''protoo'') (om_insert (str ''Sec-WebSocket-Version'') a
     (om_insert (str ''Sec-WebSocket-Key'') b (om_insert (str ''Connection'') c [(str ''Upgrade'', d)]))) =
   [(str ''Connection'', c), (str ''Sec-WebSocket-Key'', b), (str ''Sec-WebSocket-Protocol'', str ''protoo''),
    (str ''Sec-WebSocket-Version'', a), (str ''Upgrade'', d)]"
proof -
  have "str ''Connection'' < str ''Upgrade''" "str ''Sec-WebSocket-Key'' < str ''Upgrade''" "str ''Connection'' < str ''Sec-WebSocket-Key''"
    "str ''Sec-WebSocket-Key'' < str ''Sec-WebSocket-Version''" "str ''Connection'' < str ''Sec-WebSocket-Version''"
    "str ''Sec-WebSocket-Version'' < str ''Upgrade''" "str ''Sec-WebSocket-Key'' < str ''Sec-WebSocket-Protocol''"
    "str ''Connection'' < str ''Sec-WebSocket-Protocol''" "str ''Sec-WebSocket-Protocol'' < str ''Sec-WebSocket-Version''"
    by code_simp+
  note less = this
  note less [THEN less_not_sym] less [THEN less_imp_neq] less [THEN less_imp_neq, symmetric]
  with less show ?thesis by simp
qed

definition request_fields :: "bytes \<Rightarrow> bytes \<Rightarrow> (bytes \<times> bytes) list" where
  "request_fields host key = [(str ''Accept'', str ''*/*''), (str ''Host'', host), (str ''Connection'', str ''Upgrade''),
     (str ''Sec-WebSocket-Key'', key), (str ''Sec-WebSocket-Protocol'', str ''protoo''),
     (str ''Sec-WebSocket-Version'', to_string 13), (str ''Upgrade'', str ''websocket'')]"

definition request_line :: "bytes \<Rightarrow> bytes" where
  "request_line subpath = str ''GET '' @ subpath @ str '' HTTP/1.1''"

lemma request_head:
  "http_request (wc_http (protoo_AsyncConnect c)) = head_text (request_line (wc_subpath c) #
     map field (request_fields (hc_host (wc_http c)) (Base64Encode (take 16 (wc_key c)))))"
proof -
  have "str ''Accept: */*'' = str ''Accept'' @ str '': '' @ str ''*/*''" "str ''Host: '' = str ''Host'' @ str '': ''"
    by (simp_all add: str_def)
  then show ?thesis
    by (simp add: http_request_def protoo_AsyncConnect_def AsyncConnect_def http_Get_def protoo_headers Let_def
        request_line_def request_fields_def head_text_def header_text_def field_def del: om_insert.simps(2))
qed

section \<open>The answer of the server\<close>

lemma str_eq [simp]: "str a = str b \<longleftrightarrow> a = b"
proof -
  have "inj (of_char :: char \<Rightarrow> u8)"
  proof (rule injI)
    fix a b :: char
    assume "(of_char a :: u8) = of_char b"
    then have "unat (of_nat (of_char a) :: u8) = unat (of_nat (of_char b) :: u8)" by (simp only: of_nat_of_char)
    moreover have "(of_char a :: nat) < 256" "(of_char b :: nat) < 256" by simp_all
    ultimately have "(of_char a :: nat) = of_char b" by (simp only: unat_of_nat) (simp add: take_bit_nat_eq_self)
    then show "a = b" by simp
  qed
  then show ?thesis unfolding str_def by (rule inj_map_eq_map)
qed

lemma lower_keys:
  "String2Lower (str ''Accept'') = str ''accept''" "String2Lower (str ''Host'') = str ''host''"
  "String2Lower (str ''Connection'') = str ''connection''" "String2Lower (str ''Upgrade'') = str ''upgrade''"
  "String2Lower (str ''Sec-WebSocket-Key'') = str ''sec-websocket-key''"
  "String2Lower (str ''Sec-WebSocket-Protocol'') = str ''sec-websocket-protocol''"
  "String2Lower (str ''Sec-WebSocket-Version'') = str ''sec-websocket-version''"
  "String2Lower (str ''websocket'') = str ''websocket''"
  by code_simp+

lemma clean_literals:
  "13 \<notin> set (str ''Accept'')" "13 \<notin> set (str ''Host'')" "13 \<notin> set (str ''Connection'')" "13 \<notin> set (str ''Upgrade'')"
  "13 \<notin> set (str ''Sec-WebSocket-Key'')" "13 \<notin> set (str ''Sec-WebSocket-Protocol'')" "13 \<notin> set (str ''Sec-WebSocket-Version'')"
  "13 \<notin> set (str ''Sec-WebSocket-Accept'')" "13 \<notin> set (str ''*/*'')" "13 \<notin> set (str ''websocket'')" "13 \<notin> set (str ''protoo'')"
  "13 \<notin> set (str '': '')" "13 \<notin> set (to_string 13)" "13 \<notin> set (str ''GET '')" "13 \<notin> set (str '' HTTP/1.1'')"
  "13 \<notin> set (str ''HTTP/1.1 101 Switching Protocols'')"
  by code_simp+

lemma spaceless_keys:
  "32 \<notin> set (str ''Accept'')" "32 \<notin> set (str ''Host'')" "32 \<notin> set (str ''Connection'')" "32 \<notin> set (str ''Upgrade'')"
  "32 \<notin> set (str ''Sec-WebSocket-Key'')" "32 \<notin> set (str ''Sec-WebSocket-Protocol'')" "32 \<notin> set (str ''Sec-WebSocket-Version'')"
  by code_simp+

lemma clean_base64: "13 \<notin> set (Base64Encode bs)"
proof -
  have "13 \<notin> insert 61 (set base64_chars)" by code_simp
  then show ?thesis using set_Base64Encode [of bs] by blast
qed

lemma request_line_split: "32 \<notin> set subpath \<Longrightarrow> StringSplit (request_line subpath) [32] = [str ''GET'', subpath, str ''HTTP/1.1'']"
proof -
  assume sub: "32 \<notin> set subpath"
  have "request_line subpath = concat (map (\<lambda>p. p @ [32]) [str ''GET'', subpath]) @ str ''HTTP/1.1''"
    by (simp add: request_line_def str_def)
  moreover have "32 \<notin> set (str ''GET'')" "32 \<notin> set (str ''HTTP/1.1'')" by code_simp+
  moreover have "str ''HTTP/1.1'' \<noteq> []" by (simp add: str_def)
  ultimately have "StringSplit (request_line subpath) [32] = [str ''GET'', subpath] @ [str ''HTTP/1.1'']"
    using sub by (simp only:) (rule StringSplit_join, auto)
  then show ?thesis by simp
qed

lemma request_lines_clean:
  "13 \<notin> set subpath \<Longrightarrow> 13 \<notin> set host \<Longrightarrow> 13 \<notin> set key \<Longrightarrow>
     \<forall>l \<in> set (request_line subpath # map field (request_fields host key)). l \<noteq> [] \<and> 13 \<notin> set l"
  using clean_literals by (simp add: request_line_def request_fields_def field_def) (simp add: str_def)

lemma atoi_13: "atoi (to_string 13) = 13"
  by code_simp

lemma handle_request:
  assumes c: "contents (ss_http_recv_buffer s) = head_text (request_line subpath # map field (request_fields host key))"
    and clean: "13 \<notin> set subpath" "32 \<notin> set subpath" "13 \<notin> set host" "13 \<notin> set key"
    and h: "handles (fst (GetPathAndQuery subpath (ss_query_map s))) = Some handler" and m: "ss_headers s = []"
  shows "\<exists>hs. OnHandleHttpRequest handles s = (Some 0, handler (s\<lparr>ss_http_request_ready := True,
    ss_path := fst (GetPathAndQuery subpath (ss_query_map s)), ss_query_map := snd (GetPathAndQuery subpath (ss_query_map s)),
    ss_method := String2Lower (str ''GET''), ss_headers := hs, ss_sec_ws_ver := 13, ss_sec_ws_key := key\<rparr>))"
proof -
  let ?lines = "request_line subpath # map field (request_fields host key)"
  obtain pos where pos: "str_find (crlf @ crlf) (head_text ?lines) = Some pos" "StringSplit (take pos (head_text ?lines)) crlf = ?lines"
    using head_lines [OF request_lines_clean [OF clean(1,3,4)]] by blast
  obtain path query where pq: "GetPathAndQuery subpath (ss_query_map s) = (path, query)" by (cases "GetPathAndQuery subpath (ss_query_map s)")
  have "\<forall>h \<in> set (request_fields host key). 32 \<notin> set (fst h)"
    by (simp add: request_fields_def spaceless_keys)
  note hl = header_lines_fields [OF this, of "[]"]
  define M where "M = fold (\<lambda>(k, v). om_insert (String2Lower k) v) (request_fields host key) []"
  have M: "om_ok M" "om_find M (str ''connection'') = Some (str ''Upgrade'')" "om_find M (str ''upgrade'') = Some (str ''websocket'')"
    "om_find M (str ''sec-websocket-version'') = Some (to_string 13)" "om_find M (str ''sec-websocket-key'') = Some key"
    "om_find M (str ''sec-webSocket-protocol'') = None"
    by (simp_all add: M_def request_fields_def lower_keys del: om_insert.simps)
  show ?thesis
    using h by (intro exI) (simp add: OnHandleHttpRequest_def Let_def c pos pq request_line_split clean hl m M lower_keys atoi_13 flip: M_def
        del: om_insert.simps append.simps)
qed

definition response_lines :: "bytes \<Rightarrow> bytes list" where
  "response_lines hash_code = str ''HTTP/1.1 101 Switching Protocols'' # map field [(str ''Upgrade'', str ''websocket''),
     (str ''Connection'', str ''Upgrade''), (str ''Sec-WebSocket-Accept'', hash_code), (str ''Sec-WebSocket-Protocol'', str ''protoo'')]"

lemma new_buffer_append:
  assumes "length bs < 0x7fff0000"
  shows "\<exists>d r d'. DataBuffer_new mem 10240 = Inr d \<and> buffer_ok d \<and> contents d = [] \<and>
    AppendData mem' (Some bs) (length bs) d = Inr (r, d') \<and> buffer_ok d' \<and> contents d' = bs"
proof -
  obtain d where d: "DataBuffer_new mem 10240 = Inr d" "buffer_ok d" "contents d = []" using DataBuffer_new_ok [of 10240 mem] by auto
  have "db_len d = 0" using length_contents [OF d(2)] d(3) by simp
  then have "\<not> overlaps (length bs) d" "within_limit (length bs) d" using assms by (simp_all add: overlaps_def within_limit_def)
  then show ?thesis using AppendData_outcome [OF d(2), of "length bs" bs mem'] d by auto
qed

lemma server_answers:
  assumes new: "WebSocketSession_new mem rnd False t0 addr = Inr (outs, s)"
    and clean: "13 \<notin> set subpath" "32 \<notin> set subpath" "13 \<notin> set host" "13 \<notin> set key"
    and path: "fst (GetPathAndQuery subpath []) = str ''/webrtc''" and hash: "sha1 (key @ ws_guid) = Some hash"
    and len: "length (head_text (request_line subpath # map field (request_fields host key))) < 0x7fff0000"
  shows "\<exists>s1. ws_session_OnRead mem sha1 (GetHandle (WsMessageServer_new key_file cert_file)) now_ms 0
      (head_text (request_line subpath # map field (request_fields host key))) s =
        Inr ([TcpWrite (head_text (response_lines (Base64Encode hash))), TcpRead], s1) \<and> session_open s1 \<and> frame_idle (wb_frame s1)"
proof -
  let ?req = "head_text (request_line subpath # map field (request_fields host key))"
  let ?G = "GetHandle (WsMessageServer_new key_file cert_file)"
  obtain d r d' where d: "DataBuffer_new mem 10240 = Inr d" "buffer_ok d" "contents d = []"
    "AppendData mem (Some ?req) (length ?req) d = Inr (r, d')" "contents d' = ?req"
    using new_buffer_append [OF len] by blast
  have s: "ss_http_recv_buffer s = d" "ss_query_map s = []" "ss_headers s = []" "\<not> ss_http_request_ready s" "ss_session s"
    "wb_recv_buffer_vec s = []" "\<not> wb_close s" "ss_response_headers s = []" "frame_idle (wb_frame s)"
    using new d(1,2,3) by (auto simp: WebSocketSession_new_def WebSocketFrame_new_def frame_idle_def)
  have g: "?G (fst (GetPathAndQuery subpath (ss_query_map (s\<lparr>ss_http_recv_buffer := d'\<rparr>)))) = Some OnWSMessageSessionHandle"
    by (simp add: s path GetHandle_def WsMessageServer_new_def AddHandle_def WebSocketServer_new_def om_find_def)
  obtain q m hs where h: "OnHandleHttpRequest ?G (s\<lparr>ss_http_recv_buffer := d'\<rparr>) = (Some 0, OnWSMessageSessionHandle
      (s\<lparr>ss_http_recv_buffer := d', ss_http_request_ready := True, ss_path := str ''/webrtc'', ss_query_map := q, ss_method := m,
         ss_headers := hs, ss_sec_ws_ver := 13, ss_sec_ws_key := key\<rparr>))"
    using handle_request [of "s\<lparr>ss_http_recv_buffer := d'\<rparr>" subpath host key ?G, OF _ clean g] d(5) s path by auto
  have lits: "str ''Upgrade: websocket'' = field (str ''Upgrade'', str ''websocket'')" "str ''Connection: Upgrade'' = field (str ''Connection'', str ''Upgrade'')"
    "str ''Sec-WebSocket-Accept: '' = str ''Sec-WebSocket-Accept'' @ str '': ''"
    by (simp_all add: field_def str_def)
  show ?thesis
    using s d(4) by (simp add: ws_session_OnRead_def h then_do_def SendHttpResponse_def GenHashcode_def hash OnWSMessageSessionHandle_def
        AddHeader_def SetSessionCallback_def session_write_def session_read_def session_open_def lits response_lines_def head_text_def
        header_text_field) (simp add: field_def)
qed

section \<open>The client accepts the answer\<close>

lemma status_line:
  "parse_status_line (str ''HTTP/1.1 101 Switching Protocols'') r =
     Inr (r\<lparr>hr_proto := str ''HTTP'', hr_version := str ''1.1'', hr_status_code := 101, hr_status := str ''SwitchingProtocols''\<rparr>)"
proof -
  have "StringSplit (str ''HTTP/1.1 101 Switching Protocols'') [32] = [str ''HTTP/1.1'', str ''101'', str ''Switching'', str ''Protocols'']"
    "str_find [47] (str ''HTTP/1.1'') = Some 4" "atoi (str ''101'') = 101" "take 4 (str ''HTTP/1.1'') = str ''HTTP''"
    "drop 5 (str ''HTTP/1.1'') = str ''1.1''" "str ''Switching'' @ str ''Protocols'' = str ''SwitchingProtocols''"
    by code_simp+
  then show ?thesis by (simp add: parse_status_line_def)
qed

lemma response_lines_clean: "13 \<notin> set hash_code \<Longrightarrow> \<forall>l \<in> set (response_lines hash_code). l \<noteq> [] \<and> 13 \<notin> set l"
  using clean_literals by (simp add: response_lines_def field_def) (simp add: str_def)

lemma colonless_keys:
  "58 \<notin> set (str ''Upgrade'')" "58 \<notin> set (str ''Connection'')" "58 \<notin> set (str ''Sec-WebSocket-Accept'')"
  "58 \<notin> set (str ''Sec-WebSocket-Protocol'')"
  by code_simp+

lemma parse_response:
  assumes "hr_headers r = []"
  shows "\<exists>hs. parse_head (response_lines hash_code) r = Inr (r\<lparr>hr_proto := str ''HTTP'', hr_version := str ''1.1'', hr_status_code := 101,
      hr_status := str ''SwitchingProtocols'', hr_headers := hs\<rparr>) \<and> om_find hs (str ''Connection'') = Some (str ''Upgrade'') \<and>
    om_find hs (str ''Upgrade'') = Some (str ''websocket'') \<and> om_find hs (str ''Sec-WebSocket-Accept'') = Some hash_code"
proof -
  let ?hs = "[(str ''Upgrade'', str ''websocket''), (str ''Connection'', str ''Upgrade''), (str ''Sec-WebSocket-Accept'', hash_code),
    (str ''Sec-WebSocket-Protocol'', str ''protoo'')]"
  have "\<forall>h \<in> set ?hs. 58 \<notin> set (fst h) \<and> fst h \<noteq> str ''Content-Length'' \<and> fst h \<noteq> str ''Transfer-Encoding''"
    by (simp add: colonless_keys)
  note p = parse_header_fields [OF this]
  show ?thesis unfolding parse_head_def response_lines_def list.case status_line rbind_simps p
    by (rule exI, intro conjI, rule refl) (simp_all add: assms del: om_insert.simps)
qed

lemma AppendData_nothing: "AppendData mem p 0 d = Inr (0, d)"
  by (simp add: AppendData_def split: option.split)

lemma length_Base64Encode: "length (Base64Encode bs) \<le> 4 * length bs"
  by (induction bs rule: Base64Encode.induct) (auto simp: sextets_def)

lemma client_accepts:
  assumes new: "WebSocketClient_new mem rnd host subpath key True t0 = Inr c" and hash: "sha1 (Base64Encode key @ ws_guid) = Some hash"
    and len: "length hash < 0x10000"
  shows "\<exists>c1. client_OnRead mem sha1 now_ms 0 (head_text (response_lines (Base64Encode hash))) (protoo_AsyncConnect c) =
      Inr ([OnConnection, TcpRead], c1) \<and> wb_is_connected c1 \<and> wc_http_ready c1 \<and> frame_idle (wb_frame c1)"
proof -
  let ?resp = "head_text (response_lines (Base64Encode hash))" let ?c = "protoo_AsyncConnect c"
  have cl: "13 \<notin> set (Base64Encode hash)" by (rule clean_base64)
  obtain pos where pos: "str_find (crlf @ crlf) ?resp = Some pos" "pos + 4 = length ?resp" "StringSplit (take pos ?resp) crlf = response_lines (Base64Encode hash)"
    using head_lines [OF response_lines_clean [OF cl]] by (auto simp: response_lines_def)
  have l: "length ?resp < 0x7fff0000"
    using length_Base64Encode [of hash] len by (simp add: head_text_def response_lines_def field_def)
  obtain d r d' where d: "DataBuffer_new mem 10240 = Inr d" "buffer_ok d" "contents d = []"
    "AppendData mem (Some ?resp) (length ?resp) d = Inr (r, d')" "contents d' = ?resp"
    using new_buffer_append [OF l] by blast
  have c: "wc_key c = key" "hc_header_buffer (wc_http c) = d" "hc_resp (wc_http c) = None" "wc_conn_cb c" "\<not> wc_http_ready c"
    "frame_idle (wb_frame c)"
    using new d(1,2,3) by (auto simp: WebSocketClient_new_def HttpClient_new_def WebSocketFrame_new_def frame_idle_def)
  have c': "wc_key ?c = key" "hc_header_buffer (wc_http ?c) = d" "hc_resp (wc_http ?c) = None" "wc_conn_cb ?c" "\<not> wc_http_ready ?c"
    "wb_frame ?c = wb_frame c"
    using c by (simp_all add: protoo_AsyncConnect_def AsyncConnect_def http_Get_def Let_def del: om_insert.simps)
  obtain R where R: "HttpClientResponse_new mem = Inr R" "hr_headers R = []" "\<not> hr_header_ready R" "hr_data R = d" "\<not> hr_chunked R" "hr_content_length R = 0"
    using d(1) by (auto simp: HttpClientResponse_new_def)
  obtain hs where hs: "parse_head (response_lines (Base64Encode hash)) (R\<lparr>hr_header_ready := True\<rparr>) =
      Inr (R\<lparr>hr_header_ready := True, hr_proto := str ''HTTP'', hr_version := str ''1.1'', hr_status_code := 101,
        hr_status := str ''SwitchingProtocols'', hr_headers := hs\<rparr>)"
    "om_find hs (str ''Connection'') = Some (str ''Upgrade'')" "om_find hs (str ''Upgrade'') = Some (str ''websocket'')"
    "om_find hs (str ''Sec-WebSocket-Accept'') = Some (Base64Encode hash)"
    using parse_response [of "R\<lparr>hr_header_ready := True\<rparr>" "Base64Encode hash"] R(2) by auto
  have ne: "?resp \<noteq> []" by (simp add: head_text_def)
  let ?R = "R\<lparr>hr_header_ready := True, hr_proto := str ''HTTP'', hr_version := str ''1.1'', hr_status_code := 101,
        hr_status := str ''SwitchingProtocols'', hr_headers := hs\<rparr>"
  have z: "(18446744073709551612 + length ?resp - pos) mod size_max = 0" unfolding pos(2) [symmetric] by simp
  have http: "http_OnRead mem 0 ?resp (wc_http ?c) = Inr (\<lparr>he_call = Some 0, he_read = True\<rparr>,
      (wc_http ?c)\<lparr>hc_header_buffer := d', hc_resp := Some (?R\<lparr>hr_data := d\<rparr>)\<rparr>)"
    using ne R by (simp add: http_OnRead_def c' d Let_def pos(1,3) z hs deliver_body_def AppendData_nothing del: append.simps)
  show ?thesis
    using hs c c' by (simp add: client_OnRead_def http client_OnHttpRead_def HandleHttpRespone_def header_at_def GenWebSocketHashcode_def
        hash call_cb_def Let_def)
qed

section \<open>The handshake\<close>

lemma length_request:
  "length (head_text (request_line subpath # map field (request_fields host (Base64Encode key)))) < length subpath + length host + 4 * length key + 0x1000"
  using length_Base64Encode [of key] by (simp add: head_text_def request_line_def request_fields_def field_def to_string_def nat_to_string.simps)

text \<open>
  C10. The two ends open a connection: a new client that has been told to connect to the path \<open>/webrtc\<close> (with any query) sends a request which
  a new session of the message server accepts; the answer of the session is accepted by the client. Afterwards the session hands messages
  to its callback object and the client is connected, both between two frames. The host and the path contain no carriage
  return, and the path no space.
\<close>

theorem ws_handshake:
  assumes c: "WebSocketClient_new mem rnd host subpath key True t0 = Inr c" "length key = 16"
    and s: "WebSocketSession_new mem' rnd' False t1 addr = Inr (outs, s)"
    and clean: "13 \<notin> set subpath" "32 \<notin> set subpath" "13 \<notin> set host" and path: "fst (GetPathAndQuery subpath []) = str ''/webrtc''"
    and hash: "sha1 (Base64Encode key @ ws_guid) = Some hash" and len: "length hash < 0x10000" "length subpath + length host < 0x7ffe0000"
  shows "\<exists>req resp s1 c1.
    client_OnConnect mem sha1 t2 0 (protoo_AsyncConnect c) = Inr ([TcpWrite req], protoo_AsyncConnect c) \<and>
    ws_session_OnRead mem' sha1 (GetHandle (WsMessageServer_new key_file cert_file)) t3 0 req s = Inr ([TcpWrite resp, TcpRead], s1) \<and>
    session_open s1 \<and> frame_idle (wb_frame s1) \<and>
    client_OnRead mem sha1 t4 0 resp (protoo_AsyncConnect c) = Inr ([OnConnection, TcpRead], c1) \<and>
    wb_is_connected c1 \<and> wc_http_ready c1 \<and> frame_idle (wb_frame c1)"
proof -
  let ?req = "head_text (request_line subpath # map field (request_fields host (Base64Encode key)))"
  have "wc_subpath c = subpath" "hc_host (wc_http c) = host" "wc_key c = key"
    using c(1) by (auto simp: WebSocketClient_new_def HttpClient_new_def)
  then have "client_OnConnect mem sha1 t2 0 (protoo_AsyncConnect c) = Inr ([TcpWrite ?req], protoo_AsyncConnect c)"
    using c(2) by (simp add: client_OnConnect_def request_head)
  moreover have "length ?req < 0x7fff0000" using length_request [of subpath host key] len(2) c(2) by simp
  then obtain s1 where "ws_session_OnRead mem' sha1 (GetHandle (WsMessageServer_new key_file cert_file)) t3 0 ?req s =
      Inr ([TcpWrite (head_text (response_lines (Base64Encode hash))), TcpRead], s1)" "session_open s1" "frame_idle (wb_frame s1)"
    using server_answers [of mem' rnd' t1 addr outs s subpath host "Base64Encode key" sha1 hash, OF s clean clean_base64 path hash] by blast
  moreover obtain c1 where "client_OnRead mem sha1 t4 0 (head_text (response_lines (Base64Encode hash))) (protoo_AsyncConnect c) =
      Inr ([OnConnection, TcpRead], c1)" "wb_is_connected c1" "wc_http_ready c1" "frame_idle (wb_frame c1)"
    using client_accepts [of mem rnd host subpath key t0 c sha1 hash, OF c(1) hash len(1)] by blast
  ultimately show ?thesis by blast
qed

theorem ws_handshake_witness:
  "\<exists>c s outs req resp s1 c1. WebSocketClient_new (\<lambda>_. 0) (\<lambda>_. 7) (str ''sfu'') (str ''/webrtc?roomId=1'') (replicate 16 65) True 0 = Inr c \<and>
    WebSocketSession_new (\<lambda>_. 0) (\<lambda>_. 7) False 0 (str ''peer'') = Inr (outs, s) \<and>
    ws_session_OnRead (\<lambda>_. 0) (\<lambda>_. Some (replicate 20 1)) (GetHandle (WsMessageServer_new [] [])) 0 0 req s = Inr ([TcpWrite resp, TcpRead], s1) \<and>
    client_OnRead (\<lambda>_. 0) (\<lambda>_. Some (replicate 20 1)) 0 0 resp (protoo_AsyncConnect c) = Inr ([OnConnection, TcpRead], c1) \<and> session_open s1 \<and>
    wb_is_connected c1"
proof -
  obtain d where d: "DataBuffer_new (\<lambda>_. 0) 10240 = Inr d" using DataBuffer_new_ok [of 10240 "\<lambda>_. 0"] by auto
  obtain c where c: "WebSocketClient_new (\<lambda>_. 0) (\<lambda>_. 7) (str ''sfu'') (str ''/webrtc?roomId=1'') (replicate 16 65) True 0 = Inr c"
    by (simp add: WebSocketClient_new_def HttpClient_new_def WebSocketFrame_new_def d)
  obtain outs s where s: "WebSocketSession_new (\<lambda>_. 0) (\<lambda>_. 7) False 0 (str ''peer'') = Inr (outs, s)"
    by (simp add: WebSocketSession_new_def WebSocketFrame_new_def d)
  have "13 \<notin> set (str ''/webrtc?roomId=1'')" "32 \<notin> set (str ''/webrtc?roomId=1'')" "13 \<notin> set (str ''sfu'')"
    "fst (GetPathAndQuery (str ''/webrtc?roomId=1'') []) = str ''/webrtc''"
    by code_simp+
  note h = ws_handshake [of "\<lambda>_. 0" "\<lambda>_. 7" "str ''sfu''" "str ''/webrtc?roomId=1''" "replicate 16 65" 0 c "\<lambda>_. 0" "\<lambda>_. 7" 0 "str ''peer''" outs s
      "\<lambda>_. Some (replicate 20 1)" "replicate 20 1" 0 "[]" "[]" 0 0, OF c _ s this]
  then show ?thesis using c s by simp blast
qed

end
