(* ===== verification/Spec2Isabelle.thy ===== *)
theory Spec2Isabelle
  imports Rtp_Recv Rtp_Send Jitter_Buffer Tcc_Server Ice_Server Room_Media Media_Pusher Rtc_Recv_Relay Webrtc_Server Websocket_Total Websocket_Handshake
begin

text \<open>
  Verification of the media plane and the signalling transport of RTCPilot, a WebRTC selective forwarding unit (SFU): browsers publish audio and video to a room,
  the SFU forwards every packet to the subscribers, and several SFUs form a cluster.

  \<^bold>\<open>The program.\<close> A datagram arrives at \<open>WebRtcServer\<close>, which finds the \<open>WebRtcSession\<close> of the peer. The session answers connectivity
  checks through \<open>IceServer\<close> and STUN, hands handshake records to the DTLS layer, decrypts media and reports through \<open>SRtpSession\<close> and feeds the
  transport-wide feedback of \<open>TccServer\<close>. Media goes to the \<open>MediaPusher\<close> of its track, whose \<open>RtpRecvSession\<close> tracks sequence
  numbers, jitter and loss, asks for retransmissions through \<open>NackGenerator\<close> and restores retransmitted packets. The \<open>Room\<close> clones the packet
  for the \<open>MediaPuller\<close> of every subscriber, whose \<open>RtpSendSession\<close> caches it and answers NACKs; the subscriber's session encrypts it. Towards other
  SFUs \<open>RtcSendRelay\<close> and \<open>RtcRecvRelay\<close> carry the packets over plain UDP. The voice agent path buffers audio in \<open>FastJitterBuffer\<close>.
  Signalling runs over web sockets: \<open>WebSocketServer\<close> accepts connections, \<open>WebSocketSession\<close> answers the upgrade request and exchanges frames, and
  \<open>WebSocketClient\<close> is the other end, by which an SFU talks to the pilot center; both collect what TCP delivers in a \<open>DataBuffer\<close>.

  \<^bold>\<open>Conventions.\<close> Structures are records, enumerations datatypes, integers words of their width (64 bit times are \<open>int\<close>). Memory is a list
  of bytes; a read or write outside of it is the error \<open>OutOfBounds\<close>, a C++ exception is \<open>Throw\<close>, a failed assertion \<open>AssertFail\<close>, an
  undefined shift \<open>BadShift\<close>, a copy between overlapping ranges \<open>Overlap\<close>, a signed overflow \<open>Overflow\<close>, a null pointer \<open>NullDeref\<close>, a member of a deleted object \<open>UseAfterFree\<close>, and a fallible operation returns \<open>error + value\<close> (\<open>res\<close>). Objects shared by several maps live in a list and the maps
  hold positions. Callbacks that send something return it. The clock, random numbers, uninitialised memory, configuration
  values, HMAC-SHA1 (OpenSSL), SHA-1, libsrtp and \<open>uv_ip4_addr\<close> are arguments; what the theorems need of HMAC is the hypothesis \<open>hmac_up\<close>, and the
  theorems about SRTP hold for every library. Log texts, the event log and JSON texts are left out.

  \<^bold>\<open>Theories and sources\<close> (under \<open>src/src\<close>).
  \<^item> \<open>RTC_Prelude\<close>: error values, memory access, bit fields, ordered maps (\<open>std::map\<close>), maps into lists, the locales \<open>ordered_map\<close> and
    \<open>lens\<close>. \<open>Byte_Stream\<close>: \<open>utils/byte_stream.hpp\<close>. \<open>Byte_Crypto\<close>: the CRC of \<open>utils/byte_crypto.cpp\<close>.
  \<^item> \<open>Rtp_Pub\<close>, \<open>Rtp_Packet\<close>: \<open>net/rtprtcp/rtprtcp_pub.hpp\<close>, \<open>rtp_packet.{hpp,cpp}\<close>. Parsing stays inside the datagram, every packet the program can
    obtain is well formed, retransmission wrapping is reversible up to padding where the block has room for it, clones are faithful.
  \<^item> \<open>Rtcp_Reports\<close>, \<open>Rtcp_Feedback\<close>, \<open>Rtcp_Tcc\<close>, \<open>Rtcp_Walk\<close>: sender and receiver reports, NACK and PLI, transport-wide feedback, and the loop over a compound, with
    the locales \<open>rtcp_body\<close> and \<open>rtcp_emitter\<close> that state what a loop body keeps and sends.
  \<^item> \<open>Rtp_Session\<close>, \<open>Rtp_Recv\<close>, \<open>Rtp_Send\<close>, \<open>Nack_Generator\<close>, \<open>Tcc_Server\<close>, \<open>Jitter_Buffer\<close>: the classes of the same names under \<open>webrtc_room\<close>: sequence tracking
    refines the extended sequence number, the NACK list is exactly the set of missing numbers, retransmission requests are answered from the cache, but a cached packet that fills its block is overrun, reports carry
    the state, nothing is lost or invented by the jitter buffer.
  \<^item> \<open>Stun\<close>, \<open>Stun_Codec\<close>, \<open>Ice_Server\<close>: \<open>net/stun\<close>, \<open>ice_server.cpp\<close>: parsing inside the datagram, authentication, round trip, exactly the authentic requests are answered.
  \<^item> \<open>Media_Puller\<close>, \<open>Media_Pusher\<close>, \<open>Rtc_User\<close>, \<open>Room\<close>, \<open>Room_Media\<close>: subscriptions, tracks, membership, notifications and fan-out, with the
    invariant of every reachable room.
  \<^item> \<open>Rtc_Send_Relay\<close>, \<open>Rtc_Recv_Relay\<close>: the two ends of a link between SFUs and the port generator; a packet crosses the link unchanged. This theory
    follows a report back over the link.
  \<^item> \<open>Srtp_Session\<close>, \<open>Webrtc_Session\<close>, \<open>Webrtc_Server\<close>: transport security, demultiplexing and routing; what a datagram can and cannot cause.
  \<^item> \<open>Data_Buffer\<close>, \<open>Text_Util\<close>: \<open>utils/data_buffer.hpp\<close>, a queue of bytes in an array, which refines the abstract queue of the locale
    \<open>byte_queue\<close>; \<open>utils/stringex.hpp\<close> and \<open>utils/base64.cpp\<close>.
  \<^item> \<open>Websocket_Frame\<close>, \<open>Websocket_Base\<close>, \<open>Websocket_Session\<close>, \<open>Websocket_Client\<close>: \<open>net/http/websocket\<close> and \<open>net/http/http_client.{hpp,cpp}\<close>. Class inheritance is
    record extension and a record of the virtual functions; the locale \<open>ws_derived\<close> states what the base class relies on, and both derived classes
    interpret it. How TCP cuts the stream does not matter, messages that fit in the receive buffer arrive as they were sent, larger ones as well unless the
    buffer copies between overlapping ranges, and two inputs by which a peer crashes the server.
  \<^item> \<open>Websocket_Total\<close>: reading ends on arbitrary bytes (locale \<open>ws_total\<close>). \<open>Websocket_Handshake\<close>: \<open>ws_message/ws_protoo_client.cpp\<close> and
    \<open>ws_message_server.cpp\<close> as far as they open a connection; the opening handshake succeeds.

  \<^bold>\<open>Loops.\<close> Every loop is a total function. Loops over memory have a measure (the distance to the end, or the bytes left; an RTCP item is at least four bytes
  long), loops over containers are structural. Only the loop of \<open>WebSocketSessionBase::HandleFrame\<close>, which calls virtual functions, has fuel: one turn more
  than bytes are buffered. \<open>Websocket_Total\<close> shows that this is enough for every input: a turn that goes on has taken a frame of two bytes or more.

  \<^bold>\<open>Not modelled.\<close> The handshake of the DTLS layer (OpenSSL calls); SDP, WHIP, the JSON requests around the room, the room manager, the HTTP server and the
  protocol of the pilot center and the voice agent on top of the web sockets; RTMP, FLV and MP4 support, which the SFU path does not use; libuv sockets
  and timers, TLS, configuration files and logging; the coroutine variants (\<open>co_*\<close>) of the network classes; vendored code. Of the room the handlers that
  negotiate push and pull are missing, so subscriptions enter the model through \<open>add_puller\<close>.
\<close>

section \<open>Reports between SFUs\<close>





end
